(* ===== verification/Prelude.thy ===== *)
theory Prelude
  imports Complex_Main "HOL-Library.Sublist"
begin

text \<open>
  Shared vocabulary of the development.  It holds the JavaScript value and string
  operations the TypeScript sources use (\<open>trim\<close>, \<open>toLowerCase\<close>, \<open>split\<close>,
  \<open>includes\<close>, \<open>[...new Set(xs)]\<close>, truthiness, \<open>||\<close> and \<open>??\<close>), the
  decoded JSON values that request bodies and stored columns carry, and the generic
  lemmas on lists, options and maps the component theories share.

  Conventions.  A JavaScript string is a list of characters, one per code unit, so the
  model covers the code units below 256; case mapping acts on the ASCII letters.  A value
  that may be \<open>null\<close> or \<open>undefined\<close> is an \<open>option\<close>.  A \<open>Date\<close> is its number of
  milliseconds since the epoch, an \<open>int\<close>.  A thrown \<open>Error\<close> is the left side of a sum.
\<close>

section \<open>Collections of rewrite rules\<close>

named_theorems js_simps \<open>definitions of the JavaScript string and option helpers\<close>
named_theorems step_simps \<open>definitions of single operations of a stateful component\<close>

section \<open>Types shared by the components\<close>

type_synonym js_date = int
type_synonym 'a thrown = "string + 'a"

text \<open>Decoded JSON.  \<open>JFrac\<close> stands for a number that is not an integer.\<close>

datatype json =
    JNull
  | JBool bool
  | JInt int
  | JFrac rat
  | JStr string
  | JArr "json list"
  | JObj "(string \<times> json) list"

text \<open>Property access on a decoded object: \<open>None\<close> is \<open>undefined\<close>.\<close>

fun jget :: "json \<Rightarrow> string \<Rightarrow> json option" where
  "jget (JObj fs) k = map_of fs k"
| "jget _ k = None"

fun jstr :: "json option \<Rightarrow> string option" where
  "jstr (Some (JStr s)) = Some s"
| "jstr _ = None"

fun jint :: "json option \<Rightarrow> int option" where
  "jint (Some (JInt i)) = Some i"
| "jint _ = None"

definition nullish :: "json option \<Rightarrow> bool" where
  [js_simps]: "nullish v = (v = None \<or> v = Some JNull)"

section \<open>Strings\<close>

text \<open>The white space that \<open>trim\<close> removes and \<open>\\s\<close> matches, below code unit 256.\<close>

definition is_ws :: "char \<Rightarrow> bool" where
  "is_ws c = (let n = (of_char c :: nat) in (9 \<le> n \<and> n \<le> 13) \<or> n = 32 \<or> n = 160)"

definition is_lower :: "char \<Rightarrow> bool" where
  "is_lower c = (let n = (of_char c :: nat) in 97 \<le> n \<and> n \<le> 122)"

definition is_upper :: "char \<Rightarrow> bool" where
  "is_upper c = (let n = (of_char c :: nat) in 65 \<le> n \<and> n \<le> 90)"

definition is_digit :: "char \<Rightarrow> bool" where
  "is_digit c = (let n = (of_char c :: nat) in 48 \<le> n \<and> n \<le> 57)"

definition is_alpha :: "char \<Rightarrow> bool" where
  "is_alpha c = (is_lower c \<or> is_upper c)"

definition is_alnum :: "char \<Rightarrow> bool" where
  "is_alnum c = (is_alpha c \<or> is_digit c)"

definition is_hex :: "char \<Rightarrow> bool" where
  "is_hex c = (let n = (of_char c :: nat) in
     (48 \<le> n \<and> n \<le> 57) \<or> (65 \<le> n \<and> n \<le> 70) \<or> (97 \<le> n \<and> n \<le> 102))"

definition lower_char :: "char \<Rightarrow> char" where
  "lower_char c = (if is_upper c then char_of ((of_char c :: nat) + 32) else c)"

definition upper_char :: "char \<Rightarrow> char" where
  "upper_char c = (if is_lower c then char_of ((of_char c :: nat) - 32) else c)"

definition to_lower :: "string \<Rightarrow> string" where
  "to_lower = map lower_char"

definition to_upper :: "string \<Rightarrow> string" where
  "to_upper = map upper_char"

definition trim :: "string \<Rightarrow> string" where
  "trim s = rev (dropWhile is_ws (rev (dropWhile is_ws s)))"

text \<open>\<open>s.split(c)\<close> for a one-character separator: never empty.\<close>

fun split_on :: "char \<Rightarrow> string \<Rightarrow> string list" where
  "split_on c [] = [[]]"
| "split_on c (x # xs) =
     (if x = c then [] # split_on c xs
      else (case split_on c xs of [] \<Rightarrow> [[x]] | w # ws \<Rightarrow> (x # w) # ws))"

text \<open>\<open>xs.join(sep)\<close>.\<close>

fun join_with :: "string \<Rightarrow> string list \<Rightarrow> string" where
  "join_with sep [] = []"
| "join_with sep [w] = w"
| "join_with sep (w # ws) = w @ sep @ join_with sep ws"

text \<open>\<open>s.split(/[..]+/)\<close>: split at maximal runs of separator characters.\<close>

function split_runs :: "(char \<Rightarrow> bool) \<Rightarrow> string \<Rightarrow> string list" where
  "split_runs p s =
     (let w = takeWhile (\<lambda>c. \<not> p c) s; r = dropWhile (\<lambda>c. \<not> p c) s
      in if r = [] then [w] else w # split_runs p (dropWhile p r))"
  by pat_completeness auto
termination
proof (relation "measure (\<lambda>(p, s). length s)")
  fix p :: "char \<Rightarrow> bool" and s x y
  assume x: "x = takeWhile (\<lambda>c. \<not> p c) s" and y: "y = dropWhile (\<lambda>c. \<not> p c) s" and ne: "y \<noteq> []"
  have "p (hd y)" using ne y by (metis (no_types, lifting) hd_dropWhile)
  then have "length (dropWhile p y) \<le> length (tl y)"
    using ne by (cases y) (auto simp: length_dropWhile_le)
  also have "\<dots> < length y" using ne by (cases y) auto
  also have "\<dots> \<le> length s" by (simp add: y length_dropWhile_le)
  finally show "((p, dropWhile p y), (p, s)) \<in> measure (\<lambda>(p, s). length s)" by simp
qed simp

declare split_runs.simps [simp del]

definition ws_or_comma :: "char \<Rightarrow> bool" where
  "ws_or_comma c = (is_ws c \<or> c = CHR '','')"

text \<open>\<open>s.replace(/^prefix/, '')\<close> and \<open>s.includes(sub)\<close>.\<close>

definition strip_prefix :: "string \<Rightarrow> string \<Rightarrow> string" where
  "strip_prefix p s = (if prefix p s then drop (length p) s else s)"

definition str_contains :: "string \<Rightarrow> string \<Rightarrow> bool" where
  "str_contains sub s = list_ex (prefix sub) (suffixes s)"

definition any_contains :: "string list \<Rightarrow> string \<Rightarrow> bool" where
  "any_contains subs s = list_ex (\<lambda>sub. str_contains sub s) subs"

definition nonempty :: "string \<Rightarrow> bool" where
  "nonempty s = (s \<noteq> [])"

text \<open>\<open>[...new Set(xs)]\<close>: first occurrences, in order.\<close>

definition uniq :: "'a list \<Rightarrow> 'a list" where
  "uniq xs = rev (remdups (rev xs))"

text \<open>\<open>indexOf\<close> of an element, as an option, and of a character in a string.\<close>

fun index_of :: "'a list \<Rightarrow> 'a \<Rightarrow> nat option" where
  "index_of [] y = None"
| "index_of (x # xs) y = (if x = y then Some 0 else map_option Suc (index_of xs y))"

text \<open>String order of \<open>sort()\<close>: by code unit.\<close>

fun str_le :: "string \<Rightarrow> string \<Rightarrow> bool" where
  "str_le [] _ = True"
| "str_le (_ # _) [] = False"
| "str_le (a # s) (b # t) = ((of_char a :: nat) < of_char b \<or> (a = b \<and> str_le s t))"

fun insert_str :: "string \<Rightarrow> string list \<Rightarrow> string list" where
  "insert_str x [] = [x]"
| "insert_str x (y # ys) = (if str_le x y then x # y # ys else y # insert_str x ys)"

definition sort_strings :: "string list \<Rightarrow> string list" where
  "sort_strings xs = foldr insert_str xs []"

text \<open>Decimal rendering of integers (\<open>String(n)\<close>).\<close>

fun nat_dec :: "nat \<Rightarrow> string" where
  "nat_dec n = (if n < 10 then [char_of (n + 48)] else nat_dec (n div 10) @ [char_of (n mod 10 + 48)])"

declare nat_dec.simps [simp del]

definition int_dec :: "int \<Rightarrow> string" where
  "int_dec i = (if i < 0 then CHR ''-'' # nat_dec (nat (- i)) else nat_dec (nat i))"

text \<open>The value of a string of digits (\<open>Number(s)\<close> on what a digit pattern matched).\<close>

definition digit_val :: "char \<Rightarrow> nat" where
  "digit_val c = of_char c - 48"

definition dec_val :: "string \<Rightarrow> nat" where
  "dec_val s = foldl (\<lambda>a c. a * 10 + digit_val c) 0 s"

lemma of_char_digit [simp]: "n < 10 \<Longrightarrow> (of_char (char_of (n + 48) :: char) :: nat) = n + 48"
  by simp

lemma digit_val_char_of [simp]: "n < 10 \<Longrightarrow> digit_val (char_of (n + 48)) = n"
  unfolding digit_val_def by (simp del: of_char_of)

lemma is_digit_char_of [simp]: "n < 10 \<Longrightarrow> is_digit (char_of (n + 48 :: nat))"
  by (simp add: is_digit_def Let_def)

text \<open>Evaluation of decimal texts in proofs.\<close>

lemma digit_chars:
  "(char_of (48::nat)::char) = CHR ''0''" "(char_of (49::nat)::char) = CHR ''1''" "(char_of (50::nat)::char) = CHR ''2''"
  "(char_of (51::nat)::char) = CHR ''3''" "(char_of (52::nat)::char) = CHR ''4''" "(char_of (53::nat)::char) = CHR ''5''"
  "(char_of (54::nat)::char) = CHR ''6''" "(char_of (55::nat)::char) = CHR ''7''" "(char_of (56::nat)::char) = CHR ''8''"
  "(char_of (57::nat)::char) = CHR ''9''"
  by code_simp+

lemma nat_dec_more: "10 \<le> n \<Longrightarrow> nat_dec n = nat_dec (n div 10) @ [char_of (n mod 10 + 48)]"
  by (simp add: nat_dec.simps [of n])

lemma nat_dec_1: "n < 10 \<Longrightarrow> nat_dec n = [char_of (n + 48)]"
  by (simp add: nat_dec.simps)

lemmas nat_dec_eval = nat_dec_more nat_dec_1 digit_chars

lemma nat_dec_2: "10 \<le> n \<Longrightarrow> n < 100 \<Longrightarrow> nat_dec n = [char_of (n div 10 + 48), char_of (n mod 10 + 48)]"
  by (simp add: nat_dec.simps [of n] nat_dec_1)

lemma nat_dec_digits: "\<forall>c \<in> set (nat_dec n). is_digit c"
proof (induction n rule: nat_dec.induct)
  case (1 n)
  then show ?case by (subst nat_dec.simps) auto
qed

lemma nat_dec_not_Nil [simp]: "nat_dec n \<noteq> []"
  by (subst nat_dec.simps) simp

lemma digit_not_ws: "is_digit c \<Longrightarrow> \<not> is_ws c"
  by (auto simp: is_digit_def is_ws_def Let_def)

lemma lower_not_ws: "is_lower c \<Longrightarrow> \<not> is_ws c"
  by (auto simp: is_lower_def is_ws_def Let_def)

lemma lower_not_upper: "is_lower c \<Longrightarrow> \<not> is_upper c"
  by (auto simp: is_lower_def is_upper_def Let_def)

section \<open>Truthiness\<close>

text \<open>An optional string is falsy when it is absent or empty; \<open>a || b\<close> and \<open>a ?? b\<close>.\<close>

fun str_truthy :: "string option \<Rightarrow> bool" where
  "str_truthy (Some (c # cs)) = True"
| "str_truthy _ = False"

definition or_str :: "string option \<Rightarrow> string option \<Rightarrow> string option" where
  "or_str a b = (if str_truthy a then a else b)"

definition or_default :: "string option \<Rightarrow> string \<Rightarrow> string" where
  "or_default a d = (case a of Some (c # cs) \<Rightarrow> c # cs | _ \<Rightarrow> d)"

definition coalesce :: "'a option \<Rightarrow> 'a \<Rightarrow> 'a" where
  [js_simps]: "coalesce a d = (case a of None \<Rightarrow> d | Some x \<Rightarrow> x)"

lemma str_truthy_iff: "str_truthy a \<longleftrightarrow> (\<exists>s. a = Some s \<and> s \<noteq> [])"
  by (cases a rule: str_truthy.cases) auto

section \<open>Generic lemmas\<close>

lemma list_all_at: "list_all P xs \<Longrightarrow> i < length xs \<Longrightarrow> P (xs ! i)"
  by (simp add: list_all_length)

lemma set_uniq [simp]: "set (uniq xs) = set xs"
  by (simp add: uniq_def)

lemma distinct_uniq [simp]: "distinct (uniq xs)"
  by (simp add: uniq_def)

lemma uniq_Nil [simp]: "uniq [] = []"
  by (simp add: uniq_def)

lemma uniq_eq_Nil [simp]: "uniq xs = [] \<longleftrightarrow> xs = []"
  by (simp add: uniq_def)

lemma length_uniq_le: "length (uniq xs) \<le> length xs"
  by (simp add: uniq_def) (metis length_remdups_leq length_rev)

lemma uniq_distinct: "distinct xs \<Longrightarrow> uniq xs = xs"
  by (simp add: uniq_def distinct_remdups_id)

lemma index_of_None [simp]: "index_of xs y = None \<longleftrightarrow> y \<notin> set xs"
  by (induction xs) auto

lemma index_of_SomeD: "index_of xs y = Some i \<Longrightarrow> i < length xs \<and> xs ! i = y"
  by (induction xs arbitrary: i) (auto split: if_splits)

lemma index_of_nth: "distinct xs \<Longrightarrow> i < length xs \<Longrightarrow> index_of xs (xs ! i) = Some i"
proof (induction xs arbitrary: i)
  case (Cons x xs)
  then show ?case by (cases i) auto
qed simp

lemma split_on_not_Nil [simp]: "split_on c s \<noteq> []"
  by (cases s) (auto split: list.splits)

lemma split_on_no_sep: "c \<notin> set s \<Longrightarrow> split_on c s = [s]"
  by (induction s) auto

lemma split_on_append: "c \<notin> set w \<Longrightarrow> split_on c (w @ c # s) = w # split_on c s"
  by (induction w) auto

lemma split_on_pieces: "w \<in> set (split_on c s) \<Longrightarrow> c \<notin> set w"
proof (induction s arbitrary: w)
  case (Cons x xs)
  then show ?case
    by (cases "split_on c xs") (auto split: if_splits)
qed simp

text \<open>Splitting what was joined gives the pieces back.\<close>

lemma split_join:
  assumes "ws \<noteq> []" and "\<forall>w \<in> set ws. c \<notin> set w"
  shows "split_on c (join_with [c] ws) = ws"
  using assms
proof (induction "[c]" ws rule: join_with.induct)
  case (2 w)
  then show ?case by (simp add: split_on_no_sep)
next
  case (3 w v vs)
  then show ?case by (simp add: split_on_append)
qed simp

lemma join_split: "join_with [c] (split_on c s) = s"
proof (induction s)
  case (Cons x xs)
  then show ?case
    by (cases "split_on c xs" rule: list.exhaust; cases "tl (split_on c xs)")
       (auto simp: neq_Nil_conv)
qed simp

lemma set_join_with: "set (join_with sep ws) \<subseteq> (\<Union>w \<in> set ws. set w) \<union> set sep"
  by (induction sep ws rule: join_with.induct) auto

lemma set_insert_str [simp]: "set (insert_str x ys) = insert x (set ys)"
  by (induction ys) auto

lemma set_sort_strings [simp]: "set (sort_strings xs) = set xs"
  by (induction xs) (auto simp: sort_strings_def)

lemma distinct_insert_str: "distinct (insert_str x ys) \<longleftrightarrow> x \<notin> set ys \<and> distinct ys"
  by (induction ys) auto

lemma distinct_sort_strings [simp]: "distinct (sort_strings xs) \<longleftrightarrow> distinct xs"
proof (induction xs)
  case (Cons x xs)
  then show ?case by (simp add: sort_strings_def distinct_insert_str) (metis set_sort_strings sort_strings_def)
qed (simp add: sort_strings_def)

text \<open>Trimming.\<close>

lemma dropWhile_id: "(xs = [] \<or> \<not> P (hd xs)) \<Longrightarrow> dropWhile P xs = xs"
  by (cases xs) auto

lemma trim_id: "s = [] \<or> (\<not> is_ws (hd s) \<and> \<not> is_ws (last s)) \<Longrightarrow> trim s = s"
  by (auto simp: trim_def dropWhile_id hd_rev)

lemma trim_no_ws: "(\<forall>c \<in> set s. \<not> is_ws c) \<Longrightarrow> trim s = s"
  by (rule trim_id) (auto simp: last_in_set)

lemma set_trim: "set (trim s) \<subseteq> set s"
  unfolding trim_def by (metis (no_types, lifting) set_dropWhileD set_rev subsetI)

lemma length_trim_le: "length (trim s) \<le> length s"
  unfolding trim_def by (metis length_dropWhile_le length_rev order_trans)

lemma trim_eq_Nil: "trim s = [] \<longleftrightarrow> (\<forall>c \<in> set s. is_ws c)"
proof
  assume "trim s = []"
  then have all: "\<forall>c \<in> set (dropWhile is_ws s). is_ws c"
    by (simp add: trim_def dropWhile_eq_Nil_conv)
  have "dropWhile is_ws s = []"
  proof (rule ccontr)
    assume ne: "dropWhile is_ws s \<noteq> []"
    from hd_dropWhile [OF ne] all ne show False by auto
  qed
  then show "\<forall>c \<in> set s. is_ws c" by (simp add: dropWhile_eq_Nil_conv)
next
  assume "\<forall>c \<in> set s. is_ws c"
  then show "trim s = []" by (auto simp: trim_def dest: set_dropWhileD)
qed

lemma trim_ends: "trim s = [] \<or> (\<not> is_ws (hd (trim s)) \<and> \<not> is_ws (last (trim s)))"
proof (cases "trim s = []")
  case False
  let ?u = "dropWhile is_ws s"
  let ?v = "dropWhile is_ws (rev ?u)"
  have t: "trim s = rev ?v" by (simp add: trim_def)
  with False have v: "?v \<noteq> []" by auto
  have l: "\<not> is_ws (last (trim s))"
    using hd_dropWhile [OF v] v by (simp add: t last_rev)
  have "last (rev ?u) = last (takeWhile is_ws (rev ?u) @ ?v)" by simp
  then have "last ?v = last (rev ?u)" using last_appendR [OF v, of "takeWhile is_ws (rev ?u)"] by simp
  moreover have "?u \<noteq> []" using v by (metis dropWhile.simps(1) rev.simps(1))
  ultimately have "hd (trim s) = hd ?u" by (simp add: t hd_rev last_rev)
  moreover have "\<not> is_ws (hd ?u)" using \<open>?u \<noteq> []\<close> by (rule hd_dropWhile)
  ultimately show ?thesis using l by simp
qed simp

lemma trim_trim [simp]: "trim (trim s) = trim s"
  by (rule trim_id) (use trim_ends [of s] in auto)

text \<open>Case mapping.\<close>

lemma of_char_bound: "(of_char c :: nat) < 256"
  by simp

lemma of_lower_char: "(of_char (lower_char c) :: nat) = (if is_upper c then of_char c + 32 else of_char c)"
  by (auto simp: lower_char_def is_upper_def Let_def)

lemma lower_char_not_upper: "\<not> is_upper (lower_char c)"
  unfolding is_upper_def Let_def of_lower_char by (auto simp: is_upper_def Let_def)

lemma lower_char_idem [simp]: "lower_char (lower_char c) = lower_char c"
  using lower_char_not_upper [of c] by (simp add: lower_char_def [of "lower_char c"])

lemma to_lower_idem [simp]: "to_lower (to_lower s) = to_lower s"
  by (simp add: to_lower_def)

lemma of_upper_char: "(of_char (upper_char c) :: nat) = (if is_lower c then of_char c - 32 else of_char c)"
  by (auto simp: upper_char_def is_lower_def Let_def)

lemma upper_char_not_lower: "\<not> is_lower (upper_char c)"
  unfolding is_lower_def Let_def of_upper_char by (auto simp: is_lower_def Let_def)

lemma upper_char_idem [simp]: "upper_char (upper_char c) = upper_char c"
  using upper_char_not_lower [of c] by (simp add: upper_char_def [of "upper_char c"])

lemma to_upper_idem [simp]: "to_upper (to_upper s) = to_upper s"
  by (simp add: to_upper_def)

lemma length_to_lower [simp]: "length (to_lower s) = length s"
  by (simp add: to_lower_def)

lemma length_to_upper [simp]: "length (to_upper s) = length s"
  by (simp add: to_upper_def)

lemma to_upper_id: "(\<forall>c \<in> set s. \<not> is_lower c) \<Longrightarrow> to_upper s = s"
  by (simp add: to_upper_def upper_char_def map_idI)

lemma to_lower_id: "(\<forall>c \<in> set s. \<not> is_upper c) \<Longrightarrow> to_lower s = s"
  by (simp add: to_lower_def lower_char_def map_idI)

end
