(* ===== verification/RuleSchedule.thy ===== *)
theory RuleSchedule
  imports Prelude
begin

text \<open>
  Recurring weekly schedules of routing rules (\<open>src/lib/rule-schedule.ts\<close>): the grammar
  \<open>tz|days HH:MM-HH:MM;...\<close>, its canonical form and the test whether an instant lies inside
  a window.  \<open>Intl\<close> is a parameter: \<open>tz_known\<close> says which names
  \<open>Intl.DateTimeFormat\<close> accepts, \<open>intl\<close> gives the weekday name, hour and minute that
  \<open>formatToParts\<close> reports.  The window test is shown equal to membership in a circular
  interval of the week's 10080 minutes, and printing then parsing gives the schedule back.
\<close>

section \<open>Weekly windows\<close>

text \<open>
  The test both schedule modules run: a window whose end is not after its start belongs to
  the day it starts on and runs past midnight.
\<close>

definition window_contains :: "int list \<Rightarrow> int \<Rightarrow> int \<Rightarrow> int \<Rightarrow> int \<Rightarrow> bool" where
  "window_contains days s e day minutes =
     (if s < e then day \<in> set days \<and> minutes \<ge> s \<and> minutes < e
      else (day \<in> set days \<and> minutes \<ge> s) \<or> ((day + 6) mod 7 \<in> set days \<and> minutes < e))"

text \<open>
  Reference definition: the minute of the week lies less than the window's length after the
  start of one of its days, on the circle of 10080 minutes.
\<close>

definition window_length :: "int \<Rightarrow> int \<Rightarrow> int" where
  "window_length s e = (if s < e then e - s else e + 1440 - s)"

definition in_week_window :: "int list \<Rightarrow> int \<Rightarrow> int \<Rightarrow> int \<Rightarrow> int \<Rightarrow> bool" where
  "in_week_window days s e day minutes =
     (\<exists>d \<in> set days. (day * 1440 + minutes - (d * 1440 + s)) mod 10080 < window_length s e)"

lemma week_offset:
  fixes day d m s :: int
  assumes "0 \<le> day" "day < 7" "0 \<le> d" "d < 7" "0 \<le> m" "m < 1440" "0 \<le> s" "s < 1440"
  shows "(day * 1440 + m - (d * 1440 + s)) mod 10080 =
    (if day = d \<and> s \<le> m then m - s
     else if day * 1440 + m < d * 1440 + s then day * 1440 + m - (d * 1440 + s) + 10080
     else day * 1440 + m - (d * 1440 + s))"
proof -
  let ?x = "day * 1440 + m - (d * 1440 + s)"
  have b: "- 10080 < ?x" "?x < 10080" using assms by auto
  show ?thesis
  proof (cases "?x < 0")
    case True
    have "?x mod 10080 = (?x + 10080) mod 10080" by simp
    also have "\<dots> = ?x + 10080" using b True by (intro mod_pos_pos_trivial) auto
    finally show ?thesis using True by auto
  next
    case False
    then have "?x mod 10080 = ?x" using b by (intro mod_pos_pos_trivial) auto
    then show ?thesis using False by auto
  qed
qed

lemma window_day_contains:
  fixes day d m s e :: int
  assumes "0 \<le> day" "day < 7" "0 \<le> d" "d < 7" "0 \<le> m" "m < 1440" "0 \<le> s" "s < 1440" "0 \<le> e" "e \<le> 1440"
  shows "(day * 1440 + m - (d * 1440 + s)) mod 10080 < window_length s e \<longleftrightarrow>
    (if s < e then day = d \<and> m \<ge> s \<and> m < e
     else (day = d \<and> m \<ge> s) \<or> ((day + 6) mod 7 = d \<and> m < e))"
proof -
  have prev: "(day + 6) mod 7 = (if day = 0 then 6 else day - 1)"
    using assms(1,2) by presburger
  show ?thesis
    unfolding week_offset [OF assms(1-8)] window_length_def prev using assms by auto
qed

lemma window_contains_week:
  assumes "0 \<le> day" "day < 7" "0 \<le> m" "m < 1440" "0 \<le> s" "s < 1440" "0 \<le> e" "e \<le> 1440"
    and days: "\<forall>d \<in> set days. 0 \<le> d \<and> d < 7"
  shows "window_contains days s e day m = in_week_window days s e day m"
proof -
  have "in_week_window days s e day m \<longleftrightarrow> (\<exists>d \<in> set days.
      (if s < e then day = d \<and> m \<ge> s \<and> m < e
       else (day = d \<and> m \<ge> s) \<or> ((day + 6) mod 7 = d \<and> m < e)))"
    unfolding in_week_window_def using assms window_day_contains by (intro bex_cong) auto
  then show ?thesis by (auto simp: window_contains_def)
qed

section \<open>Parsing\<close>

definition DAY_NAMES :: "string list" where
  "DAY_NAMES = [''sun'', ''mon'', ''tue'', ''wed'', ''thu'', ''fri'', ''sat'']"

definition MAX_WINDOWS :: nat where "MAX_WINDOWS = 14"

record schedule_window =
  w_days :: "int list"
  w_startMin :: int
  w_endMin :: int

record rule_schedule =
  s_timezone :: string
  s_windows :: "schedule_window list"

text \<open>\<open>DAY_NAMES.indexOf(name)\<close>: \<open>-1\<close> when absent.\<close>

definition day_index :: "string \<Rightarrow> int" where
  "day_index name = (case index_of DAY_NAMES name of None \<Rightarrow> -1 | Some i \<Rightarrow> int i)"

definition is_valid_timezone :: "(string \<Rightarrow> bool) \<Rightarrow> string \<Rightarrow> bool" where
  "is_valid_timezone tz_known tz = (tz_known tz \<and> length tz \<le> 64)"

text \<open>The pattern \<open>^([01]?\\d|2[0-4]):([0-5]\\d)$\<close>, as hour and minute.\<close>

fun match_time :: "string \<Rightarrow> (nat \<times> nat) option" where
  "match_time [a, c, m, n] =
     (if c = CHR '':'' \<and> is_digit a \<and> is_digit m \<and> digit_val m \<le> 5 \<and> is_digit n
      then Some (digit_val a, digit_val m * 10 + digit_val n) else None)"
| "match_time [a, b, c, m, n] =
     (if c = CHR '':'' \<and> is_digit a \<and> is_digit b \<and> is_digit m \<and> digit_val m \<le> 5 \<and> is_digit n
         \<and> (digit_val a \<le> 1 \<or> (digit_val a = 2 \<and> digit_val b \<le> 4))
      then Some (digit_val a * 10 + digit_val b, digit_val m * 10 + digit_val n) else None)"
| "match_time _ = None"

definition parse_time :: "string \<Rightarrow> int thrown" where
  "parse_time v = (case match_time v of
       None \<Rightarrow> Inl (''Invalid time \"'' @ v @ ''\", use HH:MM'')
     | Some (h, m) \<Rightarrow>
         (let mins = int h * 60 + int m in
          if mins > 1440 then Inl (''Invalid time \"'' @ v @ ''\"'') else Inr mins))"

text \<open>The loop \<open>for (let d = a; ; d = (d + 1) % 7)\<close> up to and including \<open>b\<close>.\<close>

function day_range :: "nat \<Rightarrow> nat \<Rightarrow> int list" where
  "day_range a b = (if 7 \<le> a \<or> 7 \<le> b then []
     else int a # (if a = b then [] else day_range ((a + 1) mod 7) b))"
  by pat_completeness auto
termination
proof (relation "measure (\<lambda>(a :: nat, b). if a \<le> b then b - a else b + 7 - a)", goal_cases)
  case (2 a b)
  then have "a < 7" "b < 7" "a \<noteq> b" by auto
  moreover have "(a + 1) mod 7 = (if a = 6 then 0 else a + 1)"
    using \<open>a < 7\<close> by auto
  ultimately show ?case by auto
qed simp

declare day_range.simps [simp del]

definition parse_day_part :: "string \<Rightarrow> int list thrown" where
  "parse_day_part part = (case split_on CHR ''-'' (trim part) of
       [x] \<Rightarrow> (if day_index x < 0 then Inl (''Unknown day \"'' @ trim part @ ''\"'')
               else Inr [day_index x])
     | [x, y] \<Rightarrow> (if day_index x < 0 \<or> day_index y < 0
               then Inl (''Unknown day range \"'' @ trim part @ ''\"'')
               else Inr (day_range (nat (day_index x)) (nat (day_index y))))
     | _ \<Rightarrow> Inl (''Invalid day range \"'' @ trim part @ ''\"''))"

fun parse_day_parts :: "string list \<Rightarrow> int list thrown" where
  "parse_day_parts [] = Inr []"
| "parse_day_parts (p # ps) = (case parse_day_part p of
       Inl e \<Rightarrow> Inl e
     | Inr ds \<Rightarrow> (case parse_day_parts ps of Inl e \<Rightarrow> Inl e | Inr es \<Rightarrow> Inr (ds @ es)))"

definition parse_days :: "string \<Rightarrow> int list thrown" where
  "parse_days spec = (case parse_day_parts (split_on CHR '','' (to_lower spec)) of
       Inl e \<Rightarrow> Inl e
     | Inr out \<Rightarrow> (if out = [] then Inl ''Pick at least one day'' else Inr (sort (uniq out))))"

text \<open>\<open>\\d{1,2}:\\d{2}\<close>, and the chunk pattern \<open>^(\\S+)\\s+(time)-(time)$\<close>.\<close>

fun time_shape :: "string \<Rightarrow> bool" where
  "time_shape [a, c, m, n] = (is_digit a \<and> c = CHR '':'' \<and> is_digit m \<and> is_digit n)"
| "time_shape [a, b, c, m, n] = (is_digit a \<and> is_digit b \<and> c = CHR '':'' \<and> is_digit m \<and> is_digit n)"
| "time_shape _ = False"

definition match_chunk :: "string \<Rightarrow> (string \<times> string \<times> string) option" where
  "match_chunk chunk =
     (let d = takeWhile (\<lambda>c. \<not> is_ws c) chunk;
          r = dropWhile is_ws (dropWhile (\<lambda>c. \<not> is_ws c) chunk)
      in if d = [] then None
         else (case split_on CHR ''-'' r of
             [a, b] \<Rightarrow> (if time_shape a \<and> time_shape b \<and> length d < length chunk
                        then Some (d, a, b) else None)
           | _ \<Rightarrow> None))"

definition parse_window :: "string \<Rightarrow> schedule_window thrown" where
  "parse_window chunk = (case match_chunk chunk of
       None \<Rightarrow> Inl (''Invalid window \"'' @ chunk @ ''\"'')
     | Some (d, a, b) \<Rightarrow> (case parse_time a of Inl e \<Rightarrow> Inl e
       | Inr startMin \<Rightarrow> (case parse_time b of Inl e \<Rightarrow> Inl e
         | Inr endMin \<Rightarrow>
             if startMin = endMin then Inl ''Window start and end must differ''
             else if startMin \<ge> 1440 then Inl ''Window must start before 24:00''
             else (case parse_days d of Inl e \<Rightarrow> Inl e
               | Inr ds \<Rightarrow> Inr \<lparr>w_days = ds, w_startMin = startMin, w_endMin = endMin\<rparr>))))"

fun parse_windows :: "string list \<Rightarrow> schedule_window list thrown" where
  "parse_windows [] = Inr []"
| "parse_windows (c # cs) = (case parse_window c of
       Inl e \<Rightarrow> Inl e
     | Inr w \<Rightarrow> (case parse_windows cs of Inl e \<Rightarrow> Inl e | Inr ws \<Rightarrow> Inr (w # ws)))"

definition parse_rule_schedule :: "(string \<Rightarrow> bool) \<Rightarrow> string \<Rightarrow> rule_schedule thrown" where
  "parse_rule_schedule tz_known input =
     (let raw = trim input in
      case index_of raw CHR ''|'' of
        None \<Rightarrow> Inl ''Schedule must look like \"Timezone|mon-fri 09:00-17:00\"''
      | Some sep \<Rightarrow>
         if sep < 1 then Inl ''Schedule must look like \"Timezone|mon-fri 09:00-17:00\"'' else
         let timezone = trim (take sep raw) in
         if \<not> is_valid_timezone tz_known timezone then Inl (''Unknown timezone \"'' @ timezone @ ''\"'') else
         (case parse_windows (filter nonempty (map trim (split_on CHR '';'' (drop (Suc sep) raw)))) of
            Inl e \<Rightarrow> Inl e
          | Inr windows \<Rightarrow>
              if windows = [] then Inl ''Add at least one time window''
              else if length windows > MAX_WINDOWS then Inl ''At most 14 windows''
              else Inr \<lparr>s_timezone = timezone, s_windows = windows\<rparr>))"

section \<open>The canonical form\<close>

definition pad2 :: "nat \<Rightarrow> string" where
  "pad2 n = (if n < 10 then CHR ''0'' # nat_dec n else nat_dec n)"

definition fmt_minutes :: "int \<Rightarrow> string" where
  "fmt_minutes m = pad2 (nat (m div 60)) @ '':'' @ pad2 (nat (m mod 60))"

definition fmt_window :: "schedule_window \<Rightarrow> string" where
  "fmt_window w = join_with '','' (map (\<lambda>d. DAY_NAMES ! nat d) (w_days w)) @ '' '' @
     fmt_minutes (w_startMin w) @ ''-'' @ fmt_minutes (w_endMin w)"

definition fmt_schedule :: "rule_schedule \<Rightarrow> string" where
  "fmt_schedule s = s_timezone s @ ''|'' @ join_with '';'' (map fmt_window (s_windows s))"

definition normalize_rule_schedule :: "(string \<Rightarrow> bool) \<Rightarrow> string option \<Rightarrow> string option thrown" where
  "normalize_rule_schedule tz_known input = (case input of
       None \<Rightarrow> Inr None
     | Some raw \<Rightarrow>
        (let txt = trim raw in
         if txt = [] then Inr None
         else if length txt > 400 then Inl ''Schedule is too long''
         else (case parse_rule_schedule tz_known txt of
             Inl e \<Rightarrow> Inl e | Inr s \<Rightarrow> Inr (Some (fmt_schedule s)))))"

section \<open>Evaluation\<close>

definition local_parts :: "(string \<Rightarrow> js_date \<Rightarrow> string \<times> nat \<times> nat) \<Rightarrow> string \<Rightarrow> js_date \<Rightarrow> int \<times> int" where
  "local_parts intl tz t = (case intl tz t of (weekday, hour, minute) \<Rightarrow>
     (day_index (take 3 (to_lower weekday)), int (hour mod 24) * 60 + int minute))"

text \<open>An unparseable schedule leaves the rule eligible.\<close>

definition is_within_rule_schedule ::
  "(string \<Rightarrow> bool) \<Rightarrow> (string \<Rightarrow> js_date \<Rightarrow> string \<times> nat \<times> nat) \<Rightarrow> string option \<Rightarrow> js_date \<Rightarrow> bool" where
  "is_within_rule_schedule tz_known intl schedule t = (case schedule of
       None \<Rightarrow> True
     | Some txt \<Rightarrow> if txt = [] then True else
        (case parse_rule_schedule tz_known txt of
           Inl _ \<Rightarrow> True
         | Inr p \<Rightarrow> (case local_parts intl (s_timezone p) t of (day, minutes) \<Rightarrow>
             list_ex (\<lambda>w. window_contains (w_days w) (w_startMin w) (w_endMin w) day minutes) (s_windows p))))"

section \<open>Well-formed schedules and the parser\<close>

definition wf_window :: "schedule_window \<Rightarrow> bool" where
  "wf_window w \<longleftrightarrow> w_days w \<noteq> [] \<and> sorted (w_days w) \<and> distinct (w_days w)
     \<and> (\<forall>d \<in> set (w_days w). 0 \<le> d \<and> d < 7)
     \<and> 0 \<le> w_startMin w \<and> w_startMin w < 1440 \<and> 0 \<le> w_endMin w \<and> w_endMin w \<le> 1440
     \<and> w_startMin w \<noteq> w_endMin w"

definition wf_schedule :: "(string \<Rightarrow> bool) \<Rightarrow> rule_schedule \<Rightarrow> bool" where
  "wf_schedule tz_known s \<longleftrightarrow> is_valid_timezone tz_known (s_timezone s)
     \<and> s_timezone s \<noteq> [] \<and> trim (s_timezone s) = s_timezone s \<and> CHR ''|'' \<notin> set (s_timezone s)
     \<and> s_windows s \<noteq> [] \<and> length (s_windows s) \<le> MAX_WINDOWS \<and> (\<forall>w \<in> set (s_windows s). wf_window w)"

lemma day_index_bounds: "day_index x \<ge> -1 \<and> day_index x < 7"
  by (auto simp: day_index_def DAY_NAMES_def split: option.splits dest!: index_of_SomeD)

lemma day_range_bounds: "d \<in> set (day_range a b) \<Longrightarrow> 0 \<le> d \<and> d < 7"
proof (induction a b rule: day_range.induct)
  case (1 a b)
  then show ?case by (subst (asm) (2) day_range.simps) (auto split: if_splits)
qed

lemma day_range_first: "a < 7 \<Longrightarrow> b < 7 \<Longrightarrow> int a \<in> set (day_range a b)"
  by (subst day_range.simps) auto

text \<open>The loop over a day range stops with the last day included.\<close>

lemma day_range_last: "a < 7 \<Longrightarrow> b < 7 \<Longrightarrow> last (day_range a b) = int b"
proof (induction a b rule: day_range.induct)
  case (1 a b)
  show ?case
  proof (cases "a = b")
    case True
    with 1 show ?thesis by (subst day_range.simps) simp
  next
    case False
    with 1 have "last (day_range ((a + 1) mod 7) b) = int b" by simp
    moreover have "day_range ((a + 1) mod 7) b \<noteq> []"
      using 1 by (subst day_range.simps) simp
    ultimately show ?thesis using 1 False by (subst day_range.simps) simp
  qed
qed

lemma parse_day_part_bounds: "parse_day_part p = Inr ds \<Longrightarrow> d \<in> set ds \<Longrightarrow> 0 \<le> d \<and> d < 7"
  using day_index_bounds day_range_bounds
  by (fastforce simp: parse_day_part_def split: list.splits if_splits)

lemma parse_day_parts_bounds: "parse_day_parts ps = Inr ds \<Longrightarrow> d \<in> set ds \<Longrightarrow> 0 \<le> d \<and> d < 7"
proof (induction ps arbitrary: ds)
  case (Cons p ps)
  then show ?case by (auto split: sum.splits dest: parse_day_part_bounds)
qed simp

lemma parse_days_wf:
  assumes "parse_days spec = Inr ds"
  shows "ds \<noteq> [] \<and> sorted ds \<and> distinct ds \<and> (\<forall>d \<in> set ds. 0 \<le> d \<and> d < 7)"
proof -
  obtain out where o: "parse_day_parts (split_on CHR '','' (to_lower spec)) = Inr out"
    and ne: "out \<noteq> []" and ds: "ds = sort (uniq out)"
    using assms by (auto simp: parse_days_def split: sum.splits if_splits)
  have "set ds = set out" by (simp add: ds)
  then have "ds \<noteq> []" using ne by auto
  then show ?thesis using \<open>set ds = set out\<close> parse_day_parts_bounds [OF o] by (auto simp: ds)
qed

lemma parse_time_bounds: "parse_time v = Inr m \<Longrightarrow> 0 \<le> m \<and> m \<le> 1440"
  by (auto simp: parse_time_def Let_def split: option.splits if_splits)

lemma parse_window_wf: "parse_window c = Inr w \<Longrightarrow> wf_window w"
  by (auto simp: parse_window_def wf_window_def split: option.splits sum.splits if_splits
      dest!: parse_time_bounds parse_days_wf)

lemma parse_windows_wf: "parse_windows cs = Inr ws \<Longrightarrow> \<forall>w \<in> set ws. wf_window w"
  by (induction cs arbitrary: ws) (auto split: sum.splits dest: parse_window_wf)

lemma index_of_take: "index_of xs y = Some i \<Longrightarrow> y \<notin> set (take i xs)"
  by (induction xs arbitrary: i) (auto split: if_splits)

lemma parse_rule_schedule_wf:
  assumes "parse_rule_schedule tz_known input = Inr s"
  shows "wf_schedule tz_known s"
proof -
  let ?raw = "trim input"
  obtain sep where sep: "index_of ?raw CHR ''|'' = Some sep" and one: "\<not> sep < 1"
    using assms by (auto simp: parse_rule_schedule_def Let_def split: option.splits if_splits)
  let ?tz = "trim (take sep ?raw)"
  obtain ws where valid: "is_valid_timezone tz_known ?tz"
    and ws: "parse_windows (filter nonempty (map trim (split_on CHR '';'' (drop (Suc sep) ?raw)))) = Inr ws"
    and len: "ws \<noteq> []" "length ws \<le> MAX_WINDOWS" and s: "s = \<lparr>s_timezone = ?tz, s_windows = ws\<rparr>"
    using assms sep one
    by (auto simp: parse_rule_schedule_def Let_def split: option.splits if_splits sum.splits)
  have nn: "?raw \<noteq> []" using sep by auto
  have "hd ?raw \<in> set (take sep ?raw)" using nn one by (cases ?raw; cases sep) auto
  moreover have "\<not> is_ws (hd ?raw)" using nn trim_ends [of input] by auto
  ultimately have "?tz \<noteq> []" by (auto simp: trim_eq_Nil)
  moreover have "CHR ''|'' \<notin> set ?tz"
    using index_of_take [OF sep] set_trim by blast
  ultimately show ?thesis
    using valid len parse_windows_wf [OF ws] by (auto simp: wf_schedule_def s)
qed

section \<open>Printing and parsing\<close>

lemma char_of_48: "char_of (48 :: nat) = CHR ''0''"
  by code_simp

lemma pad2_eq: "n < 100 \<Longrightarrow> pad2 n = [char_of (n div 10 + 48), char_of (n mod 10 + 48)]"
  by (auto simp: pad2_def nat_dec_1 nat_dec_2 char_of_48)

lemma char_of_digit_neq [simp]:
  "n < 10 \<Longrightarrow> char_of (n + 48 :: nat) \<noteq> CHR '':''"
  "n < 10 \<Longrightarrow> char_of (n + 48 :: nat) \<noteq> CHR ''-''"
  "n < 10 \<Longrightarrow> char_of (n + 48 :: nat) \<noteq> CHR '';''"
proof -
  have "is_digit (char_of (n + 48 :: nat))" if "n < 10" using that by simp
  moreover have "\<not> is_digit (CHR '':'')" "\<not> is_digit (CHR ''-'')" "\<not> is_digit (CHR '';'')"
    by (simp_all add: is_digit_def)
  ultimately show
    "n < 10 \<Longrightarrow> char_of (n + 48 :: nat) \<noteq> CHR '':''"
    "n < 10 \<Longrightarrow> char_of (n + 48 :: nat) \<noteq> CHR ''-''"
    "n < 10 \<Longrightarrow> char_of (n + 48 :: nat) \<noteq> CHR '';''" by metis+
qed

lemma fmt_minutes_eq:
  assumes "0 \<le> m" "m \<le> 1440"
  obtains h n :: nat where "h \<le> 24" "n < 60" "m = int h * 60 + int n"
    "fmt_minutes m = [char_of (h div 10 + 48), char_of (h mod 10 + 48), CHR '':'',
       char_of (n div 10 + 48), char_of (n mod 10 + 48)]"
proof -
  let ?h = "nat (m div 60)" and ?n = "nat (m mod 60)"
  have "?h \<le> 24" "?n < 60" "m = int ?h * 60 + int ?n" using assms by auto
  moreover then have "fmt_minutes m = [char_of (?h div 10 + 48), char_of (?h mod 10 + 48), CHR '':'',
       char_of (?n div 10 + 48), char_of (?n mod 10 + 48)]"
    unfolding fmt_minutes_def by (simp add: pad2_eq)
  ultimately show ?thesis by (rule that)
qed

lemma parse_time_fmt:
  assumes "0 \<le> m" "m \<le> 1440"
  shows "parse_time (fmt_minutes m) = Inr m"
proof -
  from fmt_minutes_eq [OF assms] obtain h n where h: "h \<le> 24" "n < 60" "m = int h * 60 + int n"
    and f: "fmt_minutes m = [char_of (h div 10 + 48), char_of (h mod 10 + 48), CHR '':'',
       char_of (n div 10 + 48), char_of (n mod 10 + 48)]" .
  have "h div 10 < 10" "h mod 10 < 10" "n div 10 < 10" "n mod 10 < 10" "n div 10 \<le> 5" using h by auto
  moreover have "h div 10 \<le> 1 \<or> h div 10 = 2 \<and> h mod 10 \<le> 4" using h(1) by presburger
  moreover have "h div 10 * 10 + h mod 10 = h" "n div 10 * 10 + n mod 10 = n" by simp_all
  ultimately have "match_time (fmt_minutes m) = Some (h, n)" by (simp add: f)
  then show ?thesis using assms h by (simp add: parse_time_def Let_def)
qed

lemma fmt_minutes_shape:
  assumes "0 \<le> m" "m \<le> 1440"
  shows "time_shape (fmt_minutes m) \<and> CHR ''-'' \<notin> set (fmt_minutes m) \<and> CHR '';'' \<notin> set (fmt_minutes m)
    \<and> (\<forall>c \<in> set (fmt_minutes m). \<not> is_ws c) \<and> fmt_minutes m \<noteq> []"
proof -
  from fmt_minutes_eq [OF assms] obtain h n :: nat where h: "h \<le> 24" "n < 60"
    and f: "fmt_minutes m = [char_of (h div 10 + 48), char_of (h mod 10 + 48), CHR '':'',
       char_of (n div 10 + 48), char_of (n mod 10 + 48)]" .
  have b: "h div 10 < 10" "h mod 10 < 10" "n div 10 < 10" "n mod 10 < 10" using h by auto
  have w: "\<not> is_ws (char_of (k + 48 :: nat))" if "k < 10" for k
    using that by (intro digit_not_ws) simp
  have "\<not> is_ws (CHR '':'')" by (simp add: is_ws_def)
  then show ?thesis using b w by (auto simp: f dest: sym)
qed

lemma day_name_letters: "\<forall>n \<in> set DAY_NAMES. n \<noteq> [] \<and> (\<forall>c \<in> set n. is_lower c)"
  by (simp add: DAY_NAMES_def is_lower_def)

lemma distinct_DAY_NAMES: "distinct DAY_NAMES"
  by (simp add: DAY_NAMES_def)

definition day_name :: "int \<Rightarrow> string" where
  "day_name d = DAY_NAMES ! nat d"

lemma day_name_props:
  assumes "0 \<le> d" "d < 7"
  shows "day_index (day_name d) = d" "day_name d \<noteq> []" "\<forall>c \<in> set (day_name d). is_lower c"
proof -
  have n: "nat d < length DAY_NAMES" using assms by (simp add: DAY_NAMES_def)
  then have "index_of DAY_NAMES (day_name d) = Some (nat d)"
    unfolding day_name_def by (rule index_of_nth [OF distinct_DAY_NAMES])
  then show "day_index (day_name d) = d" using assms by (simp add: day_index_def)
  have "day_name d \<in> set DAY_NAMES" using n by (simp add: day_name_def)
  then show "day_name d \<noteq> []" "\<forall>c \<in> set (day_name d). is_lower c" using day_name_letters by auto
qed

lemma not_lower_seps: "\<not> is_lower CHR ''-''" "\<not> is_lower CHR '',''" "\<not> is_lower CHR '';''"
  "\<not> is_upper CHR '',''" "\<not> is_ws CHR '',''"
  by (simp_all add: is_lower_def is_upper_def is_ws_def)

lemma parse_day_part_name:
  assumes "0 \<le> d" "d < 7"
  shows "parse_day_part (day_name d) = Inr [d]"
proof -
  note p = day_name_props [OF assms]
  have "trim (day_name d) = day_name d" using p(3) by (intro trim_no_ws) (auto dest: lower_not_ws)
  moreover have "split_on CHR ''-'' (day_name d) = [day_name d]"
    using p(3) not_lower_seps by (intro split_on_no_sep) auto
  ultimately show ?thesis using p(1) assms by (simp add: parse_day_part_def)
qed

lemma parse_day_parts_names:
  "\<forall>d \<in> set ds. 0 \<le> d \<and> d < 7 \<Longrightarrow> parse_day_parts (map day_name ds) = Inr ds"
  by (induction ds) (auto simp: parse_day_part_name)

lemma days_text_chars:
  assumes "\<forall>d \<in> set ds. 0 \<le> d \<and> d < 7"
  shows "\<forall>c \<in> set (join_with '','' (map day_name ds)). is_lower c \<or> c = CHR '',''"
proof
  fix c assume "c \<in> set (join_with '','' (map day_name ds))"
  then have "c \<in> (\<Union>w \<in> set (map day_name ds). set w) \<union> set '',''" using set_join_with by blast
  then show "is_lower c \<or> c = CHR '',''" using assms day_name_props(3) by auto
qed

lemma parse_days_text:
  assumes b: "\<forall>d \<in> set ds. 0 \<le> d \<and> d < 7" and ne: "ds \<noteq> []" and "sorted ds" "distinct ds"
  shows "parse_days (join_with '','' (map day_name ds)) = Inr ds"
proof -
  let ?t = "join_with '','' (map day_name ds)"
  have "to_lower ?t = ?t"
    using days_text_chars [OF b] not_lower_seps by (intro to_lower_id) (auto dest: lower_not_upper)
  moreover have "split_on CHR '','' ?t = map day_name ds"
  proof (rule split_join)
    show "map day_name ds \<noteq> []" using ne by simp
    show "\<forall>w \<in> set (map day_name ds). CHR '','' \<notin> set w"
      using b day_name_props(3) not_lower_seps(2) by auto
  qed
  ultimately show ?thesis
    using assms by (simp add: parse_days_def parse_day_parts_names uniq_distinct sorted_sort_id)
qed

lemma takeWhile_append_stop: "\<forall>c \<in> set a. P c \<Longrightarrow> \<not> P x \<Longrightarrow> takeWhile P (a @ x # b) = a"
  by (simp add: takeWhile_append)

lemma dropWhile_append_stop: "\<forall>c \<in> set a. P c \<Longrightarrow> \<not> P x \<Longrightarrow> dropWhile P (a @ x # b) = x # b"
  by (simp add: dropWhile_append)

lemma fmt_window_eq: "fmt_window w = join_with '','' (map day_name (w_days w)) @
    CHR '' '' # fmt_minutes (w_startMin w) @ CHR ''-'' # fmt_minutes (w_endMin w)"
  by (simp add: fmt_window_def day_name_def [abs_def])

lemma fmt_window_parts:
  assumes "wf_window w"
  defines "d \<equiv> join_with '','' (map day_name (w_days w))"
  shows "match_chunk (fmt_window w) = Some (d, fmt_minutes (w_startMin w), fmt_minutes (w_endMin w))"
    and "d \<noteq> []" "\<forall>c \<in> set d. is_lower c \<or> c = CHR '',''"
proof -
  let ?s = "fmt_minutes (w_startMin w)" and ?e = "fmt_minutes (w_endMin w)"
  have days: "\<forall>x \<in> set (w_days w). 0 \<le> x \<and> x < 7" "w_days w \<noteq> []" using assms by (auto simp: wf_window_def)
  show chars: "\<forall>c \<in> set d. is_lower c \<or> c = CHR '',''" unfolding d_def by (rule days_text_chars [OF days(1)])
  have "join_with sep vs \<noteq> []" if "vs \<noteq> []" "hd vs \<noteq> []" for sep :: string and vs
    using that by (induction sep vs rule: join_with.induct) auto
  then show ne: "d \<noteq> []" using days day_name_props(2) unfolding d_def
    by (metis hd_in_set hd_map map_is_Nil_conv)
  have nows: "\<forall>c \<in> set d. \<not> is_ws c" using chars lower_not_ws not_lower_seps by auto
  have sh: "time_shape ?s" "CHR ''-'' \<notin> set ?s" "\<forall>c \<in> set ?s. \<not> is_ws c" "?s \<noteq> []"
    "time_shape ?e" "CHR ''-'' \<notin> set ?e"
    using fmt_minutes_shape assms by (auto simp: wf_window_def)
  have sp: "is_ws CHR '' ''" by (simp add: is_ws_def)
  have "takeWhile (\<lambda>c. \<not> is_ws c) (fmt_window w) = d"
    unfolding fmt_window_eq d_def [symmetric] using nows sp by (intro takeWhile_append_stop) auto
  moreover have "dropWhile (\<lambda>c. \<not> is_ws c) (fmt_window w) = CHR '' '' # ?s @ CHR ''-'' # ?e"
    unfolding fmt_window_eq d_def [symmetric] using nows sp by (intro dropWhile_append_stop) auto
  moreover have "dropWhile is_ws (CHR '' '' # ?s @ CHR ''-'' # ?e) = ?s @ CHR ''-'' # ?e"
    using sh(3,4) sp by (cases ?s) auto
  moreover have "split_on CHR ''-'' (?s @ CHR ''-'' # ?e) = [?s, ?e]"
    using sh by (simp add: split_on_append split_on_no_sep)
  moreover have "length d < length (fmt_window w)" by (simp add: fmt_window_eq d_def)
  ultimately show "match_chunk (fmt_window w) = Some (d, ?s, ?e)"
    using ne sh by (simp add: match_chunk_def Let_def)
qed

lemma parse_window_fmt:
  assumes "wf_window w"
  shows "parse_window (fmt_window w) = Inr w"
  using assms
  by (simp add: parse_window_def fmt_window_parts(1) parse_time_fmt parse_days_text wf_window_def)

lemma fmt_window_text:
  assumes "wf_window w"
  shows "fmt_window w \<noteq> []" "CHR '';'' \<notin> set (fmt_window w)" "trim (fmt_window w) = fmt_window w"
    "\<not> is_ws (last (fmt_window w))"
proof -
  let ?d = "join_with '','' (map day_name (w_days w))" and ?e = "fmt_minutes (w_endMin w)"
  note p = fmt_window_parts(2,3) [OF assms]
  have e: "?e \<noteq> []" "\<forall>c \<in> set ?e. \<not> is_ws c" "CHR '';'' \<notin> set ?e"
    "CHR '';'' \<notin> set (fmt_minutes (w_startMin w))"
    using fmt_minutes_shape assms by (auto simp: wf_window_def)
  have "hd (fmt_window w) = hd ?d" using p by (simp add: fmt_window_eq)
  moreover have "\<not> is_ws (hd ?d)" using p lower_not_ws not_lower_seps by (auto dest!: bspec [OF _ hd_in_set])
  moreover show l: "\<not> is_ws (last (fmt_window w))" using e by (simp add: fmt_window_eq)
  ultimately show "trim (fmt_window w) = fmt_window w" by (intro trim_id) simp
  show "fmt_window w \<noteq> []" using p by (simp add: fmt_window_eq)
  show "CHR '';'' \<notin> set (fmt_window w)" using p e not_lower_seps by (auto simp: fmt_window_eq)
qed

lemma parse_windows_fmt:
  "\<forall>w \<in> set ws. wf_window w \<Longrightarrow> parse_windows (map fmt_window ws) = Inr ws"
  by (induction ws) (auto simp: parse_window_fmt)

lemma last_join_with: "ws \<noteq> [] \<Longrightarrow> last ws \<noteq> [] \<Longrightarrow> join_with sep ws \<noteq> [] \<and> last (join_with sep ws) = last (last ws)"
  by (induction sep ws rule: join_with.induct) auto

lemma index_of_append: "x \<notin> set a \<Longrightarrow> index_of (a @ x # b) x = Some (length a)"
  by (induction a) auto

lemma parse_fmt_schedule:
  assumes wf: "wf_schedule tz_known s"
  shows "parse_rule_schedule tz_known (fmt_schedule s) = Inr s"
proof -
  let ?tz = "s_timezone s" and ?ws = "s_windows s"
  let ?body = "join_with '';'' (map fmt_window ?ws)"
  have tz: "?tz \<noteq> []" "trim ?tz = ?tz" "CHR ''|'' \<notin> set ?tz" "is_valid_timezone tz_known ?tz"
    and ws: "?ws \<noteq> []" "length ?ws \<le> MAX_WINDOWS" "\<forall>w \<in> set ?ws. wf_window w"
    using wf by (auto simp: wf_schedule_def)
  note wt = fmt_window_text
  have body: "?body \<noteq> [] \<and> last ?body = last (last (map fmt_window ?ws))"
    using ws wt(1) by (intro last_join_with) (auto simp: last_map)
  have "\<not> is_ws (last ?body)" using body ws wt(4) by (auto simp: last_map)
  moreover have "\<not> is_ws (hd ?tz)" using trim_ends [of ?tz] tz by auto
  ultimately have "trim (fmt_schedule s) = fmt_schedule s"
    unfolding fmt_schedule_def using tz body by (intro trim_id) auto
  moreover have "index_of (fmt_schedule s) CHR ''|'' = Some (length ?tz)"
    unfolding fmt_schedule_def using index_of_append [OF tz(3)] by simp
  moreover have "split_on CHR '';'' ?body = map fmt_window ?ws"
    using ws wt(2) by (intro split_join) auto
  moreover have "filter nonempty (map trim (map fmt_window ?ws)) = map fmt_window ?ws"
    using ws wt(1,3) by (auto simp: nonempty_def filter_id_conv cong: map_cong)
  moreover have "take (length ?tz) (fmt_schedule s) = ?tz" "drop (Suc (length ?tz)) (fmt_schedule s) = ?body"
    by (simp_all add: fmt_schedule_def)
  ultimately show ?thesis
    using tz ws parse_windows_fmt [OF ws(3)]
    by (simp add: parse_rule_schedule_def Let_def)
qed

section \<open>Properties\<close>

text \<open>What the code relies on from \<open>Intl\<close>: an English weekday name and a clock time.\<close>

definition intl_ok :: "(string \<Rightarrow> js_date \<Rightarrow> string \<times> nat \<times> nat) \<Rightarrow> bool" where
  "intl_ok intl \<longleftrightarrow> (\<forall>tz t. case intl tz t of (wd, h, m) \<Rightarrow>
     take 3 (to_lower wd) \<in> set DAY_NAMES \<and> m < 60)"

lemma day_index_member: "x \<in> set DAY_NAMES \<Longrightarrow> 0 \<le> day_index x \<and> day_index x < 7"
  using day_index_bounds [of x] by (auto simp: day_index_def split: option.splits)

lemma local_parts_bounds:
  assumes "intl_ok intl" and "local_parts intl tz t = (day, minutes)"
  shows "0 \<le> day \<and> day < 7 \<and> 0 \<le> minutes \<and> minutes < 1440"
proof -
  obtain wd h m where i: "intl tz t = (wd, h, m)" by (cases "intl tz t")
  have "take 3 (to_lower wd) \<in> set DAY_NAMES" "m < 60"
    using assms(1) i by (auto simp: intl_ok_def split: prod.splits dest!: spec [of _ tz] spec [of _ t])
  moreover have "day = day_index (take 3 (to_lower wd))" "minutes = int (h mod 24) * 60 + int m"
    using assms(2) i by (auto simp: local_parts_def)
  moreover have "h mod 24 < 24" by simp
  ultimately show ?thesis using day_index_member by simp
qed

text \<open>
  C14: Round trip of the canonical schedule form.  When \<open>normalizeRuleSchedule\<close> accepts an
  input and returns text to store, parsing the stored text gives exactly the schedule that
  parsing the user's input gives, and that schedule satisfies every bound the parser
  promises (known timezone, 1 to 14 windows, sorted distinct days, minutes in range).
\<close>

theorem normalize_rule_schedule_roundtrip:
  assumes "normalize_rule_schedule tz_known (Some input) = Inr (Some out)"
  shows "\<exists>s. parse_rule_schedule tz_known (trim input) = Inr s \<and> parse_rule_schedule tz_known out = Inr s
    \<and> wf_schedule tz_known s"
proof -
  obtain s where s: "parse_rule_schedule tz_known (trim input) = Inr s" and out: "out = fmt_schedule s"
    using assms by (auto simp: normalize_rule_schedule_def Let_def split: if_splits sum.splits)
  have "wf_schedule tz_known s" by (rule parse_rule_schedule_wf [OF s])
  then show ?thesis using s out parse_fmt_schedule by blast
qed

theorem normalize_rule_schedule_roundtrip_witness:
  "\<exists>s. parse_rule_schedule (\<lambda>z. z = ''UTC'') (trim '' UTC|Mon-Fri 9:00-17:00;sat 22:00-02:00'') = Inr s
    \<and> parse_rule_schedule (\<lambda>z. z = ''UTC'') ''UTC|mon,tue,wed,thu,fri 09:00-17:00;sat 22:00-02:00'' = Inr s
    \<and> wf_schedule (\<lambda>z. z = ''UTC'') s"
proof (rule normalize_rule_schedule_roundtrip)
  show "normalize_rule_schedule (\<lambda>z. z = ''UTC'') (Some '' UTC|Mon-Fri 9:00-17:00;sat 22:00-02:00'') =
    Inr (Some ''UTC|mon,tue,wed,thu,fri 09:00-17:00;sat 22:00-02:00'')"
    by code_simp
qed

text \<open>
  C15: Evaluation of a schedule.  For a schedule that parses, \<open>isWithinRuleSchedule\<close>
  answers true exactly when the local minute of the week lies inside one of its windows,
  a window being the stretch of minutes of the week that begins on one of its days
  at its start and lasts its length, also across midnight and from Saturday into Sunday.
\<close>

theorem is_within_rule_schedule_week:
  assumes intl: "intl_ok intl" and ne: "schedule \<noteq> []"
    and parse: "parse_rule_schedule tz_known schedule = Inr p"
    and parts: "local_parts intl (s_timezone p) t = (day, minutes)"
  shows "is_within_rule_schedule tz_known intl (Some schedule) t \<longleftrightarrow>
    (\<exists>w \<in> set (s_windows p). in_week_window (w_days w) (w_startMin w) (w_endMin w) day minutes)"
proof -
  have wf: "\<forall>w \<in> set (s_windows p). wf_window w"
    using parse_rule_schedule_wf [OF parse] by (simp add: wf_schedule_def)
  have "window_contains (w_days w) (w_startMin w) (w_endMin w) day minutes =
      in_week_window (w_days w) (w_startMin w) (w_endMin w) day minutes"
    if "w \<in> set (s_windows p)" for w
    using local_parts_bounds [OF intl parts] wf that by (intro window_contains_week) (auto simp: wf_window_def)
  then show ?thesis
    using ne parse parts by (auto simp: is_within_rule_schedule_def list_ex_iff)
qed

theorem is_within_rule_schedule_week_witness:
  "is_within_rule_schedule (\<lambda>z. True) (\<lambda>z t. (''Sun'', 1, 30)) (Some ''UTC|sat 22:00-02:00'') 0"
proof -
  have "intl_ok (\<lambda>z t. (''Sun'', 1, 30))" unfolding intl_ok_def by simp code_simp
  moreover have "parse_rule_schedule (\<lambda>z. True) ''UTC|sat 22:00-02:00'' =
    Inr \<lparr>s_timezone = ''UTC'', s_windows = [\<lparr>w_days = [6], w_startMin = 1320, w_endMin = 120\<rparr>]\<rparr>"
    by code_simp
  moreover have "local_parts (\<lambda>z t. (''Sun'', 1, 30)) ''UTC'' 0 = (0, 90)" by code_simp
  ultimately show ?thesis
    using is_within_rule_schedule_week [of "\<lambda>z t. (''Sun'', 1, 30)" "''UTC|sat 22:00-02:00''" "\<lambda>z. True"]
    by (simp add: in_week_window_def window_length_def)
qed

end
