(* ===== verification/Http.thy ===== *)
theory Http
  imports Prelude
begin

text \<open>
  What the handlers use of the platform's request and URL objects.  A request gives
  headers, cookies and query parameters by name; a parsed \<open>URL\<close> is a record of its
  components, and \<open>URLSearchParams\<close> is the ordered list of pairs that the standard
  describes.  The URL parser and serialiser themselves are parameters of the definitions
  that call them: \<open>new_URL\<close> returns \<open>None\<close> where the constructor throws, and \<open>href\<close> is
  \<open>toString\<close>.
\<close>

section \<open>Requests\<close>

record request =
  rq_header :: "string \<Rightarrow> string option"
  rq_cookie :: "string \<Rightarrow> string option"
  rq_params :: "(string \<times> string) list"
  rq_hostname :: string

text \<open>\<open>request.headers.get(name) || ''\<close>\<close>

definition header_or_empty :: "request \<Rightarrow> string \<Rightarrow> string" where
  "header_or_empty rq name = or_default (rq_header rq name) []"

section \<open>URLs\<close>

record web_url =
  u_protocol :: string
  u_username :: string
  u_password :: string
  u_hostname :: string
  u_path :: string
  u_params :: "(string \<times> string) list"
  u_hash :: string

type_synonym url_parser = "string \<Rightarrow> web_url option"

section \<open>Search parameters\<close>

definition params_has :: "(string \<times> string) list \<Rightarrow> string \<Rightarrow> bool" where
  "params_has ps k = (k \<in> fst ` set ps)"

text \<open>\<open>set(k, v)\<close> overwrites the first pair named \<open>k\<close>, drops the later ones, or appends.\<close>

fun params_overwrite :: "(string \<times> string) list \<Rightarrow> string \<Rightarrow> string \<Rightarrow> (string \<times> string) list" where
  "params_overwrite [] k v = []"
| "params_overwrite (p # ps) k v =
     (if fst p = k then (k, v) # filter (\<lambda>q. fst q \<noteq> k) ps else p # params_overwrite ps k v)"

definition params_set :: "(string \<times> string) list \<Rightarrow> string \<Rightarrow> string \<Rightarrow> (string \<times> string) list" where
  "params_set ps k v = (if params_has ps k then params_overwrite ps k v else ps @ [(k, v)])"

text \<open>\<open>get(k)\<close>: the first value.\<close>

definition params_get :: "(string \<times> string) list \<Rightarrow> string \<Rightarrow> string option" where
  "params_get ps k = map_of ps k"

lemma params_has_iff: "params_has ps k \<longleftrightarrow> params_get ps k \<noteq> None"
  by (simp add: params_has_def params_get_def map_of_eq_None_iff)

lemma map_of_filter_other: "j \<noteq> k \<Longrightarrow> map_of (filter (\<lambda>q. fst q \<noteq> k) ps) j = map_of ps j"
  by (induction ps) auto

lemma map_of_overwrite_same: "k \<in> fst ` set ps \<Longrightarrow> map_of (params_overwrite ps k v) k = Some v"
  by (induction ps) auto

lemma map_of_overwrite_other: "j \<noteq> k \<Longrightarrow> map_of (params_overwrite ps k v) j = map_of ps j"
  by (induction ps) (auto simp: map_of_filter_other)

lemma map_of_append_last: "map_of (ps @ [(k, v)]) j = (case map_of ps j of None \<Rightarrow> if j = k then Some v else None | x \<Rightarrow> x)"
  by (auto simp: map_add_def split: option.splits)

lemma params_get_set: "params_get (params_set ps k v) j = (if j = k then Some v else params_get ps j)"
proof (cases "params_has ps k")
  case True
  then show ?thesis
    by (simp add: params_get_def params_set_def map_of_overwrite_other)
       (simp add: params_has_def map_of_overwrite_same)
next
  case False
  then show ?thesis
    by (auto simp: params_get_def params_set_def params_has_iff map_of_append_last simp del: map_of_append
        split: option.splits)
qed

lemma params_overwrite_once:
  "k \<in> fst ` set ps \<Longrightarrow> length (filter (\<lambda>q. fst q = k) (params_overwrite ps k v)) = 1"
  by (induction ps) (auto simp: filter_empty_conv)

lemma params_set_once: "length (filter (\<lambda>q. fst q = k) (params_set ps k v)) = 1"
proof (cases "params_has ps k")
  case True
  then show ?thesis using params_overwrite_once by (simp add: params_set_def params_has_def)
next
  case False
  then have "filter (\<lambda>q. fst q = k) ps = []" by (auto simp: params_has_def filter_empty_conv image_iff)
  then show ?thesis using False by (simp add: params_set_def)
qed

lemma params_has_set: "params_has (params_set ps k v) j \<longleftrightarrow> j = k \<or> params_has ps j"
  by (simp add: params_has_iff params_get_set)

end
