(* ===== verification/SmartRouting.thy ===== *)
theory SmartRouting
  imports RuleSchedule Http
begin

text \<open>
  Smart routing (\<open>src/lib/smart-routing.ts\<close>): what a request says about its visitor
  (country, device, system, browser, AI agent, referrer), which rules match it, and the
  sticky weighted choice among the matching rules of the best priority.  The SHA-256 bucket
  is a parameter \<open>digest\<close>, the first 32 bits of the digest of the seed.
\<close>

section \<open>Types\<close>

datatype device_kind = DMobile | DTablet | DDesktop | DBot
datatype operating_system = OsIos | OsAndroid | OsMacos | OsWindows | OsLinux | OsChromeos | OsOther
datatype browser_kind = BChrome | BSafari | BFirefox | BEdge | BOpera | BSamsung | BBrave | BOther
datatype traffic_channel = ChDirect | ChSocial | ChSearch | ChEmail | ChReferral
datatype route_health = HUnknown | HHealthy | HDegraded | HDown
datatype traffic_kind = THuman | TAiAgent | TBot

fun os_name :: "operating_system \<Rightarrow> string" where
  "os_name OsIos = ''ios''"
| "os_name OsAndroid = ''android''"
| "os_name OsMacos = ''macos''"
| "os_name OsWindows = ''windows''"
| "os_name OsLinux = ''linux''"
| "os_name OsChromeos = ''chromeos''"
| "os_name OsOther = ''other''"

text \<open>
  A rule as the code reads it.  \<open>rule_enabled\<close> is \<open>None\<close> on an object that has no such
  property, as on a row selected without that column.
\<close>

record smart_rule =
  rule_id :: string
  rule_destinationUrl :: string
  rule_priority :: int
  rule_weight :: int
  rule_enabled :: "bool option"
  rule_healthStatus :: route_health
  rule_countryCodes :: "string option"
  rule_deviceType :: "device_kind option"
  rule_trafficType :: "traffic_kind option"
  rule_aiAgent :: "string option"
  rule_os :: "string option"
  rule_languageCodes :: "string option"
  rule_referrerDomain :: "string option"
  rule_startAt :: "js_date option"
  rule_endAt :: "js_date option"
  rule_schedule :: "string option"

record routing_context =
  ctx_country :: string
  ctx_region :: "string option"
  ctx_deviceType :: device_kind
  ctx_referrerHost :: "string option"
  ctx_now :: js_date
  ctx_os :: "operating_system option"
  ctx_language :: "string option"
  ctx_trafficType :: "traffic_kind option"
  ctx_aiAgent :: "string option"

section \<open>Reading the request\<close>

definition normalize_safe_url :: "url_parser \<Rightarrow> (web_url \<Rightarrow> string) \<Rightarrow> string \<Rightarrow> string thrown" where
  "normalize_safe_url new_URL href input = (case new_URL (trim input) of
       None \<Rightarrow> Inl ''Enter a valid URL''
     | Some u \<Rightarrow>
         if u_protocol u \<notin> {''http:'', ''https:''} then Inl ''Only HTTP and HTTPS URLs are supported''
         else if u_username u \<noteq> [] \<or> u_password u \<noteq> [] then Inl ''Credential-bearing URLs are not allowed''
         else Inr (href u))"

definition get_country :: "request \<Rightarrow> string" where
  "get_country rq =
     (let value = or_default (or_str (rq_header rq ''cf-ipcountry'') (rq_header rq ''x-vercel-ip-country'')) []
      in if length value = 2 \<and> list_all is_alpha value then to_upper value else ''XX'')"

definition get_region :: "request \<Rightarrow> string option" where
  "get_region rq =
     (let value = or_default (or_str (rq_header rq ''x-vercel-ip-country-region'') (rq_header rq ''cf-region-code'')) []
      in if 1 \<le> length value \<and> length value \<le> 3 \<and> list_all is_alnum value
         then Some (to_upper value) else None)"

definition get_language :: "request \<Rightarrow> string" where
  "get_language rq =
     (let primary = to_lower (trim (hd (split_on CHR '';'' (hd (split_on CHR '','' (header_or_empty rq ''accept-language''))))))
      in if primary = [] then ''en'' else
         let lang = hd (split_on CHR ''-'' primary)
         in if (length lang = 2 \<or> length lang = 3) \<and> list_all is_lower lang then lang else ''en'')"

definition get_referrer_host :: "url_parser \<Rightarrow> request \<Rightarrow> string option" where
  "get_referrer_host new_URL rq = (case rq_header rq ''referer'' of
       Some (c # cs) \<Rightarrow> (case new_URL (c # cs) of
           Some u \<Rightarrow> Some (strip_prefix ''www.'' (to_lower (u_hostname u)))
         | None \<Rightarrow> None)
     | _ \<Rightarrow> None)"

text \<open>\<open>android(?!.*mobile)\<close>: an occurrence with no \<open>mobile\<close> later on its line.\<close>

definition is_newline :: "char \<Rightarrow> bool" where
  "is_newline c = (let n = (of_char c :: nat) in n = 10 \<or> n = 13)"

definition android_without_mobile :: "string \<Rightarrow> bool" where
  "android_without_mobile ua = list_ex (\<lambda>s. prefix ''android'' s \<and>
     \<not> str_contains ''mobile'' (takeWhile (\<lambda>c. \<not> is_newline c) (drop 7 s))) (suffixes ua)"

definition get_device_type :: "string option \<Rightarrow> device_kind" where
  "get_device_type userAgent =
     (let ua = to_lower (or_default userAgent []) in
      if any_contains [''bot'', ''crawler'', ''spider'', ''slurp'', ''facebookexternalhit'', ''preview'', ''headless'', ''monitor''] ua then DBot
      else if any_contains [''ipad'', ''tablet'', ''playbook'', ''silk'', ''kindle''] ua \<or> android_without_mobile ua then DTablet
      else if any_contains [''mobi'', ''iphone'', ''ipod'', ''android'', ''windows phone''] ua then DMobile
      else DDesktop)"

definition get_operating_system :: "string option \<Rightarrow> operating_system" where
  "get_operating_system userAgent =
     (let ua = to_lower (or_default userAgent []) in
      if any_contains [''iphone'', ''ipad'', ''ipod''] ua then OsIos
      else if str_contains ''android'' ua then OsAndroid
      else if any_contains [''macintosh'', ''mac os x''] ua then OsMacos
      else if any_contains [''windows nt'', ''win32'', ''win64''] ua then OsWindows
      else if str_contains ''cros'' ua then OsChromeos
      else if str_contains ''linux'' ua then OsLinux
      else OsOther)"

definition get_browser :: "string option \<Rightarrow> browser_kind" where
  "get_browser userAgent =
     (let ua = to_lower (or_default userAgent []) in
      if str_contains ''brave'' ua then BBrave
      else if str_contains ''edg/'' ua then BEdge
      else if str_contains ''samsungbrowser'' ua then BSamsung
      else if any_contains [''opr/'', ''opera''] ua then BOpera
      else if any_contains [''firefox'', ''fxios''] ua then BFirefox
      else if any_contains [''chrome'', ''crios''] ua then BChrome
      else if str_contains ''safari'' ua \<and> \<not> any_contains [''chrome'', ''crios'', ''android''] ua then BSafari
      else BOther)"

text \<open>The patterns are case-insensitive, so they are listed and tested in lower case.\<close>

definition AI_AGENT_PATTERNS :: "(string list \<times> string) list" where
  "AI_AGENT_PATTERNS =
    [([''gptbot''], ''openai''), ([''oai-searchbot''], ''openai-search''), ([''chatgpt-user''], ''chatgpt-user''),
     ([''claudebot'', ''claude-web''], ''anthropic''), ([''claude-user''], ''claude-user''),
     ([''perplexitybot''], ''perplexity''), ([''google-extended''], ''google-ai''), ([''googleother''], ''google-other''),
     ([''gemini''], ''google-gemini''), ([''amazonbot''], ''amazon''), ([''bytespider''], ''bytedance''),
     ([''ccbot''], ''common-crawl''), ([''cohere-ai''], ''cohere''), ([''youbot''], ''youcom'')]"

definition get_ai_agent :: "string option \<Rightarrow> string option" where
  "get_ai_agent userAgent =
     map_option snd (find (\<lambda>(pats, name). any_contains pats (to_lower (or_default userAgent []))) AI_AGENT_PATTERNS)"

definition get_traffic_type :: "string option \<Rightarrow> traffic_kind" where
  "get_traffic_type userAgent =
     (if get_ai_agent userAgent \<noteq> None then TAiAgent
      else if get_device_type userAgent = DBot then TBot else THuman)"

text \<open>
  The bot score, in exact arithmetic.  The second pattern of the source,
  \<open>/mozilla\\/5\\\\.0/i\<close>, asks for a backslash, any character and a zero after
  \<open>mozilla/5\<close>.
\<close>

definition matches_mozilla_pattern :: "string \<Rightarrow> bool" where
  "matches_mozilla_pattern ua = list_ex (\<lambda>s. prefix (''mozilla/5'' @ [char_of (92 :: nat)]) s \<and>
     (case drop 10 s of c # z # _ \<Rightarrow> \<not> is_newline c \<and> z = CHR ''0'' | _ \<Rightarrow> False)) (suffixes ua)"

definition get_traffic_confidence :: "string option \<Rightarrow> rat" where
  "get_traffic_confidence userAgent =
     (let ua = to_lower (or_default userAgent []) in
      if ua = [] then 25 / 100
      else if get_ai_agent userAgent \<noteq> None then 99 / 100
      else
        let s0 = 5 / 100;
            s1 = s0 + (if any_contains [''bot'', ''crawler'', ''spider'', ''slurp'', ''headless'', ''scrapy'', ''python-requests'', ''curl'', ''wget''] ua then 65 / 100 else 0);
            s2 = s1 - (if matches_mozilla_pattern ua then 15 / 100 else 0);
            s3 = s2 - (if any_contains [''chrome'', ''safari'', ''firefox'', ''edg/''] ua then 15 / 100 else 0)
        in max (1 / 100) (min (99 / 100) s3))"

section \<open>Traffic sources and countries\<close>

definition SOURCE_TABLE :: "(string list \<times> traffic_channel \<times> string) list" where
  "SOURCE_TABLE =
    [([''t.co'', ''twitter.com'', ''x.com''], ChSocial, ''X (Twitter)''),
     ([''linkedin.com'', ''lnkd.in''], ChSocial, ''LinkedIn''),
     ([''facebook.com'', ''fb.com'', ''m.facebook.com'', ''l.facebook.com'', ''lm.facebook.com''], ChSocial, ''Facebook''),
     ([''instagram.com'', ''l.instagram.com''], ChSocial, ''Instagram''),
     ([''tiktok.com'', ''vm.tiktok.com''], ChSocial, ''TikTok''),
     ([''reddit.com'', ''redd.it'', ''old.reddit.com''], ChSocial, ''Reddit''),
     ([''youtube.com'', ''youtu.be''], ChSocial, ''YouTube''),
     ([''threads.net''], ChSocial, ''Threads''),
     ([''pinterest.com'', ''pin.it''], ChSocial, ''Pinterest''),
     ([''t.me'', ''telegram.org''], ChSocial, ''Telegram''),
     ([''discord.com'', ''discord.gg''], ChSocial, ''Discord'')]"

definition SEARCH_TABLE :: "(string \<times> string) list" where
  "SEARCH_TABLE =
    [(''google.'', ''Google''), (''bing.com'', ''Bing''), (''duckduckgo.com'', ''DuckDuckGo''),
     (''yahoo.com'', ''Yahoo''), (''baidu.com'', ''Baidu''), (''yandex.'', ''Yandex''), (''ecosia.org'', ''Ecosia'')]"

definition get_traffic_source :: "string option \<Rightarrow> traffic_channel \<times> string" where
  "get_traffic_source referrerHost = (case referrerHost of
       Some (c # cs) \<Rightarrow>
         (let host = strip_prefix ''www.'' (to_lower (c # cs)) in
          if str_contains ''mail.google.com'' host then (ChEmail, ''Gmail'')
          else if any_contains [''outlook.live.com'', ''outlook.office.com'', ''mail.live.com''] host then (ChEmail, ''Outlook'')
          else if str_contains ''mail.yahoo.com'' host then (ChEmail, ''Yahoo Mail'')
          else (case find (\<lambda>(hosts, _). host \<in> set hosts) SOURCE_TABLE of
              Some (_, ch, name) \<Rightarrow> (ch, name)
            | None \<Rightarrow> (case find (\<lambda>(sub, _). str_contains sub host) SEARCH_TABLE of
                Some (_, name) \<Rightarrow> (ChSearch, name)
              | None \<Rightarrow> (ChReferral, host))))
     | _ \<Rightarrow> (ChDirect, ''Direct / None''))"

text \<open>Flags as the code points of the string.\<close>

definition country_to_flag :: "string \<Rightarrow> nat list" where
  "country_to_flag code =
     (if code = [] \<or> code = ''XX'' \<or> length code \<noteq> 2 then [127760]
      else map (\<lambda>c. of_char c + 127397) (to_upper code))"

definition COUNTRY_NAMES :: "(string \<times> string) list" where
  "COUNTRY_NAMES =
    [(''US'', ''United States''), (''GB'', ''United Kingdom''), (''CA'', ''Canada''), (''DE'', ''Germany''),
     (''FR'', ''France''), (''IN'', ''India''), (''AU'', ''Australia''), (''BR'', ''Brazil''), (''JP'', ''Japan''),
     (''NL'', ''Netherlands''), (''ES'', ''Spain''), (''IT'', ''Italy''), (''SE'', ''Sweden''), (''SG'', ''Singapore''),
     (''MX'', ''Mexico''), (''ID'', ''Indonesia''), (''CH'', ''Switzerland''), (''BE'', ''Belgium''), (''AT'', ''Austria''),
     (''PL'', ''Poland''), (''DK'', ''Denmark''), (''NO'', ''Norway''), (''FI'', ''Finland''), (''IE'', ''Ireland''),
     (''NZ'', ''New Zealand''), (''ZA'', ''South Africa''), (''AR'', ''Argentina''), (''CL'', ''Chile''), (''CO'', ''Colombia''),
     (''KR'', ''South Korea''), (''TW'', ''Taiwan''), (''HK'', ''Hong Kong''), (''AE'', ''United Arab Emirates''),
     (''SA'', ''Saudi Arabia''), (''IL'', ''Israel''), (''PT'', ''Portugal''), (''TR'', ''Turkey''), (''PH'', ''Philippines''),
     (''MY'', ''Malaysia''), (''TH'', ''Thailand''), (''VN'', ''Vietnam''), (''PK'', ''Pakistan''), (''NG'', ''Nigeria''),
     (''EG'', ''Egypt''), (''RO'', ''Romania''), (''CZ'', ''Czech Republic''), (''HU'', ''Hungary''), (''GR'', ''Greece''),
     (''UA'', ''Ukraine''), (''XX'', ''Unknown Location'')]"

definition country_to_name :: "string \<Rightarrow> string" where
  "country_to_name code =
     (if code = [] \<or> code = ''XX'' then ''Unknown Location''
      else or_default (map_of COUNTRY_NAMES (to_upper code)) (to_upper code))"

text \<open>\<open>UUID_PATTERN\<close> and the visitor cookie; \<open>fresh\<close> is \<open>randomUUID()\<close>.\<close>

definition is_uuid :: "string \<Rightarrow> bool" where
  "is_uuid s = (length s = 36 \<and> (\<forall>i < 36. if i \<in> {8, 13, 18, 23} then s ! i = CHR ''-'' else is_hex (s ! i)))"

definition get_visitor_id :: "request \<Rightarrow> string \<Rightarrow> string \<times> bool" where
  "get_visitor_id rq fresh = (case rq_cookie rq ''ql_visitor'' of
       Some existing \<Rightarrow> if existing \<noteq> [] \<and> is_uuid existing then (existing, False) else (fresh, True)
     | None \<Rightarrow> (fresh, True))"

section \<open>Matching\<close>

definition country_matches :: "smart_rule \<Rightarrow> string \<Rightarrow> string option \<Rightarrow> bool" where
  "country_matches rule country region =
     (if \<not> str_truthy (rule_countryCodes rule) then True
      else
        let visitor = (if str_truthy region then Some (country @ ''-'' @ to_upper (the region)) else None)
        in list_ex (\<lambda>v. v = country \<or> Some v = visitor)
             (filter nonempty (map (to_upper \<circ> trim) (split_runs ws_or_comma (the (rule_countryCodes rule))))))"

definition os_matches :: "smart_rule \<Rightarrow> string option \<Rightarrow> bool" where
  "os_matches rule os =
     (if \<not> str_truthy (rule_os rule) then True
      else if \<not> str_truthy os then False
      else to_lower (the os) \<in> set (map (to_lower \<circ> trim) (split_runs ws_or_comma (the (rule_os rule)))))"

definition language_matches :: "smart_rule \<Rightarrow> string option \<Rightarrow> bool" where
  "language_matches rule language =
     (if \<not> str_truthy (rule_languageCodes rule) then True
      else if \<not> str_truthy language then False
      else to_lower (the language) \<in> set (map (to_lower \<circ> trim) (split_runs ws_or_comma (the (rule_languageCodes rule)))))"

definition list_matches :: "string option \<Rightarrow> string option \<Rightarrow> bool" where
  "list_matches ruleValue actual =
     (if \<not> str_truthy ruleValue then True
      else if \<not> str_truthy actual then False
      else to_lower (the actual) \<in>
        set (filter nonempty (map (to_lower \<circ> trim) (split_runs ws_or_comma (the ruleValue)))))"

text \<open>\<open>replace(/^https?:\\/\\//, '').replace(/^www\\./, '').split('/')[0]\<close>\<close>

definition strip_scheme :: "string \<Rightarrow> string" where
  "strip_scheme s = (if prefix ''http://'' s then drop 7 s
     else if prefix ''https://'' s then drop 8 s else s)"

definition domain_of :: "string \<Rightarrow> string" where
  "domain_of s = hd (split_on CHR ''/'' (strip_prefix ''www.'' (strip_scheme (to_lower s))))"

definition referrer_matches :: "smart_rule \<Rightarrow> string option \<Rightarrow> bool" where
  "referrer_matches rule host =
     (if \<not> str_truthy (rule_referrerDomain rule) then True
      else if \<not> str_truthy host then False
      else
        let domain = domain_of (the (rule_referrerDomain rule))
        in the host = domain \<or> suffix (CHR ''.'' # domain) (the host))"

definition time_matches ::
  "(string \<Rightarrow> bool) \<Rightarrow> (string \<Rightarrow> js_date \<Rightarrow> string \<times> nat \<times> nat) \<Rightarrow> smart_rule \<Rightarrow> js_date \<Rightarrow> bool" where
  "time_matches tz_known intl rule now =
     (if (case rule_startAt rule of Some s \<Rightarrow> now < s | None \<Rightarrow> False) then False
      else if (case rule_endAt rule of Some e \<Rightarrow> now > e | None \<Rightarrow> False) then False
      else if str_truthy (rule_schedule rule) \<and> \<not> is_within_rule_schedule tz_known intl (rule_schedule rule) now then False
      else True)"

definition matches_rule ::
  "(string \<Rightarrow> bool) \<Rightarrow> (string \<Rightarrow> js_date \<Rightarrow> string \<times> nat \<times> nat) \<Rightarrow> smart_rule \<Rightarrow> routing_context \<Rightarrow> bool" where
  "matches_rule tz_known intl rule c =
     (rule_enabled rule = Some True \<and>
      rule_healthStatus rule \<noteq> HDown \<and>
      country_matches rule (ctx_country c) (ctx_region c) \<and>
      (rule_deviceType rule = None \<or> rule_deviceType rule = Some (ctx_deviceType c)) \<and>
      (rule_trafficType rule = None \<or> rule_trafficType rule = ctx_trafficType c) \<and>
      list_matches (rule_aiAgent rule) (ctx_aiAgent c) \<and>
      list_matches (rule_os rule) (map_option os_name (ctx_os c)) \<and>
      os_matches rule (map_option os_name (ctx_os c)) \<and>
      language_matches rule (ctx_language c) \<and>
      referrer_matches rule (ctx_referrerHost c) \<and>
      time_matches tz_known intl rule (ctx_now c))"

section \<open>The weighted choice\<close>

definition rule_share :: "smart_rule \<Rightarrow> int" where
  "rule_share r = max 0 (rule_weight r)"

definition total_weight :: "smart_rule list \<Rightarrow> int" where
  "total_weight bucket = sum_list (map rule_share bucket)"

text \<open>\<open>readUInt32BE(0) % totalWeight\<close>\<close>

definition stable_bucket :: "(string \<Rightarrow> nat) \<Rightarrow> string \<Rightarrow> int \<Rightarrow> int" where
  "stable_bucket digest seed totalWeight = int (digest seed) mod totalWeight"

text \<open>The loop over the cursor; past the end the code returns the last rule.\<close>

fun pick_by_cursor :: "int \<Rightarrow> int \<Rightarrow> smart_rule list \<Rightarrow> smart_rule option" where
  "pick_by_cursor pick cursor [] = None"
| "pick_by_cursor pick cursor (r # rs) =
     (let c = cursor + rule_share r in if pick < c then Some r else pick_by_cursor pick c rs)"

definition choose_in_bucket :: "(string \<Rightarrow> nat) \<Rightarrow> string \<Rightarrow> smart_rule list \<Rightarrow> smart_rule" where
  "choose_in_bucket digest seed bucket =
     (let totalWeight = total_weight bucket in
      if totalWeight \<le> 0 then hd bucket
      else (case pick_by_cursor (stable_bucket digest seed totalWeight) 0 bucket of
          Some r \<Rightarrow> r | None \<Rightarrow> last bucket))"

definition choose_smart_rule ::
  "(string \<Rightarrow> nat) \<Rightarrow> (string \<Rightarrow> bool) \<Rightarrow> (string \<Rightarrow> js_date \<Rightarrow> string \<times> nat \<times> nat) \<Rightarrow>
   smart_rule list \<Rightarrow> routing_context \<Rightarrow> string \<Rightarrow> string \<Rightarrow> smart_rule option" where
  "choose_smart_rule digest tz_known intl rules c shortCode visitorId =
     (let candidates = filter (\<lambda>r. matches_rule tz_known intl r c) rules in
      if candidates = [] then None
      else
        let firstPriority = min_list (map rule_priority candidates);
            bucket = filter (\<lambda>r. rule_priority r = firstPriority) candidates
        in Some (choose_in_bucket digest
             (shortCode @ '':'' @ visitorId @ '':'' @ int_dec firstPriority) bucket))"

section \<open>Normalising rule fields\<close>

text \<open>\<open>^[A-Z]{2}(-[A-Z0-9]{1,3})?$\<close>\<close>

definition is_country_code :: "string \<Rightarrow> bool" where
  "is_country_code v = (case v of
       a # b # rest \<Rightarrow> is_upper a \<and> is_upper b \<and>
         (rest = [] \<or> (hd rest = CHR ''-'' \<and> 2 \<le> length rest \<and> length rest \<le> 4 \<and>
            list_all (\<lambda>c. is_upper c \<or> is_digit c) (tl rest)))
     | _ \<Rightarrow> False)"

definition normalize_country_codes :: "string option \<Rightarrow> string option thrown" where
  "normalize_country_codes input =
     (if \<not> str_truthy input then Inr None
      else
        let values = filter nonempty (map (to_upper \<circ> trim) (split_runs ws_or_comma (the input)))
        in if list_ex (\<lambda>v. \<not> is_country_code v) values
           then Inl ''Use ISO 2-letter country codes, or country-region such as US-CA''
           else Inr (Some (join_with '','' (uniq values))))"

definition is_domain_char :: "char \<Rightarrow> bool" where
  "is_domain_char c = (is_lower c \<or> is_digit c \<or> c = CHR ''.'' \<or> c = CHR ''-'')"

definition normalize_referrer_domain :: "string option \<Rightarrow> string option thrown" where
  "normalize_referrer_domain input =
     (if \<not> str_truthy input then Inr None
      else
        let value = domain_of (trim (the input))
        in if value = [] \<or> \<not> list_all is_domain_char value \<or> CHR ''.'' \<notin> set value
           then Inl ''Enter a valid referrer domain'' else Inr (Some value))"

definition normalize_list :: "string option \<Rightarrow> string set \<Rightarrow> string \<Rightarrow> string option thrown" where
  "normalize_list input allowed label =
     (if \<not> str_truthy input then Inr None
      else
        let values = filter nonempty (map (to_lower \<circ> trim) (split_runs ws_or_comma (the input)))
        in if list_ex (\<lambda>v. v \<notin> allowed) values then Inl (label @ '' contains an unsupported value'')
           else Inr (Some (join_with '','' (uniq values))))"

definition parse_optional_date :: "(string \<Rightarrow> js_date option) \<Rightarrow> string option \<Rightarrow> js_date option thrown" where
  "parse_optional_date new_Date input =
     (if \<not> str_truthy input then Inr None
      else (case new_Date (the input) of
          None \<Rightarrow> Inl ''Enter a valid date'' | Some d \<Rightarrow> Inr (Some d)))"

section \<open>Lemmas on the weighted choice\<close>

lemma rule_share_nonneg [simp]: "0 \<le> rule_share r"
  by (simp add: rule_share_def)

lemma total_weight_Nil [simp]: "total_weight [] = 0"
  by (simp add: total_weight_def)

lemma total_weight_Cons [simp]: "total_weight (r # rs) = rule_share r + total_weight rs"
  by (simp add: total_weight_def)

lemma total_weight_nonneg [simp]: "0 \<le> total_weight rs"
  by (induction rs) auto

lemma total_weight_pos: "r \<in> set rs \<Longrightarrow> 0 < rule_share r \<Longrightarrow> 0 < total_weight rs"
  by (induction rs) (auto simp: add_pos_nonneg add_nonneg_pos)

lemma pick_by_cursor_sound:
  "pick_by_cursor p c rs = Some r \<Longrightarrow> c \<le> p \<Longrightarrow> r \<in> set rs \<and> 0 < rule_share r"
proof (induction rs arbitrary: c)
  case (Cons x xs)
  then show ?case by (cases "p < c + rule_share x") (auto simp: Let_def)
qed simp

lemma pick_by_cursor_total:
  "c \<le> p \<Longrightarrow> p < c + total_weight rs \<Longrightarrow> pick_by_cursor p c rs \<noteq> None"
proof (induction rs arbitrary: c)
  case (Cons x xs)
  then show ?case by (auto simp: Let_def not_less add.assoc)
qed simp

lemma pick_by_cursor_shift: "pick_by_cursor p c rs = pick_by_cursor (p - c) 0 rs"
proof (induction rs arbitrary: p c)
  case (Cons x xs)
  have "pick_by_cursor p (c + rule_share x) xs = pick_by_cursor (p - c - rule_share x) 0 xs"
    using Cons.IH [of p "c + rule_share x"] by (simp add: algebra_simps)
  moreover have "pick_by_cursor (p - c) (rule_share x) xs = pick_by_cursor (p - c - rule_share x) 0 xs"
    using Cons.IH [of "p - c" "rule_share x"] by simp
  ultimately show ?case by (auto simp: Let_def)
qed simp

text \<open>The picks that select \<open>r\<close> are as many as the shares of its occurrences.\<close>

lemma picks_of_rule_card:
  "card {p. c \<le> p \<and> p < c + total_weight rs \<and> pick_by_cursor p c rs = Some r} =
     nat (\<Sum>x\<leftarrow>filter (\<lambda>x. x = r) rs. rule_share x)"
proof (induction rs arbitrary: c)
  case Nil
  then show ?case by simp
next
  case (Cons x xs)
  let ?d = "c + rule_share x"
  let ?A = "{p. c \<le> p \<and> p < ?d \<and> x = r}"
  let ?B = "{p. ?d \<le> p \<and> p < ?d + total_weight xs \<and> pick_by_cursor p ?d xs = Some r}"
  have split: "{p. c \<le> p \<and> p < c + total_weight (x # xs) \<and> pick_by_cursor p c (x # xs) = Some r} = ?A \<union> ?B"
    using rule_share_nonneg [of x] total_weight_nonneg [of xs]
    by (auto simp: Let_def simp del: rule_share_nonneg total_weight_nonneg)
  have fin: "finite ?A" "finite ?B"
    by (rule finite_subset [of _ "{c..<?d}"], auto)
       (rule finite_subset [of _ "{?d..<?d + total_weight xs}"], auto)
  have A: "card ?A = (if x = r then nat (rule_share x) else 0)"
  proof (cases "x = r")
    case True
    then have "?A = {c..<?d}" by auto
    then show ?thesis using True by simp
  qed simp
  have "card (?A \<union> ?B) = card ?A + card ?B" using fin by (intro card_Un_disjoint) auto
  also have "\<dots> = nat (\<Sum>y\<leftarrow>filter (\<lambda>y. y = r) (x # xs). rule_share y)"
    using A Cons.IH [of ?d] total_weight_nonneg [of "filter (\<lambda>y. y = r) xs"]
    by (auto simp: nat_add_distrib total_weight_def simp del: total_weight_nonneg)
  finally show ?case using split by simp
qed

lemma filter_eq_distinct: "distinct xs \<Longrightarrow> x \<in> set xs \<Longrightarrow> filter (\<lambda>y. y = x) xs = [x]"
  by (induction xs) (auto simp: filter_empty_conv)

lemma choose_in_bucket_member: "bucket \<noteq> [] \<Longrightarrow> choose_in_bucket digest seed bucket \<in> set bucket"
  by (auto simp: choose_in_bucket_def Let_def stable_bucket_def split: option.splits
      dest!: pick_by_cursor_sound)

lemma choose_in_bucket_positive:
  assumes "0 < total_weight bucket"
  shows "0 < rule_share (choose_in_bucket digest seed bucket)"
proof -
  let ?p = "stable_bucket digest seed (total_weight bucket)"
  have "0 \<le> ?p" "?p < 0 + total_weight bucket" using assms by (auto simp: stable_bucket_def)
  then have "pick_by_cursor ?p 0 bucket \<noteq> None" by (rule pick_by_cursor_total)
  then show ?thesis
    using assms \<open>0 \<le> ?p\<close> by (auto simp: choose_in_bucket_def dest: pick_by_cursor_sound)
qed

lemma min_list_lower: "x \<in> set xs \<Longrightarrow> min_list (map f xs) \<le> (f x :: int)"
  by (subst min_list_Min) auto

lemma min_list_attained: "xs \<noteq> [] \<Longrightarrow> \<exists>x \<in> set xs. f x = (min_list (map f xs) :: int)"
proof -
  assume "xs \<noteq> []"
  then have "min_list (map f xs) = Min (set (map f xs))" by (intro min_list_Min) simp
  moreover have "Min (set (map f xs)) \<in> set (map f xs)" using \<open>xs \<noteq> []\<close> by (intro Min_in) auto
  ultimately show ?thesis by auto
qed

section \<open>Properties\<close>

text \<open>Concrete inputs for the witnesses.\<close>

definition sample_rule :: "string \<Rightarrow> int \<Rightarrow> smart_rule" where
  "sample_rule i w = \<lparr>rule_id = i, rule_destinationUrl = ''https://'' @ i, rule_priority = 10, rule_weight = w,
     rule_enabled = Some True, rule_healthStatus = HHealthy, rule_countryCodes = None, rule_deviceType = None,
     rule_trafficType = None, rule_aiAgent = None, rule_os = None, rule_languageCodes = None,
     rule_referrerDomain = None, rule_startAt = None, rule_endAt = None, rule_schedule = None\<rparr>"

definition sample_context :: routing_context where
  "sample_context = \<lparr>ctx_country = ''US'', ctx_region = None, ctx_deviceType = DDesktop, ctx_referrerHost = None,
     ctx_now = 0, ctx_os = Some OsLinux, ctx_language = Some ''en'', ctx_trafficType = Some THuman, ctx_aiAgent = None\<rparr>"

text \<open>
  C12: Rule selection.  \<open>chooseSmartRule\<close> returns no rule exactly when no rule matches the
  visitor.  A rule it returns is one of the link's rules, matches the visitor, has the least
  priority number among the matching rules, and has a positive weight whenever some
  matching rule of that priority has one.
\<close>

theorem choose_smart_rule_optimal:
  "case choose_smart_rule digest tz_known intl rules c code visitor of
     None \<Rightarrow> \<not> (\<exists>r \<in> set rules. matches_rule tz_known intl r c)
   | Some r \<Rightarrow> r \<in> set rules \<and> matches_rule tz_known intl r c
       \<and> \<not> (\<exists>r' \<in> set rules. matches_rule tz_known intl r' c \<and> rule_priority r' < rule_priority r)
       \<and> (0 < rule_weight r \<or>
          \<not> (\<exists>r' \<in> set rules. matches_rule tz_known intl r' c \<and> rule_priority r' = rule_priority r \<and> 0 < rule_weight r'))"
proof (cases "filter (\<lambda>r. matches_rule tz_known intl r c) rules = []")
  case True
  then show ?thesis by (auto simp: choose_smart_rule_def filter_empty_conv)
next
  case False
  define cand where "cand = filter (\<lambda>r. matches_rule tz_known intl r c) rules"
  define m where "m = min_list (map rule_priority cand)"
  define bucket where "bucket = filter (\<lambda>r. rule_priority r = m) cand"
  define r where "r = choose_in_bucket digest (code @ '':'' @ visitor @ '':'' @ int_dec m) bucket"
  have res: "choose_smart_rule digest tz_known intl rules c code visitor = Some r"
    using False by (simp add: choose_smart_rule_def Let_def r_def bucket_def m_def cand_def)
  obtain x where "x \<in> set cand" "rule_priority x = m"
    using min_list_attained [of cand rule_priority] False unfolding m_def cand_def by blast
  then have "bucket \<noteq> []" by (auto simp: bucket_def filter_empty_conv)
  then have rin: "r \<in> set bucket" unfolding r_def by (rule choose_in_bucket_member)
  then have least: "\<not> rule_priority r' < rule_priority r" if "r' \<in> set cand" for r'
    using min_list_lower [OF that, of rule_priority] by (simp add: bucket_def m_def)
  have "0 < rule_weight r" if "r' \<in> set bucket" "0 < rule_weight r'" for r'
  proof -
    have "0 < total_weight bucket"
      using that by (intro total_weight_pos) (auto simp: rule_share_def)
    then have "0 < rule_share r" unfolding r_def by (rule choose_in_bucket_positive)
    then show ?thesis by (simp add: rule_share_def max_def split: if_splits)
  qed
  then show ?thesis using rin least by (auto simp: res bucket_def cand_def)
qed

theorem choose_smart_rule_optimal_witness:
  "case choose_smart_rule (\<lambda>_. 5) (\<lambda>_. True) (\<lambda>_ _. (''Mon'', 0, 0))
       [sample_rule ''a'' 0, sample_rule ''b'' 30] sample_context ''code'' ''v'' of
     None \<Rightarrow> False | Some r \<Rightarrow> 0 < rule_weight r"
proof -
  let ?rules = "[sample_rule ''a'' 0, sample_rule ''b'' 30]"
  have m: "matches_rule (\<lambda>_. True) (\<lambda>_ _. (''Mon'', 0, 0)) (sample_rule i w) sample_context" for i w
    by (simp add: matches_rule_def sample_rule_def sample_context_def country_matches_def list_matches_def
        os_matches_def language_matches_def referrer_matches_def time_matches_def)
  have p: "rule_priority (sample_rule i w) = 10" "rule_weight (sample_rule i w) = w" for i w
    by (simp_all add: sample_rule_def)
  show ?thesis
    using choose_smart_rule_optimal [where digest = "\<lambda>_. 5" and tz_known = "\<lambda>_. True"
        and intl = "\<lambda>_ _. (''Mon'', 0, 0)" and rules = ?rules and c = sample_context
        and code = "''code''" and visitor = "''v''"]
      m p by (auto split: option.splits)
qed

text \<open>Counting a periodic property: in any window of one period, and up to a bound.\<close>

lemma card_one_period:
  fixes P :: "nat \<Rightarrow> bool"
  assumes "\<And>h. P (h + n) = P h"
  shows "card {h. s \<le> h \<and> h < s + n \<and> P h} = card {h. h < n \<and> P h}"
proof (induction s)
  case (Suc s)
  show ?case
  proof (cases "n = 0")
    case False
    let ?A = "{h. Suc s \<le> h \<and> h < s + n \<and> P h}"
    have new: "{h. Suc s \<le> h \<and> h < Suc s + n \<and> P h} = (if P (s + n) then insert (s + n) ?A else ?A)" using False by (auto simp: less_Suc_eq)
    have old: "{h. s \<le> h \<and> h < s + n \<and> P h} = (if P s then insert s ?A else ?A)" using False by (auto simp: Suc_le_eq le_less)
    have "finite ?A" "s + n \<notin> ?A" "s \<notin> ?A" by (auto intro: finite_subset [of _ "{..<s + n}"])
    then have "card {h. Suc s \<le> h \<and> h < Suc s + n \<and> P h} = card {h. s \<le> h \<and> h < s + n \<and> P h}"
      unfolding new old assms by (cases "P s") simp_all
    then show ?thesis using Suc.IH by simp
  qed simp
qed simp

lemma card_periods:
  fixes P :: "nat \<Rightarrow> bool"
  assumes "\<And>h. P (h + n) = P h"
  shows "card {h. h < q * n \<and> P h} = q * card {h. h < n \<and> P h}"
proof (induction q)
  case (Suc q)
  have "{h. h < Suc q * n \<and> P h} = {h. h < q * n \<and> P h} \<union> {h. q * n \<le> h \<and> h < q * n + n \<and> P h}" by auto
  moreover have "card (\<dots>) = card {h. h < q * n \<and> P h} + card {h. q * n \<le> h \<and> h < q * n + n \<and> P h}"
    by (rule card_Un_disjoint) auto
  ultimately show ?case using Suc.IH card_one_period [of P n, OF assms] by simp
qed simp

lemma card_up_to:
  fixes P :: "nat \<Rightarrow> bool"
  assumes "\<And>h. P (h + n) = P h" "0 < n"
  shows "(N div n) * card {h. h < n \<and> P h} \<le> card {h. h < N \<and> P h}"
    and "card {h. h < N \<and> P h} \<le> (N div n + 1) * card {h. h < n \<and> P h}"
proof -
  have "N div n * n \<le> N" "N < (N div n + 1) * n"
    using assms(2) by (simp_all add: div_times_less_eq_dividend dividend_less_div_times)
  then have "{h. h < N div n * n \<and> P h} \<subseteq> {h. h < N \<and> P h}" "{h. h < N \<and> P h} \<subseteq> {h. h < (N div n + 1) * n \<and> P h}"
    by (blast intro: less_le_trans less_trans)+
  then have "card {h. h < N div n * n \<and> P h} \<le> card {h. h < N \<and> P h}"
    "card {h. h < N \<and> P h} \<le> card {h. h < (N div n + 1) * n \<and> P h}"
    by (simp_all add: card_mono)
  then show "(N div n) * card {h. h < n \<and> P h} \<le> card {h. h < N \<and> P h}"
    "card {h. h < N \<and> P h} \<le> (N div n + 1) * card {h. h < n \<and> P h}"
    unfolding card_periods [of P n, OF assms(1)] by fast+
qed

lemma choose_in_bucket_period:
  assumes "0 < total_weight bucket"
  shows "choose_in_bucket (\<lambda>_. h + nat (total_weight bucket)) seed bucket = choose_in_bucket (\<lambda>_. h) seed bucket"
  using assms by (simp add: choose_in_bucket_def stable_bucket_def)

lemma choose_in_bucket_first_period:
  assumes "distinct bucket" and "r \<in> set bucket" and total: "0 < total_weight bucket"
  shows "card {h. h < nat (total_weight bucket) \<and> choose_in_bucket (\<lambda>_. h) seed bucket = r} = nat (rule_share r)"
proof -
  let ?P = "{p. 0 \<le> p \<and> p < 0 + total_weight bucket \<and> pick_by_cursor p 0 bucket = Some r}"
  let ?H = "{h. h < nat (total_weight bucket) \<and> choose_in_bucket (\<lambda>_. h) seed bucket = r}"
  have pick: "choose_in_bucket (\<lambda>_. h) seed bucket = r \<longleftrightarrow> pick_by_cursor (int h) 0 bucket = Some r"
    if "h < nat (total_weight bucket)" for h
  proof -
    have "pick_by_cursor (int h) 0 bucket \<noteq> None" using that by (intro pick_by_cursor_total) auto
    moreover have "int h mod total_weight bucket = int h" using that by simp
    ultimately show ?thesis using total by (auto simp: choose_in_bucket_def stable_bucket_def)
  qed
  have "int ` ?H = ?P"
  proof (intro equalityI subsetI)
    fix p assume "p \<in> ?P"
    then show "p \<in> int ` ?H" using pick [of "nat p"] by (intro image_eqI [of _ _ "nat p"]) auto
  next
    fix p assume "p \<in> int ` ?H"
    then obtain h where h: "p = int h" "h < nat (total_weight bucket)"
      "choose_in_bucket (\<lambda>_. h) seed bucket = r" by blast
    then show "p \<in> ?P" using pick [OF h(2)] by simp
  qed
  moreover have "card (int ` ?H) = card ?H" by (rule card_image) simp
  ultimately have "card ?H = card ?P" by simp
  also have "\<dots> = nat (\<Sum>x\<leftarrow>filter (\<lambda>x. x = r) bucket. rule_share x)" by (rule picks_of_rule_card)
  also have "\<dots> = nat (rule_share r)" using assms by (simp add: filter_eq_distinct)
  finally show ?thesis .
qed

text \<open>
  C16: The split between rules of equal priority is proportional to their weights over the whole
  range of the hash.  Among any \<open>totalWeight\<close> consecutive hash values, wherever they start, the
  number that send the visitor to a given rule is that rule's weight (zero for a weight that is
  not positive); and of all 32-bit hash values the rule gets at least \<open>2^32 div totalWeight\<close> and
  at most one more times its weight.
\<close>

theorem choose_in_bucket_share:
  assumes "distinct bucket" and "r \<in> set bucket" and "0 < total_weight bucket"
  shows "(\<forall>s. card {h. s \<le> h \<and> h < s + nat (total_weight bucket) \<and> choose_in_bucket (\<lambda>_. h) seed bucket = r} = nat (rule_share r))
    \<and> 2 ^ 32 div nat (total_weight bucket) * nat (rule_share r) \<le> card {h. h < 2 ^ 32 \<and> choose_in_bucket (\<lambda>_. h) seed bucket = r}
    \<and> card {h. h < 2 ^ 32 \<and> choose_in_bucket (\<lambda>_. h) seed bucket = r} \<le> (2 ^ 32 div nat (total_weight bucket) + 1) * nat (rule_share r)"
proof -
  let ?P = "\<lambda>h. choose_in_bucket (\<lambda>_. h) seed bucket = r" and ?n = "nat (total_weight bucket)"
  have per: "?P (h + ?n) = ?P h" for h using choose_in_bucket_period assms(3) by simp
  have one: "card {h. h < ?n \<and> ?P h} = nat (rule_share r)" by (rule choose_in_bucket_first_period [OF assms])
  have "card {h. s \<le> h \<and> h < s + ?n \<and> ?P h} = nat (rule_share r)" for s
    using card_one_period [of ?P ?n s, OF per] one by simp
  moreover have "2 ^ 32 div ?n * nat (rule_share r) \<le> card {h. h < 2 ^ 32 \<and> ?P h}"
    using card_up_to(1) [of ?P ?n "2 ^ 32", OF per] one assms(3) by simp
  moreover have "card {h. h < 2 ^ 32 \<and> ?P h} \<le> (2 ^ 32 div ?n + 1) * nat (rule_share r)"
    using card_up_to(2) [of ?P ?n "2 ^ 32", OF per] one assms(3) by simp
  ultimately show ?thesis by blast
qed

theorem choose_in_bucket_share_witness:
  "card {h. 1000 \<le> h \<and> h < 1100 \<and>
     choose_in_bucket (\<lambda>_. h) ''s'' [sample_rule ''a'' 70, sample_rule ''b'' 30] = sample_rule ''b'' 30} = 30"
proof -
  have "distinct [sample_rule ''a'' 70, sample_rule ''b'' 30]" by (simp add: sample_rule_def)
  moreover have "total_weight [sample_rule ''a'' 70, sample_rule ''b'' 30] = 100"
    by (simp add: sample_rule_def rule_share_def)
  moreover have "nat (rule_share (sample_rule ''b'' 30)) = 30" by (simp add: sample_rule_def rule_share_def)
  ultimately show ?thesis
    using choose_in_bucket_share [of "[sample_rule ''a'' 70, sample_rule ''b'' 30]" "sample_rule ''b'' 30" "''s''",
        THEN conjunct1, THEN spec [of _ 1000]] by simp
qed

end
