(* ===== verification/JsValue.thy ===== *)
theory JsValue
  imports Prelude
begin

text \<open>
  Conversions of decoded JSON values that the input parsers call: \<open>String(v)\<close> and
  \<open>Number(s)\<close>, and \<open>new Date(s)\<close> through a parser of date texts that is a parameter.
  Numbers are exact (a double is its rational value), so a literal with more digits than a
  double holds is not rounded; \<open>NaN\<close> and the infinities are \<open>None\<close>.
\<close>

section \<open>\<open>String(v)\<close>\<close>

text \<open>Up to 17 decimal places of the fraction, without trailing zeros.\<close>

fun frac_digits :: "nat \<Rightarrow> rat \<Rightarrow> string" where
  "frac_digits 0 r = []"
| "frac_digits (Suc n) r = (if r = 0 then []
     else char_of (nat \<lfloor>r * 10\<rfloor> + 48) # frac_digits n (r * 10 - of_int \<lfloor>r * 10\<rfloor>))"

definition frac_dec :: "rat \<Rightarrow> string" where
  "frac_dec r = (let a = \<bar>r\<bar> in
     (if r < 0 then ''-'' else []) @ nat_dec (nat \<lfloor>a\<rfloor>) @ ''.'' @ frac_digits 17 (a - of_int \<lfloor>a\<rfloor>))"

fun js_string :: "json \<Rightarrow> string" where
  "js_string JNull = ''null''"
| "js_string (JBool b) = (if b then ''true'' else ''false'')"
| "js_string (JInt i) = int_dec i"
| "js_string (JFrac r) = frac_dec r"
| "js_string (JStr s) = s"
| "js_string (JArr xs) = join_with '','' (map (\<lambda>x. if x = JNull then [] else js_string x) xs)"
| "js_string (JObj _) = ''[object Object]''"

section \<open>\<open>Number(s)\<close>\<close>

text \<open>The value of a digit in a radix, \<open>None\<close> when it is no digit of it.\<close>

definition radix_digit :: "nat \<Rightarrow> char \<Rightarrow> nat option" where
  "radix_digit base c = (let n = (of_char c :: nat);
       v = (if is_digit c then n - 48 else if is_lower c then n - 87 else if is_upper c then n - 55 else 99)
     in if v < base then Some v else None)"

fun radix_val :: "nat \<Rightarrow> nat \<Rightarrow> string \<Rightarrow> nat option" where
  "radix_val base acc [] = Some acc"
| "radix_val base acc (c # cs) = (case radix_digit base c of
       None \<Rightarrow> None | Some d \<Rightarrow> radix_val base (acc * base + d) cs)"

text \<open>A leading sign.\<close>

definition split_sign :: "string \<Rightarrow> bool \<times> string" where
  "split_sign s = (case s of [] \<Rightarrow> (False, [])
     | c # cs \<Rightarrow> if c = CHR ''-'' then (True, cs) else if c = CHR ''+'' then (False, cs) else (False, s))"

text \<open>The exponent part, \<open>Some 0\<close> when there is none.\<close>

definition exponent_of :: "string \<Rightarrow> int option" where
  "exponent_of s = (case s of [] \<Rightarrow> Some 0
     | c # cs \<Rightarrow> if c \<noteq> CHR ''e'' \<and> c \<noteq> CHR ''E'' then None
         else (case split_sign cs of (neg, ds) \<Rightarrow>
            if ds = [] \<or> \<not> list_all is_digit ds then None
            else Some (if neg then - int (dec_val ds) else int (dec_val ds))))"

definition pow10 :: "int \<Rightarrow> rat" where
  "pow10 e = (if 0 \<le> e then 10 ^ nat e else 1 / 10 ^ nat (- e))"

definition decimal_literal :: "string \<Rightarrow> rat option" where
  "decimal_literal s =
     (case split_sign s of (neg, body) \<Rightarrow>
       (let ip = takeWhile is_digit body; r = dropWhile is_digit body;
            dotted = (r \<noteq> [] \<and> hd r = CHR ''.'');
            fp = (if dotted then takeWhile is_digit (tl r) else []);
            r' = (if dotted then dropWhile is_digit (tl r) else r)
        in if ip = [] \<and> fp = [] then None
           else (case exponent_of r' of None \<Rightarrow> None
             | Some e \<Rightarrow>
                (let v = of_nat (dec_val (ip @ fp)) * pow10 (e - int (length fp))
                 in Some (if neg then - v else v)))))"

definition js_number :: "string \<Rightarrow> rat option" where
  "js_number s =
     (let t = trim s in
      if t = [] then Some 0
      else if prefix ''0x'' t \<or> prefix ''0X'' t
        then (if length t = 2 then None else map_option of_nat (radix_val 16 0 (drop 2 t)))
      else if prefix ''0o'' t \<or> prefix ''0O'' t
        then (if length t = 2 then None else map_option of_nat (radix_val 8 0 (drop 2 t)))
      else if prefix ''0b'' t \<or> prefix ''0B'' t
        then (if length t = 2 then None else map_option of_nat (radix_val 2 0 (drop 2 t)))
      else decimal_literal t)"

text \<open>\<open>typeof v === 'number' ? v : Number(String(v).trim())\<close>, as an integer when it is one.\<close>

definition integer_of :: "rat \<Rightarrow> int option" where
  "integer_of r = (if of_int \<lfloor>r\<rfloor> = r then Some \<lfloor>r\<rfloor> else None)"

definition to_integer :: "json \<Rightarrow> int option" where
  "to_integer v = (case v of
       JInt i \<Rightarrow> Some i
     | JFrac r \<Rightarrow> integer_of r
     | _ \<Rightarrow> (case js_number (trim (js_string v)) of None \<Rightarrow> None | Some r \<Rightarrow> integer_of r))"

text \<open>The guard \<open>v === null || v === undefined || v === ''\<close> of the input parsers.\<close>

definition blank :: "json option \<Rightarrow> bool" where
  "blank v = (v = None \<or> v = Some JNull \<or> v = Some (JStr []))"

section \<open>Digits read back\<close>

lemma dec_val_append: "dec_val (xs @ [c]) = dec_val xs * 10 + digit_val c"
  by (simp add: dec_val_def)

lemma dec_val_nat_dec [simp]: "dec_val (nat_dec n) = n"
proof (induction n rule: nat_dec.induct)
  case (1 n)
  then show ?case
    by (subst nat_dec.simps) (auto simp: dec_val_append, simp add: dec_val_def)
qed

lemma takeWhile_all: "list_all P xs \<Longrightarrow> takeWhile P xs = xs"
  by (simp add: list_all_iff takeWhile_eq_all_conv)

lemma integer_of_int [simp]: "integer_of (of_int i) = Some i"
  by (simp add: integer_of_def)

end
