(* ===== verification/ActiveHours.thy ===== *)
theory ActiveHours
  imports RuleSchedule JsValue
begin

text \<open>
  Weekly active hours of a link (\<open>src/lib/active-hours.ts\<close>): validation, the test
  whether an instant lies in a window and the search for the next active minute.  The
  clock of a timezone is the parameter \<open>intl\<close>, as in \<open>RuleSchedule\<close>.  The search is
  shown to return the first active minute, and to find one within a week for a zone whose
  local clock advances evenly.
\<close>

section \<open>Configuration\<close>

record active_window =
  aw_days :: "int list"
  aw_start :: string
  aw_end :: string

record active_hours =
  ah_timezone :: string
  ah_windows :: "active_window list"

definition MAX_ACTIVE_WINDOWS :: nat where "MAX_ACTIVE_WINDOWS = 14"

text \<open>The pattern \<open>^([01]\\d|2[0-3]):([0-5]\\d)$\<close>.\<close>

fun is_hhmm :: "string \<Rightarrow> bool" where
  "is_hhmm [a, b, c, m, n] =
     (is_digit a \<and> is_digit b \<and> (digit_val a \<le> 1 \<or> (digit_val a = 2 \<and> digit_val b \<le> 3))
      \<and> c = CHR '':'' \<and> is_digit m \<and> digit_val m \<le> 5 \<and> is_digit n)"
| "is_hhmm _ = False"

definition to_minutes :: "string \<Rightarrow> int" where
  "to_minutes s = int (dec_val (take 2 s)) * 60 + int (dec_val (drop 3 s))"

text \<open>The integers among \<open>days\<close>, when all of them are integers from 0 to 6.\<close>

fun day_numbers :: "json list \<Rightarrow> int list option" where
  "day_numbers [] = Some []"
| "day_numbers (v # vs) = (case v of
       JInt d \<Rightarrow> (if 0 \<le> d \<and> d \<le> 6 then map_option ((#) d) (day_numbers vs) else None)
     | _ \<Rightarrow> None)"

definition parse_active_window :: "nat \<Rightarrow> json \<Rightarrow> active_window thrown" where
  "parse_active_window i w =
     (let at_i = ''activeHours.windows['' @ nat_dec i @ '']'' in
      case (case jget w ''days'' of Some (JArr ds) \<Rightarrow> (if ds = [] then None else day_numbers ds) | _ \<Rightarrow> None) of
        None \<Rightarrow> Inl (at_i @ ''.days must be integers 0-6'')
      | Some days \<Rightarrow>
         (case (jstr (jget w ''start''), jstr (jget w ''end'')) of
            (Some start, Some fin) \<Rightarrow>
              if \<not> (is_hhmm start \<and> is_hhmm fin) then Inl (at_i @ '' start/end must be HH:MM'')
              else if start = fin then Inl (at_i @ '' start and end must differ'')
              else Inr \<lparr>aw_days = sort (uniq days), aw_start = start, aw_end = fin\<rparr>
          | _ \<Rightarrow> Inl (at_i @ '' start/end must be HH:MM'')))"

fun parse_active_windows :: "nat \<Rightarrow> json list \<Rightarrow> active_window list thrown" where
  "parse_active_windows i [] = Inr []"
| "parse_active_windows i (w # ws) = (case parse_active_window i w of
       Inl e \<Rightarrow> Inl e
     | Inr a \<Rightarrow> (case parse_active_windows (Suc i) ws of Inl e \<Rightarrow> Inl e | Inr out \<Rightarrow> Inr (a # out)))"

definition is_json_object :: "json \<Rightarrow> bool" where
  "is_json_object v = (case v of JObj _ \<Rightarrow> True | JArr _ \<Rightarrow> True | _ \<Rightarrow> False)"

definition parse_active_hours :: "(string \<Rightarrow> bool) \<Rightarrow> json option \<Rightarrow> active_hours option thrown" where
  "parse_active_hours tz_known input =
     (if nullish input then Inr None
      else if \<not> is_json_object (the input) then Inl ''activeHours must be an object''
      else (case jstr (jget (the input) ''timezone'') of
          None \<Rightarrow> Inl ''activeHours.timezone must be a valid IANA timezone''
        | Some tz \<Rightarrow>
           if \<not> tz_known tz then Inl ''activeHours.timezone must be a valid IANA timezone''
           else (case jget (the input) ''windows'' of
               Some (JArr ws) \<Rightarrow>
                 if ws = [] then Inr None
                 else if length ws > MAX_ACTIVE_WINDOWS then Inl ''activeHours allows at most 14 windows''
                 else (case parse_active_windows 0 ws of
                     Inl e \<Rightarrow> Inl e
                   | Inr out \<Rightarrow> Inr (Some \<lparr>ah_timezone = tz, ah_windows = out\<rparr>))
             | _ \<Rightarrow> Inr None)))"

section \<open>Evaluation\<close>

definition WEEKDAYS :: "(string \<times> int) list" where
  "WEEKDAYS = [(''Sun'', 0), (''Mon'', 1), (''Tue'', 2), (''Wed'', 3), (''Thu'', 4), (''Fri'', 5), (''Sat'', 6)]"

text \<open>A weekday name outside the table is \<open>undefined\<close>; \<open>-1\<close> stands for it (in no list of days).\<close>

definition local_parts :: "(string \<Rightarrow> js_date \<Rightarrow> string \<times> nat \<times> nat) \<Rightarrow> js_date \<Rightarrow> string \<Rightarrow> int \<times> int" where
  "local_parts intl t tz = (case intl tz t of (weekday, hour, minute) \<Rightarrow>
     (coalesce (map_of WEEKDAYS weekday) (-1), int hour * 60 + int minute))"

definition is_within_active_hours ::
  "(string \<Rightarrow> js_date \<Rightarrow> string \<times> nat \<times> nat) \<Rightarrow> active_hours option \<Rightarrow> js_date \<Rightarrow> bool" where
  "is_within_active_hours intl cfg t = (case cfg of
       None \<Rightarrow> True
     | Some c \<Rightarrow> if ah_windows c = [] then True else
        (case local_parts intl t (ah_timezone c) of (day, minutes) \<Rightarrow>
          list_ex (\<lambda>w. window_contains (aw_days w) (to_minutes (aw_start w)) (to_minutes (aw_end w)) day minutes)
            (ah_windows c)))"

text \<open>The loop of \<open>nextActiveAt\<close>, with \<open>n\<close> minutes left to try.\<close>

fun first_minute :: "(js_date \<Rightarrow> bool) \<Rightarrow> js_date \<Rightarrow> nat \<Rightarrow> js_date option" where
  "first_minute p t 0 = None"
| "first_minute p t (Suc n) = (if p t then Some t else first_minute p (t + 60000) n)"

definition floor_minute :: "js_date \<Rightarrow> js_date" where
  "floor_minute t = t div 60000 * 60000"

definition next_active_at ::
  "(string \<Rightarrow> js_date \<Rightarrow> string \<times> nat \<times> nat) \<Rightarrow> active_hours option \<Rightarrow> js_date \<Rightarrow> js_date option" where
  "next_active_at intl cfg from_t =
     (if (case cfg of None \<Rightarrow> True | Some c \<Rightarrow> ah_windows c = []) then Some from_t
      else first_minute (is_within_active_hours intl cfg) (floor_minute from_t) (8 * 24 * 60 + 1))"

section \<open>Well-formed configurations\<close>

definition wf_active_window :: "active_window \<Rightarrow> bool" where
  "wf_active_window w \<longleftrightarrow> aw_days w \<noteq> [] \<and> sorted (aw_days w) \<and> distinct (aw_days w)
     \<and> (\<forall>d \<in> set (aw_days w). 0 \<le> d \<and> d < 7) \<and> is_hhmm (aw_start w) \<and> is_hhmm (aw_end w) \<and> aw_start w \<noteq> aw_end w"

definition wf_active_hours :: "(string \<Rightarrow> bool) \<Rightarrow> active_hours \<Rightarrow> bool" where
  "wf_active_hours tz_known c \<longleftrightarrow> tz_known (ah_timezone c) \<and> ah_windows c \<noteq> []
     \<and> length (ah_windows c) \<le> MAX_ACTIVE_WINDOWS \<and> (\<forall>w \<in> set (ah_windows c). wf_active_window w)"

lemma digit_val_le: "is_digit c \<Longrightarrow> digit_val c \<le> 9"
  by (auto simp: is_digit_def digit_val_def Let_def)

lemma is_hhmm_cases:
  assumes "is_hhmm s"
  obtains a b m n where "s = [a, b, CHR '':'', m, n]" "digit_val a * 10 + digit_val b \<le> 23"
    "digit_val m \<le> 5" "digit_val n \<le> 9"
  using assms
  by (cases s rule: is_hhmm.cases) (auto dest!: digit_val_le)

lemma to_minutes_bounds: "is_hhmm s \<Longrightarrow> 0 \<le> to_minutes s \<and> to_minutes s < 1440"
  by (erule is_hhmm_cases) (auto simp: to_minutes_def dec_val_def)

lemma day_numbers_bounds: "day_numbers vs = Some ds \<Longrightarrow> d \<in> set ds \<Longrightarrow> 0 \<le> d \<and> d < 7"
  by (induction vs arbitrary: ds) (auto split: json.splits if_splits)

lemma day_numbers_length: "day_numbers vs = Some ds \<Longrightarrow> length ds = length vs"
  by (induction vs arbitrary: ds) (auto split: json.splits if_splits)

lemma parse_active_window_wf:
  assumes "parse_active_window i v = Inr w"
  shows "wf_active_window w"
proof -
  obtain js days where d: "day_numbers js = Some days" "js \<noteq> []"
    and h: "is_hhmm (aw_start w)" "is_hhmm (aw_end w)" "aw_start w \<noteq> aw_end w" "aw_days w = sort (uniq days)"
    using assms
    by (auto simp: parse_active_window_def Let_def split: option.splits json.splits if_splits)
  have "days \<noteq> []" using d day_numbers_length by fastforce
  then have "sort (uniq days) \<noteq> []" by (metis set_empty set_sort set_uniq)
  then show ?thesis using h d day_numbers_bounds by (auto simp: wf_active_window_def)
qed

lemma parse_active_windows_wf:
  "parse_active_windows i ws = Inr out \<Longrightarrow> length out = length ws \<and> (\<forall>w \<in> set out. wf_active_window w)"
proof (induction ws arbitrary: i out)
  case (Cons w ws)
  then show ?case by (fastforce split: sum.splits dest: parse_active_window_wf)
qed simp

lemma parse_active_hours_wf:
  assumes "parse_active_hours tz_known input = Inr (Some c)"
  shows "wf_active_hours tz_known c"
proof -
  obtain ws where "parse_active_windows 0 ws = Inr (ah_windows c)" "ws \<noteq> []" "length ws \<le> MAX_ACTIVE_WINDOWS"
    "tz_known (ah_timezone c)"
    using assms
    by (auto simp: parse_active_hours_def not_less split: option.splits json.splits if_splits sum.splits)
  then show ?thesis using parse_active_windows_wf by (fastforce simp: wf_active_hours_def)
qed

section \<open>Windows on the circle of the week\<close>

definition active_in_week :: "active_hours \<Rightarrow> int \<Rightarrow> int \<Rightarrow> bool" where
  "active_in_week c day minutes = (\<exists>w \<in> set (ah_windows c).
     in_week_window (aw_days w) (to_minutes (aw_start w)) (to_minutes (aw_end w)) day minutes)"

lemma is_within_active_hours_week:
  assumes "wf_active_hours tz_known c" "local_parts intl t (ah_timezone c) = (day, minutes)"
    "0 \<le> day" "day < 7" "0 \<le> minutes" "minutes < 1440"
  shows "is_within_active_hours intl (Some c) t \<longleftrightarrow> active_in_week c day minutes"
proof -
  have "window_contains (aw_days w) (to_minutes (aw_start w)) (to_minutes (aw_end w)) day minutes =
      in_week_window (aw_days w) (to_minutes (aw_start w)) (to_minutes (aw_end w)) day minutes"
    if "w \<in> set (ah_windows c)" for w
    using that assms to_minutes_bounds [of "aw_start w"] to_minutes_bounds [of "aw_end w"]
    by (intro window_contains_week) (auto simp: wf_active_hours_def wf_active_window_def)
  then show ?thesis
    using assms by (simp add: is_within_active_hours_def active_in_week_def list_ex_iff wf_active_hours_def)
qed

section \<open>The next active minute\<close>

lemma first_minute_Some:
  "first_minute p t n = Some u \<longleftrightarrow>
    (\<exists>k < n. u = t + 60000 * int k \<and> p u \<and> (\<forall>j < k. \<not> p (t + 60000 * int j)))"
proof (induction n arbitrary: t)
  case (Suc n)
  show ?case
  proof (cases "p t")
    case True
    show ?thesis
    proof
      assume "first_minute p t (Suc n) = Some u"
      then show "\<exists>k < Suc n. u = t + 60000 * int k \<and> p u \<and> (\<forall>j < k. \<not> p (t + 60000 * int j))"
        using True by (intro exI [of _ 0]) auto
    next
      assume "\<exists>k < Suc n. u = t + 60000 * int k \<and> p u \<and> (\<forall>j < k. \<not> p (t + 60000 * int j))"
      then obtain k where k: "u = t + 60000 * int k" "\<forall>j < k. \<not> p (t + 60000 * int j)" by blast
      have "k = 0" using k(2) True by (cases k) auto
      then show "first_minute p t (Suc n) = Some u" using True k by simp
    qed
  next
    case False
    have shift: "(\<forall>j < Suc k. \<not> p (t + 60000 * int j)) \<longleftrightarrow> (\<forall>j < k. \<not> p (t + 60000 + 60000 * int j))" for k
      using False by (auto simp: less_Suc_eq_0_disj algebra_simps)
    have "(\<exists>k < Suc n. u = t + 60000 * int k \<and> p u \<and> (\<forall>j < k. \<not> p (t + 60000 * int j))) \<longleftrightarrow>
        (\<exists>k < n. u = t + 60000 * int (Suc k) \<and> p u \<and> (\<forall>j < Suc k. \<not> p (t + 60000 * int j)))"
      using False by (auto simp: Ex_less_Suc2)
    also have "\<dots> \<longleftrightarrow> first_minute p t (Suc n) = Some u"
      unfolding shift using False Suc.IH [of "t + 60000"] by (simp add: algebra_simps)
    finally show ?thesis by simp
  qed
qed simp

lemma first_minute_None: "first_minute p t n = None \<longleftrightarrow> (\<forall>k < n. \<not> p (t + 60000 * int k))"
proof (induction n arbitrary: t)
  case (Suc n)
  then show ?case by (auto simp: less_Suc_eq_0_disj algebra_simps)
qed simp

text \<open>
  The local clock of a zone: \<open>offset\<close> gives, for each UTC minute, how many minutes the zone is ahead of
  UTC then, the epoch being a Thursday.  A change of the clock (daylight saving time) is a change of
  the offset: \<open>changes_once\<close> says that over the minutes searched from \<open>n\<close> on there is at most one, by
  \<open>delta\<close> minutes at minute \<open>T\<close>.
\<close>

definition zone_clock :: "(string \<Rightarrow> js_date \<Rightarrow> string \<times> nat \<times> nat) \<Rightarrow> string \<Rightarrow> (int \<Rightarrow> int) \<Rightarrow> bool" where
  "zone_clock intl tz offset \<longleftrightarrow> (\<forall>t. let m = t div 60000 + offset (t div 60000)
     in local_parts intl t tz = ((m + 4 * 1440) mod 10080 div 1440, m mod 1440))"

definition changes_once :: "(int \<Rightarrow> int) \<Rightarrow> int \<Rightarrow> int \<Rightarrow> int \<Rightarrow> bool" where
  "changes_once offset n T delta \<longleftrightarrow>
     (\<exists>base. \<forall>m. n \<le> m \<and> m \<le> n + 8 * 1440 \<longrightarrow> offset m = (if m < T then base else base + delta))"

lemma week_position:
  fixes x :: int
  shows "(x + 4 * 1440) mod 10080 div 1440 * 1440 + x mod 1440 = (x + 4 * 1440) mod 10080"
proof -
  have "(x + 4 * 1440) mod 10080 mod 1440 = (x + 4 * 1440) mod 1440"
    by (rule mod_mod_cancel) simp
  also have "\<dots> = x mod 1440" by presburger
  finally show ?thesis by (metis div_mult_mod_eq)
qed

text \<open>Whether a minute is active, by its position in the local week.\<close>

lemma zone_clock_active:
  assumes "wf_active_hours tz_known c" "zone_clock intl (ah_timezone c) offset"
  shows "is_within_active_hours intl (Some c) t \<longleftrightarrow> (\<exists>w \<in> set (ah_windows c). \<exists>d \<in> set (aw_days w).
    (t div 60000 + offset (t div 60000) + 4 * 1440 - (d * 1440 + to_minutes (aw_start w))) mod 10080
      < window_length (to_minutes (aw_start w)) (to_minutes (aw_end w)))"
proof -
  define m where "m = t div 60000 + offset (t div 60000)"
  have parts: "local_parts intl t (ah_timezone c) = ((m + 4 * 1440) mod 10080 div 1440, m mod 1440)"
    using assms(2) by (simp add: zone_clock_def m_def Let_def)
  have "0 \<le> (m + 4 * 1440) mod 10080 div 1440" "(m + 4 * 1440) mod 10080 div 1440 < 7" "0 \<le> m mod 1440" "m mod 1440 < 1440"
    by (simp_all add: pos_imp_zdiv_nonneg_iff div_less_iff_less_mult)
  note week = is_within_active_hours_week [OF assms(1) parts this]
  have pos: "((m + 4 * 1440) mod 10080 div 1440 * 1440 + m mod 1440 - b) mod 10080 = (m + 4 * 1440 - b) mod 10080" for b
    unfolding week_position by (rule mod_diff_left_eq)
  show ?thesis unfolding week active_in_week_def in_week_window_def pos unfolding m_def ..
qed

text \<open>An occurrence of a window longer than the change is met within a week, and a day when the clock goes back.\<close>

lemma occurrence_met:
  fixes offset :: "int \<Rightarrow> int"
  assumes once: "changes_once offset n T delta" and bounds: "- 1440 \<le> delta" "delta < len" "0 < len" "len \<le> 1440"
  shows "\<exists>k :: nat. int k < 10080 + max 0 (- delta) \<and> (n + int k + offset (n + int k) + 4 * 1440 - a) mod 10080 < len"
proof -
  obtain base where off: "\<And>m. n \<le> m \<Longrightarrow> m \<le> n + 8 * 1440 \<Longrightarrow> offset m = (if m < T then base else base + delta)"
    using once unfolding changes_once_def by blast
  have met: "\<exists>k :: nat. int k < 10080 + max 0 (- delta) \<and> (n + int k + offset (n + int k) + 4 * 1440 - a) mod 10080 < len"
    if "0 \<le> i" "i < 10080 + max 0 (- delta)" "(n + i + (if n + i < T then base else base + delta) + 4 * 1440 - a) mod 10080 < len" for i
    using that off [of "n + i"] bounds by (intro exI [of _ "nat i"]) auto
  have self: "(x + (a - x) mod 10080 - a) mod 10080 = 0" for x :: int
    unfolding minus_mult_div_eq_mod [symmetric] by (simp add: algebra_simps)
  define r where "r = (a - (n + base + 4 * 1440)) mod 10080"
  define r' where "r' = (a - (n + (base + delta) + 4 * 1440)) mod 10080"
  have r: "0 \<le> r" "r < 10080" "0 \<le> r'" "r' < 10080" by (simp_all add: r_def r'_def)
  have hit: "(n + r + base + 4 * 1440 - a) mod 10080 = 0"
    using self [of "n + base + 4 * 1440"] unfolding r_def by (simp add: algebra_simps)
  have hit': "(n + r' + (base + delta) + 4 * 1440 - a) mod 10080 = 0"
    using self [of "n + (base + delta) + 4 * 1440"] unfolding r'_def by (simp add: algebra_simps)
  show ?thesis
  proof (cases "T \<le> n")
    case True
    then have "(if n + r' < T then base else base + delta) = base + delta" using r by simp
    then show ?thesis using met [of r'] r hit' bounds by auto
  next
    case before: False
    show ?thesis
    proof (cases "n + r < T")
      case True
      then show ?thesis using met [of r] r hit bounds by auto
    next
      case late: False
      show ?thesis
      proof (cases "T + delta \<le> n + r")
        case True
        then have k: "\<not> n + (r - delta) < T" "0 \<le> r - delta" using before by auto
        have "(n + (r - delta) + (base + delta) + 4 * 1440 - a) mod 10080 = 0"
          using hit by (simp only: add.assoc [symmetric] diff_add_eq add_diff_cancel_right' add_diff_eq)
        then have "(n + (r - delta) + (if n + (r - delta) < T then base else base + delta) + 4 * 1440 - a) mod 10080 < len"
          using k(1) bounds by (simp only: if_False)
        then show ?thesis using met [of "r - delta"] k(2) r by (simp add: max_def)
      next
        case False
        have "n + (T - n) + (base + delta) + 4 * 1440 - a = (n + r + base + 4 * 1440 - a) + (T + delta - n - r)" by simp
        then have "(n + (T - n) + (base + delta) + 4 * 1440 - a) mod 10080 = (T + delta - n - r) mod 10080"
          by (metis add_0 hit mod_add_left_eq)
        moreover have "(T + delta - n - r) mod 10080 = T + delta - n - r"
          using False late bounds by (intro mod_pos_pos_trivial) auto
        ultimately show ?thesis using met [of "T - n"] late before False r bounds by auto
      qed
    qed
  qed
qed

lemma window_length_bounds:
  assumes "wf_active_window w"
  shows "0 < window_length (to_minutes (aw_start w)) (to_minutes (aw_end w))"
    "window_length (to_minutes (aw_start w)) (to_minutes (aw_end w)) \<le> 1440"
  using assms to_minutes_bounds [of "aw_start w"] to_minutes_bounds [of "aw_end w"]
  by (auto simp: wf_active_window_def window_length_def)

text \<open>Whatever the clock, \<open>nextActiveAt\<close> finds the first active minute of the eight days, and nothing when there is none.\<close>

lemma next_active_at_exact:
  assumes "ah_windows c \<noteq> []"
  shows "(next_active_at intl (Some c) t = Some u \<longleftrightarrow> (\<exists>k \<le> 8 * 1440. u = floor_minute t + 60000 * int k \<and> is_within_active_hours intl (Some c) u
      \<and> (\<forall>j < k. \<not> is_within_active_hours intl (Some c) (floor_minute t + 60000 * int j))))
    \<and> (next_active_at intl (Some c) t = None \<longleftrightarrow> (\<forall>k \<le> 8 * 1440. \<not> is_within_active_hours intl (Some c) (floor_minute t + 60000 * int k)))"
  using assms by (auto simp: next_active_at_def first_minute_Some first_minute_None less_Suc_eq_le)

section \<open>Properties\<close>

text \<open>
  C20: The next active minute exists and is the first one, also across a change of the clock.  Take a
  validated configuration in a zone whose clock changes at most once during the next eight days:
  forward by less than the length of some window, or back by at most a day.  Then \<open>nextActiveAt\<close>
  returns a minute inside a window, no minute before it is active, and it comes within a week of the
  current minute, later only by as much as the clock goes back.
\<close>

theorem next_active_at_first:
  assumes parsed: "parse_active_hours tz_known input = Inr (Some c)"
    and clock: "zone_clock intl (ah_timezone c) offset" "changes_once offset (t div 60000) T delta" "- 1440 \<le> delta"
    and long: "\<exists>w \<in> set (ah_windows c). delta < window_length (to_minutes (aw_start w)) (to_minutes (aw_end w))"
  shows "\<exists>k :: nat. int k < 7 * 1440 + max 0 (- delta) \<and> next_active_at intl (Some c) t = Some (floor_minute t + 60000 * int k)
    \<and> is_within_active_hours intl (Some c) (floor_minute t + 60000 * int k)
    \<and> (\<forall>j < k. \<not> is_within_active_hours intl (Some c) (floor_minute t + 60000 * int j))"
proof -
  let ?within = "is_within_active_hours intl (Some c)"
  have wf: "wf_active_hours tz_known c" by (rule parse_active_hours_wf [OF parsed])
  obtain w where w: "w \<in> set (ah_windows c)" "delta < window_length (to_minutes (aw_start w)) (to_minutes (aw_end w))"
    using long by blast
  then have ok: "wf_active_window w" using wf by (simp add: wf_active_hours_def)
  then obtain d where d: "d \<in> set (aw_days w)" by (cases "aw_days w") (auto simp: wf_active_window_def)
  obtain k where k: "int k < 10080 + max 0 (- delta)"
    "(t div 60000 + int k + offset (t div 60000 + int k) + 4 * 1440 - (d * 1440 + to_minutes (aw_start w))) mod 10080
      < window_length (to_minutes (aw_start w)) (to_minutes (aw_end w))"
    using occurrence_met [OF clock(2,3) w(2) window_length_bounds [OF ok]] by blast
  have "(floor_minute t + 60000 * int k) div 60000 = t div 60000 + int k" by (simp add: floor_minute_def)
  then have active: "?within (floor_minute t + 60000 * int k)"
    unfolding zone_clock_active [OF wf clock(1)] using k(2) d w(1) by (simp only:) blast
  define j where "j = (LEAST k. ?within (floor_minute t + 60000 * int k))"
  have j: "?within (floor_minute t + 60000 * int j)" "j \<le> k" "\<And>i. i < j \<Longrightarrow> \<not> ?within (floor_minute t + 60000 * int i)"
    unfolding j_def using active by (auto intro: LeastI Least_le dest: not_less_Least)
  have "ah_windows c \<noteq> []" using wf by (simp add: wf_active_hours_def)
  moreover have "j \<le> 8 * 1440" using j(2) k(1) clock(3) by auto
  ultimately have "next_active_at intl (Some c) t = Some (floor_minute t + 60000 * int j)"
    using next_active_at_exact [of c intl t "floor_minute t + 60000 * int j"] j by blast
  then show ?thesis using j k(1) by (intro exI [of _ j]) auto
qed

text \<open>
  A window that is not longer than the change can fall into the gap of a spring night: asked just after
  the window before, \<open>nextActiveAt\<close> looks eight days ahead and answers that the link never becomes
  active, although it does so the week after.
\<close>

lemma next_active_at_misses_gap:
  assumes wf: "wf_active_hours tz_known c" "ah_windows c = [w]" "aw_days w = [d]" and clock: "zone_clock intl (ah_timezone c) offset"
    and len: "len = window_length (to_minutes (aw_start w)) (to_minutes (aw_end w))" "len \<le> delta" "delta \<le> 1440"
    and n: "n = t div 60000" "T = n + 7 * 1440 - len"
    and change: "\<And>m. n \<le> m \<Longrightarrow> m \<le> n + 8 * 1440 \<Longrightarrow> offset m = (if m < T then base else base + delta)"
    and gap: "(T + base + 4 * 1440 - (d * 1440 + to_minutes (aw_start w))) mod 10080 = 0"
  shows "next_active_at intl (Some c) t = None"
proof -
  define a where "a = d * 1440 + to_minutes (aw_start w)"
  have "0 < len" using wf window_length_bounds(1) by (simp add: len(1) wf_active_hours_def)
  have none: "\<not> is_within_active_hours intl (Some c) (floor_minute t + 60000 * int k)" if "k \<le> 8 * 1440" for k
  proof -
    have m: "(floor_minute t + 60000 * int k) div 60000 = n + int k" by (simp add: floor_minute_def n(1))
    have shift: "(T + base + 4 * 1440 - a + e) mod 10080 = e mod 10080" for e
      using gap unfolding a_def by (metis add_0 mod_add_left_eq)
    have "len \<le> (n + int k + offset (n + int k) + 4 * 1440 - a) mod 10080"
    proof (cases "n + int k < T")
      case True
      then have "(n + int k + offset (n + int k) + 4 * 1440 - a) mod 10080 = (n + int k - T) mod 10080"
        using shift [of "n + int k - T"] change [of "n + int k"] that by (simp add: algebra_simps)
      also have "\<dots> = (n + int k - T + 10080) mod 10080" by simp
      also have "\<dots> = n + int k - T + 10080" using True n(2) \<open>0 < len\<close> by (intro mod_pos_pos_trivial) auto
      finally show ?thesis using n(2) by simp
    next
      case False
      then have "(n + int k + offset (n + int k) + 4 * 1440 - a) mod 10080 = (n + int k - T + delta) mod 10080"
        using shift [of "n + int k - T + delta"] change [of "n + int k"] that by (simp add: algebra_simps)
      also have "\<dots> = n + int k - T + delta" using False n(2) len that \<open>0 < len\<close> by (intro mod_pos_pos_trivial) auto
      finally show ?thesis using False len(2) by simp
    qed
    then show ?thesis unfolding zone_clock_active [OF wf(1) clock] wf(2) m by (simp add: wf(3) a_def len(1) not_less)
  qed
  have "ah_windows c \<noteq> []" using wf(2) by simp
  from next_active_at_exact [OF this, of intl t] none show ?thesis by blast
qed

text \<open>The clock of UTC, and a shop open on Mondays and overnight on Fridays.\<close>

definition utc_clock :: "string \<Rightarrow> js_date \<Rightarrow> string \<times> nat \<times> nat" where
  "utc_clock tz t = (let m = t div 60000; d = (m + 4 * 1440) mod 10080 div 1440 in
     (fst (WEEKDAYS ! nat d), nat (m mod 1440 div 60), nat (m mod 1440 mod 60)))"

lemma weekday_name: "0 \<le> d \<Longrightarrow> d < 7 \<Longrightarrow> map_of WEEKDAYS (fst (WEEKDAYS ! nat d)) = Some d"
proof -
  assume "0 \<le> d" "d < 7"
  then have "d = 0 \<or> d = 1 \<or> d = 2 \<or> d = 3 \<or> d = 4 \<or> d = 5 \<or> d = 6" by arith
  then show ?thesis by (elim disjE) (simp_all add: WEEKDAYS_def)
qed

lemma local_utc: "local_parts utc_clock t tz = ((t div 60000 + 4 * 1440) mod 10080 div 1440, t div 60000 mod 1440)"
proof -
  let ?m = "t div 60000" and ?d = "(t div 60000 + 4 * 1440) mod 10080 div 1440"
  have "map_of WEEKDAYS (fst (WEEKDAYS ! nat ?d)) = Some ?d"
    by (rule weekday_name) (simp_all add: pos_imp_zdiv_nonneg_iff div_less_iff_less_mult)
  moreover have "?m mod 1440 div 60 * 60 + ?m mod 1440 mod 60 = ?m mod 1440" by (rule div_mult_mod_eq)
  ultimately show ?thesis
    by (simp add: local_parts_def utc_clock_def Let_def coalesce_def pos_imp_zdiv_nonneg_iff)
qed

text \<open>A zone one hour ahead of UTC until the minute 20000, and two hours from then on.\<close>

definition spring_clock :: "string \<Rightarrow> js_date \<Rightarrow> string \<times> nat \<times> nat" where
  "spring_clock tz t = utc_clock tz (t + 60000 * (if t div 60000 < 20000 then 60 else 120))"

definition spring_offset :: "int \<Rightarrow> int" where
  "spring_offset m = (if m < 20000 then 60 else 120)"

lemma spring_clock_zone: "zone_clock spring_clock tz spring_offset"
proof -
  have "local_parts spring_clock t tz = local_parts utc_clock (t + 60000 * spring_offset (t div 60000)) tz" for t
    by (simp add: local_parts_def spring_clock_def spring_offset_def)
  then show ?thesis by (simp add: zone_clock_def local_utc Let_def add.commute)
qed

lemma spring_changes: "changes_once spring_offset n 20000 60"
  unfolding changes_once_def spring_offset_def by (intro exI [of _ 60]) auto

definition shop_hours :: active_hours where
  "shop_hours = \<lparr>ah_timezone = ''UTC'',
     ah_windows = [\<lparr>aw_days = [1], aw_start = ''09:00'', aw_end = ''17:30''\<rparr>,
                   \<lparr>aw_days = [5], aw_start = ''22:00'', aw_end = ''02:00''\<rparr>]\<rparr>"

definition shop_json :: json where
  "shop_json = JObj [(''timezone'', JStr ''UTC''), (''windows'', JArr
     [JObj [(''days'', JArr [JInt 1, JInt 1]), (''start'', JStr ''09:00''), (''end'', JStr ''17:30'')],
      JObj [(''days'', JArr [JInt 5]), (''start'', JStr ''22:00''), (''end'', JStr ''02:00'')]])]"

theorem next_active_at_first_witness:
  "parse_active_hours (\<lambda>tz. tz = ''UTC'') (Some shop_json) = Inr (Some shop_hours) \<and>
   (\<exists>k :: nat. int k < 7 * 1440 \<and> next_active_at spring_clock (Some shop_hours) (19000 * 60000) = Some (floor_minute (19000 * 60000) + 60000 * int k))"
proof -
  have p: "parse_active_hours (\<lambda>tz. tz = ''UTC'') (Some shop_json) = Inr (Some shop_hours)"
    by code_simp
  have "\<exists>w \<in> set (ah_windows shop_hours). (60 :: int) < window_length (to_minutes (aw_start w)) (to_minutes (aw_end w))"
    by code_simp
  then show ?thesis
    using p next_active_at_first [OF p spring_clock_zone spring_changes, of "19000 * 60000"] by auto
qed

end
