(* ===== verification/Bytes.thy ===== *)
theory Bytes
  imports Prelude "HOL-Library.Word"
begin

text \<open>
  The byte strings of \<open>Buffer\<close>: UTF-8 of a string, lower-case hexadecimal and unpadded
  base64url, each with its inverse.  Code units are below 256, so UTF-8 takes one or two
  bytes; a byte string that is no such text has no decoding here.
\<close>

type_synonym byte = "8 word"

section \<open>UTF-8\<close>

definition utf8_char :: "char \<Rightarrow> byte list" where
  "utf8_char c = (let n = (of_char c :: nat) in
     if n < 128 then [of_nat n] else [of_nat (192 + n div 64), of_nat (128 + n mod 64)])"

definition utf8 :: "string \<Rightarrow> byte list" where
  "utf8 s = concat (map utf8_char s)"

fun utf8_decode :: "byte list \<Rightarrow> string option" where
  "utf8_decode [] = Some []"
| "utf8_decode (a # bs) =
     (if unat a < 128 then map_option ((#) (char_of (unat a))) (utf8_decode bs)
      else (case bs of
          b # cs \<Rightarrow> (if 194 \<le> unat a \<and> unat a < 196 \<and> 128 \<le> unat b \<and> unat b < 192
            then map_option ((#) (char_of ((unat a - 192) * 64 + (unat b - 128)))) (utf8_decode cs) else None)
        | [] \<Rightarrow> None))"

lemma unat_byte: "n < 256 \<Longrightarrow> unat (of_nat n :: byte) = n"
  by (simp add: unat_of_nat)

lemma utf8_decode_char: "utf8_decode (utf8_char c @ bs) = map_option ((#) c) (utf8_decode bs)"
proof (cases "(of_char c :: nat) < 128")
  case True
  then show ?thesis by (simp add: utf8_char_def unat_byte)
next
  case False
  have b: "(of_char c :: nat) < 256" by (rule of_char_bound)
  then have hi: "2 \<le> of_char c div (64 :: nat)" "of_char c div (64 :: nat) < 4" using False by linarith+
  then have "unat (of_nat (192 + of_char c div 64) :: byte) = 192 + of_char c div 64"
    "unat (of_nat (128 + of_char c mod 64) :: byte) = 128 + of_char c mod 64" by (intro unat_byte; simp)+
  then show ?thesis using False hi by (simp add: utf8_char_def Let_def del: of_nat_add)
qed

lemma utf8_decode_utf8 [simp]: "utf8_decode (utf8 s) = Some s"
  by (induction s) (simp_all add: utf8_def utf8_decode_char)

lemma utf8_inj [simp]: "utf8 s = utf8 t \<longleftrightarrow> s = t"
  by (metis utf8_decode_utf8 option.inject)

lemma unat_byte_bound: "unat (b :: byte) < 256"
proof -
  have "unat b < 2 ^ LENGTH(8)" by (rule unsigned_less)
  then show ?thesis by simp
qed

section \<open>Hexadecimal\<close>

definition hex_digit_char :: "nat \<Rightarrow> char" where
  "hex_digit_char n = (if n < 10 then char_of (n + 48) else char_of (n + 87))"

definition hex_text :: "byte list \<Rightarrow> string" where
  "hex_text bs = concat (map (\<lambda>b. [hex_digit_char (unat b div 16), hex_digit_char (unat b mod 16)]) bs)"

lemma hex_digit_char_inj: "m < 16 \<Longrightarrow> n < 16 \<Longrightarrow> hex_digit_char m = hex_digit_char n \<longleftrightarrow> m = n"
proof -
  assume a: "m < 16" "n < 16"
  have "(of_char (hex_digit_char k) :: nat) = (if k < 10 then k + 48 else k + 87)" if "k < 16" for k
    using that by (simp add: hex_digit_char_def)
  then have "hex_digit_char m = hex_digit_char n \<Longrightarrow> (if m < 10 then m + 48 else m + 87) = (if n < 10 then n + 48 else n + 87)"
    using a by metis
  then show ?thesis by (auto split: if_splits)
qed

lemma length_hex_text: "length (hex_text bs) = 2 * length bs"
  by (induction bs) (simp_all add: hex_text_def)

lemma hex_text_inj [simp]: "hex_text a = hex_text b \<longleftrightarrow> a = b"
proof (induction a arbitrary: b)
  case Nil
  then show ?case by (cases b) (auto simp: hex_text_def)
next
  case (Cons x a)
  show ?case
  proof (cases b)
    case (Cons y c)
    have "unat x div 16 < 16" "unat y div 16 < 16" using unat_byte_bound [of x] unat_byte_bound [of y] by auto
    then have e: "hex_text (x # a) = hex_text (y # c) \<longleftrightarrow>
        unat x div 16 = unat y div 16 \<and> unat x mod 16 = unat y mod 16 \<and> hex_text a = hex_text c"
      by (simp add: hex_text_def hex_digit_char_inj)
    have "unat x div 16 = unat y div 16 \<and> unat x mod 16 = unat y mod 16 \<longleftrightarrow> x = y"
      by (metis div_mult_mod_eq unsigned_word_eqI)
    then show ?thesis using Cons Cons.IH [of c] e by auto
  qed (simp add: hex_text_def)
qed

section \<open>base64url\<close>

text \<open>Groups of six bits, most significant first.\<close>

fun sextets :: "byte list \<Rightarrow> nat list" where
  "sextets [] = []"
| "sextets [a] = [unat a div 4, unat a mod 4 * 16]"
| "sextets [a, b] = [unat a div 4, unat a mod 4 * 16 + unat b div 16, unat b mod 16 * 4]"
| "sextets (a # b # c # bs) =
     [unat a div 4, unat a mod 4 * 16 + unat b div 16, unat b mod 16 * 4 + unat c div 64, unat c mod 64] @ sextets bs"

definition b64_alphabet :: string where
  "b64_alphabet = ''ABCDEFGHIJKLMNOPQRSTUVWXYZabcdefghijklmnopqrstuvwxyz0123456789-_''"

definition base64url :: "byte list \<Rightarrow> string" where
  "base64url bs = map ((!) b64_alphabet) (sextets bs)"

text \<open>Decoding skips characters outside the alphabet and drops a last incomplete group.\<close>

fun of_sextets :: "nat list \<Rightarrow> byte list" where
  "of_sextets (p # q # r # s # ss) =
     [of_nat (p * 4 + q div 16), of_nat (q mod 16 * 16 + r div 4), of_nat (r mod 4 * 64 + s)] @ of_sextets ss"
| "of_sextets [p, q, r] = [of_nat (p * 4 + q div 16), of_nat (q mod 16 * 16 + r div 4)]"
| "of_sextets [p, q] = [of_nat (p * 4 + q div 16)]"
| "of_sextets _ = []"

definition base64url_decode :: "string \<Rightarrow> byte list" where
  "base64url_decode s = of_sextets (List.map_filter (index_of b64_alphabet) s)"

lemma sextets_bound: "x \<in> set (sextets bs) \<Longrightarrow> x < 64"
proof (induction bs rule: sextets.induct)
  case (2 a)
  then show ?case using unat_byte_bound [of a] by auto
next
  case (3 a b)
  then show ?case using unat_byte_bound [of a] unat_byte_bound [of b] by auto
next
  case (4 a b c bs)
  then show ?case using unat_byte_bound [of a] unat_byte_bound [of b] unat_byte_bound [of c] by auto
qed simp

lemma regroup:
  "unat a div 4 * 4 + (unat a mod 4 * 16 + unat (b :: byte) div 16) div 16 = unat (a :: byte)"
  "(unat a mod 4 * 16 + unat b div 16) mod 16 * 16 + (unat b mod 16 * 4 + unat (c :: byte) div 64) div 4 = unat b"
  "(unat b mod 16 * 4 + unat c div 64) mod 4 * 64 + unat c mod 64 = unat c"
proof -
  have b: "unat b div 16 < 16" and c: "unat c div 64 < 4" using unat_byte_bound [of b] unat_byte_bound [of c] by auto
  show "unat a div 4 * 4 + (unat a mod 4 * 16 + unat b div 16) div 16 = unat a" using b by simp
  show "(unat a mod 4 * 16 + unat b div 16) mod 16 * 16 + (unat b mod 16 * 4 + unat c div 64) div 4 = unat b"
    using b c by simp
  show "(unat b mod 16 * 4 + unat c div 64) mod 4 * 64 + unat c mod 64 = unat c" using c by simp
qed

lemma regroup_end:
  "unat a div 4 * 4 + unat a mod 4 * 16 div 16 = unat (a :: byte)"
  "(unat a mod 4 * 16 + unat b div 16) mod 16 * 16 + unat (b :: byte) mod 16 * 4 div 4 = unat b"
proof -
  have b: "unat b div 16 < 16" using unat_byte_bound [of b] by auto
  show "unat a div 4 * 4 + unat a mod 4 * 16 div 16 = unat a" by simp
  show "(unat a mod 4 * 16 + unat b div 16) mod 16 * 16 + unat b mod 16 * 4 div 4 = unat b" using b by simp
qed

lemma of_sextets_sextets: "of_sextets (sextets bs) = bs"
  by (induction bs rule: sextets.induct)
     (simp_all only: sextets.simps append.simps of_sextets.simps regroup regroup_end of_nat_unat ucast_id)

lemma b64_alphabet_index: "i < 64 \<Longrightarrow> index_of b64_alphabet (b64_alphabet ! i) = Some i"
  by (rule index_of_nth) (code_simp, simp add: b64_alphabet_def)

lemma base64url_roundtrip [simp]: "base64url_decode (base64url bs) = bs"
proof -
  have "List.map_filter (index_of b64_alphabet) (map ((!) b64_alphabet) xs) = xs" if "\<forall>x \<in> set xs. x < 64" for xs
    using that by (induction xs) (simp_all add: map_filter_simps b64_alphabet_index)
  then show ?thesis using sextets_bound [of _ bs] by (simp add: base64url_def base64url_decode_def of_sextets_sextets)
qed

lemma base64url_chars: "set (base64url bs) \<subseteq> set b64_alphabet"
proof -
  have "x < length b64_alphabet" if "x \<in> set (sextets bs)" for x
    using sextets_bound [OF that] by (simp add: b64_alphabet_def)
  then show ?thesis by (auto simp: base64url_def)
qed

end
