(* ===== verification/VisitorBlock.thy ===== *)
theory VisitorBlock
  imports Http Bytes
begin

unbundle bit_operations_syntax

text \<open>
  The per-link visitor blocklist (\<open>src/lib/visitor-block.ts\<close>): recognising and expanding
  IPv4 and IPv6 addresses to 16 bytes, CIDR ranges with masked host bits, the byte-wise
  range test, validation of the untrusted list and the decision for a visit.  Bytes are
  8-bit words and the masks are the shifts of the source.  The range test is shown equal to
  agreement on the leading bits of the two addresses.
\<close>

section \<open>Address syntax\<close>

fun last_index_of :: "'a list \<Rightarrow> 'a \<Rightarrow> nat option" where
  "last_index_of [] y = None"
| "last_index_of (x # xs) y = (case last_index_of xs y of
       Some i \<Rightarrow> Some (Suc i) | None \<Rightarrow> if x = y then Some 0 else None)"

text \<open>\<open>s.split('::')\<close>: leftmost separators, without overlap.\<close>

fun split_colons :: "string \<Rightarrow> string list" where
  "split_colons [] = [[]]"
| "split_colons [c] = [[c]]"
| "split_colons (c # d # s) =
     (if c = CHR '':'' \<and> d = CHR '':'' then [] # split_colons s
      else (case split_colons (d # s) of [] \<Rightarrow> [[c]] | w # ws \<Rightarrow> (c # w) # ws))"

text \<open>One alternative of \<open>IPV4_RE\<close>: 0 to 255 without leading zeros.\<close>

definition is_octet :: "string \<Rightarrow> bool" where
  "is_octet p = (p \<noteq> [] \<and> length p \<le> 3 \<and> list_all is_digit p \<and>
     (length p = 1 \<or> hd p \<noteq> CHR ''0'') \<and> dec_val p \<le> 255)"

definition is_ipv4 :: "string \<Rightarrow> bool" where
  "is_ipv4 v = (let ps = split_on CHR ''.'' v in length ps = 4 \<and> list_all is_octet ps)"

definition is_ipv6_group :: "string \<Rightarrow> bool" where
  "is_ipv6_group g = (g \<noteq> [] \<and> length g \<le> 4 \<and> list_all is_hex g)"

datatype ip_kind = NotIp | Ipv4 | Ipv6

definition ip_groups :: "string \<Rightarrow> string list" where
  "ip_groups h = (if h = [] then [] else split_on CHR '':'' h)"

text \<open>The trailing dotted part, if any, replaced by two groups; \<open>None\<close> when it is no IPv4.\<close>

definition ipv6_body :: "string \<Rightarrow> string option" where
  "ipv6_body v = (case last_index_of v CHR ''.'' of
       None \<Rightarrow> Some v
     | Some _ \<Rightarrow>
        (let c = (case last_index_of v CHR '':'' of None \<Rightarrow> 0 | Some i \<Rightarrow> Suc i)
         in if is_ipv4 (drop c v) then Some (take c v @ ''0:0'') else None))"

definition is_ip :: "string \<Rightarrow> ip_kind" where
  "is_ip v =
     (if is_ipv4 v then Ipv4
      else if CHR '':'' \<notin> set v \<or> list_ex (\<lambda>c. \<not> (is_hex c \<or> c = CHR '':'' \<or> c = CHR ''.'')) v then NotIp
      else (case ipv6_body v of
          None \<Rightarrow> NotIp
        | Some body \<Rightarrow>
           (let halves = split_colons body in
            if length halves > 2 then NotIp else
            let head = ip_groups (halves ! 0);
                rest = (if length halves = 2 then ip_groups (halves ! 1) else [])
            in if \<not> list_all is_ipv6_group (head @ rest) then NotIp
               else if length halves = 2
                 then (if length head + length rest \<le> 7 then Ipv6 else NotIp)
                 else (if length head = 8 then Ipv6 else NotIp))))"

section \<open>Expansion to bytes\<close>


definition hex_digit :: "char \<Rightarrow> nat" where
  "hex_digit c = (let n = (of_char c :: nat) in
     if n \<le> 57 then n - 48 else if n \<le> 70 then n - 55 else n - 87)"

text \<open>\<open>parseInt(g, 16)\<close> on a group of hex digits.\<close>

definition hex_val :: "string \<Rightarrow> nat" where
  "hex_val g = foldl (\<lambda>a c. a * 16 + hex_digit c) 0 g"

definition strip_brackets :: "string \<Rightarrow> string" where
  "strip_brackets v = (if v \<noteq> [] \<and> hd v = CHR ''['' \<and> last v = CHR '']'' then butlast (tl v) else v)"

definition strip_zone :: "string \<Rightarrow> string" where
  "strip_zone v = (case index_of v CHR ''%'' of None \<Rightarrow> v | Some z \<Rightarrow> take z v)"

definition word_bytes :: "nat \<Rightarrow> byte list" where
  "word_bytes w = [of_nat (w div 256), of_nat (w mod 256)]"

definition ipv4_bytes :: "string \<Rightarrow> byte list" where
  "ipv4_bytes v = replicate 10 0 @ [255, 255] @ map (\<lambda>p. of_nat (dec_val p)) (split_on CHR ''.'' v)"

definition ipv6_tail :: "string \<Rightarrow> nat list" where
  "ipv6_tail v = (case last_index_of v CHR ''.'' of
       None \<Rightarrow> []
     | Some _ \<Rightarrow>
        (let c = (case last_index_of v CHR '':'' of None \<Rightarrow> 0 | Some i \<Rightarrow> Suc i);
             ps = map dec_val (split_on CHR ''.'' (drop c v))
         in [ps ! 0 * 256 + ps ! 1, ps ! 2 * 256 + ps ! 3]))"

definition ipv6_bytes :: "string \<Rightarrow> byte list option" where
  "ipv6_bytes v = (case ipv6_body v of
       None \<Rightarrow> None
     | Some body \<Rightarrow>
        (let halves = split_colons body;
             h = ip_groups (halves ! 0);
             groups = (if length halves < 2 then h
               else let r = ip_groups (halves ! 1)
                    in h @ replicate (8 - length h - length r) ''0'' @ r)
         in if length groups \<noteq> 8 then None
            else
              let words = map hex_val groups;
                  words' = (case ipv6_tail v of [] \<Rightarrow> words | t \<Rightarrow> take 6 words @ t)
              in Some (concat (map word_bytes words'))))"

definition ip_to_bytes :: "string \<Rightarrow> byte list option" where
  "ip_to_bytes ip =
     (let v = strip_zone (strip_brackets (trim ip))
      in case is_ip v of
           NotIp \<Rightarrow> None
         | Ipv4 \<Rightarrow> Some (ipv4_bytes v)
         | Ipv6 \<Rightarrow> ipv6_bytes v)"

section \<open>Ranges\<close>

record parsed_cidr =
  c_bytes :: "byte list"
  c_bits :: nat

text \<open>How many leading bits of byte \<open>i\<close> a prefix of \<open>bits\<close> keeps, and the byte mask.\<close>

definition keep_bits :: "nat \<Rightarrow> nat \<Rightarrow> nat" where
  "keep_bits bits i = nat (max 0 (min 8 (int bits - int i * 8)))"

definition byte_mask :: "nat \<Rightarrow> byte" where
  "byte_mask keep = (if keep = 0 then 0 else push_bit (8 - keep) 255)"

definition mask_bytes :: "nat \<Rightarrow> byte list \<Rightarrow> byte list" where
  "mask_bytes bits bs = map (\<lambda>(i, b). b AND byte_mask (keep_bits bits i)) (zip [0..<length bs] bs)"

text \<open>\<open>replace(/^\\[|\\]$/g, '')\<close>\<close>

definition strip_bracket_chars :: "string \<Rightarrow> string" where
  "strip_bracket_chars s =
     (let a = (if s \<noteq> [] \<and> hd s = CHR ''['' then tl s else s)
      in if a \<noteq> [] \<and> last a = CHR '']'' then butlast a else a)"

definition nat_text :: "byte \<Rightarrow> string" where
  "nat_text b = nat_dec (unat b)"

definition parse_cidr :: "string \<Rightarrow> (string \<times> parsed_cidr) option" where
  "parse_cidr input =
     (let raw = trim input;
          slash = index_of raw CHR ''/'';
          addr = (case slash of None \<Rightarrow> raw | Some i \<Rightarrow> take i raw)
      in case ip_to_bytes addr of
           None \<Rightarrow> None
         | Some bytes \<Rightarrow>
            (let v4 = (is_ip (strip_bracket_chars addr) = Ipv4);
                 mx = (if v4 then 32 else 128 :: nat);
                 p = (case slash of None \<Rightarrow> [] | Some i \<Rightarrow> drop (Suc i) raw);
                 prefix = (if slash = None then mx else dec_val p)
             in if slash \<noteq> None \<and> \<not> (1 \<le> length p \<and> length p \<le> 3 \<and> list_all is_digit p) then None
                else if prefix > mx then None
                else
                  let bits = (if v4 then prefix + 96 else prefix);
                      masked = mask_bytes bits bytes;
                      txt = (if v4 then join_with ''.'' (map nat_text (drop 12 masked))
                             else to_lower (strip_bracket_chars addr));
                      canonical = (if slash = None then txt else txt @ ''/'' @ nat_dec prefix)
                  in Some (canonical, \<lparr>c_bytes = masked, c_bits = bits\<rparr>)))"

text \<open>The loop of \<open>inCidr\<close> over the bytes, from byte \<open>i\<close>.\<close>

fun in_cidr_from :: "nat \<Rightarrow> byte list \<Rightarrow> byte list \<Rightarrow> nat \<Rightarrow> bool" where
  "in_cidr_from i (x # xs) (b # bs) bits =
     (let keep = keep_bits bits i in
      if keep = 0 then True
      else if x AND byte_mask keep \<noteq> b then False
      else in_cidr_from (Suc i) xs bs bits)"
| "in_cidr_from _ _ _ _ = True"

definition in_cidr :: "byte list \<Rightarrow> parsed_cidr \<Rightarrow> bool" where
  "in_cidr ip c = in_cidr_from 0 ip (c_bytes c) (c_bits c)"

section \<open>The blocklist\<close>

record visitor_block =
  vb_cidrs :: "string list"
  vb_referrerHosts :: "string list"

definition MAX_BLOCK_ENTRIES :: nat where "MAX_BLOCK_ENTRIES = 100"

text \<open>\<open>HOST_RE\<close>: dot-separated labels, an optional leading \<open>*.\<close>, a final label of letters.\<close>

definition is_host_label :: "string \<Rightarrow> bool" where
  "is_host_label l = (l \<noteq> [] \<and> length l \<le> 63 \<and> list_all (\<lambda>c. is_lower c \<or> is_digit c \<or> c = CHR ''-'') l
     \<and> hd l \<noteq> CHR ''-'' \<and> last l \<noteq> CHR ''-'')"

definition is_top_label :: "string \<Rightarrow> bool" where
  "is_top_label l = (2 \<le> length l \<and> length l \<le> 63 \<and> list_all is_lower l)"

definition matches_host :: "string \<Rightarrow> bool" where
  "matches_host h =
     (let ls = split_on CHR ''.'' (strip_prefix ''*.'' h)
      in length ls \<ge> 2 \<and> is_top_label (last ls) \<and> list_all is_host_label (butlast ls))"

definition strip_trailing_dot :: "string \<Rightarrow> string" where
  "strip_trailing_dot h = (if h \<noteq> [] \<and> last h = CHR ''.'' then butlast h else h)"

definition normalize_host :: "url_parser \<Rightarrow> string \<Rightarrow> string option" where
  "normalize_host new_URL input =
     (let h = to_lower (trim input);
          h1 = (if prefix ''http://'' h \<or> prefix ''https://'' h then map_option u_hostname (new_URL h) else Some h)
      in case h1 of None \<Rightarrow> None
         | Some g \<Rightarrow> (let h2 = strip_trailing_dot g in if matches_host h2 then Some h2 else None))"

fun collect_cidrs :: "json list \<Rightarrow> string list thrown" where
  "collect_cidrs [] = Inr []"
| "collect_cidrs (v # vs) = (case v of
       JStr s \<Rightarrow> (case parse_cidr s of
           None \<Rightarrow> Inl (''Invalid IP or CIDR: '' @ take 64 s)
         | Some (c, _) \<Rightarrow> (case collect_cidrs vs of Inl e \<Rightarrow> Inl e | Inr cs \<Rightarrow> Inr (c # cs)))
     | _ \<Rightarrow> Inl ''visitorBlock.cidrs must contain strings'')"

fun collect_hosts :: "url_parser \<Rightarrow> json list \<Rightarrow> string list thrown" where
  "collect_hosts new_URL [] = Inr []"
| "collect_hosts new_URL (v # vs) = (case v of
       JStr s \<Rightarrow> (case normalize_host new_URL (if prefix ''*.'' (trim s) then drop 2 (trim s) else s) of
           None \<Rightarrow> Inl (''Invalid referrer host: '' @ take 80 s)
         | Some h \<Rightarrow> (case collect_hosts new_URL vs of Inl e \<Rightarrow> Inl e | Inr hs \<Rightarrow> Inr (h # hs)))
     | _ \<Rightarrow> Inl ''visitorBlock.referrerHosts must contain strings'')"

fun array_or_empty :: "json option \<Rightarrow> json list option" where
  "array_or_empty None = Some []"
| "array_or_empty (Some JNull) = Some []"
| "array_or_empty (Some (JArr xs)) = Some xs"
| "array_or_empty (Some _) = None"

text \<open>\<open>Inr None\<close> clears the list, \<open>Inr (Some b)\<close> stores it.\<close>

definition parse_visitor_block :: "url_parser \<Rightarrow> json option \<Rightarrow> visitor_block option thrown" where
  "parse_visitor_block new_URL input =
     (if nullish input then Inr None
      else (case the input of
        JObj kvs \<Rightarrow>
          (case (array_or_empty (jget (JObj kvs) ''cidrs''), array_or_empty (jget (JObj kvs) ''referrerHosts'')) of
             (Some ips, Some hosts) \<Rightarrow>
               (if length ips > MAX_BLOCK_ENTRIES \<or> length hosts > MAX_BLOCK_ENTRIES
                then Inl ''visitorBlock allows at most 100 entries per list''
                else (case collect_cidrs ips of Inl e \<Rightarrow> Inl e
                  | Inr cs \<Rightarrow> (case collect_hosts new_URL hosts of Inl e \<Rightarrow> Inl e
                    | Inr hs \<Rightarrow>
                       if cs = [] \<and> hs = [] then Inr None
                       else Inr (Some \<lparr>vb_cidrs = sort_strings (uniq cs), vb_referrerHosts = sort_strings (uniq hs)\<rparr>))))
           | _ \<Rightarrow> Inl ''visitorBlock.cidrs and referrerHosts must be arrays'')
      | _ \<Rightarrow> Inl ''visitorBlock must be an object or null''))"

definition compile_block :: "visitor_block \<Rightarrow> parsed_cidr list" where
  "compile_block block = map snd (List.map_filter parse_cidr (vb_cidrs block))"

datatype block_reason = BlockedIp | BlockedReferrer

definition evaluate_visitor_block ::
  "url_parser \<Rightarrow> visitor_block option \<Rightarrow> string option \<Rightarrow> string option \<Rightarrow> block_reason option" where
  "evaluate_visitor_block new_URL block ip referer = (case block of
       None \<Rightarrow> None
     | Some b \<Rightarrow>
        if str_truthy ip \<and> vb_cidrs b \<noteq> [] \<and>
           (case ip_to_bytes (the ip) of None \<Rightarrow> False
            | Some bytes \<Rightarrow> list_ex (in_cidr bytes) (compile_block b))
        then Some BlockedIp
        else if str_truthy referer \<and> vb_referrerHosts b \<noteq> [] \<and>
           (case new_URL (the referer) of None \<Rightarrow> False
            | Some u \<Rightarrow>
               (let host = strip_trailing_dot (to_lower (u_hostname u))
                in host \<noteq> [] \<and> list_ex (\<lambda>r. host = r \<or> suffix (CHR ''.'' # r) host) (vb_referrerHosts b)))
        then Some BlockedReferrer
        else None)"

section \<open>Ranges as bit prefixes\<close>

definition byte_bits :: "byte \<Rightarrow> bool list" where
  "byte_bits b = map (bit b) (rev [0..<8])"

definition addr_bits :: "byte list \<Rightarrow> bool list" where
  "addr_bits bs = concat (map byte_bits bs)"

lemma length_byte_bits [simp]: "length (byte_bits b) = 8"
  by (simp add: byte_bits_def)

lemma byte_bits_nth: "i < 8 \<Longrightarrow> byte_bits b ! i = bit b (7 - i)"
  by (simp add: byte_bits_def rev_nth)

lemma bit_255: "bit (255 :: byte) j \<longleftrightarrow> j < 8"
proof -
  have "(255 :: byte) = - 1" by simp
  then show ?thesis by (simp only: bit_minus_1_iff) simp
qed

lemma bit_byte_mask: "k \<le> 8 \<Longrightarrow> n < 8 \<Longrightarrow> bit (byte_mask k) n \<longleftrightarrow> 8 - k \<le> n"
proof -
  assume k: "k \<le> 8" and n: "n < 8"
  have "bit (push_bit (8 - k) (255 :: byte)) n \<longleftrightarrow> 8 - k \<le> n \<and> n - (8 - k) < 8"
    using n by (simp only: bit_push_bit_iff bit_255) simp
  then show ?thesis using k n by (cases "k = 0") (auto simp: byte_mask_def)
qed

lemma masked_eq_iff:
  assumes "k \<le> 8"
  shows "x AND byte_mask k = y AND byte_mask k \<longleftrightarrow> take k (byte_bits x) = take k (byte_bits y)"
proof -
  have "x AND byte_mask k = y AND byte_mask k \<longleftrightarrow> (\<forall>n < 8. 8 - k \<le> n \<longrightarrow> bit x n = bit y n)"
  proof
    assume eq: "x AND byte_mask k = y AND byte_mask k"
    show "\<forall>n < 8. 8 - k \<le> n \<longrightarrow> bit x n = bit y n"
    proof (intro allI impI)
      fix n :: nat assume "n < 8" "8 - k \<le> n"
      moreover from eq have "bit (x AND byte_mask k) n = bit (y AND byte_mask k) n" by simp
      ultimately show "bit x n = bit y n" using assms by (simp add: bit_and_iff bit_byte_mask)
    qed
  next
    assume "\<forall>n < 8. 8 - k \<le> n \<longrightarrow> bit x n = bit y n"
    then show "x AND byte_mask k = y AND byte_mask k"
      using assms by (intro bit_word_eqI) (auto simp: bit_and_iff bit_byte_mask)
  qed
  also have "\<dots> \<longleftrightarrow> (\<forall>i < k. bit x (7 - i) = bit y (7 - i))"
  proof
    assume h: "\<forall>n < 8. 8 - k \<le> n \<longrightarrow> bit x n = bit y n"
    show "\<forall>i < k. bit x (7 - i) = bit y (7 - i)"
    proof (intro allI impI)
      fix i assume "i < k"
      then show "bit x (7 - i) = bit y (7 - i)" using assms h by auto
    qed
  next
    assume h: "\<forall>i < k. bit x (7 - i) = bit y (7 - i)"
    show "\<forall>n < 8. 8 - k \<le> n \<longrightarrow> bit x n = bit y n"
    proof (intro allI impI)
      fix n :: nat assume "n < 8" "8 - k \<le> n"
      then have "7 - n < k" "7 - (7 - n) = n" using assms by auto
      then show "bit x n = bit y n" using h by metis
    qed
  qed
  also have "\<dots> \<longleftrightarrow> take k (byte_bits x) = take k (byte_bits y)"
    using assms by (auto simp: list_eq_iff_nth_eq byte_bits_nth)
  finally show ?thesis .
qed

lemma keep_bits_eq: "keep_bits bits i = min 8 (bits - 8 * i)"
  by (simp add: keep_bits_def)

lemma take_append_8: "length a = 8 \<Longrightarrow> take m (a @ xs) = take (min 8 m) a @ take (m - 8) xs"
  by (simp add: min_def)

lemma in_cidr_from_prefix:
  assumes "length xs = length ys"
  shows "in_cidr_from i xs (map2 (\<lambda>j b. b AND byte_mask (keep_bits bits j)) [i..<i + length ys] ys) bits \<longleftrightarrow>
    take (bits - 8 * i) (addr_bits xs) = take (bits - 8 * i) (addr_bits ys)"
  using assms
proof (induction xs ys arbitrary: i rule: list_induct2)
  case (Cons x xs y ys)
  let ?m = "bits - 8 * i" and ?k = "keep_bits bits i"
  have k: "?k = min 8 ?m" "?k \<le> 8" by (simp_all add: keep_bits_eq)
  have upt: "[i..<i + length (y # ys)] = i # [Suc i..<Suc i + length ys]"
    using upt_conv_Cons [of i "i + length (y # ys)"] by simp
  have rest: "bits - 8 * Suc i = ?m - 8" by simp
  have "take ?m (addr_bits (z # zs)) = take ?k (byte_bits z) @ take (?m - 8) (addr_bits zs)" for z zs
    using take_append_8 [of "byte_bits z" ?m] k by (simp add: addr_bits_def)
  then have split: "take ?m (addr_bits (x # xs)) = take ?m (addr_bits (y # ys)) \<longleftrightarrow>
      take ?k (byte_bits x) = take ?k (byte_bits y) \<and> take (?m - 8) (addr_bits xs) = take (?m - 8) (addr_bits ys)"
    by simp
  show ?case
  proof (cases "?k = 0")
    case True
    then show ?thesis unfolding upt split using k by simp
  next
    case False
    then show ?thesis
      unfolding split upt using Cons.IH [of "Suc i"] masked_eq_iff [OF k(2), of x y] by (simp add: Let_def add.commute [of 8])
  qed
qed (simp add: addr_bits_def)

lemma in_cidr_prefix:
  assumes "length ip = length bs"
  shows "in_cidr ip \<lparr>c_bytes = mask_bytes bits bs, c_bits = bits\<rparr> \<longleftrightarrow>
    take bits (addr_bits ip) = take bits (addr_bits bs)"
  using in_cidr_from_prefix [of ip bs 0 bits] assms by (simp add: in_cidr_def mask_bytes_def)

lemma length_word_bytes: "length (concat (map word_bytes ws)) = 2 * length ws"
  by (induction ws) (auto simp: word_bytes_def)

lemma ipv6_tail_length: "ipv6_tail v = [] \<or> length (ipv6_tail v) = 2"
  by (auto simp: ipv6_tail_def Let_def split: option.splits)

lemma ipv6_bytes_length:
  assumes "ipv6_bytes v = Some bs"
  shows "length bs = 16"
proof -
  obtain words :: "nat list" where "length words = 8" and
    bs: "bs = concat (map word_bytes (case ipv6_tail v of [] \<Rightarrow> words | t \<Rightarrow> take 6 words @ t))"
    using assms by (force simp: ipv6_bytes_def Let_def split: option.splits if_splits)
  moreover then have "length (case ipv6_tail v of [] \<Rightarrow> words | t \<Rightarrow> take 6 words @ t) = 8"
    using ipv6_tail_length [of v] by (auto split: list.splits)
  ultimately show ?thesis by (simp only: length_word_bytes)
qed

lemma ip_to_bytes_length: "ip_to_bytes ip = Some bs \<Longrightarrow> length bs = 16"
  by (auto simp: ip_to_bytes_def Let_def is_ip_def ipv4_bytes_def is_ipv4_def ipv6_bytes_length
      split: ip_kind.splits if_splits option.splits)

text \<open>The address part of an entry, before the slash.\<close>

definition cidr_address :: "string \<Rightarrow> byte list option" where
  "cidr_address entry = (let raw = trim entry in
     ip_to_bytes (case index_of raw CHR ''/'' of None \<Rightarrow> raw | Some i \<Rightarrow> take i raw))"

lemma parse_cidr_shape:
  assumes "parse_cidr entry = Some (t, c)"
  shows "\<exists>bs. cidr_address entry = Some bs \<and> c = \<lparr>c_bytes = mask_bytes (c_bits c) bs, c_bits = c_bits c\<rparr>
    \<and> length bs = 16 \<and> c_bits c \<le> 128"
proof -
  obtain bs where bs: "cidr_address entry = Some bs"
    using assms by (auto simp: parse_cidr_def cidr_address_def Let_def split: option.splits)
  have "c = \<lparr>c_bytes = mask_bytes (c_bits c) bs, c_bits = c_bits c\<rparr> \<and> c_bits c \<le> 128"
    using assms bs by (auto simp: parse_cidr_def cidr_address_def Let_def split: option.splits if_splits)
  moreover have "length bs = 16"
    using bs ip_to_bytes_length by (auto simp: cidr_address_def Let_def)
  ultimately show ?thesis using bs by blast
qed

section \<open>Properties\<close>

text \<open>
  C19: The IP part of the blocklist is exact.  A visitor whose address expands to 16 bytes
  is blocked by IP exactly when some stored entry parses to a range whose prefix agrees with
  the leading bits of the visitor's address, IPv4 addresses being compared in their
  IPv4-mapped IPv6 form.
\<close>

theorem visitor_block_ip_exact:
  assumes ip: "ip \<noteq> []" and bytes: "ip_to_bytes ip = Some bs"
  shows "evaluate_visitor_block new_URL (Some b) (Some ip) referer = Some BlockedIp \<longleftrightarrow>
    (\<exists>entry \<in> set (vb_cidrs b). \<exists>t c a. parse_cidr entry = Some (t, c) \<and> cidr_address entry = Some a \<and>
       take (c_bits c) (addr_bits bs) = take (c_bits c) (addr_bits a))"
proof -
  have range: "in_cidr bs c \<longleftrightarrow> (\<exists>a. cidr_address entry = Some a \<and>
       take (c_bits c) (addr_bits bs) = take (c_bits c) (addr_bits a))"
    if p: "parse_cidr entry = Some (t, c)" for entry t c
  proof -
    obtain a where a: "cidr_address entry = Some a" "c = \<lparr>c_bytes = mask_bytes (c_bits c) a, c_bits = c_bits c\<rparr>"
      "length a = 16" using parse_cidr_shape [OF p] by blast
    have "length bs = length a" using a ip_to_bytes_length [OF bytes] by simp
    from in_cidr_prefix [OF this, of "c_bits c"] a show ?thesis by simp
  qed
  have "evaluate_visitor_block new_URL (Some b) (Some ip) referer = Some BlockedIp \<longleftrightarrow>
      (\<exists>entry \<in> set (vb_cidrs b). \<exists>t c. parse_cidr entry = Some (t, c) \<and> in_cidr bs c)"
    using ip bytes
    by (auto simp: evaluate_visitor_block_def compile_block_def list_ex_iff map_filter_def str_truthy_iff
        split: if_splits) force+
  then show ?thesis using range by blast
qed

theorem visitor_block_ip_exact_witness:
  "evaluate_visitor_block (\<lambda>_. None) (Some \<lparr>vb_cidrs = [''10.0.0.0/8''], vb_referrerHosts = []\<rparr>)
     (Some ''10.1.2.3'') None = Some BlockedIp"
proof -
  have b: "ip_to_bytes ''10.1.2.3'' = Some [0, 0, 0, 0, 0, 0, 0, 0, 0, 0, 255, 255, 10, 1, 2, 3]"
    by code_simp
  have p: "parse_cidr ''10.0.0.0/8'' =
      Some (''10.0.0.0/8'', \<lparr>c_bytes = [0, 0, 0, 0, 0, 0, 0, 0, 0, 0, 255, 255, 10, 0, 0, 0], c_bits = 104\<rparr>)"
    "cidr_address ''10.0.0.0/8'' = Some [0, 0, 0, 0, 0, 0, 0, 0, 0, 0, 255, 255, 10, 0, 0, 0]"
    by code_simp+
  have e: "take 104 (addr_bits [0, 0, 0, 0, 0, 0, 0, 0, 0, 0, 255, 255, 10, 1, 2, 3]) =
      take 104 (addr_bits [0, 0, 0, 0, 0, 0, 0, 0, 0, 0, 255, 255, 10, 0, 0, 0])"
    by code_simp
  show ?thesis
    using visitor_block_ip_exact [OF _ b, where b = "\<lparr>vb_cidrs = [''10.0.0.0/8''], vb_referrerHosts = []\<rparr>"] p e
    by simp
qed

text \<open>
  A space before the slash turns an IPv4 range into one that covers all of IPv4.
  \<open>parseCidr\<close> trims the entry but decides the family from the untrimmed address part, so
  the entry \<open>10.0.0.0 /8\<close> is accepted with eight bits of the mapped IPv6 form, and every
  visitor with an IPv4 address is blocked.
\<close>

lemma spaced_cidr_blocks_all_ipv4:
  "is_ipv4 v \<longrightarrow> evaluate_visitor_block new_URL (Some \<lparr>vb_cidrs = [''10.0.0.0 /8''], vb_referrerHosts = []\<rparr>)
     (Some v) referer = Some BlockedIp"
proof
  assume v: "is_ipv4 v"
  have split: "length (split_on CHR ''.'' v) = 4" "list_all is_octet (split_on CHR ''.'' v)"
    using v by (auto simp: is_ipv4_def Let_def)
  have chars: "is_digit c \<or> c = CHR ''.''" if "c \<in> set v" for c
  proof -
    have "c \<in> set (join_with ''.'' (split_on CHR ''.'' v))" using that by (simp add: join_split)
    then have "c \<in> (\<Union>w \<in> set (split_on CHR ''.'' v). set w) \<union> {CHR ''.''}"
      using set_join_with by fastforce
    then show ?thesis using split(2) by (auto simp: list_all_iff is_octet_def)
  qed
  have seps: "\<not> is_digit CHR ''[''" "\<not> is_digit CHR ''%''" "\<not> is_ws CHR ''.''"
    by (simp_all add: is_digit_def is_ws_def)
  have t: "trim v = v" using chars digit_not_ws seps by (intro trim_no_ws) auto
  have ne: "v \<noteq> []" using split by auto
  have "hd v \<noteq> CHR ''[''" using chars [of "hd v"] ne seps by auto
  then have s: "strip_zone (strip_brackets v) = v"
  proof -
    have "CHR ''%'' \<notin> set v" using chars seps by auto
    then have "index_of v CHR ''%'' = None" by simp
    then show ?thesis using \<open>hd v \<noteq> CHR ''[''\<close>
      by (simp add: strip_zone_def strip_brackets_def del: index_of_None)
  qed
  have b: "ip_to_bytes v = Some (ipv4_bytes v)" using v by (simp add: ip_to_bytes_def t s is_ip_def)
  have p: "parse_cidr ''10.0.0.0 /8'' = Some (''10.0.0.0 /8'', \<lparr>c_bytes = replicate 16 0, c_bits = 8\<rparr>)"
    by code_simp
  have "in_cidr (ipv4_bytes v) \<lparr>c_bytes = replicate 16 0, c_bits = 8\<rparr>"
    by (simp add: in_cidr_def ipv4_bytes_def keep_bits_eq numeral_eq_Suc)
  then show "evaluate_visitor_block new_URL (Some \<lparr>vb_cidrs = [''10.0.0.0 /8''], vb_referrerHosts = []\<rparr>)
     (Some v) referer = Some BlockedIp"
    using ne b p by (auto simp: evaluate_visitor_block_def compile_block_def map_filter_def str_truthy_iff)
qed

end
