(* ===== verification/LinkGates.thy ===== *)
theory LinkGates
  imports JsValue
begin

text \<open>
  The per-link gates a visit passes before it is redirected: the geographic fence
  (\<open>src/lib/geo-fence.ts\<close>), the launch window (\<open>src/lib/link-schedule.ts\<close>), the lifetime
  that starts at the first click (\<open>src/lib/link-lifetime.ts\<close>), the daily click budget
  (\<open>src/lib/daily-click-cap.ts\<close>) and the status code sent (\<open>src/lib/redirect-status.ts\<close>).
  The two SQL updates are single atomic statements, modelled as functions on the row.
\<close>

section \<open>Geographic fence\<close>

datatype fence_mode = Allow | Deny

record geo_fence =
  gf_mode :: fence_mode
  gf_countries :: "string list"
  gf_allowUnknown :: "bool option"

text \<open>\<open>COUNTRY_RE\<close>\<close>

definition is_country_code :: "string \<Rightarrow> bool" where
  "is_country_code s = (length s = 2 \<and> list_all is_upper s)"

fun parse_mode :: "json option \<Rightarrow> fence_mode option" where
  "parse_mode (Some (JStr s)) = (if s = ''allow'' then Some Allow else if s = ''deny'' then Some Deny else None)"
| "parse_mode _ = None"

fun collect_countries :: "json list \<Rightarrow> string list thrown" where
  "collect_countries [] = Inr []"
| "collect_countries (v # vs) = (case v of
       JStr c \<Rightarrow>
         (let code = to_upper (trim c) in
          if \<not> is_country_code code then Inl (''Invalid country code: '' @ take 8 c)
          else (case collect_countries vs of Inl e \<Rightarrow> Inl e | Inr cs \<Rightarrow> Inr (code # cs)))
     | _ \<Rightarrow> Inl ''geoFence.countries must contain strings'')"

definition parse_allow_unknown :: "json option \<Rightarrow> bool option thrown" where
  "parse_allow_unknown v = (case v of
       None \<Rightarrow> Inr None | Some (JBool b) \<Rightarrow> Inr (Some b) | _ \<Rightarrow> Inl ''geoFence.allowUnknown must be a boolean'')"

text \<open>\<open>Inr None\<close> clears the fence.\<close>

definition parse_geo_fence :: "json option \<Rightarrow> geo_fence option thrown" where
  "parse_geo_fence input =
     (if nullish input then Inr None
      else (case the input of
        JObj fs \<Rightarrow>
         (case parse_mode (map_of fs ''mode'') of
            None \<Rightarrow> Inl ''geoFence.mode must be \"allow\" or \"deny\"''
          | Some m \<Rightarrow>
            (case map_of fs ''countries'' of
               Some (JArr cs) \<Rightarrow>
                 if length cs > 250 then Inl ''geoFence.countries has too many entries''
                 else (case collect_countries cs of
                     Inl e \<Rightarrow> Inl e
                   | Inr codes \<Rightarrow>
                       if codes = [] then
                         (if m = Allow then Inl ''An allow-list needs at least one country'' else Inr None)
                       else (case parse_allow_unknown (map_of fs ''allowUnknown'') of
                           Inl e \<Rightarrow> Inl e
                         | Inr u \<Rightarrow> Inr (Some \<lparr>gf_mode = m, gf_countries = sort_strings (uniq codes),
                                               gf_allowUnknown = u\<rparr>)))
             | _ \<Rightarrow> Inl ''geoFence.countries must be an array''))
      | _ \<Rightarrow> Inl ''geoFence must be an object or null''))"

definition is_country_allowed :: "geo_fence option \<Rightarrow> string option \<Rightarrow> bool" where
  "is_country_allowed fence country = (case fence of
       None \<Rightarrow> True
     | Some f \<Rightarrow>
        if gf_countries f = [] then True
        else
          let code = (case country of None \<Rightarrow> [] | Some c \<Rightarrow> to_upper (trim c)) in
          if code = [] \<or> \<not> is_country_code code \<or> code = ''XX'' \<or> code = ''T1''
          then coalesce (gf_allowUnknown f) (gf_mode f = Deny)
          else if gf_mode f = Allow then code \<in> set (gf_countries f) else code \<notin> set (gf_countries f))"

section \<open>Launch window\<close>

datatype link_window = Scheduled | Live | Expired

definition parse_starts_at :: "(string \<Rightarrow> js_date option) \<Rightarrow> json option \<Rightarrow> js_date option thrown" where
  "parse_starts_at date_parse input =
     (if blank input then Inr None
      else (case date_parse (js_string (the input)) of
          None \<Rightarrow> Inl ''Invalid start date'' | Some d \<Rightarrow> Inr (Some d)))"

definition assert_valid_window :: "js_date option \<Rightarrow> js_date option \<Rightarrow> unit thrown" where
  "assert_valid_window startsAt expiresAt = (case (startsAt, expiresAt) of
       (Some s, Some e) \<Rightarrow> if s \<ge> e then Inl ''Start date must be before the expiration date'' else Inr ()
     | _ \<Rightarrow> Inr ())"

definition link_window_state :: "js_date option \<Rightarrow> js_date option \<Rightarrow> js_date \<Rightarrow> link_window" where
  "link_window_state startsAt expiresAt now =
     (if (case startsAt of None \<Rightarrow> False | Some s \<Rightarrow> now < s) then Scheduled
      else if (case expiresAt of None \<Rightarrow> False | Some e \<Rightarrow> now > e) then Expired
      else Live)"

definition not_started_target :: "(string \<Rightarrow> string \<Rightarrow> string) \<Rightarrow> string option \<Rightarrow> string \<Rightarrow> string" where
  "not_started_target resolve_url notStartedUrl baseUrl =
     (if str_truthy notStartedUrl then the notStartedUrl else resolve_url ''/coming-soon'' baseUrl)"

section \<open>Lifetime\<close>

definition MAX_LIFETIME_MINUTES :: int where "MAX_LIFETIME_MINUTES = 525600"

definition parse_lifetime_minutes :: "json option \<Rightarrow> int option thrown" where
  "parse_lifetime_minutes input =
     (if blank input then Inr None
      else (case to_integer (the input) of
          Some v \<Rightarrow> if v < 1 \<or> v > MAX_LIFETIME_MINUTES
                    then Inl ''lifetimeMinutes must be an integer from 1 to 525600'' else Inr (Some v)
        | None \<Rightarrow> Inl ''lifetimeMinutes must be an integer from 1 to 525600''))"

definition is_lifetime_elapsed :: "js_date \<Rightarrow> int \<Rightarrow> js_date \<Rightarrow> bool" where
  "is_lifetime_elapsed firstClickAt lifetimeMinutes now = (now > firstClickAt + lifetimeMinutes * 60000)"

text \<open>The columns of a row of \<open>urls\<close> that the atomic updates touch.\<close>

record url_row =
  ur_firstClickAt :: "js_date option"
  ur_dailyClicksDate :: "string option"
  ur_dailyClicksReserved :: int

type_synonym url_table = "string \<Rightarrow> url_row option"

definition start_lifetime_clock :: "url_table \<Rightarrow> string \<Rightarrow> js_date \<Rightarrow> url_table \<times> js_date option" where
  "start_lifetime_clock db urlId now = (case db urlId of
       None \<Rightarrow> (db, None)
     | Some r \<Rightarrow> (let t = coalesce (ur_firstClickAt r) now
                  in (db(urlId \<mapsto> r\<lparr>ur_firstClickAt := Some t\<rparr>), Some t)))"

section \<open>Daily click budget\<close>

definition MAX_DAILY_CLICK_CAP :: int where "MAX_DAILY_CLICK_CAP = 10000000"

definition parse_daily_click_cap :: "json option \<Rightarrow> int option thrown" where
  "parse_daily_click_cap input =
     (if blank input then Inr None
      else (case to_integer (the input) of
          Some v \<Rightarrow> if v < 1 \<or> v > MAX_DAILY_CLICK_CAP
                    then Inl ''Daily click cap must be an integer from 1 to 10000000'' else Inr (Some v)
        | None \<Rightarrow> Inl ''Daily click cap must be an integer from 1 to 10000000''))"

definition reserve_daily_click :: "url_table \<Rightarrow> string \<Rightarrow> int \<Rightarrow> string \<Rightarrow> url_table \<times> bool" where
  "reserve_daily_click db urlId cap dateKey = (case db urlId of
       None \<Rightarrow> (db, False)
     | Some r \<Rightarrow>
        if ur_dailyClicksDate r \<noteq> Some dateKey \<or> ur_dailyClicksReserved r < cap
        then (db(urlId \<mapsto> r\<lparr>
                ur_dailyClicksReserved := (if ur_dailyClicksDate r = Some dateKey then ur_dailyClicksReserved r + 1 else 1),
                ur_dailyClicksDate := Some dateKey\<rparr>), True)
        else (db, False))"

section \<open>Redirect status\<close>

definition REDIRECT_STATUSES :: "int list" where "REDIRECT_STATUSES = [301, 302, 307, 308]"

definition DEFAULT_REDIRECT_STATUS :: int where "DEFAULT_REDIRECT_STATUS = 307"

definition parse_redirect_status :: "json option \<Rightarrow> int option thrown" where
  "parse_redirect_status input =
     (if blank input then Inr None
      else
        let n = (case the input of
            JStr s \<Rightarrow> if length (trim s) = 3 \<and> list_all is_digit (trim s) then Some (int (dec_val (trim s))) else None
          | JInt i \<Rightarrow> Some i
          | _ \<Rightarrow> None)
        in case n of
            None \<Rightarrow> Inl ''redirectStatus must be one of 301, 302, 307 or 308''
          | Some k \<Rightarrow>
             if k \<notin> set REDIRECT_STATUSES then Inl ''redirectStatus must be one of 301, 302, 307 or 308''
             else Inr (if k = DEFAULT_REDIRECT_STATUS then None else Some k))"

record permanence_facts =
  pf_hasPassword :: bool
  pf_hasExpiry :: bool
  pf_hasStart :: bool
  pf_hasMaxClicks :: bool
  pf_hasRules :: bool
  pf_hasDailyCap :: bool

definition permanence_reasons :: "permanence_facts \<Rightarrow> string list" where
  "permanence_reasons f = map snd (filter fst
     [(pf_hasPassword f, ''a password''), (pf_hasExpiry f, ''an expiry date''), (pf_hasStart f, ''a go-live date''),
      (pf_hasMaxClicks f, ''a click limit''), (pf_hasDailyCap f, ''a daily click cap''), (pf_hasRules f, ''targeting rules'')])"

definition assert_status_compatible :: "int option \<Rightarrow> permanence_facts \<Rightarrow> unit thrown" where
  "assert_status_compatible status f =
     (if status \<noteq> Some 301 \<and> status \<noteq> Some 308 then Inr ()
      else if permanence_reasons f \<noteq> [] then
        Inl (''Permanent redirects ('' @ int_dec (the status) @ '') cannot be used with '' @ join_with '', '' (permanence_reasons f))
      else Inr ())"

definition effective_redirect_status :: "int option \<Rightarrow> bool \<Rightarrow> bool \<Rightarrow> int" where
  "effective_redirect_status stored ruleMatched gated =
     (if ruleMatched \<or> gated then DEFAULT_REDIRECT_STATUS
      else if coalesce stored 0 \<in> set REDIRECT_STATUSES then the stored else DEFAULT_REDIRECT_STATUS)"

section \<open>Lemmas\<close>

lemma collect_countries_set:
  "collect_countries vs = Inr codes \<Longrightarrow>
    set codes = {to_upper (trim c) | c. JStr c \<in> set vs} \<and> list_all is_country_code codes"
proof (induction vs arbitrary: codes)
  case (Cons v vs)
  then obtain c cs where "v = JStr c" "collect_countries vs = Inr cs" "codes = to_upper (trim c) # cs"
    "is_country_code (to_upper (trim c))"
    by (auto simp: Let_def split: json.splits sum.splits if_splits)
  with Cons.IH show ?case by auto
qed simp

lemma parse_geo_fence_fields:
  assumes "parse_geo_fence (Some v) = Inr (Some f)"
  shows "\<exists>cs. jget v ''countries'' = Some (JArr cs) \<and> parse_mode (jget v ''mode'') = Some (gf_mode f)
    \<and> set (gf_countries f) = {to_upper (trim c) | c. JStr c \<in> set cs} \<and> gf_countries f \<noteq> []"
proof -
  obtain cs codes where "jget v ''countries'' = Some (JArr cs)" "parse_mode (jget v ''mode'') = Some (gf_mode f)"
    "collect_countries cs = Inr codes" "codes \<noteq> []" "gf_countries f = sort_strings (uniq codes)"
    using assms
    by (auto simp: parse_geo_fence_def nullish_def split: json.splits option.splits sum.splits if_splits)
  moreover from this have "set (gf_countries f) = set codes" by simp
  moreover from this have "gf_countries f \<noteq> []" using \<open>codes \<noteq> []\<close> by auto
  ultimately show ?thesis using collect_countries_set [of cs codes] by auto
qed

text \<open>Reservations of one link, one after the other, each with its day.\<close>

fun reserve_all :: "url_table \<Rightarrow> string \<Rightarrow> int \<Rightarrow> string list \<Rightarrow> url_table \<times> bool list" where
  "reserve_all db u cap [] = (db, [])"
| "reserve_all db u cap (k # ks) =
     (case reserve_daily_click db u cap k of (db1, ok) \<Rightarrow>
       (case reserve_all db1 u cap ks of (db2, oks) \<Rightarrow> (db2, ok # oks)))"

definition admitted_on :: "string \<Rightarrow> string list \<Rightarrow> bool list \<Rightarrow> nat" where
  "admitted_on d ks oks = length (filter (\<lambda>(k, ok). k = d \<and> ok) (zip ks oks))"

lemma admitted_on_Cons:
  "admitted_on d (k # ks) (ok # oks) = (if k = d \<and> ok then 1 else 0) + admitted_on d ks oks"
  by (simp add: admitted_on_def)

lemma length_reserve_all: "length (snd (reserve_all db u cap ks)) = length ks"
  by (induction db u cap ks rule: reserve_all.induct) (auto split: prod.splits)

text \<open>Within one day the budget left is what is admitted next.\<close>

lemma reserve_same_day:
  assumes "db u = Some r" "ur_dailyClicksDate r = Some d" "ur_dailyClicksReserved r \<le> cap"
  shows "int (admitted_on d (replicate n d) (snd (reserve_all db u cap (replicate n d)))) =
      min (int n) (cap - ur_dailyClicksReserved r)
    \<and> (\<exists>r'. fst (reserve_all db u cap (replicate n d)) u = Some r' \<and> ur_dailyClicksDate r' = Some d)"
  using assms
proof (induction n arbitrary: db r)
  case 0
  then show ?case by (simp add: admitted_on_def)
next
  case (Suc n)
  show ?case
  proof (cases "ur_dailyClicksReserved r < cap")
    case True
    let ?r = "r\<lparr>ur_dailyClicksReserved := ur_dailyClicksReserved r + 1, ur_dailyClicksDate := Some d\<rparr>"
    have "reserve_daily_click db u cap d = (db(u \<mapsto> ?r), True)"
      using Suc.prems True by (simp add: reserve_daily_click_def)
    moreover have "int (admitted_on d (replicate n d) (snd (reserve_all (db(u \<mapsto> ?r)) u cap (replicate n d)))) =
        min (int n) (cap - (ur_dailyClicksReserved r + 1))
      \<and> (\<exists>r'. fst (reserve_all (db(u \<mapsto> ?r)) u cap (replicate n d)) u = Some r' \<and> ur_dailyClicksDate r' = Some d)"
    proof -
      have e: "ur_dailyClicksReserved ?r = ur_dailyClicksReserved r + 1" by simp
      show ?thesis by (rule Suc.IH [where r = ?r, unfolded e]) (use True in simp_all)
    qed
    ultimately show ?thesis using True by (auto simp: admitted_on_Cons split: prod.splits)
  next
    case False
    then have "reserve_daily_click db u cap d = (db, False)"
      using Suc.prems by (simp add: reserve_daily_click_def)
    then show ?thesis using Suc.IH [where db = db and r = r] Suc.prems False
      by (auto simp: admitted_on_Cons split: prod.splits)
  qed
qed

lemma reserve_new_day:
  assumes "db u = Some r" "ur_dailyClicksDate r \<noteq> Some d" "1 \<le> cap"
  shows "int (admitted_on d (replicate n d) (snd (reserve_all db u cap (replicate n d)))) = min (int n) cap"
proof (cases n)
  case 0
  then show ?thesis using assms by (simp add: admitted_on_def)
next
  case (Suc m)
  let ?r = "r\<lparr>ur_dailyClicksReserved := 1, ur_dailyClicksDate := Some d\<rparr>"
  have "reserve_daily_click db u cap d = (db(u \<mapsto> ?r), True)"
    using assms by (simp add: reserve_daily_click_def)
  moreover have "int (admitted_on d (replicate m d) (snd (reserve_all (db(u \<mapsto> ?r)) u cap (replicate m d)))) =
      min (int m) (cap - 1)"
    using reserve_same_day [of "db(u \<mapsto> ?r)" u ?r d cap m] assms by simp
  ultimately show ?thesis using Suc assms by (auto simp: admitted_on_Cons split: prod.splits)
qed

section \<open>Properties\<close>

text \<open>
  The fence decides by the list that was submitted.  A visitor from a known country is
  let through an allow fence exactly when some submitted entry names that country, up to
  white space and case, and through a deny fence exactly when none does.
\<close>

lemma geo_fence_exact:
  assumes parsed: "parse_geo_fence (Some v) = Inr (Some f)"
    and entries: "jget v ''countries'' = Some (JArr cs)"
    and known: "is_country_code (to_upper (trim c))" "to_upper (trim c) \<noteq> ''XX''" "to_upper (trim c) \<noteq> ''T1''"
  shows "is_country_allowed (Some f) (Some c) \<longleftrightarrow>
    (parse_mode (jget v ''mode'') = Some Allow) = (\<exists>e. JStr e \<in> set cs \<and> to_upper (trim e) = to_upper (trim c))"
proof -
  have f: "parse_mode (jget v ''mode'') = Some (gf_mode f)" "gf_countries f \<noteq> []"
    "set (gf_countries f) = {to_upper (trim e) | e. JStr e \<in> set cs}"
    using parse_geo_fence_fields [OF parsed] entries by auto
  have "to_upper (trim c) \<noteq> []" using known(1) unfolding is_country_code_def by (metis list.size(3) zero_neq_numeral)
  then have "is_country_allowed (Some f) (Some c) \<longleftrightarrow>
      (gf_mode f = Allow) = (to_upper (trim c) \<in> set (gf_countries f))"
    using known f(2) by (auto simp: is_country_allowed_def Let_def)
  also have "to_upper (trim c) \<in> set (gf_countries f) \<longleftrightarrow> (\<exists>e. JStr e \<in> set cs \<and> to_upper (trim e) = to_upper (trim c))"
    unfolding f(3) by (auto, metis)
  finally show ?thesis using f(1) by simp
qed

lemma geo_fence_exact_witness:
  "is_country_allowed (Some \<lparr>gf_mode = Deny, gf_countries = [''DE'', ''FR''], gf_allowUnknown = None\<rparr>) (Some ''us'')"
proof -
  let ?v = "JObj [(''mode'', JStr ''deny''), (''countries'', JArr [JStr '' fr'', JStr ''de''])]"
  have "parse_geo_fence (Some ?v) =
      Inr (Some \<lparr>gf_mode = Deny, gf_countries = [''DE'', ''FR''], gf_allowUnknown = None\<rparr>)"
    by code_simp
  moreover have "jget ?v ''countries'' = Some (JArr [JStr '' fr'', JStr ''de''])" by code_simp
  moreover have "is_country_code (to_upper (trim ''us''))" "to_upper (trim ''us'') \<noteq> ''XX''"
    "to_upper (trim ''us'') \<noteq> ''T1''" by code_simp+
  ultimately have "is_country_allowed (Some \<lparr>gf_mode = Deny, gf_countries = [''DE'', ''FR''], gf_allowUnknown = None\<rparr>) (Some ''us'')
      \<longleftrightarrow> (parse_mode (jget ?v ''mode'') = Some Allow) =
        (\<exists>e. JStr e \<in> set [JStr '' fr'', JStr ''de''] \<and> to_upper (trim e) = to_upper (trim ''us''))"
    by (rule geo_fence_exact)
  moreover have "parse_mode (jget ?v ''mode'') = Some Deny" by code_simp
  moreover have "to_upper (trim '' fr'') \<noteq> to_upper (trim ''us'')" "to_upper (trim ''de'') \<noteq> to_upper (trim ''us'')"
    by code_simp+
  ultimately show ?thesis by auto
qed

text \<open>
  The daily budget is exact.  When a link has not been clicked on a day and \<open>n\<close> clicks
  of that day ask for admission, whatever their interleaving, exactly the smaller of \<open>n\<close>
  and the cap are admitted.
\<close>

lemma daily_cap_exact:
  assumes "db u = Some r" "ur_dailyClicksDate r \<noteq> Some d"
    and cap: "parse_daily_click_cap input = Inr (Some cap)"
  shows "int (admitted_on d (replicate n d) (snd (reserve_all db u cap (replicate n d)))) = min (int n) cap"
proof -
  have "1 \<le> cap" using cap by (auto simp: parse_daily_click_cap_def split: option.splits if_splits)
  with assms show ?thesis by (intro reserve_new_day)
qed

lemma daily_cap_exact_witness:
  "int (admitted_on ''2024-05-02'' (replicate 3 ''2024-05-02'') (snd (reserve_all
     [''u'' \<mapsto> \<lparr>ur_firstClickAt = None, ur_dailyClicksDate = Some ''2024-05-01'', ur_dailyClicksReserved = 2\<rparr>]
     ''u'' 2 (replicate 3 ''2024-05-02'')))) = 2"
proof -
  have "parse_daily_click_cap (Some (JInt 2)) = Inr (Some 2)" by code_simp
  from daily_cap_exact [OF _ _ this, where n = 3 and u = "''u''" and d = "''2024-05-02''"
      and db = "[''u'' \<mapsto> \<lparr>ur_firstClickAt = None, ur_dailyClicksDate = Some ''2024-05-01'', ur_dailyClicksReserved = 2\<rparr>]"]
  show ?thesis by simp
qed

text \<open>The order in which a link passes through its windows.\<close>

definition window_rank :: "link_window \<Rightarrow> nat" where
  "window_rank w = (case w of Scheduled \<Rightarrow> 0 | Live \<Rightarrow> 1 | Expired \<Rightarrow> 2)"

text \<open>
  Over time a link goes from scheduled through live to expired and never back, and a
  window that passes \<open>assertValidWindow\<close> has a live instant.
\<close>

lemma link_window_monotone:
  assumes valid: "assert_valid_window startsAt expiresAt = Inr ()" and "t \<le> u"
  shows "window_rank (link_window_state startsAt expiresAt t) \<le> window_rank (link_window_state startsAt expiresAt u)
    \<and> (\<exists>v. link_window_state startsAt expiresAt v = Live)"
proof
  show "window_rank (link_window_state startsAt expiresAt t) \<le> window_rank (link_window_state startsAt expiresAt u)"
    using assms by (auto simp: window_rank_def link_window_state_def assert_valid_window_def split: option.splits if_splits)
  have "link_window_state startsAt expiresAt (case startsAt of Some s \<Rightarrow> s | None \<Rightarrow> (case expiresAt of Some e \<Rightarrow> e | None \<Rightarrow> 0)) = Live"
    using valid by (auto simp: link_window_state_def assert_valid_window_def split: option.splits if_splits)
  then show "\<exists>v. link_window_state startsAt expiresAt v = Live" by blast
qed

lemma link_window_monotone_witness:
  "window_rank (link_window_state (Some 100) (Some 200) 50) \<le> window_rank (link_window_state (Some 100) (Some 200) 250)
    \<and> (\<exists>v. link_window_state (Some 100) (Some 200) v = Live)"
  using link_window_monotone [where startsAt = "Some 100" and expiresAt = "Some 200" and t = 50 and u = 250]
  by (simp add: assert_valid_window_def)

end
