(* ===== verification/JsonText.thy ===== *)
theory JsonText
  imports JsValue
begin

text \<open>
  JSON text: \<open>JSON.stringify\<close> of a decoded value and \<open>JSON.parse\<close>.  Messages, tokens and
  stored records go through both; the round trip at the end is what their decoders rest on.
  A number is exact, object keys keep their order, and a repeated key of a parsed object
  keeps its first place and its last value, as in JavaScript.
\<close>

section \<open>Strings\<close>

text \<open>\<open>JSON.stringify\<close> of a string, for code units below 256.\<close>

definition hex_char :: "nat \<Rightarrow> char" where
  "hex_char n = (if n < 10 then char_of (n + 48) else char_of (n + 87))"

definition json_escape :: "char \<Rightarrow> string" where
  "json_escape c = (let n = (of_char c :: nat) in
     if n = 34 then [CHR 0x5C, CHR ''\"'']
     else if n = 92 then [CHR 0x5C, CHR 0x5C]
     else if n = 8 then [CHR 0x5C, CHR ''b'']
     else if n = 12 then [CHR 0x5C, CHR ''f'']
     else if n = 10 then [CHR 0x5C, CHR ''n'']
     else if n = 13 then [CHR 0x5C, CHR ''r'']
     else if n = 9 then [CHR 0x5C, CHR ''t'']
     else if n < 32 then [CHR 0x5C, CHR ''u'', CHR ''0'', CHR ''0'', hex_char (n div 16), hex_char (n mod 16)]
     else [c])"

definition json_quote :: "string \<Rightarrow> string" where
  "json_quote s = CHR ''\"'' # concat (map json_escape s) @ [CHR ''\"'']"

text \<open>A reader of a JSON (and script) string literal.\<close>

definition hex_value :: "char \<Rightarrow> nat" where
  "hex_value c = (let n = (of_char c :: nat) in if n < 58 then n - 48 else n - 87)"

fun unquote_chars :: "string \<Rightarrow> string option" where
  "unquote_chars [] = None"
| "unquote_chars (c # s) =
     (if c = CHR ''\"'' then (if s = [] then Some [] else None)
      else if c \<noteq> CHR 0x5C then map_option ((#) c) (unquote_chars s)
      else (case s of
          [] \<Rightarrow> None
        | e # t \<Rightarrow>
           if e = CHR ''b'' then map_option ((#) CHR 0x08) (unquote_chars t)
           else if e = CHR ''f'' then map_option ((#) CHR 0x0C) (unquote_chars t)
           else if e = CHR ''n'' then map_option ((#) CHR 0x0A) (unquote_chars t)
           else if e = CHR ''r'' then map_option ((#) CHR 0x0D) (unquote_chars t)
           else if e = CHR ''t'' then map_option ((#) CHR 0x09) (unquote_chars t)
           else if e = CHR ''u'' then
             (if length t \<ge> 4 \<and> prefix ''00'' t
              then map_option ((#) (char_of (hex_value (t ! 2) * 16 + hex_value (t ! 3)))) (unquote_chars (drop 4 t))
              else None)
           else map_option ((#) e) (unquote_chars t)))"

definition read_literal :: "string \<Rightarrow> string option" where
  "read_literal s = (case s of [] \<Rightarrow> None | c # t \<Rightarrow> if c = CHR ''\"'' then unquote_chars t else None)"

lemma hex_char_digits: "n < 16 \<Longrightarrow> hex_value (hex_char n) = n"
  by (auto simp: hex_char_def hex_value_def Let_def)

lemma of_char_eqI: "(of_char c :: nat) = of_char d \<Longrightarrow> c = d"
  by simp

lemma json_escape_special:
  "json_escape CHR ''\"'' = [CHR 0x5C, CHR ''\"'']" "json_escape CHR 0x5C = [CHR 0x5C, CHR 0x5C]"
  "json_escape CHR 0x08 = [CHR 0x5C, CHR ''b'']" "json_escape CHR 0x0C = [CHR 0x5C, CHR ''f'']"
  "json_escape CHR 0x0A = [CHR 0x5C, CHR ''n'']" "json_escape CHR 0x0D = [CHR 0x5C, CHR ''r'']"
  "json_escape CHR 0x09 = [CHR 0x5C, CHR ''t'']"
  by (simp_all add: json_escape_def)

lemma json_escape_cases:
  obtains "c \<in> {CHR ''\"'', CHR 0x5C, CHR 0x08, CHR 0x0C, CHR 0x0A, CHR 0x0D, CHR 0x09}"
  | "(of_char c :: nat) < 32"
    "json_escape c = [CHR 0x5C, CHR ''u'', CHR ''0'', CHR ''0'', hex_char (of_char c div 16), hex_char (of_char c mod 16)]"
  | "c \<noteq> CHR ''\"''" "c \<noteq> CHR 0x5C" "json_escape c = [c]"
proof (cases "c \<in> {CHR ''\"'', CHR 0x5C, CHR 0x08, CHR 0x0C, CHR 0x0A, CHR 0x0D, CHR 0x09}")
  case False
  then have "(of_char c :: nat) \<noteq> 34" "(of_char c :: nat) \<noteq> 92" "(of_char c :: nat) \<noteq> 8" "(of_char c :: nat) \<noteq> 12"
    "(of_char c :: nat) \<noteq> 10" "(of_char c :: nat) \<noteq> 13" "(of_char c :: nat) \<noteq> 9"
    using of_char_eqI [of c "CHR ''\"''"] of_char_eqI [of c "CHR 0x5C"] of_char_eqI [of c "CHR 0x08"] of_char_eqI [of c "CHR 0x0C"]
      of_char_eqI [of c "CHR 0x0A"] of_char_eqI [of c "CHR 0x0D"] of_char_eqI [of c "CHR 0x09"] by auto
  then show ?thesis using that(2,3) False by (cases "(of_char c :: nat) < 32") (auto simp: json_escape_def Let_def)
qed (rule that(1))

lemma unquote_json_escape: "unquote_chars (json_escape c @ s) = map_option ((#) c) (unquote_chars s)"
proof (cases c rule: json_escape_cases)
  case 1
  then show ?thesis by (elim insertE) (simp_all add: json_escape_special)
next
  case 2
  have "of_char c div 16 * 16 + of_char c mod 16 = (of_char c :: nat)" by (rule div_mult_mod_eq)
  then show ?thesis unfolding 2(2) using 2(1) by (simp add: hex_char_digits)
qed simp

section \<open>\<open>JSON.stringify\<close>\<close>

fun json_text :: "json \<Rightarrow> string" where
  "json_text JNull = ''null''"
| "json_text (JBool b) = (if b then ''true'' else ''false'')"
| "json_text (JInt i) = int_dec i"
| "json_text (JFrac r) = frac_dec r"
| "json_text (JStr s) = json_quote s"
| "json_text (JArr xs) = ''['' @ join_with '','' (map json_text xs) @ '']''"
| "json_text (JObj fs) = ''{'' @ join_with '','' (map (\<lambda>(k, v). json_quote k @ '':'' @ json_text v) fs) @ ''}''"

section \<open>\<open>JSON.parse\<close>\<close>

text \<open>The characters of a string literal up to its closing quote, and the rest.\<close>

fun read_chars :: "string \<Rightarrow> (string \<times> string) option" where
  "read_chars [] = None"
| "read_chars (c # s) =
     (if c = CHR ''\"'' then Some ([], s)
      else if (of_char c :: nat) < 32 then None
      else if c \<noteq> CHR 0x5C then map_option (apfst ((#) c)) (read_chars s)
      else (case s of
          [] \<Rightarrow> None
        | e # t \<Rightarrow>
           if e \<in> set [CHR ''\"'', CHR 0x5C, CHR ''/''] then map_option (apfst ((#) e)) (read_chars t)
           else if e = CHR ''b'' then map_option (apfst ((#) CHR 0x08)) (read_chars t)
           else if e = CHR ''f'' then map_option (apfst ((#) CHR 0x0C)) (read_chars t)
           else if e = CHR ''n'' then map_option (apfst ((#) CHR 0x0A)) (read_chars t)
           else if e = CHR ''r'' then map_option (apfst ((#) CHR 0x0D)) (read_chars t)
           else if e = CHR ''t'' then map_option (apfst ((#) CHR 0x09)) (read_chars t)
           else if e = CHR ''u'' then
             (if length t \<ge> 4 \<and> prefix ''00'' t \<and> is_hex (t ! 2) \<and> is_hex (t ! 3)
              then map_option (apfst ((#) (char_of (the (radix_val 16 0 [t ! 2, t ! 3]))))) (read_chars (drop 4 t))
              else None)
           else None))"

text \<open>A number: integer part without leading zero, fraction, exponent.\<close>

definition json_number :: "rat \<Rightarrow> json" where
  "json_number q = (case integer_of q of Some i \<Rightarrow> JInt i | None \<Rightarrow> JFrac q)"

definition read_fraction :: "string \<Rightarrow> (string \<times> string) option" where
  "read_fraction s = (if s \<noteq> [] \<and> hd s = CHR ''.''
     then (if takeWhile is_digit (tl s) = [] then None else Some (takeWhile is_digit (tl s), dropWhile is_digit (tl s)))
     else Some ([], s))"

definition read_exponent :: "string \<Rightarrow> (int \<times> string) option" where
  "read_exponent s = (if s \<noteq> [] \<and> (hd s = CHR ''e'' \<or> hd s = CHR ''E'')
     then (case split_sign (tl s) of (neg, t) \<Rightarrow>
       (if takeWhile is_digit t = [] then None
        else Some ((if neg then - 1 else 1) * int (dec_val (takeWhile is_digit t)), dropWhile is_digit t)))
     else Some (0, s))"

definition read_number :: "string \<Rightarrow> (json \<times> string) option" where
  "read_number s0 =
     (let neg = (s0 \<noteq> [] \<and> hd s0 = CHR ''-''); s = (if neg then tl s0 else s0);
          ds = takeWhile is_digit s; r = dropWhile is_digit s
      in if ds = [] \<or> (length ds > 1 \<and> hd ds = CHR ''0'') then None
         else (case read_fraction r of None \<Rightarrow> None
           | Some (fd, r1) \<Rightarrow> (case read_exponent r1 of None \<Rightarrow> None
             | Some (e, r2) \<Rightarrow>
                (let q = of_nat (dec_val (ds @ fd)) * pow10 (e - int (length fd))
                 in Some (json_number (if neg then - q else q), r2)))))"

definition json_ws :: "char \<Rightarrow> bool" where
  "json_ws c = (c \<in> set [CHR '' '', CHR 0x09, CHR 0x0A, CHR 0x0D])"

definition skip_ws :: "string \<Rightarrow> string" where
  "skip_ws = dropWhile json_ws"

text \<open>The member of a repeated key keeps its place and takes the later value.\<close>

fun obj_put :: "(string \<times> json) list \<Rightarrow> string \<Rightarrow> json \<Rightarrow> (string \<times> json) list" where
  "obj_put [] k v = [(k, v)]"
| "obj_put ((j, w) # fs) k v = (if j = k then (k, v) # fs else (j, w) # obj_put fs k v)"

text \<open>
  The parser.  Each call that stays at the same nesting has consumed a character, so the
  length of the text bounds the depth of calls; \<open>parse_json\<close> starts with that many.
\<close>

fun read_value :: "nat \<Rightarrow> string \<Rightarrow> (json \<times> string) option"
  and read_elements :: "nat \<Rightarrow> json list \<Rightarrow> string \<Rightarrow> (json list \<times> string) option"
  and read_members :: "nat \<Rightarrow> (string \<times> json) list \<Rightarrow> string \<Rightarrow> ((string \<times> json) list \<times> string) option" where
  "read_value 0 s = None"
| "read_value (Suc n) s0 = (case skip_ws s0 of [] \<Rightarrow> None
     | c # s \<Rightarrow>
        if c = CHR ''\"'' then map_option (apfst JStr) (read_chars s)
        else if c = CHR ''['' then
          (if skip_ws s \<noteq> [] \<and> hd (skip_ws s) = CHR '']'' then Some (JArr [], tl (skip_ws s))
           else map_option (apfst JArr) (read_elements n [] s))
        else if c = CHR ''{'' then
          (if skip_ws s \<noteq> [] \<and> hd (skip_ws s) = CHR ''}'' then Some (JObj [], tl (skip_ws s))
           else map_option (apfst JObj) (read_members n [] s))
        else if prefix ''null'' (c # s) then Some (JNull, drop 4 (c # s))
        else if prefix ''true'' (c # s) then Some (JBool True, drop 4 (c # s))
        else if prefix ''false'' (c # s) then Some (JBool False, drop 5 (c # s))
        else read_number (c # s))"
| "read_elements 0 acc s = None"
| "read_elements (Suc n) acc s0 = (case read_value n s0 of None \<Rightarrow> None
     | Some (v, r) \<Rightarrow> (case skip_ws r of [] \<Rightarrow> None
         | c # s \<Rightarrow> if c = CHR '','' then read_elements n (acc @ [v]) s
             else if c = CHR '']'' then Some (acc @ [v], s) else None))"
| "read_members 0 acc s = None"
| "read_members (Suc n) acc s0 = (case skip_ws s0 of [] \<Rightarrow> None
     | c # s \<Rightarrow> if c \<noteq> CHR ''\"'' then None
        else (case read_chars s of None \<Rightarrow> None
          | Some (k, r) \<Rightarrow> (case skip_ws r of [] \<Rightarrow> None
              | d # r1 \<Rightarrow> if d \<noteq> CHR '':'' then None
                 else (case read_value n r1 of None \<Rightarrow> None
                   | Some (v, r2) \<Rightarrow> (case skip_ws r2 of [] \<Rightarrow> None
                       | e # r3 \<Rightarrow> if e = CHR '','' then read_members n (obj_put acc k v) r3
                           else if e = CHR ''}'' then Some (obj_put acc k v, r3) else None)))))"

definition parse_json :: "string \<Rightarrow> json option" where
  "parse_json s = (case read_value (Suc (length s)) s of None \<Rightarrow> None
     | Some (v, r) \<Rightarrow> if skip_ws r = [] then Some v else None)"

section \<open>What is written reads back\<close>

fun json_plain :: "json \<Rightarrow> bool" where
  "json_plain (JFrac _) = False"
| "json_plain (JArr xs) = list_all json_plain xs"
| "json_plain (JObj fs) = (distinct (map fst fs) \<and> list_all (\<lambda>(k, v). json_plain v) fs)"
| "json_plain _ = True"

text \<open>The fuel a value needs.\<close>

fun need :: "json \<Rightarrow> nat" where
  "need (JArr xs) = Suc (foldr (\<lambda>x m. Suc (max (need x) m)) xs 0)"
| "need (JObj fs) = Suc (foldr (\<lambda>(k, v) m. Suc (max (need v) m)) fs 0)"
| "need _ = 1"

definition value_end :: "string \<Rightarrow> bool" where
  "value_end r \<longleftrightarrow> r = [] \<or> hd r \<in> set '',]}''"

lemma read_chars_escape: "read_chars (json_escape c @ s) = map_option (apfst ((#) c)) (read_chars s)"
proof (cases c rule: json_escape_cases)
  case 1
  then show ?thesis by (elim insertE) (simp_all add: json_escape_special)
next
  case 2
  have split: "of_char c div 16 * 16 + of_char c mod 16 = (of_char c :: nat)" by (rule div_mult_mod_eq)
  have hex: "is_hex (hex_char m) \<and> radix_digit 16 (hex_char m) = Some m" if "m < 16" for m
    using that by (auto simp: hex_char_def is_hex_def radix_digit_def is_digit_def is_lower_def Let_def)
  show ?thesis unfolding 2(2) using 2(1) hex [of "of_char c div 16"] hex [of "of_char c mod 16"]
    by (simp add: split)
next
  case 3
  show ?thesis
  proof (cases "(of_char c :: nat) < 32")
    case True
    then show ?thesis using 3 by (auto simp: json_escape_def Let_def split: if_splits)
  qed (use 3 in simp)
qed

lemma read_chars_quote: "read_chars (concat (map json_escape s) @ CHR ''\"'' # r) = Some (s, r)"
  by (induction s) (simp_all add: read_chars_escape)

lemma skip_ws_id: "s = [] \<or> \<not> json_ws (hd s) \<Longrightarrow> skip_ws s = s"
  by (cases s) (auto simp: skip_ws_def)

lemma json_ws_of_char: "json_ws c \<Longrightarrow> (of_char c :: nat) \<in> {9, 10, 13, 32}"
  by (auto simp: json_ws_def)

lemma nat_dec_no_zero: "1 < length (nat_dec n) \<Longrightarrow> hd (nat_dec n) \<noteq> CHR ''0''"
proof (induction n rule: nat_dec.induct)
  case (1 n)
  show ?case
  proof (cases "n < 100")
    case True
    have "char_of (m + 48) \<noteq> CHR ''0''" if "0 < m" "m < 10" for m :: nat
    proof
      assume "char_of (m + 48) = CHR ''0''"
      then have "(of_char (char_of (m + 48) :: char) :: nat) = 48" by simp
      then show False using that by simp
    qed
    moreover have "\<not> n < 10" using 1(2) by (auto simp: nat_dec_1)
    ultimately show ?thesis using True by (simp add: nat_dec_2)
  next
    case False
    then have e: "nat_dec n = nat_dec (n div 10) @ [char_of (n mod 10 + 48)]" by (simp add: nat_dec_more)
    have "nat_dec (n div 10) = nat_dec (n div 10 div 10) @ [char_of (n div 10 mod 10 + 48)]"
      using False by (simp add: nat_dec_more)
    then have "1 < length (nat_dec (n div 10))" by simp
    then show ?thesis using 1 False by (simp add: e)
  qed
qed

lemma value_end_plain:
  assumes "value_end r"
  shows "takeWhile is_digit r = []" "dropWhile is_digit r = r" "read_fraction r = Some ([], r)" "read_exponent r = Some (0, r)"
  using assms by (cases r; auto simp: value_end_def is_digit_def read_fraction_def read_exponent_def)+

lemma read_number_int:
  assumes "value_end r"
  shows "read_number (int_dec i @ r) = Some (JInt i, r)"
proof -
  have ds: "takeWhile is_digit (nat_dec n @ r) = nat_dec n" "dropWhile is_digit (nat_dec n @ r) = r" for n
    using nat_dec_digits [of n] value_end_plain(1,2) [OF assms] by (simp_all add: takeWhile_append dropWhile_append)
  have z: "\<not> (Suc 0 < length (nat_dec n) \<and> hd (nat_dec n) = CHR ''0'')" for n
    using nat_dec_no_zero [of n] by auto
  have minus: "hd (nat_dec n @ r) \<noteq> CHR ''-''" for n
    using nat_dec_digits [of n] by (cases "nat_dec n") (auto simp: is_digit_def)
  have n: "json_number (of_nat n) = JInt (int n)" "json_number (- of_nat n) = JInt (- int n)" "json_number (of_int i) = JInt i" for n
    using integer_of_int [of "int n"] integer_of_int [of "- int n"] by (simp_all add: json_number_def)
  show ?thesis
    using z minus by (simp add: read_number_def int_dec_def ds value_end_plain [OF assms] pow10_def n Let_def)
qed

lemma int_dec_first: "int_dec i \<noteq> [] \<and> (hd (int_dec i) = CHR ''-'' \<or> is_digit (hd (int_dec i)))"
  using nat_dec_digits [of "nat i"] by (cases "nat_dec (nat i)") (auto simp: int_dec_def)

lemma read_value_number:
  assumes "s \<noteq> []" "hd s = CHR ''-'' \<or> is_digit (hd s)"
  shows "read_value (Suc n) s = read_number s"
proof (cases s)
  case (Cons c t)
  have plain: "c \<notin> set ''\"[{ntf'' \<and> \<not> json_ws c" using assms Cons by (auto simp: json_ws_def is_digit_def Let_def)
  then have "skip_ws s = c # t" using Cons by (simp add: skip_ws_id)
  then show ?thesis using plain Cons by (simp del: read_value.simps(1)) auto
qed (use assms in simp)

lemma read_elements_text:
  assumes "\<forall>x \<in> set xs. \<forall>n r. need x \<le> n \<longrightarrow> value_end r \<longrightarrow> read_value n (json_text x @ r) = Some (x, r)"
    and "xs \<noteq> []" and "foldr (\<lambda>x m. Suc (max (need x) m)) xs 0 \<le> n"
  shows "read_elements n acc (join_with '','' (map json_text xs) @ CHR '']'' # r) = Some (acc @ xs, r)"
  using assms
proof (induction xs arbitrary: n acc)
  case (Cons x xs)
  then obtain m where n: "n = Suc m" by (cases n) auto
  show ?case
  proof (cases xs)
    case Nil
    then show ?thesis using Cons.prems by (simp add: n value_end_def skip_ws_id json_ws_def)
  next
    case (Cons y ys)
    have "read_value m (json_text x @ CHR '','' # s) = Some (x, CHR '','' # s)" for s
      using Cons.prems by (simp add: n value_end_def)
    moreover have "read_elements m (acc @ [x]) (join_with '','' (map json_text xs) @ CHR '']'' # r) = Some ((acc @ [x]) @ xs, r)"
      using Cons.prems Cons by (intro Cons.IH) (simp_all add: n)
    ultimately show ?thesis using Cons by (simp add: n skip_ws_id json_ws_def)
  qed
qed simp

lemma obj_put_new: "k \<notin> fst ` set fs \<Longrightarrow> obj_put fs k v = fs @ [(k, v)]"
  by (induction fs) auto

lemma read_members_text:
  assumes "\<forall>(k, x) \<in> set fs. \<forall>n r. need x \<le> n \<longrightarrow> value_end r \<longrightarrow> read_value n (json_text x @ r) = Some (x, r)"
    and "fs \<noteq> []" and "foldr (\<lambda>(k, v) m. Suc (max (need v) m)) fs 0 \<le> n" and "distinct (map fst (acc @ fs))"
  shows "read_members n acc (join_with '','' (map (\<lambda>(k, v). json_quote k @ '':'' @ json_text v) fs) @ CHR ''}'' # r) = Some (acc @ fs, r)"
  using assms
proof (induction fs arbitrary: n acc)
  case (Cons p fs)
  obtain k x where p: "p = (k, x)" by force
  from Cons obtain m where n: "n = Suc m" by (cases n) (auto simp: p)
  have put: "obj_put acc k x = acc @ [(k, x)]" using Cons.prems by (intro obj_put_new) (auto simp: p)
  have val: "read_value m (json_text x @ t) = Some (x, t)" if "value_end t" for t
    using Cons.prems that by (simp add: n p)
  have key: "read_chars (concat (map json_escape k) @ CHR ''\"'' # s) = Some (k, s)" for s
    by (rule read_chars_quote)
  show ?case
  proof (cases fs)
    case Nil
    then show ?thesis by (simp add: n p json_quote_def key val value_end_def skip_ws_id json_ws_def put)
  next
    case (Cons q fs')
    have "read_members m (acc @ [(k, x)]) (join_with '','' (map (\<lambda>(k, v). json_quote k @ '':'' @ json_text v) fs) @ CHR ''}'' # r)
        = Some ((acc @ [(k, x)]) @ fs, r)"
      using Cons.prems Cons by (intro Cons.IH) (simp_all add: n p)
    then show ?thesis using Cons
      by (simp add: n p json_quote_def key val value_end_def skip_ws_id json_ws_def put)
  qed
qed simp

lemma json_text_first:
  "json_plain v \<Longrightarrow> json_text v \<noteq> [] \<and> \<not> json_ws (hd (json_text v)) \<and> hd (json_text v) \<noteq> CHR '']''"
proof (cases v)
  case (JInt i)
  then show ?thesis using int_dec_first [of i] by (auto simp: json_ws_def is_digit_def)
qed (auto simp: json_ws_def json_quote_def)

lemma join_first: "xs \<noteq> [] \<Longrightarrow> hd xs \<noteq> [] \<Longrightarrow> join_with sep xs \<noteq> [] \<and> hd (join_with sep xs) = hd (hd xs)"
  by (cases "(sep, xs)" rule: join_with.cases) auto

lemma read_value_text:
  "json_plain v \<Longrightarrow> need v \<le> n \<Longrightarrow> value_end r \<Longrightarrow> read_value n (json_text v @ r) = Some (v, r)"
proof (induction v arbitrary: n r)
  case JNull
  then show ?case by (cases n) (simp_all add: skip_ws_id json_ws_def)
next
  case (JBool b)
  then show ?case by (cases n; cases b) (simp_all add: skip_ws_id json_ws_def)
next
  case (JInt i)
  then obtain m where "n = Suc m" by (cases n) auto
  then show ?case
    using int_dec_first [of i] JInt read_number_int [of r i] by (simp add: read_value_number del: read_value.simps)
next
  case (JFrac q)
  then show ?case by simp
next
  case (JStr s)
  then obtain m where "n = Suc m" by (cases n) auto
  then show ?case by (simp add: json_quote_def skip_ws_id json_ws_def read_chars_quote)
next
  case (JArr xs)
  then obtain m where n: "n = Suc m" by (cases n) auto
  show ?case
  proof (cases "xs = []")
    case True
    then show ?thesis by (simp add: n skip_ws_id json_ws_def)
  next
    case False
    let ?body = "join_with '','' (map json_text xs)"
    have "json_plain (hd xs)" using JArr.prems False by (cases xs) auto
    then have first: "?body \<noteq> []" "\<not> json_ws (hd ?body)" "hd ?body \<noteq> CHR '']''"
      using json_text_first [of "hd xs"] join_first [of "map json_text xs" "'',''"] False by (auto simp: hd_map)
    have "read_elements m [] (?body @ CHR '']'' # r) = Some ([] @ xs, r)"
      using JArr False by (intro read_elements_text) (auto simp: n list_all_iff)
    then show ?thesis using first by (simp add: n skip_ws_id json_ws_def)
  qed
next
  case (JObj fs)
  then obtain m where n: "n = Suc m" by (cases n) auto
  show ?case
  proof (cases "fs = []")
    case True
    then show ?thesis by (simp add: n skip_ws_id json_ws_def)
  next
    case False
    let ?body = "join_with '','' (map (\<lambda>(k, v). json_quote k @ '':'' @ json_text v) fs)"
    have "?body \<noteq> [] \<and> hd ?body = CHR ''\"''"
      using join_first [of "map (\<lambda>(k, v). json_quote k @ '':'' @ json_text v) fs" "'',''"] False
      by (cases fs) (auto simp: json_quote_def)
    moreover have "read_members m [] (?body @ CHR ''}'' # r) = Some ([] @ fs, r)"
      using JObj False by (intro read_members_text) (fastforce simp: n list_all_iff)+
    ultimately show ?thesis by (simp add: n skip_ws_id json_ws_def)
  qed
qed

lemma need_le_text: "json_plain v \<Longrightarrow> need v \<le> length (json_text v)"
proof (induction v)
  case (JInt i)
  then show ?case using int_dec_first [of i] by (cases "int_dec i") auto
next
  case (JArr xs)
  have "foldr (\<lambda>x m. Suc (max (need x) m)) xs 0 \<le> Suc (length (join_with '','' (map json_text xs)))"
    using JArr
  proof (induction xs)
    case (Cons x xs)
    then show ?case by (cases xs) force+
  qed simp
  then show ?case by simp
next
  case (JObj fs)
  have "foldr (\<lambda>(k, v) m. Suc (max (need v) m)) fs 0 \<le> Suc (length (join_with '','' (map (\<lambda>(k, v). json_quote k @ '':'' @ json_text v) fs)))"
    using JObj
  proof (induction fs)
    case (Cons p fs)
    obtain k x where p: "p = (k, x)" by force
    have x: "need x \<le> length (json_text x)" using Cons.prems(1) [of p x] Cons.prems(2) by (simp add: p)
    have "foldr (\<lambda>(k, v) m. Suc (max (need v) m)) fs 0 \<le> Suc (length (join_with '','' (map (\<lambda>(k, v). json_quote k @ '':'' @ json_text v) fs)))"
      using Cons.prems by (intro Cons.IH) auto
    then show ?case using x by (cases fs) (auto simp: p json_quote_def)
  qed simp
  then show ?case by simp
qed (simp_all add: json_quote_def)

lemma parse_json_text: "json_plain v \<Longrightarrow> parse_json (json_text v) = Some v"
  using read_value_text [of v "Suc (length (json_text v))" "[]"] need_le_text [of v]
  by (simp add: parse_json_def value_end_def skip_ws_def)

end
