(* ===== verification/JsDate.thy ===== *)
theory JsDate
  imports Prelude
begin

text \<open>
  The UTC calendar of \<open>Date.prototype.toISOString\<close>: the proleptic Gregorian date of a
  number of milliseconds since the epoch, and the day and month keys the sources cut from it
  with \<open>slice(0, 10)\<close> and \<open>slice(0, 7)\<close>.
\<close>

definition utc_day :: "js_date \<Rightarrow> int" where
  "utc_day t = t div 86400000"

text \<open>Year, month and day of a day number, by the 400-year cycle that starts on 1 March.\<close>

definition year_of_era :: "int \<Rightarrow> int" where
  "year_of_era doe = (doe - doe div 1460 + doe div 36524 - doe div 146096) div 365"

definition month_day :: "int \<Rightarrow> int \<Rightarrow> int \<Rightarrow> int \<times> int \<times> int" where
  "month_day y doy mp = (if mp < 10 then (y, mp + 3, doy - (153 * mp + 2) div 5 + 1)
     else (y + 1, mp - 9, doy - (153 * mp + 2) div 5 + 1))"

definition year_day :: "int \<Rightarrow> int \<Rightarrow> int \<times> int \<times> int" where
  "year_day y doy = month_day y doy ((5 * doy + 2) div 153)"

definition civil_of_era :: "int \<Rightarrow> int \<Rightarrow> int \<Rightarrow> int \<times> int \<times> int" where
  "civil_of_era era doe yoe = year_day (yoe + era * 400) (doe - (365 * yoe + yoe div 4 - yoe div 100))"

definition civil_from_days :: "int \<Rightarrow> int \<times> int \<times> int" where
  "civil_from_days z = civil_of_era ((z + 719468) div 146097) ((z + 719468) mod 146097)
     (year_of_era ((z + 719468) mod 146097))"

lemmas civil_defs = civil_from_days_def civil_of_era_def year_of_era_def year_day_def month_day_def

definition pad_zeros :: "nat \<Rightarrow> nat \<Rightarrow> string" where
  "pad_zeros w n = replicate (w - length (nat_dec n)) CHR ''0'' @ nat_dec n"

text \<open>Years outside 0 to 9999 have a sign and six digits.\<close>

definition iso_year :: "int \<Rightarrow> string" where
  "iso_year y = (if 0 \<le> y \<and> y \<le> 9999 then pad_zeros 4 (nat y)
     else (if y < 0 then ''-'' else ''+'') @ pad_zeros 6 (nat \<bar>y\<bar>))"

definition iso_date_text :: "js_date \<Rightarrow> string" where
  "iso_date_text t = (case civil_from_days (utc_day t) of (y, m, d) \<Rightarrow>
     iso_year y @ ''-'' @ pad_zeros 2 (nat m) @ ''-'' @ pad_zeros 2 (nat d))"

text \<open>\<open>toISOString\<close>\<close>

definition iso_text :: "js_date \<Rightarrow> string" where
  "iso_text t = (let ms = t mod 86400000 in
     iso_date_text t @ ''T'' @ pad_zeros 2 (nat (ms div 3600000)) @ '':'' @ pad_zeros 2 (nat (ms div 60000 mod 60)) @ '':'' @
     pad_zeros 2 (nat (ms div 1000 mod 60)) @ ''.'' @ pad_zeros 3 (nat (ms mod 1000)) @ ''Z'')"

text \<open>\<open>date.toISOString().slice(0, 10)\<close> and \<open>slice(0, 7)\<close>\<close>

definition iso_day_key :: "js_date \<Rightarrow> string" where
  "iso_day_key t = take 10 (iso_date_text t)"

definition iso_month_key :: "js_date \<Rightarrow> string" where
  "iso_month_key t = take 7 (iso_date_text t)"

text \<open>Evaluation of dates in proofs: the numerals are reduced argument by argument.\<close>

lemmas iso_eval = iso_day_key_def iso_month_key_def iso_date_text_def utc_day_def civil_defs iso_year_def pad_zeros_def
  nat_dec_eval

lemma iso_day_key_examples:
  "iso_day_key 0 = ''1970-01-01''" "iso_day_key 951782400000 = ''2000-02-29''"
  "iso_day_key 1714608000000 = ''2024-05-02''" "iso_day_key (- 1) = ''1969-12-31''"
  by (simp_all add: iso_eval)

end
