(* ===== verification/DestinationPolicy.thy ===== *)
theory DestinationPolicy
  imports Http JsonText JsDate
begin

text \<open>
  Where a visit is sent: timed destination swaps (\<open>src/lib/destination-schedule.ts\<close>), the
  precedence of destinations, the merging of query parameters and the escaping of a
  destination in HTML and script text (\<open>src/lib/redirect.ts\<close>), the forwarding policy of
  query parameters (\<open>src/lib/query-forwarding.ts\<close>) and the click id parameter
  (\<open>src/lib/click-id-param.ts\<close>).  The URL parser and the parser of date texts are parameters.
\<close>

section \<open>Timed destinations\<close>

record destination_step =
  ds_at :: string
  ds_url :: string

definition MAX_DESTINATION_STEPS :: nat where "MAX_DESTINATION_STEPS = 20"

text \<open>
  \<open>steps.sort((a, b) => a.at.localeCompare(b.at))\<close>, a stable sort; the texts compared are ISO
  instants, on which the order is the order of code units.
\<close>

fun insert_step :: "destination_step \<Rightarrow> destination_step list \<Rightarrow> destination_step list" where
  "insert_step x [] = [x]"
| "insert_step x (y # ys) = (if str_le (ds_at x) (ds_at y) then x # y # ys else y # insert_step x ys)"

definition sort_steps :: "destination_step list \<Rightarrow> destination_step list" where
  "sort_steps xs = foldr insert_step xs []"

text \<open>The loop over the raw steps, with the instants seen so far.\<close>

fun collect_steps :: "(string \<Rightarrow> js_date option) \<Rightarrow> (string \<Rightarrow> string thrown) \<Rightarrow> js_date list \<Rightarrow> json list
    \<Rightarrow> destination_step list thrown" where
  "collect_steps date_parse norm_url seen [] = Inr []"
| "collect_steps date_parse norm_url seen (raw # rest) =
     (case (jstr (jget raw ''at''), jstr (jget raw ''url'')) of
        (Some a, Some u) \<Rightarrow>
          if trim u = [] then Inl ''Each scheduled destination needs at and url''
          else (case date_parse a of
              None \<Rightarrow> Inl (''Invalid schedule time: '' @ a)
            | Some time \<Rightarrow>
                if time \<in> set seen then Inl ''Two scheduled destinations share the same time''
                else (case norm_url u of
                    Inl e \<Rightarrow> Inl e
                  | Inr v \<Rightarrow> (case collect_steps date_parse norm_url (time # seen) rest of
                      Inl e \<Rightarrow> Inl e
                    | Inr out \<Rightarrow> Inr (\<lparr>ds_at = iso_text time, ds_url = v\<rparr> # out))))
      | _ \<Rightarrow> Inl ''Each scheduled destination needs at and url'')"

definition parse_destination_schedule ::
  "(string \<Rightarrow> js_date option) \<Rightarrow> (string \<Rightarrow> string thrown) \<Rightarrow> json option \<Rightarrow> destination_step list option thrown" where
  "parse_destination_schedule date_parse norm_url input =
     (if nullish input then Inr None
      else (case the input of
          JArr xs \<Rightarrow>
            if xs = [] then Inr None
            else if length xs > MAX_DESTINATION_STEPS then Inl ''At most 20 scheduled destinations are allowed''
            else (case collect_steps date_parse norm_url [] xs of
                Inl e \<Rightarrow> Inl e | Inr steps \<Rightarrow> Inr (Some (sort_steps steps)))
        | _ \<Rightarrow> Inl ''destinationSchedule must be an array''))"

text \<open>A stored step that can be read: both fields are strings and the time parses.\<close>

definition read_step :: "(string \<Rightarrow> js_date option) \<Rightarrow> json \<Rightarrow> destination_step option" where
  "read_step date_parse v = (case (jstr (jget v ''at''), jstr (jget v ''url'')) of
       (Some a, Some u) \<Rightarrow> if date_parse a = None then None else Some \<lparr>ds_at = a, ds_url = u\<rparr>
     | _ \<Rightarrow> None)"

definition step_time :: "(string \<Rightarrow> js_date option) \<Rightarrow> destination_step \<Rightarrow> js_date" where
  "step_time date_parse s = the (date_parse (ds_at s))"

definition read_destination_schedule :: "(string \<Rightarrow> js_date option) \<Rightarrow> json option \<Rightarrow> destination_step list" where
  "read_destination_schedule date_parse value = (case value of
       Some (JArr xs) \<Rightarrow> sort_key (step_time date_parse) (List.map_filter (read_step date_parse) xs)
     | _ \<Rightarrow> [])"

text \<open>The loop of \<open>activeScheduledDestination\<close>.\<close>

fun last_active :: "(string \<Rightarrow> js_date option) \<Rightarrow> js_date \<Rightarrow> string option \<Rightarrow> destination_step list \<Rightarrow> string option" where
  "last_active date_parse t active [] = active"
| "last_active date_parse t active (s # ss) =
     (if step_time date_parse s \<le> t then last_active date_parse t (Some (ds_url s)) ss else active)"

definition active_scheduled_destination :: "(string \<Rightarrow> js_date option) \<Rightarrow> json option \<Rightarrow> js_date \<Rightarrow> string option" where
  "active_scheduled_destination date_parse value now =
     last_active date_parse now None (read_destination_schedule date_parse value)"

definition next_scheduled_swap :: "(string \<Rightarrow> js_date option) \<Rightarrow> json option \<Rightarrow> js_date \<Rightarrow> destination_step option" where
  "next_scheduled_swap date_parse value now =
     find (\<lambda>s. step_time date_parse s > now) (read_destination_schedule date_parse value)"

section \<open>Query forwarding\<close>

datatype forward_mode = ForwardAll | ForwardNone | ForwardAllowlist

record forward_policy =
  fp_mode :: forward_mode
  fp_allow :: "string list"

definition MAX_ALLOWLIST :: nat where "MAX_ALLOWLIST = 25"

definition is_param_char :: "char \<Rightarrow> bool" where
  "is_param_char c = (is_alnum c \<or> c \<in> set ''_.-[]'')"

definition is_param_name :: "string \<Rightarrow> bool" where
  "is_param_name s = (1 \<le> length s \<and> length s \<le> 64 \<and> list_all is_param_char s)"

fun collect_names :: "json list \<Rightarrow> string list thrown" where
  "collect_names [] = Inr []"
| "collect_names (v # vs) = (case v of
       JStr raw \<Rightarrow>
         if \<not> is_param_name (trim raw) then Inl (''Invalid parameter name: '' @ take 40 raw)
         else (case collect_names vs of Inl e \<Rightarrow> Inl e | Inr ns \<Rightarrow> Inr (to_lower (trim raw) # ns))
     | _ \<Rightarrow> Inl (''Invalid parameter name: '' @ take 40 (js_string v)))"

definition parse_mode_name :: "json option \<Rightarrow> forward_mode option" where
  "parse_mode_name mode =
     (if blank mode then Some ForwardAll
      else (case the mode of
          JStr m \<Rightarrow> if m = ''all'' then Some ForwardAll else if m = ''none'' then Some ForwardNone
                    else if m = ''allowlist'' then Some ForwardAllowlist else None
        | _ \<Rightarrow> None))"

definition parse_query_forwarding :: "json option \<Rightarrow> json option \<Rightarrow> forward_policy thrown" where
  "parse_query_forwarding mode allow = (case parse_mode_name mode of
       None \<Rightarrow> Inl ''queryForwardMode must be one of all, none or allowlist''
     | Some m \<Rightarrow>
        if m \<noteq> ForwardAllowlist then Inr \<lparr>fp_mode = m, fp_allow = []\<rparr>
        else (case allow of
            Some (JArr xs) \<Rightarrow>
              if xs = [] then Inl ''queryForwardAllow needs at least one parameter name''
              else if length xs > MAX_ALLOWLIST then Inl ''queryForwardAllow accepts at most 25 names''
              else (case collect_names xs of Inl e \<Rightarrow> Inl e
                | Inr ns \<Rightarrow> Inr \<lparr>fp_mode = ForwardAllowlist, fp_allow = uniq ns\<rparr>)
          | _ \<Rightarrow> Inl ''queryForwardAllow needs at least one parameter name''))"

definition NEVER_FORWARD :: "string list" where
  "NEVER_FORWARD = [''password'', ''passwd'', ''access_token'', ''id_token'', ''refresh_token'', ''api_key'', ''apikey'', ''secret'']"

definition is_never_forwarded :: "string \<Rightarrow> bool" where
  "is_never_forwarded name = (let n = to_lower name in prefix ''ql_'' n \<or> n \<in> set NEVER_FORWARD)"

definition filter_forwarded_params :: "(string \<times> string) list \<Rightarrow> forward_policy \<Rightarrow> (string \<times> string) list" where
  "filter_forwarded_params incoming policy =
     (if fp_mode policy = ForwardNone then []
      else filter (\<lambda>(k, v). \<not> is_never_forwarded k \<and>
          \<not> (fp_mode policy = ForwardAllowlist \<and> to_lower k \<notin> set (map to_lower (fp_allow policy)))) incoming)"

section \<open>Redirect policy\<close>

definition MAX_FORWARDED_PARAMS :: nat where "MAX_FORWARDED_PARAMS = 50"

text \<open>The loop of \<open>forwardQueryParams\<close>, with the number of parameters forwarded so far.\<close>

fun forward_loop :: "nat \<Rightarrow> (string \<times> string) list \<Rightarrow> (string \<times> string) list \<Rightarrow> (string \<times> string) list" where
  "forward_loop n ps [] = ps"
| "forward_loop n ps ((k, v) # rest) =
     (if n \<ge> MAX_FORWARDED_PARAMS then ps
      else if \<not> params_has ps k then forward_loop (Suc n) (params_set ps k v) rest
      else forward_loop n ps rest)"

definition forward_query_params ::
  "url_parser \<Rightarrow> (web_url \<Rightarrow> string) \<Rightarrow> string \<Rightarrow> (string \<times> string) list \<Rightarrow> string thrown" where
  "forward_query_params new_URL href destination incoming = (case new_URL destination of
       None \<Rightarrow> Inl ''Invalid URL''
     | Some u \<Rightarrow> Inr (href (u\<lparr>u_params := forward_loop 0 (u_params u) incoming\<rparr>)))"

text \<open>The chain of \<open>||\<close> in \<open>resolveDestination\<close>.\<close>

definition resolve_destination ::
  "string option \<Rightarrow> string option \<Rightarrow> string option \<Rightarrow> string option \<Rightarrow> string \<Rightarrow> string" where
  "resolve_destination ruleUrl campaignUrl scheduledUrl revisionUrl fallbackUrl =
     or_default (or_str ruleUrl (or_str campaignUrl (or_str scheduledUrl revisionUrl))) fallbackUrl"

definition replace_char :: "char \<Rightarrow> string \<Rightarrow> string \<Rightarrow> string" where
  "replace_char c r s = concat (map (\<lambda>x. if x = c then r else [x]) s)"

definition escape_html :: "string \<Rightarrow> string" where
  "escape_html unsafe =
     replace_char CHR 0x27 ''&#039;'' (replace_char CHR ''\"'' ''&quot;'' (replace_char CHR ''>'' ''&gt;''
       (replace_char CHR ''<'' ''&lt;'' (replace_char CHR ''&'' ''&amp;'' unsafe))))"

definition js_string_literal :: "string \<Rightarrow> string" where
  "js_string_literal value = replace_char CHR ''<'' (CHR 0x5C # ''u003c'') (json_quote value)"

section \<open>Click id parameter\<close>

definition CLICK_ID_PARAM_MAX :: nat where "CLICK_ID_PARAM_MAX = 32"

definition RESERVED_PARAMS :: "string list" where
  "RESERVED_PARAMS = [''ql_attribution'', ''token'', ''access_token'', ''password'', ''code'', ''state'', ''redirect'',
     ''redirect_uri'', ''callback'', ''signature'']"

definition parse_click_id_param :: "json option \<Rightarrow> string option thrown" where
  "parse_click_id_param input =
     (if blank input then Inr None
      else (case the input of
          JStr s \<Rightarrow>
            (let name = trim s in
             if name = [] then Inr None
             else if length name > CLICK_ID_PARAM_MAX then Inl ''clickIdParam must be at most 32 characters''
             else if \<not> (is_alpha (hd name) \<and> list_all (\<lambda>c. is_alnum c \<or> c = CHR ''_'') (tl name))
               then Inl ''clickIdParam must start with a letter and contain only letters, digits and underscores''
             else if to_lower name \<in> set RESERVED_PARAMS then Inl (''clickIdParam \"'' @ name @ ''\" is reserved'')
             else Inr (Some name))
        | _ \<Rightarrow> Inl ''clickIdParam must be a string''))"

definition append_click_id :: "url_parser \<Rightarrow> (web_url \<Rightarrow> string) \<Rightarrow> string \<Rightarrow> string option \<Rightarrow> string \<Rightarrow> string" where
  "append_click_id new_URL href destination param clickId =
     (if \<not> str_truthy param then destination
      else (case new_URL destination of
          None \<Rightarrow> destination
        | Some u \<Rightarrow>
            if u_protocol u \<noteq> ''http:'' \<and> u_protocol u \<noteq> ''https:'' then destination
            else href (u\<lparr>u_params := params_set (u_params u) (the param) clickId\<rparr>)))"

section \<open>The active step\<close>

lemma last_active_sorted:
  assumes "sorted (map (step_time date_parse) ss)"
  shows "last_active date_parse t active ss =
    (case filter (\<lambda>s. step_time date_parse s \<le> t) ss of [] \<Rightarrow> active | xs \<Rightarrow> Some (ds_url (last xs)))"
  using assms
proof (induction ss arbitrary: active)
  case (Cons s ss)
  show ?case
  proof (cases "step_time date_parse s \<le> t")
    case True
    then show ?thesis using Cons by (auto split: list.splits)
  next
    case False
    then have "filter (\<lambda>s. step_time date_parse s \<le> t) ss = []" using Cons.prems by (auto simp: filter_empty_conv)
    then show ?thesis using False by simp
  qed
qed simp

lemma sorted_last_max: "sorted (map f xs) \<Longrightarrow> x \<in> set xs \<Longrightarrow> (f x :: int) \<le> f (last xs)"
  by (induction xs) (auto simp: last_in_set)

lemma set_read_destination_schedule:
  "set (read_destination_schedule date_parse (Some (JArr xs))) = {s. \<exists>x \<in> set xs. read_step date_parse x = Some s}"
  by (force simp: read_destination_schedule_def map_filter_def image_iff)

section \<open>Forwarded parameters\<close>

lemma forward_loop_extends:
  "n \<le> MAX_FORWARDED_PARAMS \<Longrightarrow>
    \<exists>extra. forward_loop n ps incoming = ps @ extra \<and> distinct (map fst extra) \<and> length extra + n \<le> MAX_FORWARDED_PARAMS
      \<and> set extra \<subseteq> set incoming \<and> fst ` set extra \<inter> fst ` set ps = {}"
proof (induction n ps incoming rule: forward_loop.induct)
  case (2 n ps k v rest)
  consider "n \<ge> MAX_FORWARDED_PARAMS" | "\<not> n \<ge> MAX_FORWARDED_PARAMS" "params_has ps k"
    | "\<not> n \<ge> MAX_FORWARDED_PARAMS" "\<not> params_has ps k" by blast
  then show ?case
  proof cases
    case 1
    then show ?thesis using 2(3) by (intro exI [of _ "[]"]) simp
  next
    case c: 2
    then obtain extra where "forward_loop n ps rest = ps @ extra" "distinct (map fst extra)"
      "length extra + n \<le> MAX_FORWARDED_PARAMS" "set extra \<subseteq> set rest" "fst ` set extra \<inter> fst ` set ps = {}"
      using 2(2,3) by auto
    then show ?thesis using c by (intro exI [of _ extra]) auto
  next
    case False: 3
    then have s: "params_set ps k v = ps @ [(k, v)]" by (simp add: params_set_def)
    obtain extra where e: "forward_loop (Suc n) (ps @ [(k, v)]) rest = ps @ (k, v) # extra" "distinct (map fst extra)"
      "length extra + Suc n \<le> MAX_FORWARDED_PARAMS" "set extra \<subseteq> set rest" "fst ` set extra \<inter> fst ` set (ps @ [(k, v)]) = {}"
      using 2(1) False by (auto simp: s)
    then show ?thesis using False s
      by (intro exI [of _ "(k, v) # extra"]) (auto simp: params_has_def)
  qed
qed auto

text \<open>Nothing is lost below the bound: every incoming name is present afterwards.\<close>

lemma forward_loop_complete:
  "forward_loop n ps incoming = ps @ extra \<Longrightarrow> length extra + n < MAX_FORWARDED_PARAMS \<Longrightarrow> k \<in> fst ` set incoming \<Longrightarrow>
    k \<in> fst ` set (ps @ extra)"
proof (induction n ps incoming arbitrary: extra rule: forward_loop.induct)
  case (2 n ps k' v rest)
  show ?case
  proof (cases "params_has ps k'")
    case True
    then show ?thesis using 2 by (auto simp: params_has_def split: if_splits)
  next
    case False
    then have s: "params_set ps k' v = ps @ [(k', v)]" by (simp add: params_set_def)
    have l: "forward_loop (Suc n) (ps @ [(k', v)]) rest = ps @ extra" using 2(3,4) False by (simp add: s)
    obtain e' where e': "forward_loop (Suc n) (ps @ [(k', v)]) rest = (ps @ [(k', v)]) @ e'"
      using forward_loop_extends [of "Suc n" "ps @ [(k', v)]" rest] 2(4) by auto
    then have "extra = (k', v) # e'" using l by simp
    then show ?thesis using 2(1) [of e'] 2(4,5) False e' s by auto
  qed
qed simp

section \<open>Escaping\<close>

definition html_entity :: "char \<Rightarrow> string" where
  "html_entity c = (if c = CHR ''&'' then ''&amp;'' else if c = CHR ''<'' then ''&lt;'' else if c = CHR ''>'' then ''&gt;''
     else if c = CHR ''\"'' then ''&quot;'' else if c = CHR 0x27 then ''&#039;'' else [c])"

lemma replace_char_append: "replace_char c r (a @ b) = replace_char c r a @ replace_char c r b"
  by (simp add: replace_char_def)

lemma replace_char_absent: "c \<notin> set s \<Longrightarrow> replace_char c r s = s"
  by (induction s) (auto simp: replace_char_def)

lemma escape_html_append: "escape_html (a @ b) = escape_html a @ escape_html b"
  by (simp add: escape_html_def replace_char_append)

lemma escape_html_single: "escape_html [c] = html_entity c"
  by (simp add: escape_html_def html_entity_def replace_char_def)

lemma escape_html_concat: "escape_html s = concat (map html_entity s)"
proof (induction s)
  case Nil
  then show ?case by (simp add: escape_html_def replace_char_def)
next
  case (Cons c s)
  then show ?case using escape_html_append [of "[c]" s] by (simp add: escape_html_single)
qed

text \<open>A reader of the five entities.\<close>

fun unescape_html :: "string \<Rightarrow> string" where
  "unescape_html [] = []"
| "unescape_html (c # s) =
     (if c \<noteq> CHR ''&'' then c # unescape_html s
      else if prefix ''amp;'' s then CHR ''&'' # unescape_html (drop 4 s)
      else if prefix ''lt;'' s then CHR ''<'' # unescape_html (drop 3 s)
      else if prefix ''gt;'' s then CHR ''>'' # unescape_html (drop 3 s)
      else if prefix ''quot;'' s then CHR ''\"'' # unescape_html (drop 5 s)
      else if prefix ''#039;'' s then CHR 0x27 # unescape_html (drop 5 s)
      else c # unescape_html s)"

lemma unescape_entity: "unescape_html (html_entity c @ s) = c # unescape_html s"
  by (simp add: html_entity_def)

definition script_escape :: "char \<Rightarrow> string" where
  "script_escape c = (if c = CHR ''<'' then CHR 0x5C # ''u003c'' else json_escape c)"

lemma unescape_escape: "unescape_html (escape_html s) = s"
  unfolding escape_html_concat by (induction s) (simp_all only: concat.simps list.map unescape_entity unescape_html.simps(1))

lemma hex_char_plain: "n < 16 \<Longrightarrow> hex_char n \<noteq> CHR ''<''"
proof -
  assume n: "n < 16"
  have "(of_char (hex_char n) :: nat) \<noteq> of_char CHR ''<''" using n by (auto simp: hex_char_def)
  then show ?thesis by auto
qed

lemma unquote_script_escape: "unquote_chars (script_escape c @ s) = map_option ((#) c) (unquote_chars s)"
proof (cases "c = CHR ''<''")
  case True
  have "char_of (60 :: nat) = CHR ''<''" by code_simp
  then show ?thesis using True by (simp add: script_escape_def hex_value_def)
next
  case False
  then show ?thesis by (simp add: script_escape_def unquote_json_escape)
qed

lemma replace_json_escape: "replace_char CHR ''<'' (CHR 0x5C # ''u003c'') (json_escape c) = script_escape c"
proof (cases "c = CHR ''<''")
  case True
  then show ?thesis by (simp add: script_escape_def json_escape_def replace_char_def)
next
  case False
  have "CHR ''<'' \<notin> set (json_escape c)"
  proof (cases c rule: json_escape_cases)
    case 1
    then show ?thesis by (elim insertE) (simp_all add: json_escape_special)
  next
    case 2
    then have "of_char c div 16 < (16 :: nat)" by simp
    then show ?thesis
      using 2 hex_char_plain [of "of_char c div 16"] hex_char_plain [of "of_char c mod 16"] by auto
  next
    case 3
    then show ?thesis using False by simp
  qed
  then have "replace_char CHR ''<'' r (json_escape c) = json_escape c" for r
    by (rule replace_char_absent)
  then show ?thesis using False by (simp add: script_escape_def)
qed

lemma js_string_literal_concat: "js_string_literal s = CHR ''\"'' # concat (map script_escape s) @ [CHR ''\"'']"
proof -
  have "replace_char CHR ''<'' r (concat xs) = concat (map (replace_char CHR ''<'' r) xs)" for r xs
    by (induction xs) (simp_all add: replace_char_append, simp add: replace_char_def)
  then have "replace_char CHR ''<'' (CHR 0x5C # ''u003c'') (concat (map json_escape s)) = concat (map script_escape s)"
    by (simp add: comp_def replace_json_escape)
  moreover have "replace_char CHR ''<'' r (a # t) = (if a = CHR ''<'' then r else [a]) @ replace_char CHR ''<'' r t" for r a t
    by (simp add: replace_char_def)
  ultimately show ?thesis by (simp add: js_string_literal_def json_quote_def replace_char_append replace_char_def)
qed

lemma read_js_string_literal: "read_literal (js_string_literal s) = Some s"
proof -
  have "unquote_chars (concat (map script_escape s) @ [CHR ''\"'']) = Some s"
    by (induction s) (simp_all add: unquote_script_escape)
  then show ?thesis by (simp add: js_string_literal_concat read_literal_def)
qed

lemma script_escape_plain: "CHR ''<'' \<notin> set (script_escape c)"
  unfolding replace_json_escape [symmetric] by (auto simp: replace_char_def split: if_splits)

section \<open>Properties\<close>

text \<open>
  C24: A timed destination is the latest one due.  The active destination is absent exactly
  when no readable step is due, and otherwise belongs to a due step with no due step after it.
\<close>

theorem active_scheduled_destination_latest:
  "(active_scheduled_destination date_parse (Some (JArr xs)) now = None \<longleftrightarrow>
      \<not> (\<exists>x \<in> set xs. \<exists>s. read_step date_parse x = Some s \<and> step_time date_parse s \<le> now))
    \<and> (\<forall>u. active_scheduled_destination date_parse (Some (JArr xs)) now = Some u \<longrightarrow>
      (\<exists>x \<in> set xs. \<exists>s. read_step date_parse x = Some s \<and> ds_url s = u \<and> step_time date_parse s \<le> now
        \<and> (\<forall>y \<in> set xs. \<forall>r. read_step date_parse y = Some r \<and> step_time date_parse r \<le> now \<longrightarrow>
             step_time date_parse r \<le> step_time date_parse s)))"
proof -
  let ?ss = "read_destination_schedule date_parse (Some (JArr xs))"
  let ?due = "filter (\<lambda>s. step_time date_parse s \<le> now) ?ss"
  have srt: "sorted (map (step_time date_parse) ?ss)" by (simp add: read_destination_schedule_def)
  then have a: "active_scheduled_destination date_parse (Some (JArr xs)) now =
      (case ?due of [] \<Rightarrow> None | ds \<Rightarrow> Some (ds_url (last ds)))"
    by (simp add: active_scheduled_destination_def last_active_sorted)
  have due: "s \<in> set ?due \<longleftrightarrow> (\<exists>x \<in> set xs. read_step date_parse x = Some s) \<and> step_time date_parse s \<le> now" for s
    by (auto simp: set_read_destination_schedule)
  show ?thesis
  proof (cases ?due)
    case Nil
    then have "\<not> (\<exists>x \<in> set xs. \<exists>s. read_step date_parse x = Some s \<and> step_time date_parse s \<le> now)"
      using due by (metis empty_iff empty_set)
    then show ?thesis using a Nil by simp
  next
    case (Cons d ds)
    let ?s = "last ?due"
    have s: "?s \<in> set ?due" using Cons by (metis last_in_set list.distinct(1))
    have max: "step_time date_parse r \<le> step_time date_parse ?s" if "r \<in> set ?due" for r
      by (rule sorted_last_max [OF sorted_filter [OF srt] that])
    have "active_scheduled_destination date_parse (Some (JArr xs)) now = Some (ds_url ?s)" using a Cons by simp
    moreover obtain x where "x \<in> set xs" "read_step date_parse x = Some ?s" "step_time date_parse ?s \<le> now"
      using s due by blast
    moreover have "\<forall>y \<in> set xs. \<forall>r. read_step date_parse y = Some r \<and> step_time date_parse r \<le> now \<longrightarrow>
        step_time date_parse r \<le> step_time date_parse ?s"
      using max due by blast
    ultimately show ?thesis by auto
  qed
qed

theorem active_scheduled_destination_latest_witness:
  "active_scheduled_destination (\<lambda>s. Some (int (length s)))
     (Some (JArr [JObj [(''at'', JStr ''bbb''), (''url'', JStr ''late'')], JObj [(''at'', JStr ''a''), (''url'', JStr ''early'')]])) 2
   = Some ''early''"
proof -
  let ?xs = "[JObj [(''at'', JStr ''bbb''), (''url'', JStr ''late'')], JObj [(''at'', JStr ''a''), (''url'', JStr ''early'')]]"
  have "active_scheduled_destination (\<lambda>s. Some (int (length s))) (Some (JArr ?xs)) 2 \<noteq> None"
    using active_scheduled_destination_latest [of "\<lambda>s. Some (int (length s))" ?xs 2]
    by (auto simp: read_step_def step_time_def)
  moreover have "u = ''early''" if "active_scheduled_destination (\<lambda>s. Some (int (length s))) (Some (JArr ?xs)) 2 = Some u" for u
    using that active_scheduled_destination_latest [of "\<lambda>s. Some (int (length s))" ?xs 2]
    by (auto simp: read_step_def step_time_def)
  ultimately show ?thesis by blast
qed

text \<open>
  C22: Forwarding keeps the destination's own parameters and adds only permitted ones.  The
  result has the destination's parameters unchanged, followed by at most 50 distinct new
  names, each an incoming parameter that is neither internal nor a credential and that the
  mode lets through; below the bound no permitted name is left out.
\<close>

theorem forward_query_params_policy:
  assumes u: "new_URL destination = Some u"
  shows "\<exists>extra. forward_query_params new_URL href destination (filter_forwarded_params incoming policy)
        = Inr (href (u\<lparr>u_params := u_params u @ extra\<rparr>))
    \<and> length extra \<le> 50 \<and> distinct (map fst extra) \<and> set extra \<subseteq> set incoming
    \<and> fst ` set extra \<inter> fst ` set (u_params u) = {}
    \<and> (\<forall>k \<in> fst ` set extra. \<not> is_never_forwarded k \<and> fp_mode policy \<noteq> ForwardNone
         \<and> (fp_mode policy = ForwardAllowlist \<longrightarrow> to_lower k \<in> to_lower ` set (fp_allow policy)))
    \<and> (length extra < 50 \<longrightarrow> fst ` set (filter_forwarded_params incoming policy) \<subseteq> fst ` set (u_params u @ extra))"
proof -
  let ?in = "filter_forwarded_params incoming policy"
  obtain extra where e: "forward_loop 0 (u_params u) ?in = u_params u @ extra" "distinct (map fst extra)"
    "length extra \<le> MAX_FORWARDED_PARAMS" "set extra \<subseteq> set ?in" "fst ` set extra \<inter> fst ` set (u_params u) = {}"
    using forward_loop_extends [of 0 "u_params u" ?in] by auto
  have allowed: "set ?in \<subseteq> set incoming"
    "\<forall>k \<in> fst ` set ?in. \<not> is_never_forwarded k \<and> fp_mode policy \<noteq> ForwardNone
       \<and> (fp_mode policy = ForwardAllowlist \<longrightarrow> to_lower k \<in> to_lower ` set (fp_allow policy))"
    by (auto simp: filter_forwarded_params_def split: if_splits)
  have complete: "length extra < 50 \<Longrightarrow> fst ` set ?in \<subseteq> fst ` set (u_params u @ extra)"
    using forward_loop_complete [OF e(1)] by (auto simp: MAX_FORWARDED_PARAMS_def)
  show ?thesis
    using e allowed complete u
    by (intro exI [of _ extra] conjI) (auto simp: forward_query_params_def MAX_FORWARDED_PARAMS_def dest!: subsetD)
qed

theorem forward_query_params_policy_witness:
  "forward_query_params (\<lambda>_. Some \<lparr>u_protocol = ''https:'', u_username = [], u_password = [], u_hostname = ''x'',
       u_path = ''/'', u_params = [(''a'', ''1'')], u_hash = []\<rparr>) (\<lambda>u. concat (map (\<lambda>(k, v). k @ v) (u_params u))) ''d''
     (filter_forwarded_params [(''a'', ''9''), (''secret'', ''s''), (''b'', ''2'')] \<lparr>fp_mode = ForwardAll, fp_allow = []\<rparr>)
   = Inr ''a1b2''"
proof -
  let ?u = "\<lparr>u_protocol = ''https:'', u_username = [], u_password = [], u_hostname = ''x'',
       u_path = ''/'', u_params = [(''a'', ''1'')], u_hash = []\<rparr>"
  let ?in = "[(''a'', ''9''), (''secret'', ''s''), (''b'', ''2'')]" and ?p = "\<lparr>fp_mode = ForwardAll, fp_allow = []\<rparr>"
  let ?href = "\<lambda>u :: web_url. concat (map (\<lambda>(k, v). k @ v) (u_params u))"
  obtain extra where e: "forward_query_params (\<lambda>_. Some ?u) ?href ''d'' (filter_forwarded_params ?in ?p)
        = Inr (?href (?u\<lparr>u_params := u_params ?u @ extra\<rparr>))" "distinct (map fst extra)" "set extra \<subseteq> set ?in"
    "fst ` set extra \<inter> fst ` set (u_params ?u) = {}" "\<forall>k \<in> fst ` set extra. \<not> is_never_forwarded k \<and> fp_mode ?p \<noteq> ForwardNone
         \<and> (fp_mode ?p = ForwardAllowlist \<longrightarrow> to_lower k \<in> to_lower ` set (fp_allow ?p))"
    "length extra < 50 \<longrightarrow> fst ` set (filter_forwarded_params ?in ?p) \<subseteq> fst ` set (u_params ?u @ extra)"
    using forward_query_params_policy [of "\<lambda>_. Some ?u" "''d''" ?u ?href ?in ?p, OF refl]
    by (elim exE conjE) (rule that, assumption+)
  have f: "filter_forwarded_params ?in ?p = [(''a'', ''9''), (''b'', ''2'')]" by code_simp
  have sec: "is_never_forwarded ''secret''" by code_simp
  have sub: "x = (''b'', ''2'')" if "x \<in> set extra" for x
  proof -
    have m: "fst x \<in> fst ` set extra" using that by simp
    have "x \<in> set ?in" using that e(3) by blast
    moreover have "''a'' \<notin> fst ` set extra" using e(4) by simp
    then have "fst x \<noteq> ''a''" using m by metis
    moreover have "fst x \<noteq> ''secret''" using m e(5) sec by metis
    ultimately show ?thesis by auto
  qed
  have "extra \<noteq> []" using e(6) unfolding f by auto
  moreover have "tl extra = []"
  proof (cases extra)
    case (Cons x xs)
    show ?thesis
    proof (cases xs)
      case (Cons y ys)
      then show ?thesis using \<open>extra = x # xs\<close> sub [of x] sub [of y] e(2) by simp
    qed (simp add: Cons)
  qed simp
  ultimately have "extra = [(''b'', ''2'')]" using sub by (cases extra) auto
  then show ?thesis using e(1) by simp
qed

text \<open>
  Escaping a destination is lossless and leaves no markup.  The HTML text has none of
  the characters that end a text or an attribute and reads back as the destination; the
  script literal has no \<open><\<close>, so it cannot close its element, and denotes the destination.
\<close>

lemma escaping_lossless:
  "unescape_html (escape_html s) = s \<and> set ''<>\"'' \<inter> set (escape_html s) = {} \<and> CHR 0x27 \<notin> set (escape_html s)
   \<and> read_literal (js_string_literal s) = Some s \<and> CHR ''<'' \<notin> set (js_string_literal s)"
proof -
  have "x \<notin> set (html_entity c)" if "x \<in> {CHR ''<'', CHR ''>'', CHR ''\"'', CHR 0x27}" for c x
    using that by (auto simp: html_entity_def)
  then have "x \<notin> set (escape_html s)" if "x \<in> {CHR ''<'', CHR ''>'', CHR ''\"'', CHR 0x27}" for x
    using that unfolding escape_html_concat set_concat set_map by blast
  moreover have "CHR ''<'' \<notin> set (js_string_literal s)"
    using script_escape_plain by (auto simp: js_string_literal_concat)
  ultimately show ?thesis using unescape_escape read_js_string_literal by auto
qed

text \<open>The precedence of destinations: the first non-empty one in order.\<close>

lemma resolve_destination_first:
  "resolve_destination r c s v d = hd (filter nonempty (map (\<lambda>x. or_default x []) [r, c, s, v]) @ [d])"
  by (cases r rule: str_truthy.cases; cases c rule: str_truthy.cases; cases s rule: str_truthy.cases;
      cases v rule: str_truthy.cases; simp add: resolve_destination_def or_str_def or_default_def nonempty_def)

end
