(* ===== verification/Pixels.thy ===== *)
theory Pixels
  imports JsonText DestinationPolicy Bytes
begin

text \<open>
  Retargeting pixels (\<open>src/lib/retargeting-pixels.ts\<close>): the identifier patterns of the
  providers, normalisation and selection of identifiers, the consent signals of a visit and
  the page that dispatches the tags and navigates on.  The vendor snippets are the texts of
  the source with the identifier as a script literal.
\<close>

section \<open>Providers and identifiers\<close>

datatype pixel_provider =
  PixelMeta | PixelGoogle | PixelX | PixelLinkedin | PixelTiktok | PixelPinterest | PixelReddit | PixelBing | PixelSnapchat

definition PIXEL_PROVIDERS :: "pixel_provider list" where
  "PIXEL_PROVIDERS = [PixelMeta, PixelGoogle, PixelX, PixelLinkedin, PixelTiktok, PixelPinterest, PixelReddit, PixelBing,
     PixelSnapchat]"

definition all_in :: "(char \<Rightarrow> bool) \<Rightarrow> nat \<Rightarrow> nat \<Rightarrow> string \<Rightarrow> bool" where
  "all_in p lo hi s = (lo \<le> length s \<and> length s \<le> hi \<and> list_all p s)"

text \<open>The nine patterns; the case-insensitive ones accept letters of both cases.\<close>

definition google_id :: "string \<Rightarrow> bool" where
  "google_id s = (case split_on CHR ''-'' s of
       tag # rest \<Rightarrow> rest \<noteq> [] \<and> to_upper tag \<in> set [''G'', ''AW'', ''DC'', ''GTM''] \<and>
         (let body = join_with ''-'' rest; a = takeWhile (\<lambda>c. c \<noteq> CHR ''/'') body; r = dropWhile (\<lambda>c. c \<noteq> CHR ''/'') body
          in all_in is_alnum 4 20 a \<and>
             (r = [] \<or> all_in (\<lambda>c. is_alnum c \<or> c = CHR ''_'' \<or> c = CHR ''-'') 1 40 (tl r)))
     | [] \<Rightarrow> False)"

definition uuid_shape :: "string \<Rightarrow> bool" where
  "uuid_shape s = (let ps = split_on CHR ''-'' s in map length ps = [8, 4, 4, 4, 12] \<and> list_all (list_all is_hex) ps)"

fun is_valid_pixel_id :: "pixel_provider \<Rightarrow> string \<Rightarrow> bool" where
  "is_valid_pixel_id PixelMeta s = all_in is_digit 8 20 s"
| "is_valid_pixel_id PixelGoogle s = google_id s"
| "is_valid_pixel_id PixelX s = all_in is_alnum 4 12 s"
| "is_valid_pixel_id PixelLinkedin s = all_in is_digit 4 12 s"
| "is_valid_pixel_id PixelTiktok s = all_in is_alnum 10 30 s"
| "is_valid_pixel_id PixelPinterest s = all_in is_digit 10 16 s"
| "is_valid_pixel_id PixelReddit s = all_in (\<lambda>c. is_alnum c \<or> c = CHR ''_'') 3 40 s"
| "is_valid_pixel_id PixelBing s = all_in is_digit 6 12 s"
| "is_valid_pixel_id PixelSnapchat s = uuid_shape s"

fun pixel_field :: "pixel_provider \<Rightarrow> string" where
  "pixel_field PixelMeta = ''metaPixelId''"
| "pixel_field PixelGoogle = ''googleTagId''"
| "pixel_field PixelX = ''xPixelId''"
| "pixel_field PixelLinkedin = ''linkedinPartnerId''"
| "pixel_field PixelTiktok = ''tiktokPixelId''"
| "pixel_field PixelPinterest = ''pinterestTagId''"
| "pixel_field PixelReddit = ''redditPixelId''"
| "pixel_field PixelBing = ''uetTagId''"
| "pixel_field PixelSnapchat = ''snapPixelId''"

definition normalize_pixel_id :: "pixel_provider \<Rightarrow> json option \<Rightarrow> string option thrown" where
  "normalize_pixel_id provider raw =
     (if nullish raw then Inr None
      else (case raw of
          Some (JStr s) \<Rightarrow>
            (if trim s = [] then Inr None
             else if is_valid_pixel_id provider (trim s) then Inr (Some (trim s))
             else Inl (pixel_field provider @ '' has an invalid format''))
        | _ \<Rightarrow> Inl (pixel_field provider @ '' must be a string'')))"

type_synonym pixel_config = "pixel_provider \<Rightarrow> string option"

definition active_pixels :: "pixel_config \<Rightarrow> (pixel_provider \<times> string) list" where
  "active_pixels config = List.map_filter (\<lambda>p. case config p of
       Some v \<Rightarrow> if is_valid_pixel_id p (trim v) then Some (p, trim v) else None
     | None \<Rightarrow> None) PIXEL_PROVIDERS"

section \<open>Consent\<close>

text \<open>
  \<open>decodeURIComponent\<close> to code points: percent escapes are the bytes of UTF-8 sequences;
  \<open>None\<close> where it throws.
\<close>

definition hex_pair :: "string \<Rightarrow> nat option" where
  "hex_pair s = (case s of a # b # _ \<Rightarrow> if is_hex a \<and> is_hex b then radix_val 16 0 [a, b] else None | _ \<Rightarrow> None)"

text \<open>The continuation bytes of a sequence: so many escapes of \<open>10xxxxxx\<close>.\<close>

fun escape_tail :: "nat \<Rightarrow> nat \<Rightarrow> string \<Rightarrow> (nat \<times> string) option" where
  "escape_tail 0 acc s = Some (acc, s)"
| "escape_tail (Suc n) acc s = (case s of
       c # t \<Rightarrow> if c \<noteq> CHR ''%'' then None
         else (case hex_pair t of
             Some b \<Rightarrow> if b div 64 = 2 then escape_tail n (acc * 64 + b mod 64) (drop 2 t) else None
           | None \<Rightarrow> None)
     | [] \<Rightarrow> None)"

definition escape_point :: "nat \<Rightarrow> string \<Rightarrow> (nat \<times> string) option" where
  "escape_point b s =
     (if b < 128 then Some (b, s)
      else (let (n, lo, acc) = (if b < 192 then (0, 0, 0) else if b < 224 then (1, 128, b - 192)
              else if b < 240 then (2, 2048, b - 224) else if b < 248 then (3, 65536, b - 240) else (0, 0, 0))
            in if n = 0 then None
               else (case escape_tail n acc s of
                   Some (p, r) \<Rightarrow> if lo \<le> p \<and> p < 1114112 \<and> \<not> (55296 \<le> p \<and> p < 57344) then Some (p, r) else None
                 | None \<Rightarrow> None)))"

text \<open>The fuel is the length of the text: every step consumes a character.\<close>

fun decode_points :: "nat \<Rightarrow> string \<Rightarrow> nat list option" where
  "decode_points 0 s = (if s = [] then Some [] else None)"
| "decode_points (Suc n) s = (case s of
       [] \<Rightarrow> Some []
     | c # t \<Rightarrow>
        if c \<noteq> CHR ''%'' then map_option ((#) (of_char c)) (decode_points n t)
        else (case Option.bind (hex_pair t) (\<lambda>b. escape_point b (drop 2 t)) of
            Some (p, r) \<Rightarrow> map_option ((#) p) (decode_points n r)
          | None \<Rightarrow> None))"

definition decode_uri_component :: "string \<Rightarrow> nat list option" where
  "decode_uri_component s = decode_points (length s) s"

text \<open>\<open>trim\<close> of a text of code points.\<close>

definition point_ws :: "nat \<Rightarrow> bool" where
  "point_ws p = ((9 \<le> p \<and> p \<le> 13) \<or> p \<in> set [32, 160, 5760, 8232, 8233, 8239, 8287, 12288, 65279] \<or> (8192 \<le> p \<and> p \<le> 8202))"

definition trim_points :: "nat list \<Rightarrow> nat list" where
  "trim_points ps = rev (dropWhile point_ws (rev (dropWhile point_ws ps)))"

definition lower_point :: "nat \<Rightarrow> nat" where
  "lower_point p = (if 65 \<le> p \<and> p \<le> 90 then p + 32 else p)"

definition opt_out_words :: "string list" where
  "opt_out_words = [''0'', ''denied'', ''reject'', ''false'']"

text \<open>\<open>/(?:^|;\\s*)ql_consent=([^;]*)/\<close>: the capture of the leftmost match.\<close>

fun consent_after_semicolon :: "string \<Rightarrow> string option" where
  "consent_after_semicolon [] = None"
| "consent_after_semicolon (c # s) =
     (if c = CHR '';'' \<and> prefix ''ql_consent='' (dropWhile is_ws s)
      then Some (takeWhile (\<lambda>x. x \<noteq> CHR '';'') (drop 11 (dropWhile is_ws s)))
      else consent_after_semicolon s)"

definition consent_value :: "string \<Rightarrow> string option" where
  "consent_value cookie = (if prefix ''ql_consent='' cookie
     then Some (takeWhile (\<lambda>x. x \<noteq> CHR '';'') (drop 11 cookie)) else consent_after_semicolon cookie)"

text \<open>The cookie's decoding may throw; the exception leaves the function.\<close>

definition pixel_consent_granted :: "string option \<Rightarrow> string option \<Rightarrow> string option \<Rightarrow> bool thrown" where
  "pixel_consent_granted gpc dnt cookie =
     (if map_option trim gpc = Some ''1'' then Inr False
      else if map_option trim dnt = Some ''1'' then Inr False
      else if str_truthy cookie then
        (case consent_value (the cookie) of
           None \<Rightarrow> Inr True
         | Some v \<Rightarrow> (case decode_uri_component v of
             None \<Rightarrow> Inl ''URI malformed''
           | Some ps \<Rightarrow> Inr (map lower_point (trim_points ps) \<notin> set (map (map of_char) opt_out_words))))
      else Inr True)"

section \<open>The page\<close>

definition esc_char :: "char \<Rightarrow> string" where
  "esc_char c = (if c = CHR ''&'' then ''&amp;'' else if c = CHR ''<'' then ''&lt;'' else if c = CHR ''>'' then ''&gt;''
     else if c = CHR ''\"'' then ''&quot;'' else if c = CHR 0x27 then ''&#39;'' else [c])"

definition esc_text :: "string \<Rightarrow> string" where
  "esc_text s = concat (map esc_char s)"

definition script_literal :: "string \<Rightarrow> string" where
  "script_literal value =
     replace_char CHR ''&'' (CHR 0x5C # ''u0026'') (replace_char CHR ''>'' (CHR 0x5C # ''u003e'')
       (replace_char CHR ''<'' (CHR 0x5C # ''u003c'') (json_quote value)))"

definition snippet :: "pixel_provider \<Rightarrow> string \<Rightarrow> string" where
  "snippet provider idText = (let lit = script_literal idText in case provider of
    PixelMeta \<Rightarrow>
     ''!function(f,b,e,v,n,t,s){if(f.fbq)return;n=f.fbq=function(){n.callMethod?n.callMethod.apply(n,arguments):n.que'' @
     ''ue.push(arguments)};if(!f._fbq)f._fbq=n;n.push=n;n.loaded=!0;n.version='2.0';n.queue=[];t=b.createElement(e);t'' @
     ''.async=!0;t.src=v;s=b.getElementsByTagName(e)[0];s.parentNode.insertBefore(t,s)}(window,document,'script','htt'' @
     ''ps://connect.facebook.net/en_US/fbevents.js');fbq('init','' @ lit @
     '');fbq('track','PageView');''
   | PixelGoogle \<Rightarrow>
     ''window.dataLayer=window.dataLayer||[];function gtag(){dataLayer.push(arguments)}gtag('js',new Date());gtag('co'' @
     ''nfig','' @ lit @
     '');(function(){var s=document.createElement('script');s.async=!0;s.src='https://www.googletagmanager.com/gtag/j'' @
     ''s?id='+encodeURIComponent('' @ lit @
     '');document.head.appendChild(s)})();''
   | PixelX \<Rightarrow>
     ''!function(e,t,n,s,u,a){e.twq||(s=e.twq=function(){s.exe?s.exe.apply(s,arguments):s.queue.push(arguments)},s.ve'' @
     ''rsion='1.1',s.queue=[],u=t.createElement(n),u.async=!0,u.src='https://static.ads-twitter.com/uwt.js',a=t.getEl'' @
     ''ementsByTagName(n)[0],a.parentNode.insertBefore(u,a))}(window,document,'script');twq('config','' @ lit @
     '');''
   | PixelLinkedin \<Rightarrow>
     ''window._linkedin_data_partner_ids=window._linkedin_data_partner_ids||[];window._linkedin_data_partner_ids.push'' @
     ''('' @ lit @
     '');(function(){var s=document.createElement('script');s.async=!0;s.src='https://snap.licdn.com/li.lms-analytics'' @
     ''/insight.min.js';document.head.appendChild(s)})();''
   | PixelTiktok \<Rightarrow>
     ''!function(w,d,t){w.TiktokAnalyticsObject=t;var ttq=w[t]=w[t]||[];ttq.methods=['page','track','identify','insta'' @
     ''nces','debug','on','off','once','ready','alias','group','enableCookie','disableCookie'];ttq.setAndDefer=functi'' @
     ''on(t,e){t[e]=function(){t.push([e].concat(Array.prototype.slice.call(arguments,0)))}};for(var i=0;i<ttq.method'' @
     ''s.length;i++)ttq.setAndDefer(ttq,ttq.methods[i]);ttq.load=function(e){var n='https://analytics.tiktok.com/i18n'' @
     ''/pixel/events.js';ttq._i=ttq._i||{};ttq._i[e]=[];ttq._t=ttq._t||{};ttq._t[e]=+new Date;var o=d.createElement'' @
     ''('script');o.async=!0;o.src=n+'?sdkid='+e+'&lib='+t;var a=d.getElementsByTagName('script')[0];a.parentNode.ins'' @
     ''ertBefore(o,a)};ttq.load('' @ lit @
     '');ttq.page()}(window,document,'ttq');''
   | PixelPinterest \<Rightarrow>
     ''!function(e){if(!window.pintrk){window.pintrk=function(){window.pintrk.queue.push(Array.prototype.slice.call(a'' @
     ''rguments))};var n=window.pintrk;n.queue=[],n.version='3.0';var t=document.createElement('script');t.async=!0,t'' @
     ''.src=e;var r=document.getElementsByTagName('script')[0];r.parentNode.insertBefore(t,r)}}('https://s.pinimg.com'' @
     ''/ct/core.js');pintrk('load','' @ lit @
     '');pintrk('page');''
   | PixelBing \<Rightarrow>
     ''(function(w,d,t,r,u){var f,n,i;w[u]=w[u]||[],f=function(){var o={ti:'' @ lit @
     '',enableAutoSpaTracking:true};o.q=w[u],w[u]=new UET(o),w[u].push(\"pageLoad\")},n=d.createElement(t),n.src=r,n.'' @
     ''async=1,n.onload=n.onreadystatechange=function(){var s=this.readyState;s&&s!==\"loaded\"&&s!==\"complete\"||(f'' @
     ''(),n.onload=n.onreadystatechange=null)},i=d.getElementsByTagName(t)[0],i.parentNode.insertBefore(n,i)})(window'' @
     '',document,\"script\",\"https://bat.bing.com/bat.js\",\"uetq\");''
   | PixelReddit \<Rightarrow>
     ''!function(w,d){if(!w.rdt){var p=w.rdt=function(){p.sendEvent?p.sendEvent.apply(p,arguments):p.callQueue.push(a'' @
     ''rguments)};p.callQueue=[];var t=d.createElement('script');t.src='https://www.redditstatic.com/ads/pixel.js';t.'' @
     ''async=!0;var s=d.getElementsByTagName('script')[0];s.parentNode.insertBefore(t,s)}}(window,document);rdt('ini'' @
     ''t','' @ lit @
     '');rdt('track','PageVisit');''
   | PixelSnapchat \<Rightarrow>
     ''(function(e,t,n){if(e.snaptr)return;var a=e.snaptr=function(){a.handleRequest?a.handleRequest.apply(a,argument'' @
     ''s):a.queue.push(arguments)};a.queue=[];var s='script',r=t.createElement(s);r.async=!0;r.src=n;var u=t.getEleme'' @
     ''ntsByTagName(s)[0];u.parentNode.insertBefore(r,u)})(window,document,'https://sc-static.net/scevent.min.js');sn'' @
     ''aptr('init','' @ lit @
     '');snaptr('track','PAGE_VIEW');'')"

definition DEFAULT_PIXEL_MAX_WAIT_MS :: int where "DEFAULT_PIXEL_MAX_WAIT_MS = 250"

definition PIXEL_SCRIPT_HOSTS :: "string list" where
  "PIXEL_SCRIPT_HOSTS = [''https://connect.facebook.net'', ''https://www.googletagmanager.com'', ''https://static.ads-twitter.com'',
     ''https://snap.licdn.com'', ''https://analytics.tiktok.com'', ''https://s.pinimg.com'', ''https://sc-static.net'',
     ''https://www.redditstatic.com'', ''https://bat.bing.com'']"

definition pixel_content_security_policy :: string where
  "pixel_content_security_policy =
     ''default-src 'none'; script-src 'unsafe-inline' '' @ join_with '' '' PIXEL_SCRIPT_HOSTS @
     ''; img-src https: data:; connect-src https:; base-uri 'none'; form-action 'none'' @ [CHR 0x27]"

definition pixel_tag :: "pixel_provider \<times> string \<Rightarrow> string" where
  "pixel_tag p = ''try{'' @ snippet (fst p) (snd p) @ ''}catch(e){}''"

definition render_pixel_redirect_page :: "string \<Rightarrow> (pixel_provider \<times> string) list \<Rightarrow> int option \<Rightarrow> string" where
  "render_pixel_redirect_page destination pixels maxWaitMs =
     (let wait = max 0 (min (coalesce maxWaitMs DEFAULT_PIXEL_MAX_WAIT_MS) 1000);
          dest = esc_text destination;
          tags = concat (map pixel_tag pixels)
      in ''<!DOCTYPE html><html><head><meta charset=\"utf-8\"><meta name=\"referrer\" content=\"origin\">'' @
         ''<meta name=\"robots\" content=\"noindex\"><title></title><noscript><meta http-equiv=\"refresh\" content=\"0; url='' @
         dest @ ''\"></noscript><style>html,body{background:#fff;margin:0}</style></head><body><script>'' @ tags @
         ''var go=function(){location.replace('' @ script_literal destination @ '')};setTimeout(go,'' @ int_dec wait @
         '');</script></body></html>'')"

section \<open>Literals in the page\<close>

definition lit_escape :: "char \<Rightarrow> string" where
  "lit_escape c = (if c = CHR ''<'' then CHR 0x5C # ''u003c'' else if c = CHR ''>'' then CHR 0x5C # ''u003e''
     else if c = CHR ''&'' then CHR 0x5C # ''u0026'' else json_escape c)"

lemma replace_char_concat: "replace_char c r (concat xs) = concat (map (replace_char c r) xs)"
  by (induction xs) (simp_all add: replace_char_append, simp add: replace_char_def)

lemma hex_char_word: "n < 16 \<Longrightarrow> is_alnum (hex_char n)"
  by (auto simp: hex_char_def is_alnum_def is_alpha_def is_lower_def is_digit_def Let_def)

lemma json_escape_keeps:
  assumes "c \<notin> set ''<>&''" "x \<in> set ''<>&''"
  shows "x \<notin> set (json_escape c)"
proof (cases c rule: json_escape_cases)
  case 1
  then show ?thesis using assms(2) by (elim insertE) (auto simp: json_escape_special)
next
  case 2
  have "is_alnum (hex_char (of_char c div 16))" "is_alnum (hex_char (of_char c mod 16))"
    using 2(1) by (intro hex_char_word; simp)+
  moreover have "\<not> is_alnum x" using assms(2) by (auto simp: is_alnum_def is_alpha_def is_lower_def is_upper_def is_digit_def)
  ultimately show ?thesis using assms(2) unfolding 2(2) by auto
next
  case 3
  then show ?thesis using assms by auto
qed

lemma lit_escape_steps:
  "replace_char CHR ''&'' (CHR 0x5C # ''u0026'') (replace_char CHR ''>'' (CHR 0x5C # ''u003e'')
     (replace_char CHR ''<'' (CHR 0x5C # ''u003c'') (json_escape c))) = lit_escape c"
proof (cases "c \<in> set ''<>&''")
  case True
  have "json_escape c = [c]" using True by (auto simp: json_escape_def)
  then show ?thesis using True by (auto simp: lit_escape_def replace_char_def)
next
  case False
  then show ?thesis using json_escape_keeps [OF False] by (simp add: replace_char_absent lit_escape_def)
qed

lemma script_literal_concat: "script_literal s = CHR ''\"'' # concat (map lit_escape s) @ [CHR ''\"'']"
proof -
  have "script_literal s = CHR ''\"'' # replace_char CHR ''&'' (CHR 0x5C # ''u0026'') (replace_char CHR ''>'' (CHR 0x5C # ''u003e'')
     (replace_char CHR ''<'' (CHR 0x5C # ''u003c'') (concat (map json_escape s)))) @ [CHR ''\"'']"
    by (simp add: script_literal_def json_quote_def replace_char_def)
  then show ?thesis by (simp add: replace_char_concat comp_def lit_escape_steps)
qed

lemma unquote_lit_escape: "unquote_chars (lit_escape c @ s) = map_option ((#) c) (unquote_chars s)"
proof (cases "c \<in> set ''<>&''")
  case True
  have "char_of (60 :: nat) = CHR ''<''" "char_of (62 :: nat) = CHR ''>''" "char_of (38 :: nat) = CHR ''&''" by code_simp+
  then show ?thesis using True by (auto simp: lit_escape_def hex_value_def)
next
  case False
  then show ?thesis by (simp add: lit_escape_def unquote_json_escape)
qed

lemma read_script_literal: "read_literal (script_literal s) = Some s"
proof -
  have "unquote_chars (concat (map lit_escape s) @ [CHR ''\"'']) = Some s"
    by (induction s) (simp_all add: unquote_lit_escape)
  then show ?thesis by (simp add: script_literal_concat read_literal_def)
qed

lemma script_literal_inert: "x \<in> set ''<>&'' \<Longrightarrow> x \<notin> set (script_literal s)"
proof -
  assume x: "x \<in> set ''<>&''"
  have "x \<notin> set (lit_escape c)" for c
    using x json_escape_keeps [of c x] by (cases "c \<in> set ''<>&''") (auto simp: lit_escape_def)
  then show ?thesis using x by (auto simp: script_literal_concat)
qed

section \<open>Tags of a page\<close>

text \<open>
  The tags a browser finds in a text: outside scripts every \<open><\<close> opens a tag, which runs to the
  first \<open>>\<close> outside quotes; a script runs to the first \<open></script\<close>, and a comment opened inside
  it, which would hide that end, is listed as well.
\<close>

datatype html_mode = InText | InTag string "char option" | InScript

definition quote_after :: "char \<Rightarrow> char option \<Rightarrow> char option" where
  "quote_after c q = (case q of None \<Rightarrow> if c = CHR ''\"'' \<or> c = CHR 0x27 then Some c else None
     | Some d \<Rightarrow> if c = d then None else q)"

definition opens_script :: "string \<Rightarrow> bool" where
  "opens_script tag = (to_lower (takeWhile is_alnum tag) = ''script'')"

fun html_tags :: "html_mode \<Rightarrow> string \<Rightarrow> string list" where
  "html_tags (InTag acc q) [] = [rev acc]"
| "html_tags (InTag acc q) (c # s) =
     (if c = CHR ''>'' \<and> q = None
      then rev acc # html_tags (if opens_script (rev acc) then InScript else InText) s
      else html_tags (InTag (c # acc) (quote_after c q)) s)"
| "html_tags InText (c # s) = (if c = CHR ''<'' then html_tags (InTag [] None) s else html_tags InText s)"
| "html_tags InScript (c # s) =
     (if prefix ''</script'' (to_lower (c # s)) then html_tags (InTag [] None) s
      else if prefix ''<!--'' (c # s) then ''<!--'' # html_tags InScript s
      else html_tags InScript s)"
| "html_tags _ [] = []"

declare html_tags.simps(4) [simp del]

lemma lower_char_lt [simp]: "lower_char c = CHR ''<'' \<longleftrightarrow> c = CHR ''<''"
proof
  assume "lower_char c = CHR ''<''"
  then have "(of_char (lower_char c) :: nat) = 60" by simp
  then have "(of_char c :: nat) = 60"
    by (auto simp: of_lower_char is_upper_def split: if_splits)
  then have "c = char_of (60 :: nat)" by (metis char_of_char)
  also have "\<dots> = CHR ''<''" by code_simp
  finally show "c = CHR ''<''" .
qed (simp add: lower_char_def is_upper_def)

lemma text_plain: "CHR ''<'' \<notin> set s \<Longrightarrow> html_tags InText (s @ t) = html_tags InText t"
  by (induction s) auto

lemma script_skip: "c \<noteq> CHR ''<'' \<Longrightarrow> html_tags InScript (c # s) = html_tags InScript s"
  using lower_char_lt [of c] by (auto simp: html_tags.simps(4) to_lower_def simp del: lower_char_lt)

lemma script_open:
  "html_tags InScript (CHR ''<'' # s) =
     (if prefix ''/script'' (to_lower s) then html_tags (InTag [] None) s
      else if prefix ''!--'' s then ''<!--'' # html_tags InScript s else html_tags InScript s)"
  by (auto simp: html_tags.simps(4) to_lower_def lower_char_def is_upper_def)

lemma script_plain: "CHR ''<'' \<notin> set s \<Longrightarrow> html_tags InScript (s @ t) = html_tags InScript t"
  by (induction s) (auto simp: script_skip)

lemma quoted_plain: "q \<notin> set s \<Longrightarrow> html_tags (InTag acc (Some q)) (s @ t) = html_tags (InTag (rev s @ acc) (Some q)) t"
  by (induction s arbitrary: acc) (auto simp: quote_after_def)

lemma esc_text_inert: "CHR ''<'' \<notin> set (esc_text s)" "CHR ''\"'' \<notin> set (esc_text s)"
  by (auto simp: esc_text_def esc_char_def)

lemma int_dec_inert: "CHR ''<'' \<notin> set (int_dec i)"
  using nat_dec_digits [of "nat i"] nat_dec_digits [of "nat (- i)"] by (auto simp: int_dec_def is_digit_def)

text \<open>The dispatch of a tag stays inside its script.\<close>

lemma snippet_tags: "html_tags InScript (snippet p v @ t) = html_tags InScript t"
proof -
  have lit: "CHR ''<'' \<notin> set (script_literal v)" using script_literal_inert [of "CHR ''<''" v] by simp
  show ?thesis
    by (cases p) (simp_all add: snippet_def script_plain [OF lit] script_skip script_open to_lower_def lower_char_def is_upper_def Let_def)
qed

lemma pixel_tag_tags: "html_tags InScript (pixel_tag p @ t) = html_tags InScript t"
  by (simp add: pixel_tag_def snippet_tags script_skip)

lemma pixel_tags_tags: "html_tags InScript (concat (map pixel_tag ps) @ t) = html_tags InScript t"
  by (induction ps) (simp_all add: pixel_tag_tags)

text \<open>A text of script literals of one value between fixed pieces.\<close>

definition fills_gaps :: "(string \<Rightarrow> string) \<Rightarrow> bool" where
  "fills_gaps f = (\<exists>parts. parts \<noteq> [] \<and> (\<forall>v. f v = join_with (script_literal v) parts))"

lemma fills_last: "fills_gaps (\<lambda>v. c)"
  unfolding fills_gaps_def by (rule exI [of _ "[c]"]) simp

lemma fills_text:
  assumes "fills_gaps f" shows "fills_gaps (\<lambda>v. c @ f v)"
proof -
  obtain p ps where "\<forall>v. f v = join_with (script_literal v) (p # ps)"
    using assms unfolding fills_gaps_def by (metis neq_Nil_conv)
  then have "\<forall>v. c @ f v = join_with (script_literal v) ((c @ p) # ps)" by (cases ps) simp_all
  then show ?thesis unfolding fills_gaps_def by blast
qed

lemma fills_literal:
  assumes "fills_gaps f" shows "fills_gaps (\<lambda>v. script_literal v @ f v)"
proof -
  obtain p ps where "\<forall>v. f v = join_with (script_literal v) (p # ps)"
    using assms unfolding fills_gaps_def by (metis neq_Nil_conv)
  then have "\<forall>v. script_literal v @ f v = join_with (script_literal v) ([] # p # ps)" by simp
  then show ?thesis unfolding fills_gaps_def by blast
qed

lemma snippet_fills: "fills_gaps (snippet p)"
  by (cases p) (simp_all only: snippet_def [abs_def] pixel_provider.case Let_def fills_last fills_text fills_literal)

lemma place_parts:
  "\<exists>before after. \<forall>d. a @ b @ esc_text d @ c @ e @ f @ script_literal d @ r = before @ esc_text d @ after @ script_literal d @ r"
  by (rule exI [of _ "a @ b"], rule exI [of _ "c @ e @ f"]) simp


text \<open>Active pixels are valid, one per provider, and normalised identifiers are kept.\<close>

lemma active_pixels_valid: "(p, v) \<in> set (active_pixels config) \<Longrightarrow> is_valid_pixel_id p v \<and> map_option trim (config p) = Some v"
  by (auto simp: active_pixels_def map_filter_def split: option.splits if_splits)

lemma normalized_pixel_active:
  assumes "normalize_pixel_id p raw = Inr (Some v)" "config p = Some v"
  shows "(p, v) \<in> set (active_pixels config)"
proof -
  have "is_valid_pixel_id p v" "trim v = v"
    using assms(1) by (auto simp: normalize_pixel_id_def split: if_splits option.splits json.splits)
  moreover have "p \<in> set PIXEL_PROVIDERS" by (cases p) (simp_all add: PIXEL_PROVIDERS_def)
  ultimately show ?thesis using assms(2) by (force simp: active_pixels_def map_filter_def)
qed

text \<open>A consent cookie that is not a percent encoding raises.\<close>

lemma malformed_consent_throws: "pixel_consent_granted None None (Some ''ql_consent=%'') = Inl ''URI malformed''"
  by (simp add: pixel_consent_granted_def consent_value_def decode_uri_component_def hex_pair_def eval_nat_numeral)

end
