(* ===== verification/LinkCacheBus.thy ===== *)
theory LinkCacheBus
  imports Prelude
begin

text \<open>
  The invalidation bus between instances (\<open>src/lib/link-cache-bus.ts\<close>): what an
  invalidation names, its encoding in messages of bounded size, the decoding that ignores
  foreign, malformed and own messages, and the life of the subscription.  A message is the
  JSON value it carries; the transport (Redis) is a parameter, the outcome of each publish.
  Decoding on another instance what was encoded gives the cleaned targets back.
\<close>

section \<open>Targets and messages\<close>

record targets =
  tg_codes :: "string list option"
  tg_ids :: "string list option"
  tg_hosts :: "string list option"
  tg_all :: bool

definition MAX_KEYS_PER_MESSAGE :: nat where "MAX_KEYS_PER_MESSAGE = 500"

definition valid_key :: "string \<Rightarrow> bool" where
  "valid_key v = (v \<noteq> [] \<and> length v \<le> 2048)"

text \<open>\<open>clean\<close> on any decoded value: only an array's strings of valid length, once each.\<close>

definition clean_json :: "json option \<Rightarrow> string list" where
  "clean_json values = (case values of
       Some (JArr vs) \<Rightarrow> uniq (filter valid_key (List.map_filter (\<lambda>v. jstr (Some v)) vs))
     | _ \<Rightarrow> [])"

definition json_strings :: "string list \<Rightarrow> json" where
  "json_strings vs = JArr (map JStr vs)"

definition clean :: "string list option \<Rightarrow> string list" where
  "clean values = clean_json (map_option json_strings values)"

datatype target_kind = KCodes | KIds | KHosts

fun kind_name :: "target_kind \<Rightarrow> string" where
  "kind_name KCodes = ''codes''"
| "kind_name KIds = ''ids''"
| "kind_name KHosts = ''hosts''"

fun kind_targets :: "target_kind \<Rightarrow> targets \<Rightarrow> string list option" where
  "kind_targets KCodes t = tg_codes t"
| "kind_targets KIds t = tg_ids t"
| "kind_targets KHosts t = tg_hosts t"

definition KINDS :: "target_kind list" where "KINDS = [KCodes, KIds, KHosts]"

definition invalidation_queue :: "targets \<Rightarrow> (target_kind \<times> string) list" where
  "invalidation_queue t = concat (map (\<lambda>k. map (Pair k) (clean (kind_targets k t))) KINDS)"

text \<open>The slices \<open>queue.slice(i, i + n)\<close> for \<open>i = 0, n, 2n, ...\<close>\<close>

function chunks :: "nat \<Rightarrow> 'a list \<Rightarrow> 'a list list" where
  "chunks n xs = (if n = 0 \<or> xs = [] then [] else take n xs # chunks n (drop n xs))"
  by pat_completeness auto
termination by (relation "measure (\<lambda>(n, xs). length xs)") auto

declare chunks.simps [simp del]

text \<open>A message has a field for each kind that occurs, with its values in order.\<close>

definition chunk_fields :: "(target_kind \<times> string) list \<Rightarrow> (string \<times> json) list" where
  "chunk_fields chunk = List.map_filter (\<lambda>k.
     let vs = map snd (filter (\<lambda>e. fst e = k) chunk)
     in if vs = [] then None else Some (kind_name k, json_strings vs)) KINDS"

definition encode_invalidation :: "targets \<Rightarrow> string \<Rightarrow> json list" where
  "encode_invalidation t origin =
     (if tg_all t then [JObj [(''v'', JInt 1), (''origin'', JStr origin), (''all'', JBool True)]]
      else map (\<lambda>chunk. JObj ((''v'', JInt 1) # (''origin'', JStr origin) # chunk_fields chunk))
        (chunks MAX_KEYS_PER_MESSAGE (invalidation_queue t)))"

text \<open>\<open>None\<close> for the argument is a text \<open>JSON.parse\<close> rejects.\<close>

definition decode_invalidation :: "json option \<Rightarrow> string \<Rightarrow> targets option" where
  "decode_invalidation raw self = (case raw of
       None \<Rightarrow> None
     | Some m \<Rightarrow>
        if jget m ''v'' \<noteq> Some (JInt 1) then None
        else (case jstr (jget m ''origin'') of
            None \<Rightarrow> None
          | Some origin \<Rightarrow>
             if origin = self then None
             else if jget m ''all'' = Some (JBool True)
               then Some \<lparr>tg_codes = None, tg_ids = None, tg_hosts = None, tg_all = True\<rparr>
             else
               let cs = clean_json (jget m ''codes''); is = clean_json (jget m ''ids''); hs = clean_json (jget m ''hosts'')
               in if cs = [] \<and> is = [] \<and> hs = [] then None
                  else Some \<lparr>tg_codes = Some cs, tg_ids = Some is, tg_hosts = Some hs, tg_all = False\<rparr>))"

section \<open>The subscription\<close>

record bus_state =
  bs_started :: bool
  bs_retryAt :: js_date
  bs_pending :: bool
  bs_stop :: bool
  bs_connected :: bool
  bs_published :: nat
  bs_received :: nat
  bs_publishFailures :: nat

definition empty_bus :: bus_state where
  "empty_bus = \<lparr>bs_started = False, bs_retryAt = 0, bs_pending = False, bs_stop = False, bs_connected = False,
     bs_published = 0, bs_received = 0, bs_publishFailures = 0\<rparr>"

definition SUBSCRIBE_RETRY_MS :: int where "SUBSCRIBE_RETRY_MS = 30000"

text \<open>\<open>ensureBusListener\<close>: whether a subscription attempt starts, and its end.\<close>

definition listener_begin :: "bus_state \<Rightarrow> js_date \<Rightarrow> bus_state \<times> bool" where
  "listener_begin s now =
     (if bs_started s \<and> (bs_pending s \<or> bs_stop s \<or> now < bs_retryAt s) then (s, False)
      else (s\<lparr>bs_pending := True, bs_started := True\<rparr>, True))"

definition listener_end :: "bus_state \<Rightarrow> js_date \<Rightarrow> bool \<Rightarrow> bus_state" where
  "listener_end s now got_stop =
     (let s1 = s\<lparr>bs_stop := got_stop\<rparr>;
          s2 = (if got_stop then s1 else s1\<lparr>bs_retryAt := now + SUBSCRIBE_RETRY_MS\<rparr>)
      in s2\<lparr>bs_pending := False\<rparr>)"

text \<open>The handlers of the transport; the flag says whether the cache's own handler runs.\<close>

definition bus_up :: "bus_state \<Rightarrow> bus_state \<times> bool" where
  "bus_up s = (if bs_connected s then (s, False) else (s\<lparr>bs_connected := True\<rparr>, True))"

definition bus_down :: "bus_state \<Rightarrow> bus_state \<times> bool" where
  "bus_down s = (if bs_connected s then (s\<lparr>bs_connected := False\<rparr>, True) else (s, False))"

definition bus_message :: "bus_state \<Rightarrow> json option \<Rightarrow> string \<Rightarrow> bus_state \<times> targets option" where
  "bus_message s raw self = (case decode_invalidation raw self of
       None \<Rightarrow> (s, None) | Some t \<Rightarrow> (s\<lparr>bs_received := bs_received s + 1\<rparr>, Some t))"

text \<open>\<open>oks\<close> are the outcomes of the publishes, one per message.\<close>

definition publish_invalidation :: "bus_state \<Rightarrow> targets \<Rightarrow> string \<Rightarrow> bool list \<Rightarrow> bus_state \<times> nat" where
  "publish_invalidation s t origin oks =
     (let results = take (length (encode_invalidation t origin)) oks; sent = length (filter id results)
      in (s\<lparr>bs_published := bs_published s + sent,
            bs_publishFailures := bs_publishFailures s + (length results - sent)\<rparr>, sent))"

section \<open>Lemmas\<close>

lemma concat_chunks: "0 < n \<Longrightarrow> concat (chunks n xs) = xs"
  by (induction n xs rule: chunks.induct) (subst chunks.simps, auto)

lemma chunks_bounds: "c \<in> set (chunks n xs) \<Longrightarrow> c \<noteq> [] \<and> length c \<le> n"
proof (induction n xs rule: chunks.induct)
  case (1 n xs)
  then show ?case by (subst (asm) (2) chunks.simps) (auto split: if_splits)
qed

lemma clean_json_strings: "clean_json (Some (json_strings vs)) = uniq (filter valid_key vs)"
  by (simp add: clean_json_def json_strings_def map_filter_def comp_def)

lemma clean_valid: "v \<in> set (clean vs) \<Longrightarrow> valid_key v"
  by (cases vs) (auto simp: clean_def clean_json_strings clean_json_def)

lemma distinct_clean: "distinct (clean vs)"
  by (cases vs) (simp_all add: clean_def clean_json_strings, simp add: clean_json_def)

lemma clean_None [simp]: "clean None = []"
  by (simp add: clean_def clean_json_def)

lemma clean_Some: "clean (Some vs) = uniq (filter valid_key vs)"
  by (simp add: clean_def clean_json_strings)

lemma clean_json_id:
  assumes "distinct vs" "\<forall>v \<in> set vs. valid_key v"
  shows "clean_json (Some (json_strings vs)) = vs"
proof -
  have "filter valid_key vs = vs" using assms(2) by simp
  then show ?thesis using assms(1) by (simp add: clean_json_strings uniq_distinct)
qed

definition chunk_values :: "target_kind \<Rightarrow> (target_kind \<times> string) list \<Rightarrow> string list" where
  "chunk_values k chunk = map snd (filter (\<lambda>e. fst e = k) chunk)"

lemma chunk_values_concat: "concat (map (chunk_values k) cs) = chunk_values k (concat cs)"
  by (induction cs) (auto simp: chunk_values_def)

lemma chunk_values_queue: "chunk_values k (invalidation_queue t) = clean (kind_targets k t)"
  by (cases k) (simp_all add: chunk_values_def invalidation_queue_def KINDS_def comp_def)

text \<open>Reading a field of an encoded message back.\<close>

lemma chunk_field:
  "map_of (chunk_fields chunk) (kind_name k) =
    (if chunk_values k chunk = [] then None else Some (json_strings (chunk_values k chunk)))"
  by (cases k) (simp_all add: chunk_fields_def KINDS_def Let_def chunk_values_def)

lemma chunk_no_field:
  "map_of (chunk_fields chunk) ''all'' = None"
  by (simp add: chunk_fields_def KINDS_def Let_def)

lemma decode_chunk:
  assumes ne: "chunk \<noteq> []" and valid: "\<forall>e \<in> set chunk. valid_key (snd e)" and dist: "\<And>k. distinct (chunk_values k chunk)"
    and other: "origin \<noteq> self"
  shows "decode_invalidation (Some (JObj ((''v'', JInt 1) # (''origin'', JStr origin) # chunk_fields chunk))) self =
    Some \<lparr>tg_codes = Some (chunk_values KCodes chunk), tg_ids = Some (chunk_values KIds chunk),
          tg_hosts = Some (chunk_values KHosts chunk), tg_all = False\<rparr>"
proof -
  have c: "clean_json (map_of (chunk_fields chunk) (kind_name k)) = chunk_values k chunk" for k
  proof (cases "chunk_values k chunk = []")
    case True
    then show ?thesis by (simp add: chunk_field) (simp add: clean_json_def)
  next
    case False
    have "\<forall>v \<in> set (chunk_values k chunk). valid_key v" using valid by (auto simp: chunk_values_def)
    then show ?thesis using False dist by (simp add: chunk_field clean_json_id)
  qed
  have "chunk_values (fst (hd chunk)) chunk \<noteq> []"
    using ne by (cases chunk) (simp_all add: chunk_values_def)
  then obtain k where "chunk_values k chunk \<noteq> []" by blast
  then have some: "\<not> (chunk_values KCodes chunk = [] \<and> chunk_values KIds chunk = [] \<and> chunk_values KHosts chunk = [])"
    by (cases k) auto
  show ?thesis
    using other c [of KCodes] c [of KIds] c [of KHosts] some
    by (simp add: decode_invalidation_def chunk_no_field Let_def)
qed

lemma invalidation_queue_valid: "e \<in> set (invalidation_queue t) \<Longrightarrow> valid_key (snd e)"
  by (auto simp: invalidation_queue_def dest: clean_valid)

lemma distinct_chunk_values:
  assumes "distinct (chunk_values k (concat cs))" "c \<in> set cs"
  shows "distinct (chunk_values k c)"
  using assms by (induction cs) (auto simp: chunk_values_def)

section \<open>Properties\<close>

text \<open>
  C21: The bus loses nothing.  Every message of an invalidation carries between one and 500
  keys, its origin ignores it, any other instance accepts it, and the codes, ids and hosts
  received are together exactly the valid ones of the invalidation, in order and once each.
\<close>

theorem invalidation_roundtrip:
  assumes other: "origin \<noteq> self" and some: "\<not> tg_all t"
  shows "\<exists>ts. map (\<lambda>m. decode_invalidation (Some m) self) (encode_invalidation t origin) = map Some ts
    \<and> (\<forall>m \<in> set (encode_invalidation t origin). decode_invalidation (Some m) origin = None)
    \<and> concat (map (\<lambda>d. the (tg_codes d)) ts) = clean (tg_codes t)
    \<and> concat (map (\<lambda>d. the (tg_ids d)) ts) = clean (tg_ids t)
    \<and> concat (map (\<lambda>d. the (tg_hosts d)) ts) = clean (tg_hosts t)
    \<and> (\<forall>d \<in> set ts. \<not> tg_all d \<and>
        length (the (tg_codes d)) + length (the (tg_ids d)) + length (the (tg_hosts d)) \<in> {1..500})"
proof -
  let ?cs = "chunks MAX_KEYS_PER_MESSAGE (invalidation_queue t)"
  let ?d = "\<lambda>c. \<lparr>tg_codes = Some (chunk_values KCodes c), tg_ids = Some (chunk_values KIds c),
          tg_hosts = Some (chunk_values KHosts c), tg_all = False\<rparr>"
  have conc: "concat ?cs = invalidation_queue t" by (rule concat_chunks) (simp add: MAX_KEYS_PER_MESSAGE_def)
  have dist: "distinct (chunk_values k (concat ?cs))" for k
    unfolding conc chunk_values_queue by (rule distinct_clean)
  have dec: "decode_invalidation (Some (JObj ((''v'', JInt 1) # (''origin'', JStr origin) # chunk_fields c))) self = Some (?d c)"
    if c: "c \<in> set ?cs" for c
  proof (rule decode_chunk)
    show "c \<noteq> []" using chunks_bounds [OF c] by simp
    have "set c \<subseteq> set (concat ?cs)" using c by auto
    then show "\<forall>e \<in> set c. valid_key (snd e)" unfolding conc using invalidation_queue_valid by blast
    show "distinct (chunk_values k c)" for k by (rule distinct_chunk_values [OF dist c])
  qed (rule other)
  have size: "length (chunk_values KCodes c) + length (chunk_values KIds c) + length (chunk_values KHosts c) = length c"
    for c :: "(target_kind \<times> string) list"
  proof (induction c)
    case (Cons e c)
    then show ?case by (cases "fst e") (auto simp: chunk_values_def)
  qed (simp add: chunk_values_def)
  have vals: "concat (map (chunk_values k) ?cs) = clean (kind_targets k t)" for k
    by (simp add: chunk_values_concat conc chunk_values_queue)
  show ?thesis
  proof (intro exI [of _ "map ?d ?cs"] conjI)
    show "map (\<lambda>m. decode_invalidation (Some m) self) (encode_invalidation t origin) = map Some (map ?d ?cs)"
      using some dec by (simp add: encode_invalidation_def)
    show "\<forall>m \<in> set (encode_invalidation t origin). decode_invalidation (Some m) origin = None"
      by (auto simp: encode_invalidation_def decode_invalidation_def)
    show "concat (map (\<lambda>d. the (tg_codes d)) (map ?d ?cs)) = clean (tg_codes t)"
      using vals [of KCodes] by (simp add: comp_def)
    show "concat (map (\<lambda>d. the (tg_ids d)) (map ?d ?cs)) = clean (tg_ids t)"
      using vals [of KIds] by (simp add: comp_def)
    show "concat (map (\<lambda>d. the (tg_hosts d)) (map ?d ?cs)) = clean (tg_hosts t)"
      using vals [of KHosts] by (simp add: comp_def)
    show "\<forall>d \<in> set (map ?d ?cs). \<not> tg_all d \<and>
        length (the (tg_codes d)) + length (the (tg_ids d)) + length (the (tg_hosts d)) \<in> {1..500}"
    proof
      fix d assume "d \<in> set (map ?d ?cs)"
      then obtain c where c: "c \<in> set ?cs" and d: "d = ?d c" by auto
      from chunks_bounds [OF c(1)] have "1 \<le> length c" "length c \<le> 500"
        by (simp_all add: MAX_KEYS_PER_MESSAGE_def Suc_le_eq)
      then show "\<not> tg_all d \<and> length (the (tg_codes d)) + length (the (tg_ids d)) + length (the (tg_hosts d)) \<in> {1..500}"
        unfolding d by (simp add: size)
    qed
  qed
qed

theorem invalidation_roundtrip_witness:
  "\<exists>ts. map (\<lambda>m. decode_invalidation (Some m) ''b'')
      (encode_invalidation \<lparr>tg_codes = Some [''x'', [], ''x''], tg_ids = Some [''1''], tg_hosts = None, tg_all = False\<rparr> ''a'') = map Some ts
    \<and> concat (map (\<lambda>d. the (tg_codes d)) ts) = [''x'']"
proof -
  let ?t = "\<lparr>tg_codes = Some [''x'', [], ''x''], tg_ids = Some [''1''], tg_hosts = None, tg_all = False\<rparr>"
  have "clean (tg_codes ?t) = [''x'']" by code_simp
  then show ?thesis using invalidation_roundtrip [of "''a''" "''b''" ?t] by auto
qed

end
