(* ===== verification/LinkCache.thy ===== *)
theory LinkCache
  imports LinkCacheBus JsValue
begin

text \<open>
  The read cache of the redirect path (\<open>src/lib/link-cache.ts\<close>): entries with jittered
  expiry in insertion order, the two reverse indexes, single-flight loads that an
  invalidation marks stale, local and remote eviction, and the flush on a change of the bus.
  The state is the module's maps; a read or a load is split where it awaits.  The lemmas say
  how each operation acts on the entries, the loads in flight and the indexes; what they give
  for the running cache is in \<open>LinkCacheWorld\<close>.
\<close>

section \<open>State\<close>

record 'v cache_entry =
  ce_value :: 'v
  ce_expiresAt :: js_date
  ce_urlId :: "string option"
  ce_host :: "string option"

record 'v load_result =
  lr_value :: 'v
  lr_urlId :: "string option"
  lr_host :: "string option"
  lr_notAfter :: "js_date option"

record flight =
  fl_key :: string
  fl_stale :: bool

record cache_stats =
  st_hits :: nat
  st_misses :: nat
  st_coalesced :: nat
  st_staleLoadsDiscarded :: nat
  st_localInvalidations :: nat
  st_remoteInvalidations :: nat
  st_flushes :: nat

text \<open>Flights are objects shared by their waiters: \<open>cs_flights\<close> holds those still running.\<close>

record 'v cache_state =
  cs_cache :: "(string \<times> 'v cache_entry) list"
  cs_inflight :: "string \<Rightarrow> nat option"
  cs_flights :: "nat \<Rightarrow> flight option"
  cs_next :: nat
  cs_urlIndex :: "string \<Rightarrow> string list option"
  cs_hostIndex :: "string \<Rightarrow> string list option"
  cs_stats :: cache_stats

definition zero_stats :: cache_stats where
  "zero_stats = \<lparr>st_hits = 0, st_misses = 0, st_coalesced = 0, st_staleLoadsDiscarded = 0, st_localInvalidations = 0,
     st_remoteInvalidations = 0, st_flushes = 0\<rparr>"

definition empty_cache :: "'v cache_state" where
  "empty_cache = \<lparr>cs_cache = [], cs_inflight = Map.empty, cs_flights = Map.empty, cs_next = 0,
     cs_urlIndex = Map.empty, cs_hostIndex = Map.empty, cs_stats = zero_stats\<rparr>"

section \<open>Configuration\<close>

text \<open>\<open>envMs\<close>: the variable's number when it is finite and in range, rounded down.\<close>

definition env_ms :: "string option \<Rightarrow> int \<Rightarrow> int \<Rightarrow> int \<Rightarrow> int" where
  "env_ms var fallback mn mx = (case (case var of None \<Rightarrow> None | Some s \<Rightarrow> js_number s) of
       None \<Rightarrow> fallback
     | Some raw \<Rightarrow> if of_int mn \<le> raw \<and> raw \<le> of_int mx then \<lfloor>raw\<rfloor> else fallback)"

record cache_config =
  cc_shortTtl :: int
  cc_busTtl :: int
  cc_maxEntries :: nat

definition cache_config_of :: "(string \<Rightarrow> string option) \<Rightarrow> cache_config" where
  "cache_config_of env =
     \<lparr>cc_shortTtl = env_ms (env ''QL_LINK_CACHE_TTL_MS'') 5000 500 60000,
      cc_busTtl = env_ms (env ''QL_LINK_CACHE_BUS_TTL_MS'') 60000 1000 900000,
      cc_maxEntries = nat (env_ms (env ''QL_LINK_CACHE_MAX_ENTRIES'') 10000 100 1000000)\<rparr>"

definition code_key :: "string \<Rightarrow> string" where "code_key shortCode = ''code:'' @ shortCode"
definition domain_key :: "string \<Rightarrow> string \<Rightarrow> string" where "domain_key host path = ''domain:'' @ host @ '':'' @ path"
definition revision_key :: "string \<Rightarrow> string" where "revision_key urlId = ''rev:'' @ urlId"

text \<open>What a write reads from its surroundings: configuration, bus, clock and \<open>Math.random()\<close>.\<close>

record write_env =
  we_config :: cache_config
  we_connected :: bool
  we_now :: js_date
  we_random :: rat

definition next_expiry :: "write_env \<Rightarrow> js_date option \<Rightarrow> js_date" where
  "next_expiry env notAfter =
     (let base = (if we_connected env then cc_busTtl (we_config env) else cc_shortTtl (we_config env));
          expiry = we_now env + base + \<lfloor>we_random env * of_int base * (3 / 10)\<rfloor>
      in (case notAfter of None \<Rightarrow> expiry | Some t \<Rightarrow> min expiry t))"

section \<open>Entries and indexes\<close>

definition add_to_index :: "(string \<Rightarrow> string list option) \<Rightarrow> string option \<Rightarrow> string \<Rightarrow> (string \<Rightarrow> string list option)" where
  "add_to_index index ident key =
     (if \<not> str_truthy ident then index
      else (let keys = coalesce (index (the ident)) []
            in index(the ident \<mapsto> (if key \<in> set keys then keys else keys @ [key]))))"

definition remove_from_index :: "(string \<Rightarrow> string list option) \<Rightarrow> string option \<Rightarrow> string \<Rightarrow> (string \<Rightarrow> string list option)" where
  "remove_from_index index ident key =
     (if \<not> str_truthy ident then index
      else (case index (the ident) of
          None \<Rightarrow> index
        | Some keys \<Rightarrow> (let keys' = filter (\<lambda>k. k \<noteq> key) keys
                       in index(the ident := (if keys' = [] then None else Some keys')))))"

definition cache_get :: "'v cache_state \<Rightarrow> string \<Rightarrow> 'v cache_entry option" where
  "cache_get st key = map_of (cs_cache st) key"

definition drop_entry :: "'v cache_state \<Rightarrow> string \<Rightarrow> 'v cache_state" where
  "drop_entry st key = (case cache_get st key of
       None \<Rightarrow> st
     | Some entry \<Rightarrow> st\<lparr>cs_cache := filter (\<lambda>p. fst p \<noteq> key) (cs_cache st),
         cs_urlIndex := remove_from_index (cs_urlIndex st) (ce_urlId entry) key,
         cs_hostIndex := remove_from_index (cs_hostIndex st) (ce_host entry) key\<rparr>)"

definition mark_stale :: "(nat \<Rightarrow> flight option) \<Rightarrow> nat \<Rightarrow> (nat \<Rightarrow> flight option)" where
  "mark_stale fls fid = fls(fid := map_option (\<lambda>f. f\<lparr>fl_stale := True\<rparr>) (fls fid))"

definition detach_flight :: "'v cache_state \<Rightarrow> string \<Rightarrow> 'v cache_state" where
  "detach_flight st key = (case cs_inflight st key of
       None \<Rightarrow> st
     | Some fid \<Rightarrow> st\<lparr>cs_flights := mark_stale (cs_flights st) fid, cs_inflight := (cs_inflight st)(key := None)\<rparr>)"

definition delete_key :: "'v cache_state \<Rightarrow> string \<Rightarrow> 'v cache_state" where
  "delete_key st key = detach_flight (drop_entry st key) key"

definition delete_keys :: "'v cache_state \<Rightarrow> string list \<Rightarrow> 'v cache_state" where
  "delete_keys st keys = foldl delete_key st keys"

text \<open>Making room: expired entries first, then the oldest.\<close>

definition make_room :: "'v cache_state \<Rightarrow> write_env \<Rightarrow> 'v cache_state" where
  "make_room st env =
     (if length (cs_cache st) \<ge> cc_maxEntries (we_config env)
      then
        let st1 = delete_keys st (map fst (filter (\<lambda>(k, e). ce_expiresAt e \<le> we_now env) (cs_cache st)))
        in if length (cs_cache st1) \<ge> cc_maxEntries (we_config env)
           then (case cs_cache st1 of [] \<Rightarrow> st1 | p # _ \<Rightarrow> delete_key st1 (fst p))
           else st1
      else st)"

definition set_cache :: "'v cache_state \<Rightarrow> write_env \<Rightarrow> string \<Rightarrow> 'v load_result \<Rightarrow> 'v cache_state" where
  "set_cache st env key r =
     (let st1 = (if cache_get st key \<noteq> None then delete_key st key else make_room st env)
      in st1\<lparr>cs_cache := cs_cache st1 @
              [(key, \<lparr>ce_value = lr_value r, ce_expiresAt = next_expiry env (lr_notAfter r),
                      ce_urlId = lr_urlId r, ce_host = lr_host r\<rparr>)],
             cs_urlIndex := add_to_index (cs_urlIndex st1) (lr_urlId r) key,
             cs_hostIndex := add_to_index (cs_hostIndex st1) (lr_host r) key\<rparr>)"

section \<open>Reads and loads\<close>

datatype 'v read_result = Hit 'v | Joined nat | Started nat

definition count_hit :: "'v cache_state \<Rightarrow> 'v cache_state" where
  "count_hit st = st\<lparr>cs_stats := (cs_stats st)\<lparr>st_hits := st_hits (cs_stats st) + 1\<rparr>\<rparr>"

definition count_coalesced :: "'v cache_state \<Rightarrow> 'v cache_state" where
  "count_coalesced st = st\<lparr>cs_stats := (cs_stats st)\<lparr>st_coalesced := st_coalesced (cs_stats st) + 1\<rparr>\<rparr>"

definition start_flight :: "'v cache_state \<Rightarrow> string \<Rightarrow> 'v cache_state" where
  "start_flight st key = st\<lparr>cs_stats := (cs_stats st)\<lparr>st_misses := st_misses (cs_stats st) + 1\<rparr>,
     cs_flights := (cs_flights st)(cs_next st \<mapsto> \<lparr>fl_key = key, fl_stale = False\<rparr>),
     cs_inflight := (cs_inflight st)(key \<mapsto> cs_next st), cs_next := cs_next st + 1\<rparr>"

definition read_begin :: "'v cache_state \<Rightarrow> string \<Rightarrow> js_date \<Rightarrow> 'v cache_state \<times> 'v read_result" where
  "read_begin st key now = (case (case cache_get st key of
         Some e \<Rightarrow> if ce_expiresAt e > now then Some (ce_value e) else None | None \<Rightarrow> None) of
       Some v \<Rightarrow> (count_hit st, Hit v)
     | None \<Rightarrow> (case cs_inflight st key of
         Some fid \<Rightarrow> (count_coalesced st, Joined fid)
       | None \<Rightarrow> (start_flight st key, Started (cs_next st))))"

text \<open>The \<open>finally\<close> of a load; the flight object is dropped with its last reference.\<close>

definition finish_flight :: "'v cache_state \<Rightarrow> nat \<Rightarrow> string \<Rightarrow> 'v cache_state" where
  "finish_flight st fid key =
     st\<lparr>cs_inflight := (if cs_inflight st key = Some fid then (cs_inflight st)(key := None) else cs_inflight st),
        cs_flights := (cs_flights st)(fid := None)\<rparr>"

definition load_done :: "'v cache_state \<Rightarrow> write_env \<Rightarrow> nat \<Rightarrow> 'v load_result \<Rightarrow> 'v cache_state" where
  "load_done st env fid r = (case cs_flights st fid of
       None \<Rightarrow> st
     | Some f \<Rightarrow>
        (let st1 = (if fl_stale f
            then st\<lparr>cs_stats := (cs_stats st)\<lparr>st_staleLoadsDiscarded := st_staleLoadsDiscarded (cs_stats st) + 1\<rparr>\<rparr>
            else set_cache st env (fl_key f) r)
         in finish_flight st1 fid (fl_key f)))"

definition load_failed :: "'v cache_state \<Rightarrow> nat \<Rightarrow> 'v cache_state" where
  "load_failed st fid = (case cs_flights st fid of None \<Rightarrow> st | Some f \<Rightarrow> finish_flight st fid (fl_key f))"

section \<open>Eviction\<close>

definition flush_all :: "'v cache_state \<Rightarrow> 'v cache_state" where
  "flush_all st = st\<lparr>cs_stats := (cs_stats st)\<lparr>st_flushes := st_flushes (cs_stats st) + 1\<rparr>,
     cs_cache := [], cs_urlIndex := Map.empty, cs_hostIndex := Map.empty,
     cs_flights := (\<lambda>fid. case cs_flights st fid of None \<Rightarrow> None
       | Some f \<Rightarrow> Some (if cs_inflight st (fl_key f) = Some fid then f\<lparr>fl_stale := True\<rparr> else f)),
     cs_inflight := Map.empty\<rparr>"

definition evict_id :: "'v cache_state \<Rightarrow> string \<Rightarrow> 'v cache_state" where
  "evict_id st ident = (let st1 = delete_key st (revision_key ident)
     in delete_keys st1 (coalesce (cs_urlIndex st1 ident) []))"

definition evict_host :: "'v cache_state \<Rightarrow> string \<Rightarrow> 'v cache_state" where
  "evict_host st host = delete_keys st (coalesce (cs_hostIndex st host) [])"

definition evict_local :: "'v cache_state \<Rightarrow> targets \<Rightarrow> 'v cache_state" where
  "evict_local st t =
     (if tg_all t then flush_all st
      else foldl evict_host (foldl evict_id
        (delete_keys st (map code_key (coalesce (tg_codes t) []))) (coalesce (tg_ids t) [])) (coalesce (tg_hosts t) []))"

definition invalidate_local :: "'v cache_state \<Rightarrow> targets \<Rightarrow> 'v cache_state" where
  "invalidate_local st t =
     evict_local (st\<lparr>cs_stats := (cs_stats st)\<lparr>st_localInvalidations := st_localInvalidations (cs_stats st) + 1\<rparr>\<rparr>) t"

definition on_message :: "'v cache_state \<Rightarrow> targets \<Rightarrow> 'v cache_state" where
  "on_message st t =
     evict_local (st\<lparr>cs_stats := (cs_stats st)\<lparr>st_remoteInvalidations := st_remoteInvalidations (cs_stats st) + 1\<rparr>\<rparr>) t"

text \<open>The targets of \<open>invalidateDomain\<close>, \<open>invalidateLink\<close> and \<open>invalidateLinks\<close>.\<close>

definition domain_targets :: "string \<Rightarrow> targets" where
  "domain_targets host = \<lparr>tg_codes = None, tg_ids = None, tg_hosts = Some [host], tg_all = False\<rparr>"

definition link_targets :: "string \<Rightarrow> string option \<Rightarrow> targets" where
  "link_targets shortCode urlId = \<lparr>tg_codes = Some [shortCode],
     tg_ids = Some (if str_truthy urlId then [the urlId] else []), tg_hosts = None, tg_all = False\<rparr>"

definition links_targets :: "(string option \<times> string option) list \<Rightarrow> targets option" where
  "links_targets links =
     (if links = [] then None
      else Some \<lparr>tg_codes = Some (map (\<lambda>l. the (fst l)) (filter (\<lambda>l. str_truthy (fst l)) links)),
                 tg_ids = Some (map (\<lambda>l. the (snd l)) (filter (\<lambda>l. str_truthy (snd l)) links)),
                 tg_hosts = None, tg_all = False\<rparr>)"

section \<open>The contract of a store that evicts\<close>

text \<open>
  What the readers of a bounded cache rely on: a stored value is found, an eviction removes
  exactly its key, and storing may drop other entries but never changes them.
\<close>

locale evicting_store =
  fixes lookup :: "'s \<Rightarrow> 'k \<Rightarrow> 'e option"
    and store :: "'s \<Rightarrow> 'k \<Rightarrow> 'x \<Rightarrow> 's"
    and evict :: "'s \<Rightarrow> 'k \<Rightarrow> 's"
    and stored :: "'x \<Rightarrow> 'e"
  assumes lookup_store: "lookup (store s k x) k = Some (stored x)"
    and lookup_store_other: "j \<noteq> k \<Longrightarrow> lookup (store s k x) j = None \<or> lookup (store s k x) j = lookup s j"
    and lookup_evict: "lookup (evict s k) j = (if j = k then None else lookup s j)"
begin

lemma lookup_evicts: "lookup (foldl evict s ks) j = (if j \<in> set ks then None else lookup s j)"
  by (induction ks arbitrary: s) (auto simp: lookup_evict)

lemma store_agrees:
  assumes "\<And>j e. lookup s j = Some e \<Longrightarrow> P j e" and "P k (stored x)" and "lookup (store s k x) j = Some e"
  shows "P j e"
  using assms lookup_store [of s k x] lookup_store_other [of j k s x] by (cases "j = k") auto

lemma evict_agrees:
  assumes "\<And>j e. lookup s j = Some e \<Longrightarrow> j \<notin> D \<Longrightarrow> P j e" and "lookup (foldl evict s ks) j = Some e" and "j \<notin> D - set ks"
  shows "P j e"
  using assms lookup_evicts [of s ks j] by (auto split: if_splits)

end

lemma map_of_filter_key: "map_of (filter (\<lambda>p. fst p \<noteq> k) ps) j = (if j = k then None else map_of ps j)"
  by (induction ps) auto

lemma cache_get_drop [simp]: "cache_get (drop_entry st k) j = (if j = k then None else cache_get st j)"
  by (auto simp: drop_entry_def cache_get_def map_of_filter_key split: option.splits)

lemma cache_get_detach [simp]: "cache_get (detach_flight st k) = cache_get st"
  by (rule ext) (simp add: detach_flight_def cache_get_def split: option.splits)

lemma cache_get_delete: "cache_get (delete_key st k) j = (if j = k then None else cache_get st j)"
  by (simp add: delete_key_def)

lemma cache_get_deletes: "cache_get (delete_keys st ks) j = (if j \<in> set ks then None else cache_get st j)"
  by (induction ks arbitrary: st) (auto simp: delete_keys_def cache_get_delete)

lemma cache_get_make_room: "cache_get (make_room st env) j = None \<or> cache_get (make_room st env) j = cache_get st j"
  by (auto simp: make_room_def Let_def cache_get_deletes cache_get_delete split: list.splits)

lemma cache_get_set:
  "cache_get (set_cache st env k r) k = Some \<lparr>ce_value = lr_value r, ce_expiresAt = next_expiry env (lr_notAfter r),
      ce_urlId = lr_urlId r, ce_host = lr_host r\<rparr> \<or> cache_get (make_room st env) k \<noteq> None"
  by (auto simp: set_cache_def Let_def cache_get_def map_add_def cache_get_delete [unfolded cache_get_def] split: option.splits)

definition room_for :: "'v cache_state \<Rightarrow> write_env \<Rightarrow> string \<Rightarrow> 'v cache_state" where
  "room_for st env key = (if cache_get st key \<noteq> None then delete_key st key else make_room st env)"

lemma cache_get_room_for:
  "cache_get (room_for st env k) k = None"
  "cache_get (room_for st env k) j = None \<or> cache_get (room_for st env k) j = cache_get st j"
  using cache_get_make_room [of st env] by (auto simp: room_for_def cache_get_delete) metis+

lemma set_cache_room:
  "set_cache st env key r = (room_for st env key)\<lparr>
     cs_cache := cs_cache (room_for st env key) @
       [(key, \<lparr>ce_value = lr_value r, ce_expiresAt = next_expiry env (lr_notAfter r), ce_urlId = lr_urlId r, ce_host = lr_host r\<rparr>)],
     cs_urlIndex := add_to_index (cs_urlIndex (room_for st env key)) (lr_urlId r) key,
     cs_hostIndex := add_to_index (cs_hostIndex (room_for st env key)) (lr_host r) key\<rparr>"
  by (simp add: set_cache_def room_for_def Let_def)

lemma cache_get_set_cache:
  "cache_get (set_cache st env k r) j =
    (if j = k then Some \<lparr>ce_value = lr_value r, ce_expiresAt = next_expiry env (lr_notAfter r), ce_urlId = lr_urlId r, ce_host = lr_host r\<rparr>
     else cache_get (room_for st env k) j)"
  using cache_get_room_for(1) [of st env k]
  by (auto simp: set_cache_room cache_get_def map_add_def split: option.splits)

text \<open>The entry a load is stored as.\<close>

definition entry_of :: "write_env \<Rightarrow> 'v load_result \<Rightarrow> 'v cache_entry" where
  "entry_of env r = \<lparr>ce_value = lr_value r, ce_expiresAt = next_expiry env (lr_notAfter r), ce_urlId = lr_urlId r, ce_host = lr_host r\<rparr>"

interpretation link_cache: evicting_store cache_get "\<lambda>st k r. set_cache st env k r" delete_key "entry_of env" for env
proof (unfold_locales, goal_cases)
  case (1 s k x)
  then show ?case by (simp add: cache_get_set_cache entry_of_def)
next
  case (2 j k s x)
  then show ?case using cache_get_room_for(2) [of s env k j] by (auto simp: cache_get_set_cache)
next
  case (3 s k j)
  then show ?case by (simp add: cache_get_delete)
qed

section \<open>Flights\<close>

text \<open>The registered flights are exactly the running ones that are not stale.\<close>

definition flights_ok :: "'v cache_state \<Rightarrow> bool" where
  "flights_ok st \<longleftrightarrow> (\<forall>k fid. cs_inflight st k = Some fid \<longrightarrow> (\<exists>f. cs_flights st fid = Some f \<and> fl_key f = k \<and> \<not> fl_stale f))
     \<and> (\<forall>fid f. cs_flights st fid = Some f \<longrightarrow> \<not> fl_stale f \<longrightarrow> cs_inflight st (fl_key f) = Some fid)
     \<and> (\<forall>fid \<ge> cs_next st. cs_flights st fid = None)"

text \<open>The keys with a running load whose result will be written.\<close>

definition live_keys :: "'v cache_state \<Rightarrow> string set" where
  "live_keys st = {fl_key f | fid f. cs_flights st fid = Some f \<and> \<not> fl_stale f}"

lemma flights_drop [simp]:
  "cs_flights (drop_entry st k) = cs_flights st" "cs_inflight (drop_entry st k) = cs_inflight st" "cs_next (drop_entry st k) = cs_next st"
  by (simp_all add: drop_entry_def split: option.splits)

lemma flights_ok_detach:
  assumes "flights_ok st"
  shows "flights_ok (detach_flight st k)"
proof (cases "cs_inflight st k")
  case None
  then show ?thesis using assms by (simp add: detach_flight_def)
next
  case (Some fid)
  then obtain f where f: "cs_flights st fid = Some f" "fl_key f = k" using assms by (auto simp: flights_ok_def)
  have d: "cs_inflight (detach_flight st k) = (cs_inflight st)(k := None)"
    "cs_flights (detach_flight st k) = (cs_flights st)(fid \<mapsto> f\<lparr>fl_stale := True\<rparr>)" "cs_next (detach_flight st k) = cs_next st"
    using Some f by (auto simp: detach_flight_def mark_stale_def)
  show ?thesis using assms Some f unfolding flights_ok_def d by (fastforce split: if_splits)
qed

lemma flights_ok_delete: "flights_ok st \<Longrightarrow> flights_ok (delete_key st k)"
  unfolding delete_key_def by (rule flights_ok_detach) (simp add: flights_ok_def)

lemma flights_ok_deletes: "flights_ok st \<Longrightarrow> flights_ok (delete_keys st ks)"
  by (induction ks arbitrary: st) (auto simp: delete_keys_def flights_ok_delete)

lemma live_detach:
  assumes "flights_ok st"
  shows "live_keys (detach_flight st k) = live_keys st - {k}"
proof (cases "cs_inflight st k")
  case None
  then have "k \<notin> live_keys st" using assms by (force simp: flights_ok_def live_keys_def)
  then show ?thesis using None by (simp add: detach_flight_def)
next
  case (Some fid)
  then obtain f where f: "cs_flights st fid = Some f" "fl_key f = k" using assms by (auto simp: flights_ok_def)
  have d: "cs_flights (detach_flight st k) = (cs_flights st)(fid \<mapsto> f\<lparr>fl_stale := True\<rparr>)"
    using Some f by (auto simp: detach_flight_def mark_stale_def)
  have other: "fid' = fid" if "cs_flights st fid' = Some g" "fl_key g = k" "\<not> fl_stale g" for fid' g
    using assms that Some unfolding flights_ok_def by (metis option.inject)
  show ?thesis unfolding live_keys_def d using f other by (auto split: if_splits) (metis option.inject)
qed

lemma live_delete: "flights_ok st \<Longrightarrow> live_keys (delete_key st k) = live_keys st - {k}"
  unfolding delete_key_def by (subst live_detach) (auto simp: flights_ok_def live_keys_def)

lemma live_deletes: "flights_ok st \<Longrightarrow> live_keys (delete_keys st ks) = live_keys st - set ks"
  by (induction ks arbitrary: st) (auto simp: delete_keys_def live_delete flights_ok_delete)

lemma flights_ok_make_room: "flights_ok st \<Longrightarrow> flights_ok (make_room st env)"
  by (auto simp: make_room_def Let_def flights_ok_deletes flights_ok_delete split: list.splits)

lemma flights_ok_set_cache:
  assumes "flights_ok st"
  shows "flights_ok (set_cache st env k r)"
proof -
  have "flights_ok (room_for st env k)" using assms by (simp add: room_for_def flights_ok_delete flights_ok_make_room)
  then show ?thesis by (simp add: set_cache_room flights_ok_def)
qed

lemma flights_ok_finish: "flights_ok st \<Longrightarrow> (\<exists>f. cs_flights st fid = Some f \<and> fl_key f = k) \<Longrightarrow> flights_ok (finish_flight st fid k)"
  unfolding flights_ok_def finish_flight_def by (fastforce split: if_splits)

lemma flights_ok_load_done:
  assumes "flights_ok st"
  shows "flights_ok (load_done st env fid r)"
proof (cases "cs_flights st fid")
  case (Some f)
  have a: "\<exists>g. cs_flights (set_cache st env k r) fid = Some g \<and> fl_key g = fl_key f" for k
  proof -
    have m: "\<exists>g. cs_flights (delete_key x j) fid = Some g \<and> fl_key g = fl_key f"
      if "\<exists>g. cs_flights x fid = Some g \<and> fl_key g = fl_key f" for x :: "'a cache_state" and j
      using that by (auto simp: delete_key_def detach_flight_def mark_stale_def split: option.splits)
    have ms: "\<exists>g. cs_flights (delete_keys x js) fid = Some g \<and> fl_key g = fl_key f"
      if "\<exists>g. cs_flights x fid = Some g \<and> fl_key g = fl_key f" for x :: "'a cache_state" and js
      using that unfolding delete_keys_def by (induction js arbitrary: x) (simp_all add: m)
    have "\<exists>g. cs_flights (room_for st env k) fid = Some g \<and> fl_key g = fl_key f"
      using Some m ms by (auto simp: room_for_def make_room_def Let_def split: list.splits)
    then show ?thesis by (simp add: set_cache_room)
  qed
  show ?thesis
    using assms Some a flights_ok_set_cache
    by (auto simp: load_done_def Let_def intro!: flights_ok_finish) (simp add: flights_ok_def)
qed (simp add: load_done_def assms)

lemma flights_ok_load_failed: "flights_ok st \<Longrightarrow> flights_ok (load_failed st fid)"
  by (auto simp: load_failed_def flights_ok_finish split: option.splits)

lemma flights_ok_start:
  assumes "flights_ok st" "cs_inflight st k = None"
  shows "flights_ok (start_flight st k)"
  using assms unfolding flights_ok_def start_flight_def
  by (auto split: if_splits) (metis option.distinct(1) order_refl)+

lemma flights_ok_read:
  assumes "flights_ok st" "read_begin st k now = (st', r)"
  shows "flights_ok st'"
proof -
  have "flights_ok (count_hit st)" "flights_ok (count_coalesced st)"
    using assms(1) by (simp_all add: flights_ok_def count_hit_def count_coalesced_def)
  moreover have "flights_ok (start_flight st k)" if "cs_inflight st k = None"
    by (rule flights_ok_start [OF assms(1) that])
  ultimately show ?thesis using assms(2) by (auto simp: read_begin_def split: option.splits)
qed

section \<open>Indexes\<close>

text \<open>An index lists, under each identifier, exactly the cached keys that carry it.\<close>

definition index_keys :: "(string \<Rightarrow> string list option) \<Rightarrow> string \<Rightarrow> string set" where
  "index_keys index i = set (coalesce (index i) [])"

definition index_wf :: "(string \<Rightarrow> string list option) \<Rightarrow> bool" where
  "index_wf index \<longleftrightarrow> (\<forall>i ks. index i = Some ks \<longrightarrow> ks \<noteq> [] \<and> distinct ks)"

definition index_ok :: "('v cache_entry \<Rightarrow> string option) \<Rightarrow> (string \<Rightarrow> string list option) \<Rightarrow> (string \<Rightarrow> 'v cache_entry option) \<Rightarrow> bool" where
  "index_ok sel index look \<longleftrightarrow> index_wf index \<and>
     (\<forall>i k. k \<in> index_keys index i \<longleftrightarrow> i \<noteq> [] \<and> (\<exists>e. look k = Some e \<and> sel e = Some i))"

lemma index_keys_upd: "index_keys (index(i := x)) j = (if j = i then set (coalesce x []) else index_keys index j)"
  by (simp add: index_keys_def)

lemma index_keys_remove:
  "index_keys (remove_from_index index ident key) j =
    (if ident = Some j \<and> j \<noteq> [] then index_keys index j - {key} else index_keys index j)"
proof (cases "str_truthy ident")
  case False
  then show ?thesis by (auto simp: remove_from_index_def str_truthy_iff)
next
  case True
  then obtain i where i: "ident = Some i" "i \<noteq> []" by (auto simp: str_truthy_iff)
  show ?thesis
  proof (cases "index i")
    case None
    then show ?thesis using True i by (auto simp: remove_from_index_def index_keys_def coalesce_def)
  next
    case (Some ks)
    have "set (coalesce (if filter (\<lambda>k. k \<noteq> key) ks = [] then None else Some (filter (\<lambda>k. k \<noteq> key) ks)) []) = set ks - {key}"
      by (cases "filter (\<lambda>k. k \<noteq> key) ks = []") (auto simp: coalesce_def filter_empty_conv)
    moreover have "index_keys index i = set ks" using Some by (simp add: index_keys_def coalesce_def)
    ultimately show ?thesis using True i Some
      by (simp add: remove_from_index_def Let_def index_keys_upd)
  qed
qed

lemma index_wf_remove: "index_wf index \<Longrightarrow> index_wf (remove_from_index index ident key)"
  by (auto simp: index_wf_def remove_from_index_def Let_def split: option.splits if_splits)

lemma index_keys_add:
  "index_keys (add_to_index index ident key) j =
    (if ident = Some j \<and> j \<noteq> [] then insert key (index_keys index j) else index_keys index j)"
  by (auto simp: add_to_index_def str_truthy_iff Let_def index_keys_upd coalesce_def index_keys_def split: if_splits)

lemma index_wf_add:
  assumes "index_wf index"
  shows "index_wf (add_to_index index ident key)"
proof (cases "str_truthy ident")
  case True
  have "distinct (coalesce (index (the ident)) [])" using assms by (auto simp: index_wf_def coalesce_def split: option.splits)
  moreover have "coalesce (index (the ident)) [] = [] \<Longrightarrow> key \<notin> set (coalesce (index (the ident)) [])" by simp
  ultimately show ?thesis using True assms by (auto simp: index_wf_def add_to_index_def Let_def)
qed (use assms in \<open>simp add: add_to_index_def\<close>)

lemma index_ok_remove:
  assumes "index_ok sel index look" "look key = Some e"
  shows "index_ok sel (remove_from_index index (sel e) key) (look(key := None))"
  using assms unfolding index_ok_def by (auto simp: index_keys_remove index_wf_remove)

lemma index_ok_add:
  assumes "index_ok sel index look" "look key = None"
  shows "index_ok sel (add_to_index index (sel e) key) (look(key \<mapsto> e))"
  using assms unfolding index_ok_def by (auto simp: index_keys_add index_wf_add)

definition cache_ok :: "'v cache_state \<Rightarrow> bool" where
  "cache_ok st \<longleftrightarrow> distinct (map fst (cs_cache st)) \<and> index_ok ce_urlId (cs_urlIndex st) (cache_get st)
     \<and> index_ok ce_host (cs_hostIndex st) (cache_get st)"

lemma cache_get_fun: "cache_get (drop_entry st k) = (cache_get st)(k := None)"
  by (rule ext) simp

lemma cache_ok_drop:
  assumes "cache_ok st"
  shows "cache_ok (drop_entry st k)"
proof (cases "cache_get st k")
  case None
  then show ?thesis using assms by (simp add: drop_entry_def)
next
  case (Some e)
  have f: "distinct (map fst (filter (\<lambda>p. fst p \<noteq> k) xs))" if "distinct (map fst xs)" for xs :: "(string \<times> 'a cache_entry) list"
    using that by (simp add: distinct_map_filter)
  have "cs_urlIndex (drop_entry st k) = remove_from_index (cs_urlIndex st) (ce_urlId e) k"
    "cs_hostIndex (drop_entry st k) = remove_from_index (cs_hostIndex st) (ce_host e) k"
    "cs_cache (drop_entry st k) = filter (\<lambda>p. fst p \<noteq> k) (cs_cache st)"
    using Some by (simp_all add: drop_entry_def)
  then show ?thesis
    using assms Some f index_ok_remove [of ce_urlId "cs_urlIndex st" "cache_get st" k e]
      index_ok_remove [of ce_host "cs_hostIndex st" "cache_get st" k e]
    by (simp add: cache_ok_def cache_get_fun)
qed

lemma cache_ok_same:
  assumes "cs_cache st' = cs_cache st" "cs_urlIndex st' = cs_urlIndex st" "cs_hostIndex st' = cs_hostIndex st"
  shows "cache_ok st' = cache_ok st"
proof -
  have "cache_get st' = cache_get st" by (rule ext) (simp add: cache_get_def assms)
  then show ?thesis by (simp add: cache_ok_def assms)
qed

lemma detach_same [simp]:
  "cs_cache (detach_flight st k) = cs_cache st" "cs_urlIndex (detach_flight st k) = cs_urlIndex st"
  "cs_hostIndex (detach_flight st k) = cs_hostIndex st"
  by (simp_all add: detach_flight_def split: option.splits)

lemma cache_ok_delete: "cache_ok st \<Longrightarrow> cache_ok (delete_key st k)"
  unfolding delete_key_def using cache_ok_drop cache_ok_same [of "detach_flight (drop_entry st k) k" "drop_entry st k" for k] by simp

lemma cache_ok_deletes: "cache_ok st \<Longrightarrow> cache_ok (delete_keys st ks)"
  by (induction ks arbitrary: st) (auto simp: delete_keys_def cache_ok_delete)

lemma cache_ok_room: "cache_ok st \<Longrightarrow> cache_ok (room_for st env k)"
  by (auto simp: room_for_def make_room_def Let_def cache_ok_delete cache_ok_deletes split: list.splits)

lemma cache_ok_set_cache:
  assumes "cache_ok st"
  shows "cache_ok (set_cache st env k r)"
proof -
  let ?st = "room_for st env k"
  let ?e = "\<lparr>ce_value = lr_value r, ce_expiresAt = next_expiry env (lr_notAfter r), ce_urlId = lr_urlId r, ce_host = lr_host r\<rparr>"
  have ok: "cache_ok ?st" by (rule cache_ok_room [OF assms])
  have none: "cache_get ?st k = None" by (rule cache_get_room_for(1))
  have look: "cache_get (set_cache st env k r) = (cache_get ?st)(k \<mapsto> ?e)"
    by (rule ext) (simp add: cache_get_set_cache)
  have "k \<notin> fst ` set (cs_cache ?st)" using none by (simp add: cache_get_def map_of_eq_None_iff)
  moreover have "index_ok ce_urlId (add_to_index (cs_urlIndex ?st) (ce_urlId ?e) k) ((cache_get ?st)(k \<mapsto> ?e))"
    using ok none by (intro index_ok_add) (auto simp: cache_ok_def)
  moreover have "index_ok ce_host (add_to_index (cs_hostIndex ?st) (ce_host ?e) k) ((cache_get ?st)(k \<mapsto> ?e))"
    using ok none by (intro index_ok_add) (auto simp: cache_ok_def)
  ultimately show ?thesis using ok unfolding cache_ok_def look by (simp add: set_cache_room)
qed

lemma length_delete_le: "length (cs_cache (delete_key st k)) \<le> length (cs_cache st)"
  by (simp add: delete_key_def drop_entry_def split: option.splits)

lemma length_deletes_le: "length (cs_cache (delete_keys st ks)) \<le> length (cs_cache st)"
  by (induction ks arbitrary: st) (auto simp: delete_keys_def intro: order_trans length_delete_le)

lemma length_delete_present:
  assumes "cache_get st k \<noteq> None"
  shows "length (cs_cache (delete_key st k)) < length (cs_cache st)"
proof -
  obtain e where e: "(k, e) \<in> set (cs_cache st)" using assms map_of_SomeD by (fastforce simp: cache_get_def)
  have "length (filter (\<lambda>p. fst p \<noteq> k) (cs_cache st)) < length (cs_cache st)"
    using e by (intro length_filter_less [of "(k, e)"]) auto
  then show ?thesis using assms by (auto simp: delete_key_def drop_entry_def)
qed

lemma length_set_cache:
  assumes "length (cs_cache st) \<le> cc_maxEntries (we_config env)" "0 < cc_maxEntries (we_config env)"
  shows "length (cs_cache (set_cache st env k r)) \<le> cc_maxEntries (we_config env)"
proof -
  have "length (cs_cache (room_for st env k)) < cc_maxEntries (we_config env)"
  proof (cases "cache_get st k \<noteq> None")
    case True
    then show ?thesis using assms length_delete_present [OF True] by (simp add: room_for_def)
  next
    case False
    have first: "length (cs_cache (delete_key x (fst p))) < length (cs_cache x)" if "cs_cache x = p # ps" for x :: "'a cache_state" and p ps
      using that by (intro length_delete_present) (simp add: cache_get_def)
    define st1 where "st1 = delete_keys st (map fst (filter (\<lambda>(k, e). ce_expiresAt e \<le> we_now env) (cs_cache st)))"
    have "length (cs_cache st1) \<le> length (cs_cache st)" unfolding st1_def by (rule length_deletes_le)
    then show ?thesis
      using assms False first [of st1] by (auto simp: room_for_def make_room_def Let_def st1_def [symmetric] split: list.splits)
  qed
  then show ?thesis by (simp add: set_cache_room)
qed

section \<open>What an eviction reaches\<close>

text \<open>
  Every operation that only removes is described by the keys it removes: the entries left are
  those outside the set, and so are the loads whose result will be written.
\<close>

definition removes :: "string set \<Rightarrow> 'v cache_state \<Rightarrow> 'v cache_state \<Rightarrow> bool" where
  "removes K st st' \<longleftrightarrow> (\<forall>k. cache_get st' k = (if k \<in> K then None else cache_get st k))
     \<and> (\<forall>fid f. cs_flights st' fid = Some f \<and> \<not> fl_stale f \<longleftrightarrow>
           cs_flights st fid = Some f \<and> \<not> fl_stale f \<and> fl_key f \<notin> K)
     \<and> (\<forall>fid. cs_flights st' fid = None \<longleftrightarrow> cs_flights st fid = None)
     \<and> (\<forall>fid. map_option fl_key (cs_flights st' fid) = map_option fl_key (cs_flights st fid))
     \<and> cs_next st' = cs_next st"

lemma removes_refl: "removes {} st st"
  by (simp add: removes_def)

lemma removes_trans: "removes K st st1 \<Longrightarrow> removes K' st1 st2 \<Longrightarrow> removes (K \<union> K') st st2"
  unfolding removes_def by auto

lemma removes_delete:
  assumes "flights_ok st"
  shows "removes {k} st (delete_key st k)"
proof (cases "cs_inflight st k")
  case None
  then have h: "\<And>fid f. cs_flights st fid = Some f \<Longrightarrow> \<not> fl_stale f \<Longrightarrow> fl_key f \<noteq> k"
    using assms by (force simp: flights_ok_def)
  have e: "cs_flights (delete_key st k) = cs_flights st" "cs_next (delete_key st k) = cs_next st"
    using None by (simp_all add: delete_key_def detach_flight_def)
  show ?thesis unfolding removes_def e cache_get_delete
  proof (intro conjI allI, goal_cases)
    case (2 fid f)
    show ?case using h [of fid f] by blast
  qed simp_all
next
  case (Some fid)
  then obtain f where f: "cs_flights st fid = Some f" "fl_key f = k" "\<not> fl_stale f" using assms by (auto simp: flights_ok_def)
  have d: "cs_flights (delete_key st k) = (cs_flights st)(fid \<mapsto> f\<lparr>fl_stale := True\<rparr>)" "cs_next (delete_key st k) = cs_next st"
    using Some f by (auto simp: delete_key_def detach_flight_def mark_stale_def)
  have other: "fid' = fid" if "cs_flights st fid' = Some g" "fl_key g = k" "\<not> fl_stale g" for fid' g
    using assms that Some unfolding flights_ok_def by (metis option.inject)
  show ?thesis unfolding removes_def d cache_get_delete
  proof (intro conjI allI, goal_cases)
    case (2 i g)
    show ?case using f other [of i g] by (cases "i = fid") auto
  qed (use f in auto)
qed

lemma removes_deletes: "flights_ok st \<Longrightarrow> removes (set ks) st (delete_keys st ks)"
proof (induction ks arbitrary: st)
  case (Cons k ks)
  have "removes ({k} \<union> set ks) st (delete_keys (delete_key st k) ks)"
    using removes_delete [OF Cons.prems] Cons.IH [OF flights_ok_delete [OF Cons.prems]] by (rule removes_trans)
  then show ?case by (simp add: delete_keys_def)
qed (simp add: delete_keys_def removes_refl)

lemma flights_ok_evict_id: "flights_ok st \<Longrightarrow> flights_ok (evict_id st i)"
  by (simp add: evict_id_def Let_def flights_ok_delete flights_ok_deletes)

lemma flights_ok_evict_host: "flights_ok st \<Longrightarrow> flights_ok (evict_host st h)"
  by (simp add: evict_host_def flights_ok_deletes)

lemma cache_ok_evict_id: "cache_ok st \<Longrightarrow> cache_ok (evict_id st i)"
  by (simp add: evict_id_def Let_def cache_ok_delete cache_ok_deletes)

lemma cache_ok_evict_host: "cache_ok st \<Longrightarrow> cache_ok (evict_host st h)"
  by (simp add: evict_host_def cache_ok_deletes)

text \<open>The cached keys that resolved to a link, and those read for a host.\<close>

definition keys_of_id :: "'v cache_state \<Rightarrow> string \<Rightarrow> string set" where
  "keys_of_id st i = {k. i \<noteq> [] \<and> (\<exists>e. cache_get st k = Some e \<and> ce_urlId e = Some i)}"

definition keys_of_host :: "'v cache_state \<Rightarrow> string \<Rightarrow> string set" where
  "keys_of_host st h = {k. h \<noteq> [] \<and> (\<exists>e. cache_get st k = Some e \<and> ce_host e = Some h)}"

lemma keys_of_removed:
  "removes K st st' \<Longrightarrow> keys_of_id st' i = keys_of_id st i - K" "removes K st st' \<Longrightarrow> keys_of_host st' h = keys_of_host st h - K"
  by (auto simp: removes_def keys_of_id_def keys_of_host_def)

lemma index_keys_cached:
  "cache_ok st \<Longrightarrow> set (coalesce (cs_urlIndex st i) []) = keys_of_id st i"
  "cache_ok st \<Longrightarrow> set (coalesce (cs_hostIndex st h) []) = keys_of_host st h"
  by (auto simp: cache_ok_def index_ok_def index_keys_def keys_of_id_def keys_of_host_def)

lemma removes_evict_id:
  assumes "flights_ok st" "cache_ok st"
  shows "removes ({revision_key i} \<union> keys_of_id st i) st (evict_id st i)"
proof -
  let ?st = "delete_key st (revision_key i)"
  have r: "removes {revision_key i} st ?st" by (rule removes_delete [OF assms(1)])
  have "set (coalesce (cs_urlIndex ?st i) []) = keys_of_id st i - {revision_key i}"
    using index_keys_cached(1) [OF cache_ok_delete [OF assms(2)]] keys_of_removed(1) [OF r] by simp
  then have "removes (keys_of_id st i - {revision_key i}) ?st (evict_id st i)"
    using removes_deletes [OF flights_ok_delete [OF assms(1)], of "coalesce (cs_urlIndex ?st i) []"]
    by (simp add: evict_id_def Let_def)
  from removes_trans [OF r this] show ?thesis by simp
qed

lemma removes_evict_host:
  assumes "flights_ok st" "cache_ok st"
  shows "removes (keys_of_host st h) st (evict_host st h)"
  using removes_deletes [OF assms(1), of "coalesce (cs_hostIndex st h) []"] index_keys_cached(2) [OF assms(2)]
  by (simp add: evict_host_def)

lemma removes_evict_ids:
  assumes "flights_ok st" "cache_ok st"
  shows "removes (\<Union>i \<in> set is. {revision_key i} \<union> keys_of_id st i) st (foldl evict_id st is)
    \<and> flights_ok (foldl evict_id st is) \<and> cache_ok (foldl evict_id st is)"
  using assms
proof (induction "is" arbitrary: st)
  case (Cons i "is")
  have r: "removes ({revision_key i} \<union> keys_of_id st i) st (evict_id st i)" using Cons.prems by (rule removes_evict_id)
  have ih: "removes (\<Union>j \<in> set is. {revision_key j} \<union> keys_of_id (evict_id st i) j) (evict_id st i) (foldl evict_id (evict_id st i) is)
      \<and> flights_ok (foldl evict_id (evict_id st i) is) \<and> cache_ok (foldl evict_id (evict_id st i) is)"
    using Cons.prems by (intro Cons.IH) (simp_all add: flights_ok_evict_id cache_ok_evict_id)
  have "({revision_key i} \<union> keys_of_id st i) \<union> (\<Union>j \<in> set is. {revision_key j} \<union> keys_of_id (evict_id st i) j) =
      (\<Union>j \<in> set (i # is). {revision_key j} \<union> keys_of_id st j)"
    unfolding keys_of_removed(1) [OF r] by auto
  then show ?case using removes_trans [OF r conjunct1 [OF ih]] ih by simp
qed (simp add: removes_refl)

lemma removes_evict_hosts:
  assumes "flights_ok st" "cache_ok st"
  shows "removes (\<Union>h \<in> set hs. keys_of_host st h) st (foldl evict_host st hs)
    \<and> flights_ok (foldl evict_host st hs) \<and> cache_ok (foldl evict_host st hs)"
  using assms
proof (induction hs arbitrary: st)
  case (Cons h hs)
  have r: "removes (keys_of_host st h) st (evict_host st h)" using Cons.prems by (rule removes_evict_host)
  have ih: "removes (\<Union>j \<in> set hs. keys_of_host (evict_host st h) j) (evict_host st h) (foldl evict_host (evict_host st h) hs)
      \<and> flights_ok (foldl evict_host (evict_host st h) hs) \<and> cache_ok (foldl evict_host (evict_host st h) hs)"
    using Cons.prems by (intro Cons.IH) (simp_all add: flights_ok_evict_host cache_ok_evict_host)
  have "keys_of_host st h \<union> (\<Union>j \<in> set hs. keys_of_host (evict_host st h) j) = (\<Union>j \<in> set (h # hs). keys_of_host st j)"
    unfolding keys_of_removed(2) [OF r] by auto
  then show ?case using removes_trans [OF r conjunct1 [OF ih]] ih by simp
qed (simp add: removes_refl)

definition reached_keys :: "'v cache_state \<Rightarrow> targets \<Rightarrow> string set" where
  "reached_keys st t =
     (if tg_all t then UNIV
      else code_key ` set (coalesce (tg_codes t) [])
        \<union> (\<Union>i \<in> set (coalesce (tg_ids t) []). {revision_key i} \<union> keys_of_id st i)
        \<union> (\<Union>h \<in> set (coalesce (tg_hosts t) []). keys_of_host st h))"

lemma removes_flush: "flights_ok st \<Longrightarrow> removes UNIV st (flush_all st)"
  by (auto simp: removes_def flush_all_def cache_get_def flights_ok_def split: option.splits)

lemma removes_evict_local:
  assumes ok: "flights_ok st" "cache_ok st"
  shows "removes (reached_keys st t) st (evict_local st t) \<and> flights_ok (evict_local st t) \<and> cache_ok (evict_local st t)"
proof (cases "tg_all t")
  case True
  have "flights_ok (flush_all st)" using ok(1) by (auto simp: flights_ok_def flush_all_def split: option.splits if_splits)
  moreover have "cache_ok (flush_all st)"
    by (simp add: cache_ok_def flush_all_def index_ok_def index_keys_def index_wf_def coalesce_def cache_get_def)
  ultimately show ?thesis using True removes_flush [OF ok(1)] by (simp add: reached_keys_def evict_local_def)
next
  case False
  let ?codes = "map code_key (coalesce (tg_codes t) [])" and ?ids = "coalesce (tg_ids t) []" and ?hosts = "coalesce (tg_hosts t) []"
  let ?st1 = "delete_keys st ?codes"
  let ?st2 = "foldl evict_id ?st1 ?ids"
  have r1: "removes (set ?codes) st ?st1" by (rule removes_deletes [OF ok(1)])
  note r2 = removes_evict_ids [OF flights_ok_deletes [OF ok(1)] cache_ok_deletes [OF ok(2)], of ?codes ?ids]
  have r3: "removes (\<Union>h \<in> set ?hosts. keys_of_host ?st2 h) ?st2 (foldl evict_host ?st2 ?hosts)
      \<and> flights_ok (foldl evict_host ?st2 ?hosts) \<and> cache_ok (foldl evict_host ?st2 ?hosts)"
    using r2 by (intro removes_evict_hosts) auto
  have r12: "removes (set ?codes \<union> (\<Union>i \<in> set ?ids. {revision_key i} \<union> keys_of_id ?st1 i)) st ?st2"
    using r1 r2 by (blast intro: removes_trans)
  have "set ?codes \<union> (\<Union>i \<in> set ?ids. {revision_key i} \<union> keys_of_id ?st1 i) \<union> (\<Union>h \<in> set ?hosts. keys_of_host ?st2 h) =
      reached_keys st t"
    unfolding keys_of_removed(1) [OF r1] keys_of_removed(2) [OF r12] using False by (auto simp: reached_keys_def)
  then show ?thesis using removes_trans [OF r12 conjunct1 [OF r3]] r3 False by (simp add: evict_local_def)
qed

end
