(* ===== verification/LinkData.thy ===== *)
theory LinkData
  imports SmartRouting ActiveHours VisitorBlock LinkGates DestinationPolicy Pixels LinkCache
begin

text \<open>
  The rows the redirect path reads and the loaders behind the cache
  (\<open>src/lib/link-cache.ts\<close>, second half): the columns of a link, the rules selected with it,
  the lookup by short code and by custom domain path, and the destination revision in force.
  A JSON column that a gate casts to its type is kept as a value of that type.
\<close>

section \<open>Links\<close>

record cached_link =
  cl_id :: string
  cl_workspaceId :: "string option"
  cl_shortCode :: string
  cl_originalUrl :: string
  cl_title :: "string option"
  cl_description :: "string option"
  cl_ogImage :: "string option"
  cl_isActive :: bool
  cl_riskStatus :: string
  cl_expiresAt :: "js_date option"
  cl_expiredUrl :: "string option"
  cl_startsAt :: "js_date option"
  cl_notStartedUrl :: "string option"
  cl_geoFence :: "geo_fence option"
  cl_visitorBlock :: "visitor_block option"
  cl_destinationSchedule :: "json option"
  cl_activeHours :: "active_hours option"
  cl_offHoursUrl :: "string option"
  cl_clickIdParam :: "string option"
  cl_queryForward :: forward_policy
  cl_redirectStatus :: "int option"
  cl_passwordHash :: "string option"
  cl_pixels :: pixel_config
  cl_cloaked :: bool
  cl_webhookUrl :: "string option"
  cl_maxClicks :: "int option"
  cl_clicksReserved :: int
  cl_dailyClickCap :: "int option"
  cl_lifetimeMinutes :: "int option"
  cl_deletedAt :: "js_date option"
  cl_rules :: "smart_rule list"

section \<open>Rules selected with a link\<close>

record rule_row =
  rr_rule :: smart_rule
  rr_riskStatus :: string
  rr_createdAt :: js_date

text \<open>\<open>ruleSelect\<close> lists the columns; \<open>enabled\<close> is not among them, so the property is absent.\<close>

definition rule_select :: "smart_rule \<Rightarrow> smart_rule" where
  "rule_select r = r\<lparr>rule_enabled := None\<rparr>"

definition row_before :: "rule_row \<Rightarrow> rule_row \<Rightarrow> bool" where
  "row_before a b = (rule_priority (rr_rule a) < rule_priority (rr_rule b) \<or>
     (rule_priority (rr_rule a) = rule_priority (rr_rule b) \<and> rr_createdAt a \<le> rr_createdAt b))"

fun insert_row :: "rule_row \<Rightarrow> rule_row list \<Rightarrow> rule_row list" where
  "insert_row r [] = [r]"
| "insert_row r (s # ss) = (if row_before r s then r # s # ss else s # insert_row r ss)"

definition select_rules :: "rule_row list \<Rightarrow> smart_rule list" where
  "select_rules rows = map (rule_select \<circ> rr_rule)
     (foldr insert_row (filter (\<lambda>r. rule_enabled (rr_rule r) = Some True \<and> rr_riskStatus r \<noteq> ''blocked'') rows) [])"

section \<open>Loaders\<close>

record url_data =
  ud_link :: cached_link
  ud_rules :: "rule_row list"

record domain_link =
  dl_host :: string
  dl_verified :: bool
  dl_path :: string
  dl_urlId :: string

record revision_row =
  rv_urlId :: string
  rv_effectiveAt :: js_date
  rv_destinationUrl :: string

record link_db =
  ld_urls :: "url_data list"
  ld_domains :: "domain_link list"
  ld_revisions :: "revision_row list"

datatype cache_value = CachedLinkValue "cached_link option" | CachedRevision "string option"

text \<open>The \<open>select\<close> of a link with its rules.\<close>

definition fetch_url :: "url_data \<Rightarrow> cached_link" where
  "fetch_url u = (ud_link u)\<lparr>cl_rules := select_rules (ud_rules u)\<rparr>"

definition resolve_fetched :: "cached_link option \<Rightarrow> cached_link option" where
  "resolve_fetched url = (case url of Some u \<Rightarrow> if cl_deletedAt u = None then Some u else None | None \<Rightarrow> None)"

definition load_by_code :: "link_db \<Rightarrow> string \<Rightarrow> cache_value load_result" where
  "load_by_code db shortCode =
     (let v = resolve_fetched (map_option fetch_url (find (\<lambda>u. cl_shortCode (ud_link u) = shortCode) (ld_urls db)))
      in \<lparr>lr_value = CachedLinkValue v, lr_urlId = map_option cl_id v, lr_host = None, lr_notAfter = None\<rparr>)"

definition load_by_domain_path :: "link_db \<Rightarrow> string \<Rightarrow> string \<Rightarrow> cache_value load_result" where
  "load_by_domain_path db host path =
     (let link = find (\<lambda>d. dl_path d = path \<and> dl_host d = host \<and> dl_verified d) (ld_domains db);
          url = Option.bind link (\<lambda>d. find (\<lambda>u. cl_id (ud_link u) = dl_urlId d) (ld_urls db));
          v = resolve_fetched (map_option fetch_url url)
      in \<lparr>lr_value = CachedLinkValue v, lr_urlId = map_option cl_id v, lr_host = Some host, lr_notAfter = None\<rparr>)"

text \<open>\<open>findFirst\<close> by latest and by earliest \<open>effectiveAt\<close>.\<close>

fun latest_revision :: "revision_row list \<Rightarrow> revision_row option" where
  "latest_revision [] = None"
| "latest_revision (r # rs) = (case latest_revision rs of None \<Rightarrow> Some r
     | Some s \<Rightarrow> if rv_effectiveAt r \<ge> rv_effectiveAt s then Some r else Some s)"

fun earliest_revision :: "revision_row list \<Rightarrow> revision_row option" where
  "earliest_revision [] = None"
| "earliest_revision (r # rs) = (case earliest_revision rs of None \<Rightarrow> Some r
     | Some s \<Rightarrow> if rv_effectiveAt r \<le> rv_effectiveAt s then Some r else Some s)"

definition revisions_of :: "link_db \<Rightarrow> string \<Rightarrow> revision_row list" where
  "revisions_of db urlId = filter (\<lambda>r. rv_urlId r = urlId) (ld_revisions db)"

definition current_revision :: "link_db \<Rightarrow> string \<Rightarrow> js_date \<Rightarrow> string option" where
  "current_revision db urlId now =
     map_option rv_destinationUrl (latest_revision (filter (\<lambda>r. rv_effectiveAt r \<le> now) (revisions_of db urlId)))"

definition next_revision_at :: "link_db \<Rightarrow> string \<Rightarrow> js_date \<Rightarrow> js_date option" where
  "next_revision_at db urlId now =
     map_option rv_effectiveAt (earliest_revision (filter (\<lambda>r. rv_effectiveAt r > now) (revisions_of db urlId)))"

definition load_latest_revision :: "link_db \<Rightarrow> string \<Rightarrow> js_date \<Rightarrow> cache_value load_result" where
  "load_latest_revision db urlId now =
     \<lparr>lr_value = CachedRevision (current_revision db urlId now), lr_urlId = Some urlId, lr_host = None,
      lr_notAfter = next_revision_at db urlId now\<rparr>"

section \<open>Facts\<close>

lemma set_insert_row [simp]: "set (insert_row r rs) = insert r (set rs)"
  by (induction rs) auto

lemma set_sorted_rows [simp]: "set (foldr insert_row rs []) = set rs"
  by (induction rs) auto

lemma select_rules_disabled: "r \<in> set (select_rules rows) \<Longrightarrow> rule_enabled r = None"
  by (auto simp: select_rules_def rule_select_def)

lemma load_by_code_rules:
  "lr_value (load_by_code db code) = CachedLinkValue (Some l) \<Longrightarrow> r \<in> set (cl_rules l) \<Longrightarrow> rule_enabled r = None"
  by (auto simp: load_by_code_def resolve_fetched_def fetch_url_def Let_def select_rules_disabled split: option.splits if_splits)

lemma load_by_domain_path_rules:
  "lr_value (load_by_domain_path db host path) = CachedLinkValue (Some l) \<Longrightarrow> r \<in> set (cl_rules l) \<Longrightarrow> rule_enabled r = None"
  by (auto simp: load_by_domain_path_def resolve_fetched_def fetch_url_def Let_def select_rules_disabled split: option.splits if_splits)

lemma no_rule_without_enabled:
  assumes "\<And>r. r \<in> set rules \<Longrightarrow> rule_enabled r = None"
  shows "choose_smart_rule digest tz_known intl rules c code visitor = None"
proof -
  have "filter (\<lambda>r. matches_rule tz_known intl r c) rules = []"
    using assms by (auto simp: filter_empty_conv matches_rule_def)
  then show ?thesis by (simp add: choose_smart_rule_def)
qed

text \<open>
  The rules that a load selects are enabled in the database but carry no \<open>enabled\<close> property,
  which the choice of a rule tests: on a link read through the cache no rule is ever chosen.
\<close>

lemma cached_rules_never_chosen:
  assumes "lr_value (load_by_code db code) = CachedLinkValue (Some l) \<or>
    lr_value (load_by_domain_path db host path) = CachedLinkValue (Some l)"
  shows "choose_smart_rule digest tz_known intl (cl_rules l) c code' visitor = None"
  using assms load_by_code_rules load_by_domain_path_rules by (intro no_rule_without_enabled) blast

lemma earliest_revision_none [simp]: "earliest_revision rs = None \<longleftrightarrow> rs = []"
  by (cases rs) (auto split: option.splits)

lemma earliest_revision_in: "earliest_revision rs = Some r \<Longrightarrow> r \<in> set rs \<and> (\<forall>s \<in> set rs. rv_effectiveAt r \<le> rv_effectiveAt s)"
proof (induction rs arbitrary: r)
  case (Cons a rs)
  show ?case
  proof (cases "earliest_revision rs")
    case None
    then show ?thesis using Cons.prems by simp
  next
    case (Some b)
    from Cons.IH [OF Some] show ?thesis using Cons.prems Some by (fastforce split: if_splits)
  qed
qed simp

text \<open>Between a load and the next revision it announces, the revision in force does not change.\<close>

definition before_change :: "js_date option \<Rightarrow> js_date \<Rightarrow> bool" where
  "before_change notAfter t = (case notAfter of None \<Rightarrow> True | Some n \<Rightarrow> t < n)"

lemma next_expiry_before_change: "t < next_expiry env notAfter \<Longrightarrow> before_change notAfter t"
  by (simp add: next_expiry_def before_change_def Let_def split: option.splits)

lemma revision_constant:
  assumes "loadedAt \<le> t" "before_change (lr_notAfter (load_latest_revision db urlId loadedAt)) t"
  shows "current_revision db urlId t = current_revision db urlId loadedAt"
proof -
  have "filter (\<lambda>r. rv_effectiveAt r \<le> t) (revisions_of db urlId) = filter (\<lambda>r. rv_effectiveAt r \<le> loadedAt) (revisions_of db urlId)"
  proof (rule filter_cong [OF refl])
    fix r assume r: "r \<in> set (revisions_of db urlId)"
    show "rv_effectiveAt r \<le> t \<longleftrightarrow> rv_effectiveAt r \<le> loadedAt"
    proof (cases "earliest_revision (filter (\<lambda>r. rv_effectiveAt r > loadedAt) (revisions_of db urlId))")
      case None
      then show ?thesis using r assms(1) by (auto simp: filter_empty_conv)
    next
      case (Some s)
      then have "t < rv_effectiveAt s"
        using assms(2) by (simp add: load_latest_revision_def next_revision_at_def before_change_def)
      moreover have "loadedAt < rv_effectiveAt r \<Longrightarrow> rv_effectiveAt s \<le> rv_effectiveAt r"
        using earliest_revision_in [OF Some] r by auto
      ultimately show ?thesis using assms(1) by linarith
    qed
  qed
  then show ?thesis by (simp add: current_revision_def)
qed

text \<open>
  C34: A cached revision never outlives its validity.  Until the entry written for it expires,
  the revision in force is the one that was loaded: the entry's life ends when the next
  revision takes effect.
\<close>

theorem revision_cache_current:
  assumes "loadedAt \<le> t" "t < next_expiry env (lr_notAfter (load_latest_revision db urlId loadedAt))"
  shows "CachedRevision (current_revision db urlId t) = lr_value (load_latest_revision db urlId loadedAt)"
  using revision_constant [OF assms(1) next_expiry_before_change [OF assms(2)]] by (simp add: load_latest_revision_def)

section \<open>The loader of a key\<close>

text \<open>
  The loader behind a cache key, by the kind of the key.  A host has no colon (the handler accepts
  letters, digits, dots and hyphens only), so the key of a domain path is read back exactly.
\<close>

definition load_key :: "link_db \<Rightarrow> string \<Rightarrow> js_date \<Rightarrow> cache_value load_result" where
  "load_key db key now =
     (if prefix ''code:'' key then load_by_code db (drop 5 key)
      else if prefix ''rev:'' key then load_latest_revision db (drop 4 key) now
      else (let rest = drop 7 key; host = takeWhile (\<lambda>c. c \<noteq> CHR '':'') rest
            in load_by_domain_path db host (drop (length host + 1) rest)))"

lemma load_key_kinds:
  "load_key db (code_key c) now = load_by_code db c"
  "load_key db (revision_key i) now = load_latest_revision db i now"
  "CHR '':'' \<notin> set host \<Longrightarrow> load_key db (domain_key host path) now = load_by_domain_path db host path"
proof -
  assume h: "CHR '':'' \<notin> set host"
  have "takeWhile (\<lambda>c. c \<noteq> CHR '':'') (host @ CHR '':'' # path) = host @ takeWhile (\<lambda>c. c \<noteq> CHR '':'') (CHR '':'' # path)"
    by (rule takeWhile_append2) (use h in auto)
  then show "load_key db (domain_key host path) now = load_by_domain_path db host path"
    by (simp add: load_key_def domain_key_def)
qed (simp_all add: load_key_def code_key_def revision_key_def)

text \<open>Until the change a load announces, the loader of the key keeps returning its value.\<close>

lemma load_key_constant:
  assumes "loadedAt \<le> t" "before_change (lr_notAfter (load_key db k loadedAt)) t"
  shows "lr_value (load_key db k t) = lr_value (load_key db k loadedAt)"
proof (cases "\<not> prefix ''code:'' k \<and> prefix ''rev:'' k")
  case True
  then have l: "load_key db k u = load_latest_revision db (drop 4 k) u" for u by (simp add: load_key_def)
  show ?thesis using revision_constant [OF assms(1)] assms(2) unfolding l by (simp add: load_latest_revision_def)
next
  case False
  then show ?thesis by (auto simp: load_key_def Let_def)
qed

definition sample_revisions :: link_db where
  "sample_revisions = \<lparr>ld_urls = [], ld_domains = [],
     ld_revisions = [\<lparr>rv_urlId = ''u'', rv_effectiveAt = 10, rv_destinationUrl = ''https://a.example/''\<rparr>,
       \<lparr>rv_urlId = ''u'', rv_effectiveAt = 900, rv_destinationUrl = ''https://b.example/''\<rparr>]\<rparr>"

definition sample_write :: write_env where
  "sample_write = \<lparr>we_config = \<lparr>cc_shortTtl = 5000, cc_busTtl = 60000, cc_maxEntries = 100\<rparr>, we_connected = False,
     we_now = 100, we_random = 0\<rparr>"

theorem revision_cache_current_witness:
  "current_revision sample_revisions ''u'' 899 = Some ''https://a.example/''"
proof -
  have a: "899 < next_expiry sample_write (lr_notAfter (load_latest_revision sample_revisions ''u'' 100))"
    by (simp add: load_latest_revision_def next_revision_at_def revisions_of_def sample_revisions_def next_expiry_def sample_write_def)
  have "CachedRevision (current_revision sample_revisions ''u'' 899) = lr_value (load_latest_revision sample_revisions ''u'' 100)"
    by (rule revision_cache_current [OF _ a]) simp
  then show ?thesis
    by (simp add: load_latest_revision_def current_revision_def revisions_of_def sample_revisions_def)
qed

end
