(* ===== verification/PreviewPages.thy ===== *)
theory PreviewPages
  imports Pixels
begin

text \<open>
  The pages served instead of a redirect: the preview of a link for crawlers with its Open
  Graph tags (\<open>src/lib/og-preview.ts\<close> and the bot branch of \<open>src/app/[shortCode]/route.ts\<close>)
  and the frame of a cloaked link.  Stored preview fields go through \<open>validateOgFields\<close>.
\<close>

section \<open>Preview fields\<close>

definition OG_TITLE_MAX :: nat where "OG_TITLE_MAX = 200"
definition OG_DESCRIPTION_MAX :: nat where "OG_DESCRIPTION_MAX = 300"
definition OG_IMAGE_MAX :: nat where "OG_IMAGE_MAX = 2048"

definition is_control :: "char \<Rightarrow> bool" where
  "is_control c = (let n = (of_char c :: nat) in n < 32 \<or> n = 127)"

text \<open>\<open>replace(/[\\u0000-\\u001f\\u007f]+/g, ' ').replace(/ {2,}/g, ' ')\<close>: runs become one blank.\<close>

fun squeeze_spaces :: "string \<Rightarrow> string" where
  "squeeze_spaces (a # b # s) = (if a = CHR '' '' \<and> b = CHR '' '' then squeeze_spaces (b # s) else a # squeeze_spaces (b # s))"
| "squeeze_spaces s = s"

fun control_runs :: "bool \<Rightarrow> string \<Rightarrow> string" where
  "control_runs inRun [] = []"
| "control_runs inRun (c # s) =
     (if is_control c then (if inRun then control_runs True s else CHR '' '' # control_runs True s) else c # control_runs False s)"

definition og_clean :: "json option \<Rightarrow> nat \<Rightarrow> string \<Rightarrow> string option thrown" where
  "og_clean v maxLen label =
     (if nullish v then Inr None
      else (case v of
          Some (JStr raw) \<Rightarrow>
            (let s = trim (squeeze_spaces (control_runs False raw))
             in if s = [] then Inr None
                else if length s > maxLen then Inl (label @ '' must be at most '' @ nat_dec maxLen @ '' characters'')
                else Inr (Some s))
        | _ \<Rightarrow> Inl (label @ '' must be a string'')))"

definition validate_og_image_url :: "url_parser \<Rightarrow> (web_url \<Rightarrow> string) \<Rightarrow> json option \<Rightarrow> string option thrown" where
  "validate_og_image_url new_URL href v = (case og_clean v OG_IMAGE_MAX ''ogImage'' of
       Inl e \<Rightarrow> Inl e
     | Inr None \<Rightarrow> Inr None
     | Inr (Some s) \<Rightarrow> (case new_URL s of
           None \<Rightarrow> Inl ''ogImage must be an absolute URL''
         | Some u \<Rightarrow>
            (let local = (u_hostname u = ''localhost'' \<or> u_hostname u = ''127.0.0.1'')
             in if u_protocol u \<noteq> ''https:'' \<and> \<not> (u_protocol u = ''http:'' \<and> local) then Inl ''ogImage must use https''
                else if u_username u \<noteq> [] \<or> u_password u \<noteq> [] then Inl ''ogImage must not contain credentials''
                else Inr (Some (href u)))))"

record og_fields =
  og_title :: "string option option"
  og_description :: "string option option"
  og_image :: "string option option"

text \<open>A field that is not in the input stays absent (the outer \<open>None\<close>).\<close>

definition og_given :: "json option \<Rightarrow> (json option \<Rightarrow> string option thrown) \<Rightarrow> string option option thrown" where
  "og_given v f = (if v = None then Inr None else (case f v of Inl e \<Rightarrow> Inl e | Inr r \<Rightarrow> Inr (Some r)))"

definition validate_og_fields :: "url_parser \<Rightarrow> (web_url \<Rightarrow> string) \<Rightarrow> json \<Rightarrow> og_fields thrown" where
  "validate_og_fields new_URL href input =
     (case og_given (jget input ''title'') (\<lambda>v. og_clean v OG_TITLE_MAX ''title'') of
        Inl e \<Rightarrow> Inl e
      | Inr t \<Rightarrow> (case og_given (jget input ''description'') (\<lambda>v. og_clean v OG_DESCRIPTION_MAX ''description'') of
          Inl e \<Rightarrow> Inl e
        | Inr d \<Rightarrow> (case og_given (jget input ''ogImage'') (validate_og_image_url new_URL href) of
            Inl e \<Rightarrow> Inl e
          | Inr i \<Rightarrow> Inr \<lparr>og_title = t, og_description = d, og_image = i\<rparr>)))"

section \<open>Pages\<close>

definition meta_property :: "string \<Rightarrow> string \<Rightarrow> string" where
  "meta_property name content = ''<meta property=\"'' @ name @ ''\" content=\"'' @ content @ ''\" />''"

definition meta_name :: "string \<Rightarrow> string \<Rightarrow> string" where
  "meta_name name content = ''<meta name=\"'' @ name @ ''\" content=\"'' @ content @ ''\" />''"

definition build_og_meta_tags :: "string option \<Rightarrow> string option \<Rightarrow> string \<Rightarrow> string \<Rightarrow> string option \<Rightarrow> string" where
  "build_og_meta_tags title description picture canonical siteName =
     (let t = escape_html (or_default title ''Link''); img = escape_html picture;
          tags = [''<title>'' @ t @ ''</title>'', meta_property ''og:type'' ''website'',
            meta_property ''og:site_name'' (escape_html (or_default siteName ''QuickLink'')), meta_property ''og:title'' t,
            meta_property ''og:image'' img, meta_property ''og:url'' (escape_html canonical),
            meta_name ''twitter:card'' ''summary_large_image'', meta_name ''twitter:title'' t, meta_name ''twitter:image'' img];
          more = (if str_truthy description
            then (let d = escape_html (the description)
                  in [meta_name ''description'' d, meta_property ''og:description'' d, meta_name ''twitter:description'' d]) else [])
      in join_with (CHR 0x0A # ''    '') (tags @ more))"

definition lines_text :: "string list \<Rightarrow> string" where
  "lines_text = join_with [CHR 0x0A]"

definition bot_page :: "string \<Rightarrow> string option \<Rightarrow> string option \<Rightarrow> string \<Rightarrow> string" where
  "bot_page finalUrl title description picture =
     (let escapedUrl = escape_html finalUrl
      in lines_text [''<!DOCTYPE html>'', ''<html>'', ''  <head>'', ''    <meta charset=\"utf-8\" />'',
        ''    '' @ build_og_meta_tags title description picture finalUrl None,
        ''    <meta http-equiv=\"refresh\" content=\"0; url='' @ escapedUrl @ ''\" />'', ''  </head>'', ''  <body>'',
        ''    <p>Redirecting to <a href=\"'' @ escapedUrl @ ''\">'' @ escapedUrl @ ''</a>...</p>'',
        ''    <script>window.location.replace('' @ js_string_literal finalUrl @ '');</script>'', ''  </body>'', ''</html>''])"

definition cloak_page :: "string \<Rightarrow> string option \<Rightarrow> string" where
  "cloak_page finalUrl title =
     lines_text [''<!DOCTYPE html>'', ''<html>'', ''  <head>'', ''    <meta charset=\"utf-8\" />'',
        ''    <title>'' @ escape_html (or_default title ''Link'') @ ''</title>'',
        ''    <style>body,html{margin:0;padding:0;height:100%;overflow:hidden;} iframe{width:100%;height:100%;border:none;}</style>'',
        ''  </head>'', ''  <body><iframe src=\"'' @ escape_html finalUrl @ ''\" allow=\"fullscreen\"></iframe></body>'', ''</html>'']"

section \<open>The pages are inert in their inputs\<close>

lemma escape_html_no_lt: "CHR ''<'' \<notin> set (escape_html s)"
  by (auto simp: escape_html_concat html_entity_def)

lemma js_string_literal_no_lt: "CHR ''<'' \<notin> set (js_string_literal s)"
  using script_escape_plain by (auto simp: js_string_literal_concat)

lemma escape_html_no_quote: "CHR ''\"'' \<notin> set (escape_html s)"
  by (auto simp: escape_html_concat html_entity_def)

lemmas inert_text = text_plain [OF escape_html_no_lt] script_plain [OF js_string_literal_no_lt] quoted_plain [OF escape_html_no_quote]
  script_skip script_open

definition tag_name :: "string \<Rightarrow> string" where
  "tag_name tag = takeWhile (\<lambda>c. c \<noteq> CHR '' '') tag"

lemmas tag_simps = quote_after_def opens_script_def to_lower_def lower_char_def is_upper_def is_alnum_def is_alpha_def is_lower_def
  is_digit_def tag_name_def

lemma meta_tags:
  assumes "CHR ''\"'' \<notin> set n" "CHR ''\"'' \<notin> set c"
  shows "html_tags InText (meta_property n c @ t) = (''meta property=\"'' @ n @ ''\" content=\"'' @ c @ ''\" /'') # html_tags InText t"
    "html_tags InText (meta_name n c @ t) = (''meta name=\"'' @ n @ ''\" content=\"'' @ c @ ''\" /'') # html_tags InText t"
  using quoted_plain [OF assms(1)] quoted_plain [OF assms(2)] by (simp_all add: meta_property_def meta_name_def tag_simps)

lemmas page_tags = meta_tags [OF _ escape_html_no_quote] meta_tags

text \<open>
  Preview and cloaking pages are inert in their inputs.  Whatever the title, the description, the
  image and the destination, the elements of the page for crawlers and of the cloaking page are
  those of their templates, in order: no stored text opens or closes one, or ends a quote.
\<close>

lemma head_tags:
  "map tag_name (html_tags InText (build_og_meta_tags title description picture canonical siteName @ t)) =
     [''title'', ''/title''] @ replicate (if str_truthy description then 11 else 8) ''meta'' @ map tag_name (html_tags InText t)"
  by (cases "str_truthy description")
    (simp_all add: build_og_meta_tags_def Let_def page_tags text_plain [OF escape_html_no_lt] tag_simps eval_nat_numeral)

lemma bot_page_inert:
  "map tag_name (html_tags InText (bot_page finalUrl title description picture)) =
     [''!DOCTYPE'', ''html'', ''head'', ''meta'', ''title'', ''/title''] @ replicate (if str_truthy description then 11 else 8) ''meta'' @
     [''meta'', ''/head'', ''body'', ''p'', ''a'', ''/a'', ''/p'', ''script'', ''/script'', ''/body'', ''/html'']"
  by (simp add: bot_page_def lines_text_def Let_def head_tags inert_text tag_simps)

lemma cloak_page_inert:
  "map tag_name (html_tags InText (cloak_page finalUrl title)) =
     [''!DOCTYPE'', ''html'', ''head'', ''meta'', ''title'', ''/title'', ''style'', ''/style'', ''/head'', ''body'', ''iframe'', ''/iframe'',
      ''/body'', ''/html'']"
  by (simp add: cloak_page_def lines_text_def inert_text tag_simps)

text \<open>A validated field is trimmed, within its length and without control characters.\<close>

lemma og_clean_bounded: "og_clean v n label = Inr (Some s) \<Longrightarrow> s \<noteq> [] \<and> length s \<le> n \<and> trim s = s"
  by (auto simp: og_clean_def Let_def split: if_splits option.splits json.splits)

end
