(* ===== verification/Campaigns.thy ===== *)
theory Campaigns
  imports Prelude
begin

text \<open>
  Campaigns on the redirect path (\<open>src/lib/campaigns.ts\<close>): the query for the running campaign
  of a link and its short-lived cache, the weighted choice of a variant, the shift of traffic
  weights by the autopilot and the activation of approved releases.  SHA-256 is a function to
  the first 32 bits of the digest.  The statistics of the autopilot are floating point and are
  not part of the model.
\<close>

section \<open>Running campaigns\<close>

record campaign_variant =
  cv_id :: string
  cv_destinationUrl :: string
  cv_weight :: int
  cv_enabled :: bool

record running_campaign =
  rc_id :: string
  rc_version :: int
  rc_variants :: "campaign_variant list"

record campaign_row =
  cr_campaign :: running_campaign
  cr_status :: string
  cr_startAt :: "js_date option"
  cr_endAt :: "js_date option"
  cr_urlIds :: "string list"
  cr_updatedAt :: js_date

definition campaign_running :: "campaign_row \<Rightarrow> string \<Rightarrow> js_date \<Rightarrow> bool" where
  "campaign_running r urlId now =
     (cr_status r = ''running'' \<and> urlId \<in> set (cr_urlIds r) \<and>
      (case cr_startAt r of None \<Rightarrow> True | Some s \<Rightarrow> s \<le> now) \<and>
      (case cr_endAt r of None \<Rightarrow> True | Some e \<Rightarrow> e > now))"

text \<open>\<open>findFirst\<close> ordered by \<open>updatedAt desc\<close>.\<close>

fun latest_row :: "campaign_row list \<Rightarrow> campaign_row option" where
  "latest_row [] = None"
| "latest_row (r # rs) = (case latest_row rs of None \<Rightarrow> Some r
     | Some s \<Rightarrow> if cr_updatedAt r \<ge> cr_updatedAt s then Some r else Some s)"

definition find_running_campaign :: "campaign_row list \<Rightarrow> string \<Rightarrow> js_date \<Rightarrow> running_campaign option" where
  "find_running_campaign rows urlId now =
     map_option cr_campaign (latest_row (filter (\<lambda>r. campaign_running r urlId now) rows))"

definition CAMPAIGN_CACHE_TTL_MS :: int where "CAMPAIGN_CACHE_TTL_MS = 5000"

text \<open>
  The cache of one instance.  A lookup returns the cached value, waits on the query already in
  flight, or starts one with the instant of its caller; \<open>campaign_loaded\<close> is its completion.
\<close>

record campaign_cache =
  cc_entries :: "string \<Rightarrow> (running_campaign option \<times> js_date) option"
  cc_inflight :: "string \<Rightarrow> js_date option"

datatype campaign_lookup = CampaignHit "running_campaign option" | CampaignPending js_date

definition campaign_begin :: "campaign_cache \<Rightarrow> string \<Rightarrow> js_date \<Rightarrow> campaign_cache \<times> campaign_lookup" where
  "campaign_begin c urlId now =
     (case cc_entries c urlId of
        Some (v, expiresAt) \<Rightarrow> if expiresAt > now then (c, CampaignHit v)
          else (case cc_inflight c urlId of
              Some q \<Rightarrow> (c, CampaignPending q)
            | None \<Rightarrow> (c\<lparr>cc_inflight := (cc_inflight c)(urlId \<mapsto> now)\<rparr>, CampaignPending now))
      | None \<Rightarrow> (case cc_inflight c urlId of
              Some q \<Rightarrow> (c, CampaignPending q)
            | None \<Rightarrow> (c\<lparr>cc_inflight := (cc_inflight c)(urlId \<mapsto> now)\<rparr>, CampaignPending now)))"

definition campaign_loaded :: "campaign_cache \<Rightarrow> campaign_row list \<Rightarrow> string \<Rightarrow> js_date \<Rightarrow> js_date \<Rightarrow> campaign_cache \<times> running_campaign option" where
  "campaign_loaded c rows urlId asked now =
     (let v = find_running_campaign rows urlId asked
      in (c\<lparr>cc_entries := (cc_entries c)(urlId \<mapsto> (v, now + CAMPAIGN_CACHE_TTL_MS)),
            cc_inflight := (cc_inflight c)(urlId := None)\<rparr>, v))"

definition campaign_failed :: "campaign_cache \<Rightarrow> string \<Rightarrow> campaign_cache" where
  "campaign_failed c urlId = c\<lparr>cc_inflight := (cc_inflight c)(urlId := None)\<rparr>"

section \<open>Choosing a variant\<close>

fun pick_variant :: "int \<Rightarrow> int \<Rightarrow> campaign_variant list \<Rightarrow> campaign_variant option" where
  "pick_variant bucket cursor [] = None"
| "pick_variant bucket cursor (v # vs) =
     (if bucket < cursor + cv_weight v then Some v else pick_variant bucket (cursor + cv_weight v) vs)"

definition active_variants :: "campaign_variant list \<Rightarrow> campaign_variant list" where
  "active_variants vs = filter (\<lambda>v. cv_enabled v \<and> cv_weight v > 0) vs"

definition choose_weighted_variant :: "(string \<Rightarrow> nat) \<Rightarrow> campaign_variant list \<Rightarrow> string \<Rightarrow> campaign_variant option" where
  "choose_weighted_variant digest variants seed =
     (let active = active_variants variants in
      if active = [] then None
      else (let t = sum_list (map cv_weight active);
                bucket = int (digest seed) mod t
            in (case pick_variant bucket 0 active of Some v \<Rightarrow> Some v | None \<Rightarrow> Some (last active))))"

section \<open>Shifting traffic\<close>

definition shift_traffic_weights :: "(string \<Rightarrow> int option) \<Rightarrow> string \<Rightarrow> string \<Rightarrow> int \<Rightarrow> (string \<Rightarrow> int option) option" where
  "shift_traffic_weights weights controlId winnerId maxShift =
     (if controlId = winnerId then None
      else (case (weights controlId, weights winnerId) of
          (Some control, Some winner) \<Rightarrow>
            (let shift = min (max 0 maxShift) (min (max 0 (control - 1)) (max 0 (99 - winner)))
             in if shift < 1 then None
                else Some (weights(controlId \<mapsto> control - shift, winnerId \<mapsto> winner + shift)))
        | _ \<Rightarrow> None))"

section \<open>Scheduled releases\<close>

record release_row =
  rl_id :: string
  rl_campaignId :: string
  rl_version :: int
  rl_status :: string
  rl_scheduledAt :: "js_date option"
  rl_publishedAt :: "js_date option"

record campaign_state =
  cs_status :: string
  cs_version :: int

record release_db =
  rd_campaigns :: "string \<Rightarrow> campaign_state option"
  rd_releases :: "release_row list"

definition release_due :: "release_row \<Rightarrow> js_date \<Rightarrow> bool" where
  "release_due r now = (rl_status r = ''approved'' \<and> (case rl_scheduledAt r of None \<Rightarrow> True | Some t \<Rightarrow> t \<le> now))"

text \<open>\<open>orderBy: [{ scheduledAt: 'asc' }, { version: 'asc' }]\<close>, null dates last.\<close>

definition release_before :: "release_row \<Rightarrow> release_row \<Rightarrow> bool" where
  "release_before a b = (case (rl_scheduledAt a, rl_scheduledAt b) of
       (Some s, Some t) \<Rightarrow> s < t \<or> (s = t \<and> rl_version a \<le> rl_version b)
     | (Some _, None) \<Rightarrow> True
     | (None, Some _) \<Rightarrow> False
     | (None, None) \<Rightarrow> rl_version a \<le> rl_version b)"

fun insert_release :: "release_row \<Rightarrow> release_row list \<Rightarrow> release_row list" where
  "insert_release r [] = [r]"
| "insert_release r (s # ss) = (if release_before r s then r # s # ss else s # insert_release r ss)"

definition due_releases :: "release_db \<Rightarrow> js_date \<Rightarrow> release_row list" where
  "due_releases db now = take 100 (foldr insert_release (filter (\<lambda>r. release_due r now) (rd_releases db)) [])"

definition publish_release :: "release_row \<Rightarrow> js_date \<Rightarrow> release_row" where
  "publish_release r now = r\<lparr>rl_status := ''published'', rl_publishedAt := Some now\<rparr>"

text \<open>
  The transaction of one release.  \<open>seen\<close> is the campaign's version as read at its start; the
  two conditional updates run on the database as it is then.  A thrown error rolls back.
\<close>

definition activate_release :: "int option \<Rightarrow> release_db \<Rightarrow> js_date \<Rightarrow> release_row \<Rightarrow> (release_db \<times> bool) thrown" where
  "activate_release seen db now release = (case seen of
       None \<Rightarrow> Inr (db, False)
     | Some v \<Rightarrow>
        if rl_version release \<le> v then Inr (db, False)
        else if \<not> list_ex (\<lambda>r. rl_id r = rl_id release \<and> release_due r now) (rd_releases db) then Inr (db, False)
        else (case rd_campaigns db (rl_campaignId release) of
            Some c \<Rightarrow> if cs_version c = v
              then Inr (db\<lparr>rd_releases := map (\<lambda>r. if rl_id r = rl_id release \<and> release_due r now then publish_release r now else r) (rd_releases db),
                           rd_campaigns := (rd_campaigns db)(rl_campaignId release \<mapsto> \<lparr>cs_status = ''running'', cs_version = rl_version release\<rparr>)\<rparr>, True)
              else Inl ''Campaign changed concurrently; refusing stale scheduled release''
          | None \<Rightarrow> Inl ''Campaign changed concurrently; refusing stale scheduled release''))"

definition campaign_version :: "release_db \<Rightarrow> string \<Rightarrow> int option" where
  "campaign_version db c = map_option cs_version (rd_campaigns db c)"

text \<open>The loop, with no other writer between the statements of a transaction.\<close>

fun activate_all :: "release_db \<Rightarrow> js_date \<Rightarrow> nat \<Rightarrow> release_row list \<Rightarrow> (release_db \<times> nat) thrown" where
  "activate_all db now n [] = Inr (db, n)"
| "activate_all db now n (r # rs) =
     (case activate_release (campaign_version db (rl_campaignId r)) db now r of
        Inl e \<Rightarrow> Inl e
      | Inr (db', changed) \<Rightarrow> activate_all db' now (if changed then Suc n else n) rs)"

definition activate_scheduled_releases :: "release_db \<Rightarrow> js_date \<Rightarrow> (release_db \<times> nat \<times> nat) thrown" where
  "activate_scheduled_releases db now =
     (let due = due_releases db now
      in (case activate_all db now 0 due of Inl e \<Rightarrow> Inl e | Inr (db', n) \<Rightarrow> Inr (db', length due, n)))"

section \<open>Facts\<close>

lemma pick_variant_total:
  "\<forall>v \<in> set vs. 0 < cv_weight v \<Longrightarrow> bucket < cursor + sum_list (map cv_weight vs) \<Longrightarrow> vs \<noteq> [] \<Longrightarrow>
    \<exists>v \<in> set vs. pick_variant bucket cursor vs = Some v"
proof (induction vs arbitrary: cursor)
  case (Cons v vs)
  show ?case
  proof (cases "bucket < cursor + cv_weight v")
    case False
    then have "vs \<noteq> []" using Cons.prems(2) by auto
    then have "\<exists>w \<in> set vs. pick_variant bucket (cursor + cv_weight v) vs = Some w"
      using Cons.prems by (intro Cons.IH) (auto simp: add.assoc)
    then show ?thesis using False by auto
  qed simp
qed simp

lemma sum_weights_pos: "\<forall>v \<in> set vs. 0 < cv_weight v \<Longrightarrow> vs \<noteq> [] \<Longrightarrow> 0 < sum_list (map cv_weight vs)"
proof (induction vs)
  case (Cons v vs)
  then show ?case by (cases "vs = []") (auto simp: add_pos_pos)
qed simp

lemma choose_weighted_variant_cases:
  "(choose_weighted_variant digest vs seed = None \<longleftrightarrow> active_variants vs = []) \<and>
   (\<forall>v. choose_weighted_variant digest vs seed = Some v \<longrightarrow> v \<in> set vs \<and> cv_enabled v \<and> 0 < cv_weight v)"
proof (cases "active_variants vs = []")
  case False
  let ?a = "active_variants vs"
  have pos: "\<forall>v \<in> set ?a. 0 < cv_weight v" by (simp add: active_variants_def)
  have "int (digest seed) mod sum_list (map cv_weight ?a) < 0 + sum_list (map cv_weight ?a)"
    using sum_weights_pos [OF pos False] by simp
  then obtain v where v: "v \<in> set ?a" "pick_variant (int (digest seed) mod sum_list (map cv_weight ?a)) 0 ?a = Some v"
    using pick_variant_total [OF pos _ False] by blast
  then have "choose_weighted_variant digest vs seed = Some v"
    using False by (simp add: choose_weighted_variant_def Let_def)
  then show ?thesis using v False by (auto simp: active_variants_def)
qed (simp add: choose_weighted_variant_def)

text \<open>
  A shift of traffic moves weight from the control to the winner only: it is refused when
  nothing can be moved; otherwise the two weights keep their sum, the control keeps at least
  one, the winner gets at most ninety-nine, at most \<open>maxShift\<close> moves, and no other weight changes.
\<close>

lemma shift_traffic_conserves:
  assumes "weights c = Some wc" "weights w = Some ww" "c \<noteq> w"
  shows "case shift_traffic_weights weights c w maxShift of
      None \<Rightarrow> maxShift < 1 \<or> wc \<le> 1 \<or> 99 \<le> ww
    | Some weights' \<Rightarrow> (\<exists>d. 1 \<le> d \<and> d \<le> maxShift \<and> d \<le> wc - 1 \<and> d \<le> 99 - ww \<and>
        (d = maxShift \<or> d = wc - 1 \<or> d = 99 - ww) \<and> weights' = weights(c \<mapsto> wc - d, w \<mapsto> ww + d))"
proof -
  define d where "d = min (max 0 maxShift) (min (max 0 (wc - 1)) (max 0 (99 - ww)))"
  have s: "shift_traffic_weights weights c w maxShift = (if d < 1 then None else Some (weights(c \<mapsto> wc - d, w \<mapsto> ww + d)))"
    by (simp only: shift_traffic_weights_def Let_def assms option.case prod.case assms(3) if_False d_def [symmetric])
  show ?thesis
  proof (cases "d < 1")
    case True
    then show ?thesis using s by (auto simp: d_def)
  next
    case False
    then have "1 \<le> d" "d \<le> maxShift" "d \<le> wc - 1" "d \<le> 99 - ww" "d = maxShift \<or> d = wc - 1 \<or> d = 99 - ww"
      by (auto simp: d_def)
    then show ?thesis unfolding s using False by (simp only: if_False option.case) blast
  qed
qed

lemma shift_traffic_conserves_witness:
  "case shift_traffic_weights [''a'' \<mapsto> 60, ''b'' \<mapsto> 40] ''a'' ''b'' 25 of
      None \<Rightarrow> False
    | Some weights' \<Rightarrow> weights' ''a'' = Some 35 \<and> weights' ''b'' = Some 65"
  using shift_traffic_conserves [where weights = "[''a'' \<mapsto> 60, ''b'' \<mapsto> 40]" and c = "''a''" and w = "''b''"
      and wc = 60 and ww = 40 and maxShift = 25]
  by (auto split: option.splits)

lemma set_insert_release: "set (insert_release r rs) = insert r (set rs)"
  by (induction rs) auto

lemma distinct_insert_release: "distinct (map rl_id (insert_release r rs)) \<longleftrightarrow> rl_id r \<notin> rl_id ` set rs \<and> distinct (map rl_id rs)"
  by (induction rs) (auto simp: set_insert_release)

lemma sorted_releases:
  "set (foldr insert_release rs []) = set rs \<and> (distinct (map rl_id (foldr insert_release rs [])) \<longleftrightarrow> distinct (map rl_id rs))"
  by (induction rs) (auto simp: set_insert_release distinct_insert_release)

text \<open>
  A due release is newest so far when it is newer than its campaign's version and than every due
  release of the campaign that comes before it.
\<close>

definition newest_so_far :: "release_db \<Rightarrow> release_row list \<Rightarrow> nat \<Rightarrow> bool" where
  "newest_so_far db due i =
     (\<exists>v. campaign_version db (rl_campaignId (due ! i)) = Some v \<and> v < rl_version (due ! i) \<and>
       (\<forall>j<i. rl_campaignId (due ! j) = rl_campaignId (due ! i) \<longrightarrow> rl_version (due ! j) < rl_version (due ! i)))"

definition newest_indices :: "release_db \<Rightarrow> release_row list \<Rightarrow> nat set" where
  "newest_indices db due = {i. i < length due \<and> newest_so_far db due i}"

text \<open>A campaign after the run: at the newest of its version and of its due releases.\<close>

definition advanced_campaign :: "release_row list \<Rightarrow> string \<Rightarrow> campaign_state \<Rightarrow> campaign_state" where
  "advanced_campaign due c s =
     (let m = Max (insert (cs_version s) (rl_version ` set (filter (\<lambda>r. rl_campaignId r = c) due)))
      in if m = cs_version s then s else \<lparr>cs_status = ''running'', cs_version = m\<rparr>)"

definition published_rows :: "release_db \<Rightarrow> release_row list \<Rightarrow> js_date \<Rightarrow> release_row list" where
  "published_rows db due now = map (\<lambda>r. if \<exists>i \<in> newest_indices db due. rl_id (due ! i) = rl_id r then publish_release r now else r) (rd_releases db)"

definition run_outcome :: "release_db \<Rightarrow> release_row list \<Rightarrow> js_date \<Rightarrow> release_db" where
  "run_outcome db due now =
     \<lparr>rd_campaigns = (\<lambda>c. map_option (advanced_campaign due c) (rd_campaigns db c)), rd_releases = published_rows db due now\<rparr>"

lemma newest_so_far_snoc [simp]: "i < length due \<Longrightarrow> newest_so_far db (due @ [r]) i = newest_so_far db due i"
  by (simp add: newest_so_far_def nth_append)

lemma newest_indices_snoc:
  "newest_indices db (due @ [r]) =
     (if newest_so_far db (due @ [r]) (length due) then insert (length due) (newest_indices db due) else newest_indices db due)"
  by (auto simp: newest_indices_def less_Suc_eq)

lemma newest_indices_finite [simp]: "finite (newest_indices db due)"
  by (simp add: newest_indices_def)

lemma newest_indices_less: "i \<in> newest_indices db due \<Longrightarrow> i < length due"
  by (simp add: newest_indices_def)

lemma advanced_version:
  "cs_version (advanced_campaign due c s) = Max (insert (cs_version s) (rl_version ` set (filter (\<lambda>r. rl_campaignId r = c) due)))"
  by (simp add: advanced_campaign_def Let_def)

lemma newest_at_end:
  "newest_so_far db (due @ [r]) (length due) \<longleftrightarrow>
     (\<exists>s. rd_campaigns db (rl_campaignId r) = Some s \<and> cs_version (advanced_campaign due (rl_campaignId r) s) < rl_version r)"
  by (auto simp: newest_so_far_def campaign_version_def advanced_version in_set_conv_nth nth_append)

lemma advanced_snoc_same:
  assumes "rl_campaignId r = c"
  shows "advanced_campaign (due @ [r]) c s =
     (if cs_version (advanced_campaign due c s) < rl_version r then \<lparr>cs_status = ''running'', cs_version = rl_version r\<rparr>
      else advanced_campaign due c s)"
proof -
  let ?V = "\<lambda>due. insert (cs_version s) (rl_version ` set (filter (\<lambda>r. rl_campaignId r = c) due))"
  define m where "m = Max (?V due)"
  have "?V (due @ [r]) = insert (rl_version r) (?V due)" using assms by auto
  then have new: "Max (?V (due @ [r])) = max (rl_version r) m" by (simp add: m_def)
  have "cs_version s \<le> m" by (simp add: m_def)
  then show ?thesis unfolding advanced_campaign_def Let_def new m_def [symmetric] by (auto simp: max_def)
qed

lemma advanced_Nil [simp]: "advanced_campaign [] c = id"
  by (simp add: advanced_campaign_def fun_eq_iff)

lemma advanced_snoc_other: "rl_campaignId r \<noteq> c \<Longrightarrow> advanced_campaign (due @ [r]) c s = advanced_campaign due c s"
  by (simp add: advanced_campaign_def)

lemma published_rows_snoc:
  assumes rows: "distinct (map rl_id (rd_releases db))" "r \<in> set (rd_releases db)" "release_due r now"
    and new: "rl_id r \<notin> rl_id ` set due"
  shows "list_ex (\<lambda>x. rl_id x = rl_id r \<and> release_due x now) (published_rows db due now)"
    "map (\<lambda>x. if rl_id x = rl_id r \<and> release_due x now then publish_release x now else x) (published_rows db due now) =
     map (\<lambda>x. if (\<exists>i \<in> insert (length due) (newest_indices db due). rl_id ((due @ [r]) ! i) = rl_id x) then publish_release x now else x)
       (rd_releases db)"
proof -
  let ?hit = "\<lambda>x. \<exists>i \<in> newest_indices db due. rl_id (due ! i) = rl_id x"
  have same: "x = r" if "x \<in> set (rd_releases db)" "rl_id x = rl_id r" for x
    using rows that by (metis distinct_map inj_on_def)
  have no: "\<not> ?hit r" using new newest_indices_less nth_mem by (metis imageI)
  show "list_ex (\<lambda>x. rl_id x = rl_id r \<and> release_due x now) (published_rows db due now)"
    using rows no by (auto simp: published_rows_def list_ex_iff intro!: bexI [of _ r])
  have hit: "(\<exists>i \<in> insert (length due) (newest_indices db due). rl_id ((due @ [r]) ! i) = rl_id x) \<longleftrightarrow> rl_id r = rl_id x \<or> ?hit x" for x
    by (auto simp: nth_append dest: newest_indices_less)
  show "map (\<lambda>x. if rl_id x = rl_id r \<and> release_due x now then publish_release x now else x) (published_rows db due now) =
     map (\<lambda>x. if (\<exists>i \<in> insert (length due) (newest_indices db due). rl_id ((due @ [r]) ! i) = rl_id x) then publish_release x now else x)
       (rd_releases db)"
    unfolding published_rows_def map_map comp_def hit
    using same rows(3) no by (intro map_cong [OF refl]) (auto simp: publish_release_def dest: same)
qed

lemma published_rows_snoc_skip:
  assumes "\<not> newest_so_far db (due @ [r]) (length due)"
  shows "published_rows db (due @ [r]) now = published_rows db due now"
  using assms by (auto simp: published_rows_def newest_indices_snoc nth_append dest: newest_indices_less intro!: map_cong)

lemma activate_all_snoc:
  "activate_all db now n rs = Inr (db1, k) \<Longrightarrow>
    activate_all db now n (rs @ [r]) = activate_all db1 now k [r]"
  by (induction rs arbitrary: db n) (auto split: sum.splits prod.splits)

lemma activate_all_outcome:
  assumes "distinct (map rl_id (rd_releases db))" "distinct (map rl_id due)"
    "\<forall>r \<in> set due. r \<in> set (rd_releases db) \<and> release_due r now"
  shows "activate_all db now 0 due = Inr (run_outcome db due now, card (newest_indices db due))"
  using assms(2,3)
proof (induction due rule: rev_induct)
  case Nil
  have "run_outcome db [] now = db"
    by (cases db) (auto simp: run_outcome_def published_rows_def newest_indices_def option.map_id)
  then show ?case by (simp add: newest_indices_def)
next
  case (snoc r due)
  let ?c = "rl_campaignId r" and ?db1 = "run_outcome db due now"
  have IH: "activate_all db now 0 due = Inr (?db1, card (newest_indices db due))" using snoc by simp
  have r: "r \<in> set (rd_releases db)" "release_due r now" "rl_id r \<notin> rl_id ` set due" using snoc.prems by auto
  note rows = published_rows_snoc [OF assms(1) r]
  have fresh: "length due \<notin> newest_indices db due" by (simp add: newest_indices_def)
  show ?case
  proof (cases "newest_so_far db (due @ [r]) (length due)")
    case True
    then obtain s where s: "rd_campaigns db ?c = Some s" "cs_version (advanced_campaign due ?c s) < rl_version r"
      unfolding newest_at_end by blast
    have camp: "(\<lambda>c. map_option (advanced_campaign due c) (rd_campaigns db c))(?c \<mapsto> \<lparr>cs_status = ''running'', cs_version = rl_version r\<rparr>)
      = (\<lambda>c. map_option (advanced_campaign (due @ [r]) c) (rd_campaigns db c))"
    proof (rule ext)
      fix c
      show "((\<lambda>c. map_option (advanced_campaign due c) (rd_campaigns db c))(?c \<mapsto> \<lparr>cs_status = ''running'', cs_version = rl_version r\<rparr>)) c
        = map_option (advanced_campaign (due @ [r]) c) (rd_campaigns db c)"
        using s advanced_snoc_same [of r ?c due s] advanced_snoc_other [of r c due]
        by (cases "c = ?c"; cases "rd_campaigns db c") simp_all
    qed
    have "activate_release (campaign_version ?db1 ?c) ?db1 now r = Inr (run_outcome db (due @ [r]) now, True)"
      using s rows True unfolding run_outcome_def
      by (simp add: activate_release_def campaign_version_def camp published_rows_def [of _ "due @ [r]"] newest_indices_snoc)
    then show ?thesis using True fresh by (simp add: activate_all_snoc [OF IH] newest_indices_snoc)
  next
    case False
    then have "rd_campaigns db ?c = Some s \<Longrightarrow> rl_version r \<le> cs_version (advanced_campaign due ?c s)" for s
      unfolding newest_at_end by fastforce
    then have skip: "activate_release (campaign_version ?db1 ?c) ?db1 now r = Inr (?db1, False)"
      by (auto simp: activate_release_def campaign_version_def run_outcome_def split: option.split)
    have "(\<lambda>c. map_option (advanced_campaign (due @ [r]) c) (rd_campaigns db c)) = (\<lambda>c. map_option (advanced_campaign due c) (rd_campaigns db c))"
    proof (rule ext)
      fix c
      show "map_option (advanced_campaign (due @ [r]) c) (rd_campaigns db c) = map_option (advanced_campaign due c) (rd_campaigns db c)"
        using False advanced_snoc_same [of r ?c due] advanced_snoc_other [of r c due] unfolding newest_at_end
        by (cases "c = ?c"; cases "rd_campaigns db c") simp_all
    qed
    then have "run_outcome db (due @ [r]) now = ?db1" by (simp add: run_outcome_def published_rows_snoc_skip [OF False])
    then show ?thesis using skip False by (simp add: activate_all_snoc [OF IH] newest_indices_snoc)
  qed
qed

lemma due_releases_rows:
  assumes "distinct (map rl_id (rd_releases db))"
  shows "distinct (map rl_id (due_releases db now))" "r \<in> set (due_releases db now) \<Longrightarrow> r \<in> set (rd_releases db) \<and> release_due r now"
proof -
  have "distinct (map rl_id (filter (\<lambda>r. release_due r now) (rd_releases db)))"
    using assms by (simp add: distinct_map inj_on_filter_key_eq) (auto simp: inj_on_def)
  then show "distinct (map rl_id (due_releases db now))"
    by (simp add: due_releases_def take_map [symmetric] sorted_releases distinct_take)
  show "r \<in> set (due_releases db now) \<Longrightarrow> r \<in> set (rd_releases db) \<and> release_due r now"
    using set_take_subset [of 100 "foldr insert_release (filter (\<lambda>r. release_due r now) (rd_releases db)) []"]
      sorted_releases [of "filter (\<lambda>r. release_due r now) (rd_releases db)"]
    by (auto simp: due_releases_def)
qed

text \<open>
  C35: A run over the scheduled releases completes, and its outcome is exact.  The run takes the
  first hundred approved releases whose date has come or is not set, by date and then by version.
  Of these it publishes exactly the ones that are newer than their campaign's version and than
  every earlier one of the campaign, reports how many it published, and leaves every campaign at
  the newest of its version and of these releases: running if it moved, untouched otherwise.  So
  no run takes a campaign back, whatever the order of the releases.  No other writer changes a
  campaign within one release's transaction.
\<close>

theorem activate_releases_newest:
  assumes "distinct (map rl_id (rd_releases db))"
  shows "activate_scheduled_releases db now =
      Inr (\<lparr>rd_campaigns = (\<lambda>c. map_option (advanced_campaign (due_releases db now) c) (rd_campaigns db c)),
            rd_releases = published_rows db (due_releases db now) now\<rparr>,
        length (due_releases db now), card (newest_indices db (due_releases db now)))"
  using activate_all_outcome [OF assms due_releases_rows(1) [OF assms], of now] due_releases_rows(2) [OF assms]
  by (simp add: activate_scheduled_releases_def run_outcome_def Let_def)

definition sample_release :: "string \<Rightarrow> int \<Rightarrow> js_date option \<Rightarrow> release_row" where
  "sample_release i n t = \<lparr>rl_id = i, rl_campaignId = ''c'', rl_version = n, rl_status = ''approved'', rl_scheduledAt = t,
     rl_publishedAt = None\<rparr>"

definition sample_releases :: release_db where
  "sample_releases = \<lparr>rd_campaigns = [''c'' \<mapsto> \<lparr>cs_status = ''draft'', cs_version = 1\<rparr>],
     rd_releases = [sample_release ''r2'' 2 None, sample_release ''r3'' 3 (Some 10)]\<rparr>"

lemma sample_due: "due_releases sample_releases 20 = [sample_release ''r3'' 3 (Some 10), sample_release ''r2'' 2 None]"
  by (simp add: due_releases_def sample_releases_def sample_release_def release_due_def release_before_def)

theorem activate_releases_newest_witness:
  "\<exists>db'. activate_scheduled_releases sample_releases 20 = Inr (db', 2, 1) \<and> campaign_version db' ''c'' = Some 3"
proof -
  let ?due = "[sample_release ''r3'' 3 (Some 10), sample_release ''r2'' 2 None]"
  have "newest_indices sample_releases ?due = {0}"
    by (auto simp: newest_indices_def newest_so_far_def less_Suc_eq campaign_version_def sample_releases_def sample_release_def eval_nat_numeral)
  then show ?thesis
    using activate_releases_newest [where db = sample_releases and now = 20] unfolding sample_due
    by (simp add: sample_releases_def campaign_version_def advanced_campaign_def sample_release_def)
qed

end
