(* ===== verification/Tokens.thy ===== *)
theory Tokens
  imports Bytes JsonText
begin

text \<open>
  The signed texts of the redirect path: click attribution tokens and visitor hashes
  (\<open>src/lib/attribution.ts\<close>), password hashes and unlock cookies
  (\<open>src/lib/password-gate.ts\<close>).  HMAC-SHA256 and scrypt are arbitrary functions to bytes; the
  secret is the environment variable, absent or present; the salt is the random value drawn.
\<close>

record crypto =
  cr_hmac :: "string \<Rightarrow> string \<Rightarrow> byte list"
  cr_scrypt :: "string \<Rightarrow> string \<Rightarrow> byte list"

definition attribution_secret :: "string option \<Rightarrow> string thrown" where
  "attribution_secret secret = (case secret of
       None \<Rightarrow> Inl ''QL_ATTRIBUTION_SECRET must be at least 32 characters''
     | Some s \<Rightarrow> if length s < 32 then Inl ''QL_ATTRIBUTION_SECRET must be at least 32 characters'' else Inr s)"

section \<open>Attribution tokens\<close>

definition TOKEN_TTL_MS :: int where "TOKEN_TTL_MS = 30 * 24 * 60 * 60 * 1000"
definition TOKEN_VERSION :: string where "TOKEN_VERSION = ''v1''"

record attribution_payload =
  ap_urlId :: string
  ap_shortCode :: string
  ap_clickEventId :: string
  ap_visitorIdHash :: string
  ap_issuedAt :: int

definition sign_payload :: "crypto \<Rightarrow> string \<Rightarrow> string \<Rightarrow> string" where
  "sign_payload cr secret encoded = base64url (cr_hmac cr secret (TOKEN_VERSION @ ''.'' @ encoded))"

definition hash_visitor_id :: "crypto \<Rightarrow> string \<Rightarrow> string \<Rightarrow> string" where
  "hash_visitor_id cr secret visitorId = hex_text (cr_hmac cr secret (''visitor:'' @ visitorId))"

definition payload_json :: "attribution_payload \<Rightarrow> json" where
  "payload_json p = JObj [(''urlId'', JStr (ap_urlId p)), (''shortCode'', JStr (ap_shortCode p)),
     (''clickEventId'', JStr (ap_clickEventId p)), (''visitorIdHash'', JStr (ap_visitorIdHash p)),
     (''issuedAt'', JInt (ap_issuedAt p))]"

definition create_attribution_token :: "crypto \<Rightarrow> string \<Rightarrow> attribution_payload \<Rightarrow> string" where
  "create_attribution_token cr secret p =
     (let encoded = base64url (utf8 (json_text (payload_json p)))
      in TOKEN_VERSION @ ''.'' @ encoded @ ''.'' @ sign_payload cr secret encoded)"

text \<open>Truthiness of a decoded property, and a property as a number (\<open>None\<close> is \<open>NaN\<close>).\<close>

fun json_truthy :: "json option \<Rightarrow> bool" where
  "json_truthy None = False"
| "json_truthy (Some JNull) = False"
| "json_truthy (Some (JBool b)) = b"
| "json_truthy (Some (JInt i)) = (i \<noteq> 0)"
| "json_truthy (Some (JFrac r)) = (r \<noteq> 0)"
| "json_truthy (Some (JStr s)) = (s \<noteq> [])"
| "json_truthy (Some (JArr _)) = True"
| "json_truthy (Some (JObj _)) = True"

fun json_to_number :: "json option \<Rightarrow> rat option" where
  "json_to_number None = None"
| "json_to_number (Some JNull) = Some 0"
| "json_to_number (Some (JBool b)) = Some (if b then 1 else 0)"
| "json_to_number (Some (JInt i)) = Some (of_int i)"
| "json_to_number (Some (JFrac r)) = Some r"
| "json_to_number (Some v) = js_number (js_string v)"

definition payload_current :: "json \<Rightarrow> js_date \<Rightarrow> bool" where
  "payload_current v now = (case json_to_number (jget v ''issuedAt'') of
       None \<Rightarrow> True
     | Some t \<Rightarrow> \<not> (of_int now - t < 0 \<or> of_int now - t > of_int TOKEN_TTL_MS))"

definition verify_attribution_token :: "crypto \<Rightarrow> string \<Rightarrow> js_date \<Rightarrow> string \<Rightarrow> json option" where
  "verify_attribution_token cr secret now token =
     (case split_on CHR ''.'' token of
        version # encoded # signature # _ \<Rightarrow>
          (if version \<noteq> TOKEN_VERSION \<or> encoded = [] \<or> signature = [] then None
           else if utf8 (sign_payload cr secret encoded) \<noteq> utf8 signature then None
           else (case Option.bind (utf8_decode (base64url_decode encoded)) parse_json of
               None \<Rightarrow> None
             | Some v \<Rightarrow>
                (if \<not> list_all (\<lambda>k. json_truthy (jget v k))
                      [''urlId'', ''shortCode'', ''clickEventId'', ''visitorIdHash'', ''issuedAt''] then None
                 else if payload_current v now then Some v else None)))
      | _ \<Rightarrow> None)"

section \<open>Password gate\<close>

definition PW_PREFIX :: string where "PW_PREFIX = ''scrypt$''"

definition hash_gate_password :: "crypto \<Rightarrow> byte list \<Rightarrow> string \<Rightarrow> string" where
  "hash_gate_password cr random password =
     (let salt = base64url random
      in PW_PREFIX @ salt @ ''$'' @ base64url (cr_scrypt cr password salt))"

text \<open>\<open>timingSafeEqual\<close> throws on buffers of different lengths; only the legacy branch lets it.\<close>

definition timing_safe_equal :: "byte list \<Rightarrow> byte list \<Rightarrow> bool thrown" where
  "timing_safe_equal a b = (if length a \<noteq> length b then Inl ''Input buffers must have the same byte length'' else Inr (a = b))"

definition verify_gate_password :: "crypto \<Rightarrow> string \<Rightarrow> string \<Rightarrow> bool thrown" where
  "verify_gate_password cr password stored =
     (if \<not> prefix PW_PREFIX stored
      then timing_safe_equal (utf8 (hex_text (cr_scrypt cr password ''ql_salt''))) (utf8 stored)
      else (case split_on CHR ''$'' stored of
          _ # salt # encoded # _ \<Rightarrow>
            (if salt = [] \<or> encoded = [] then Inr False
             else Inr (utf8 (base64url (cr_scrypt cr password salt)) = utf8 encoded))
        | _ \<Rightarrow> Inr False))"

definition create_unlock_token :: "crypto \<Rightarrow> string \<Rightarrow> string \<Rightarrow> string option \<Rightarrow> string" where
  "create_unlock_token cr secret shortCode passwordHash =
     (let bound = (if str_truthy passwordHash
          then ''unlock:'' @ shortCode @ '':'' @ hex_text (cr_hmac cr secret (the passwordHash))
          else ''unlock:'' @ shortCode)
      in hex_text (cr_hmac cr secret bound))"

definition verify_unlock_token :: "crypto \<Rightarrow> string option \<Rightarrow> string \<Rightarrow> string option \<Rightarrow> string option \<Rightarrow> bool" where
  "verify_unlock_token cr secret shortCode cookie passwordHash =
     (if \<not> str_truthy cookie then False
      else (case attribution_secret secret of
          Inl _ \<Rightarrow> False
        | Inr s \<Rightarrow> utf8 (create_unlock_token cr s shortCode passwordHash) = utf8 (the cookie)))"

section \<open>Facts\<close>

lemma b64_no_sep: "CHR ''.'' \<notin> set (base64url bs)" "CHR ''$'' \<notin> set (base64url bs)"
proof -
  have "CHR ''.'' \<notin> set b64_alphabet" "CHR ''$'' \<notin> set b64_alphabet" by (simp_all add: b64_alphabet_def)
  then show "CHR ''.'' \<notin> set (base64url bs)" "CHR ''$'' \<notin> set (base64url bs)" using base64url_chars by blast+
qed

lemma base64url_eq_Nil [simp]: "base64url bs = [] \<longleftrightarrow> bs = []"
  by (cases bs rule: sextets.cases) (simp_all add: base64url_def)

lemma base64url_inj [simp]: "base64url a = base64url b \<longleftrightarrow> a = b"
  by (metis base64url_roundtrip)

lemma utf8_eq_Nil [simp]: "utf8 s = [] \<longleftrightarrow> s = []"
  by (cases s) (simp_all add: utf8_def utf8_char_def Let_def)

lemma split_token:
  "split_on CHR ''.'' (create_attribution_token cr secret p) =
    [''v1'', base64url (utf8 (json_text (payload_json p))), sign_payload cr secret (base64url (utf8 (json_text (payload_json p))))]"
  by (simp add: create_attribution_token_def TOKEN_VERSION_def split_on_append split_on_no_sep b64_no_sep sign_payload_def Let_def)

lemma payload_reads_back: "parse_json (json_text (payload_json p)) = Some (payload_json p)"
  by (rule parse_json_text) (simp add: payload_json_def)

lemma json_text_payload_nonempty: "json_text (payload_json p) \<noteq> []"
  by (simp add: payload_json_def)

lemma unlock_accepts_iff:
  "verify_unlock_token cr secret code cookie pw \<longleftrightarrow>
    (\<exists>s v. secret = Some s \<and> 32 \<le> length s \<and> cookie = Some v \<and> v \<noteq> [] \<and> v = create_unlock_token cr s code pw)"
  by (auto simp: verify_unlock_token_def attribution_secret_def str_truthy_iff split: option.splits)

lemma unlock_token_nonempty: "(\<And>m. cr_hmac cr secret m \<noteq> []) \<Longrightarrow> create_unlock_token cr secret code pw \<noteq> []"
  by (simp add: create_unlock_token_def hex_text_def Let_def)

text \<open>
  C36: A click attribution token is accepted exactly within its thirty days and gives back
  the payload it was made from, whatever the secret and the HMAC.
\<close>

theorem attribution_token_roundtrip:
  assumes "ap_urlId p \<noteq> []" "ap_shortCode p \<noteq> []" "ap_clickEventId p \<noteq> []" "ap_visitorIdHash p \<noteq> []" "ap_issuedAt p \<noteq> 0"
    and "\<And>m. cr_hmac cr secret m \<noteq> []"
  shows "verify_attribution_token cr secret now (create_attribution_token cr secret p) =
    (if ap_issuedAt p \<le> now \<and> now \<le> ap_issuedAt p + TOKEN_TTL_MS then Some (payload_json p) else None)"
proof -
  have age: "payload_current (payload_json p) now \<longleftrightarrow> ap_issuedAt p \<le> now \<and> now \<le> ap_issuedAt p + TOKEN_TTL_MS"
    by (simp add: payload_current_def payload_json_def) (simp flip: of_int_diff add: algebra_simps, linarith)
  have "list_all (\<lambda>k. json_truthy (jget (payload_json p) k))
      [''urlId'', ''shortCode'', ''clickEventId'', ''visitorIdHash'', ''issuedAt'']"
    using assms(1-5) by (simp add: payload_json_def)
  moreover have "sign_payload cr secret e \<noteq> []" for e using assms(6) by (simp add: sign_payload_def)
  ultimately show ?thesis
    unfolding verify_attribution_token_def split_token
    by (simp add: TOKEN_VERSION_def payload_reads_back json_text_payload_nonempty age)
qed

definition sample_crypto :: crypto where
  "sample_crypto = \<lparr>cr_hmac = (\<lambda>k m. of_nat (length k) # utf8 m), cr_scrypt = (\<lambda>pw salt. 1 # utf8 (pw @ salt))\<rparr>"

definition sample_payload :: attribution_payload where
  "sample_payload = \<lparr>ap_urlId = ''u1'', ap_shortCode = ''go'', ap_clickEventId = ''c1'', ap_visitorIdHash = ''ab'', ap_issuedAt = 1000\<rparr>"

theorem attribution_token_roundtrip_witness:
  "verify_attribution_token sample_crypto ''k'' 5000 (create_attribution_token sample_crypto ''k'' sample_payload)
     = Some (payload_json sample_payload)"
  using attribution_token_roundtrip [where p = sample_payload and cr = sample_crypto and secret = "''k''" and now = 5000]
  by (simp add: sample_payload_def sample_crypto_def TOKEN_TTL_MS_def)

text \<open>
  The password gate.  A stored hash accepts a password exactly when scrypt of it under
  the stored salt is that of the password it was made from, so the right password always
  passes; and a cookie issued for one stored hash passes for another only where two
  different messages have the same HMAC.
\<close>

lemma password_gate_exact:
  assumes salt: "random \<noteq> []" and key: "\<And>pw s. cr_scrypt cr pw s \<noteq> []" and secret: "32 \<le> length secret"
    and hash: "h \<noteq> []" "h' \<noteq> []" and hmac: "\<And>m. cr_hmac cr secret m \<noteq> []"
  shows "verify_gate_password cr password' (hash_gate_password cr random password) =
      Inr (cr_scrypt cr password' (base64url random) = cr_scrypt cr password (base64url random))
    \<and> verify_unlock_token cr (Some secret) code (Some (create_unlock_token cr secret code (Some h))) (Some h)
    \<and> (verify_unlock_token cr (Some secret) code (Some (create_unlock_token cr secret code (Some h))) (Some h') \<longrightarrow>
        h = h' \<or> (\<exists>m m'. m \<noteq> m' \<and> cr_hmac cr secret m = cr_hmac cr secret m'))"
proof (intro conjI impI)
  have "split_on CHR ''$'' (hash_gate_password cr random password) =
      [''scrypt'', base64url random, base64url (cr_scrypt cr password (base64url random))]"
    by (simp add: hash_gate_password_def PW_PREFIX_def split_on_append split_on_no_sep b64_no_sep Let_def)
  then show "verify_gate_password cr password' (hash_gate_password cr random password) =
      Inr (cr_scrypt cr password' (base64url random) = cr_scrypt cr password (base64url random))"
    using salt key by (simp add: verify_gate_password_def hash_gate_password_def PW_PREFIX_def Let_def)
  show "verify_unlock_token cr (Some secret) code (Some (create_unlock_token cr secret code (Some h))) (Some h)"
    using secret hmac by (simp add: unlock_accepts_iff unlock_token_nonempty)
  assume "verify_unlock_token cr (Some secret) code (Some (create_unlock_token cr secret code (Some h))) (Some h')"
  then have "cr_hmac cr secret (''unlock:'' @ code @ '':'' @ hex_text (cr_hmac cr secret h)) =
      cr_hmac cr secret (''unlock:'' @ code @ '':'' @ hex_text (cr_hmac cr secret h'))"
    using hash by (auto simp: unlock_accepts_iff create_unlock_token_def str_truthy_iff)
  then show "h = h' \<or> (\<exists>m m'. m \<noteq> m' \<and> cr_hmac cr secret m = cr_hmac cr secret m')"
    by (metis hex_text_inj same_append_eq)
qed

lemma password_gate_exact_witness:
  "verify_gate_password sample_crypto ''b'' (hash_gate_password sample_crypto [7] ''a'') = Inr False
    \<and> verify_unlock_token sample_crypto (Some (replicate 32 CHR ''s'')) ''go''
        (Some (create_unlock_token sample_crypto (replicate 32 CHR ''s'') ''go'' (Some ''h''))) (Some ''h'')"
  using password_gate_exact [where cr = sample_crypto and random = "[7]" and secret = "replicate 32 CHR ''s''"
      and h = "''h''" and h' = "''h''" and password = "''a''" and password' = "''b''" and code = "''go''"]
  by (simp add: sample_crypto_def)

end
