(* ===== verification/RateLimit.thy ===== *)
theory RateLimit
  imports Http JsValue
begin

text \<open>
  The sliding-window rate limiter (\<open>src/lib/rate-limit.ts\<close>): the in-memory buckets with
  eviction of the least recently touched one, the Lua script run on a Redis sorted set, the
  choice between the two, the client address and the response headers.  What both backends
  promise is the locale \<open>rate_backend\<close>; the guarantee of the window is proved once in it.

  A sorted set is the list of its members with their scores, by score.  The \<open>PEXPIRE\<close> of the
  script only frees memory: when it fires every member is older than the window.
\<close>

section \<open>Results\<close>

record rate_result =
  rl_allowed :: bool
  rl_remaining :: int
  rl_retryAfterSeconds :: int
  rl_limit :: int
  rl_resetSeconds :: "int option"

text \<open>\<open>Math.max(1, Math.ceil(ms / 1000))\<close>\<close>

definition seconds_up :: "int \<Rightarrow> int" where
  "seconds_up ms = max 1 (- ((- ms) div 1000))"

section \<open>In memory\<close>

record bucket =
  bk_hits :: "js_date list"
  bk_touchedAt :: js_date

type_synonym memory = "(string \<times> bucket) list"

text \<open>The scan of \<open>evictIfNeeded\<close>: the first bucket with the least \<open>touchedAt\<close>.\<close>

fun least_touched :: "memory \<Rightarrow> (string \<times> js_date) option" where
  "least_touched [] = None"
| "least_touched ((k, b) # m) = (case least_touched m of None \<Rightarrow> Some (k, bk_touchedAt b)
     | Some (j, t) \<Rightarrow> if bk_touchedAt b \<le> t then Some (k, bk_touchedAt b) else Some (j, t))"

lemma least_touched_in: "least_touched m = Some (k, t) \<Longrightarrow> k \<in> fst ` set m"
  by (induction m arbitrary: k t) (fastforce split: option.splits if_splits)+

function evict_if_needed :: "nat \<Rightarrow> memory \<Rightarrow> memory" where
  "evict_if_needed maxBuckets m =
     (if length m \<le> maxBuckets then m
      else (case least_touched m of
          None \<Rightarrow> m
        | Some (k, _) \<Rightarrow> if k = [] then m else evict_if_needed maxBuckets (filter (\<lambda>e. fst e \<noteq> k) m)))"
  by pat_completeness auto

termination
proof (relation "measure (\<lambda>(n, m). length m)")
  fix maxBuckets :: nat and m :: memory and x2 k t
  assume "least_touched m = Some x2" "(k, t) = x2"
  then have "\<exists>e \<in> set m. fst e = k" using least_touched_in by fastforce
  then show "((maxBuckets, filter (\<lambda>e. fst e \<noteq> k) m), (maxBuckets, m)) \<in> measure (\<lambda>(n, m). length m)"
    by (auto intro: length_filter_less)
qed simp

declare evict_if_needed.simps [simp del]

definition put_bucket :: "memory \<Rightarrow> string \<Rightarrow> bucket \<Rightarrow> memory" where
  "put_bucket m k b = map (\<lambda>e. if fst e = k then (k, b) else e) m"

text \<open>The bucket of a key, created (and the map trimmed) when there is none.\<close>

definition open_bucket :: "nat \<Rightarrow> memory \<Rightarrow> string \<Rightarrow> js_date \<Rightarrow> memory \<times> bucket" where
  "open_bucket maxBuckets m key now = (case map_of m key of
       Some b \<Rightarrow> (m, b)
     | None \<Rightarrow> (evict_if_needed maxBuckets (m @ [(key, \<lparr>bk_hits = [], bk_touchedAt = now\<rparr>)]), \<lparr>bk_hits = [], bk_touchedAt = now\<rparr>))"

definition memory_hit :: "nat \<Rightarrow> memory \<Rightarrow> string \<Rightarrow> nat \<Rightarrow> int \<Rightarrow> js_date \<Rightarrow> memory \<times> rate_result" where
  "memory_hit maxBuckets m key cap windowMs now =
     (case open_bucket maxBuckets m key now of (m1, b) \<Rightarrow>
       (let hits = dropWhile (\<lambda>t. t \<le> now - windowMs) (bk_hits b) in
        if length hits \<ge> cap
        then (put_bucket m1 key \<lparr>bk_hits = hits, bk_touchedAt = now\<rparr>,
              (let s = seconds_up (hd (hits @ [now]) + windowMs - now)
               in \<lparr>rl_allowed = False, rl_remaining = 0, rl_retryAfterSeconds = s, rl_limit = int cap, rl_resetSeconds = Some s\<rparr>))
        else (let hits' = hits @ [now]
              in (put_bucket m1 key \<lparr>bk_hits = hits', bk_touchedAt = now\<rparr>,
                  \<lparr>rl_allowed = True, rl_remaining = int cap - int (length hits'), rl_retryAfterSeconds = 0, rl_limit = int cap,
                   rl_resetSeconds = Some (seconds_up (hd hits' + windowMs - now))\<rparr>))))"

section \<open>Redis\<close>

type_synonym zset = "(js_date \<times> string) list"

text \<open>Members of equal score are ordered by their text; adding a member again moves it.\<close>

fun zinsert :: "zset \<Rightarrow> js_date \<Rightarrow> string \<Rightarrow> zset" where
  "zinsert [] score member = [(score, member)]"
| "zinsert ((s, m) # z) score member =
     (if s < score \<or> (s = score \<and> str_le m member) then (s, m) # zinsert z score member else (score, member) # (s, m) # z)"

definition zrem :: "zset \<Rightarrow> string \<Rightarrow> zset" where
  "zrem z member = filter (\<lambda>(s, m). m \<noteq> member) z"

definition zadd :: "zset \<Rightarrow> js_date \<Rightarrow> string \<Rightarrow> zset" where
  "zadd z score member = zinsert (zrem z member) score member"

definition zremrangebyscore :: "zset \<Rightarrow> js_date \<Rightarrow> js_date \<Rightarrow> zset" where
  "zremrangebyscore z lo hi = filter (\<lambda>(s, m). \<not> (lo \<le> s \<and> s \<le> hi)) z"

text \<open>The script: the new set and its reply.\<close>

definition hit_script :: "zset \<Rightarrow> js_date \<Rightarrow> js_date \<Rightarrow> string \<Rightarrow> nat \<Rightarrow> zset \<times> (bool \<times> int \<times> js_date)" where
  "hit_script z windowStart now member cap =
     (let z1 = zadd (zremrangebyscore z 0 windowStart) now member;
          cnt = length z1
      in if cnt > cap
         then (let z2 = zrem z1 member
               in (z2, (False, int cnt - 1, (case z2 of [] \<Rightarrow> 0 | (s, _) # _ \<Rightarrow> s))))
         else (z1, (True, int cnt, 0)))"

type_synonym redis = "string \<Rightarrow> zset"

text \<open>\<open>hitRedis\<close>, with the random part of the member it draws.\<close>

definition redis_hit :: "redis \<Rightarrow> string \<Rightarrow> string \<Rightarrow> nat \<Rightarrow> int \<Rightarrow> js_date \<Rightarrow> redis \<times> rate_result" where
  "redis_hit rd random key cap windowMs now =
     (let redisKey = ''ratelimit:'' @ key in
      case hit_script (rd redisKey) (now - windowMs) now (int_dec now @ ''-'' @ random) cap of
        (z, allowed, hitsCount, oldestAt) \<Rightarrow>
          (rd(redisKey := z),
           (if \<not> allowed
            then (let s = (if oldestAt > 0 then seconds_up (oldestAt + windowMs - now) else 1)
                  in \<lparr>rl_allowed = False, rl_remaining = 0, rl_retryAfterSeconds = s, rl_limit = int cap, rl_resetSeconds = Some s\<rparr>)
            else \<lparr>rl_allowed = True, rl_remaining = int cap - hitsCount, rl_retryAfterSeconds = 0, rl_limit = int cap,
                  rl_resetSeconds = Some (seconds_up windowMs)\<rparr>)))"

text \<open>
  The Redis backend also counts in memory, and answers from there when Redis does not.
  \<open>up\<close> says whether \<open>withRedis\<close> reached it.
\<close>

definition redis_backend_hit ::
  "nat \<Rightarrow> bool \<Rightarrow> memory \<times> redis \<Rightarrow> string \<Rightarrow> string \<Rightarrow> nat \<Rightarrow> int \<Rightarrow> js_date \<Rightarrow> (memory \<times> redis) \<times> rate_result" where
  "redis_backend_hit maxBuckets up s random key cap windowMs now =
     (case memory_hit maxBuckets (fst s) key cap windowMs now of (m, fallback) \<Rightarrow>
        if up then (case redis_hit (snd s) random key cap windowMs now of (rd, r) \<Rightarrow> ((m, rd), r))
        else ((m, snd s), fallback))"

section \<open>Callers\<close>

text \<open>\<open>Number.parseInt(v, 10)\<close> of a text: sign and leading digits.\<close>

definition parse_int :: "string \<Rightarrow> int option" where
  "parse_int v = (case split_sign (dropWhile is_ws v) of (neg, s) \<Rightarrow>
     (let ds = takeWhile is_digit s
      in if ds = [] then None else Some (if neg then - int (dec_val ds) else int (dec_val ds))))"

definition trusted_proxy_hops :: "string option \<Rightarrow> nat" where
  "trusted_proxy_hops env = (case parse_int (coalesce env []) of
       Some n \<Rightarrow> if n > 0 \<and> n \<le> 10 then nat n else 0 | None \<Rightarrow> 0)"

definition client_ip_from_forwarded :: "string option \<Rightarrow> string option \<Rightarrow> nat \<Rightarrow> string" where
  "client_ip_from_forwarded forwarded realIp hops =
     (let parts = (if str_truthy forwarded
          then filter nonempty (map trim (split_on CHR '','' (the forwarded))) else [])
      in if parts \<noteq> [] then parts ! (if hops > 0 then length parts - hops else 0)
         else or_default realIp ''unknown'')"

definition get_client_ip :: "string option \<Rightarrow> request \<Rightarrow> string" where
  "get_client_ip hopsEnv rq =
     client_ip_from_forwarded (rq_header rq ''x-forwarded-for'') (rq_header rq ''x-real-ip'') (trusted_proxy_hops hopsEnv)"

definition rate_limit_key :: "string option \<Rightarrow> request \<Rightarrow> string \<Rightarrow> string option \<Rightarrow> string" where
  "rate_limit_key hopsEnv rq name identifier = name @ '':'' @ coalesce identifier (get_client_ip hopsEnv rq)"

definition rate_limit_headers :: "rate_result \<Rightarrow> (string \<times> string) list" where
  "rate_limit_headers r =
     (let reset = int_dec (coalesce (rl_resetSeconds r) (rl_retryAfterSeconds r));
          remaining = int_dec (max 0 (rl_remaining r))
      in [(''RateLimit-Limit'', int_dec (rl_limit r)), (''RateLimit-Remaining'', remaining), (''RateLimit-Reset'', reset),
          (''X-RateLimit-Limit'', int_dec (rl_limit r)), (''X-RateLimit-Remaining'', remaining), (''X-RateLimit-Reset'', reset)]
         @ (if \<not> rl_allowed r then [(''Retry-After'', int_dec (max 1 (rl_retryAfterSeconds r)))] else []))"

section \<open>The contract of a backend\<close>

lemma filter_mono_length: "(\<And>x. x \<in> set xs \<Longrightarrow> P x \<Longrightarrow> Q x) \<Longrightarrow> length (filter P xs) \<le> length (filter Q xs)"
  by (induction xs) auto

text \<open>
  A request draws a random text, and names its key, limit, window and instant.
  \<open>limiter_run\<close> plays requests against a backend and collects the verdicts.
\<close>

record limit_request =
  lq_random :: string
  lq_key :: string
  lq_cap :: nat
  lq_window :: int
  lq_at :: js_date

type_synonym 's hit_fun = "'s \<Rightarrow> string \<Rightarrow> string \<Rightarrow> nat \<Rightarrow> int \<Rightarrow> js_date \<Rightarrow> 's \<times> rate_result"

definition hit_request :: "'s hit_fun \<Rightarrow> 's \<Rightarrow> limit_request \<Rightarrow> 's \<times> rate_result" where
  "hit_request hit s q = hit s (lq_random q) (lq_key q) (lq_cap q) (lq_window q) (lq_at q)"

fun limiter_run :: "'s hit_fun \<Rightarrow> 's \<Rightarrow> limit_request list \<Rightarrow> 's \<times> rate_result list" where
  "limiter_run hit s [] = (s, [])"
| "limiter_run hit s (q # qs) = (case hit_request hit s q of (s1, r) \<Rightarrow>
     (case limiter_run hit s1 qs of (s2, rs) \<Rightarrow> (s2, r # rs)))"

lemma limiter_run_verdicts: "snd (limiter_run hit s (q # qs)) =
    snd (hit_request hit s q) # snd (limiter_run hit (fst (hit_request hit s q)) qs)"
  by (simp split: prod.split)

text \<open>The instants at which requests of a key were allowed.\<close>

definition allowed_at :: "string \<Rightarrow> limit_request list \<Rightarrow> rate_result list \<Rightarrow> js_date list" where
  "allowed_at k qs rs = map (lq_at \<circ> fst) (filter (\<lambda>(q, r). lq_key q = k \<and> rl_allowed r) (zip qs rs))"

definition in_window :: "int \<Rightarrow> js_date \<Rightarrow> js_date list \<Rightarrow> js_date list" where
  "in_window w t xs = filter (\<lambda>x. t - w < x) xs"

text \<open>
  \<open>hits_of\<close> is what a backend remembers of a key; \<open>ready\<close> says that a request comes with a
  clock that has not gone back and a random text not drawn before; \<open>evicts s q j\<close> that serving
  \<open>q\<close> drops what is remembered of \<open>j\<close>.
\<close>

locale rate_backend =
  fixes hit :: "'s hit_fun"
    and hits_of :: "'s \<Rightarrow> string \<Rightarrow> js_date list"
    and ok :: "'s \<Rightarrow> bool"
    and ready :: "'s \<Rightarrow> limit_request \<Rightarrow> bool"
    and evicts :: "'s \<Rightarrow> limit_request \<Rightarrow> string \<Rightarrow> bool"
  assumes ok_hit: "ok s \<Longrightarrow> ready s q \<Longrightarrow> 0 < lq_cap q \<Longrightarrow> ok (fst (hit_request hit s q))"
    and verdict: "ok s \<Longrightarrow> ready s q \<Longrightarrow> 0 < lq_cap q \<Longrightarrow>
      rl_allowed (snd (hit_request hit s q)) \<longleftrightarrow> length (in_window (lq_window q) (lq_at q) (hits_of s (lq_key q))) < lq_cap q"
    and remaining: "ok s \<Longrightarrow> ready s q \<Longrightarrow> 0 < lq_cap q \<Longrightarrow>
      rl_remaining (snd (hit_request hit s q)) =
        max 0 (int (lq_cap q) - int (length (in_window (lq_window q) (lq_at q) (hits_of s (lq_key q)))) - 1)"
    and own: "ok s \<Longrightarrow> ready s q \<Longrightarrow> 0 < lq_cap q \<Longrightarrow>
      hits_of (fst (hit_request hit s q)) (lq_key q) = in_window (lq_window q) (lq_at q) (hits_of s (lq_key q)) @
        (if rl_allowed (snd (hit_request hit s q)) then [lq_at q] else [])"
    and other: "ok s \<Longrightarrow> ready s q \<Longrightarrow> 0 < lq_cap q \<Longrightarrow> j \<noteq> lq_key q \<Longrightarrow> \<not> evicts s q j \<Longrightarrow>
      hits_of (fst (hit_request hit s q)) j = hits_of s j"
    and past: "ok s \<Longrightarrow> ready s q \<Longrightarrow> x \<in> set (hits_of s j) \<Longrightarrow> x \<le> lq_at q"
begin

text \<open>Every request of the run is ready when it comes, and none evicts the key.\<close>

fun served :: "string \<Rightarrow> 's \<Rightarrow> limit_request list \<Rightarrow> bool" where
  "served k s [] = True"
| "served k s (q # qs) = (ready s q \<and> 0 < lq_cap q \<and> 0 < lq_window q \<and> \<not> (lq_key q \<noteq> k \<and> evicts s q k) \<and>
     served k (fst (hit_request hit s q)) qs)"

text \<open>Every request of the run is ready, and none evicts anything.\<close>

fun served_all :: "'s \<Rightarrow> limit_request list \<Rightarrow> bool" where
  "served_all s [] = True"
| "served_all s (q # qs) = (ready s q \<and> 0 < lq_cap q \<and> 0 < lq_window q \<and> (\<forall>j. \<not> evicts s q j) \<and>
     served_all (fst (hit_request hit s q)) qs)"

lemma served_all_served: "served_all s qs \<Longrightarrow> served k s qs"
  by (induction qs arbitrary: s) auto

text \<open>
  The window holds: the state remembers, of the instants allowed so far, those in the window
  that ends at the latest request of the key, and every window holds at most \<open>cap\<close> of them.
\<close>

lemma run_window:
  assumes "ok s" "served k s qs" "\<forall>q \<in> set qs. lq_key q = k \<longrightarrow> lq_cap q = cap \<and> lq_window q = w"
    and "hits_of s k = in_window w latest seen" "\<forall>q \<in> set qs. latest \<le> lq_at q" "sorted (map lq_at qs)"
    and "\<forall>x \<in> set seen. x \<le> latest" "\<And>T. length (filter (\<lambda>x. T - w < x \<and> x \<le> T) seen) \<le> cap"
  shows "length (filter (\<lambda>x. T - w < x \<and> x \<le> T) (seen @ allowed_at k qs (snd (limiter_run hit s qs)))) \<le> cap"
  using assms
proof (induction qs arbitrary: s latest seen)
  case Nil
  then show ?case by (simp add: allowed_at_def)
next
  case (Cons q qs)
  let ?s = "fst (hit_request hit s q)" and ?r = "snd (hit_request hit s q)"
  have step: "allowed_at k (q # qs) (snd (limiter_run hit s (q # qs))) =
      (if lq_key q = k \<and> rl_allowed ?r then [lq_at q] else []) @ allowed_at k qs (snd (limiter_run hit ?s qs))"
    by (simp add: allowed_at_def limiter_run_verdicts del: limiter_run.simps)
  have ready: "ready s q" "0 < lq_cap q" and rest: "served k ?s qs" using Cons.prems(2) by auto
  have sorted: "sorted (map lq_at qs)" "\<forall>p \<in> set qs. lq_at q \<le> lq_at p" using Cons.prems(6) by auto
  have conf: "\<forall>p \<in> set qs. lq_key p = k \<longrightarrow> lq_cap p = cap \<and> lq_window p = w" using Cons.prems(3) by simp
  note IH = Cons.IH [OF ok_hit [OF Cons.prems(1) ready] rest conf]
  show ?case
  proof (cases "lq_key q = k")
    case False
    have "hits_of ?s k = in_window w latest seen"
      using other [OF Cons.prems(1) ready, of k] False Cons.prems(2,4) by auto
    moreover have "\<forall>p \<in> set qs. latest \<le> lq_at p" using Cons.prems(5) by simp
    ultimately show ?thesis unfolding step using IH [OF _ _ sorted(1) Cons.prems(7,8)] False by simp
  next
    case True
    let ?t = "lq_at q"
    have cw: "lq_cap q = cap" "lq_window q = w" using Cons.prems(3) True by auto
    have le: "latest \<le> ?t" using Cons.prems(5) by simp
    then have recent: "in_window w ?t (hits_of s k) = in_window w ?t seen"
      unfolding Cons.prems(4) by (auto simp: in_window_def intro: filter_cong)
    have upto: "\<forall>x \<in> set seen. x \<le> ?t" using Cons.prems(7) le by fastforce
    define new where "new = (if rl_allowed ?r then [?t] else [])"
    have allowed: "rl_allowed ?r \<longleftrightarrow> length (in_window w ?t seen) < cap"
      using verdict [OF Cons.prems(1) ready] True cw recent by simp
    have "0 < w" using Cons.prems(2) cw by simp
    then have own': "hits_of ?s k = in_window w ?t (seen @ new)"
      using own [OF Cons.prems(1) ready] True cw recent by (simp add: new_def in_window_def)
    have bound: "length (filter (\<lambda>x. T - w < x \<and> x \<le> T) (seen @ new)) \<le> cap" for T
    proof (cases "new = [] \<or> T < ?t")
      case True
      then have "filter (\<lambda>x. T - w < x \<and> x \<le> T) new = []" by (auto simp: new_def)
      then show ?thesis using Cons.prems(8) [of T] by simp
    next
      case False
      then have "length (in_window w ?t seen) < cap" "?t \<le> T" "length new = 1" using allowed by (auto simp: new_def split: if_splits)
      moreover have "length (filter (\<lambda>x. T - w < x \<and> x \<le> T) seen) \<le> length (in_window w ?t seen)"
        unfolding in_window_def using \<open>?t \<le> T\<close> by (intro filter_mono_length) auto
      moreover have "length (filter (\<lambda>x. T - w < x \<and> x \<le> T) new) \<le> length new" by simp
      ultimately show ?thesis by simp
    qed
    have "\<forall>x \<in> set (seen @ new). x \<le> ?t" using upto by (auto simp: new_def)
    from IH [OF own' sorted(2) sorted(1) this bound] show ?thesis
      unfolding step using True by (simp add: new_def)
  qed
qed

text \<open>A key not seen before.\<close>

lemma window_guarantee:
  assumes "ok s" "served k s qs" "hits_of s k = []" "sorted (map lq_at qs)"
    "\<forall>q \<in> set qs. lq_key q = k \<longrightarrow> lq_cap q = cap \<and> lq_window q = w"
  shows "length (filter (\<lambda>x. T - w < x \<and> x \<le> T) (allowed_at k qs (snd (limiter_run hit s qs)))) \<le> cap"
proof (cases qs)
  case (Cons q qs')
  then have "\<forall>q' \<in> set qs. lq_at q \<le> lq_at q'" using assms(4) by auto
  then show ?thesis using run_window [OF assms(1,2,5) _ _ assms(4), of "lq_at q" "[]"] assms(3) by (simp add: in_window_def)
qed (simp add: allowed_at_def)

end

text \<open>Two backends that remember the same hits give the same verdicts.\<close>

locale two_backends =
  one: rate_backend hit hits_of ok ready evicts + two: rate_backend hit' hits_of' ok' ready' evicts'
  for hit :: "'s hit_fun" and hits_of ok ready evicts
    and hit' :: "'t hit_fun" and hits_of' ok' ready' evicts'
begin

lemma same_verdicts:
  "ok s \<Longrightarrow> ok' s' \<Longrightarrow> (\<And>k. hits_of s k = hits_of' s' k) \<Longrightarrow> one.served_all s qs \<Longrightarrow> two.served_all s' qs \<Longrightarrow>
    map (\<lambda>r. (rl_allowed r, rl_remaining r)) (snd (limiter_run hit s qs)) =
    map (\<lambda>r. (rl_allowed r, rl_remaining r)) (snd (limiter_run hit' s' qs))"
proof (induction qs arbitrary: s s')
  case (Cons q qs)
  let ?s = "fst (hit_request hit s q)" and ?s' = "fst (hit_request hit' s' q)"
  have r: "ready s q" "ready' s' q" "0 < lq_cap q" using Cons.prems(4,5) by auto
  have v: "rl_allowed (snd (hit_request hit s q)) = rl_allowed (snd (hit_request hit' s' q))"
    "rl_remaining (snd (hit_request hit s q)) = rl_remaining (snd (hit_request hit' s' q))"
    using one.verdict [OF Cons.prems(1) r(1,3)] two.verdict [OF Cons.prems(2) r(2,3)]
      one.remaining [OF Cons.prems(1) r(1,3)] two.remaining [OF Cons.prems(2) r(2,3)] Cons.prems(3) by auto
  have "hits_of ?s k = hits_of' ?s' k" for k
  proof (cases "k = lq_key q")
    case True
    then show ?thesis using one.own [OF Cons.prems(1) r(1,3)] two.own [OF Cons.prems(2) r(2,3)] Cons.prems(3) v by simp
  next
    case False
    then show ?thesis
      using one.other [OF Cons.prems(1) r(1,3) False] two.other [OF Cons.prems(2) r(2,3) False] Cons.prems by simp
  qed
  moreover have "ok ?s" "ok' ?s'" using one.ok_hit [OF Cons.prems(1) r(1,3)] two.ok_hit [OF Cons.prems(2) r(2,3)] by auto
  ultimately have "map (\<lambda>r. (rl_allowed r, rl_remaining r)) (snd (limiter_run hit ?s qs)) =
      map (\<lambda>r. (rl_allowed r, rl_remaining r)) (snd (limiter_run hit' ?s' qs))"
    using Cons.prems(4,5) by (intro Cons.IH) simp_all
  then show ?case using v by (simp only: limiter_run_verdicts list.map)
qed simp

end

section \<open>Both backends keep the contract\<close>

definition memory_fun :: "nat \<Rightarrow> memory hit_fun" where
  "memory_fun maxBuckets s r k cap w t = memory_hit maxBuckets s k cap w t"

definition memory_hits :: "memory \<Rightarrow> string \<Rightarrow> js_date list" where
  "memory_hits m k = (case map_of m k of None \<Rightarrow> [] | Some b \<Rightarrow> bk_hits b)"

definition memory_ok :: "memory \<Rightarrow> bool" where
  "memory_ok m \<longleftrightarrow> distinct (map fst m) \<and> [] \<notin> fst ` set m \<and> (\<forall>e \<in> set m. sorted (bk_hits (snd e)) \<and>
     (\<forall>x \<in> set (bk_hits (snd e)). x \<le> bk_touchedAt (snd e)))"

definition memory_ready :: "memory \<Rightarrow> limit_request \<Rightarrow> bool" where
  "memory_ready m q \<longleftrightarrow> lq_key q \<noteq> [] \<and> (\<forall>e \<in> set m. bk_touchedAt (snd e) \<le> lq_at q)"

definition memory_evicts :: "nat \<Rightarrow> memory \<Rightarrow> limit_request \<Rightarrow> string \<Rightarrow> bool" where
  "memory_evicts maxBuckets m q j \<longleftrightarrow>
     map_of m j \<noteq> None \<and> map_of (fst (open_bucket maxBuckets m (lq_key q) (lq_at q))) j = None"

lemma memory_kept: "length m \<le> maxBuckets \<Longrightarrow> evict_if_needed maxBuckets m = m"
  by (subst evict_if_needed.simps) simp

lemma evict_stop:
  "length m \<le> n \<or> least_touched m = None \<or> (\<exists>t. least_touched m = Some ([], t)) \<Longrightarrow> evict_if_needed n m = m"
  by (subst evict_if_needed.simps) (elim disjE exE; simp)

lemma evict_step:
  "\<not> length m \<le> n \<Longrightarrow> least_touched m = Some (k, t) \<Longrightarrow> k \<noteq> [] \<Longrightarrow>
    evict_if_needed n m = evict_if_needed n (filter (\<lambda>e. fst e \<noteq> k) m)"
  by (subst evict_if_needed.simps) simp

lemma evict_filter: "\<exists>P. evict_if_needed maxBuckets m = filter P m"
proof (induction maxBuckets m rule: evict_if_needed.induct)
  case (1 n m)
  show ?case
  proof (cases "length m \<le> n \<or> least_touched m = None \<or> (\<exists>t. least_touched m = Some ([], t))")
    case True
    then have "evict_if_needed n m = m" by (rule evict_stop)
    then show ?thesis by (intro exI [of _ "\<lambda>_. True"]) simp
  next
    case False
    then obtain x where x: "least_touched m = Some x" by (cases "least_touched m") simp_all
    obtain k t where "x = (k, t)" by (cases x)
    then have k: "least_touched m = Some (k, t)" "k \<noteq> []" using False x by simp_all
    have "\<exists>P. evict_if_needed n (filter (\<lambda>e. fst e \<noteq> k) m) = filter P (filter (\<lambda>e. fst e \<noteq> k) m)"
      using 1 [of "(k, t)" k t] False k by simp
    then obtain P where "evict_if_needed n (filter (\<lambda>e. fst e \<noteq> k) m) = filter P (filter (\<lambda>e. fst e \<noteq> k) m)" by blast
    moreover have "evict_if_needed n m = evict_if_needed n (filter (\<lambda>e. fst e \<noteq> k) m)"
      using False k by (intro evict_step) simp_all
    ultimately have "evict_if_needed n m = filter (\<lambda>e. fst e \<noteq> k \<and> P e) m" by (simp add: conj_commute)
    then show ?thesis by blast
  qed
qed

lemma evict_set: "set (evict_if_needed maxBuckets m) \<subseteq> set m"
  using evict_filter [of maxBuckets m] by auto

lemma evict_distinct: "distinct (map fst m) \<Longrightarrow> distinct (map fst (evict_if_needed maxBuckets m))"
  using evict_filter [of maxBuckets m] by (auto simp: distinct_map_filter)

text \<open>The bucket just added is the most recently touched and is not the one evicted.\<close>

lemma least_touched_older:
  "m \<noteq> [] \<Longrightarrow> \<forall>e \<in> set m. bk_touchedAt (snd e) \<le> bk_touchedAt b \<Longrightarrow>
    \<exists>j t. least_touched (m @ [(k, b)]) = Some (j, t) \<and> j \<in> fst ` set m \<and> t \<le> bk_touchedAt b"
proof (induction m)
  case (Cons e m)
  obtain j c where e: "e = (j, c)" by force
  show ?case
  proof (cases "m = []")
    case True
    then show ?thesis using Cons.prems by (simp add: e)
  next
    case False
    then obtain i t where "least_touched (m @ [(k, b)]) = Some (i, t)" "i \<in> fst ` set m" "t \<le> bk_touchedAt b"
      using Cons by auto
    then show ?thesis by (auto simp: e)
  qed
qed simp

lemma evict_keeps_new:
  "0 < n \<Longrightarrow> \<forall>e \<in> set m. bk_touchedAt (snd e) \<le> bk_touchedAt b \<Longrightarrow> k \<notin> fst ` set m \<Longrightarrow>
    map_of (evict_if_needed n (m @ [(k, b)])) k = Some b"
proof (induction "length m" arbitrary: m rule: less_induct)
  case less
  have here: "map_of (m @ [(k, b)]) k = Some b"
    using less.prems(3) map_of_eq_None_iff [of m k] by (simp add: map_add_def)
  show ?case
  proof (cases "length (m @ [(k, b)]) \<le> n")
    case True
    then show ?thesis using here evict_stop [of "m @ [(k, b)]" n] by simp
  next
    case False
    then have "m \<noteq> []" using less.prems(1) by (cases m) simp_all
    then obtain j t where j: "least_touched (m @ [(k, b)]) = Some (j, t)" "j \<in> fst ` set m"
      using least_touched_older [OF _ less.prems(2), of k] by blast
    then have "j \<noteq> k" using less.prems(3) by blast
    let ?m = "filter (\<lambda>e. fst e \<noteq> j) m"
    have "length ?m < length m" using j(2) by (auto intro: length_filter_less)
    then have "map_of (evict_if_needed n (?m @ [(k, b)])) k = Some b"
      using less.prems by (intro less.hyps) auto
    moreover have "filter (\<lambda>e. fst e \<noteq> j) (m @ [(k, b)]) = ?m @ [(k, b)]" using \<open>j \<noteq> k\<close> by simp
    ultimately show ?thesis
    proof (cases "j = []")
      case True
      then show ?thesis using here evict_stop [of "m @ [(k, b)]" n] j(1) by simp
    qed (use evict_step [OF False j(1)] in simp)
  qed
qed

lemma key_in_keys: "(j, b) \<in> set m \<Longrightarrow> j \<in> fst ` set m"
  by force

lemma map_of_filter_keys: "distinct (map fst m) \<Longrightarrow> map_of (filter P m) j = None \<or> map_of (filter P m) j = map_of m j"
proof (induction m)
  case (Cons e m)
  have "j \<notin> fst ` set m \<Longrightarrow> map_of (filter P m) j = None" by (auto simp: map_of_eq_None_iff)
  then show ?case using Cons by (cases e) auto
qed simp

lemma map_of_put: "map_of (put_bucket m k b) j = (if j = k \<and> k \<in> fst ` set m then Some b else map_of m j)"
proof (induction m)
  case (Cons e m)
  have "k \<notin> fst ` set m \<Longrightarrow> map_of m k = None" by (simp add: map_of_eq_None_iff)
  then show ?case using Cons key_in_keys [of _ _ m] by (auto simp: put_bucket_def)
qed (simp add: put_bucket_def)

lemma memory_hits_put: "memory_hits (put_bucket m k b) j = (if j = k \<and> k \<in> fst ` set m then bk_hits b else memory_hits m j)"
  by (simp add: memory_hits_def map_of_put)

lemma open_bucket_own:
  assumes "0 < n" "memory_ready m q"
  shows "\<exists>m1 b. open_bucket n m (lq_key q) (lq_at q) = (m1, b) \<and> map_of m1 (lq_key q) = Some b \<and> bk_hits b = memory_hits m (lq_key q)"
proof (cases "map_of m (lq_key q)")
  case None
  then have "lq_key q \<notin> fst ` set m" by (simp add: map_of_eq_None_iff)
  then have "map_of (evict_if_needed n (m @ [(lq_key q, \<lparr>bk_hits = [], bk_touchedAt = lq_at q\<rparr>)])) (lq_key q) =
      Some \<lparr>bk_hits = [], bk_touchedAt = lq_at q\<rparr>"
    using assms by (intro evict_keeps_new) (auto simp: memory_ready_def)
  then show ?thesis using None by (simp add: open_bucket_def memory_hits_def)
next
  case (Some b)
  then show ?thesis by (simp add: open_bucket_def memory_hits_def)
qed

lemma open_bucket_ok:
  assumes "memory_ok m" "memory_ready m q" "open_bucket n m (lq_key q) (lq_at q) = (m1, b)"
  shows "memory_ok m1" "sorted (bk_hits b)" "\<forall>x \<in> set (bk_hits b). x \<le> lq_at q" "\<forall>e \<in> set m1. bk_touchedAt (snd e) \<le> lq_at q"
proof -
  have "memory_ok m1 \<and> sorted (bk_hits b) \<and> (\<forall>x \<in> set (bk_hits b). x \<le> lq_at q) \<and> (\<forall>e \<in> set m1. bk_touchedAt (snd e) \<le> lq_at q)"
  proof (cases "map_of m (lq_key q)")
    case None
    let ?m = "m @ [(lq_key q, \<lparr>bk_hits = [], bk_touchedAt = lq_at q\<rparr>)]"
    have "distinct (map fst ?m)" using None assms(1) by (auto simp: memory_ok_def map_of_eq_None_iff)
    then have "distinct (map fst (evict_if_needed n ?m))" by (rule evict_distinct)
    moreover have "m1 = evict_if_needed n ?m" "b = \<lparr>bk_hits = [], bk_touchedAt = lq_at q\<rparr>"
      using assms(3) None by (auto simp: open_bucket_def)
    moreover have "e \<in> set m \<or> e = (lq_key q, b)" if "e \<in> set m1" for e
      using that evict_set [of n ?m] calculation(2,3) by auto
    ultimately show ?thesis
      using assms(1,2) by (auto simp: memory_ok_def memory_ready_def simp del: map_of_eq_None_iff) (blast | force)+
  next
    case (Some c)
    then have "m1 = m" "b = c" "(lq_key q, c) \<in> set m" using assms(3) by (auto simp: open_bucket_def map_of_SomeD)
    moreover have "sorted (bk_hits c)" "\<forall>x \<in> set (bk_hits c). x \<le> bk_touchedAt c" "bk_touchedAt c \<le> lq_at q"
      using assms(1,2) calculation(3) by (force simp: memory_ok_def memory_ready_def)+
    ultimately show ?thesis using assms(1,2) by (auto simp: memory_ready_def)
  qed
  then show "memory_ok m1" "sorted (bk_hits b)" "\<forall>x \<in> set (bk_hits b). x \<le> lq_at q" "\<forall>e \<in> set m1. bk_touchedAt (snd e) \<le> lq_at q"
    by blast+
qed

lemma drop_old_hits: "sorted xs \<Longrightarrow> dropWhile (\<lambda>x. x \<le> t - w) xs = in_window w t xs"
proof (induction xs)
  case (Cons x xs)
  show ?case
  proof (cases "x \<le> t - w")
    case True
    then show ?thesis using Cons by (simp add: in_window_def)
  next
    case False
    then have "\<forall>y \<in> set (x # xs). t - w < y" using Cons.prems by fastforce
    then have "in_window w t (x # xs) = x # xs" unfolding in_window_def by (intro filter_True) simp
    then show ?thesis using False by simp
  qed
qed (simp add: in_window_def)

text \<open>What a hit in memory does, in terms of the hits it remembers.\<close>

lemma memory_hit_effect:
  assumes "0 < n" "memory_ok m" "memory_ready m q" "0 < lq_cap q"
  defines "old \<equiv> in_window (lq_window q) (lq_at q) (memory_hits m (lq_key q))"
  shows "\<exists>m1 r. hit_request (memory_fun n) m q = (put_bucket m1 (lq_key q)
        \<lparr>bk_hits = old @ (if length old < lq_cap q then [lq_at q] else []), bk_touchedAt = lq_at q\<rparr>, r)
      \<and> (rl_allowed r \<longleftrightarrow> length old < lq_cap q) \<and> rl_remaining r = max 0 (int (lq_cap q) - int (length old) - 1)
      \<and> m1 = fst (open_bucket n m (lq_key q) (lq_at q)) \<and> memory_ok m1 \<and> lq_key q \<in> fst ` set m1"
proof -
  obtain m1 b where o: "open_bucket n m (lq_key q) (lq_at q) = (m1, b)" "map_of m1 (lq_key q) = Some b"
    "bk_hits b = memory_hits m (lq_key q)"
    using open_bucket_own [OF assms(1,3)] by blast
  have hits: "dropWhile (\<lambda>t. t \<le> lq_at q - lq_window q) (bk_hits b) = old"
    using drop_old_hits open_bucket_ok(2) [OF assms(2,3) o(1)] by (simp add: old_def o(3))
  have "lq_key q \<in> fst ` set m1" using o(2) by (metis map_of_eq_None_iff option.distinct(1))
  then show ?thesis
    using open_bucket_ok(1) [OF assms(2,3) o(1)] o(1) hits by (simp add: hit_request_def memory_fun_def memory_hit_def Let_def)
qed

lemma keys_put: "map fst (put_bucket m k b) = map fst m"
  by (induction m) (auto simp: put_bucket_def)

lemma set_keys_put: "fst ` set (put_bucket m k b) = fst ` set m"
  by (metis keys_put set_map)

lemma put_bucket_ok:
  "memory_ok m \<Longrightarrow> sorted (bk_hits b) \<Longrightarrow> \<forall>x \<in> set (bk_hits b). x \<le> bk_touchedAt b \<Longrightarrow> memory_ok (put_bucket m k b)"
proof -
  assume a: "memory_ok m" "sorted (bk_hits b)" "\<forall>x \<in> set (bk_hits b). x \<le> bk_touchedAt b"
  have "e \<in> set (put_bucket m k b) \<Longrightarrow> snd e = b \<or> e \<in> set m" for e by (auto simp: put_bucket_def)
  then show ?thesis using a unfolding memory_ok_def keys_put set_keys_put by metis
qed

interpretation memory_limiter: rate_backend "memory_fun (Suc n)" memory_hits memory_ok memory_ready "memory_evicts (Suc n)" for n
proof
  fix m q assume a: "memory_ok m" "memory_ready m q" "0 < lq_cap q"
  define old where "old = in_window (lq_window q) (lq_at q) (memory_hits m (lq_key q))"
  obtain m1 r where e: "hit_request (memory_fun (Suc n)) m q = (put_bucket m1 (lq_key q)
        \<lparr>bk_hits = old @ (if length old < lq_cap q then [lq_at q] else []), bk_touchedAt = lq_at q\<rparr>, r)"
      "rl_allowed r \<longleftrightarrow> length old < lq_cap q" "rl_remaining r = max 0 (int (lq_cap q) - int (length old) - 1)"
      "m1 = fst (open_bucket (Suc n) m (lq_key q) (lq_at q))" "memory_ok m1" "lq_key q \<in> fst ` set m1"
    using memory_hit_effect [OF _ a, of "Suc n"] by (auto simp: old_def)
  have hits: "sorted (memory_hits m k) \<and> (\<forall>x \<in> set (memory_hits m k). x \<le> lq_at q)" for k
    using a(1,2) by (fastforce simp: memory_hits_def memory_ok_def memory_ready_def split: option.split dest: map_of_SomeD)
  then have "sorted old" "\<forall>x \<in> set old. x \<le> lq_at q" by (auto simp: old_def in_window_def intro: sorted_filter [of "\<lambda>x. x", simplified])
  then show "memory_ok (fst (hit_request (memory_fun (Suc n)) m q))"
    using e(5) by (auto simp: e(1) sorted_append intro!: put_bucket_ok)
  show "rl_allowed (snd (hit_request (memory_fun (Suc n)) m q)) \<longleftrightarrow>
      length (in_window (lq_window q) (lq_at q) (memory_hits m (lq_key q))) < lq_cap q"
    using e(1,2) by (simp add: old_def)
  show "rl_remaining (snd (hit_request (memory_fun (Suc n)) m q)) =
      max 0 (int (lq_cap q) - int (length (in_window (lq_window q) (lq_at q) (memory_hits m (lq_key q)))) - 1)"
    using e(1,3) by (simp add: old_def)
  show "memory_hits (fst (hit_request (memory_fun (Suc n)) m q)) (lq_key q) =
      in_window (lq_window q) (lq_at q) (memory_hits m (lq_key q)) @
        (if rl_allowed (snd (hit_request (memory_fun (Suc n)) m q)) then [lq_at q] else [])"
    using e(1,2,6) by (simp add: memory_hits_put old_def [symmetric])
  fix j assume j: "j \<noteq> lq_key q" "\<not> memory_evicts (Suc n) m q j"
  have "map_of m1 j = map_of m j"
  proof (cases "map_of m (lq_key q)")
    case None
    let ?m = "m @ [(lq_key q, \<lparr>bk_hits = [], bk_touchedAt = lq_at q\<rparr>)]"
    obtain P where P: "evict_if_needed (Suc n) ?m = filter P ?m" using evict_filter by blast
    then have m1: "m1 = filter P ?m" using None e(4) by (simp add: open_bucket_def)
    have d: "distinct (map fst ?m)" using None a(1) by (auto simp: memory_ok_def map_of_eq_None_iff)
    have here: "map_of ?m j = map_of m j" using j(1) by (simp add: map_add_def split: option.split)
    have "map_of m1 j = None \<or> map_of m1 j = map_of m j"
      unfolding m1 here [symmetric] using d by (rule map_of_filter_keys)
    moreover have "\<not> (map_of m j \<noteq> None \<and> map_of m1 j = None)" using j(2) by (simp add: memory_evicts_def e(4))
    ultimately show ?thesis by auto
  next
    case (Some b)
    then show ?thesis using e(4) by (simp add: open_bucket_def)
  qed
  then show "memory_hits (fst (hit_request (memory_fun (Suc n)) m q)) j = memory_hits m j"
    using j(1) by (simp add: e(1) memory_hits_put) (simp add: memory_hits_def)
next
  fix m q x j assume "memory_ok m" "memory_ready m q" "x \<in> set (memory_hits m j)"
  then show "x \<le> lq_at q"
    by (fastforce simp: memory_hits_def memory_ok_def memory_ready_def split: option.splits dest: map_of_SomeD)
qed

definition redis_hits :: "redis \<Rightarrow> string \<Rightarrow> js_date list" where
  "redis_hits rd k = map fst (rd (''ratelimit:'' @ k))"

definition redis_ok :: "redis \<Rightarrow> bool" where
  "redis_ok rd \<longleftrightarrow> (\<forall>k. sorted (map fst (rd k)) \<and> (\<forall>e \<in> set (rd k). 0 \<le> fst e))"

definition hit_member :: "limit_request \<Rightarrow> string" where
  "hit_member q = int_dec (lq_at q) @ ''-'' @ lq_random q"

definition redis_ready :: "redis \<Rightarrow> limit_request \<Rightarrow> bool" where
  "redis_ready rd q \<longleftrightarrow> 0 \<le> lq_at q \<and> (\<forall>k. \<forall>e \<in> set (rd k). fst e \<le> lq_at q \<and> snd e \<noteq> hit_member q)"

lemma zinsert_scores: "sorted (map fst z) \<Longrightarrow> \<forall>e \<in> set z. fst e \<le> t \<Longrightarrow> map fst (zinsert z t m) = map fst z @ [t]"
proof (induction z t m rule: zinsert.induct)
  case (2 s m z t member)
  show ?case
  proof (cases "s < t \<or> (s = t \<and> str_le m member)")
    case True
    then show ?thesis using 2 by simp
  next
    case False
    then have "\<forall>e \<in> set z. fst e = t" "s = t" using 2(2,3) by fastforce+
    then have "map fst z = map (\<lambda>_. t) z" by simp
    then have "map fst z = replicate (length z) t" by (simp add: map_replicate_const)
    then show ?thesis using False \<open>s = t\<close> by (simp add: replicate_append_same)
  qed
qed simp

lemma set_zinsert: "set (zinsert z t m) = insert (t, m) (set z)"
  by (induction z t m rule: zinsert.induct) auto

lemma zrem_absent: "\<forall>e \<in> set z. snd e \<noteq> m \<Longrightarrow> zrem z m = z"
  by (auto simp: zrem_def intro!: filter_True)

lemma zrem_zinsert: "\<forall>e \<in> set z. snd e \<noteq> m \<Longrightarrow> zrem (zinsert z t m) m = z"
  by (induction z t m rule: zinsert.induct) (auto simp: zrem_def intro!: filter_True)

definition redis_fun :: "redis hit_fun" where
  "redis_fun = redis_hit"

lemma redis_hit_effect:
  assumes "redis_ok rd" "redis_ready rd q"
  defines "z \<equiv> rd (''ratelimit:'' @ lq_key q)"
  defines "z0 \<equiv> zremrangebyscore z 0 (lq_at q - lq_window q)"
  shows "\<exists>r. hit_request redis_fun rd q =
      (rd(''ratelimit:'' @ lq_key q := (if length z0 < lq_cap q then zinsert z0 (lq_at q) (hit_member q) else z0)), r)
    \<and> (rl_allowed r \<longleftrightarrow> length z0 < lq_cap q) \<and> (0 < lq_cap q \<longrightarrow> rl_remaining r = max 0 (int (lq_cap q) - int (length z0) - 1))
    \<and> map fst z0 = in_window (lq_window q) (lq_at q) (redis_hits rd (lq_key q)) \<and> sorted (map fst z0)
    \<and> (\<forall>e \<in> set z0. 0 \<le> fst e \<and> fst e \<le> lq_at q) \<and> map fst (zinsert z0 (lq_at q) (hit_member q)) = map fst z0 @ [lq_at q]"
proof -
  have z: "sorted (map fst z)" "\<forall>e \<in> set z. 0 \<le> fst e \<and> fst e \<le> lq_at q \<and> snd e \<noteq> hit_member q"
    using assms(1,2) by (auto simp: redis_ok_def redis_ready_def z_def)
  have sub: "set z0 \<subseteq> set z" by (auto simp: z0_def zremrangebyscore_def)
  then have e0: "\<forall>e \<in> set z0. 0 \<le> fst e \<and> fst e \<le> lq_at q \<and> snd e \<noteq> hit_member q" using z(2) by blast
  have s0: "sorted (map fst z0)" using z(1) by (simp add: z0_def zremrangebyscore_def sorted_filter)
  have scores: "map fst (zinsert z0 (lq_at q) (hit_member q)) = map fst z0 @ [lq_at q]"
    using zinsert_scores [OF s0] e0 by simp
  have w: "map fst z0 = in_window (lq_window q) (lq_at q) (redis_hits rd (lq_key q))"
  proof -
    have "z0 = filter (\<lambda>e. lq_at q - lq_window q < fst e) z"
      using z(2) by (auto simp: z0_def zremrangebyscore_def split_def intro!: filter_cong)
    then show ?thesis by (simp add: in_window_def redis_hits_def z_def filter_map comp_def)
  qed
  have "zadd z0 (lq_at q) (hit_member q) = zinsert z0 (lq_at q) (hit_member q)"
    using e0 by (simp add: zadd_def zrem_absent)
  moreover have "zrem (zinsert z0 (lq_at q) (hit_member q)) (hit_member q) = z0" using e0 by (simp add: zrem_zinsert)
  moreover have "length (zinsert z0 (lq_at q) (hit_member q)) = Suc (length z0)"
    using arg_cong [OF scores, of length] by simp
  ultimately have script: "hit_script z (lq_at q - lq_window q) (lq_at q) (hit_member q) (lq_cap q) =
      (if length z0 < lq_cap q then (zinsert z0 (lq_at q) (hit_member q), True, int (Suc (length z0)), 0)
       else (z0, False, int (length z0), (case z0 of [] \<Rightarrow> 0 | (s, _) # _ \<Rightarrow> s)))"
    unfolding hit_script_def z0_def [symmetric] Let_def by simp
  have m: "int_dec (lq_at q) @ CHR ''-'' # lq_random q = hit_member q" by (simp add: hit_member_def)
  show ?thesis
    unfolding hit_request_def redis_fun_def redis_hit_def Let_def z_def [symmetric]
    using script e0 s0 scores w by (simp add: m split del: if_split) auto
qed

interpretation redis_limiter: rate_backend redis_fun redis_hits redis_ok redis_ready "\<lambda>_ _ _. False"
proof
  fix rd q assume a: "redis_ok rd" "redis_ready rd q" "0 < lq_cap q"
  define z0 where "z0 = zremrangebyscore (rd (''ratelimit:'' @ lq_key q)) 0 (lq_at q - lq_window q)"
  obtain r where e: "hit_request redis_fun rd q =
      (rd(''ratelimit:'' @ lq_key q := (if length z0 < lq_cap q then zinsert z0 (lq_at q) (hit_member q) else z0)), r)"
    "rl_allowed r \<longleftrightarrow> length z0 < lq_cap q" "rl_remaining r = max 0 (int (lq_cap q) - int (length z0) - 1)"
    and w: "map fst z0 = in_window (lq_window q) (lq_at q) (redis_hits rd (lq_key q))" "sorted (map fst z0)"
    "\<forall>e \<in> set z0. 0 \<le> fst e \<and> fst e \<le> lq_at q" "map fst (zinsert z0 (lq_at q) (hit_member q)) = map fst z0 @ [lq_at q]"
    using redis_hit_effect [OF a(1,2)] a(3) by (auto simp: z0_def)
  have len: "length z0 = length (in_window (lq_window q) (lq_at q) (redis_hits rd (lq_key q)))"
    using arg_cong [OF w(1), of length] by simp
  have "0 \<le> lq_at q" using a(2) by (simp add: redis_ready_def)
  then show "redis_ok (fst (hit_request redis_fun rd q))"
    using a(1) w(2-4) by (auto simp: e(1) redis_ok_def sorted_append set_zinsert)
  show "rl_allowed (snd (hit_request redis_fun rd q)) \<longleftrightarrow>
      length (in_window (lq_window q) (lq_at q) (redis_hits rd (lq_key q))) < lq_cap q"
    using e(2) by (simp add: e(1) len)
  show "rl_remaining (snd (hit_request redis_fun rd q)) =
      max 0 (int (lq_cap q) - int (length (in_window (lq_window q) (lq_at q) (redis_hits rd (lq_key q)))) - 1)"
    using e(3) by (simp add: e(1) len)
  show "redis_hits (fst (hit_request redis_fun rd q)) (lq_key q) =
      in_window (lq_window q) (lq_at q) (redis_hits rd (lq_key q)) @
        (if rl_allowed (snd (hit_request redis_fun rd q)) then [lq_at q] else [])"
    unfolding w(1) [symmetric] using e(2) w(4) by (simp add: e(1) redis_hits_def)
  fix j assume "j \<noteq> lq_key q"
  then show "redis_hits (fst (hit_request redis_fun rd q)) j = redis_hits rd j" by (simp add: e(1) redis_hits_def)
next
  fix rd q x j assume "redis_ready rd q" "x \<in> set (redis_hits rd j)"
  then show "x \<le> lq_at q" by (auto simp: redis_hits_def redis_ready_def)
qed

interpretation limiters: two_backends "memory_fun (Suc n)" memory_hits memory_ok memory_ready "memory_evicts (Suc n)"
  redis_fun redis_hits redis_ok redis_ready "\<lambda>_ _ _. False" for n
  by unfold_locales

section \<open>Runs from the empty state\<close>

text \<open>
  A run of requests: the clock does not go back, limits and windows are positive, keys are not
  empty and no random text is drawn twice.
\<close>

definition proper_requests :: "limit_request list \<Rightarrow> bool" where
  "proper_requests qs \<longleftrightarrow> sorted (map lq_at qs) \<and> distinct (map lq_random qs) \<and>
     list_all (\<lambda>q. 0 \<le> lq_at q \<and> 0 < lq_cap q \<and> 0 < lq_window q \<and> lq_key q \<noteq> []) qs"

lemma hit_member_random:
  assumes "0 \<le> lq_at p" "0 \<le> lq_at q" "hit_member p = hit_member q"
  shows "lq_random p = lq_random q"
proof -
  have "CHR ''-'' \<notin> set (int_dec t)" if "0 \<le> t" for t
    using nat_dec_digits [of "nat t"] that by (auto simp: int_dec_def is_digit_def)
  then have "dropWhile (\<lambda>c. c \<noteq> CHR ''-'') (hit_member x) = CHR ''-'' # lq_random x" if "0 \<le> lq_at x" for x
    using that unfolding hit_member_def by (subst dropWhile_append2) auto
  then show ?thesis using assms by (metis list.inject)
qed

lemma redis_served:
  "proper_requests qs \<Longrightarrow> redis_ok rd \<Longrightarrow>
    (\<forall>k. \<forall>e \<in> set (rd k). (\<forall>q \<in> set qs. fst e \<le> lq_at q) \<and> (\<exists>p. 0 \<le> lq_at p \<and> snd e = hit_member p \<and> lq_random p \<notin> lq_random ` set qs)) \<Longrightarrow>
    redis_limiter.served_all rd qs"
proof (induction qs arbitrary: rd)
  case (Cons q qs)
  have q: "0 \<le> lq_at q" "0 < lq_cap q" "0 < lq_window q" and qs: "proper_requests qs"
    and fresh: "lq_random q \<notin> lq_random ` set qs" and later: "\<forall>p \<in> set qs. lq_at q \<le> lq_at p"
    using Cons.prems(1) by (auto simp: proper_requests_def)
  have ready: "redis_ready rd q"
    unfolding redis_ready_def
  proof (intro conjI allI ballI)
    fix k e assume "e \<in> set (rd k)"
    with Cons.prems(3) obtain p where p: "\<forall>x \<in> set (q # qs). fst e \<le> lq_at x" "0 \<le> lq_at p" "snd e = hit_member p"
      "lq_random p \<notin> lq_random ` set (q # qs)" by blast
    then show "fst e \<le> lq_at q" by simp
    show "snd e \<noteq> hit_member q" using hit_member_random [OF p(2) q(1)] p(3,4) by auto
  qed (rule q(1))
  let ?rd = "fst (hit_request redis_fun rd q)"
  have "redis_ok ?rd" by (rule redis_limiter.ok_hit [OF Cons.prems(2) ready q(2)])
  moreover have "\<forall>k. \<forall>e \<in> set (?rd k). (\<forall>p \<in> set qs. fst e \<le> lq_at p) \<and>
      (\<exists>p. 0 \<le> lq_at p \<and> snd e = hit_member p \<and> lq_random p \<notin> lq_random ` set qs)"
  proof (intro allI ballI)
    fix k e assume "e \<in> set (?rd k)"
    then have "e \<in> set (rd k) \<or> e = (lq_at q, hit_member q)"
      using redis_hit_effect [OF Cons.prems(2) ready] by (auto simp: set_zinsert zremrangebyscore_def split: if_splits)
    then show "(\<forall>p \<in> set qs. fst e \<le> lq_at p) \<and> (\<exists>p. 0 \<le> lq_at p \<and> snd e = hit_member p \<and> lq_random p \<notin> lq_random ` set qs)"
    proof
      assume "e = (lq_at q, hit_member q)"
      then show ?thesis using later fresh q(1) by auto
    next
      assume "e \<in> set (rd k)"
      with Cons.prems(3) obtain p where "\<forall>x \<in> set (q # qs). fst e \<le> lq_at x" "0 \<le> lq_at p" "snd e = hit_member p"
        "lq_random p \<notin> lq_random ` set (q # qs)" by blast
      then show ?thesis by auto
    qed
  qed
  ultimately have "redis_limiter.served_all ?rd qs" by (rule Cons.IH [OF qs])
  then show ?case using ready q by simp
qed simp

lemma memory_served:
  "proper_requests qs \<Longrightarrow> memory_ok m \<Longrightarrow> finite K \<Longrightarrow> card K \<le> Suc n \<Longrightarrow> fst ` set m \<union> lq_key ` set qs \<subseteq> K \<Longrightarrow>
    (\<forall>e \<in> set m. \<forall>q \<in> set qs. bk_touchedAt (snd e) \<le> lq_at q) \<Longrightarrow> memory_limiter.served_all n m qs"
proof (induction qs arbitrary: m)
  case (Cons q qs)
  have q: "0 < lq_cap q" "0 < lq_window q" "lq_key q \<noteq> []" and qs: "proper_requests qs"
    and later: "\<forall>p \<in> set qs. lq_at q \<le> lq_at p"
    using Cons.prems(1) by (auto simp: proper_requests_def)
  have ready: "memory_ready m q" using q(3) Cons.prems(6) by (simp add: memory_ready_def)
  let ?m = "m @ [(lq_key q, \<lparr>bk_hits = [], bk_touchedAt = lq_at q\<rparr>)]"
  have room: "length ?m \<le> Suc n" if "lq_key q \<notin> fst ` set m"
  proof -
    have "distinct (map fst ?m)" using that Cons.prems(2) by (simp add: memory_ok_def)
    then have "length ?m = card (fst ` set ?m)" by (metis distinct_card length_map set_map)
    also have "\<dots> \<le> card K" using Cons.prems(3,5) by (intro card_mono) auto
    finally show ?thesis using Cons.prems(4) by simp
  qed
  have open_m: "fst (open_bucket (Suc n) m (lq_key q) (lq_at q)) = (if lq_key q \<in> fst ` set m then m else ?m)"
  proof (cases "map_of m (lq_key q)")
    case None
    then have "lq_key q \<notin> fst ` set m" by (simp add: map_of_eq_None_iff)
    then show ?thesis using room evict_stop [of ?m "Suc n"] None by (simp add: open_bucket_def)
  next
    case (Some b)
    then show ?thesis using key_in_keys [OF map_of_SomeD [OF Some]] by (simp add: open_bucket_def)
  qed
  have no_evict: "\<not> memory_evicts (Suc n) m q j" for j
    unfolding memory_evicts_def open_m by (auto simp: map_add_def split: option.splits)
  obtain b r where step: "hit_request (memory_fun (Suc n)) m q =
      (put_bucket (if lq_key q \<in> fst ` set m then m else ?m) (lq_key q) b, r)" "bk_touchedAt b = lq_at q"
    using memory_hit_effect [OF _ Cons.prems(2) ready q(1), of "Suc n"] unfolding open_m by fastforce
  let ?m1 = "fst (hit_request (memory_fun (Suc n)) m q)"
  have ok: "memory_ok ?m1" by (rule memory_limiter.ok_hit [OF Cons.prems(2) ready q(1)])
  have "fst ` set ?m1 \<union> lq_key ` set qs \<subseteq> K" using Cons.prems(5) by (simp add: step set_keys_put)
  moreover have "\<forall>e \<in> set ?m1. \<forall>p \<in> set qs. bk_touchedAt (snd e) \<le> lq_at p"
    using Cons.prems(6) later step(2) by (auto simp: step(1) put_bucket_def)
  ultimately have "memory_limiter.served_all n ?m1 qs" by (rule Cons.IH [OF qs ok Cons.prems(3,4)])
  then show ?case using ready q no_evict by simp
qed simp

text \<open>
  C9: The sliding window holds on Redis.  Whatever requests other keys make, a key with limit
  \<open>cap\<close> and window \<open>w\<close> is allowed at most \<open>cap\<close> times in any interval of length \<open>w\<close>.
\<close>

theorem redis_window_guarantee:
  assumes "proper_requests qs" "\<forall>q \<in> set qs. lq_key q = k \<longrightarrow> lq_cap q = cap \<and> lq_window q = w"
  shows "length (filter (\<lambda>x. T - w < x \<and> x \<le> T) (allowed_at k qs (snd (limiter_run redis_fun (\<lambda>_. []) qs)))) \<le> cap"
proof -
  have "redis_limiter.served_all (\<lambda>_. []) qs" using assms(1) by (intro redis_served) (simp_all add: redis_ok_def)
  then show ?thesis
    using assms by (intro redis_limiter.window_guarantee redis_limiter.served_all_served)
      (simp_all add: redis_ok_def redis_hits_def proper_requests_def)
qed

text \<open>
  C8: The backends agree.  While the buckets in memory suffice for the keys in use, the
  in-memory limiter and the Redis script give every request of a run the same verdict and the
  same number of remaining requests, so falling back from one to the other changes no rule.
\<close>

theorem limiter_backends_agree:
  assumes "proper_requests qs" "card (lq_key ` set qs) \<le> Suc n"
  shows "map (\<lambda>r. (rl_allowed r, rl_remaining r)) (snd (limiter_run (memory_fun (Suc n)) [] qs)) =
    map (\<lambda>r. (rl_allowed r, rl_remaining r)) (snd (limiter_run redis_fun (\<lambda>_. []) qs))"
proof (rule limiters.same_verdicts)
  show "memory_limiter.served_all n [] qs"
    using assms by (intro memory_served [where K = "lq_key ` set qs"]) (simp_all add: memory_ok_def)
  show "redis_limiter.served_all (\<lambda>_. []) qs" using assms(1) by (intro redis_served) (simp_all add: redis_ok_def)
qed (simp_all add: memory_ok_def redis_ok_def memory_hits_def redis_hits_def)

definition sample_request :: "string \<Rightarrow> js_date \<Rightarrow> limit_request" where
  "sample_request r t = \<lparr>lq_random = r, lq_key = ''login:ip'', lq_cap = 2, lq_window = 1000, lq_at = t\<rparr>"

definition sample_requests :: "limit_request list" where
  "sample_requests = [sample_request ''a'' 100, sample_request ''b'' 200, sample_request ''c'' 300, sample_request ''d'' 1150]"

lemma sample_proper: "proper_requests sample_requests"
  by (simp add: proper_requests_def sample_requests_def sample_request_def)

theorem redis_window_guarantee_witness:
  "length (filter (\<lambda>x. 900 - 1000 < x \<and> x \<le> 900)
     (allowed_at ''login:ip'' sample_requests (snd (limiter_run redis_fun (\<lambda>_. []) sample_requests)))) \<le> 2"
  by (rule redis_window_guarantee [OF sample_proper]) (simp add: sample_requests_def sample_request_def)

theorem limiter_backends_agree_witness:
  "map (\<lambda>r. (rl_allowed r, rl_remaining r)) (snd (limiter_run (memory_fun 50000) [] sample_requests)) =
    map (\<lambda>r. (rl_allowed r, rl_remaining r)) (snd (limiter_run redis_fun (\<lambda>_. []) sample_requests))"
  using limiter_backends_agree [OF sample_proper, of 49999] by (simp add: sample_requests_def sample_request_def)

end
