(* ===== verification/TenantUsage.thy ===== *)
theory TenantUsage
  imports JsDate
begin

text \<open>
  Metered usage of a workspace (\<open>src/lib/tenant-usage.ts\<close>): the quota rows and monthly
  usage buckets, single reservations, block reservations (leases) and the release of units
  that were not used.  A reservation runs in one transaction that holds the lock of the quota
  row, so it is one function on the database; a release is one conditional update.
\<close>

section \<open>Rows\<close>

datatype usage_metric = Clicks | Conversions | ApiRequests | WebhookDeliveries

record tenant_quota =
  clicksPerMonth :: int
  conversionsPerMonth :: int
  apiRequestsPerMonth :: int
  webhookDeliveriesPerMonth :: int

fun quota_column :: "usage_metric \<Rightarrow> tenant_quota \<Rightarrow> int" where
  "quota_column Clicks q = clicksPerMonth q"
| "quota_column Conversions q = conversionsPerMonth q"
| "quota_column ApiRequests q = apiRequestsPerMonth q"
| "quota_column WebhookDeliveries q = webhookDeliveriesPerMonth q"

type_synonym bucket_key = "string \<times> usage_metric \<times> string"

record usage_db =
  quotas :: "string \<Rightarrow> tenant_quota option"
  buckets :: "bucket_key \<Rightarrow> int option"

definition bucket_quantity :: "usage_db \<Rightarrow> bucket_key \<Rightarrow> int" where
  "bucket_quantity db k = coalesce (buckets db k) 0"

definition set_bucket :: "usage_db \<Rightarrow> bucket_key \<Rightarrow> int \<Rightarrow> usage_db" where
  "set_bucket db k n = db\<lparr>buckets := (buckets db)(k \<mapsto> n)\<rparr>"

definition usage_period_key :: "js_date \<Rightarrow> string" where
  "usage_period_key t = iso_month_key t"

section \<open>Reservations\<close>

record usage_reservation =
  ures_allowed :: bool
  ures_used :: int
  ures_limit :: "int option"

text \<open>The bucket is created when it is missing, also when the reservation is refused.\<close>

definition reserve_usage ::
  "usage_db \<Rightarrow> js_date \<Rightarrow> string \<Rightarrow> usage_metric \<Rightarrow> int \<Rightarrow> (usage_db \<times> usage_reservation) thrown" where
  "reserve_usage db now ws metric amount =
     (if amount \<le> 0 then Inl ''Usage reservation amount must be positive''
      else
        let k = (ws, metric, usage_period_key now);
            lim = map_option (quota_column metric) (quotas db ws);
            used = bucket_quantity db k;
            db1 = set_bucket db k used
        in if (case lim of None \<Rightarrow> False | Some l \<Rightarrow> used + amount > l)
           then Inr (db1, \<lparr>ures_allowed = False, ures_used = used, ures_limit = lim\<rparr>)
           else Inr (set_bucket db k (used + amount), \<lparr>ures_allowed = True, ures_used = used + amount, ures_limit = lim\<rparr>))"

text \<open>\<open>updateMany\<close> with the condition \<open>quantity >= amount\<close>.\<close>

definition decrement_bucket :: "usage_db \<Rightarrow> bucket_key \<Rightarrow> int \<Rightarrow> usage_db" where
  "decrement_bucket db k amount = (case buckets db k of
       None \<Rightarrow> db | Some n \<Rightarrow> if n \<ge> amount then set_bucket db k (n - amount) else db)"

definition release_usage :: "usage_db \<Rightarrow> string \<Rightarrow> usage_metric \<Rightarrow> string \<Rightarrow> int \<Rightarrow> usage_db" where
  "release_usage db ws metric period amount =
     (if amount \<le> 0 then db else decrement_bucket db (ws, metric, period) amount)"

section \<open>Leases\<close>

record usage_lease =
  ul_unlimited :: bool
  ul_granted :: int
  ul_limit :: "int option"
  ul_used :: int

definition lease_grant :: "int \<Rightarrow> int \<Rightarrow> int \<Rightarrow> int \<Rightarrow> int" where
  "lease_grant headroom maxGrant divisor demand =
     (let g0 = headroom div divisor;
          g1 = (if g0 < demand then demand else g0);
          g2 = (if g1 < 1 then 1 else g1);
          g3 = (if g2 > maxGrant then maxGrant else g2)
      in if g3 > headroom then headroom else g3)"

text \<open>The units of an earlier lease, handed back in the same transaction.\<close>

definition after_release :: "usage_db \<Rightarrow> string \<Rightarrow> usage_metric \<Rightarrow> (string \<times> int) option \<Rightarrow> usage_db" where
  "after_release db ws metric release = (case release of None \<Rightarrow> db
     | Some (p, a) \<Rightarrow> if a > 0 then decrement_bucket db (ws, metric, p) a else db)"

definition reserve_usage_lease ::
  "usage_db \<Rightarrow> js_date \<Rightarrow> string \<Rightarrow> usage_metric \<Rightarrow> int \<Rightarrow> int \<Rightarrow> (string \<times> int) option \<Rightarrow> int
    \<Rightarrow> (usage_db \<times> usage_lease) thrown" where
  "reserve_usage_lease db now ws metric maxGrant divisor release demand =
     (if maxGrant \<le> 0 \<or> divisor \<le> 0 then Inl ''Lease size and divisor must be positive''
      else
        let db1 = after_release db ws metric release
        in case quotas db1 ws of
             None \<Rightarrow> Inr (db1, \<lparr>ul_unlimited = True, ul_granted = 0, ul_limit = None, ul_used = 0\<rparr>)
           | Some q \<Rightarrow>
              (let lim = quota_column metric q;
                   k = (ws, metric, usage_period_key now);
                   used = bucket_quantity db1 k;
                   db2 = set_bucket db1 k used;
                   headroom = lim - used
               in if headroom \<le> 0
                  then Inr (db2, \<lparr>ul_unlimited = False, ul_granted = 0, ul_limit = Some lim, ul_used = used\<rparr>)
                  else (let g = lease_grant headroom maxGrant divisor demand
                        in Inr (set_bucket db1 k (used + g),
                            \<lparr>ul_unlimited = False, ul_granted = g, ul_limit = Some lim, ul_used = used + g\<rparr>))))"

section \<open>Lemmas\<close>

lemma quotas_set_bucket [simp]: "quotas (set_bucket db k n) = quotas db"
  by (simp add: set_bucket_def)

lemma bucket_set_bucket [simp]: "bucket_quantity (set_bucket db k n) j = (if j = k then n else bucket_quantity db j)"
  by (simp add: set_bucket_def bucket_quantity_def coalesce_def)

lemma quotas_decrement [simp]: "quotas (decrement_bucket db k a) = quotas db"
  by (simp add: decrement_bucket_def split: option.splits)

lemma bucket_decrement:
  "0 < a \<Longrightarrow> bucket_quantity (decrement_bucket db k a) j =
    (if j = k \<and> bucket_quantity db k \<ge> a then bucket_quantity db j - a else bucket_quantity db j)"
  by (auto simp: decrement_bucket_def bucket_quantity_def coalesce_def set_bucket_def split: option.splits)

lemma quotas_release [simp]: "quotas (release_usage db ws m p a) = quotas db"
  by (simp add: release_usage_def)

lemma lease_grant_bounds:
  assumes "0 < headroom" "0 < maxGrant" "0 < divisor"
  shows "1 \<le> lease_grant headroom maxGrant divisor demand" "lease_grant headroom maxGrant divisor demand \<le> headroom"
    "lease_grant headroom maxGrant divisor demand \<le> maxGrant"
    "min demand (min maxGrant headroom) \<le> lease_grant headroom maxGrant divisor demand"
  using assms by (auto simp: lease_grant_def Let_def)

text \<open>What a single reservation does to its own bucket, and that it touches no other.\<close>

lemma reserve_usage_effect:
  assumes "reserve_usage db now ws metric amount = Inr (db', r)"
  shows "quotas db' = quotas db" "0 < amount"
    "ures_allowed r \<longleftrightarrow> (case quotas db ws of None \<Rightarrow> True
        | Some q \<Rightarrow> bucket_quantity db (ws, metric, usage_period_key now) + amount \<le> quota_column metric q)"
    "bucket_quantity db' j = bucket_quantity db j
      + (if j = (ws, metric, usage_period_key now) \<and> ures_allowed r then amount else 0)"
  using assms by (auto simp: reserve_usage_def Let_def split: if_splits option.splits)

lemma quotas_after_release [simp]: "quotas (after_release db ws metric release) = quotas db"
  by (auto simp: after_release_def split: option.splits)

lemma reserve_usage_lease_cases:
  assumes "reserve_usage_lease db now ws metric maxGrant divisor release demand = Inr (db', l)"
  defines "db1 \<equiv> after_release db ws metric release"
    and "k \<equiv> (ws, metric, usage_period_key now)"
  obtains (unlimited) "quotas db ws = None" "db' = db1" "ul_unlimited l" "ul_granted l = 0"
  | (full) q where "quotas db ws = Some q" "quota_column metric q \<le> bucket_quantity db1 k"
      "db' = set_bucket db1 k (bucket_quantity db1 k)" "\<not> ul_unlimited l" "ul_granted l = 0"
  | (granted) q where "quotas db ws = Some q" "bucket_quantity db1 k < quota_column metric q" "0 < maxGrant" "0 < divisor"
      "ul_granted l = lease_grant (quota_column metric q - bucket_quantity db1 k) maxGrant divisor demand"
      "db' = set_bucket db1 k (bucket_quantity db1 k + ul_granted l)" "\<not> ul_unlimited l"
  using assms by (auto simp: reserve_usage_lease_def Let_def split: if_splits option.splits)

lemma reserve_usage_lease_effect:
  assumes l: "reserve_usage_lease db now ws metric maxGrant divisor release demand = Inr (db', l)"
  defines "db1 \<equiv> after_release db ws metric release"
    and "k \<equiv> (ws, metric, usage_period_key now)"
  shows "quotas db' = quotas db"
    "bucket_quantity db' j = bucket_quantity db1 j + (if j = k then ul_granted l else 0)"
    "0 \<le> ul_granted l"
    "ul_unlimited l \<longleftrightarrow> quotas db ws = None"
    "ul_unlimited l \<Longrightarrow> ul_granted l = 0"
    "quotas db ws = Some q \<Longrightarrow> ul_granted l \<le> max 0 (quota_column metric q - bucket_quantity db1 k)"
proof -
  have b: "0 < h \<Longrightarrow> 0 < maxGrant \<Longrightarrow> 0 < divisor \<Longrightarrow> 1 \<le> lease_grant h maxGrant divisor demand \<and>
      lease_grant h maxGrant divisor demand \<le> h" for h
    using lease_grant_bounds [of h maxGrant divisor demand] by simp
  show "quotas db' = quotas db"
    using l by (cases rule: reserve_usage_lease_cases) simp_all
  show "bucket_quantity db' j = bucket_quantity db1 j + (if j = k then ul_granted l else 0)"
    using l by (cases rule: reserve_usage_lease_cases) (simp_all add: db1_def k_def)
  show "0 \<le> ul_granted l"
    using l by (cases rule: reserve_usage_lease_cases) (simp_all add: order_trans [OF _ b [THEN conjunct1]])
  show "ul_unlimited l \<longleftrightarrow> quotas db ws = None"
    using l by (cases rule: reserve_usage_lease_cases) simp_all
  show "ul_unlimited l \<Longrightarrow> ul_granted l = 0"
    using l by (cases rule: reserve_usage_lease_cases) simp_all
  show "quotas db ws = Some q \<Longrightarrow> ul_granted l \<le> max 0 (quota_column metric q - bucket_quantity db1 k)"
    using l by (cases rule: reserve_usage_lease_cases) (simp_all add: b db1_def k_def)
qed

lemma bucket_after_release:
  "bucket_quantity (after_release db ws metric release) j =
    bucket_quantity db j - (case release of None \<Rightarrow> 0 | Some (p, a) \<Rightarrow>
      if a > 0 \<and> j = (ws, metric, p) \<and> a \<le> bucket_quantity db j then a else 0)"
  by (auto simp: after_release_def bucket_decrement split: option.splits)

section \<open>Properties\<close>

text \<open>
  A lease is exact.  The transaction grants nothing exactly when the bucket has reached
  the limit once the returned units are taken off; otherwise it grants at least one unit, at
  most the lease size and the headroom, and as much of the waiting demand as these allow, and
  the bucket grows by the grant.
\<close>

lemma reserve_usage_lease_exact:
  assumes l: "reserve_usage_lease db now ws metric maxGrant divisor release demand = Inr (db', l)"
    and q: "quotas db ws = Some q"
  defines "used \<equiv> bucket_quantity (after_release db ws metric release) (ws, metric, usage_period_key now)"
  shows "bucket_quantity db' (ws, metric, usage_period_key now) = used + ul_granted l
    \<and> (if used < quota_column metric q
       then 1 \<le> ul_granted l \<and> ul_granted l \<le> min maxGrant (quota_column metric q - used)
          \<and> min demand (min maxGrant (quota_column metric q - used)) \<le> ul_granted l
       else ul_granted l = 0)"
proof -
  show ?thesis
    using l
  proof (cases rule: reserve_usage_lease_cases)
    case (granted q')
    then have "lease_grant (quota_column metric q - used) maxGrant divisor demand = ul_granted l" using q by (simp add: used_def)
    then show ?thesis
      using granted q lease_grant_bounds [of "quota_column metric q - used" maxGrant divisor demand] by (simp add: used_def)
  qed (use q in \<open>simp_all add: used_def\<close>)
qed

lemma reserve_usage_lease_exact_witness:
  "ul_granted (snd (projr (reserve_usage_lease
      \<lparr>quotas = [''w'' \<mapsto> \<lparr>clicksPerMonth = 10, conversionsPerMonth = 0, apiRequestsPerMonth = 0, webhookDeliveriesPerMonth = 0\<rparr>],
       buckets = [(''w'', Clicks, ''1970-01'') \<mapsto> 7]\<rparr> 5 ''w'' Clicks 25 20 (Some (''1970-01'', 1)) 9))) = 4"
proof -
  let ?q = "\<lparr>clicksPerMonth = 10, conversionsPerMonth = 0, apiRequestsPerMonth = 0, webhookDeliveriesPerMonth = 0\<rparr>"
  let ?db = "\<lparr>quotas = [''w'' \<mapsto> ?q], buckets = [(''w'', Clicks, ''1970-01'') \<mapsto> 7]\<rparr>"
  obtain db' l where r: "reserve_usage_lease ?db 5 ''w'' Clicks 25 20 (Some (''1970-01'', 1)) 9 = Inr (db', l)"
    by (cases "reserve_usage_lease ?db 5 ''w'' Clicks 25 20 (Some (''1970-01'', 1)) 9")
       (auto simp: reserve_usage_lease_def Let_def split: if_splits)
  have "usage_period_key 5 = ''1970-01''" by code_simp
  then have "bucket_quantity (after_release ?db ''w'' Clicks (Some (''1970-01'', 1))) (''w'', Clicks, usage_period_key 5) = 6"
    unfolding bucket_after_release by (simp add: bucket_quantity_def coalesce_def)
  then show ?thesis using reserve_usage_lease_exact [OF r, of ?q] by (simp add: r)
qed

end
