(* ===== verification/ClickAdmission.thy ===== *)
theory ClickAdmission
  imports TenantUsage
begin

text \<open>
  Admission of billable clicks on the redirect path (\<open>src/lib/click-admission.ts\<close>).  Every
  instance of the service holds leases of units reserved in the database and spends them from
  memory.  The asynchronous functions are split where they await: a call of
  \<open>admitBillableClick\<close> begins, waits for the acquisition in flight and resumes; an
  acquisition begins, its transaction commits or fails, and its result is settled; a release
  starts and its update commits or is lost.  A cluster is the shared database, the instances
  and the releases on their way, and its step relation interleaves all of these freely,
  together with crashes, quota edits and other reservations of the same bucket.  Within a
  month the clicks admitted for a workspace with a quota never exceed the limit.
\<close>

section \<open>State of an instance\<close>

definition LEASE_TTL_MS :: int where "LEASE_TTL_MS = 5000"
definition UNLIMITED_TTL_MS :: int where "UNLIMITED_TTL_MS = 5000"
definition MAX_LEASE_UNITS :: int where "MAX_LEASE_UNITS = 25"
definition HEADROOM_DIVISOR :: int where "HEADROOM_DIVISOR = 20"
definition MAX_ACQUIRE_ATTEMPTS :: nat where "MAX_ACQUIRE_ATTEMPTS = 50"

record lease =
  l_periodKey :: string
  l_remaining :: int
  l_expiresAt :: js_date
  l_exhausted :: bool

text \<open>An acquisition in flight: what it captured, and the committed result once there is one.\<close>

record flight =
  f_previous :: "lease option"
  f_release :: "(string \<times> int) option"
  f_demand :: int
  f_result :: "usage_lease option"

record adm_state =
  a_leases :: "string \<Rightarrow> lease option"
  a_unlimitedUntil :: "string \<Rightarrow> js_date option"
  a_inflight :: "string \<Rightarrow> flight option"
  a_waiting :: "string \<Rightarrow> nat option"

definition empty_adm :: adm_state where
  "empty_adm = \<lparr>a_leases = Map.empty, a_unlimitedUntil = Map.empty, a_inflight = Map.empty, a_waiting = Map.empty\<rparr>"

record click_admission =
  ca_admitted :: bool
  ca_reserved :: bool

section \<open>Operations\<close>

text \<open>The lease a click may be taken from at \<open>now\<close>.\<close>

definition can_take :: "lease option \<Rightarrow> js_date \<Rightarrow> bool" where
  "can_take lo now = (case lo of None \<Rightarrow> False
     | Some l \<Rightarrow> \<not> (l_remaining l \<le> 0 \<or> l_expiresAt l \<le> now \<or> l_periodKey l \<noteq> usage_period_key now))"

definition take_unit :: "adm_state \<Rightarrow> string \<Rightarrow> js_date \<Rightarrow> adm_state \<times> bool" where
  "take_unit st ws now =
     (if can_take (a_leases st ws) now
      then (let l = the (a_leases st ws)
            in (st\<lparr>a_leases := (a_leases st)(ws \<mapsto> l\<lparr>l_remaining := l_remaining l - 1\<rparr>)\<rparr>, True))
      else (st, False))"

text \<open>\<open>acquire\<close> up to its await; joining the acquisition in flight changes nothing.\<close>

definition acquire_begin :: "adm_state \<Rightarrow> string \<Rightarrow> adm_state" where
  "acquire_begin st ws = (case a_inflight st ws of
       Some _ \<Rightarrow> st
     | None \<Rightarrow>
        (let previous = a_leases st ws;
             release = (case previous of None \<Rightarrow> None
               | Some l \<Rightarrow> if l_remaining l > 0 then Some (l_periodKey l, l_remaining l) else None);
             demand = max 1 (int (coalesce (a_waiting st ws) 1))
         in st\<lparr>a_leases := (a_leases st)(ws := None),
               a_inflight := (a_inflight st)(ws \<mapsto>
                 \<lparr>f_previous = previous, f_release = release, f_demand = demand, f_result = None\<rparr>)\<rparr>))"

text \<open>The transaction of the acquisition, when it commits.\<close>

definition acquire_commit :: "usage_db \<Rightarrow> js_date \<Rightarrow> string \<Rightarrow> flight \<Rightarrow> (usage_db \<times> flight) thrown" where
  "acquire_commit db now ws f =
     (case reserve_usage_lease db now ws Clicks MAX_LEASE_UNITS HEADROOM_DIVISOR (f_release f) (f_demand f) of
        Inl e \<Rightarrow> Inl e
      | Inr (db', l) \<Rightarrow> Inr (db', f\<lparr>f_result := Some l\<rparr>))"

text \<open>The continuation after the await, and the \<open>catch\<close> branch.\<close>

definition acquire_settle :: "adm_state \<Rightarrow> string \<Rightarrow> js_date \<Rightarrow> usage_lease \<Rightarrow> adm_state" where
  "acquire_settle st ws now l =
     (let st1 = (if ul_unlimited l
          then st\<lparr>a_unlimitedUntil := (a_unlimitedUntil st)(ws \<mapsto> now + UNLIMITED_TTL_MS)\<rparr>
          else st\<lparr>a_unlimitedUntil := (a_unlimitedUntil st)(ws := None),
                  a_leases := (a_leases st)(ws \<mapsto>
                    \<lparr>l_periodKey = usage_period_key now, l_remaining = ul_granted l,
                     l_expiresAt = now + LEASE_TTL_MS, l_exhausted = (ul_granted l = 0)\<rparr>)\<rparr>)
      in st1\<lparr>a_inflight := (a_inflight st1)(ws := None)\<rparr>)"

definition acquire_fail :: "adm_state \<Rightarrow> string \<Rightarrow> flight \<Rightarrow> adm_state" where
  "acquire_fail st ws f =
     (let st1 = (case f_previous f of None \<Rightarrow> st
          | Some p \<Rightarrow> st\<lparr>a_leases := (a_leases st)(ws \<mapsto> p\<lparr>l_expiresAt := 0\<rparr>)\<rparr>)
      in st1\<lparr>a_inflight := (a_inflight st1)(ws := None)\<rparr>)"

definition unlimited_at :: "adm_state \<Rightarrow> string \<Rightarrow> js_date \<Rightarrow> bool" where
  "unlimited_at st ws now = (coalesce (a_unlimitedUntil st ws) 0 > now)"

text \<open>The \<open>finally\<close> block of \<open>admitBillableClick\<close>.\<close>

definition stop_waiting :: "adm_state \<Rightarrow> string \<Rightarrow> adm_state" where
  "stop_waiting st ws =
     (let left = int (coalesce (a_waiting st ws) 1) - 1
      in st\<lparr>a_waiting := (a_waiting st)(ws := (if left > 0 then Some (nat left) else None))\<rparr>)"

text \<open>\<open>admitBillableClick\<close> up to its first await: \<open>None\<close> when it waits.\<close>

definition admit_begin :: "adm_state \<Rightarrow> string \<Rightarrow> js_date \<Rightarrow> adm_state \<times> click_admission option" where
  "admit_begin st ws now =
     (if unlimited_at st ws now then (st, Some \<lparr>ca_admitted = True, ca_reserved = False\<rparr>)
      else (case take_unit st ws now of (st1, got) \<Rightarrow>
        if got then (st1, Some \<lparr>ca_admitted = True, ca_reserved = True\<rparr>)
        else if (case a_leases st ws of None \<Rightarrow> False | Some l \<Rightarrow> l_exhausted l \<and> l_expiresAt l > now)
            \<and> a_inflight st ws = None
          then (st, Some \<lparr>ca_admitted = False, ca_reserved = False\<rparr>)
        else
          (acquire_begin (st\<lparr>a_waiting := (a_waiting st)(ws \<mapsto> coalesce (a_waiting st ws) 0 + 1)\<rparr>) ws, None)))"

text \<open>One pass of the loop after the await of attempt number \<open>attempt\<close>.\<close>

definition admit_resume :: "adm_state \<Rightarrow> string \<Rightarrow> js_date \<Rightarrow> nat \<Rightarrow> adm_state \<times> click_admission option" where
  "admit_resume st ws after attempt =
     (if unlimited_at st ws after then (stop_waiting st ws, Some \<lparr>ca_admitted = True, ca_reserved = False\<rparr>)
      else (case take_unit st ws after of (st1, got) \<Rightarrow>
        if got then (stop_waiting st1 ws, Some \<lparr>ca_admitted = True, ca_reserved = True\<rparr>)
        else if (case a_leases st ws of None \<Rightarrow> False | Some l \<Rightarrow> l_exhausted l)
          then (stop_waiting st ws, Some \<lparr>ca_admitted = False, ca_reserved = False\<rparr>)
        else if attempt + 1 < MAX_ACQUIRE_ATTEMPTS then (acquire_begin st ws, None)
        else (stop_waiting st ws, Some \<lparr>ca_admitted = False, ca_reserved = False\<rparr>)))"

text \<open>A release on its way to the database.\<close>

record pending_release =
  pr_ws :: string
  pr_period :: string
  pr_amount :: int

definition return_admitted_click :: "adm_state \<Rightarrow> string \<Rightarrow> js_date \<Rightarrow> adm_state \<times> pending_release list" where
  "return_admitted_click st ws now = (case a_leases st ws of
       Some l \<Rightarrow> (if l_periodKey l = usage_period_key now
          then (st\<lparr>a_leases := (a_leases st)(ws \<mapsto> l\<lparr>l_remaining := l_remaining l + 1\<rparr>)\<rparr>, [])
          else (st, [\<lparr>pr_ws = ws, pr_period = usage_period_key now, pr_amount = 1\<rparr>]))
     | None \<Rightarrow> (st, [\<lparr>pr_ws = ws, pr_period = usage_period_key now, pr_amount = 1\<rparr>]))"

text \<open>One iteration of the first loop of \<open>sweepExpiredLeases\<close>, and its second loop.\<close>

definition sweep_lease :: "adm_state \<Rightarrow> string \<Rightarrow> js_date \<Rightarrow> adm_state \<times> pending_release list" where
  "sweep_lease st ws now = (case a_leases st ws of
       None \<Rightarrow> (st, [])
     | Some l \<Rightarrow>
        if l_expiresAt l > now \<or> a_inflight st ws \<noteq> None then (st, [])
        else (st\<lparr>a_leases := (a_leases st)(ws := None)\<rparr>,
              (if l_remaining l \<le> 0 then []
               else [\<lparr>pr_ws = ws, pr_period = l_periodKey l, pr_amount = l_remaining l\<rparr>])))"

definition sweep_unlimited :: "adm_state \<Rightarrow> js_date \<Rightarrow> adm_state" where
  "sweep_unlimited st now = st\<lparr>a_unlimitedUntil := (\<lambda>ws. case a_unlimitedUntil st ws of
       None \<Rightarrow> None | Some u \<Rightarrow> if u \<le> now then None else Some u)\<rparr>"

definition commit_release :: "usage_db \<Rightarrow> pending_release \<Rightarrow> usage_db" where
  "commit_release db p = release_usage db (pr_ws p) Clicks (pr_period p) (pr_amount p)"

section \<open>The cluster\<close>

text \<open>
  \<open>c_spent\<close> counts, per workspace, the clicks admitted against a reserved unit and not
  returned, \<open>c_free\<close> the clicks admitted without one; they are not part of the program's state.
  A caller gives back only a reserved click.  Quota rows are neither created nor deleted by the
  program, only edited.
\<close>

record cluster =
  c_db :: usage_db
  c_nodes :: "adm_state list"
  c_pending :: "pending_release list"
  c_spent :: "string \<Rightarrow> int"
  c_free :: "string \<Rightarrow> int"

definition set_node :: "cluster \<Rightarrow> nat \<Rightarrow> adm_state \<Rightarrow> cluster" where
  "set_node c i st = c\<lparr>c_nodes := (c_nodes c)[i := st]\<rparr>"

definition add_spent :: "cluster \<Rightarrow> string \<Rightarrow> int \<Rightarrow> cluster" where
  "add_spent c ws n = c\<lparr>c_spent := (c_spent c)(ws := c_spent c ws + n)\<rparr>"

definition add_free :: "cluster \<Rightarrow> string \<Rightarrow> int \<Rightarrow> cluster" where
  "add_free c ws n = c\<lparr>c_free := (c_free c)(ws := c_free c ws + n)\<rparr>"

definition spent_by :: "click_admission option \<Rightarrow> int" where
  "spent_by r = (case r of Some a \<Rightarrow> if ca_admitted a \<and> ca_reserved a then 1 else 0 | None \<Rightarrow> 0)"

definition free_by :: "click_admission option \<Rightarrow> int" where
  "free_by r = (case r of Some a \<Rightarrow> if ca_admitted a \<and> \<not> ca_reserved a then 1 else 0 | None \<Rightarrow> 0)"

definition count_answer :: "cluster \<Rightarrow> string \<Rightarrow> click_admission option \<Rightarrow> cluster" where
  "count_answer c ws r = add_free (add_spent c ws (spent_by r)) ws (free_by r)"

inductive adm_step :: "js_date \<Rightarrow> cluster \<Rightarrow> cluster \<Rightarrow> bool" where
  Admit: "i < length (c_nodes c) \<Longrightarrow> admit_begin (c_nodes c ! i) ws now = (st, r) \<Longrightarrow>
    adm_step now c (count_answer (set_node c i st) ws r)"
| Resume: "i < length (c_nodes c) \<Longrightarrow> admit_resume (c_nodes c ! i) ws now attempt = (st, r) \<Longrightarrow>
    adm_step now c (count_answer (set_node c i st) ws r)"
| Throw: "i < length (c_nodes c) \<Longrightarrow> adm_step now c (set_node c i (stop_waiting (c_nodes c ! i) ws))"
| Commit: "i < length (c_nodes c) \<Longrightarrow> a_inflight (c_nodes c ! i) ws = Some f \<Longrightarrow> f_result f = None \<Longrightarrow>
    acquire_commit (c_db c) now ws f = Inr (db, f') \<Longrightarrow>
    adm_step now c ((set_node c i ((c_nodes c ! i)\<lparr>a_inflight := (a_inflight (c_nodes c ! i))(ws \<mapsto> f')\<rparr>))\<lparr>c_db := db\<rparr>)"
| Settle: "i < length (c_nodes c) \<Longrightarrow> a_inflight (c_nodes c ! i) ws = Some f \<Longrightarrow> f_result f = Some l \<Longrightarrow>
    adm_step now c (set_node c i (acquire_settle (c_nodes c ! i) ws now l))"
| Fail: "i < length (c_nodes c) \<Longrightarrow> a_inflight (c_nodes c ! i) ws = Some f \<Longrightarrow> f_result f = None \<Longrightarrow>
    adm_step now c (set_node c i (acquire_fail (c_nodes c ! i) ws f))"
| Return: "i < length (c_nodes c) \<Longrightarrow> 0 < c_spent c ws \<Longrightarrow> return_admitted_click (c_nodes c ! i) ws now = (st, ps) \<Longrightarrow>
    adm_step now c (add_spent ((set_node c i st)\<lparr>c_pending := ps @ c_pending c\<rparr>) ws (- 1))"
| Sweep: "i < length (c_nodes c) \<Longrightarrow> sweep_lease (c_nodes c ! i) ws now = (st, ps) \<Longrightarrow>
    adm_step now c ((set_node c i st)\<lparr>c_pending := ps @ c_pending c\<rparr>)"
| Sweep_unlimited: "i < length (c_nodes c) \<Longrightarrow>
    adm_step now c (set_node c i (sweep_unlimited (c_nodes c ! i) now))"
| Release: "c_pending c = ps @ p # qs \<Longrightarrow>
    adm_step now c (c\<lparr>c_db := commit_release (c_db c) p, c_pending := ps @ qs\<rparr>)"
| Release_lost: "c_pending c = ps @ p # qs \<Longrightarrow> adm_step now c (c\<lparr>c_pending := ps @ qs\<rparr>)"
| Crash: "i < length (c_nodes c) \<Longrightarrow> adm_step now c (set_node c i empty_adm)"
| Reserve: "reserve_usage (c_db c) now ws Clicks amount = Inr (db, r) \<Longrightarrow>
    adm_step now c (add_spent (c\<lparr>c_db := db\<rparr>) ws (if ures_allowed r then amount else 0))"
| Edit_quota: "quotas (c_db c) ws = Some q \<Longrightarrow>
    adm_step now c (c\<lparr>c_db := (c_db c)\<lparr>quotas := (quotas (c_db c))(ws \<mapsto> q')\<rparr>\<rparr>)"

definition limits_within :: "(string \<Rightarrow> int) \<Rightarrow> cluster \<Rightarrow> bool" where
  "limits_within L c \<longleftrightarrow> (\<forall>ws q. quotas (c_db c) ws = Some q \<longrightarrow> clicksPerMonth q \<le> L ws)"

text \<open>
  The runs whose steps all happen in the month \<open>P\<close>, while no click limit exceeds \<open>L\<close>.  The clock is
  not before 1970.
\<close>

inductive adm_run :: "string \<Rightarrow> (string \<Rightarrow> int) \<Rightarrow> cluster \<Rightarrow> cluster \<Rightarrow> bool" for P L where
  start: "limits_within L c \<Longrightarrow> adm_run P L c c"
| step: "adm_run P L c c' \<Longrightarrow> usage_period_key now = P \<Longrightarrow> 0 \<le> now \<Longrightarrow> adm_step now c' c'' \<Longrightarrow> limits_within L c''
    \<Longrightarrow> adm_run P L c c''"

section \<open>The ledger of a month\<close>

text \<open>Units of month \<open>P\<close> that a lease, an acquisition in flight or a release accounts for.\<close>

definition lease_units :: "string \<Rightarrow> lease option \<Rightarrow> int" where
  "lease_units P lo = (case lo of None \<Rightarrow> 0 | Some l \<Rightarrow> if l_periodKey l = P then l_remaining l else 0)"

definition flight_units :: "string \<Rightarrow> flight option \<Rightarrow> int" where
  "flight_units P fo = (case fo of None \<Rightarrow> 0
     | Some f \<Rightarrow> (case f_result f of Some l \<Rightarrow> ul_granted l | None \<Rightarrow> lease_units P (f_previous f)))"

definition node_units :: "string \<Rightarrow> string \<Rightarrow> adm_state \<Rightarrow> int" where
  "node_units P ws st = lease_units P (a_leases st ws) + flight_units P (a_inflight st ws)"

definition pending_units :: "string \<Rightarrow> string \<Rightarrow> pending_release \<Rightarrow> int" where
  "pending_units P ws p = (if pr_ws p = ws \<and> pr_period p = P then pr_amount p else 0)"

definition outstanding :: "string \<Rightarrow> string \<Rightarrow> cluster \<Rightarrow> int" where
  "outstanding P ws c = sum_list (map (node_units P ws) (c_nodes c)) + sum_list (map (pending_units P ws) (c_pending c))"

text \<open>What the code keeps of each instance.\<close>

definition wf_flight :: "flight \<Rightarrow> bool" where
  "wf_flight f \<longleftrightarrow> (case f_previous f of None \<Rightarrow> f_release f = None
      | Some l \<Rightarrow> 0 \<le> l_remaining l \<and> f_release f = (if l_remaining l > 0 then Some (l_periodKey l, l_remaining l) else None))
    \<and> (case f_result f of None \<Rightarrow> True | Some l \<Rightarrow> 0 \<le> ul_granted l \<and> (ul_unlimited l \<longrightarrow> ul_granted l = 0))"

definition wf_node :: "adm_state \<Rightarrow> bool" where
  "wf_node st \<longleftrightarrow> (\<forall>ws l. a_leases st ws = Some l \<longrightarrow> 0 \<le> l_remaining l)
    \<and> (\<forall>ws f. a_inflight st ws = Some f \<longrightarrow> wf_flight f \<and> a_leases st ws = None)"

definition ledger :: "string \<Rightarrow> (string \<Rightarrow> int) \<Rightarrow> cluster \<Rightarrow> bool" where
  "ledger P L c \<longleftrightarrow> (\<forall>st \<in> set (c_nodes c). wf_node st) \<and> (\<forall>p \<in> set (c_pending c). 0 < pr_amount p)
    \<and> (\<forall>ws. 0 \<le> c_spent c ws)
    \<and> (\<forall>ws q. quotas (c_db c) ws = Some q \<longrightarrow> outstanding P ws c + c_spent c ws \<le> bucket_quantity (c_db c) (ws, Clicks, P) \<and>
         bucket_quantity (c_db c) (ws, Clicks, P) \<le> L ws)"

lemma lease_units_nonneg: "(case lo of None \<Rightarrow> True | Some l \<Rightarrow> 0 \<le> l_remaining l) \<Longrightarrow> 0 \<le> lease_units P lo"
  by (auto simp: lease_units_def split: option.splits)

lemma flight_units_nonneg: "wf_flight f \<Longrightarrow> 0 \<le> flight_units P (Some f)"
  by (auto simp: flight_units_def wf_flight_def lease_units_def split: option.splits)

lemma node_units_nonneg:
  assumes wf: "wf_node st"
  shows "0 \<le> node_units P ws st"
proof -
  have "0 \<le> lease_units P (a_leases st ws)"
    using wf by (intro lease_units_nonneg) (auto simp: wf_node_def split: option.split)
  moreover have "0 \<le> flight_units P (a_inflight st ws)"
    using wf flight_units_nonneg by (cases "a_inflight st ws") (auto simp: wf_node_def flight_units_def [of _ None])
  ultimately show ?thesis by (simp add: node_units_def)
qed

lemma wf_empty_adm: "wf_node empty_adm"
  by (simp add: wf_node_def empty_adm_def)

section \<open>Each operation keeps the books of its instance\<close>

lemma wf_node_lease:
  "wf_node st \<Longrightarrow> a_inflight st ws = None \<Longrightarrow> 0 \<le> l_remaining l \<Longrightarrow> wf_node (st\<lparr>a_leases := (a_leases st)(ws \<mapsto> l)\<rparr>)"
  by (auto simp add: wf_node_def)

lemma wf_node_leased: "wf_node st \<Longrightarrow> a_leases st ws = Some l \<Longrightarrow> a_inflight st ws = None \<and> 0 \<le> l_remaining l"
  by (cases "a_inflight st ws") (auto simp: wf_node_def)

lemma node_units_lease:
  "node_units P ws' (st\<lparr>a_leases := (a_leases st)(ws \<mapsto> l)\<rparr>) =
    (if ws' = ws then lease_units P (Some l) + flight_units P (a_inflight st ws) else node_units P ws' st)"
  by (simp add: node_units_def)

lemma take_unit_units:
  assumes wf: "wf_node st" and take: "take_unit st ws now = (st', got)" and P: "usage_period_key now = P"
  shows "wf_node st' \<and> node_units P ws' st' + (if ws' = ws \<and> got then 1 else 0) = node_units P ws' st"
proof (cases "can_take (a_leases st ws) now")
  case True
  then obtain l where l: "a_leases st ws = Some l" "0 < l_remaining l" "l_periodKey l = P"
    using P by (auto simp: can_take_def split: option.splits)
  have st': "st' = st\<lparr>a_leases := (a_leases st)(ws \<mapsto> l\<lparr>l_remaining := l_remaining l - 1\<rparr>)\<rparr>" "got"
    using True take l by (auto simp: take_unit_def Let_def)
  show ?thesis
    using wf_node_leased [OF wf l(1)] wf_node_lease [OF wf, of ws "l\<lparr>l_remaining := l_remaining l - 1\<rparr>"] l
    by (simp add: st' node_units_lease lease_units_def node_units_def)
next
  case False
  then show ?thesis using wf take by (simp add: take_unit_def)
qed

lemma acquire_begin_units:
  assumes "wf_node st"
  shows "wf_node (acquire_begin st ws) \<and> node_units P ws' (acquire_begin st ws) = node_units P ws' st"
proof (cases "a_inflight st ws")
  case None
  let ?g = "\<lparr>f_previous = a_leases st ws, f_release = (case a_leases st ws of None \<Rightarrow> None
      | Some l \<Rightarrow> if l_remaining l > 0 then Some (l_periodKey l, l_remaining l) else None),
      f_demand = max 1 (int (coalesce (a_waiting st ws) 1)), f_result = None\<rparr>"
  have a: "acquire_begin st ws = st\<lparr>a_leases := (a_leases st)(ws := None), a_inflight := (a_inflight st)(ws \<mapsto> ?g)\<rparr>"
    using None by (simp add: acquire_begin_def Let_def)
  have g: "wf_flight ?g" using assms by (auto simp: wf_node_def wf_flight_def split: option.splits)
  have u: "flight_units P (Some ?g) = lease_units P (a_leases st ws)" by (simp add: flight_units_def)
  have "node_units P ws' (acquire_begin st ws) = node_units P ws' st"
    unfolding node_units_def a using u None by (simp add: lease_units_def flight_units_def)
  then show ?thesis using assms g by (auto simp: a wf_node_def)
qed (simp add: acquire_begin_def assms)

lemma waiting_units [simp]:
  "wf_node (st\<lparr>a_waiting := w\<rparr>) = wf_node st" "node_units P ws (st\<lparr>a_waiting := w\<rparr>) = node_units P ws st"
  by (simp_all add: wf_node_def node_units_def)

lemma stop_waiting_units [simp]:
  "wf_node (stop_waiting st ws) = wf_node st" "node_units P ws' (stop_waiting st ws) = node_units P ws' st"
  by (simp_all add: stop_waiting_def Let_def)

lemma admit_begin_units:
  assumes "wf_node st" "admit_begin st ws now = (st', r)" "usage_period_key now = P"
  shows "wf_node st' \<and> node_units P ws' st' + (if ws' = ws then spent_by r else 0) = node_units P ws' st"
proof -
  obtain st1 got where t: "take_unit st ws now = (st1, got)" by fastforce
  show ?thesis
    using assms(2) take_unit_units [OF assms(1) t assms(3), of ws'] assms(1) acquire_begin_units
    by (auto simp: admit_begin_def t spent_by_def split: if_splits)
qed

lemma admit_resume_units:
  assumes "wf_node st" "admit_resume st ws now attempt = (st', r)" "usage_period_key now = P"
  shows "wf_node st' \<and> node_units P ws' st' + (if ws' = ws then spent_by r else 0) = node_units P ws' st"
proof -
  obtain st1 got where t: "take_unit st ws now = (st1, got)" by fastforce
  show ?thesis
    using assms(2) take_unit_units [OF assms(1) t assms(3), of ws'] assms(1) acquire_begin_units
    by (auto simp: admit_resume_def t spent_by_def split: if_splits)
qed

lemma acquire_settle_units:
  assumes "wf_node st" "a_inflight st ws = Some f" "f_result f = Some l" "usage_period_key now = P"
  shows "wf_node (acquire_settle st ws now l) \<and> node_units P ws' (acquire_settle st ws now l) = node_units P ws' st"
proof -
  have n: "a_leases st ws = None" and f: "wf_flight f" using assms by (auto simp: wf_node_def)
  then have l: "0 \<le> ul_granted l" "ul_unlimited l \<Longrightarrow> ul_granted l = 0" using assms(3) by (auto simp: wf_flight_def)
  show ?thesis using assms n l
    by (auto simp: acquire_settle_def wf_node_def node_units_def flight_units_def lease_units_def Let_def split: if_splits)
qed

lemma acquire_fail_units:
  assumes "wf_node st" "a_inflight st ws = Some f" "f_result f = None"
  shows "wf_node (acquire_fail st ws f) \<and> node_units P ws' (acquire_fail st ws f) = node_units P ws' st"
proof -
  have n: "a_leases st ws = None" and f: "wf_flight f" using assms by (auto simp: wf_node_def)
  then have l: "f_previous f = Some p \<Longrightarrow> 0 \<le> l_remaining p" for p by (auto simp: wf_flight_def)
  show ?thesis
  proof (cases "f_previous f")
    case None
    then show ?thesis using assms n
      by (auto simp: acquire_fail_def wf_node_def node_units_def flight_units_def lease_units_def)
  next
    case (Some p)
    then show ?thesis using assms n l
      by (auto simp: acquire_fail_def wf_node_def node_units_def flight_units_def lease_units_def Let_def split: if_splits)
  qed
qed

definition pending_sum :: "string \<Rightarrow> string \<Rightarrow> pending_release list \<Rightarrow> int" where
  "pending_sum P ws ps = sum_list (map (pending_units P ws) ps)"

lemma pending_sum_simps [simp]:
  "pending_sum P ws [] = 0" "pending_sum P ws (p # ps) = pending_units P ws p + pending_sum P ws ps"
  "pending_sum P ws (ps @ qs) = pending_sum P ws ps + pending_sum P ws qs"
  by (simp_all add: pending_sum_def)

lemma return_units:
  assumes wf: "wf_node st" and ret: "return_admitted_click st ws now = (st', ps)" and P: "usage_period_key now = P"
  shows "wf_node st' \<and> (\<forall>p \<in> set ps. 0 < pr_amount p) \<and>
    node_units P ws' st' + pending_sum P ws' ps = node_units P ws' st + (if ws' = ws then 1 else 0)"
proof (cases "\<exists>l. a_leases st ws = Some l \<and> l_periodKey l = P")
  case True
  then obtain l where l: "a_leases st ws = Some l" "l_periodKey l = P" by blast
  have st': "st' = st\<lparr>a_leases := (a_leases st)(ws \<mapsto> l\<lparr>l_remaining := l_remaining l + 1\<rparr>)\<rparr>" "ps = []"
    using ret P l by (auto simp: return_admitted_click_def)
  show ?thesis
    using wf_node_leased [OF wf l(1)] wf_node_lease [OF wf, of ws "l\<lparr>l_remaining := l_remaining l + 1\<rparr>"] l
    by (simp add: st' node_units_lease lease_units_def node_units_def)
next
  case False
  then have "st' = st" "ps = [\<lparr>pr_ws = ws, pr_period = P, pr_amount = 1\<rparr>]"
    using ret P by (auto simp: return_admitted_click_def split: option.splits if_splits)
  then show ?thesis using wf by (simp add: pending_units_def)
qed

lemma sweep_units:
  assumes "wf_node st" "sweep_lease st ws now = (st', ps)"
  shows "wf_node st' \<and> (\<forall>p \<in> set ps. 0 < pr_amount p) \<and>
    node_units P ws' st' + pending_sum P ws' ps = node_units P ws' st"
proof -
  have wf: "wf_node (st\<lparr>a_leases := (a_leases st)(ws := None)\<rparr>)" using assms(1) by (auto simp: wf_node_def)
  have "0 \<le> l_remaining l" if "a_leases st ws = Some l" for l using assms(1) that by (auto simp: wf_node_def)
  moreover have "ps = [] \<and> st' = st \<or> (\<exists>l. a_leases st ws = Some l \<and> st' = st\<lparr>a_leases := (a_leases st)(ws := None)\<rparr> \<and>
      ps = (if l_remaining l \<le> 0 then [] else [\<lparr>pr_ws = ws, pr_period = l_periodKey l, pr_amount = l_remaining l\<rparr>]))"
    using assms(2) by (auto simp: sweep_lease_def split: option.splits if_splits)
  ultimately show ?thesis
  proof (elim disjE exE conjE)
    fix l assume l: "a_leases st ws = Some l" "st' = st\<lparr>a_leases := (a_leases st)(ws := None)\<rparr>"
      and ps: "ps = (if l_remaining l \<le> 0 then [] else [\<lparr>pr_ws = ws, pr_period = l_periodKey l, pr_amount = l_remaining l\<rparr>])"
      and pos: "\<And>l. a_leases st ws = Some l \<Longrightarrow> 0 \<le> l_remaining l"
    have "0 \<le> l_remaining l" by (rule pos [OF l(1)])
    then have "pending_sum P ws' ps = (if ws' = ws then lease_units P (a_leases st ws) else 0)"
      by (auto simp: ps lease_units_def pending_units_def l(1))
    moreover have "\<forall>p \<in> set ps. 0 < pr_amount p" by (simp add: ps)
    moreover have "node_units P ws' st' = node_units P ws' st - (if ws' = ws then lease_units P (a_leases st ws) else 0)"
      by (simp add: l(2) node_units_def) (simp add: lease_units_def)
    ultimately show ?thesis using wf l(2) by simp
  qed (use assms(1) in simp)
qed

lemma sweep_unlimited_units [simp]:
  "wf_node (sweep_unlimited st now) = wf_node st" "node_units P ws (sweep_unlimited st now) = node_units P ws st"
  by (simp_all add: sweep_unlimited_def wf_node_def node_units_def)

lemma acquire_commit_cases:
  assumes "acquire_commit db now ws f = Inr (db', f')"
  obtains l where "reserve_usage_lease db now ws Clicks MAX_LEASE_UNITS HEADROOM_DIVISOR (f_release f) (f_demand f) = Inr (db', l)"
    "f' = f\<lparr>f_result := Some l\<rparr>"
  using assms by (auto simp: acquire_commit_def split: sum.splits prod.splits)

section \<open>Every step keeps the ledger\<close>

lemma sum_nodes_update:
  "i < length xs \<Longrightarrow> sum_list (map f (xs[i := x])) = sum_list (map f xs) + f x - (f (xs ! i) :: int)"
  by (induction xs arbitrary: i) (auto split: nat.split)

lemma outstanding_set_node:
  "i < length (c_nodes c) \<Longrightarrow>
    outstanding P ws (set_node c i st) = outstanding P ws c + node_units P ws st - node_units P ws (c_nodes c ! i)"
  by (simp add: outstanding_def set_node_def sum_nodes_update)

lemma outstanding_simps [simp]:
  "outstanding P ws (add_spent c v n) = outstanding P ws c"
  "outstanding P ws (c\<lparr>c_db := db\<rparr>) = outstanding P ws c"
  by (simp_all add: outstanding_def add_spent_def)

lemma outstanding_pending:
  "outstanding P ws (c\<lparr>c_pending := ps\<rparr>) = outstanding P ws c - pending_sum P ws (c_pending c) + pending_sum P ws ps"
  by (simp add: outstanding_def pending_sum_def)

lemma cluster_simps [simp]:
  "c_db (set_node c i st) = c_db c" "c_pending (set_node c i st) = c_pending c" "c_spent (set_node c i st) = c_spent c"
  "c_db (add_spent c ws n) = c_db c" "c_nodes (add_spent c ws n) = c_nodes c" "c_pending (add_spent c ws n) = c_pending c"
  "c_spent (add_spent c ws n) v = c_spent c v + (if v = ws then n else 0)"
  "c_nodes (set_node c i st) = (c_nodes c)[i := st]"
  by (simp_all add: set_node_def add_spent_def)

lemma ledgerD:
  assumes "ledger P L c"
  shows "st \<in> set (c_nodes c) \<Longrightarrow> wf_node st" "p \<in> set (c_pending c) \<Longrightarrow> 0 < pr_amount p" "0 \<le> c_spent c ws"
    "quotas (c_db c) ws = Some q \<Longrightarrow> outstanding P ws c + c_spent c ws \<le> bucket_quantity (c_db c) (ws, Clicks, P)"
    "quotas (c_db c) ws = Some q \<Longrightarrow> bucket_quantity (c_db c) (ws, Clicks, P) \<le> L ws"
  using assms by (auto simp: ledger_def)

lemma pending_sum_nonneg: "\<forall>p \<in> set ps. 0 < pr_amount p \<Longrightarrow> 0 \<le> pending_sum P ws ps"
  by (induction ps) (auto simp: pending_units_def)

lemma node_sum_nonneg: "\<forall>st \<in> set nodes. wf_node st \<Longrightarrow> 0 \<le> sum_list (map (node_units P ws) nodes)"
  by (induction nodes) (auto simp: node_units_nonneg)

lemma node_le_outstanding:
  assumes "ledger P L c" "i < length (c_nodes c)"
  shows "node_units P ws (c_nodes c ! i) \<le> outstanding P ws c"
proof -
  have "node_units P ws (c_nodes c ! i) \<le> sum_list (map (node_units P ws) (c_nodes c))"
    using member_le_sum_list [of "node_units P ws (c_nodes c ! i)" "map (node_units P ws) (c_nodes c)"]
      ledgerD(1) [OF assms(1)] assms(2) node_units_nonneg by auto
  moreover have "0 \<le> pending_sum P ws (c_pending c)" using ledgerD(2) [OF assms(1)] by (intro pending_sum_nonneg) auto
  ultimately show ?thesis by (simp add: outstanding_def pending_sum_def)
qed

text \<open>A step that only changes one instance and the clicks it spent.\<close>

lemma ledger_node_step:
  assumes inv: "ledger P L c" and i: "i < length (c_nodes c)" and wf: "wf_node st"
    and units: "\<And>v. node_units P v st + (if v = ws then n else 0) \<le> node_units P v (c_nodes c ! i)"
    and n: "0 \<le> n"
  shows "ledger P L (add_spent (set_node c i st) ws n)"
proof -
  have "wf_node x" if "x \<in> set ((c_nodes c)[i := st])" for x
    using set_update_subset_insert that wf ledgerD(1) [OF inv] by fastforce
  moreover have "outstanding P v (add_spent (set_node c i st) ws n) + c_spent (add_spent (set_node c i st) ws n) v
      \<le> bucket_quantity (c_db c) (v, Clicks, P)" if "quotas (c_db c) v = Some q" for v q
    using ledgerD(4) [OF inv that] units [of v] by (simp add: outstanding_set_node [OF i])
  ultimately show ?thesis using inv n by (auto simp: ledger_def)
qed

lemma ledger_free: "ledger P L (add_free c ws n) = ledger P L c"
  by (simp add: ledger_def add_free_def outstanding_def)

lemma ledger_node_only:
  assumes "ledger P L c" "i < length (c_nodes c)" "wf_node st"
    and "\<And>v. node_units P v st \<le> node_units P v (c_nodes c ! i)"
  shows "ledger P L (set_node c i st)"
proof -
  have "add_spent (set_node c i st) ws 0 = set_node c i st" for ws by (simp add: add_spent_def)
  then show ?thesis using ledger_node_step [OF assms(1-3), where n = 0] assms(4) by simp
qed

lemma spent_by_nonneg: "0 \<le> spent_by r"
  by (auto simp: spent_by_def split: option.splits)

lemma ledger_commit:
  assumes inv: "ledger P L c" and i: "i < length (c_nodes c)"
    and f: "a_inflight (c_nodes c ! i) ws = Some f" "f_result f = None"
    and commit: "acquire_commit (c_db c) now ws f = Inr (db, f')" and P: "usage_period_key now = P"
    and lim: "limits_within L c"
  shows "ledger P L ((set_node c i ((c_nodes c ! i)\<lparr>a_inflight := (a_inflight (c_nodes c ! i))(ws \<mapsto> f')\<rparr>))\<lparr>c_db := db\<rparr>)"
proof -
  let ?st = "c_nodes c ! i" and ?k = "(ws, Clicks, P)"
  let ?st' = "?st\<lparr>a_inflight := (a_inflight ?st)(ws \<mapsto> f')\<rparr>"
  obtain l where l: "reserve_usage_lease (c_db c) now ws Clicks MAX_LEASE_UNITS HEADROOM_DIVISOR (f_release f) (f_demand f)
      = Inr (db, l)" and f': "f' = f\<lparr>f_result := Some l\<rparr>"
    by (rule acquire_commit_cases [OF commit])
  note e = reserve_usage_lease_effect [OF l, unfolded P]
  have wf: "wf_node ?st" using ledgerD(1) [OF inv] i by simp
  then have wff: "wf_flight f" and none: "a_leases ?st ws = None" using f by (auto simp: wf_node_def)
  have wff': "wf_flight f'" using wff e(3,4,5) by (cases "f_previous f") (auto simp: f' wf_flight_def)
  have wf': "wf_node ?st'" using wf wff' none by (auto simp: wf_node_def)
  have units: "node_units P v ?st' = node_units P v ?st + (if v = ws then ul_granted l - lease_units P (f_previous f) else 0)" for v
    using f by (auto simp: node_units_def flight_units_def f')
  have bucket: "bucket_quantity db (v, Clicks, P) =
      bucket_quantity (c_db c) (v, Clicks, P) + (if v = ws then ul_granted l - lease_units P (f_previous f) else 0)"
    and limit: "v = ws \<Longrightarrow> bucket_quantity db ?k \<le> L ws" if q: "quotas (c_db c) v = Some q" for v q
  proof -
    have rel: "v = ws \<Longrightarrow> bucket_quantity (after_release (c_db c) ws Clicks (f_release f)) ?k =
        bucket_quantity (c_db c) ?k - lease_units P (f_previous f)"
    proof -
      assume [simp]: "v = ws"
      have "lease_units P (f_previous f) \<le> node_units P ws ?st"
        using f none by (simp add: node_units_def flight_units_def lease_units_def)
      also have "\<dots> \<le> bucket_quantity (c_db c) ?k"
        using node_le_outstanding [OF inv i, of ws] ledgerD(3) [OF inv, of ws] ledgerD(4) [OF inv, of ws q] q by simp
      finally show ?thesis using wff
        by (auto simp: bucket_after_release wf_flight_def lease_units_def split: option.splits if_splits)
    qed
    show "bucket_quantity db (v, Clicks, P) =
        bucket_quantity (c_db c) (v, Clicks, P) + (if v = ws then ul_granted l - lease_units P (f_previous f) else 0)"
    proof (cases "v = ws")
      case True
      then show ?thesis using rel e(2) [of ?k] by simp
    next
      case False
      then show ?thesis using e(2) [of "(v, Clicks, P)"] by (simp add: bucket_after_release split: option.splits)
    qed
    assume [simp]: "v = ws"
    have "bucket_quantity db ?k \<le> max (bucket_quantity (c_db c) ?k) (clicksPerMonth q)"
      using rel e(2) [of ?k] e(6) [of q] q wff
      by (auto simp: wf_flight_def lease_units_def split: option.splits)
    also have "\<dots> \<le> L ws" using ledgerD(5) [OF inv, of ws q] q lim by (auto simp: limits_within_def)
    finally show "bucket_quantity db ?k \<le> L ws" .
  qed
  have "wf_node x" if "x \<in> set ((c_nodes c)[i := ?st'])" for x
    using set_update_subset_insert that wf' ledgerD(1) [OF inv] by fastforce
  moreover have "outstanding P v (set_node c i ?st') + c_spent c v \<le> bucket_quantity db (v, Clicks, P)
      \<and> bucket_quantity db (v, Clicks, P) \<le> L v" if "quotas db v = Some q" for v q
  proof -
    have q: "quotas (c_db c) v = Some q" using that e(1) by simp
    show ?thesis
      using bucket [OF q] limit [OF q] units [of v] ledgerD(4,5) [OF inv q]
      by (cases "v = ws") (simp_all add: outstanding_set_node [OF i])
  qed
  ultimately show ?thesis using inv by (auto simp: ledger_def)
qed

lemma ledger_pending:
  assumes inv: "ledger P L c" and i: "i < length (c_nodes c)" and wf: "wf_node st"
    and pos: "\<forall>p \<in> set ps. 0 < pr_amount p" and n: "0 \<le> c_spent c ws + n"
    and units: "\<And>v. node_units P v st + pending_sum P v ps + (if v = ws then n else 0) \<le> node_units P v (c_nodes c ! i)"
  shows "ledger P L (add_spent ((set_node c i st)\<lparr>c_pending := ps @ c_pending c\<rparr>) ws n)"
proof -
  have "wf_node x" if "x \<in> set ((c_nodes c)[i := st])" for x
    using set_update_subset_insert that wf ledgerD(1) [OF inv] by fastforce
  moreover have "outstanding P v (add_spent ((set_node c i st)\<lparr>c_pending := ps @ c_pending c\<rparr>) ws n)
      + c_spent (add_spent ((set_node c i st)\<lparr>c_pending := ps @ c_pending c\<rparr>) ws n) v
      \<le> bucket_quantity (c_db c) (v, Clicks, P)" if "quotas (c_db c) v = Some q" for v q
    using ledgerD(4) [OF inv that] units [of v] by (simp add: outstanding_pending outstanding_set_node [OF i])
  ultimately show ?thesis using inv n pos by (auto simp: ledger_def)
qed

lemma ledger_release:
  assumes inv: "ledger P L c" and p: "c_pending c = ps @ p # qs"
  shows "ledger P L (c\<lparr>c_db := commit_release (c_db c) p, c_pending := ps @ qs\<rparr>)"
proof -
  have pos: "0 < pr_amount p" using ledgerD(2) [OF inv] p by simp
  have b: "bucket_quantity (commit_release (c_db c) p) (v, Clicks, P) =
      bucket_quantity (c_db c) (v, Clicks, P) - pending_units P v p" if q: "quotas (c_db c) v = Some q" for v q
  proof -
    have "pending_units P v p \<le> outstanding P v c"
      using node_sum_nonneg [of "c_nodes c" P v] pending_sum_nonneg [of ps P v] pending_sum_nonneg [of qs P v] ledgerD(1,2) [OF inv]
      by (auto simp: outstanding_def pending_sum_def p)
    then have "pending_units P v p \<le> bucket_quantity (c_db c) (v, Clicks, P)"
      using ledgerD(3) [OF inv, of v] ledgerD(4) [OF inv q] by simp
    then show ?thesis using pos
      by (auto simp: commit_release_def release_usage_def bucket_decrement pending_units_def split: if_splits)
  qed
  have qs: "quotas (commit_release (c_db c) p) = quotas (c_db c)" by (simp add: commit_release_def)
  have np: "0 \<le> pending_units P v p" for v using pos by (simp add: pending_units_def)
  have "outstanding P v (c\<lparr>c_db := commit_release (c_db c) p, c_pending := ps @ qs\<rparr>) = outstanding P v c - pending_units P v p" for v
    by (simp add: outstanding_def p)
  moreover have "bucket_quantity (c_db c) (v, Clicks, P) - pending_units P v p \<le> L v" if "quotas (c_db c) v = Some q" for v q
    using ledgerD(5) [OF inv that] np [of v] by simp
  ultimately show ?thesis
    using inv p unfolding ledger_def by (auto simp: qs b)
qed

lemma ledger_drop:
  assumes inv: "ledger P L c" and p: "c_pending c = ps @ p # qs"
  shows "ledger P L (c\<lparr>c_pending := ps @ qs\<rparr>)"
proof -
  have "0 \<le> pending_units P v p" for v using ledgerD(2) [OF inv, of p] p by (simp add: pending_units_def)
  moreover have "outstanding P v (c\<lparr>c_pending := ps @ qs\<rparr>) = outstanding P v c - pending_units P v p" for v
    by (simp add: outstanding_def p)
  ultimately show ?thesis using inv p unfolding ledger_def by (auto, smt (verit))
qed

lemma ledger_reserve:
  assumes inv: "ledger P L c" and r: "reserve_usage (c_db c) now ws Clicks amount = Inr (db, r)"
    and P: "usage_period_key now = P" and lim: "limits_within L c"
  shows "ledger P L (add_spent (c\<lparr>c_db := db\<rparr>) ws (if ures_allowed r then amount else 0))"
proof -
  note e = reserve_usage_effect [OF r, unfolded P]
  have "outstanding P v c + (c_spent c v + (if v = ws then if ures_allowed r then amount else 0 else 0))
      \<le> bucket_quantity db (v, Clicks, P) \<and> bucket_quantity db (v, Clicks, P) \<le> L v"
    if q: "quotas (c_db c) v = Some q" for v q
    using ledgerD(4,5) [OF inv q] e(3) e(4) [of "(v, Clicks, P)"] q lim
    by (auto simp: limits_within_def split: if_splits) (smt (verit))
  then show ?thesis using inv e(1,2) by (auto simp: ledger_def)
qed

lemma ledger_edit:
  assumes inv: "ledger P L c" and q: "quotas (c_db c) ws = Some q"
  shows "ledger P L (c\<lparr>c_db := (c_db c)\<lparr>quotas := (quotas (c_db c))(ws \<mapsto> q')\<rparr>\<rparr>)"
proof -
  have "bucket_quantity ((c_db c)\<lparr>quotas := m\<rparr>) k = bucket_quantity (c_db c) k" for m k
    by (simp add: bucket_quantity_def)
  then show ?thesis using inv q by (auto simp: ledger_def)
qed

lemma adm_step_ledger:
  assumes "adm_step now c c'" "ledger P L c" "usage_period_key now = P" "limits_within L c"
  shows "ledger P L c'"
  using assms
proof (induction rule: adm_step.induct)
  case (Admit i c ws now st r)
  have "wf_node (c_nodes c ! i)" using Admit ledgerD(1) by simp
  from admit_begin_units [OF this Admit(2) Admit(4)] show ?case
    using Admit spent_by_nonneg unfolding count_answer_def ledger_free by (intro ledger_node_step) auto
next
  case (Resume i c ws now attempt st r)
  have "wf_node (c_nodes c ! i)" using Resume ledgerD(1) by simp
  from admit_resume_units [OF this Resume(2) Resume(4)] show ?case
    using Resume spent_by_nonneg unfolding count_answer_def ledger_free by (intro ledger_node_step) auto
next
  case (Throw i c now ws)
  then show ?case using ledgerD(1) by (intro ledger_node_only) auto
next
  case (Commit i c ws f now db f')
  then show ?case by (intro ledger_commit) auto
next
  case (Settle i c ws f l now)
  have "wf_node (c_nodes c ! i)" using Settle ledgerD(1) by simp
  from acquire_settle_units [OF this Settle(2,3,5)] show ?case
    using Settle by (intro ledger_node_only) auto
next
  case (Fail i c ws f now)
  have "wf_node (c_nodes c ! i)" using Fail ledgerD(1) by simp
  from acquire_fail_units [OF this Fail(2,3)] show ?case
    using Fail by (intro ledger_node_only) auto
next
  case (Return i c ws now st ps)
  have "wf_node (c_nodes c ! i)" using Return ledgerD(1) by simp
  from return_units [OF this Return(3,5)] show ?case
    using Return by (intro ledger_pending) (auto split: if_splits)
next
  case (Sweep i c ws now st ps)
  have "wf_node (c_nodes c ! i)" using Sweep ledgerD(1) by simp
  note u = sweep_units [OF this Sweep(2), of P]
  have "add_spent x ws 0 = x" for x :: cluster by (simp add: add_spent_def)
  moreover have "ledger P L (add_spent ((set_node c i st)\<lparr>c_pending := ps @ c_pending c\<rparr>) ws 0)"
    using Sweep u ledgerD(3) by (intro ledger_pending) auto
  ultimately show ?case by simp
next
  case (Sweep_unlimited i c now)
  then show ?case using ledgerD(1) by (intro ledger_node_only) auto
next
  case (Release c ps p qs now)
  then show ?case by (intro ledger_release)
next
  case (Release_lost c ps p qs now)
  then show ?case by (intro ledger_drop)
next
  case (Crash i c now)
  have e: "node_units P v empty_adm = 0" for v
    by (simp add: node_units_def empty_adm_def lease_units_def flight_units_def)
  have "wf_node (c_nodes c ! i)" using Crash ledgerD(1) by simp
  then show ?case
    using Crash node_units_nonneg wf_empty_adm by (intro ledger_node_only) (auto simp: e)
next
  case (Reserve c now ws amount db r)
  then show ?case by (intro ledger_reserve) auto
next
  case (Edit_quota c ws q now q')
  then show ?case by (intro ledger_edit)
qed

section \<open>Metered workspaces have no unlimited window\<close>

text \<open>
  No instance has an unlimited window, or an answer that opens one, for a workspace with a quota,
  and no click of such a workspace was admitted without a unit.
\<close>

definition meters :: "usage_db \<Rightarrow> adm_state \<Rightarrow> bool" where
  "meters db st \<longleftrightarrow> (\<forall>ws. quotas db ws \<noteq> None \<longrightarrow> a_unlimitedUntil st ws = None
     \<and> (\<forall>f l. a_inflight st ws = Some f \<longrightarrow> f_result f = Some l \<longrightarrow> \<not> ul_unlimited l))"

definition metered :: "cluster \<Rightarrow> bool" where
  "metered c \<longleftrightarrow> (\<forall>st \<in> set (c_nodes c). meters (c_db c) st) \<and> (\<forall>ws. quotas (c_db c) ws \<noteq> None \<longrightarrow> c_free c ws = 0)"

lemma meters_bounded:
  "meters db st \<Longrightarrow> quotas db ws \<noteq> None \<Longrightarrow> 0 \<le> now \<Longrightarrow> \<not> unlimited_at st ws now"
  by (auto simp: meters_def unlimited_at_def coalesce_def)

lemma meters_take:
  assumes "take_unit st ws now = (st', got)"
  shows "meters db st' = meters db st"
  using assms by (auto simp: take_unit_def meters_def Let_def split: if_splits)

lemma meters_acquire_begin: "meters db st \<Longrightarrow> meters db (acquire_begin st ws)"
  by (auto simp: acquire_begin_def meters_def Let_def split: option.splits)

lemma meters_waiting [simp]: "meters db (st\<lparr>a_waiting := w\<rparr>) = meters db st" "meters db (stop_waiting st ws) = meters db st"
  by (simp_all add: meters_def stop_waiting_def Let_def)

lemma meters_admit_begin:
  assumes "meters db st" "admit_begin st ws now = (st', r)"
  shows "meters db st'" "0 \<le> now \<Longrightarrow> quotas db ws \<noteq> None \<Longrightarrow> free_by r = 0"
proof -
  obtain st1 got where t: "take_unit st ws now = (st1, got)" by fastforce
  show "meters db st'" using assms meters_take [OF t] meters_acquire_begin by (auto simp: admit_begin_def t split: if_splits)
  show "0 \<le> now \<Longrightarrow> quotas db ws \<noteq> None \<Longrightarrow> free_by r = 0"
    using assms(2) meters_bounded [OF assms(1), of ws now] by (auto simp: admit_begin_def t free_by_def split: if_splits)
qed

lemma meters_admit_resume:
  assumes "meters db st" "admit_resume st ws now attempt = (st', r)"
  shows "meters db st'" "0 \<le> now \<Longrightarrow> quotas db ws \<noteq> None \<Longrightarrow> free_by r = 0"
proof -
  obtain st1 got where t: "take_unit st ws now = (st1, got)" by fastforce
  show "meters db st'" using assms meters_take [OF t] meters_acquire_begin by (auto simp: admit_resume_def t split: if_splits)
  show "0 \<le> now \<Longrightarrow> quotas db ws \<noteq> None \<Longrightarrow> free_by r = 0"
    using assms(2) meters_bounded [OF assms(1), of ws now] by (auto simp: admit_resume_def t free_by_def split: if_splits)
qed

lemma meters_settle:
  assumes "meters db st" "a_inflight st ws = Some f" "f_result f = Some l"
  shows "meters db (acquire_settle st ws now l)"
  using assms by (auto simp: meters_def acquire_settle_def Let_def)

lemma meters_fail: "meters db st \<Longrightarrow> meters db (acquire_fail st ws f)"
  by (auto simp: meters_def acquire_fail_def Let_def split: option.splits)

lemma meters_return: "meters db st \<Longrightarrow> return_admitted_click st ws now = (st', ps) \<Longrightarrow> meters db st'"
  by (auto simp: meters_def return_admitted_click_def split: option.splits if_splits)

lemma meters_sweep: "meters db st \<Longrightarrow> sweep_lease st ws now = (st', ps) \<Longrightarrow> meters db st'"
  by (auto simp: meters_def sweep_lease_def split: option.splits if_splits)

lemma meters_sweep_unlimited: "meters db st \<Longrightarrow> meters db (sweep_unlimited st now)"
  by (auto simp: meters_def sweep_unlimited_def)

lemma meters_db: "(\<And>ws. quotas db' ws = None \<longleftrightarrow> quotas db ws = None) \<Longrightarrow> meters db' st = meters db st"
  unfolding meters_def by presburger

lemma metered_node:
  assumes "metered c" "i < length (c_nodes c)" "meters (c_db c) (c_nodes c ! i) \<Longrightarrow> meters (c_db c) st"
  shows "metered (set_node c i st)"
  using assms set_update_subset_insert [of "c_nodes c" i st] unfolding metered_def by (auto simp: set_node_def)

lemma metered_same [simp]:
  "metered (add_spent c ws n) = metered c" "metered (c\<lparr>c_pending := ps\<rparr>) = metered c"
  by (simp_all add: metered_def add_spent_def)

lemma metered_db:
  assumes "\<And>ws. quotas db ws = None \<longleftrightarrow> quotas (c_db c) ws = None"
  shows "metered (c\<lparr>c_db := db\<rparr>) = metered c"
  using assms meters_db [of db "c_db c"] by (simp add: metered_def)

lemma metered_answer:
  assumes "metered c" "quotas (c_db c) ws \<noteq> None \<Longrightarrow> free_by r = 0"
  shows "metered (count_answer c ws r)"
  using assms by (auto simp: metered_def count_answer_def add_free_def add_spent_def)

lemma adm_step_metered:
  assumes "adm_step now c c'" "metered c" "0 \<le> now"
  shows "metered c'"
  using assms
proof (induction rule: adm_step.induct)
  case (Admit i c ws now st r)
  have "meters (c_db c) (c_nodes c ! i)" using Admit by (simp add: metered_def)
  note m = meters_admit_begin [OF this Admit(2)]
  show ?case using Admit m metered_node [of c i st] by (intro metered_answer) (simp_all add: set_node_def)
next
  case (Resume i c ws now attempt st r)
  have "meters (c_db c) (c_nodes c ! i)" using Resume by (simp add: metered_def)
  note m = meters_admit_resume [OF this Resume(2)]
  show ?case using Resume m metered_node [of c i st] by (intro metered_answer) (simp_all add: set_node_def)
next
  case (Throw i c now ws)
  then show ?case by (intro metered_node) auto
next
  case (Commit i c ws f now db f')
  obtain l where l: "reserve_usage_lease (c_db c) now ws Clicks MAX_LEASE_UNITS HEADROOM_DIVISOR (f_release f) (f_demand f) = Inr (db, l)"
    and f': "f' = f\<lparr>f_result := Some l\<rparr>" by (rule acquire_commit_cases [OF Commit(4)])
  have "metered (set_node c i ((c_nodes c ! i)\<lparr>a_inflight := (a_inflight (c_nodes c ! i))(ws \<mapsto> f')\<rparr>))"
    using reserve_usage_lease_effect(4) [OF l]
    by (intro metered_node [OF Commit(5,1)]) (auto simp: meters_def f')
  then show ?case using reserve_usage_lease_effect(1) [OF l] by (simp add: metered_db)
next
  case (Settle i c ws f l now)
  then show ?case using meters_settle by (intro metered_node) auto
next
  case (Fail i c ws f now)
  then show ?case using meters_fail by (intro metered_node) auto
next
  case (Return i c ws now st ps)
  then show ?case using meters_return by (simp add: metered_node)
next
  case (Sweep i c ws now st ps)
  then show ?case using meters_sweep by (simp add: metered_node)
next
  case (Sweep_unlimited i c now)
  then show ?case using meters_sweep_unlimited by (intro metered_node) auto
next
  case (Release c ps p qs now)
  have "c\<lparr>c_db := commit_release (c_db c) p, c_pending := ps @ qs\<rparr> = (c\<lparr>c_db := commit_release (c_db c) p\<rparr>)\<lparr>c_pending := ps @ qs\<rparr>" by simp
  moreover have "metered (c\<lparr>c_db := commit_release (c_db c) p\<rparr>)"
    using Release by (subst metered_db) (simp_all add: commit_release_def)
  ultimately show ?case by (simp only: metered_same)
next
  case (Release_lost c ps p qs now)
  then show ?case by simp
next
  case (Crash i c now)
  have "meters (c_db c) empty_adm" by (simp add: meters_def empty_adm_def)
  then show ?case using Crash by (intro metered_node) auto
next
  case (Reserve c now ws amount db r)
  then show ?case using reserve_usage_effect(1) [OF Reserve(1)] by (simp add: metered_db)
next
  case (Edit_quota c ws q now q')
  then show ?case by (subst metered_db) auto
qed

text \<open>
  The first moment of a month: leases and releases belong to earlier months, no committed
  grant is waiting to be settled, and nothing is spent.  No instance has an unlimited window open
  for a workspace with a quota, which holds once the quota is five seconds old.
\<close>

definition new_month :: "string \<Rightarrow> cluster \<Rightarrow> bool" where
  "new_month P c \<longleftrightarrow> (\<forall>st \<in> set (c_nodes c). wf_node st \<and> (\<forall>ws. node_units P ws st = 0))
    \<and> (\<forall>p \<in> set (c_pending c). 0 < pr_amount p \<and> pr_period p \<noteq> P)
    \<and> (\<forall>ws. c_spent c ws = 0 \<and> bucket_quantity (c_db c) (ws, Clicks, P) = 0) \<and> metered c"

lemma new_month_ledger:
  assumes "new_month P c" "\<And>ws. 0 \<le> L ws"
  shows "ledger P L c"
proof -
  have "sum_list (map (node_units P ws) nodes) = 0" if "\<forall>st \<in> set nodes. node_units P ws st = 0" for ws nodes
    using that by (induction nodes) auto
  moreover have "sum_list (map (pending_units P ws) ps) = 0" if "\<forall>p \<in> set ps. pr_period p \<noteq> P" for ws ps
    using that by (induction ps) (auto simp: pending_units_def)
  ultimately show ?thesis using assms by (auto simp: new_month_def ledger_def outstanding_def)
qed

lemma adm_run_ledger:
  assumes "adm_run P L c0 c" "ledger P L c0" "metered c0"
  shows "ledger P L c \<and> limits_within L c \<and> metered c"
  using assms by (induction) (auto intro: adm_step_ledger adm_step_metered)

section \<open>Properties\<close>

text \<open>
  C5: Clicks are never admitted beyond the monthly limit.  Take a workspace with a quota and a run
  that starts with the month, on any number of instances, whatever the interleaving of admissions,
  acquisitions, failures, returns, sweeps, crashes, quota edits and other reservations.  Every click
  admitted was admitted against a reserved unit, the clicks admitted and not returned together with
  the units still held never exceed what the bucket has reserved, and the clicks admitted never exceed
  the largest limit in force.
\<close>

theorem admission_never_over_limit:
  assumes run: "adm_run P L c0 c" and start: "new_month P c0" and L: "\<And>ws. 0 \<le> L ws"
    and quota: "quotas (c_db c) ws = Some q"
  shows "c_spent c ws + outstanding P ws c \<le> bucket_quantity (c_db c) (ws, Clicks, P)
    \<and> 0 \<le> outstanding P ws c \<and> c_free c ws = 0 \<and> c_spent c ws + c_free c ws \<le> L ws"
proof -
  have "metered c0" using start by (simp add: new_month_def)
  then have inv: "ledger P L c" "metered c" using adm_run_ledger [OF run new_month_ledger [OF start L]] by simp_all
  have "0 \<le> outstanding P ws c"
    using node_sum_nonneg [of "c_nodes c" P ws] pending_sum_nonneg [of "c_pending c" P ws] ledgerD(1,2) [OF inv(1)]
    by (auto simp: outstanding_def pending_sum_def)
  moreover have "c_free c ws = 0" using inv(2) quota by (simp add: metered_def)
  ultimately show ?thesis using ledgerD(4,5) [OF inv(1) quota] by simp
qed

text \<open>A run of one instance: a click waits, the acquisition commits and settles, the click resumes.\<close>

definition quota_of :: "int \<Rightarrow> tenant_quota" where
  "quota_of n = \<lparr>clicksPerMonth = n, conversionsPerMonth = 0, apiRequestsPerMonth = 0, webhookDeliveriesPerMonth = 0\<rparr>"

definition one_node :: "int \<Rightarrow> cluster" where
  "one_node n = \<lparr>c_db = \<lparr>quotas = [''w'' \<mapsto> quota_of n], buckets = Map.empty\<rparr>, c_nodes = [empty_adm], c_pending = [],
     c_spent = (\<lambda>_. 0), c_free = (\<lambda>_. 0)\<rparr>"

definition do_admit :: "cluster \<Rightarrow> nat \<Rightarrow> string \<Rightarrow> js_date \<Rightarrow> cluster" where
  "do_admit c i ws now = (case admit_begin (c_nodes c ! i) ws now of (st, r) \<Rightarrow> count_answer (set_node c i st) ws r)"

definition do_resume :: "cluster \<Rightarrow> nat \<Rightarrow> string \<Rightarrow> js_date \<Rightarrow> cluster" where
  "do_resume c i ws now = (case admit_resume (c_nodes c ! i) ws now 0 of (st, r) \<Rightarrow> count_answer (set_node c i st) ws r)"

definition do_commit :: "cluster \<Rightarrow> nat \<Rightarrow> string \<Rightarrow> js_date \<Rightarrow> cluster" where
  "do_commit c i ws now = (case a_inflight (c_nodes c ! i) ws of None \<Rightarrow> c
     | Some f \<Rightarrow> (case acquire_commit (c_db c) now ws f of Inl _ \<Rightarrow> c
         | Inr (db, f') \<Rightarrow> (set_node c i ((c_nodes c ! i)\<lparr>a_inflight := (a_inflight (c_nodes c ! i))(ws \<mapsto> f')\<rparr>))\<lparr>c_db := db\<rparr>))"

definition do_settle :: "cluster \<Rightarrow> nat \<Rightarrow> string \<Rightarrow> js_date \<Rightarrow> cluster" where
  "do_settle c i ws now = (case a_inflight (c_nodes c ! i) ws of None \<Rightarrow> c
     | Some f \<Rightarrow> (case f_result f of None \<Rightarrow> c | Some l \<Rightarrow> set_node c i (acquire_settle (c_nodes c ! i) ws now l)))"

definition do_return :: "cluster \<Rightarrow> nat \<Rightarrow> string \<Rightarrow> js_date \<Rightarrow> cluster" where
  "do_return c i ws now = (case return_admitted_click (c_nodes c ! i) ws now of (st, ps) \<Rightarrow>
     add_spent ((set_node c i st)\<lparr>c_pending := ps @ c_pending c\<rparr>) ws (- 1))"

definition click_through :: "cluster \<Rightarrow> string \<Rightarrow> js_date \<Rightarrow> cluster" where
  "click_through c ws now = do_resume (do_settle (do_commit (do_admit c 0 ws now) 0 ws now) 0 ws now) 0 ws now"

lemma do_admit_step: "i < length (c_nodes c) \<Longrightarrow> adm_step now c (do_admit c i ws now)"
  unfolding do_admit_def by (cases "admit_begin (c_nodes c ! i) ws now") (auto intro: Admit)

lemma do_resume_step: "i < length (c_nodes c) \<Longrightarrow> adm_step now c (do_resume c i ws now)"
  unfolding do_resume_def by (cases "admit_resume (c_nodes c ! i) ws now 0") (auto intro: Resume)

lemma do_commit_step:
  assumes i: "i < length (c_nodes c)" and r: "map_option f_result (a_inflight (c_nodes c ! i) ws) = Some None"
    and ok: "\<not> isl (acquire_commit (c_db c) now ws (the (a_inflight (c_nodes c ! i) ws)))"
  shows "adm_step now c (do_commit c i ws now)"
proof -
  obtain f where f: "a_inflight (c_nodes c ! i) ws = Some f" "f_result f = None" using r by auto
  obtain db f' where "acquire_commit (c_db c) now ws f = Inr (db, f')"
    using ok f by (cases "acquire_commit (c_db c) now ws f") auto
  then show ?thesis using Commit [OF i f] f by (simp add: do_commit_def)
qed

lemma do_settle_step:
  assumes "i < length (c_nodes c)" "Option.bind (a_inflight (c_nodes c ! i) ws) f_result \<noteq> None"
  shows "adm_step now c (do_settle c i ws now)"
proof -
  obtain f l where f: "a_inflight (c_nodes c ! i) ws = Some f" "f_result f = Some l"
    using assms(2) by (auto simp: Option.bind_eq_None_conv)
  then show ?thesis using Settle [OF assms(1) f] by (simp add: do_settle_def)
qed

lemma do_quotas [simp]:
  "quotas (c_db (do_admit c i ws now)) = quotas (c_db c)"
  "quotas (c_db (do_resume c i ws now)) = quotas (c_db c)"
  "quotas (c_db (do_settle c i ws now)) = quotas (c_db c)"
  by (simp_all add: do_admit_def do_resume_def do_settle_def count_answer_def add_free_def split: prod.split option.split)

lemma do_commit_quotas [simp]: "quotas (c_db (do_commit c i ws now)) = quotas (c_db c)"
  by (auto simp: do_commit_def acquire_commit_def reserve_usage_lease_effect(1) split: option.splits sum.splits prod.splits)

lemma period_0: "usage_period_key 0 = ''1970-01''"
  by (simp add: usage_period_key_def iso_eval)

lemmas run_eval = do_admit_def do_commit_def do_settle_def do_resume_def click_through_def one_node_def quota_of_def
  admit_begin_def unlimited_at_def take_unit_def can_take_def empty_adm_def acquire_begin_def set_node_def add_spent_def
  acquire_commit_def reserve_usage_lease_def after_release_def bucket_quantity_def set_bucket_def lease_grant_def
  acquire_settle_def admit_resume_def stop_waiting_def count_answer_def add_free_def spent_by_def free_by_def coalesce_def
  LEASE_TTL_MS_def UNLIMITED_TTL_MS_def MAX_LEASE_UNITS_def HEADROOM_DIVISOR_def

theorem admission_never_over_limit_witness:
  "c_spent (click_through (one_node 1) ''w'' 0) ''w'' = 1
    \<and> c_spent (click_through (one_node 1) ''w'' 0) ''w'' + c_free (click_through (one_node 1) ''w'' 0) ''w'' \<le> 1"
proof -
  let ?L = "\<lambda>_. 1 :: int" and ?c0 = "one_node 1"
  let ?c1 = "do_admit ?c0 0 ''w'' 0"
  let ?c2 = "do_commit ?c1 0 ''w'' 0"
  let ?c3 = "do_settle ?c2 0 ''w'' 0"
  have lim: "limits_within ?L c" if "quotas (c_db c) = quotas (c_db ?c0)" for c
    using that by (simp add: limits_within_def one_node_def quota_of_def)
  have "adm_step 0 ?c0 ?c1" by (rule do_admit_step) (simp add: one_node_def)
  moreover have "adm_step 0 ?c1 ?c2" by (rule do_commit_step; simp add: run_eval period_0)
  moreover have "adm_step 0 ?c2 ?c3" by (rule do_settle_step; simp add: run_eval period_0)
  moreover have "adm_step 0 ?c3 (click_through ?c0 ''w'' 0)"
    unfolding click_through_def by (rule do_resume_step) (simp add: run_eval period_0)
  ultimately have run: "adm_run (usage_period_key 0) ?L ?c0 (click_through ?c0 ''w'' 0)"
    by (intro adm_run.step [OF adm_run.step [OF adm_run.step [OF adm_run.step [OF adm_run.start]]]])
       (auto intro!: lim simp: click_through_def)
  have new: "new_month (usage_period_key 0) ?c0"
    using wf_empty_adm
    by (simp add: new_month_def one_node_def node_units_def empty_adm_def lease_units_def flight_units_def
        bucket_quantity_def coalesce_def metered_def meters_def)
  have quota: "quotas (c_db (click_through ?c0 ''w'' 0)) ''w'' = Some (quota_of 1)"
    by (simp add: click_through_def) (simp add: one_node_def)
  have "c_spent (click_through ?c0 ''w'' 0) ''w'' = 1" by (simp add: run_eval period_0)
  then show ?thesis using admission_never_over_limit [OF run new _ quota] by simp
qed

text \<open>
  Across a month boundary the guarantee fails by the returned units.  A workspace with one
  click a month has used January's and February's; the January click is returned in February,
  is credited to February's lease, and a second February click is admitted from it.
\<close>

definition FEBRUARY :: js_date where "FEBRUARY = 2678400000"

definition two_months :: cluster where
  "two_months = \<lparr>c_db = \<lparr>quotas = [''w'' \<mapsto> quota_of 1],
       buckets = [(''w'', Clicks, ''1970-01'') \<mapsto> 1, (''w'', Clicks, ''1970-02'') \<mapsto> 1]\<rparr>,
     c_nodes = [empty_adm\<lparr>a_leases := [''w'' \<mapsto> \<lparr>l_periodKey = ''1970-02'', l_remaining = 0,
       l_expiresAt = FEBRUARY + LEASE_TTL_MS, l_exhausted = False\<rparr>]\<rparr>],
     c_pending = [], c_spent = (\<lambda>_. 2), c_free = (\<lambda>_. 0)\<rparr>"

lemma period_february: "usage_period_key FEBRUARY = ''1970-02''"
  by (simp add: FEBRUARY_def usage_period_key_def iso_eval)

lemma return_across_months_over_admits:
  "usage_period_key FEBRUARY = ''1970-02'' \<and>
   spent_by (snd (admit_begin (c_nodes (do_return two_months 0 ''w'' FEBRUARY) ! 0) ''w'' FEBRUARY)) = 1"
  by (simp add: run_eval period_february two_months_def do_return_def return_admitted_click_def)
     (simp add: FEBRUARY_def)

text \<open>
  A single caller with no other activity: the whole of \<open>admitBillableClick\<close> when the
  transaction commits.
\<close>

definition admit_alone :: "usage_db \<Rightarrow> adm_state \<Rightarrow> string \<Rightarrow> js_date \<Rightarrow> (usage_db \<times> adm_state \<times> click_admission option) thrown" where
  "admit_alone db st ws now = (case admit_begin st ws now of
       (st1, Some r) \<Rightarrow> Inr (db, st1, Some r)
     | (st1, None) \<Rightarrow> (case a_inflight st1 ws of
         None \<Rightarrow> Inr (db, st1, None)
       | Some f \<Rightarrow> (case acquire_commit db now ws f of
           Inl e \<Rightarrow> Inl e
         | Inr (db', f') \<Rightarrow> (case f_result f' of
             None \<Rightarrow> Inr (db', st1, None)
           | Some l \<Rightarrow> (case admit_resume (acquire_settle st1 ws now l) ws now 0 of (st2, r) \<Rightarrow> Inr (db', st2, r))))))"

lemma can_take_units:
  "can_take lo now \<Longrightarrow> usage_period_key now = P \<Longrightarrow> 0 < lease_units P lo"
  by (auto simp: can_take_def lease_units_def split: option.splits)

lemma acquire_commit_alone:
  "acquire_commit db now ws f = Inr (db', f') \<longleftrightarrow>
    (\<exists>l. reserve_usage_lease db now ws Clicks MAX_LEASE_UNITS HEADROOM_DIVISOR (f_release f) (f_demand f) = Inr (db', l)
      \<and> f' = f\<lparr>f_result := Some l\<rparr>)"
  by (auto simp: acquire_commit_def split: sum.splits prod.splits)

lemma lease_granted_iff:
  assumes l: "reserve_usage_lease db now ws Clicks MAX_LEASE_UNITS HEADROOM_DIVISOR release demand = Inr (db', l)"
    and q: "quotas db ws = Some q"
  shows "0 < ul_granted l \<longleftrightarrow>
    bucket_quantity (after_release db ws Clicks release) (ws, Clicks, usage_period_key now) < clicksPerMonth q"
  using l
proof (cases rule: reserve_usage_lease_cases)
  case (granted q')
  have "0 < lease_grant h MAX_LEASE_UNITS HEADROOM_DIVISOR demand" if "0 < h" for h
    using lease_grant_bounds(1) [OF that granted(3,4), of demand] by simp
  then show ?thesis using granted q by simp
qed (use q in simp_all)

lemma admit_resume_granted:
  assumes "a_leases st ws = Some l" "l_periodKey l = usage_period_key now" "now < l_expiresAt l" "\<not> unlimited_at st ws now"
    "l_exhausted l \<longleftrightarrow> l_remaining l \<le> 0"
  shows "\<exists>st' r. admit_resume st ws now attempt = (st', Some r) \<and> ca_reserved r = ca_admitted r \<and>
    (ca_admitted r \<longleftrightarrow> 0 < l_remaining l)"
  using assms by (auto simp: admit_resume_def take_unit_def can_take_def Let_def)

text \<open>
  Admission of a lone click is exact.  On an instance whose lease the bucket covers, a
  workspace with a quota gets its click admitted from the lease when a unit of the current
  month is left; it is refused at once while an exhausted lease lasts; otherwise it is
  admitted exactly when the bucket, less the units the old lease hands back, is below the
  limit.  An admitted click is always covered by a reserved unit.
\<close>

lemma admit_alone_exact:
  assumes wf: "wf_node st" and idle: "a_inflight st ws = None" and metered: "\<not> unlimited_at st ws now" "0 \<le> now"
    and quota: "quotas db ws = Some q"
    and covered: "\<And>l. a_leases st ws = Some l \<Longrightarrow> l_remaining l \<le> bucket_quantity db (ws, Clicks, l_periodKey l)"
  defines "P \<equiv> usage_period_key now"
  shows "\<exists>db' st' r. admit_alone db st ws now = Inr (db', st', Some r) \<and> ca_reserved r = ca_admitted r \<and>
    (ca_admitted r \<longleftrightarrow> can_take (a_leases st ws) now \<or>
      (\<not> (\<exists>l. a_leases st ws = Some l \<and> l_exhausted l \<and> l_expiresAt l > now) \<and>
       bucket_quantity db (ws, Clicks, P) - lease_units P (a_leases st ws) < clicksPerMonth q))"
proof -
  let ?lease = "a_leases st ws"
  consider (take) "can_take ?lease now"
    | (exhausted) l where "\<not> can_take ?lease now" "?lease = Some l" "l_exhausted l" "l_expiresAt l > now"
    | (acquire) "\<not> can_take ?lease now" "\<not> (\<exists>l. ?lease = Some l \<and> l_exhausted l \<and> l_expiresAt l > now)"
    by blast
  then show ?thesis
  proof cases
    case take
    then show ?thesis using metered by (simp add: admit_alone_def admit_begin_def take_unit_def Let_def)
  next
    case exhausted
    then show ?thesis using metered idle by (simp add: admit_alone_def admit_begin_def take_unit_def)
  next
    case acquire
    define st1 where "st1 = acquire_begin (st\<lparr>a_waiting := (a_waiting st)(ws \<mapsto> coalesce (a_waiting st ws) 0 + 1)\<rparr>) ws"
    have b: "admit_begin st ws now = (st1, None)"
      using acquire metered by (auto simp: admit_begin_def take_unit_def st1_def split: option.splits)
    obtain f where f: "a_inflight st1 ws = Some f" and
      rel: "f_release f = (case ?lease of None \<Rightarrow> None | Some l \<Rightarrow> if l_remaining l > 0 then Some (l_periodKey l, l_remaining l) else None)"
      using idle by (simp add: st1_def acquire_begin_def Let_def)
    obtain db' l where l: "reserve_usage_lease db now ws Clicks MAX_LEASE_UNITS HEADROOM_DIVISOR (f_release f) (f_demand f) = Inr (db', l)"
      by (fastforce simp: reserve_usage_lease_def MAX_LEASE_UNITS_def HEADROOM_DIVISOR_def Let_def split: option.splits)
    have c: "acquire_commit db now ws f = Inr (db', f\<lparr>f_result := Some l\<rparr>)"
      using l by (simp add: acquire_commit_alone)
    have limited: "\<not> ul_unlimited l" using reserve_usage_lease_effect(4) [OF l] quota by simp
    let ?st2 = "acquire_settle st1 ws now l"
    have lease: "a_leases ?st2 ws = Some \<lparr>l_periodKey = usage_period_key now, l_remaining = ul_granted l,
        l_expiresAt = now + LEASE_TTL_MS, l_exhausted = (ul_granted l = 0)\<rparr>"
      and metered2: "\<not> unlimited_at ?st2 ws now"
      using limited metered by (simp_all add: acquire_settle_def unlimited_at_def coalesce_def)
    have exh: "ul_granted l = 0 \<longleftrightarrow> ul_granted l \<le> 0" using reserve_usage_lease_effect(3) [OF l] by simp
    obtain st3 r where r: "admit_resume ?st2 ws now 0 = (st3, Some r)" "ca_reserved r = ca_admitted r"
      "ca_admitted r \<longleftrightarrow> 0 < ul_granted l"
      using admit_resume_granted [OF lease _ _ metered2, of 0] exh by (auto simp: LEASE_TTL_MS_def)
    have "bucket_quantity (after_release db ws Clicks (f_release f)) (ws, Clicks, P) =
        bucket_quantity db (ws, Clicks, P) - lease_units P ?lease"
      using covered wf by (auto simp: rel bucket_after_release lease_units_def wf_node_def split: option.splits)
         (meson order_antisym not_le)?
    then show ?thesis
      using b f c r acquire lease_granted_iff [OF l quota] by (auto simp: admit_alone_def P_def)
  qed
qed

text \<open>An instance with no lease; the bucket is one unit below its limit.\<close>

definition nearly_full :: usage_db where
  "nearly_full = \<lparr>quotas = (\<lambda>_. Some (quota_of 3)), buckets = (\<lambda>_. Some 2)\<rparr>"

lemma admit_alone_exact_witness:
  "\<exists>db' st' r. admit_alone nearly_full empty_adm ''ws'' 0 = Inr (db', st', Some r) \<and> ca_reserved r = ca_admitted r \<and>
    (ca_admitted r \<longleftrightarrow> can_take (a_leases empty_adm ''ws'') 0 \<or>
      (\<not> (\<exists>l. a_leases empty_adm ''ws'' = Some l \<and> l_exhausted l \<and> l_expiresAt l > 0) \<and>
       bucket_quantity nearly_full (''ws'', Clicks, usage_period_key 0)
         - lease_units (usage_period_key 0) (a_leases empty_adm ''ws'') < clicksPerMonth (quota_of 3)))"
  by (rule admit_alone_exact)
     (simp_all add: nearly_full_def empty_adm_def wf_node_def unlimited_at_def coalesce_def)

end
