(* ===== verification/RedirectHandler.thy ===== *)
theory RedirectHandler
  imports LinkData PreviewPages Campaigns Tokens RateLimit ClickAdmission
begin

text \<open>
  The redirect handler, \<open>GET\<close> of \<open>src/app/[shortCode]/route.ts\<close>.  It is split where it awaits:
  the lookup of the link, the gates in their order, the choice of the destination, the
  admission steps on the shared database, and the response.  What an await delivers (the
  link, the campaign, the revision, the admission of the tenant) is an argument of the next
  part.  \<open>redirect_get\<close> composes them; \<open>click_step\<close> interleaves the admission steps of many
  visits.  One instant stands for the readings of the clock between two awaits.
\<close>

section \<open>Surroundings\<close>

record route_env =
  re_baseUrl :: string
  re_appHost :: string
  re_resolve :: "string \<Rightarrow> string \<Rightarrow> string"
  re_url :: url_parser
  re_href :: "web_url \<Rightarrow> string"
  re_hash_params :: "string \<Rightarrow> (string \<times> string) list"
  re_params_text :: "(string \<times> string) list \<Rightarrow> string"
  re_intl :: "string \<Rightarrow> js_date \<Rightarrow> string \<times> nat \<times> nat"
  re_tz_known :: "string \<Rightarrow> bool"
  re_date :: "string \<Rightarrow> js_date option"
  re_digest :: "string \<Rightarrow> nat"
  re_crypto :: crypto
  re_secret :: "string option"
  re_hops :: "string option"

text \<open>A page of the application: \<open>new URL(path, baseUrl)\<close>.\<close>

definition page :: "route_env \<Rightarrow> string \<Rightarrow> string" where
  "page env path = re_resolve env path (re_baseUrl env)"

section \<open>Reading the request\<close>

definition request_host :: "request \<Rightarrow> string" where
  "request_host rq =
     (let candidate = strip_prefix ''www.'' (to_lower (rq_hostname rq))
      in if 1 \<le> length candidate \<and> length candidate \<le> 253 \<and>
            list_all (\<lambda>c. is_lower c \<or> is_digit c \<or> c = CHR ''.'' \<or> c = CHR ''-'') candidate
         then candidate else [])"

definition is_short_code :: "string \<Rightarrow> bool" where
  "is_short_code s = (1 \<le> length s \<and> length s \<le> 64 \<and> list_all (\<lambda>c. is_alnum c \<or> c = CHR ''_'' \<or> c = CHR ''-'') s)"

text \<open>\<open>captureUtmParams\<close>: in the order source, medium, campaign, term, content.\<close>

definition utm_param :: "(string \<times> string) list \<Rightarrow> string \<Rightarrow> string option" where
  "utm_param ps key = (case params_get ps key of
       None \<Rightarrow> None | Some v \<Rightarrow> if trim v = [] then None else Some (take 200 (trim v)))"

definition capture_utm_params :: "(string \<times> string) list \<Rightarrow> string option list" where
  "capture_utm_params ps = map (utm_param ps) [''utm_source'', ''utm_medium'', ''utm_campaign'', ''utm_term'', ''utm_content'']"

section \<open>Responses\<close>

datatype page_body = BotPage string | CloakPage string | PixelPage string

datatype response =
    RedirectTo string int string
  | HtmlPage page_body
  | PageRedirect string

record reply =
  rp_response :: response
  rp_visitorCookie :: "string option"
  rp_robots :: bool

definition plain_reply :: "response \<Rightarrow> reply" where
  "plain_reply r = \<lparr>rp_response = r, rp_visitorCookie = None, rp_robots = False\<rparr>"

definition to_page :: "route_env \<Rightarrow> string \<Rightarrow> reply" where
  "to_page env path = plain_reply (PageRedirect (page env path))"

section \<open>Finding the link\<close>

datatype lookup = LookupCode string | LookupDomain string string | BadCode

definition route_lookup :: "route_env \<Rightarrow> request \<Rightarrow> string \<Rightarrow> lookup" where
  "route_lookup env rq shortCode =
     (if \<not> is_short_code shortCode then BadCode
      else (let host = request_host rq
            in if host \<noteq> [] \<and> host \<noteq> re_appHost env then LookupDomain host (CHR ''/'' # shortCode) else LookupCode shortCode))"

text \<open>\<open>domainNotFoundTarget\<close>; the fallback is \<open>None\<close> also when its lookup fails.\<close>

definition domain_not_found_target :: "route_env \<Rightarrow> string option \<Rightarrow> string" where
  "domain_not_found_target env notFoundUrl =
     (if str_truthy notFoundUrl
      then (case re_url env (the notFoundUrl) of Some u \<Rightarrow> re_href env u | None \<Rightarrow> page env ''/404'')
      else page env ''/404'')"

definition missing_link_target :: "route_env \<Rightarrow> lookup \<Rightarrow> string option \<Rightarrow> string" where
  "missing_link_target env lk fallback = (case lk of
       LookupDomain _ _ \<Rightarrow> domain_not_found_target env fallback | _ \<Rightarrow> page env ''/404'')"

section \<open>Gates\<close>

definition is_unlocked :: "route_env \<Rightarrow> request \<Rightarrow> cached_link \<Rightarrow> bool" where
  "is_unlocked env rq l =
     (\<not> str_truthy (cl_passwordHash l) \<or>
      verify_unlock_token (re_crypto env) (re_secret env) (cl_shortCode l)
        (rq_cookie rq (''ql_unlocked_'' @ cl_shortCode l)) (cl_passwordHash l))"

definition visitor_blocked :: "route_env \<Rightarrow> request \<Rightarrow> cached_link \<Rightarrow> bool" where
  "visitor_blocked env rq l =
     (evaluate_visitor_block (re_url env) (cl_visitorBlock l) (Some (get_client_ip (re_hops env) rq)) (rq_header rq ''referer'') \<noteq> None)"

definition expired_target :: "route_env \<Rightarrow> cached_link \<Rightarrow> string" where
  "expired_target env l = (if str_truthy (cl_expiredUrl l) then the (cl_expiredUrl l) else page env ''/expired'')"

definition is_expired :: "cached_link \<Rightarrow> js_date \<Rightarrow> bool" where
  "is_expired l now = (case cl_expiresAt l of None \<Rightarrow> False | Some e \<Rightarrow> now > e)"

text \<open>The early returns of lines 89 to 120, in order: where the visit is sent, if it is stopped.\<close>

definition gate_target :: "route_env \<Rightarrow> request \<Rightarrow> js_date \<Rightarrow> cached_link \<Rightarrow> string option" where
  "gate_target env rq now l =
     (if \<not> cl_isActive l then Some (page env ''/404'')
      else if cl_riskStatus l = ''blocked'' then Some (page env ''/blocked'')
      else if \<not> is_unlocked env rq l then Some (page env (''/protected/'' @ cl_shortCode l))
      else if link_window_state (cl_startsAt l) (cl_expiresAt l) now = Scheduled
        then Some (not_started_target (re_resolve env) (cl_notStartedUrl l) (re_baseUrl env))
      else if \<not> is_country_allowed (cl_geoFence l) (Some (get_country rq)) then Some (page env ''/region-unavailable'')
      else if visitor_blocked env rq l then Some (page env ''/region-unavailable'')
      else if \<not> is_within_active_hours (re_intl env) (cl_activeHours l) now
        then Some (or_default (cl_offHoursUrl l) (page env ''/coming-soon''))
      else if is_expired l now then Some (expired_target env l)
      else None)"

section \<open>Destination\<close>

definition visit_context :: "route_env \<Rightarrow> request \<Rightarrow> js_date \<Rightarrow> routing_context" where
  "visit_context env rq now =
     (let ua = rq_header rq ''user-agent''
      in \<lparr>ctx_country = get_country rq, ctx_region = get_region rq, ctx_deviceType = get_device_type ua,
          ctx_referrerHost = get_referrer_host (re_url env) rq, ctx_now = now, ctx_os = Some (get_operating_system ua),
          ctx_language = Some (get_language rq), ctx_trafficType = Some (get_traffic_type ua), ctx_aiAgent = get_ai_agent ua\<rparr>)"

text \<open>What the awaits of the choice deliver; \<open>vi_fresh\<close> is the visitor id drawn if there is none.\<close>

record visit_inputs =
  vi_fresh :: string
  vi_campaign :: "running_campaign option"
  vi_revision :: "string option"
  vi_clickEventId :: string

definition chosen_rule :: "route_env \<Rightarrow> request \<Rightarrow> js_date \<Rightarrow> visit_inputs \<Rightarrow> cached_link \<Rightarrow> smart_rule option" where
  "chosen_rule env rq now vi l =
     choose_smart_rule (re_digest env) (re_tz_known env) (re_intl env) (cl_rules l) (visit_context env rq now) (cl_shortCode l)
       (fst (get_visitor_id rq (vi_fresh vi)))"

definition chosen_variant :: "route_env \<Rightarrow> request \<Rightarrow> js_date \<Rightarrow> visit_inputs \<Rightarrow> cached_link \<Rightarrow> campaign_variant option" where
  "chosen_variant env rq now vi l =
     (if chosen_rule env rq now vi l \<noteq> None then None
      else (case vi_campaign vi of None \<Rightarrow> None
        | Some c \<Rightarrow> choose_weighted_variant (re_digest env) (rc_variants c)
            (cl_shortCode l @ '':'' @ fst (get_visitor_id rq (vi_fresh vi)) @ '':campaign:'' @ int_dec (rc_version c))))"

text \<open>The revision is looked up only without a rule and a variant.\<close>

definition chosen_revision :: "route_env \<Rightarrow> request \<Rightarrow> js_date \<Rightarrow> visit_inputs \<Rightarrow> cached_link \<Rightarrow> string option" where
  "chosen_revision env rq now vi l =
     (if chosen_rule env rq now vi l \<noteq> None \<or> chosen_variant env rq now vi l \<noteq> None then None else vi_revision vi)"

definition base_destination :: "route_env \<Rightarrow> request \<Rightarrow> js_date \<Rightarrow> visit_inputs \<Rightarrow> cached_link \<Rightarrow> string" where
  "base_destination env rq now vi l =
     resolve_destination (map_option rule_destinationUrl (chosen_rule env rq now vi l))
       (map_option cv_destinationUrl (chosen_variant env rq now vi l))
       (active_scheduled_destination (re_date env) (cl_destinationSchedule l) now)
       (chosen_revision env rq now vi l) (cl_originalUrl l)"

definition visit_destination :: "route_env \<Rightarrow> request \<Rightarrow> js_date \<Rightarrow> visit_inputs \<Rightarrow> cached_link \<Rightarrow> string thrown" where
  "visit_destination env rq now vi l =
     forward_query_params (re_url env) (re_href env) (base_destination env rq now vi l)
       (filter_forwarded_params (rq_params rq) (cl_queryForward l))"

section \<open>Admission\<close>

definition visit_traffic :: "request \<Rightarrow> traffic_kind" where
  "visit_traffic rq = get_traffic_type (rq_header rq ''user-agent'')"

definition is_billable_traffic :: "traffic_kind \<Rightarrow> bool" where
  "is_billable_traffic k = (k \<noteq> TBot)"

text \<open>
  What the admission writes: the lifetime and daily columns, the reserved clicks of a link, and
  the calls of \<open>returnAdmittedClick\<close>, latest first.
\<close>

record click_db =
  cd_urls :: url_table
  cd_reserved :: "string \<Rightarrow> int option"
  cd_returned :: "string list"

text \<open>\<open>updateMany\<close> with \<open>clicksReserved < maxClicks\<close>, and the decrement that gives a click back.\<close>

definition reserve_max_clicks :: "click_db \<Rightarrow> string \<Rightarrow> int \<Rightarrow> click_db \<times> bool" where
  "reserve_max_clicks db urlId maxClicks = (case cd_reserved db urlId of
       Some n \<Rightarrow> if n < maxClicks then (db\<lparr>cd_reserved := (cd_reserved db)(urlId \<mapsto> n + 1)\<rparr>, True) else (db, False)
     | None \<Rightarrow> (db, False))"

definition release_max_clicks :: "click_db \<Rightarrow> string \<Rightarrow> click_db" where
  "release_max_clicks db urlId = (case cd_reserved db urlId of
       Some n \<Rightarrow> if n > 0 then db\<lparr>cd_reserved := (cd_reserved db)(urlId \<mapsto> n - 1)\<rparr> else db
     | None \<Rightarrow> db)"

text \<open>
  The state of a visit between its awaits; the flag says that a unit of the tenant was taken.
  At \<open>AtRelease\<close> the daily cap has refused and the reserved click is still to be given back.
\<close>

datatype visit_phase = AtLifetime | AtQuota | AtCap bool | AtDaily bool | AtRelease bool | Admitted bool | Refused bool

record visit =
  vs_link :: cached_link
  vs_now :: js_date
  vs_billable :: bool
  vs_phase :: visit_phase

definition needs_cap :: "visit \<Rightarrow> bool" where
  "needs_cap v = (vs_billable v \<and> cl_maxClicks (vs_link v) \<noteq> None)"

definition new_visit :: "request \<Rightarrow> js_date \<Rightarrow> cached_link \<Rightarrow> visit" where
  "new_visit rq now l = \<lparr>vs_link = l, vs_now = now, vs_billable = is_billable_traffic (visit_traffic rq), vs_phase = AtLifetime\<rparr>"

text \<open>Refusal over a limit: a unit that was taken is handed back.\<close>

definition refuse_visit :: "click_db \<Rightarrow> visit \<Rightarrow> bool \<Rightarrow> click_db \<times> visit" where
  "refuse_visit db v took =
     ((if took then db\<lparr>cd_returned := coalesce (cl_workspaceId (vs_link v)) [] # cd_returned db\<rparr> else db), v\<lparr>vs_phase := Refused took\<rparr>)"

text \<open>The lifetime clock, started by the first billable click.\<close>

definition visit_lifetime :: "click_db \<Rightarrow> visit \<Rightarrow> click_db \<times> visit" where
  "visit_lifetime db v =
     (case cl_lifetimeMinutes (vs_link v) of
        None \<Rightarrow> (db, v\<lparr>vs_phase := AtQuota\<rparr>)
      | Some m \<Rightarrow>
         if \<not> vs_billable v then (db, v\<lparr>vs_phase := AtQuota\<rparr>)
         else (case start_lifetime_clock (cd_urls db) (cl_id (vs_link v)) (vs_now v) of (urls, startedAt) \<Rightarrow>
           (db\<lparr>cd_urls := urls\<rparr>,
            v\<lparr>vs_phase := (if (case startedAt of None \<Rightarrow> False | Some t \<Rightarrow> is_lifetime_elapsed t m (vs_now v))
               then Refused False else AtQuota)\<rparr>)))"

text \<open>The tenant's quota: \<open>a\<close> is what \<open>admitBillableClick\<close> resolved to.\<close>

definition needs_quota :: "visit \<Rightarrow> bool" where
  "needs_quota v = (vs_billable v \<and> str_truthy (cl_workspaceId (vs_link v)))"

definition visit_quota :: "visit \<Rightarrow> click_admission \<Rightarrow> visit" where
  "visit_quota v a =
     (if needs_quota v
      then (if ca_admitted a then v\<lparr>vs_phase := AtCap (ca_reserved a)\<rparr> else v\<lparr>vs_phase := Refused False\<rparr>)
      else v\<lparr>vs_phase := AtCap False\<rparr>)"

definition visit_cap :: "click_db \<Rightarrow> visit \<Rightarrow> bool \<Rightarrow> click_db \<times> visit" where
  "visit_cap db v took =
     (if needs_cap v
      then (case reserve_max_clicks db (cl_id (vs_link v)) (the (cl_maxClicks (vs_link v))) of (db1, ok) \<Rightarrow>
        if ok then (db1, v\<lparr>vs_phase := AtDaily took\<rparr>) else refuse_visit db1 v took)
      else (db, v\<lparr>vs_phase := AtDaily took\<rparr>))"

definition visit_daily :: "click_db \<Rightarrow> visit \<Rightarrow> bool \<Rightarrow> click_db \<times> visit" where
  "visit_daily db v took =
     (case cl_dailyClickCap (vs_link v) of
        None \<Rightarrow> (db, v\<lparr>vs_phase := Admitted took\<rparr>)
      | Some cap \<Rightarrow>
         if \<not> vs_billable v then (db, v\<lparr>vs_phase := Admitted took\<rparr>)
         else (case reserve_daily_click (cd_urls db) (cl_id (vs_link v)) cap (iso_day_key (vs_now v)) of (urls, ok) \<Rightarrow>
           (let db1 = db\<lparr>cd_urls := urls\<rparr>
            in if ok then (db1, v\<lparr>vs_phase := Admitted took\<rparr>)
               else if needs_cap v then (db1, v\<lparr>vs_phase := AtRelease took\<rparr>)
               else refuse_visit db1 v took)))"

definition visit_release :: "click_db \<Rightarrow> visit \<Rightarrow> bool \<Rightarrow> click_db \<times> visit" where
  "visit_release db v took = refuse_visit (release_max_clicks db (cl_id (vs_link v))) v took"

text \<open>The next step of a visit, with the admission its quota step will get.\<close>

definition visit_advance :: "click_admission \<Rightarrow> click_db \<Rightarrow> visit \<Rightarrow> click_db \<times> visit" where
  "visit_advance a db v = (case vs_phase v of
       AtLifetime \<Rightarrow> visit_lifetime db v
     | AtQuota \<Rightarrow> (db, visit_quota v a)
     | AtCap took \<Rightarrow> visit_cap db v took
     | AtDaily took \<Rightarrow> visit_daily db v took
     | AtRelease took \<Rightarrow> visit_release db v took
     | Admitted _ \<Rightarrow> (db, v)
     | Refused _ \<Rightarrow> (db, v))"

text \<open>All steps of one visit with no other in between: five suffice.\<close>

fun advance_many :: "nat \<Rightarrow> click_admission \<Rightarrow> click_db \<times> visit \<Rightarrow> click_db \<times> visit" where
  "advance_many 0 a s = s"
| "advance_many (Suc n) a s = advance_many n a (visit_advance a (fst s) (snd s))"

definition admit_visit :: "click_db \<Rightarrow> visit \<Rightarrow> click_admission \<Rightarrow> click_db \<times> visit" where
  "admit_visit db v a = advance_many 5 a (db, v)"

section \<open>The response\<close>

text \<open>\<open>new URL(destination)\<close> throws on a destination that does not parse.\<close>

definition append_attribution :: "route_env \<Rightarrow> string \<Rightarrow> string \<Rightarrow> string thrown" where
  "append_attribution env destination token = (case re_url env destination of
       None \<Rightarrow> Inl ''Invalid URL''
     | Some u \<Rightarrow> Inr (re_href env (u\<lparr>u_hash :=
         re_params_text env (params_set (re_hash_params env (strip_prefix ''#'' (u_hash u))) ''ql_attribution'' token)\<rparr>)))"

definition visit_token :: "route_env \<Rightarrow> request \<Rightarrow> js_date \<Rightarrow> visit_inputs \<Rightarrow> cached_link \<Rightarrow> string \<Rightarrow> string" where
  "visit_token env rq now vi l secret =
     create_attribution_token (re_crypto env) secret
       \<lparr>ap_urlId = cl_id l, ap_shortCode = cl_shortCode l, ap_clickEventId = vi_clickEventId vi,
        ap_visitorIdHash = hash_visitor_id (re_crypto env) secret (fst (get_visitor_id rq (vi_fresh vi))), ap_issuedAt = now\<rparr>"

definition final_destination :: "route_env \<Rightarrow> request \<Rightarrow> js_date \<Rightarrow> visit_inputs \<Rightarrow> cached_link \<Rightarrow> string \<Rightarrow> string \<Rightarrow> string thrown" where
  "final_destination env rq now vi l secret destination =
     (if visit_traffic rq = TBot then Inr destination
      else append_attribution env (append_click_id (re_url env) (re_href env) destination (cl_clickIdParam l) (vi_clickEventId vi))
        (visit_token env rq now vi l secret))"

text \<open>The condition that keeps a permanent status from being sent (line 352).\<close>

definition is_gated :: "request \<Rightarrow> cached_link \<Rightarrow> bool" where
  "is_gated rq l =
     (visit_traffic rq = TBot \<or> (is_billable_traffic (visit_traffic rq) \<and> cl_maxClicks l \<noteq> None) \<or> cl_expiresAt l \<noteq> None \<or>
      cl_lifetimeMinutes l \<noteq> None \<or> cl_startsAt l \<noteq> None \<or> cl_destinationSchedule l \<noteq> None \<or> cl_activeHours l \<noteq> None \<or>
      str_truthy (cl_passwordHash l))"

definition redirect_response :: "request \<Rightarrow> cached_link \<Rightarrow> string \<Rightarrow> string \<Rightarrow> response" where
  "redirect_response rq l destination finalUrl =
     (let status = effective_redirect_status (cl_redirectStatus l) (destination \<noteq> cl_originalUrl l) (is_gated rq l)
      in RedirectTo finalUrl status (if status = 301 \<or> status = 308 then ''public, max-age=3600'' else ''private, no-store''))"

definition visitor_cookie :: "request \<Rightarrow> visit_inputs \<Rightarrow> string option" where
  "visitor_cookie rq vi = (case get_visitor_id rq (vi_fresh vi) of (i, isNew) \<Rightarrow> if isNew then Some i else None)"

text \<open>An exception of the consent check reaches the outer \<open>catch\<close>.\<close>

definition preview_image :: "route_env \<Rightarrow> cached_link \<Rightarrow> string" where
  "preview_image env l = or_default (cl_ogImage l) (re_baseUrl env @ ''/api/links/'' @ cl_shortCode l @ ''/og'')"

definition respond :: "route_env \<Rightarrow> request \<Rightarrow> js_date \<Rightarrow> visit_inputs \<Rightarrow> cached_link \<Rightarrow> string \<Rightarrow> string \<Rightarrow> reply" where
  "respond env rq now vi l secret destination =
     (case final_destination env rq now vi l secret destination of
        Inl _ \<Rightarrow> to_page env ''/503''
      | Inr finalUrl \<Rightarrow>
         (let cookie = visitor_cookie rq vi
          in if get_device_type (rq_header rq ''user-agent'') = DBot
             then \<lparr>rp_response = HtmlPage (BotPage (bot_page finalUrl (cl_title l) (cl_description l) (preview_image env l))),
                   rp_visitorCookie = cookie, rp_robots = False\<rparr>
             else (case pixel_consent_granted (rq_header rq ''sec-gpc'') (rq_header rq ''dnt'') (rq_header rq ''cookie'') of
                 Inl _ \<Rightarrow> to_page env ''/503''
               | Inr consent \<Rightarrow>
                  (let pixels = (if consent then active_pixels (cl_pixels l) else [])
                   in if cl_cloaked l
                      then \<lparr>rp_response = HtmlPage (CloakPage (cloak_page finalUrl (cl_title l))), rp_visitorCookie = cookie, rp_robots = False\<rparr>
                      else if pixels \<noteq> []
                      then \<lparr>rp_response = HtmlPage (PixelPage (render_pixel_redirect_page finalUrl pixels None)), rp_visitorCookie = cookie,
                            rp_robots = True\<rparr>
                      else \<lparr>rp_response = redirect_response rq l destination finalUrl, rp_visitorCookie = cookie, rp_robots = True\<rparr>))))"

section \<open>The handler\<close>

text \<open>
  The whole handler for one visit.  Without a usable secret the visitor hash throws before
  anything is admitted.
\<close>

definition redirect_get ::
  "route_env \<Rightarrow> request \<Rightarrow> js_date \<Rightarrow> visit_inputs \<Rightarrow> click_admission \<Rightarrow> string \<Rightarrow> string option \<Rightarrow> cached_link option \<Rightarrow> click_db \<Rightarrow> click_db \<times> reply" where
  "redirect_get env rq now vi admission shortCode fallback found db =
     (case route_lookup env rq shortCode of
        BadCode \<Rightarrow> (db, to_page env ''/404'')
      | lk \<Rightarrow> (case found of
          None \<Rightarrow> (db, plain_reply (PageRedirect (missing_link_target env lk fallback)))
        | Some l \<Rightarrow> (case gate_target env rq now l of
            Some target \<Rightarrow> (db, plain_reply (PageRedirect target))
          | None \<Rightarrow> (case attribution_secret (re_secret env) of
              Inl _ \<Rightarrow> (db, to_page env ''/503'')
            | Inr secret \<Rightarrow> (case visit_destination env rq now vi l of
                Inl _ \<Rightarrow> (db, to_page env ''/404'')
              | Inr destination \<Rightarrow>
                 (case admit_visit db (new_visit rq now l) admission of
                    (db1, v) \<Rightarrow> (case vs_phase v of
                        Admitted _ \<Rightarrow> (db1, respond env rq now vi l secret destination)
                      | _ \<Rightarrow> (db1, plain_reply (PageRedirect (expired_target env l))))))))))"

end
