(* ===== verification/ClickCaps.thy ===== *)
theory ClickCaps
  imports RedirectHandler
begin

text \<open>
  Click caps under concurrency: the admission steps of any number of visits, interleaved at
  their awaits over one database, and what automated visits cost.
\<close>

section \<open>Interleaved visits\<close>

record click_world =
  cw_db :: click_db
  cw_visits :: "visit list"

text \<open>
  A visit arrives with the stored cap of its link, and any visit may take its next step, with
  whatever admission the tenant's quota gives it.
\<close>

inductive click_step :: "(string \<Rightarrow> int option) \<Rightarrow> click_world \<Rightarrow> click_world \<Rightarrow> bool" for caps where
  arrive: "cl_maxClicks (vs_link v) = caps (cl_id (vs_link v)) \<Longrightarrow> vs_phase v = AtLifetime \<Longrightarrow>
    click_step caps w (w\<lparr>cw_visits := cw_visits w @ [v]\<rparr>)"
| advance: "i < length (cw_visits w) \<Longrightarrow> visit_advance a (cw_db w) (cw_visits w ! i) = (db', v') \<Longrightarrow>
    click_step caps w \<lparr>cw_db = db', cw_visits = (cw_visits w)[i := v']\<rparr>"

inductive_cases click_stepE: "click_step caps w w'"

inductive click_reach :: "(string \<Rightarrow> int option) \<Rightarrow> click_world \<Rightarrow> click_world \<Rightarrow> bool" for caps w where
  start: "click_reach caps w w"
| step: "click_reach caps w u \<Longrightarrow> click_step caps u u' \<Longrightarrow> click_reach caps w u'"

section \<open>Who holds a reserved click\<close>

text \<open>A visit holds a click of its link between its reservation and a refusal.\<close>

fun holding :: "visit_phase \<Rightarrow> bool" where
  "holding (AtDaily _) = True"
| "holding (AtRelease _) = True"
| "holding (Admitted _) = True"
| "holding _ = False"

definition holds_click :: "string \<Rightarrow> visit \<Rightarrow> bool" where
  "holds_click i v = (cl_id (vs_link v) = i \<and> needs_cap v \<and> holding (vs_phase v))"

definition held_clicks :: "string \<Rightarrow> visit list \<Rightarrow> int" where
  "held_clicks i vs = (\<Sum>v\<leftarrow>vs. of_bool (holds_click i v))"

lemma held_clicks_simps [simp]:
  "held_clicks i [] = 0" "held_clicks i (vs @ [v]) = held_clicks i vs + of_bool (holds_click i v)" "0 \<le> held_clicks i vs"
  by (simp_all add: held_clicks_def) (induction vs, simp_all)

lemma held_clicks_update:
  "k < length vs \<Longrightarrow> held_clicks i (vs[k := v]) = held_clicks i vs - of_bool (holds_click i (vs ! k)) + of_bool (holds_click i v)"
  by (induction vs arbitrary: k) (auto simp: held_clicks_def split: nat.split)

lemma held_clicks_pos: "k < length vs \<Longrightarrow> holds_click i (vs ! k) \<Longrightarrow> 1 \<le> held_clicks i vs"
  using held_clicks_update [of k vs i "(vs ! k)\<lparr>vs_phase := AtLifetime\<rparr>"] held_clicks_simps(3) [of i "vs[k := (vs ! k)\<lparr>vs_phase := AtLifetime\<rparr>]"]
  by (simp add: holds_click_def)

text \<open>One step changes the reserved clicks exactly as it changes who holds them.\<close>

definition step_balanced :: "click_db \<Rightarrow> visit \<Rightarrow> click_db \<Rightarrow> visit \<Rightarrow> bool" where
  "step_balanced db v db' v' \<longleftrightarrow> vs_link v' = vs_link v \<and> vs_billable v' = vs_billable v \<and>
     cd_reserved db' = (\<lambda>i. map_option (\<lambda>n. n + of_bool (holds_click i v') - of_bool (holds_click i v)) (cd_reserved db i)) \<and>
     (\<forall>n. needs_cap v \<and> \<not> holds_click (cl_id (vs_link v)) v \<and> holds_click (cl_id (vs_link v)) v' \<and> cd_reserved db (cl_id (vs_link v)) = Some n \<longrightarrow>
        n < the (cl_maxClicks (vs_link v)))"

lemma option_map_ident [simp]: "(\<lambda>i. map_option (\<lambda>n. n) (f i)) = f"
  by (simp add: option.map_ident)

lemma holds_click_phase [simp]:
  "holds_click i (v\<lparr>vs_phase := p\<rparr>) \<longleftrightarrow> cl_id (vs_link v) = i \<and> needs_cap v \<and> holding p"
  by (simp add: holds_click_def needs_cap_def)

lemma balanced_same:
  assumes "cd_reserved db' = cd_reserved db" "needs_cap v \<Longrightarrow> holding p = holding (vs_phase v)"
  shows "step_balanced db v db' (v\<lparr>vs_phase := p\<rparr>)"
proof -
  have "holds_click i (v\<lparr>vs_phase := p\<rparr>) = holds_click i v" for i using assms(2) by (auto simp: holds_click_def needs_cap_def)
  then show ?thesis using assms(1) by (auto simp: step_balanced_def simp del: holds_click_phase)
qed

lemma refuse_same:
  "\<not> holding (vs_phase v) \<or> \<not> needs_cap v \<Longrightarrow> refuse_visit db v took = (db', v') \<Longrightarrow> step_balanced db v db' v'"
  unfolding refuse_visit_def by (auto intro!: balanced_same)

lemma cap_balanced:
  assumes "vs_phase v = AtCap took" "visit_cap db v took = (db', v')" and row: "needs_cap v \<Longrightarrow> cd_reserved db (cl_id (vs_link v)) \<noteq> None"
  shows "step_balanced db v db' v'"
proof (cases "needs_cap v")
  case False
  then show ?thesis using assms by (auto simp: visit_cap_def intro!: balanced_same)
next
  case True
  then obtain n where n: "cd_reserved db (cl_id (vs_link v)) = Some n" using row by auto
  show ?thesis
  proof (cases "n < the (cl_maxClicks (vs_link v))")
    case False
    then show ?thesis using assms True n by (auto simp: visit_cap_def reserve_max_clicks_def intro!: refuse_same)
  next
    case room: True
    then have "v' = v\<lparr>vs_phase := AtDaily took\<rparr>" "cd_reserved db' = (cd_reserved db)(cl_id (vs_link v) \<mapsto> n + 1)"
      using assms True n by (auto simp: visit_cap_def reserve_max_clicks_def)
    moreover have "\<not> holds_click i v" for i using assms(1) by (simp add: holds_click_def)
    ultimately show ?thesis using n room True by (auto simp: step_balanced_def fun_eq_iff)
  qed
qed

lemma release_balanced:
  assumes "vs_phase v = AtRelease took" "visit_release db v took = (db', v')" "needs_cap v"
    and n: "cd_reserved db (cl_id (vs_link v)) = Some n" "0 < n"
  shows "step_balanced db v db' v'"
proof -
  have "v' = v\<lparr>vs_phase := Refused took\<rparr>" "cd_reserved db' = (cd_reserved db)(cl_id (vs_link v) \<mapsto> n - 1)"
    using assms by (auto simp: visit_release_def release_max_clicks_def refuse_visit_def)
  moreover have "holds_click i v = (i = cl_id (vs_link v))" for i using assms(1,3) by (auto simp: holds_click_def)
  ultimately show ?thesis using n by (auto simp: step_balanced_def fun_eq_iff)
qed

lemma daily_balanced:
  assumes "vs_phase v = AtDaily took" "visit_daily db v took = (db', v')"
  shows "step_balanced db v db' v'"
  using assms
  by (cases "reserve_daily_click (cd_urls db) (cl_id (vs_link v)) (the (cl_dailyClickCap (vs_link v))) (iso_day_key (vs_now v))")
    (auto simp: visit_daily_def Let_def refuse_visit_def intro!: balanced_same split: option.splits if_splits)

lemma lifetime_balanced:
  assumes "vs_phase v = AtLifetime" "visit_lifetime db v = (db', v')"
  shows "step_balanced db v db' v'"
  using assms
  by (cases "start_lifetime_clock (cd_urls db) (cl_id (vs_link v)) (vs_now v)")
    (auto simp: visit_lifetime_def intro!: balanced_same split: option.splits if_splits)

text \<open>A release is only due to a visit that holds a click.\<close>

definition phase_ok :: "visit \<Rightarrow> bool" where
  "phase_ok v = (case vs_phase v of AtRelease _ \<Rightarrow> needs_cap v | _ \<Rightarrow> True)"

lemma visit_advance_balanced:
  assumes adv: "visit_advance a db v = (db', v')" and ok: "phase_ok v"
    and room: "\<And>n. cd_reserved db (cl_id (vs_link v)) = Some n \<Longrightarrow> holds_click (cl_id (vs_link v)) v \<Longrightarrow> 0 < n"
    and row: "needs_cap v \<Longrightarrow> cd_reserved db (cl_id (vs_link v)) \<noteq> None"
  shows "step_balanced db v db' v'"
proof (cases "vs_phase v")
  case AtLifetime
  then show ?thesis using adv by (auto simp: visit_advance_def intro: lifetime_balanced)
next
  case AtQuota
  then show ?thesis using adv
    by (auto simp: visit_advance_def visit_quota_def intro!: balanced_same split: if_splits)
next
  case (AtCap took)
  then show ?thesis using adv row by (auto simp: visit_advance_def intro!: cap_balanced)
next
  case (AtDaily took)
  then show ?thesis using adv by (auto simp: visit_advance_def intro: daily_balanced)
next
  case (AtRelease took)
  then have "needs_cap v" "holds_click (cl_id (vs_link v)) v" using ok by (auto simp: phase_ok_def holds_click_def)
  then obtain n where "cd_reserved db (cl_id (vs_link v)) = Some n" "0 < n" using row room by auto
  then show ?thesis using adv AtRelease \<open>needs_cap v\<close> by (auto simp: visit_advance_def intro!: release_balanced)
qed (use adv in \<open>auto simp: visit_advance_def step_balanced_def\<close>)

lemma phase_ok_phase [simp]: "phase_ok (v\<lparr>vs_phase := p\<rparr>) = (case p of AtRelease _ \<Rightarrow> needs_cap v | _ \<Rightarrow> True)"
  by (simp add: phase_ok_def needs_cap_def split: visit_phase.split)

lemma refuse_phase_ok: "refuse_visit db v took = (db', v') \<Longrightarrow> phase_ok v'"
  by (auto simp: refuse_visit_def)

lemma visit_advance_phase_ok:
  assumes adv: "visit_advance a db v = (db', v')" and ok: "phase_ok v"
  shows "phase_ok v'"
proof (cases "vs_phase v")
  case AtLifetime
  then show ?thesis using adv
    by (cases "start_lifetime_clock (cd_urls db) (cl_id (vs_link v)) (vs_now v)")
      (auto simp: visit_advance_def visit_lifetime_def split: option.splits if_splits)
next
  case (AtCap took)
  then show ?thesis using adv
    by (cases "reserve_max_clicks db (cl_id (vs_link v)) (the (cl_maxClicks (vs_link v)))")
      (auto simp: visit_advance_def visit_cap_def dest: refuse_phase_ok split: if_splits)
next
  case (AtDaily took)
  then show ?thesis using adv
    by (cases "reserve_daily_click (cd_urls db) (cl_id (vs_link v)) (the (cl_dailyClickCap (vs_link v))) (iso_day_key (vs_now v))")
      (auto simp: visit_advance_def visit_daily_def Let_def dest: refuse_phase_ok split: option.splits if_splits)
next
  case (AtRelease took)
  then show ?thesis using adv by (auto simp: visit_advance_def visit_release_def dest: refuse_phase_ok)
qed (use adv ok in \<open>auto simp: visit_advance_def visit_quota_def split: if_splits\<close>)

section \<open>The cap holds in every run\<close>

definition cap_inv :: "(string \<Rightarrow> int option) \<Rightarrow> (string \<Rightarrow> int option) \<Rightarrow> click_world \<Rightarrow> bool" where
  "cap_inv caps before w \<longleftrightarrow> (\<forall>v \<in> set (cw_visits w). cl_maxClicks (vs_link v) = caps (cl_id (vs_link v)) \<and> phase_ok v) \<and>
     cd_reserved (cw_db w) = (\<lambda>i. map_option (\<lambda>n. n + held_clicks i (cw_visits w)) (before i)) \<and>
     (\<forall>i n m. before i = Some n \<and> caps i = Some m \<and> n \<le> m \<longrightarrow> n + held_clicks i (cw_visits w) \<le> m)"

lemma cap_inv_step:
  assumes inv: "cap_inv caps before w" and step: "click_step caps w w'"
    and rows: "\<And>i m. caps i = Some m \<Longrightarrow> \<exists>n\<ge>0. before i = Some n"
  shows "cap_inv caps before w'"
  using step
proof (cases rule: click_step.cases)
  case (arrive v)
  then show ?thesis using inv by (auto simp: cap_inv_def holds_click_def phase_ok_def)
next
  case (advance k a db' v')
  let ?v = "cw_visits w ! k" let ?id = "cl_id (vs_link ?v)"
  have v_in: "?v \<in> set (cw_visits w)" using advance(2) by simp
  then have cap: "cl_maxClicks (vs_link ?v) = caps ?id" and ok: "phase_ok ?v" using inv by (auto simp: cap_inv_def)
  have res: "cd_reserved (cw_db w) i = map_option (\<lambda>n. n + held_clicks i (cw_visits w)) (before i)" for i
    using inv by (simp add: cap_inv_def)
  have row: "\<exists>n\<ge>0. before ?id = Some n" if "needs_cap ?v"
    using rows cap that by (auto simp: needs_cap_def)
  have bal: "step_balanced (cw_db w) ?v db' v'"
  proof (rule visit_advance_balanced [OF advance(3) ok])
    fix n assume n: "cd_reserved (cw_db w) ?id = Some n" and h: "holds_click ?id ?v"
    have "1 \<le> held_clicks ?id (cw_visits w)" using held_clicks_pos [OF advance(2) h] .
    moreover obtain n0 where "before ?id = Some n0" "0 \<le> n0" using row h by (auto simp: holds_click_def)
    ultimately show "0 < n" using n res [of ?id] by simp
  next
    assume "needs_cap ?v" then show "cd_reserved (cw_db w) ?id \<noteq> None" using row res [of ?id] by auto
  qed
  have link: "vs_link v' = vs_link ?v" "needs_cap v' = needs_cap ?v" using bal by (auto simp: step_balanced_def needs_cap_def)
  have held: "held_clicks i (cw_visits w') = held_clicks i (cw_visits w) - of_bool (holds_click i ?v) + of_bool (holds_click i v')" for i
    using advance(1) held_clicks_update [OF advance(2)] by simp
  have "n + held_clicks i (cw_visits w') \<le> m" if b: "before i = Some n" and c: "caps i = Some m" and le: "n \<le> m" for i n m
  proof (cases "holds_click i v' \<and> \<not> holds_click i ?v")
    case True
    then have i: "i = ?id" "needs_cap ?v" using link by (auto simp: holds_click_def)
    have "n + held_clicks i (cw_visits w) < m"
      using bal True i b c cap res [of i] by (auto simp: step_balanced_def)
    then show ?thesis using held [of i] by simp
  next
    case False
    have "n + held_clicks i (cw_visits w) \<le> m" using inv b c le by (auto simp: cap_inv_def)
    then show ?thesis using held [of i] False by (auto simp: of_bool_def split: if_splits)
  qed
  moreover have "cd_reserved db' = (\<lambda>i. map_option (\<lambda>n. n + held_clicks i (cw_visits w')) (before i))"
    using bal res held by (auto simp: step_balanced_def fun_eq_iff option.map_comp o_def intro!: option.map_cong)
  moreover have "\<forall>u \<in> set (cw_visits w'). cl_maxClicks (vs_link u) = caps (cl_id (vs_link u)) \<and> phase_ok u"
    using inv cap link(1) advance(1) visit_advance_phase_ok [OF advance(3) ok] by (auto simp: cap_inv_def dest!: subsetD [OF set_update_subset_insert])
  ultimately show ?thesis using advance(1) by (simp add: cap_inv_def)
qed

lemma cap_inv_reach:
  assumes "click_reach caps w0 w" "cw_visits w0 = []" and rows: "\<And>i m. caps i = Some m \<Longrightarrow> \<exists>n\<ge>0. cd_reserved (cw_db w0) i = Some n"
  shows "cap_inv caps (cd_reserved (cw_db w0)) w"
  using assms(1)
proof induction
  case start
  then show ?case using assms(2) by (auto simp: cap_inv_def)
next
  case (step u u')
  then show ?case using cap_inv_step rows by blast
qed

text \<open>Admitted visits that count against the cap, and visits still between two awaits.\<close>

definition admitted_clicks :: "string \<Rightarrow> visit list \<Rightarrow> int" where
  "admitted_clicks i vs = (\<Sum>v\<leftarrow>vs. of_bool (holds_click i v \<and> (case vs_phase v of Admitted _ \<Rightarrow> True | _ \<Rightarrow> False)))"

definition settled :: "visit \<Rightarrow> bool" where
  "settled v = (case vs_phase v of Admitted _ \<Rightarrow> True | Refused _ \<Rightarrow> True | _ \<Rightarrow> False)"

lemma admitted_le_held: "admitted_clicks i vs \<le> held_clicks i vs"
  by (induction vs) (auto simp: admitted_clicks_def held_clicks_def of_bool_def split: if_splits)

lemma admitted_eq_held: "list_all settled vs \<Longrightarrow> admitted_clicks i vs = held_clicks i vs"
  by (induction vs) (auto simp: admitted_clicks_def held_clicks_def settled_def holds_click_def of_bool_def split: visit_phase.splits)

text \<open>
  C2: A click cap is never exceeded, however visits interleave.  In every run that starts with
  \<open>n\<close> reserved clicks of a link whose cap is \<open>m \<ge> n\<close>, the clicks reserved before and the visits
  admitted since stay within the cap; and once no visit is under way, the reserved clicks are
  exactly those, so a refused visit leaves nothing reserved.
\<close>

theorem max_clicks_never_exceeded:
  assumes run: "click_reach caps w0 w" and empty: "cw_visits w0 = []"
    and rows: "\<And>i m. caps i = Some m \<Longrightarrow> \<exists>n\<ge>0. cd_reserved (cw_db w0) i = Some n"
    and link: "cd_reserved (cw_db w0) i = Some n" "caps i = Some m" "n \<le> m"
  shows "n + admitted_clicks i (cw_visits w) \<le> m \<and>
    (list_all settled (cw_visits w) \<longrightarrow> cd_reserved (cw_db w) i = Some (n + admitted_clicks i (cw_visits w)))"
proof -
  have inv: "cap_inv caps (cd_reserved (cw_db w0)) w" using cap_inv_reach [OF run empty] rows by blast
  then have "n + held_clicks i (cw_visits w) \<le> m" "cd_reserved (cw_db w) i = Some (n + held_clicks i (cw_visits w))"
    using link by (auto simp: cap_inv_def)
  then show ?thesis using admitted_le_held [of i "cw_visits w"] admitted_eq_held [of "cw_visits w" i] by simp
qed

definition demo_link :: cached_link where
  "demo_link = \<lparr>cl_id = ''u'', cl_workspaceId = Some ''w'', cl_shortCode = ''abc'', cl_originalUrl = ''https://a.example/'', cl_title = None,
     cl_description = None, cl_ogImage = None, cl_isActive = True, cl_riskStatus = ''safe'', cl_expiresAt = None, cl_expiredUrl = None,
     cl_startsAt = None, cl_notStartedUrl = None, cl_geoFence = None, cl_visitorBlock = None, cl_destinationSchedule = None,
     cl_activeHours = None, cl_offHoursUrl = None, cl_clickIdParam = None, cl_queryForward = \<lparr>fp_mode = ForwardAll, fp_allow = []\<rparr>,
     cl_redirectStatus = Some 301, cl_passwordHash = None, cl_pixels = Map.empty, cl_cloaked = False, cl_webhookUrl = None,
     cl_maxClicks = Some 3, cl_clicksReserved = 2, cl_dailyClickCap = None, cl_lifetimeMinutes = None, cl_deletedAt = None, cl_rules = []\<rparr>"

definition demo_visit :: visit where
  "demo_visit = \<lparr>vs_link = demo_link, vs_now = 0, vs_billable = True, vs_phase = AtLifetime\<rparr>"

definition demo_db :: click_db where
  "demo_db = \<lparr>cd_urls = Map.empty, cd_reserved = [''u'' \<mapsto> 2], cd_returned = []\<rparr>"

lemma demo_fields [simp]:
  "vs_phase demo_visit = AtLifetime" "vs_link demo_visit = demo_link" "cl_id demo_link = ''u''" "needs_cap demo_visit"
  "cd_reserved demo_db = [''u'' \<mapsto> 2]" "cd_returned demo_db = []"
  by (simp_all add: demo_visit_def demo_db_def demo_link_def needs_cap_def)

text \<open>A schedule of visits taking their steps, with the admission each gets.\<close>

fun run_steps :: "nat list \<Rightarrow> click_admission \<Rightarrow> click_world \<Rightarrow> click_world" where
  "run_steps [] a w = w"
| "run_steps (i # is) a w = run_steps is a
     (if i < length (cw_visits w)
      then (case visit_advance a (cw_db w) (cw_visits w ! i) of (db', v') \<Rightarrow> \<lparr>cw_db = db', cw_visits = (cw_visits w)[i := v']\<rparr>) else w)"

lemma run_steps_reach: "click_reach caps w0 w \<Longrightarrow> click_reach caps w0 (run_steps is a w)"
proof (induction "is" a w rule: run_steps.induct)
  case (2 i "is" a w)
  let ?w = "if i < length (cw_visits w) then (case visit_advance a (cw_db w) (cw_visits w ! i) of
      (db', v') \<Rightarrow> \<lparr>cw_db = db', cw_visits = (cw_visits w)[i := v']\<rparr>) else w"
  have "click_reach caps w0 ?w"
    using 2(2) by (auto split: prod.split intro!: click_reach.step [OF 2(2)] click_step.advance)
  then show ?case using 2(1) by simp
qed simp

definition demo_race :: click_world where
  "demo_race = run_steps [0, 1, 0, 1, 1, 0, 1] \<lparr>ca_admitted = True, ca_reserved = True\<rparr> \<lparr>cw_db = demo_db, cw_visits = [demo_visit, demo_visit]\<rparr>"

lemma demo_race_reach: "click_reach [''u'' \<mapsto> 3] \<lparr>cw_db = demo_db, cw_visits = []\<rparr> demo_race"
  unfolding demo_race_def
proof (rule run_steps_reach)
  have arrive: "click_step [''u'' \<mapsto> 3] w (w\<lparr>cw_visits := cw_visits w @ [demo_visit]\<rparr>)" for w
    by (rule click_step.arrive) (simp_all add: demo_link_def)
  have "click_step [''u'' \<mapsto> 3] \<lparr>cw_db = demo_db, cw_visits = []\<rparr> \<lparr>cw_db = demo_db, cw_visits = [demo_visit]\<rparr>"
    "click_step [''u'' \<mapsto> 3] \<lparr>cw_db = demo_db, cw_visits = [demo_visit]\<rparr> \<lparr>cw_db = demo_db, cw_visits = [demo_visit, demo_visit]\<rparr>"
    using arrive [of "\<lparr>cw_db = demo_db, cw_visits = []\<rparr>"] arrive [of "\<lparr>cw_db = demo_db, cw_visits = [demo_visit]\<rparr>"] by simp_all
  from click_reach.step [OF click_reach.step [OF click_reach.start this(1)] this(2)]
  show "click_reach [''u'' \<mapsto> 3] \<lparr>cw_db = demo_db, cw_visits = []\<rparr> \<lparr>cw_db = demo_db, cw_visits = [demo_visit, demo_visit]\<rparr>" .
qed

lemma demo_race_phases: "map vs_phase (cw_visits demo_race) = [Refused True, Admitted True]"
  by code_simp

theorem max_clicks_never_exceeded_witness: "cd_reserved (cw_db demo_race) ''u'' = Some (2 + admitted_clicks ''u'' (cw_visits demo_race))"
proof -
  have "list_all settled (cw_visits demo_race)"
    using demo_race_phases by (auto simp: settled_def)
  moreover have "list_all settled (cw_visits demo_race) \<longrightarrow>
      cd_reserved (cw_db demo_race) ''u'' = Some (2 + admitted_clicks ''u'' (cw_visits demo_race))"
    by (rule max_clicks_never_exceeded [OF demo_race_reach, where m = 3, THEN conjunct2]) (auto split: if_splits)
  ultimately show ?thesis by blast
qed

end
