(* ===== verification/RedirectSafety.thy ===== *)
theory RedirectSafety
  imports ClickCaps
begin

text \<open>
  What the redirect handler guarantees: which visits are served, what a refused visit leaves
  behind, what automated visits cost, when a permanent status is sent, and that click caps
  hold when the steps of many visits interleave.
\<close>

section \<open>One visit\<close>

definition lifetime_open :: "click_db \<Rightarrow> visit \<Rightarrow> bool" where
  "lifetime_open db v = (case cl_lifetimeMinutes (vs_link v) of None \<Rightarrow> True
     | Some m \<Rightarrow> \<not> vs_billable v \<or>
        (case snd (start_lifetime_clock (cd_urls db) (cl_id (vs_link v)) (vs_now v)) of None \<Rightarrow> True
         | Some t \<Rightarrow> \<not> is_lifetime_elapsed t m (vs_now v)))"

definition quota_open :: "visit \<Rightarrow> click_admission \<Rightarrow> bool" where
  "quota_open v a = (\<not> needs_quota v \<or> ca_admitted a)"

definition unit_taken :: "visit \<Rightarrow> click_admission \<Rightarrow> bool" where
  "unit_taken v a = (needs_quota v \<and> ca_admitted a \<and> ca_reserved a)"

definition cap_open :: "click_db \<Rightarrow> visit \<Rightarrow> bool" where
  "cap_open db v = (\<not> needs_cap v \<or> (case cd_reserved db (cl_id (vs_link v)) of None \<Rightarrow> False | Some n \<Rightarrow> n < the (cl_maxClicks (vs_link v))))"

definition daily_room :: "url_table \<Rightarrow> visit \<Rightarrow> bool" where
  "daily_room urls v = (case cl_dailyClickCap (vs_link v) of None \<Rightarrow> True
     | Some cap \<Rightarrow> \<not> vs_billable v \<or> snd (reserve_daily_click urls (cl_id (vs_link v)) cap (iso_day_key (vs_now v))))"

definition daily_open :: "click_db \<Rightarrow> visit \<Rightarrow> bool" where
  "daily_open db v = daily_room (cd_urls (fst (visit_lifetime db v))) v"

lemma visit_lifetime_effect:
  "cd_reserved (fst (visit_lifetime db v)) = cd_reserved db" "cd_returned (fst (visit_lifetime db v)) = cd_returned db"
  "snd (visit_lifetime db v) = v\<lparr>vs_phase := (if lifetime_open db v then AtQuota else Refused False)\<rparr>"
  by (auto simp: visit_lifetime_def lifetime_open_def split: option.splits prod.splits)

lemma needs_cap_phase [simp]: "needs_cap (v\<lparr>vs_phase := p\<rparr>) = needs_cap v"
  by (simp add: needs_cap_def)

lemma daily_room_phase [simp]: "daily_room urls (v\<lparr>vs_phase := p\<rparr>) = daily_room urls v"
  by (simp add: daily_room_def split: option.split)

lemma needs_quota_phase [simp]: "needs_quota (v\<lparr>vs_phase := p\<rparr>) = needs_quota v"
  by (simp add: needs_quota_def)

lemma advance_done [simp]:
  "advance_many n a (db, v\<lparr>vs_phase := Admitted t\<rparr>) = (db, v\<lparr>vs_phase := Admitted t\<rparr>)"
  "advance_many n a (db, v\<lparr>vs_phase := Refused t\<rparr>) = (db, v\<lparr>vs_phase := Refused t\<rparr>)"
  by (induction n) (simp_all add: visit_advance_def)

lemma visit_phase_twice [simp]: "v\<lparr>vs_phase := p, vs_phase := q\<rparr> = v\<lparr>vs_phase := q\<rparr>"
  by simp

lemma visit_quota_effect:
  "visit_quota v a = v\<lparr>vs_phase := (if quota_open v a then AtCap (unit_taken v a) else Refused False)\<rparr>"
  by (auto simp: visit_quota_def quota_open_def unit_taken_def)

text \<open>Where the refusal leaves the table of calls.\<close>

definition give_back :: "click_db \<Rightarrow> visit \<Rightarrow> bool \<Rightarrow> string list" where
  "give_back db v took = (if took then coalesce (cl_workspaceId (vs_link v)) [] # cd_returned db else cd_returned db)"

lemma refuse_visit_effect:
  "cd_reserved (fst (refuse_visit db v took)) = cd_reserved db" "cd_returned (fst (refuse_visit db v took)) = give_back db v took"
  "cd_urls (fst (refuse_visit db v took)) = cd_urls db" "snd (refuse_visit db v took) = v\<lparr>vs_phase := Refused took\<rparr>"
  by (simp_all add: refuse_visit_def give_back_def)

lemma cap_stage_closed:
  assumes "vs_phase v = AtCap took" "\<not> cap_open db v"
  shows "\<exists>db'. advance_many (Suc n) a (db, v) = (db', v\<lparr>vs_phase := Refused took\<rparr>) \<and>
    cd_reserved db' = cd_reserved db \<and> cd_returned db' = give_back db v took"
proof -
  have "visit_cap db v took = refuse_visit db v took"
    using assms(2) by (auto simp: visit_cap_def cap_open_def reserve_max_clicks_def split: option.splits)
  then show ?thesis using assms(1) by (cases "refuse_visit db v took") (use refuse_visit_effect [of db v took] in \<open>auto simp: visit_advance_def\<close>)
qed

lemma cap_stage_open:
  assumes "vs_phase v = AtCap took" "cap_open db v"
  shows "\<exists>db'. visit_advance a db v = (db', v\<lparr>vs_phase := AtDaily took\<rparr>) \<and> cd_urls db' = cd_urls db \<and> cd_returned db' = cd_returned db \<and>
    cd_reserved db' = (if needs_cap v then (cd_reserved db)(cl_id (vs_link v) \<mapsto> the (cd_reserved db (cl_id (vs_link v))) + 1) else cd_reserved db)"
  using assms by (auto simp: visit_advance_def visit_cap_def cap_open_def reserve_max_clicks_def split: option.splits)

text \<open>The daily stage, with the release that may follow.\<close>

lemma daily_stage:
  assumes "vs_phase v = AtDaily took" and "open_today = daily_room (cd_urls db) v"
  shows "\<exists>db'. advance_many 2 a (db, v) = (db', v\<lparr>vs_phase := (if open_today then Admitted took else Refused took)\<rparr>) \<and>
    cd_returned db' = (if open_today then cd_returned db else give_back db v took) \<and>
    cd_reserved db' = (if \<not> open_today \<and> needs_cap v then cd_reserved (release_max_clicks db (cl_id (vs_link v))) else cd_reserved db)"
proof (cases "cl_dailyClickCap (vs_link v) = None \<or> \<not> vs_billable v")
  case True
  then have "visit_daily db v took = (db, v\<lparr>vs_phase := Admitted took\<rparr>)" "open_today"
    using assms(2) by (auto simp: visit_daily_def daily_room_def split: option.splits)
  then show ?thesis using assms(1) by (simp add: eval_nat_numeral visit_advance_def)
next
  case False
  then obtain cap where c: "cl_dailyClickCap (vs_link v) = Some cap" "vs_billable v" by auto
  obtain urls ok where r: "reserve_daily_click (cd_urls db) (cl_id (vs_link v)) cap (iso_day_key (vs_now v)) = (urls, ok)" by force
  have ok: "open_today = ok" using assms(2) c r by (simp add: daily_room_def)
  have rel: "cd_reserved (release_max_clicks (db\<lparr>cd_urls := urls\<rparr>) i) = cd_reserved (release_max_clicks db i)"
    "cd_returned (release_max_clicks (db\<lparr>cd_urls := urls\<rparr>) i) = cd_returned db" for i
    by (auto simp: release_max_clicks_def split: option.split)
  show ?thesis using assms(1) c r
    by (cases ok; cases "needs_cap v")
      (auto simp: ok eval_nat_numeral visit_advance_def visit_daily_def visit_release_def refuse_visit_def give_back_def rel)
qed

lemma release_after_reserve:
  assumes "cd_reserved db' = (cd_reserved db)(i \<mapsto> n + 1)" "cd_reserved db i = Some n" "0 \<le> n"
  shows "cd_reserved (release_max_clicks db' i) = cd_reserved db"
  using assms by (auto simp: release_max_clicks_def)

text \<open>Whether a unit of the tenant was taken on the way.\<close>

definition visit_took :: "click_db \<Rightarrow> visit \<Rightarrow> click_admission \<Rightarrow> bool" where
  "visit_took db v a = (lifetime_open db v \<and> unit_taken v a)"

text \<open>Everything the admission asks for.\<close>

definition visit_open :: "click_db \<Rightarrow> visit \<Rightarrow> click_admission \<Rightarrow> bool" where
  "visit_open db v a = (lifetime_open db v \<and> quota_open v a \<and> cap_open db v \<and> daily_open db v)"

lemma admit_visit_exact:
  assumes start: "vs_phase v = AtLifetime" and count: "cd_reserved db (cl_id (vs_link v)) = Some n" "0 \<le> n"
  shows "\<exists>db'. admit_visit db v a = (db', v\<lparr>vs_phase := (if visit_open db v a then Admitted (visit_took db v a) else Refused (visit_took db v a))\<rparr>)
    \<and> cd_reserved db' = (if visit_open db v a \<and> needs_cap v then (cd_reserved db)(cl_id (vs_link v) \<mapsto> n + 1) else cd_reserved db)
    \<and> cd_returned db' = (if visit_open db v a then cd_returned db else give_back db v (visit_took db v a))"
proof -
  let ?db1 = "fst (visit_lifetime db v)" and ?took = "unit_taken v a"
  have one: "visit_advance a db v = (?db1, v\<lparr>vs_phase := (if lifetime_open db v then AtQuota else Refused False)\<rparr>)"
    using start visit_lifetime_effect(3) [of db v] by (simp add: visit_advance_def prod_eq_iff)
  have five: "admit_visit db v a = advance_many 4 a (visit_advance a db v)"
    by (simp add: admit_visit_def eval_nat_numeral)
  show ?thesis
  proof (cases "lifetime_open db v")
    case False
    then show ?thesis using five one visit_lifetime_effect [of db v] by (simp add: visit_open_def visit_took_def give_back_def)
  next
    case life: True
    let ?v2 = "v\<lparr>vs_phase := (if quota_open v a then AtCap ?took else Refused False)\<rparr>"
    have "visit_advance a ?db1 (v\<lparr>vs_phase := AtQuota\<rparr>) = (?db1, ?v2)"
      by (simp add: visit_advance_def visit_quota_effect) (simp add: quota_open_def unit_taken_def)
    then have two: "admit_visit db v a = advance_many 3 a (?db1, ?v2)"
      using five one life by (simp add: eval_nat_numeral)
    show ?thesis
    proof (cases "quota_open v a")
      case False
      then show ?thesis using two visit_lifetime_effect [of db v] by (simp add: visit_open_def visit_took_def give_back_def unit_taken_def quota_open_def)
    next
      case quota: True
      have cap: "cap_open ?db1 ?v2 = cap_open db v" using visit_lifetime_effect(1) [of db v]
        by (simp add: cap_open_def split: option.split)
      show ?thesis
      proof (cases "cap_open db v")
        case False
        then obtain db' where "advance_many (Suc 2) a (?db1, ?v2) = (db', ?v2\<lparr>vs_phase := Refused ?took\<rparr>)"
          "cd_reserved db' = cd_reserved ?db1" "cd_returned db' = give_back ?db1 ?v2 ?took"
          using cap_stage_closed [of ?v2 ?took ?db1 2 a] quota cap by auto
        then show ?thesis using two False life visit_lifetime_effect [of db v] by (simp add: visit_open_def visit_took_def give_back_def eval_nat_numeral)
      next
        case room: True
        obtain db2 where db2: "visit_advance a ?db1 ?v2 = (db2, ?v2\<lparr>vs_phase := AtDaily ?took\<rparr>)" "cd_urls db2 = cd_urls ?db1"
          "cd_returned db2 = cd_returned ?db1"
          "cd_reserved db2 = (if needs_cap v then (cd_reserved db)(cl_id (vs_link v) \<mapsto> n + 1) else cd_reserved db)"
          using cap_stage_open [of ?v2 ?took ?db1 a] quota room cap visit_lifetime_effect(1) [of db v] count(1) by auto
        let ?v3 = "v\<lparr>vs_phase := AtDaily ?took\<rparr>"
        obtain db' where db': "advance_many 2 a (db2, ?v3) = (db', ?v3\<lparr>vs_phase := (if daily_open db v then Admitted ?took else Refused ?took)\<rparr>)"
          "cd_returned db' = (if daily_open db v then cd_returned db2 else give_back db2 ?v3 ?took)"
          "cd_reserved db' = (if \<not> daily_open db v \<and> needs_cap ?v3 then cd_reserved (release_max_clicks db2 (cl_id (vs_link ?v3))) else cd_reserved db2)"
          using daily_stage [of ?v3 ?took "daily_open db v" db2 a] by (auto simp: daily_open_def db2(2))
        have "admit_visit db v a = advance_many 2 a (db2, ?v3)"
          using two db2(1) quota by (simp add: eval_nat_numeral)
        moreover have "cd_reserved (release_max_clicks db2 (cl_id (vs_link v))) = cd_reserved db" if "needs_cap v"
          using release_after_reserve [of db2 db] db2(4) count that by simp
        ultimately show ?thesis
          using db' db2 life quota room visit_lifetime_effect(2) [of db v] by (auto simp: visit_open_def visit_took_def give_back_def)
      qed
    qed
  qed
qed


text \<open>
  C10: The admission of a visit is exact and leaves nothing behind when it fails.  A visit is
  admitted exactly when its lifetime has not run out, its tenant's quota admits it and the
  click cap and the daily cap have room; a refused visit leaves the reserved clicks as they
  were and hands back the tenant's unit exactly when it took one.
\<close>

theorem visit_admission_exact:
  assumes start: "vs_phase v = AtLifetime" and count: "cd_reserved db (cl_id (vs_link v)) = Some n" "0 \<le> n"
  shows "\<exists>db'. admit_visit db v a = (db', v\<lparr>vs_phase := (if visit_open db v a then Admitted (visit_took db v a) else Refused (visit_took db v a))\<rparr>)
    \<and> cd_reserved db' = (if visit_open db v a \<and> needs_cap v then (cd_reserved db)(cl_id (vs_link v) \<mapsto> n + 1) else cd_reserved db)
    \<and> cd_returned db' = (if visit_open db v a then cd_returned db else give_back db v (visit_took db v a))"
  using assms by (rule admit_visit_exact)

lemma demo_open:
  "visit_open demo_db (demo_visit\<lparr>vs_billable := b\<rparr>) \<lparr>ca_admitted = True, ca_reserved = True\<rparr>"
  by (simp add: visit_open_def lifetime_open_def quota_open_def cap_open_def daily_open_def daily_room_def demo_visit_def
      demo_link_def demo_db_def)

theorem visit_admission_exact_witness:
  "\<exists>db'. admit_visit demo_db demo_visit \<lparr>ca_admitted = True, ca_reserved = True\<rparr>
      = (db', demo_visit\<lparr>vs_phase := Admitted True\<rparr>) \<and> cd_reserved db' = [''u'' \<mapsto> 3] \<and> cd_returned db' = []"
  using visit_admission_exact [of demo_visit demo_db 2 "\<lparr>ca_admitted = True, ca_reserved = True\<rparr>"] demo_open [of True]
  by (simp add: demo_visit_def demo_db_def demo_link_def needs_cap_def visit_took_def lifetime_open_def unit_taken_def needs_quota_def)

section \<open>What a served visit has passed\<close>

text \<open>A reply that shows or redirects to the destination, and not to a page of the application.\<close>

definition is_served :: "reply \<Rightarrow> bool" where
  "is_served r = (case rp_response r of PageRedirect _ \<Rightarrow> False | _ \<Rightarrow> True)"

lemma page_not_served [simp]: "\<not> is_served (plain_reply (PageRedirect t))" "\<not> is_served (to_page env path)"
  by (simp_all add: is_served_def plain_reply_def to_page_def)

text \<open>Every gate of the handler at once.\<close>

definition passes_gates :: "route_env \<Rightarrow> request \<Rightarrow> js_date \<Rightarrow> cached_link \<Rightarrow> bool" where
  "passes_gates env rq now l =
     (cl_isActive l \<and> cl_riskStatus l \<noteq> ''blocked'' \<and> is_unlocked env rq l \<and>
      link_window_state (cl_startsAt l) (cl_expiresAt l) now = Live \<and>
      is_country_allowed (cl_geoFence l) (Some (get_country rq)) \<and> \<not> visitor_blocked env rq l \<and>
      is_within_active_hours (re_intl env) (cl_activeHours l) now)"

lemma gate_target_none: "gate_target env rq now l = None \<longleftrightarrow> passes_gates env rq now l"
  by (auto simp: gate_target_def passes_gates_def is_expired_def link_window_state_def split: option.split)

lemma redirect_get_reaches:
  assumes "is_served (snd (redirect_get env rq now vi a code fb found db)) \<or> fst (redirect_get env rq now vi a code fb found db) \<noteq> db"
  obtains l secret destination where "found = Some l" "is_short_code code" "passes_gates env rq now l"
    "attribution_secret (re_secret env) = Inr secret" "visit_destination env rq now vi l = Inr destination"
    "redirect_get env rq now vi a code fb found db =
      (case admit_visit db (new_visit rq now l) a of (db1, v) \<Rightarrow> (case vs_phase v of
          Admitted _ \<Rightarrow> (db1, respond env rq now vi l secret destination)
        | _ \<Rightarrow> (db1, plain_reply (PageRedirect (expired_target env l)))))"
proof -
  have code: "route_lookup env rq code \<noteq> BadCode" using assms by (auto simp: redirect_get_def)
  then have "is_short_code code" by (auto simp: route_lookup_def split: if_splits)
  moreover obtain l where l: "found = Some l"
    using assms code by (cases found) (auto simp: redirect_get_def split: lookup.splits)
  moreover have gate: "gate_target env rq now l = None"
    using assms code l by (cases "gate_target env rq now l") (auto simp: redirect_get_def split: lookup.splits)
  moreover obtain secret where s: "attribution_secret (re_secret env) = Inr secret"
    using assms code l gate by (cases "attribution_secret (re_secret env)") (auto simp: redirect_get_def split: lookup.splits)
  moreover obtain destination where "visit_destination env rq now vi l = Inr destination"
    using assms code l gate s by (cases "visit_destination env rq now vi l") (auto simp: redirect_get_def split: lookup.splits)
  moreover have "redirect_get env rq now vi a code fb found db =
      (case admit_visit db (new_visit rq now l) a of (db1, v) \<Rightarrow> (case vs_phase v of
          Admitted _ \<Rightarrow> (db1, respond env rq now vi l secret destination)
        | _ \<Rightarrow> (db1, plain_reply (PageRedirect (expired_target env l)))))"
    using code l gate s calculation by (cases "route_lookup env rq code") (simp_all add: redirect_get_def)
  ultimately show thesis using that gate_target_none by blast
qed

lemma new_visit_fields [simp]:
  "vs_phase (new_visit rq now l) = AtLifetime" "vs_link (new_visit rq now l) = l" "vs_now (new_visit rq now l) = now"
  "vs_billable (new_visit rq now l) = is_billable_traffic (visit_traffic rq)"
  by (simp_all add: new_visit_def)

text \<open>
  A visit that comes as far as the admission: what it was looked up by, what was found, that no
  gate stops it, and the secret and the destination it goes on with.
\<close>

definition visit_reaches ::
  "route_env \<Rightarrow> request \<Rightarrow> js_date \<Rightarrow> visit_inputs \<Rightarrow> string \<Rightarrow> cached_link option \<Rightarrow> cached_link \<Rightarrow> string \<Rightarrow> string \<Rightarrow> bool" where
  "visit_reaches env rq now vi code found l secret destination =
     (is_short_code code \<and> found = Some l \<and> passes_gates env rq now l \<and>
      attribution_secret (re_secret env) = Inr secret \<and> visit_destination env rq now vi l = Inr destination)"

text \<open>
  An admitted visit can be answered: its final URL parses and, unless the device is a bot, the
  consent cookie can be decoded.  Otherwise the handler's \<open>catch\<close> sends it to the 503 page.
\<close>

definition answerable :: "route_env \<Rightarrow> request \<Rightarrow> js_date \<Rightarrow> visit_inputs \<Rightarrow> cached_link \<Rightarrow> string \<Rightarrow> string \<Rightarrow> bool" where
  "answerable env rq now vi l secret destination =
     (\<not> isl (final_destination env rq now vi l secret destination) \<and>
      (get_device_type (rq_header rq ''user-agent'') = DBot \<or>
       \<not> isl (pixel_consent_granted (rq_header rq ''sec-gpc'') (rq_header rq ''dnt'') (rq_header rq ''cookie''))))"

lemma respond_served: "is_served (respond env rq now vi l secret destination) \<longleftrightarrow> answerable env rq now vi l secret destination"
  by (auto simp: respond_def answerable_def is_served_def to_page_def plain_reply_def redirect_response_def Let_def split: sum.splits)

lemma redirect_get_from:
  assumes "visit_reaches env rq now vi code found l secret destination"
  shows "redirect_get env rq now vi a code fb found db =
      (case admit_visit db (new_visit rq now l) a of (db1, v) \<Rightarrow> (case vs_phase v of
          Admitted _ \<Rightarrow> (db1, respond env rq now vi l secret destination)
        | _ \<Rightarrow> (db1, plain_reply (PageRedirect (expired_target env l)))))"
  using assms
  by (auto simp: visit_reaches_def redirect_get_def route_lookup_def gate_target_none [THEN iffD2] Let_def)

lemma visit_reaches_cases:
  assumes "is_served (snd (redirect_get env rq now vi a code fb found db)) \<or> fst (redirect_get env rq now vi a code fb found db) \<noteq> db"
  shows "\<exists>l secret destination. visit_reaches env rq now vi code found l secret destination"
  by (rule redirect_get_reaches [OF assms]) (auto simp: visit_reaches_def)

lemma redirect_get_outcome:
  assumes reaches: "visit_reaches env rq now vi code found l secret destination"
    and counted: "cd_reserved db (cl_id l) = Some n" "0 \<le> n"
  shows "snd (redirect_get env rq now vi a code fb found db) =
      (if visit_open db (new_visit rq now l) a then respond env rq now vi l secret destination
       else plain_reply (PageRedirect (expired_target env l)))"
proof -
  let ?v = "new_visit rq now l"
  obtain db' where "admit_visit db ?v a =
      (db', ?v\<lparr>vs_phase := (if visit_open db ?v a then Admitted (visit_took db ?v a) else Refused (visit_took db ?v a))\<rparr>)"
    using admit_visit_exact [of ?v db n a] counted by auto
  then show ?thesis unfolding redirect_get_from [OF reaches] by simp
qed

text \<open>
  C1: The answer to a visit is exact.  Say a visit reaches the admission when its code is
  well-formed, its link exists, is active, is not blocked, is unlocked, is inside its publication
  window and admits the country, the visitor and the time of day, and its secret and destination
  are usable.  Every visit that reaches the admission is answered with the destination when the
  lifetime clock, the tenant's quota, the click cap and the daily cap all have room, and with
  the expired target otherwise.  A visit that does not reach it leaves the database as it was.
  So a destination is shown (redirect, preview, cloak or pixel page) exactly to the visits that
  reach the admission, find room, and can be answered: the final URL parses and the consent
  cookie of a browser can be decoded, without which the visit ends on the 503 page.
\<close>

theorem redirect_serves_open_links:
  assumes counted: "\<And>l. found = Some l \<Longrightarrow> \<exists>n\<ge>0. cd_reserved db (cl_id l) = Some n"
  shows "(\<forall>l secret destination. visit_reaches env rq now vi code found l secret destination \<longrightarrow>
      snd (redirect_get env rq now vi a code fb found db) =
        (if visit_open db (new_visit rq now l) a then respond env rq now vi l secret destination
         else plain_reply (PageRedirect (expired_target env l))))
    \<and> (fst (redirect_get env rq now vi a code fb found db) \<noteq> db \<longrightarrow>
      (\<exists>l secret destination. visit_reaches env rq now vi code found l secret destination))
    \<and> (is_served (snd (redirect_get env rq now vi a code fb found db)) \<longleftrightarrow>
      (\<exists>l secret destination. visit_reaches env rq now vi code found l secret destination
        \<and> visit_open db (new_visit rq now l) a \<and> answerable env rq now vi l secret destination))"
proof (intro conjI allI impI iffI)
  have out: "snd (redirect_get env rq now vi a code fb found db) =
        (if visit_open db (new_visit rq now l) a then respond env rq now vi l secret destination
         else plain_reply (PageRedirect (expired_target env l)))"
    if r: "visit_reaches env rq now vi code found l secret destination" for l secret destination
    using counted [of l] r redirect_get_outcome [OF r] unfolding visit_reaches_def by blast
  show "snd (redirect_get env rq now vi a code fb found db) =
        (if visit_open db (new_visit rq now l) a then respond env rq now vi l secret destination
         else plain_reply (PageRedirect (expired_target env l)))"
    if "visit_reaches env rq now vi code found l secret destination" for l secret destination using that by (rule out)
  show "\<exists>l secret destination. visit_reaches env rq now vi code found l secret destination"
    if "fst (redirect_get env rq now vi a code fb found db) \<noteq> db" using visit_reaches_cases that by blast
  show "\<exists>l secret destination. visit_reaches env rq now vi code found l secret destination
        \<and> visit_open db (new_visit rq now l) a \<and> answerable env rq now vi l secret destination"
    if served: "is_served (snd (redirect_get env rq now vi a code fb found db))"
  proof -
    obtain l secret destination where r: "visit_reaches env rq now vi code found l secret destination"
      using visit_reaches_cases served by blast
    then show ?thesis using served out [OF r] respond_served by (metis page_not_served(1))
  qed
  show "is_served (snd (redirect_get env rq now vi a code fb found db))"
    if "\<exists>l secret destination. visit_reaches env rq now vi code found l secret destination
        \<and> visit_open db (new_visit rq now l) a \<and> answerable env rq now vi l secret destination"
    using that out respond_served by (metis (full_types))
qed


definition demo_env :: route_env where
  "demo_env = \<lparr>re_baseUrl = ''https://q.example'', re_appHost = ''q.example'', re_resolve = (\<lambda>p b. b @ p),
     re_url = (\<lambda>s. Some \<lparr>u_protocol = ''https:'', u_username = [], u_password = [], u_hostname = ''a.example'', u_path = ''/'', u_params = [], u_hash = []\<rparr>),
     re_href = (\<lambda>u. u_protocol u @ ''//'' @ u_hostname u @ u_path u @ u_hash u), re_hash_params = (\<lambda>_. []), re_params_text = (\<lambda>_. ''h''),
     re_intl = (\<lambda>_ _. ([], 0, 0)), re_tz_known = (\<lambda>_. False), re_date = (\<lambda>_. None), re_digest = (\<lambda>_. 0),
     re_crypto = \<lparr>cr_hmac = (\<lambda>_ _. []), cr_scrypt = (\<lambda>_ _. [])\<rparr>, re_secret = Some (replicate 32 CHR ''s''), re_hops = None\<rparr>"

definition demo_request :: request where
  "demo_request = \<lparr>rq_header = Map.empty, rq_cookie = Map.empty, rq_params = [], rq_hostname = ''q.example''\<rparr>"

definition demo_inputs :: visit_inputs where
  "demo_inputs = \<lparr>vi_fresh = ''v'', vi_campaign = None, vi_revision = None, vi_clickEventId = ''e''\<rparr>"

lemma demo_lookup: "route_lookup demo_env demo_request ''abc'' = LookupCode ''abc''"
  by code_simp

lemma demo_gate: "gate_target demo_env demo_request 0 demo_link = None"
  by (simp add: gate_target_none passes_gates_def demo_link_def is_unlocked_def link_window_state_def is_country_allowed_def
      visitor_blocked_def evaluate_visitor_block_def is_within_active_hours_def)

lemma demo_secret: "attribution_secret (re_secret demo_env) = Inr (replicate 32 CHR ''s'')"
  by (simp add: attribution_secret_def demo_env_def)

lemma demo_traffic: "visit_traffic demo_request = THuman"
  by code_simp

lemma demo_destination: "visit_destination demo_env demo_request 0 demo_inputs demo_link = Inr ''https://a.example/''"
proof -
  have rule: "chosen_rule demo_env demo_request 0 demo_inputs demo_link = None"
    by (simp add: chosen_rule_def choose_smart_rule_def demo_link_def)
  have fields: "cl_destinationSchedule demo_link = None" "cl_originalUrl demo_link = ''https://a.example/''"
      "vi_campaign demo_inputs = None" "vi_revision demo_inputs = None"
    by (simp_all add: demo_link_def demo_inputs_def)
  have "base_destination demo_env demo_request 0 demo_inputs demo_link = ''https://a.example/''"
    by (simp add: base_destination_def rule chosen_variant_def chosen_revision_def fields resolve_destination_def or_str_def
        or_default_def active_scheduled_destination_def read_destination_schedule_def)
  then show ?thesis
    by (simp add: visit_destination_def forward_query_params_def demo_env_def demo_request_def filter_forwarded_params_def)
qed

lemma demo_new: "new_visit demo_request 0 demo_link = demo_visit"
  by (simp add: new_visit_def demo_traffic is_billable_traffic_def demo_visit_def)

lemmas demo_stages = demo_lookup demo_gate demo_secret demo_traffic demo_destination demo_new

lemma demo_reaches: "visit_reaches demo_env demo_request 0 demo_inputs ''abc'' (Some demo_link) demo_link (replicate 32 CHR ''s'') ''https://a.example/''"
  using demo_gate by (simp add: visit_reaches_def demo_secret demo_destination gate_target_none is_short_code_def is_alnum_def is_alpha_def
      is_lower_def is_upper_def is_digit_def)

theorem redirect_serves_open_links_witness:
  "snd (redirect_get demo_env demo_request 0 demo_inputs \<lparr>ca_admitted = True, ca_reserved = True\<rparr> ''abc'' None (Some demo_link) demo_db)
    = respond demo_env demo_request 0 demo_inputs demo_link (replicate 32 CHR ''s'') ''https://a.example/''"
proof -
  let ?a = "\<lparr>ca_admitted = True, ca_reserved = True\<rparr>"
  have open_v: "visit_open demo_db (new_visit demo_request 0 demo_link) ?a" using demo_open [of True] by (simp add: demo_stages demo_visit_def)
  have "\<And>l. Some demo_link = Some l \<Longrightarrow> \<exists>n\<ge>0. cd_reserved demo_db (cl_id l) = Some n" by (simp add: demo_db_def demo_link_def)
  note C = redirect_serves_open_links [OF this, THEN conjunct1, rule_format, OF _ demo_reaches, where a = ?a and fb = None]
  then show ?thesis using open_v by simp
qed


section \<open>Automated visits and permanent redirects\<close>

lemma bot_step:
  assumes "\<not> vs_billable v"
  shows "visit_advance a db (v\<lparr>vs_phase := AtLifetime\<rparr>) = (db, v\<lparr>vs_phase := AtQuota\<rparr>)"
    "visit_advance a db (v\<lparr>vs_phase := AtQuota\<rparr>) = (db, v\<lparr>vs_phase := AtCap False\<rparr>)"
    "visit_advance a db (v\<lparr>vs_phase := AtCap took\<rparr>) = (db, v\<lparr>vs_phase := AtDaily took\<rparr>)"
    "visit_advance a db (v\<lparr>vs_phase := AtDaily took\<rparr>) = (db, v\<lparr>vs_phase := Admitted took\<rparr>)"
    "visit_advance a db (v\<lparr>vs_phase := Admitted took\<rparr>) = (db, v\<lparr>vs_phase := Admitted took\<rparr>)"
  using assms
  by (simp_all add: visit_advance_def visit_lifetime_def visit_quota_def needs_quota_def visit_cap_def needs_cap_def visit_daily_def
      split: option.split)

lemma bot_admission:
  assumes "\<not> vs_billable v" "vs_phase v = AtLifetime"
  shows "admit_visit db v a = (db, v\<lparr>vs_phase := Admitted False\<rparr>)"
proof -
  have "v = v\<lparr>vs_phase := AtLifetime\<rparr>" using assms(2) by simp
  then have "admit_visit db v a = advance_many 5 a (db, v\<lparr>vs_phase := AtLifetime\<rparr>)" by (simp only: admit_visit_def)
  then show ?thesis by (simp only: eval_nat_numeral Num.BitM.simps advance_many.simps fst_conv snd_conv bot_step [OF assms(1)])
qed

text \<open>What a bot is shown: the preview page of the plain destination.\<close>

lemma respond_bot:
  assumes "visit_traffic rq = TBot"
  shows "rp_response (respond env rq now vi l secret destination)
    = HtmlPage (BotPage (bot_page destination (cl_title l) (cl_description l) (preview_image env l)))"
proof -
  have "get_device_type (rq_header rq ''user-agent'') = DBot"
    using assms by (auto simp: visit_traffic_def get_traffic_type_def split: if_splits)
  then show ?thesis using assms by (simp add: respond_def final_destination_def)
qed

lemma redirect_get_bot:
  assumes "visit_traffic rq = TBot"
    and "is_served (snd (redirect_get env rq now vi a code fb found db)) \<or> fst (redirect_get env rq now vi a code fb found db) \<noteq> db"
  obtains l secret destination where "found = Some l" "visit_destination env rq now vi l = Inr destination"
    "redirect_get env rq now vi a code fb found db = (db, respond env rq now vi l secret destination)"
proof -
  obtain l secret destination where l: "found = Some l" "visit_destination env rq now vi l = Inr destination"
    and get: "redirect_get env rq now vi a code fb found db =
      (case admit_visit db (new_visit rq now l) a of (db1, v) \<Rightarrow> (case vs_phase v of
          Admitted _ \<Rightarrow> (db1, respond env rq now vi l secret destination)
        | _ \<Rightarrow> (db1, plain_reply (PageRedirect (expired_target env l)))))"
    by (rule redirect_get_reaches [OF assms(2)])
  have "admit_visit db (new_visit rq now l) a = (db, (new_visit rq now l)\<lparr>vs_phase := Admitted False\<rparr>)"
    using assms(1) by (intro bot_admission) (simp_all add: is_billable_traffic_def)
  then have "redirect_get env rq now vi a code fb found db = (db, respond env rq now vi l secret destination)"
    unfolding get by simp
  with l that show thesis by blast
qed

text \<open>
  An automated visit costs nothing.  Whatever the link and the admission, a bot leaves the
  database as it was, and when it is served it gets the preview page of the plain destination,
  without click id or attribution token.
\<close>

lemma automated_visits_are_free:
  assumes bot: "visit_traffic rq = TBot"
  shows "fst (redirect_get env rq now vi a code fb found db) = db \<and>
    (is_served (snd (redirect_get env rq now vi a code fb found db)) \<longrightarrow>
      (\<exists>l destination. found = Some l \<and> visit_destination env rq now vi l = Inr destination \<and>
        rp_response (snd (redirect_get env rq now vi a code fb found db))
          = HtmlPage (BotPage (bot_page destination (cl_title l) (cl_description l) (preview_image env l)))))"
proof (intro conjI impI)
  show "fst (redirect_get env rq now vi a code fb found db) = db"
    using redirect_get_bot [OF bot, of env now vi a code fb found db] by (metis fst_conv)
  assume "is_served (snd (redirect_get env rq now vi a code fb found db))"
  then obtain l secret destination where "found = Some l" "visit_destination env rq now vi l = Inr destination"
    "redirect_get env rq now vi a code fb found db = (db, respond env rq now vi l secret destination)"
    using redirect_get_bot [OF bot, of env now vi a code fb found db] by metis
  then show "\<exists>l destination. found = Some l \<and> visit_destination env rq now vi l = Inr destination \<and>
        rp_response (snd (redirect_get env rq now vi a code fb found db))
          = HtmlPage (BotPage (bot_page destination (cl_title l) (cl_description l) (preview_image env l)))"
    using respond_bot [OF bot] by auto
qed

definition bot_request :: request where
  "bot_request = demo_request\<lparr>rq_header := [''user-agent'' \<mapsto> ''SomeBot/1.0'']\<rparr>"

lemma bot_request_traffic: "visit_traffic bot_request = TBot"
  by code_simp

lemma automated_visits_are_free_witness:
  "fst (redirect_get demo_env bot_request 0 demo_inputs \<lparr>ca_admitted = False, ca_reserved = False\<rparr> ''abc'' None (Some demo_link) demo_db) = demo_db"
  using automated_visits_are_free [OF bot_request_traffic, of demo_env 0 demo_inputs "\<lparr>ca_admitted = False, ca_reserved = False\<rparr>" "''abc''" None "Some demo_link" demo_db] by blast

text \<open>
  A permanent status is only sent for the stored destination of a link without cap, window,
  schedule, hours or password.  The condition does not look at the country fence, the visitor
  block or the daily cap.
\<close>

lemma permanent_status_ungated:
  assumes "redirect_response rq l destination url = RedirectTo u status cache" "status = 301 \<or> status = 308"
  shows "destination = cl_originalUrl l \<and> \<not> is_gated rq l \<and> cl_redirectStatus l = Some status"
  using assms
  by (auto simp: redirect_response_def effective_redirect_status_def DEFAULT_REDIRECT_STATUS_def REDIRECT_STATUSES_def coalesce_def Let_def
      split: if_splits option.splits)

lemma permanent_status_ignores_fence:
  "redirect_response rq (l\<lparr>cl_geoFence := g, cl_visitorBlock := b, cl_dailyClickCap := c\<rparr>) destination url
    = redirect_response rq l destination url"
  by (simp add: redirect_response_def is_gated_def)

end
