(* ===== verification/LinkCacheWorld.thy ===== *)
theory LinkCacheWorld
  imports LinkData
begin

text \<open>
  The read cache of \<open>LinkCache\<close> in its surroundings: the clock, the database its loaders read, writes
  to it and the invalidations that follow them.  In every reachable state the indexes agree with
  the entries, the size and the life of entries are bounded, and a key that no write has left
  uninvalidated is never served with a value its loader would not return at that moment.
\<close>

section \<open>The cache in its world\<close>

text \<open>
  \<open>w_db\<close> is the database, \<open>w_snap\<close> what a running load has read, and \<open>w_dirty\<close> the keys for which a write
  changed what their loader returns, now or at a later time, since an invalidation reached them.
  Only the cache state belongs to the program.  The clock does not go back.
\<close>

record link_world =
  w_st :: "cache_value cache_state"
  w_db :: link_db
  w_now :: js_date
  w_snap :: "nat \<Rightarrow> cache_value load_result option"
  w_dirty :: "string set"

definition changed_keys :: "link_db \<Rightarrow> link_db \<Rightarrow> js_date \<Rightarrow> string set" where
  "changed_keys db db' now = {k. \<exists>t\<ge>now. lr_value (load_key db k t) \<noteq> lr_value (load_key db' k t)}"

inductive world_step :: "cache_config \<Rightarrow> link_world \<Rightarrow> link_world \<Rightarrow> bool" for cfg where
  Tick: "w_now w \<le> t \<Longrightarrow> world_step cfg w (w\<lparr>w_now := t\<rparr>)"
| Read: "read_begin (w_st w) k (w_now w) = (st, r) \<Longrightarrow> world_step cfg w (w\<lparr>w_st := st\<rparr>)"
| Query: "cs_flights (w_st w) fid = Some f \<Longrightarrow> w_snap w fid = None \<Longrightarrow>
    world_step cfg w (w\<lparr>w_snap := (w_snap w)(fid \<mapsto> load_key (w_db w) (fl_key f) (w_now w))\<rparr>)"
| Loaded: "w_snap w fid = Some r \<Longrightarrow> we_config env = cfg \<Longrightarrow> we_now env = w_now w \<Longrightarrow> 0 \<le> we_random env \<Longrightarrow> we_random env < 1 \<Longrightarrow>
    world_step cfg w (w\<lparr>w_st := load_done (w_st w) env fid r, w_snap := (w_snap w)(fid := None)\<rparr>)"
| Load_failed: "world_step cfg w (w\<lparr>w_st := load_failed (w_st w) fid, w_snap := (w_snap w)(fid := None)\<rparr>)"
| Mutate: "world_step cfg w (w\<lparr>w_db := db, w_dirty := w_dirty w \<union> changed_keys (w_db w) db (w_now w)\<rparr>)"
| Invalidate: "world_step cfg w (w\<lparr>w_st := invalidate_local (w_st w) t, w_dirty := w_dirty w - reached_keys (w_st w) t\<rparr>)"
| Message: "world_step cfg w (w\<lparr>w_st := on_message (w_st w) t, w_dirty := w_dirty w - reached_keys (w_st w) t\<rparr>)"
| Flush: "world_step cfg w (w\<lparr>w_st := flush_all (w_st w), w_dirty := {}\<rparr>)"

inductive world_reach :: "cache_config \<Rightarrow> link_world \<Rightarrow> bool" for cfg where
  init: "world_reach cfg \<lparr>w_st = empty_cache, w_db = db, w_now = t, w_snap = Map.empty, w_dirty = {}\<rparr>"
| step: "world_reach cfg w \<Longrightarrow> world_step cfg w w' \<Longrightarrow> world_reach cfg w'"

text \<open>An entry is current until it expires, a load until the change it announced.\<close>

definition entry_current :: "link_db \<Rightarrow> js_date \<Rightarrow> string \<Rightarrow> cache_value cache_entry \<Rightarrow> bool" where
  "entry_current db now k e = (\<forall>t\<ge>now. t < ce_expiresAt e \<longrightarrow> ce_value e = lr_value (load_key db k t))"

definition load_current :: "link_db \<Rightarrow> js_date \<Rightarrow> string \<Rightarrow> cache_value load_result \<Rightarrow> bool" where
  "load_current db now k r = (\<forall>t\<ge>now. before_change (lr_notAfter r) t \<longrightarrow> lr_value r = lr_value (load_key db k t))"

lemma stored_current: "load_current db now k r \<Longrightarrow> entry_current db now k (entry_of env r)"
  using next_expiry_before_change by (fastforce simp: load_current_def entry_current_def entry_of_def)

lemma query_current: "load_current db now k (load_key db k now)"
  using load_key_constant by (fastforce simp: load_current_def)

lemma current_later:
  "now \<le> t \<Longrightarrow> entry_current db now k e \<Longrightarrow> entry_current db t k e"
  "now \<le> t \<Longrightarrow> load_current db now k r \<Longrightarrow> load_current db t k r"
  unfolding entry_current_def load_current_def by (meson order_trans)+

lemma current_unchanged:
  assumes "k \<notin> changed_keys db db' now"
  shows "entry_current db now k e \<Longrightarrow> entry_current db' now k e" "load_current db now k r \<Longrightarrow> load_current db' now k r"
  using assms by (auto simp: entry_current_def load_current_def changed_keys_def)

text \<open>What is cached or about to be cached agrees with the database, outside the dirty keys.\<close>

definition agrees :: "link_world \<Rightarrow> bool" where
  "agrees w \<longleftrightarrow> (\<forall>k e. cache_get (w_st w) k = Some e \<longrightarrow> k \<notin> w_dirty w \<longrightarrow> entry_current (w_db w) (w_now w) k e)
     \<and> (\<forall>fid f r. cs_flights (w_st w) fid = Some f \<longrightarrow> \<not> fl_stale f \<longrightarrow> w_snap w fid = Some r \<longrightarrow> fl_key f \<notin> w_dirty w \<longrightarrow>
           load_current (w_db w) (w_now w) (fl_key f) r)
     \<and> (\<forall>fid. w_snap w fid \<noteq> None \<longrightarrow> cs_flights (w_st w) fid \<noteq> None)"

text \<open>No entry outlives the longer time to live and its jitter, counted from now.\<close>

definition longest_life :: "cache_config \<Rightarrow> int" where
  "longest_life cfg = (let ttl = max (cc_shortTtl cfg) (cc_busTtl cfg) in ttl + 3 * ttl div 10)"

definition lives_bounded :: "cache_config \<Rightarrow> link_world \<Rightarrow> bool" where
  "lives_bounded cfg w = (\<forall>k e. cache_get (w_st w) k = Some e \<longrightarrow> ce_expiresAt e \<le> w_now w + longest_life cfg)"

definition config_ok :: "cache_config \<Rightarrow> bool" where
  "config_ok cfg = (0 < cc_maxEntries cfg \<and> 0 \<le> cc_shortTtl cfg \<and> 0 \<le> cc_busTtl cfg)"

lemma next_expiry_bounded:
  assumes "config_ok (we_config env)" "0 \<le> we_random env" "we_random env < 1"
  shows "next_expiry env na \<le> we_now env + longest_life (we_config env)"
proof -
  define base where "base = (if we_connected env then cc_busTtl (we_config env) else cc_shortTtl (we_config env))"
  define ttl where "ttl = max (cc_shortTtl (we_config env)) (cc_busTtl (we_config env))"
  have b: "0 \<le> base" "base \<le> ttl" using assms(1) by (auto simp: base_def ttl_def config_ok_def)
  have "we_random env * of_int base * (3 / 10) \<le> of_int (3 * ttl) / 10"
  proof -
    have "we_random env * of_int base \<le> 1 * of_int base" using assms(3) b(1) by (intro mult_right_mono) auto
    also have "\<dots> \<le> of_int ttl" using b(2) by simp
    finally show ?thesis by (simp add: mult.commute)
  qed
  then have "\<lfloor>we_random env * of_int base * (3 / 10)\<rfloor> \<le> \<lfloor>of_int (3 * ttl) / (10 :: rat)\<rfloor>" by (rule floor_mono)
  also have "\<dots> = 3 * ttl div 10" using floor_divide_of_int_eq [of "3 * ttl" 10] by simp
  finally have "we_now env + base + \<lfloor>we_random env * of_int base * (3 / 10)\<rfloor> \<le> we_now env + longest_life (we_config env)"
    using b(2) unfolding longest_life_def ttl_def [symmetric] Let_def by linarith
  then show ?thesis by (auto simp: next_expiry_def base_def Let_def split: option.split)
qed

definition world_ok :: "cache_config \<Rightarrow> link_world \<Rightarrow> bool" where
  "world_ok cfg w \<longleftrightarrow> flights_ok (w_st w) \<and> cache_ok (w_st w) \<and> length (cs_cache (w_st w)) \<le> cc_maxEntries cfg \<and> agrees w
     \<and> lives_bounded cfg w"

lemma same_parts_ok:
  assumes "cs_cache st' = cs_cache st" "cs_urlIndex st' = cs_urlIndex st" "cs_hostIndex st' = cs_hostIndex st"
    "cs_flights st' = cs_flights st" "cs_inflight st' = cs_inflight st" "cs_next st' = cs_next st"
  shows "flights_ok st' = flights_ok st" "cache_ok st' = cache_ok st" "cache_get st' = cache_get st"
    "reached_keys st' t = reached_keys st t" "keys_of_id st' i = keys_of_id st i"
proof -
  show get: "cache_get st' = cache_get st" by (rule ext) (simp add: cache_get_def assms)
  show "cache_ok st' = cache_ok st" by (rule cache_ok_same) (simp_all add: assms)
  show "flights_ok st' = flights_ok st" by (simp add: flights_ok_def assms)
  show "reached_keys st' t = reached_keys st t" "keys_of_id st' i = keys_of_id st i"
    by (simp_all add: reached_keys_def keys_of_id_def keys_of_host_def get)
qed

lemma length_removes_evict:
  "length (cs_cache (evict_local st t)) \<le> length (cs_cache st)"
proof -
  have host: "length (cs_cache (foldl evict_host st hs)) \<le> length (cs_cache st)" for st :: "'a cache_state" and hs
    by (induction hs arbitrary: st) (auto simp: evict_host_def intro: order_trans length_deletes_le)
  have id: "length (cs_cache (foldl evict_id st is)) \<le> length (cs_cache st)" for st :: "'a cache_state" and "is"
  proof (induction "is" arbitrary: st)
    case (Cons i "is")
    have "length (cs_cache (evict_id st i)) \<le> length (cs_cache st)"
      unfolding evict_id_def Let_def by (rule order_trans [OF length_deletes_le length_delete_le])
    then show ?case using Cons.IH [of "evict_id st i"] by simp
  qed simp
  show ?thesis unfolding evict_local_def
    by (auto simp: flush_all_def intro: order_trans [OF host] order_trans [OF id] length_deletes_le)
qed

lemma world_ok_remove:
  assumes ok: "world_ok cfg w" and r: "removes K (w_st w) st" and st: "flights_ok st" "cache_ok st"
    "length (cs_cache st) \<le> length (cs_cache (w_st w))"
  shows "world_ok cfg (w\<lparr>w_st := st, w_dirty := w_dirty w - K\<rparr>)"
proof -
  have a: "agrees w" using ok by (simp add: world_ok_def)
  have get: "cache_get st k = Some e \<Longrightarrow> k \<notin> K \<and> cache_get (w_st w) k = Some e" for k e
    using r by (auto simp: removes_def split: if_splits)
  have fl: "cs_flights st fid = Some f \<Longrightarrow> \<not> fl_stale f \<Longrightarrow> cs_flights (w_st w) fid = Some f \<and> fl_key f \<notin> K" for fid f
    using r by (auto simp: removes_def)
  have none: "cs_flights st fid = None \<longleftrightarrow> cs_flights (w_st w) fid = None" for fid using r by (auto simp: removes_def)
  have "agrees (w\<lparr>w_st := st, w_dirty := w_dirty w - K\<rparr>)"
    using a get fl none unfolding agrees_def by (simp, blast)
  moreover have "lives_bounded cfg (w\<lparr>w_st := st, w_dirty := w_dirty w - K\<rparr>)"
    using ok get unfolding world_ok_def lives_bounded_def by auto
  ultimately show ?thesis using ok st by (simp add: world_ok_def)
qed

lemma load_done_parts:
  assumes "cs_flights st fid = Some f" "\<not> fl_stale f"
  shows "cache_get (load_done st env fid r) = cache_get (set_cache st env (fl_key f) r)"
    "length (cs_cache (load_done st env fid r)) = length (cs_cache (set_cache st env (fl_key f) r))"
    "cache_ok (load_done st env fid r) = cache_ok (set_cache st env (fl_key f) r)"
proof -
  have e: "load_done st env fid r = finish_flight (set_cache st env (fl_key f) r) fid (fl_key f)"
    using assms by (simp add: load_done_def)
  show "cache_get (load_done st env fid r) = cache_get (set_cache st env (fl_key f) r)"
    unfolding e by (rule ext) (simp add: finish_flight_def cache_get_def)
  show "length (cs_cache (load_done st env fid r)) = length (cs_cache (set_cache st env (fl_key f) r))"
    unfolding e by (simp add: finish_flight_def)
  show "cache_ok (load_done st env fid r) = cache_ok (set_cache st env (fl_key f) r)"
    unfolding e by (rule cache_ok_same) (simp_all add: finish_flight_def)
qed

lemma removes_room:
  assumes "flights_ok st"
  shows "\<exists>K. removes K st (room_for st env k)"
proof -
  define st1 where "st1 = delete_keys st (map fst (filter (\<lambda>(k, e). ce_expiresAt e \<le> we_now env) (cs_cache st)))"
  have r1: "\<exists>K. removes K st st1" using removes_deletes [OF assms] by (auto simp: st1_def)
  have f1: "flights_ok st1" using assms by (simp add: st1_def flights_ok_deletes)
  have "\<exists>K. removes K st (delete_key st1 j)" for j
    using r1 removes_delete [OF f1, of j] removes_trans by blast
  moreover have "\<exists>K. removes K st (delete_key st j)" for j using removes_delete [OF assms] by blast
  ultimately show ?thesis
    using r1 removes_refl
    by (auto simp: room_for_def make_room_def Let_def st1_def [symmetric] split: list.splits)
qed

lemma load_done_flights:
  assumes "flights_ok st" "cs_flights st fid = Some f"
  shows "cs_flights (load_done st env fid r) i = Some g \<Longrightarrow> \<not> fl_stale g \<Longrightarrow> i \<noteq> fid \<and> cs_flights st i = Some g"
    "cs_flights (load_done st env fid r) i = None \<Longrightarrow> i = fid \<or> cs_flights st i = None"
proof -
  obtain K where K: "removes K st (room_for st env (fl_key f))" using removes_room [OF assms(1)] by blast
  have fl: "cs_flights (load_done st env fid r) =
      (if fl_stale f then cs_flights st else cs_flights (room_for st env (fl_key f)))(fid := None)"
    using assms(2) by (simp add: load_done_def finish_flight_def set_cache_room Let_def)
  show "cs_flights (load_done st env fid r) i = Some g \<Longrightarrow> \<not> fl_stale g \<Longrightarrow> i \<noteq> fid \<and> cs_flights st i = Some g"
    unfolding fl using K by (auto simp: removes_def split: if_splits)
  show "cs_flights (load_done st env fid r) i = None \<Longrightarrow> i = fid \<or> cs_flights st i = None"
    unfolding fl using K by (auto simp: removes_def split: if_splits)
qed

lemma agrees_state_snapI:
  assumes "\<forall>k e. cache_get st k = Some e \<longrightarrow> k \<notin> w_dirty w \<longrightarrow> entry_current (w_db w) (w_now w) k e"
    and "\<forall>fid f r. cs_flights st fid = Some f \<longrightarrow> \<not> fl_stale f \<longrightarrow> sn fid = Some r \<longrightarrow> fl_key f \<notin> w_dirty w \<longrightarrow>
      load_current (w_db w) (w_now w) (fl_key f) r"
    and "\<forall>fid. sn fid \<noteq> None \<longrightarrow> cs_flights st fid \<noteq> None"
  shows "agrees (w\<lparr>w_st := st, w_snap := sn\<rparr>)"
proof -
  let ?w = "w\<lparr>w_st := st, w_snap := sn\<rparr>"
  have parts: "w_st ?w = st" "w_snap ?w = sn" "w_db ?w = w_db w" "w_now ?w = w_now w" "w_dirty ?w = w_dirty w" by simp_all
  show ?thesis unfolding agrees_def parts using assms by (intro conjI)
qed

lemma world_ok_loaded:
  assumes ok: "world_ok (we_config env) w" and cfg: "config_ok (we_config env)" and snap: "w_snap w fid = Some r"
    and env: "we_now env = w_now w" "0 \<le> we_random env" "we_random env < 1"
  shows "world_ok (we_config env) (w\<lparr>w_st := load_done (w_st w) env fid r, w_snap := (w_snap w)(fid := None)\<rparr>)"
proof -
  let ?st = "w_st w" and ?st' = "load_done (w_st w) env fid r"
  have fl: "flights_ok ?st" and co: "cache_ok ?st" and len: "length (cs_cache ?st) \<le> cc_maxEntries (we_config env)"
    and a: "agrees w" and lives: "lives_bounded (we_config env) w" using ok by (auto simp: world_ok_def)
  obtain f where f: "cs_flights ?st fid = Some f" using a snap by (auto simp: agrees_def)
  note lf = load_done_flights [OF fl f, of env r]
  have flights: "\<forall>i g q. cs_flights ?st' i = Some g \<longrightarrow> \<not> fl_stale g \<longrightarrow> ((w_snap w)(fid := None)) i = Some q \<longrightarrow>
      fl_key g \<notin> w_dirty w \<longrightarrow> load_current (w_db w) (w_now w) (fl_key g) q"
    using a lf(1) unfolding agrees_def by (metis fun_upd_apply option.distinct(1))
  have snaps: "\<forall>i. ((w_snap w)(fid := None)) i \<noteq> None \<longrightarrow> cs_flights ?st' i \<noteq> None"
    using a lf(2) unfolding agrees_def by (metis fun_upd_apply)
  show ?thesis
  proof (cases "fl_stale f")
    case True
    then have e: "?st' = finish_flight (?st\<lparr>cs_stats := (cs_stats ?st)\<lparr>st_staleLoadsDiscarded := st_staleLoadsDiscarded (cs_stats ?st) + 1\<rparr>\<rparr>) fid (fl_key f)"
      using f by (simp add: load_done_def)
    have same: "cs_cache ?st' = cs_cache ?st" "cs_urlIndex ?st' = cs_urlIndex ?st" "cs_hostIndex ?st' = cs_hostIndex ?st"
      unfolding e by (simp_all add: finish_flight_def)
    have get: "cache_get ?st' = cache_get ?st" "cache_ok ?st' = cache_ok ?st"
      by (simp_all add: fun_eq_iff cache_get_def same cache_ok_same [OF same])
    have "\<forall>k e. cache_get ?st' k = Some e \<longrightarrow> k \<notin> w_dirty w \<longrightarrow> entry_current (w_db w) (w_now w) k e"
      unfolding get(1) using a by (simp add: agrees_def)
    then have "agrees (w\<lparr>w_st := ?st', w_snap := (w_snap w)(fid := None)\<rparr>)"
      using flights snaps by (rule agrees_state_snapI)
    moreover have "lives_bounded (we_config env) (w\<lparr>w_st := ?st', w_snap := (w_snap w)(fid := None)\<rparr>)"
      using lives by (simp add: lives_bounded_def get(1))
    moreover have "cache_ok ?st'" unfolding get(2) by (rule co)
    moreover have "length (cs_cache ?st') \<le> cc_maxEntries (we_config env)" unfolding same(1) by (rule len)
    ultimately show ?thesis using flights_ok_load_done [OF fl, of env fid r] by (simp add: world_ok_def)
  next
    case False
    note p = load_done_parts [OF f False, of env r]
    have entries: "(k \<notin> w_dirty w \<longrightarrow> entry_current (w_db w) (w_now w) k e) \<and> ce_expiresAt e \<le> w_now w + longest_life (we_config env)"
      if e: "cache_get ?st' k = Some e" for k e
    proof (rule link_cache.store_agrees [where P = "\<lambda>k e. (k \<notin> w_dirty w \<longrightarrow> entry_current (w_db w) (w_now w) k e)
          \<and> ce_expiresAt e \<le> w_now w + longest_life (we_config env)" and s = ?st and k = "fl_key f" and x = r and env = env])
      show "(j \<notin> w_dirty w \<longrightarrow> entry_current (w_db w) (w_now w) j g) \<and> ce_expiresAt g \<le> w_now w + longest_life (we_config env)"
        if "cache_get ?st j = Some g" for j g
        using a lives that unfolding agrees_def lives_bounded_def by blast
      have "load_current (w_db w) (w_now w) (fl_key f) r" if "fl_key f \<notin> w_dirty w"
        using a f False snap that unfolding agrees_def by blast
      moreover have "ce_expiresAt (entry_of env r) \<le> w_now w + longest_life (we_config env)"
        using next_expiry_bounded [OF cfg env(2,3)] env(1) by (simp add: entry_of_def)
      ultimately show "(fl_key f \<notin> w_dirty w \<longrightarrow> entry_current (w_db w) (w_now w) (fl_key f) (entry_of env r))
          \<and> ce_expiresAt (entry_of env r) \<le> w_now w + longest_life (we_config env)"
        using stored_current by blast
      show "cache_get (set_cache ?st env (fl_key f) r) k = Some e" using e p(1) by simp
    qed
    then have "\<forall>k e. cache_get ?st' k = Some e \<longrightarrow> k \<notin> w_dirty w \<longrightarrow> entry_current (w_db w) (w_now w) k e" by blast
    then have "agrees (w\<lparr>w_st := ?st', w_snap := (w_snap w)(fid := None)\<rparr>)"
      using flights snaps by (rule agrees_state_snapI)
    moreover have "lives_bounded (we_config env) (w\<lparr>w_st := ?st', w_snap := (w_snap w)(fid := None)\<rparr>)"
      using entries by (simp add: lives_bounded_def)
    moreover have "0 < cc_maxEntries (we_config env)" using cfg by (simp add: config_ok_def)
    ultimately show ?thesis
      using p cache_ok_set_cache [OF co, of env "fl_key f" r] length_set_cache [OF len, of "fl_key f" r]
        flights_ok_load_done [OF fl, of env fid r] by (simp add: world_ok_def)
  qed
qed

lemma agreesD:
  assumes "world_ok cfg w"
  shows "\<forall>k e. cache_get (w_st w) k = Some e \<longrightarrow> k \<notin> w_dirty w \<longrightarrow> entry_current (w_db w) (w_now w) k e"
    "\<forall>fid f r. cs_flights (w_st w) fid = Some f \<longrightarrow> \<not> fl_stale f \<longrightarrow> w_snap w fid = Some r \<longrightarrow> fl_key f \<notin> w_dirty w \<longrightarrow>
      load_current (w_db w) (w_now w) (fl_key f) r"
    "\<forall>fid. w_snap w fid \<noteq> None \<longrightarrow> cs_flights (w_st w) fid \<noteq> None"
  using assms unfolding world_ok_def agrees_def by blast+

lemma same_entries_lives:
  assumes "world_ok cfg w" "cache_get st = cache_get (w_st w)"
  shows "lives_bounded cfg (w\<lparr>w_st := st\<rparr>)" "lives_bounded cfg (w\<lparr>w_st := st, w_snap := sn\<rparr>)"
  using assms by (simp_all add: world_ok_def lives_bounded_def)

lemma same_parts_world_ok:
  assumes "world_ok cfg w" "cs_cache st = cs_cache (w_st w)" "cs_urlIndex st = cs_urlIndex (w_st w)" "cs_hostIndex st = cs_hostIndex (w_st w)"
    "cs_flights st = cs_flights (w_st w)" "cs_inflight st = cs_inflight (w_st w)" "cs_next st = cs_next (w_st w)"
  shows "world_ok cfg (w\<lparr>w_st := st\<rparr>)"
proof -
  note p = same_parts_ok [OF assms(2-7)]
  have "agrees (w\<lparr>w_st := st, w_snap := w_snap w\<rparr>)"
    by (rule agrees_state_snapI; unfold p assms(5)) (rule agreesD [OF assms(1)])+
  then show ?thesis using assms(1,2) p same_entries_lives(1) [OF assms(1) p(3)] by (simp add: world_ok_def)
qed

lemma world_ok_read:
  assumes ok: "world_ok cfg w" and r: "read_begin (w_st w) k now = (st, r)"
  shows "world_ok cfg (w\<lparr>w_st := st\<rparr>)"
proof -
  have "world_ok cfg (w\<lparr>w_st := count_hit (w_st w)\<rparr>)" "world_ok cfg (w\<lparr>w_st := count_coalesced (w_st w)\<rparr>)"
    by (rule same_parts_world_ok [OF ok]; simp add: count_hit_def count_coalesced_def)+
  moreover have "world_ok cfg (w\<lparr>w_st := start_flight (w_st w) k\<rparr>)" if n: "cs_inflight (w_st w) k = None"
  proof -
    let ?st = "start_flight (w_st w) k"
    have fl: "flights_ok (w_st w)" and a: "agrees w" using ok by (auto simp: world_ok_def)
    have next_free: "cs_flights (w_st w) (cs_next (w_st w)) = None" using fl by (simp add: flights_ok_def)
    then have snap: "w_snap w (cs_next (w_st w)) = None" using a unfolding agrees_def by blast
    have parts: "cache_get ?st = cache_get (w_st w)"
      "cs_flights ?st = (cs_flights (w_st w))(cs_next (w_st w) \<mapsto> \<lparr>fl_key = k, fl_stale = False\<rparr>)"
      by (auto simp: start_flight_def cache_get_def)
    have "agrees (w\<lparr>w_st := ?st, w_snap := w_snap w\<rparr>)"
    proof (rule agrees_state_snapI; unfold parts)
      show "\<forall>k e. cache_get (w_st w) k = Some e \<longrightarrow> k \<notin> w_dirty w \<longrightarrow> entry_current (w_db w) (w_now w) k e"
        using a unfolding agrees_def by blast
      show "\<forall>fid f r. ((cs_flights (w_st w))(cs_next (w_st w) \<mapsto> \<lparr>fl_key = k, fl_stale = False\<rparr>)) fid = Some f \<longrightarrow> \<not> fl_stale f \<longrightarrow>
          w_snap w fid = Some r \<longrightarrow> fl_key f \<notin> w_dirty w \<longrightarrow> load_current (w_db w) (w_now w) (fl_key f) r"
        using a snap unfolding agrees_def by (metis fun_upd_other option.distinct(1))
      show "\<forall>fid. w_snap w fid \<noteq> None \<longrightarrow> ((cs_flights (w_st w))(cs_next (w_st w) \<mapsto> \<lparr>fl_key = k, fl_stale = False\<rparr>)) fid \<noteq> None"
        using a unfolding agrees_def by (metis fun_upd_apply option.distinct(1))
    qed
    moreover have "flights_ok ?st" by (rule flights_ok_start [OF fl n])
    moreover have "cache_ok ?st = cache_ok (w_st w)" by (rule cache_ok_same) (simp_all add: start_flight_def)
    moreover have "cs_cache ?st = cs_cache (w_st w)" by (simp add: start_flight_def)
    ultimately show ?thesis using ok same_entries_lives(1) [OF ok parts(1)] by (simp add: world_ok_def)
  qed
  ultimately show ?thesis using r by (auto simp: read_begin_def split: option.splits if_splits)
qed

lemma world_ok_evict:
  assumes ok: "world_ok cfg w" and st: "st = (w_st w)\<lparr>cs_stats := stats\<rparr>"
  shows "world_ok cfg (w\<lparr>w_st := evict_local st t, w_dirty := w_dirty w - reached_keys (w_st w) t\<rparr>)"
proof -
  have ok': "world_ok cfg (w\<lparr>w_st := st\<rparr>)" by (rule same_parts_world_ok [OF ok]) (simp_all add: st)
  have parts: "flights_ok st" "cache_ok st" using ok' by (simp_all add: world_ok_def)
  have "reached_keys st t = reached_keys (w_st w) t" by (rule same_parts_ok) (simp_all add: st)
  then show ?thesis
    using world_ok_remove [OF ok', of "reached_keys st t" "evict_local st t"] removes_evict_local [OF parts, of t]
      length_removes_evict [of st t] by simp
qed

lemma world_step_ok:
  assumes "world_step cfg w w'" "world_ok cfg w" "config_ok cfg"
  shows "world_ok cfg w'"
  using assms
proof (induction rule: world_step.induct)
  case (Tick w t)
  have "agrees (w\<lparr>w_now := t\<rparr>)"
    using Tick current_later [OF Tick(1)] unfolding world_ok_def agrees_def by simp
  moreover have "lives_bounded cfg (w\<lparr>w_now := t\<rparr>)"
    using Tick unfolding world_ok_def lives_bounded_def by fastforce
  ultimately show ?case using Tick by (simp add: world_ok_def)
next
  case (Read w k st r)
  then show ?case by (intro world_ok_read)
next
  case (Query w fid f)
  note a = agreesD [OF Query(3)]
  have "agrees (w\<lparr>w_st := w_st w, w_snap := (w_snap w)(fid \<mapsto> load_key (w_db w) (fl_key f) (w_now w))\<rparr>)"
  proof (rule agrees_state_snapI [OF a(1)])
    show "\<forall>i g r. cs_flights (w_st w) i = Some g \<longrightarrow> \<not> fl_stale g \<longrightarrow> ((w_snap w)(fid \<mapsto> load_key (w_db w) (fl_key f) (w_now w))) i = Some r \<longrightarrow>
        fl_key g \<notin> w_dirty w \<longrightarrow> load_current (w_db w) (w_now w) (fl_key g) r"
      using a(2) Query(1) query_current by (metis fun_upd_apply option.inject)
    show "\<forall>i. ((w_snap w)(fid \<mapsto> load_key (w_db w) (fl_key f) (w_now w))) i \<noteq> None \<longrightarrow> cs_flights (w_st w) i \<noteq> None"
      using a(3) Query(1) by (metis fun_upd_apply option.distinct(1))
  qed
  then show ?case using Query by (simp add: world_ok_def lives_bounded_def)
next
  case (Loaded w fid r env)
  then show ?case using world_ok_loaded by blast
next
  case (Load_failed w fid)
  show ?case
  proof (cases "cs_flights (w_st w) fid")
    case None
    then have "w_snap w fid = None" using Load_failed unfolding world_ok_def agrees_def by blast
    then have "(w_snap w)(fid := None) = w_snap w" by auto
    then show ?thesis using Load_failed None by (simp add: load_failed_def)
  next
    case (Some f)
    let ?st = "load_failed (w_st w) fid"
    have e: "?st = finish_flight (w_st w) fid (fl_key f)" using Some by (simp add: load_failed_def)
    have parts: "cache_get ?st = cache_get (w_st w)" "cs_flights ?st = (cs_flights (w_st w))(fid := None)"
      unfolding e by (auto simp: finish_flight_def cache_get_def)
    have "agrees (w\<lparr>w_st := ?st, w_snap := (w_snap w)(fid := None)\<rparr>)"
    proof (rule agrees_state_snapI; unfold parts)
      note a = agreesD [OF Load_failed(1)]
      show "\<forall>k e. cache_get (w_st w) k = Some e \<longrightarrow> k \<notin> w_dirty w \<longrightarrow> entry_current (w_db w) (w_now w) k e" by (rule a(1))
      show "\<forall>i g r. ((cs_flights (w_st w))(fid := None)) i = Some g \<longrightarrow> \<not> fl_stale g \<longrightarrow> ((w_snap w)(fid := None)) i = Some r \<longrightarrow>
          fl_key g \<notin> w_dirty w \<longrightarrow> load_current (w_db w) (w_now w) (fl_key g) r"
        using a(2) by (metis fun_upd_apply option.distinct(1))
      show "\<forall>i. ((w_snap w)(fid := None)) i \<noteq> None \<longrightarrow> ((cs_flights (w_st w))(fid := None)) i \<noteq> None"
        using a(3) by (metis fun_upd_apply)
    qed
    moreover have "cache_ok ?st = cache_ok (w_st w)" unfolding e by (rule cache_ok_same) (simp_all add: finish_flight_def)
    moreover have "cs_cache ?st = cs_cache (w_st w)" unfolding e by (simp add: finish_flight_def)
    ultimately show ?thesis
      using Load_failed flights_ok_load_failed [of "w_st w" fid] same_entries_lives(2) [OF Load_failed(1) parts(1)] by (simp add: world_ok_def)
  qed
next
  case (Mutate w db)
  note a = agreesD [OF Mutate(1)]
  have "agrees (w\<lparr>w_db := db, w_dirty := w_dirty w \<union> changed_keys (w_db w) db (w_now w)\<rparr>)"
    unfolding agrees_def using a current_unchanged by auto
  then show ?case using Mutate by (simp add: world_ok_def lives_bounded_def)
next
  case (Invalidate w t)
  then show ?case unfolding invalidate_local_def by (intro world_ok_evict) auto
next
  case (Message w t)
  then show ?case unfolding on_message_def by (intro world_ok_evict) auto
next
  case (Flush w)
  have fl: "flights_ok (w_st w)" using Flush by (simp add: world_ok_def)
  have "flights_ok (flush_all (w_st w))" using fl by (auto simp: flights_ok_def flush_all_def split: option.splits if_splits)
  moreover have "cache_ok (flush_all (w_st w))"
    by (simp add: cache_ok_def flush_all_def index_ok_def index_keys_def index_wf_def coalesce_def cache_get_def)
  ultimately show ?case
    using world_ok_remove [OF Flush(1) removes_flush [OF fl]] by (simp add: flush_all_def)
qed

lemma world_reach_ok:
  assumes "world_reach cfg w" "config_ok cfg"
  shows "world_ok cfg w"
  using assms
proof (induction)
  case (init db t)
  show ?case
    by (simp add: world_ok_def agrees_def flights_ok_def cache_ok_def index_ok_def index_wf_def index_keys_def
        coalesce_def empty_cache_def cache_get_def lives_bounded_def)
next
  case (step w w')
  then show ?case by (simp add: world_step_ok)
qed

section \<open>Properties\<close>

text \<open>The configuration read from the environment is in range whatever the variables hold.\<close>

lemma env_ms_range:
  assumes "mn \<le> fallback" "fallback \<le> mx"
  shows "mn \<le> env_ms var fallback mn mx" "env_ms var fallback mn mx \<le> mx"
  using assms by (auto simp: env_ms_def le_floor_iff floor_le_iff less_add_one intro: le_less_trans split: option.split)

lemma cache_config_ok: "config_ok (cache_config_of vars)"
  using env_ms_range [of 500 5000 60000 "vars ''QL_LINK_CACHE_TTL_MS''"] env_ms_range [of 1000 60000 900000 "vars ''QL_LINK_CACHE_BUS_TTL_MS''"]
    env_ms_range [of 100 10000 1000000 "vars ''QL_LINK_CACHE_MAX_ENTRIES''"]
  by (simp add: config_ok_def cache_config_of_def)

lemma longest_life_bound: "longest_life (cache_config_of vars) \<le> 1170000"
  using env_ms_range [of 500 5000 60000 "vars ''QL_LINK_CACHE_TTL_MS''"] env_ms_range [of 1000 60000 900000 "vars ''QL_LINK_CACHE_BUS_TTL_MS''"]
  by (simp add: longest_life_def cache_config_of_def Let_def)

text \<open>
  C18: The cache is well-formed in every reachable state, whatever the environment variables hold: a
  key has one entry, there are at most the configured number, each reverse index lists exactly the
  cached keys of its link or host, a load is registered exactly while its result may still be
  written, and no entry expires later than the longer of the two times to live plus its jitter of
  three tenths from now, which is at most 19.5 minutes.
\<close>

theorem cache_wellformed:
  assumes "world_reach (cache_config_of vars) w"
  shows "distinct (map fst (cs_cache (w_st w))) \<and> length (cs_cache (w_st w)) \<le> cc_maxEntries (cache_config_of vars)
    \<and> set (coalesce (cs_urlIndex (w_st w) i) []) = keys_of_id (w_st w) i
    \<and> set (coalesce (cs_hostIndex (w_st w) h) []) = keys_of_host (w_st w) h
    \<and> (cs_inflight (w_st w) k = Some fid \<longleftrightarrow> cs_flights (w_st w) fid = Some \<lparr>fl_key = k, fl_stale = False\<rparr>)
    \<and> (\<forall>key e. cache_get (w_st w) key = Some e \<longrightarrow> ce_expiresAt e \<le> w_now w + longest_life (cache_config_of vars))
    \<and> longest_life (cache_config_of vars) \<le> 1170000"
proof -
  have ok: "flights_ok (w_st w)" "cache_ok (w_st w)" "length (cs_cache (w_st w)) \<le> cc_maxEntries (cache_config_of vars)"
    "lives_bounded (cache_config_of vars) w"
    using world_reach_ok [OF assms cache_config_ok] by (simp_all add: world_ok_def)
  have "cs_inflight (w_st w) k = Some fid \<longleftrightarrow> cs_flights (w_st w) fid = Some \<lparr>fl_key = k, fl_stale = False\<rparr>"
  proof
    assume "cs_inflight (w_st w) k = Some fid"
    then obtain f where "cs_flights (w_st w) fid = Some f" "fl_key f = k" "\<not> fl_stale f"
      using ok(1) by (auto simp: flights_ok_def)
    then show "cs_flights (w_st w) fid = Some \<lparr>fl_key = k, fl_stale = False\<rparr>" by (cases f) simp
  next
    assume "cs_flights (w_st w) fid = Some \<lparr>fl_key = k, fl_stale = False\<rparr>"
    then show "cs_inflight (w_st w) k = Some fid" using ok(1) by (fastforce simp: flights_ok_def)
  qed
  moreover have "\<forall>key e. cache_get (w_st w) key = Some e \<longrightarrow> ce_expiresAt e \<le> w_now w + longest_life (cache_config_of vars)"
    using ok(4) unfolding lives_bounded_def .
  ultimately show ?thesis using ok(1-3) index_keys_cached [OF ok(2)] longest_life_bound unfolding cache_ok_def by blast
qed

text \<open>
  C6: A read is current.  Take any reachable state, whatever reads, loads, failures, writes, local and
  remote invalidations, flushes and passing of time came before, and any key but those for which a
  write changed what their loader returns without a later invalidation that reached the key.  A hit
  then returns what the loader of the key would return at this very moment, also for a revision whose
  successor was scheduled ahead of time; and a read that joins a load in flight joins one that has
  not read yet, or has read what its loader returns until the change the load announced.
\<close>

theorem cache_read_current:
  assumes reach: "world_reach (cache_config_of vars) w" and clean: "k \<notin> w_dirty w"
    and read: "read_begin (w_st w) k (w_now w) = (st, r)"
  shows "case r of
      Hit v \<Rightarrow> v = lr_value (load_key (w_db w) k (w_now w))
    | Joined fid \<Rightarrow> (case w_snap w fid of None \<Rightarrow> True
        | Some l \<Rightarrow> \<forall>t\<ge>w_now w. before_change (lr_notAfter l) t \<longrightarrow> lr_value l = lr_value (load_key (w_db w) k t))
    | Started fid \<Rightarrow> w_snap w fid = None"
proof -
  have ok: "flights_ok (w_st w)" "agrees w" using world_reach_ok [OF reach cache_config_ok] by (simp_all add: world_ok_def)
  have hit: "ce_value e = lr_value (load_key (w_db w) k (w_now w))" if "cache_get (w_st w) k = Some e" "w_now w < ce_expiresAt e" for e
    using ok(2) that clean unfolding agrees_def entry_current_def by blast
  have join: "load_current (w_db w) (w_now w) k l" if i: "cs_inflight (w_st w) k = Some fid" and l: "w_snap w fid = Some l" for fid l
  proof -
    obtain f where "cs_flights (w_st w) fid = Some f" "fl_key f = k" "\<not> fl_stale f"
      using ok(1) i by (auto simp: flights_ok_def)
    then show ?thesis using ok(2) l clean unfolding agrees_def by blast
  qed
  have started: "w_snap w (cs_next (w_st w)) = None"
    using ok unfolding agrees_def flights_ok_def by blast
  consider e where "cache_get (w_st w) k = Some e" "w_now w < ce_expiresAt e" "r = Hit (ce_value e)"
    | fid where "cs_inflight (w_st w) k = Some fid" "r = Joined fid" | "r = Started (cs_next (w_st w))"
    using read by (auto simp: read_begin_def split: option.splits if_splits)
  then show ?thesis
  proof cases
    case 1
    then show ?thesis using hit by simp
  next
    case (2 fid)
    show ?thesis
    proof (cases "w_snap w fid")
      case (Some l)
      then show ?thesis using 2(2) join [OF 2(1) Some] by (simp add: load_current_def)
    qed (simp add: 2)
  next
    case 3
    then show ?thesis using started by simp
  qed
qed

text \<open>
  C17: An invalidation of a link reaches its short code, its revision and every key that is cached as
  resolved to it, custom-domain paths included.  After \<open>invalidateLink\<close> no entry is cached under any
  of these keys, no other entry resolves to the link, and no load under any of them that began
  before will be written.
\<close>

theorem invalidate_link_evicts:
  fixes shortCode urlId :: string
  assumes reach: "world_reach (cache_config_of vars) w" and ident: "urlId \<noteq> []"
  defines "st \<equiv> invalidate_local (w_st w) (link_targets shortCode (Some urlId))"
    and "K \<equiv> {code_key shortCode, revision_key urlId} \<union> keys_of_id (w_st w) urlId"
  shows "(\<forall>k \<in> K. cache_get st k = None) \<and> keys_of_id st urlId = {}
    \<and> (\<forall>fid f. cs_flights st fid = Some f \<longrightarrow> fl_key f \<in> K \<longrightarrow> fl_stale f) \<and> (\<forall>k \<in> K. cs_inflight st k = None)"
proof -
  let ?t = "link_targets shortCode (Some urlId)"
  let ?st = "(w_st w)\<lparr>cs_stats := (cs_stats (w_st w))\<lparr>st_localInvalidations := st_localInvalidations (cs_stats (w_st w)) + 1\<rparr>\<rparr>"
  have ok: "flights_ok (w_st w)" "cache_ok (w_st w)" using world_reach_ok [OF reach cache_config_ok] by (simp_all add: world_ok_def)
  have p: "flights_ok ?st = flights_ok (w_st w)" "cache_ok ?st = cache_ok (w_st w)" "cache_get ?st = cache_get (w_st w)"
    by (rule same_parts_ok; simp)+
  have r: "removes (reached_keys ?st ?t) ?st st" and fl: "flights_ok st"
    using removes_evict_local [of ?st ?t] ok p by (simp_all add: st_def invalidate_local_def)
  have tr: "str_truthy (Some urlId)" using ident by (simp add: str_truthy_iff)
  have "reached_keys ?st ?t = reached_keys (w_st w) ?t" by (rule same_parts_ok) simp_all
  also have "\<dots> = K" using tr by (auto simp: reached_keys_def link_targets_def coalesce_def K_def)
  finally have K: "reached_keys ?st ?t = K" .
  have stale: "fl_stale f" if "cs_flights st fid = Some f" "fl_key f \<in> K" for fid f
    using r that unfolding removes_def K by blast
  have "cs_inflight st k = None" if "k \<in> K" for k
    using fl that stale unfolding flights_ok_def by (metis option.exhaust)
  moreover have got: "cache_get st k = (if k \<in> K then None else cache_get (w_st w) k)" for k
    using r unfolding removes_def K p(3) by blast
  moreover have "keys_of_id st urlId = {}" unfolding keys_of_id_def got by (auto simp: K_def keys_of_id_def)
  ultimately show ?thesis using stale by simp
qed

text \<open>A run: the first read of a short code starts a load, which reads its row and is cached.\<close>

definition sample_config :: cache_config where
  "sample_config = cache_config_of Map.empty"

lemma sample_config_values: "sample_config = \<lparr>cc_shortTtl = 5000, cc_busTtl = 60000, cc_maxEntries = 10000\<rparr>"
  by (simp add: sample_config_def cache_config_of_def env_ms_def)

definition sample_env :: "js_date \<Rightarrow> write_env" where
  "sample_env t = \<lparr>we_config = sample_config, we_connected = False, we_now = t, we_random = 1 / 2\<rparr>"

definition loaded_world :: link_world where
  "loaded_world = \<lparr>w_st = load_done (fst (read_begin empty_cache ''rev:u'' 100)) (sample_env 100) 0 (load_key sample_revisions ''rev:u'' 100),
     w_db = sample_revisions, w_now = 100, w_snap = Map.empty, w_dirty = {}\<rparr>"

lemma loaded_world_reach: "world_reach sample_config loaded_world"
proof -
  let ?w0 = "\<lparr>w_st = empty_cache, w_db = sample_revisions, w_now = 100, w_snap = Map.empty, w_dirty = {}\<rparr>"
  let ?st = "fst (read_begin empty_cache ''rev:u'' 100 :: cache_value cache_state \<times> cache_value read_result)"
  let ?w1 = "?w0\<lparr>w_st := ?st\<rparr>"
  let ?w2 = "?w1\<lparr>w_snap := (w_snap ?w1)(0 \<mapsto> load_key (w_db ?w1) ''rev:u'' (w_now ?w1))\<rparr>"
  have st: "?st = start_flight empty_cache ''rev:u''" by (simp add: read_begin_def empty_cache_def cache_get_def)
  have fl: "cs_flights ?st 0 = Some \<lparr>fl_key = ''rev:u'', fl_stale = False\<rparr>" unfolding st by (simp add: start_flight_def empty_cache_def)
  have "world_reach sample_config ?w0" by (rule world_reach.init)
  moreover have "world_step sample_config ?w0 ?w1"
    using Read [of ?w0 "''rev:u''" ?st "snd (read_begin empty_cache ''rev:u'' 100)" sample_config] by simp
  moreover have "world_step sample_config ?w1 ?w2"
    using Query [of ?w1 0 "\<lparr>fl_key = ''rev:u'', fl_stale = False\<rparr>" sample_config] fl by simp
  moreover have "world_step sample_config ?w2 loaded_world"
  proof -
    have e: "(Map.empty(0 \<mapsto> x))(0 := None) = Map.empty" for x :: "cache_value load_result" by auto
    show ?thesis
      using Loaded [of ?w2 0 "load_key sample_revisions ''rev:u'' 100" "sample_env 100" sample_config] e
      by (simp add: loaded_world_def sample_env_def)
  qed
  ultimately show ?thesis by (meson world_reach.step)
qed

lemma loaded_world_run: "world_reach (cache_config_of Map.empty) loaded_world"
  using loaded_world_reach by (simp add: sample_config_def)

theorem cache_wellformed_witness:
  "set (coalesce (cs_urlIndex (w_st loaded_world) ''u'') []) = {''rev:u''}"
proof -
  have "cs_cache (w_st loaded_world) = [(''rev:u'', entry_of (sample_env 100) (load_key sample_revisions ''rev:u'' 100))]"
    by (simp add: loaded_world_def load_done_def read_begin_def empty_cache_def cache_get_def start_flight_def
        set_cache_def make_room_def finish_flight_def sample_env_def sample_config_values entry_of_def Let_def)
  moreover have urlId: "ce_urlId (entry_of (sample_env 100) (load_key sample_revisions ''rev:u'' 100)) = Some ''u''"
    by (simp add: entry_of_def load_key_def load_latest_revision_def)
  ultimately have "cache_get (w_st loaded_world) k = (if k = ''rev:u'' then Some (entry_of (sample_env 100) (load_key sample_revisions ''rev:u'' 100)) else None)" for k
    by (simp add: cache_get_def)
  with urlId have "keys_of_id (w_st loaded_world) ''u'' = {''rev:u''}" by (simp add: keys_of_id_def)
  then show ?thesis using cache_wellformed [OF loaded_world_run, of "''u''", THEN conjunct2, THEN conjunct2, THEN conjunct1] by simp
qed

text \<open>The entry ends when the next revision takes effect, so a read at that time loads again.\<close>

theorem cache_read_current_witness:
  "snd (read_begin (w_st loaded_world) ''rev:u'' (w_now loaded_world)) = Hit (CachedRevision (Some ''https://a.example/''))"
proof -
  obtain st r where r: "read_begin (w_st loaded_world) ''rev:u'' (w_now loaded_world) = (st, r)" by fastforce
  have "case snd (read_begin (w_st loaded_world) ''rev:u'' (w_now loaded_world)) of Hit _ \<Rightarrow> True | _ \<Rightarrow> False" by code_simp
  then obtain v where v: "r = Hit v" using r by (cases r) auto
  have "''rev:u'' \<notin> w_dirty loaded_world" by (simp add: loaded_world_def)
  from cache_read_current [OF loaded_world_run this r] v
  have "v = lr_value (load_key (w_db loaded_world) ''rev:u'' (w_now loaded_world))" by simp
  also have "\<dots> = CachedRevision (Some ''https://a.example/'')"
    by (simp add: loaded_world_def load_key_def load_latest_revision_def current_revision_def revisions_of_def sample_revisions_def)
  finally show ?thesis using r v by simp
qed

lemma scheduled_revision_not_served: "case snd (read_begin (w_st loaded_world) ''rev:u'' 900) of Started _ \<Rightarrow> True | _ \<Rightarrow> False"
  by code_simp

theorem invalidate_link_evicts_witness:
  "cache_get (invalidate_local (w_st loaded_world) (link_targets ''a'' (Some ''u''))) (revision_key ''u'') = None"
  using invalidate_link_evicts [OF loaded_world_run, of "''u''" "''a''"] by blast

text \<open>
  A load of a custom-domain path that starts before the link is invalidated is not reached:
  its key is in no index until it is cached, so the outdated row it read is written and
  served although \<open>invalidateLink\<close> ran after the change.
\<close>

lemma domain_load_outlives_invalidation:
  "let k = domain_key ''go.x'' ''/a'';
       old = \<lparr>lr_value = ''old'', lr_urlId = Some ''id'', lr_host = Some ''go.x'', lr_notAfter = None\<rparr>;
       st1 = fst (read_begin empty_cache k 0);
       st2 = invalidate_local st1 (link_targets ''a'' (Some ''id''));
       st3 = load_done st2 (sample_env 0) 0 old
   in snd (read_begin st3 k 1) = Hit ''old''"
  by code_simp

end
