(* ===== verification/Idempotency.thy ===== *)
theory Idempotency
  imports JsonText
begin

text \<open>
  Idempotency keys (\<open>src/lib/idempotency.ts\<close>): claiming a key before the work, replaying a
  stored response, releasing a claim whose operation failed.  A request is split at its
  awaits: the lookup, the decision with the clock read after it, the claiming statement, the
  storing of the response and the clean-up.  The hash is a parameter.
\<close>

section \<open>Rows\<close>

record idem_row =
  ir_method :: string
  ir_path :: string
  ir_requestHash :: string
  ir_status :: int
  ir_response :: string
  ir_expiresAt :: js_date

type_synonym idem_key = "string \<times> string"
type_synonym idem_table = "idem_key \<Rightarrow> idem_row option"

definition IDEMPOTENCY_PENDING_TTL_MS :: int where "IDEMPOTENCY_PENDING_TTL_MS = 30000"

definition STORED_TTL_MS :: int where "STORED_TTL_MS = 24 * 60 * 60 * 1000"

definition IDEMPOTENCY_IN_PROGRESS_MESSAGE :: string where
  "IDEMPOTENCY_IN_PROGRESS_MESSAGE = ''Idempotency-Key request is still in progress; retry shortly''"

definition REUSED_MESSAGE :: string where
  "REUSED_MESSAGE = ''Idempotency-Key was reused with a different request''"

record idem_request =
  iq_workspaceId :: string
  iq_header :: "string option"
  iq_method :: string
  iq_path :: string
  iq_body :: "json option"

definition request_hash :: "(string \<Rightarrow> string) \<Rightarrow> json option \<Rightarrow> string" where
  "request_hash sha body = sha (json_text (coalesce body JNull))"

section \<open>Deciding\<close>

text \<open>The key of a request: none, refused, or its trimmed text.\<close>

definition idem_header :: "idem_request \<Rightarrow> string option thrown" where
  "idem_header rq = (case iq_header rq of None \<Rightarrow> Inr None
     | Some h \<Rightarrow> (let key = trim h in
         if key = [] then Inr None
         else if length key < 8 \<or> length key > 255 then Inl ''Invalid Idempotency-Key''
         else Inr (Some key)))"

definition row_key :: "(string \<Rightarrow> string) \<Rightarrow> idem_request \<Rightarrow> idem_key" where
  "row_key sha rq = (iq_workspaceId rq, (case idem_header rq of Inr (Some key) \<Rightarrow> sha key | _ \<Rightarrow> sha []))"

datatype idem_decision = TryCreate | TryTake | RefuseWith string | ReplayRow idem_row

definition idem_decide :: "(string \<Rightarrow> string) \<Rightarrow> idem_request \<Rightarrow> idem_row option \<Rightarrow> js_date \<Rightarrow> idem_decision" where
  "idem_decide sha rq existing now = (case existing of
       None \<Rightarrow> TryCreate
     | Some e \<Rightarrow>
        if ir_expiresAt e \<le> now then TryTake
        else if ir_status e = 0 then RefuseWith IDEMPOTENCY_IN_PROGRESS_MESSAGE
        else if ir_method e \<noteq> iq_method rq \<or> ir_path e \<noteq> iq_path rq then RefuseWith REUSED_MESSAGE
        else if ir_requestHash e \<noteq> request_hash sha (iq_body rq) then RefuseWith REUSED_MESSAGE
        else ReplayRow e)"

definition pending_row :: "(string \<Rightarrow> string) \<Rightarrow> idem_request \<Rightarrow> js_date \<Rightarrow> idem_row" where
  "pending_row sha rq now = \<lparr>ir_method = iq_method rq, ir_path = iq_path rq, ir_requestHash = request_hash sha (iq_body rq),
     ir_status = 0, ir_response = [], ir_expiresAt = now + IDEMPOTENCY_PENDING_TTL_MS\<rparr>"

text \<open>The claiming statement: an insert that fails on a duplicate key, or a conditional update.\<close>

definition idem_claim :: "(string \<Rightarrow> string) \<Rightarrow> idem_table \<Rightarrow> idem_request \<Rightarrow> idem_decision \<Rightarrow> js_date \<Rightarrow> idem_table \<times> bool" where
  "idem_claim sha t rq d now =
     (let k = row_key sha rq; row = pending_row sha rq now
      in (case d of
           TryCreate \<Rightarrow> (case t k of None \<Rightarrow> (t(k \<mapsto> row), True) | Some _ \<Rightarrow> (t, False))
         | TryTake \<Rightarrow> (case t k of
             Some e \<Rightarrow> if ir_expiresAt e \<le> now then (t(k \<mapsto> row), True) else (t, False)
           | None \<Rightarrow> (t, False))
         | _ \<Rightarrow> (t, False)))"

definition stored_row :: "(string \<Rightarrow> string) \<Rightarrow> idem_request \<Rightarrow> int \<Rightarrow> json \<Rightarrow> js_date \<Rightarrow> idem_row" where
  "stored_row sha rq status body now = \<lparr>ir_method = iq_method rq, ir_path = iq_path rq, ir_requestHash = request_hash sha (iq_body rq),
     ir_status = status, ir_response = json_text body, ir_expiresAt = now + STORED_TTL_MS\<rparr>"

definition store_idempotent_response :: "idem_table \<Rightarrow> idem_key \<Rightarrow> idem_row \<Rightarrow> idem_table" where
  "store_idempotent_response t k row = t(k \<mapsto> row)"

definition release_idempotency_claim :: "idem_table \<Rightarrow> idem_key \<Rightarrow> idem_table" where
  "release_idempotency_claim t k = (case t k of
       Some e \<Rightarrow> if ir_status e = 0 then t(k := None) else t
     | None \<Rightarrow> t)"

section \<open>Requests in flight\<close>

datatype idem_outcome = Unkeyed | Refused string | Replayed idem_row | Finished

datatype idem_phase =
    Arrived
  | Found "idem_row option"
  | Claiming idem_decision js_date
  | Running js_date
  | Answered js_date
  | Done idem_outcome

record idem_flight =
  if_request :: idem_request
  if_phase :: idem_phase

record idem_world =
  iw_table :: idem_table
  iw_clock :: js_date
  iw_flights :: "idem_flight list"
  iw_stored :: "(idem_key \<times> idem_row) list"

definition idem_arrive :: "idem_table \<Rightarrow> (string \<Rightarrow> string) \<Rightarrow> idem_request \<Rightarrow> idem_phase" where
  "idem_arrive t sha rq = (case idem_header rq of
       Inl e \<Rightarrow> Done (Refused e)
     | Inr None \<Rightarrow> Done Unkeyed
     | Inr (Some _) \<Rightarrow> Found (t (row_key sha rq)))"

definition idem_resume :: "(string \<Rightarrow> string) \<Rightarrow> idem_request \<Rightarrow> idem_row option \<Rightarrow> js_date \<Rightarrow> idem_phase" where
  "idem_resume sha rq existing now = (case idem_decide sha rq existing now of
       RefuseWith e \<Rightarrow> Done (Refused e) | ReplayRow e \<Rightarrow> Done (Replayed e) | d \<Rightarrow> Claiming d now)"

text \<open>The instant a flight has claimed or is claiming with.\<close>

fun claim_time :: "idem_phase \<Rightarrow> js_date option" where
  "claim_time (Claiming _ t) = Some t"
| "claim_time (Running t) = Some t"
| "claim_time (Answered t) = Some t"
| "claim_time _ = None"

definition set_flight :: "idem_world \<Rightarrow> nat \<Rightarrow> idem_phase \<Rightarrow> idem_world" where
  "set_flight w i p = w\<lparr>iw_flights := (iw_flights w)[i := (iw_flights w ! i)\<lparr>if_phase := p\<rparr>]\<rparr>"

abbreviation flight_at :: "idem_world \<Rightarrow> nat \<Rightarrow> idem_phase \<Rightarrow> bool" where
  "flight_at w i p \<equiv> i < length (iw_flights w) \<and> if_phase (iw_flights w ! i) = p"

text \<open>
  The steps.  The clock advances only while every claim is younger than the pending time: the
  handlers are prompt.
\<close>

inductive idem_step :: "(string \<Rightarrow> string) \<Rightarrow> idem_world \<Rightarrow> idem_world \<Rightarrow> bool" for sha where
  tick: "iw_clock w \<le> t \<Longrightarrow>
    (\<And>f c. f \<in> set (iw_flights w) \<Longrightarrow> claim_time (if_phase f) = Some c \<Longrightarrow> t < c + IDEMPOTENCY_PENDING_TTL_MS) \<Longrightarrow>
    idem_step sha w (w\<lparr>iw_clock := t\<rparr>)"
| request: "idem_step sha w (w\<lparr>iw_flights := iw_flights w @ [\<lparr>if_request = rq, if_phase = Arrived\<rparr>]\<rparr>)"
| lookup: "flight_at w i Arrived \<Longrightarrow>
    idem_step sha w (set_flight w i (idem_arrive (iw_table w) sha (if_request (iw_flights w ! i))))"
| resume: "flight_at w i (Found e) \<Longrightarrow>
    idem_step sha w (set_flight w i (idem_resume sha (if_request (iw_flights w ! i)) e (iw_clock w)))"
| claim: "flight_at w i (Claiming d c) \<Longrightarrow> idem_claim sha (iw_table w) (if_request (iw_flights w ! i)) d c = (t', ok) \<Longrightarrow>
    idem_step sha w ((set_flight w i (if ok then Running c else Done (Refused IDEMPOTENCY_IN_PROGRESS_MESSAGE)))\<lparr>iw_table := t'\<rparr>)"
| store: "flight_at w i (Running c) \<Longrightarrow> status \<noteq> 0 \<Longrightarrow> row = stored_row sha (if_request (iw_flights w ! i)) status body (iw_clock w) \<Longrightarrow>
    k = row_key sha (if_request (iw_flights w ! i)) \<Longrightarrow>
    idem_step sha w ((set_flight w i (Answered c))\<lparr>iw_table := store_idempotent_response (iw_table w) k row,
      iw_stored := (k, row) # iw_stored w\<rparr>)"
| cleanup: "flight_at w i (Running c) \<or> flight_at w i (Answered c) \<Longrightarrow>
    idem_step sha w ((set_flight w i (Done Finished))\<lparr>iw_table :=
      release_idempotency_claim (iw_table w) (row_key sha (if_request (iw_flights w ! i)))\<rparr>)"

inductive idem_reach :: "(string \<Rightarrow> string) \<Rightarrow> idem_world \<Rightarrow> bool" for sha where
  start: "idem_reach sha \<lparr>iw_table = Map.empty, iw_clock = t, iw_flights = [], iw_stored = []\<rparr>"
| step: "idem_reach sha w \<Longrightarrow> idem_step sha w w' \<Longrightarrow> idem_reach sha w'"

section \<open>One run at a time\<close>

text \<open>A flight that is doing the work of its key.\<close>

definition working :: "(string \<Rightarrow> string) \<Rightarrow> idem_key \<Rightarrow> idem_flight \<Rightarrow> bool" where
  "working sha k f = (row_key sha (if_request f) = k \<and> (case if_phase f of Running _ \<Rightarrow> True | Answered _ \<Rightarrow> True | _ \<Rightarrow> False))"

text \<open>What holds of one flight in a world.\<close>

definition flight_ok :: "(string \<Rightarrow> string) \<Rightarrow> idem_world \<Rightarrow> idem_flight \<Rightarrow> bool" where
  "flight_ok sha w f =
     (let rq = if_request f; k = row_key sha rq
      in (case claim_time (if_phase f) of None \<Rightarrow> True | Some c \<Rightarrow> c \<le> iw_clock w \<and> iw_clock w < c + IDEMPOTENCY_PENDING_TTL_MS) \<and>
         (case if_phase f of
            Running c \<Rightarrow> iw_table w k = Some (pending_row sha rq c)
          | Answered c \<Rightarrow> (\<exists>e. iw_table w k = Some e \<and> ir_status e \<noteq> 0 \<and> c + IDEMPOTENCY_PENDING_TTL_MS \<le> ir_expiresAt e)
          | Found (Some e) \<Rightarrow> ir_status e \<noteq> 0 \<longrightarrow> (k, e) \<in> set (iw_stored w)
          | Done (Replayed e) \<Rightarrow> (k, e) \<in> set (iw_stored w) \<and> ir_requestHash e = request_hash sha (iq_body rq) \<and>
              ir_method e = iq_method rq \<and> ir_path e = iq_path rq
          | _ \<Rightarrow> True))"

definition one_worker :: "(string \<Rightarrow> string) \<Rightarrow> idem_flight list \<Rightarrow> bool" where
  "one_worker sha fs \<longleftrightarrow> (\<forall>i < length fs. \<forall>j < length fs. \<forall>k. working sha k (fs ! i) \<and> working sha k (fs ! j) \<longrightarrow> i = j)"

definition idem_inv :: "(string \<Rightarrow> string) \<Rightarrow> idem_world \<Rightarrow> bool" where
  "idem_inv sha w \<longleftrightarrow> (\<forall>f \<in> set (iw_flights w). flight_ok sha w f) \<and>
     (\<forall>k e. iw_table w k = Some e \<and> ir_status e \<noteq> 0 \<longrightarrow> (k, e) \<in> set (iw_stored w)) \<and>
     one_worker sha (iw_flights w)"

lemma one_workerD: "one_worker sha fs \<Longrightarrow> i < length fs \<Longrightarrow> j < length fs \<Longrightarrow> working sha k (fs ! i) \<Longrightarrow> working sha k (fs ! j) \<Longrightarrow> i = j"
  unfolding one_worker_def by blast

lemma one_worker_append:
  assumes "one_worker sha fs" "\<And>k. \<not> working sha k f"
  shows "one_worker sha (fs @ [f])"
  using assms unfolding one_worker_def by (simp add: nth_append)

lemma one_worker_update:
  assumes one: "one_worker sha fs" and i: "i < length fs" and k: "\<And>j. working sha j f \<Longrightarrow> j = k"
    and alone: "\<And>j. working sha k f \<Longrightarrow> j < length fs \<Longrightarrow> j \<noteq> i \<Longrightarrow> \<not> working sha k (fs ! j)"
  shows "one_worker sha (fs[i := f])"
  unfolding one_worker_def
proof (intro allI impI)
  fix a b j assume a: "a < length (fs[i := f])" and b: "b < length (fs[i := f])"
    and w: "working sha j (fs[i := f] ! a) \<and> working sha j (fs[i := f] ! b)"
  have no: "\<not> (working sha j f \<and> c < length fs \<and> c \<noteq> i \<and> working sha j (fs ! c))" for c
    using k [of j] alone [of c] by blast
  consider "a = i" "b = i" | "a = i" "b \<noteq> i" | "a \<noteq> i" "b = i" | "a \<noteq> i" "b \<noteq> i" by blast
  then show "a = b"
  proof cases
    case 2 then show ?thesis using w no [of b] b i by simp
  next
    case 3 then show ?thesis using w no [of a] a i by simp
  next
    case 4 then show ?thesis using w a b one_workerD [OF one, of a b j] by simp
  qed simp
qed

lemma flight_ok_frame:
  assumes "flight_ok sha w f" "iw_clock w' = iw_clock w" "set (iw_stored w) \<subseteq> set (iw_stored w')"
    and "working sha k f \<Longrightarrow> iw_table w' k = iw_table w k" "k = row_key sha (if_request f)"
  shows "flight_ok sha w' f"
  using assms by (auto simp: flight_ok_def working_def Let_def split: idem_phase.splits option.splits idem_outcome.splits)

lemma idem_inv_update:
  assumes inv: "idem_inv sha w" and i: "i < length (iw_flights w)" and k: "k = row_key sha (if_request (iw_flights w ! i))"
    and w': "iw_flights w' = (iw_flights w)[i := (iw_flights w ! i)\<lparr>if_phase := p\<rparr>]" "iw_clock w' = iw_clock w"
    and stored: "set (iw_stored w) \<subseteq> set (iw_stored w')" and frame: "\<And>j. j \<noteq> k \<Longrightarrow> iw_table w' j = iw_table w j"
    and own: "flight_ok sha w' ((iw_flights w ! i)\<lparr>if_phase := p\<rparr>)"
    and tab: "\<And>e. iw_table w' k = Some e \<Longrightarrow> ir_status e \<noteq> 0 \<Longrightarrow> (k, e) \<in> set (iw_stored w')"
    and alone: "\<And>j. iw_table w' k \<noteq> iw_table w k \<or> working sha k ((iw_flights w ! i)\<lparr>if_phase := p\<rparr>) \<Longrightarrow>
      j < length (iw_flights w) \<Longrightarrow> j \<noteq> i \<Longrightarrow> \<not> working sha k (iw_flights w ! j)"
  shows "idem_inv sha w'"
proof -
  have other: "flight_ok sha w' (iw_flights w ! j)" if j: "j < length (iw_flights w)" "j \<noteq> i" for j
  proof (rule flight_ok_frame [where k = "row_key sha (if_request (iw_flights w ! j))"])
    show "flight_ok sha w (iw_flights w ! j)" using inv j by (simp add: idem_inv_def)
    show "iw_table w' (row_key sha (if_request (iw_flights w ! j))) = iw_table w (row_key sha (if_request (iw_flights w ! j)))"
      if "working sha (row_key sha (if_request (iw_flights w ! j))) (iw_flights w ! j)"
      using that frame alone j by metis
  qed (use w' stored in auto)
  have "\<forall>f \<in> set (iw_flights w'). flight_ok sha w' f"
    using w'(1) own other i by (auto simp: in_set_conv_nth nth_list_update)
  moreover have "(j, e) \<in> set (iw_stored w')" if "iw_table w' j = Some e" "ir_status e \<noteq> 0" for j e
  proof (cases "j = k")
    case False
    then have "(j, e) \<in> set (iw_stored w)" using that frame inv unfolding idem_inv_def by metis
    then show ?thesis using stored by blast
  qed (use that tab in simp)
  moreover have "one_worker sha (iw_flights w')"
    unfolding w'(1) using inv i k alone by (intro one_worker_update [where k = k]) (auto simp: idem_inv_def working_def)
  ultimately show ?thesis unfolding idem_inv_def by blast
qed

lemma idem_invI:
  assumes "\<And>f. f \<in> set (iw_flights w) \<Longrightarrow> flight_ok sha w f"
    and "\<And>k e. iw_table w k = Some e \<Longrightarrow> ir_status e \<noteq> 0 \<Longrightarrow> (k, e) \<in> set (iw_stored w)"
    and "one_worker sha (iw_flights w)"
  shows "idem_inv sha w"
  unfolding idem_inv_def using assms by blast

lemma flight_okD: "idem_inv sha w \<Longrightarrow> i < length (iw_flights w) \<Longrightarrow> flight_ok sha w (iw_flights w ! i)"
  by (simp add: idem_inv_def)

lemma storedD: "idem_inv sha w \<Longrightarrow> iw_table w k = Some e \<Longrightarrow> ir_status e \<noteq> 0 \<Longrightarrow> (k, e) \<in> set (iw_stored w)"
  unfolding idem_inv_def by blast

text \<open>The row of a key someone works on is present and has not expired.\<close>

lemma working_row:
  assumes "flight_ok sha w f" "working sha k f"
  shows "\<exists>e. iw_table w k = Some e \<and> iw_clock w < ir_expiresAt e"
  using assms by (auto simp: flight_ok_def working_def Let_def pending_row_def split: idem_phase.splits)

lemma working_alone:
  assumes "idem_inv sha w" "i < length (iw_flights w)" "working sha k (iw_flights w ! i)" "j < length (iw_flights w)" "j \<noteq> i"
  shows "\<not> working sha k (iw_flights w ! j)"
  using assms one_workerD unfolding idem_inv_def by blast

lemma not_working [simp]:
  "\<not> working sha k (f\<lparr>if_phase := idem_resume sha rq e t\<rparr>)" "\<not> working sha k (f\<lparr>if_phase := idem_arrive tab sha rq\<rparr>)"
  by (auto simp: working_def idem_resume_def idem_arrive_def split: idem_decision.splits sum.splits option.splits)

lemma idem_step_inv:
  assumes step: "idem_step sha w w'" and inv: "idem_inv sha w"
  shows "idem_inv sha w'"
  using step
proof cases
  case (tick t)
  have "flight_ok sha w' f" if f: "f \<in> set (iw_flights w)" for f
  proof -
    have "flight_ok sha w f" using inv f by (simp add: idem_inv_def)
    moreover have "t < c + IDEMPOTENCY_PENDING_TTL_MS" if "claim_time (if_phase f) = Some c" for c using tick(3) f that by blast
    ultimately show ?thesis using tick(1,2)
      by (cases "if_phase f") (auto simp: flight_ok_def Let_def split: option.splits idem_outcome.splits)
  qed
  then show ?thesis using inv unfolding tick(1) idem_inv_def by simp
next
  case (request rq)
  let ?new = "\<lparr>if_request = rq, if_phase = Arrived\<rparr>"
  have "flight_ok sha w' f" if "f \<in> set (iw_flights w)" for f
  proof (rule flight_ok_frame [OF _ _ _ _ refl])
    show "flight_ok sha w f" using inv that by (simp add: idem_inv_def)
  qed (simp_all add: request)
  moreover have new: "flight_ok sha w' ?new" "\<not> working sha k ?new" for k by (simp_all add: flight_ok_def working_def)
  moreover have "one_worker sha (iw_flights w @ [?new])"
    using inv new(2) by (intro one_worker_append) (simp_all add: idem_inv_def)
  moreover have parts: "iw_flights w' = iw_flights w @ [?new]" "iw_table w' = iw_table w" "iw_stored w' = iw_stored w"
    by (simp_all add: request)
  ultimately show ?thesis using storedD [OF inv] by (intro idem_invI) (auto simp only: parts set_append set_simps Un_iff insert_iff empty_iff)
next
  case (lookup i)
  let ?f = "iw_flights w ! i" let ?p = "idem_arrive (iw_table w) sha (if_request ?f)"
  show ?thesis
  proof (rule idem_inv_update [OF inv, where i = i and p = ?p])
    show "flight_ok sha w' (?f\<lparr>if_phase := ?p\<rparr>)"
      using lookup storedD [OF inv, of "row_key sha (if_request (iw_flights w ! i))"] by (auto simp: flight_ok_def idem_arrive_def set_flight_def Let_def split: sum.splits option.splits)
  qed (use lookup storedD [OF inv, of "row_key sha (if_request (iw_flights w ! i))"] in \<open>auto simp: set_flight_def\<close>)
next
  case (resume i e)
  let ?f = "iw_flights w ! i" let ?p = "idem_resume sha (if_request ?f) e (iw_clock w)"
  have ok: "flight_ok sha w ?f" using flight_okD [OF inv] resume by blast
  show ?thesis
  proof (rule idem_inv_update [OF inv, where i = i and p = ?p])
    show "flight_ok sha w' (?f\<lparr>if_phase := ?p\<rparr>)"
      using resume ok
      by (auto simp: flight_ok_def idem_resume_def idem_decide_def set_flight_def Let_def IDEMPOTENCY_PENDING_TTL_MS_def split: option.splits)
  qed (use resume storedD [OF inv, of "row_key sha (if_request (iw_flights w ! i))"] in \<open>auto simp: set_flight_def\<close>)
next
  case (claim i d c t' ok)
  let ?f = "iw_flights w ! i" let ?k = "row_key sha (if_request ?f)"
  let ?p = "if ok then Running c else Done (Refused IDEMPOTENCY_IN_PROGRESS_MESSAGE)"
  have fok: "flight_ok sha w ?f" using flight_okD [OF inv] claim by blast
  have t': "ok \<Longrightarrow> t' = (iw_table w)(?k \<mapsto> pending_row sha (if_request ?f) c)" "\<not> ok \<Longrightarrow> t' = iw_table w"
    "ok \<Longrightarrow> iw_table w ?k = Some e \<Longrightarrow> ir_expiresAt e \<le> c" for e
    using claim(3) by (auto simp: idem_claim_def Let_def split: idem_decision.splits option.splits if_splits)
  have c: "c \<le> iw_clock w" using fok claim(2) by (auto simp: flight_ok_def Let_def)
  show ?thesis
  proof (rule idem_inv_update [OF inv, where i = i and p = ?p])
    show "flight_ok sha w' (?f\<lparr>if_phase := ?p\<rparr>)"
      using claim(1,2) fok t' by (auto simp: flight_ok_def set_flight_def Let_def)
    fix j assume "iw_table w' ?k \<noteq> iw_table w ?k \<or> working sha ?k (?f\<lparr>if_phase := ?p\<rparr>)" and j: "j < length (iw_flights w)" "j \<noteq> i"
    then have "ok" using claim(1) t' by (auto simp: working_def split: if_splits)
    then show "\<not> working sha ?k (iw_flights w ! j)"
      using working_row [OF flight_okD [OF inv j(1)]] t'(3) c by fastforce
  qed (use claim(1,2) t' storedD [OF inv, of "row_key sha (if_request (iw_flights w ! i))"] in \<open>auto simp: set_flight_def pending_row_def split: if_splits\<close>)
next
  case (store i c status row body k)
  let ?f = "iw_flights w ! i"
  have fok: "flight_ok sha w ?f" using flight_okD [OF inv] store by blast
  have w: "working sha k ?f" using store by (simp add: working_def)
  show ?thesis
  proof (rule idem_inv_update [OF inv, where i = i and p = "Answered c" and k = k])
    show "flight_ok sha w' (?f\<lparr>if_phase := Answered c\<rparr>)"
      using store fok
      by (auto simp: flight_ok_def set_flight_def store_idempotent_response_def stored_row_def STORED_TTL_MS_def IDEMPOTENCY_PENDING_TTL_MS_def Let_def)
    show "\<not> working sha k (iw_flights w ! j)" if "j < length (iw_flights w)" "j \<noteq> i" for j
      using working_alone [OF inv _ w that] store(2) by blast
  qed (use store in \<open>auto simp: set_flight_def store_idempotent_response_def\<close>)
next
  case (cleanup i c)
  let ?f = "iw_flights w ! i" let ?k = "row_key sha (if_request ?f)"
  have w: "working sha ?k ?f" and i: "i < length (iw_flights w)" using cleanup(2) by (auto simp: working_def)
  show ?thesis
  proof (rule idem_inv_update [OF inv, where i = i and p = "Done Finished"])
    show "flight_ok sha w' (?f\<lparr>if_phase := Done Finished\<rparr>)" by (simp add: flight_ok_def Let_def)
    show "\<not> working sha ?k (iw_flights w ! j)" if "j < length (iw_flights w)" "j \<noteq> i" for j
      using working_alone [OF inv i w that] .
  qed (use cleanup(1) i storedD [OF inv, of "row_key sha (if_request (iw_flights w ! i))"] in \<open>auto simp: set_flight_def release_idempotency_claim_def split: option.splits if_splits\<close>)
qed

lemma idem_reach_inv: "idem_reach sha w \<Longrightarrow> idem_inv sha w"
proof (induction rule: idem_reach.induct)
  case (start t)
  show ?case by (simp add: idem_inv_def one_worker_def)
qed (rule idem_step_inv)

text \<open>A replayed response was stored for the key of the request, by a request that looked the same.\<close>

definition replay_sound :: "(string \<Rightarrow> string) \<Rightarrow> idem_world \<Rightarrow> idem_flight \<Rightarrow> bool" where
  "replay_sound sha w f = (case if_phase f of
       Done (Replayed e) \<Rightarrow> (row_key sha (if_request f), e) \<in> set (iw_stored w) \<and>
         ir_requestHash e = request_hash sha (iq_body (if_request f)) \<and> ir_method e = iq_method (if_request f) \<and> ir_path e = iq_path (if_request f)
     | _ \<Rightarrow> True)"

lemma flight_ok_replay: "flight_ok sha w f \<Longrightarrow> replay_sound sha w f"
  unfolding flight_ok_def replay_sound_def Let_def by (cases "if_phase f") (simp_all split: idem_outcome.splits)

text \<open>
  C7: An idempotency key is worked on by at most one request at a time, and a replay is the
  answer of an earlier run of the same request.  In every run in which handlers finish within
  the pending time, two requests that are running, or have answered and not yet cleaned up,
  have different keys; and a replayed response was stored for the same key by a request with the
  same method, path and body hash.
\<close>

theorem idempotency_single_run:
  assumes "idem_reach sha w"
  shows "one_worker sha (iw_flights w) \<and> list_all (replay_sound sha w) (iw_flights w)"
  using idem_reach_inv [OF assms] flight_ok_replay unfolding idem_inv_def list_all_iff by blast

section \<open>A claim whose handler is late\<close>

text \<open>
  The clean-up removes whatever pending row the key has.  If a handler outlives the pending time
  and the key was taken over, its clean-up removes the row of the new owner, who is still
  running; a third request then claims the key at once.
\<close>

lemma late_cleanup_drops_new_claim:
  assumes taken: "iw_table w (row_key sha rq) = Some (pending_row sha rq t)"
  shows "release_idempotency_claim (iw_table w) (row_key sha rq) (row_key sha rq) = None"
    and "snd (idem_claim sha (release_idempotency_claim (iw_table w) (row_key sha rq)) rq TryCreate now)"
  using taken by (simp_all add: release_idempotency_claim_def idem_claim_def pending_row_def)

section \<open>Witness\<close>

definition sample_idem :: idem_request where
  "sample_idem = \<lparr>iq_workspaceId = ''w'', iq_header = Some '' key-12345 '', iq_method = ''POST'', iq_path = ''/api/shorten'',
     iq_body = Some (JStr ''b'')\<rparr>"

lemma sample_idem_header: "idem_header sample_idem = Inr (Some ''key-12345'')"
  by code_simp

abbreviation sample_flights :: "idem_table \<Rightarrow> idem_phase list \<Rightarrow> idem_world" where
  "sample_flights t ps \<equiv> \<lparr>iw_table = t, iw_clock = 5, iw_flights = map (\<lambda>p. \<lparr>if_request = sample_idem, if_phase = p\<rparr>) ps, iw_stored = []\<rparr>"

definition sample_table :: idem_table where
  "sample_table = [row_key id sample_idem \<mapsto> pending_row id sample_idem 5]"

lemma sample_steps:
  "idem_step id (sample_flights t ps) (sample_flights t (ps @ [Arrived]))"
  "i < length ps \<Longrightarrow> ps ! i = Arrived \<Longrightarrow> idem_step id (sample_flights Map.empty ps) (sample_flights Map.empty (ps[i := Found None]))"
  "i < length ps \<Longrightarrow> ps ! i = Found None \<Longrightarrow> idem_step id (sample_flights t ps) (sample_flights t (ps[i := Claiming TryCreate 5]))"
  "i < length ps \<Longrightarrow> ps ! i = Claiming TryCreate 5 \<Longrightarrow> idem_step id (sample_flights Map.empty ps) (sample_flights sample_table (ps[i := Running 5]))"
  "i < length ps \<Longrightarrow> ps ! i = Claiming TryCreate 5 \<Longrightarrow>
    idem_step id (sample_flights sample_table ps) (sample_flights sample_table (ps[i := Done (Refused IDEMPOTENCY_IN_PROGRESS_MESSAGE)]))"
proof -
  show "idem_step id (sample_flights t ps) (sample_flights t (ps @ [Arrived]))"
    using idem_step.request [of id "sample_flights t ps" sample_idem] by simp
  assume i: "i < length ps"
  show "ps ! i = Arrived \<Longrightarrow> idem_step id (sample_flights Map.empty ps) (sample_flights Map.empty (ps[i := Found None]))"
    using idem_step.lookup [of i "sample_flights Map.empty ps" id] i
    by (simp add: set_flight_def idem_arrive_def sample_idem_header map_update)
  show "ps ! i = Found None \<Longrightarrow> idem_step id (sample_flights t ps) (sample_flights t (ps[i := Claiming TryCreate 5]))"
    using idem_step.resume [of i "sample_flights t ps" None id] i
    by (simp add: set_flight_def idem_resume_def idem_decide_def map_update)
  show "ps ! i = Claiming TryCreate 5 \<Longrightarrow> idem_step id (sample_flights Map.empty ps) (sample_flights sample_table (ps[i := Running 5]))"
    using idem_step.claim [of i "sample_flights Map.empty ps" TryCreate 5 id sample_table True] i
    by (simp add: set_flight_def idem_claim_def sample_table_def map_update Let_def)
  show "ps ! i = Claiming TryCreate 5 \<Longrightarrow>
    idem_step id (sample_flights sample_table ps) (sample_flights sample_table (ps[i := Done (Refused IDEMPOTENCY_IN_PROGRESS_MESSAGE)]))"
    using idem_step.claim [of i "sample_flights sample_table ps" TryCreate 5 id sample_table False] i
    by (simp add: set_flight_def idem_claim_def sample_table_def map_update Let_def)
qed

text \<open>Two requests with one key race for an empty table; one runs, the other is refused.\<close>

lemma sample_race: "idem_reach id (sample_flights sample_table [Running 5, Done (Refused IDEMPOTENCY_IN_PROGRESS_MESSAGE)])"
proof -
  have "idem_reach id (sample_flights Map.empty [])" using idem_reach.start [of id 5] by simp
  from idem_reach.step [OF idem_reach.step [OF this sample_steps(1)] sample_steps(1)]
  have "idem_reach id (sample_flights Map.empty [Arrived, Arrived])" by simp
  from idem_reach.step [OF idem_reach.step [OF this sample_steps(2) [of 0]] sample_steps(2) [of 1]]
  have "idem_reach id (sample_flights Map.empty [Found None, Found None])" by simp
  from idem_reach.step [OF idem_reach.step [OF this sample_steps(3) [of 0]] sample_steps(3) [of 1]]
  have "idem_reach id (sample_flights Map.empty [Claiming TryCreate 5, Claiming TryCreate 5])" by simp
  from idem_reach.step [OF idem_reach.step [OF this sample_steps(4) [of 0]] sample_steps(5) [of 1]]
  show ?thesis by simp
qed

theorem idempotency_single_run_witness:
  "one_worker id (iw_flights (sample_flights sample_table [Running 5, Done (Refused IDEMPOTENCY_IN_PROGRESS_MESSAGE)]))"
  using idempotency_single_run [OF sample_race] by blast

end
