(* ===== verification/Rewards.thy ===== *)
theory Rewards
  imports JsonText "HOL-Library.Multiset"
begin

text \<open>
  Reward rules (\<open>src/lib/reward-rules.ts\<close>): validation, the choice of a rule from the metadata
  of a sale, the commission it pays, scopes, parsing of stored rules, and the reports on rule
  sets.  Numbers are exact; they agree with doubles while products stay below 2 to the 53.
\<close>

section \<open>Rules\<close>

datatype reward_type = RewardPercent | RewardFlat

record reward_rule =
  rw_id :: string
  rw_key :: string
  rw_equals :: "string list"
  rw_type :: reward_type
  rw_amount :: rat
  rw_priority :: "rat option"
  rw_capCents :: "rat option"
  rw_minSaleCents :: "rat option"
  rw_maxSaleCents :: "rat option"

record reward_default =
  rd_type :: reward_type
  rd_amount :: rat
  rd_capCents :: "rat option"

definition MAX_PERCENT_BPS :: rat where "MAX_PERCENT_BPS = 10000"

definition is_safe_integer :: "rat \<Rightarrow> bool" where
  "is_safe_integer q = (integer_of q \<noteq> None \<and> \<bar>q\<bar> \<le> 9007199254740991)"

definition validate_rule :: "reward_rule \<Rightarrow> string option" where
  "validate_rule r =
     (if trim (rw_key r) = [] then Some ''key is required''
      else if rw_equals r = [] then Some ''equals needs at least one value''
      else if \<not> is_safe_integer (rw_amount r) \<or> rw_amount r < 0 then Some ''amount must be a non-negative integer''
      else if rw_type r = RewardPercent \<and> rw_amount r > MAX_PERCENT_BPS then Some ''percent exceeds 10000 basis points''
      else if (case (rw_minSaleCents r, rw_maxSaleCents r) of (Some a, Some b) \<Rightarrow> a > b | _ \<Rightarrow> False)
        then Some ''minSaleCents cannot exceed maxSaleCents''
      else None)"

section \<open>Choosing a rule\<close>

type_synonym metadata = "string \<Rightarrow> json option"

text \<open>The value compared with \<open>equals\<close>: absent, null and non-scalar values match nothing.\<close>

definition scalar_text :: "json option \<Rightarrow> string option" where
  "scalar_text v = (case v of None \<Rightarrow> None | Some JNull \<Rightarrow> None | Some (JArr _) \<Rightarrow> None | Some (JObj _) \<Rightarrow> None
     | Some j \<Rightarrow> Some (js_string j))"

definition below_min :: "reward_rule \<Rightarrow> rat option \<Rightarrow> bool" where
  "below_min r sale = (case (rw_minSaleCents r, sale) of (Some a, Some s) \<Rightarrow> s < a | _ \<Rightarrow> False)"

definition above_max :: "reward_rule \<Rightarrow> rat option \<Rightarrow> bool" where
  "above_max r sale = (case (rw_maxSaleCents r, sale) of (Some b, Some s) \<Rightarrow> s > b | _ \<Rightarrow> False)"

definition rule_applies :: "metadata \<Rightarrow> rat option \<Rightarrow> reward_rule \<Rightarrow> bool" where
  "rule_applies md sale r =
     (if validate_rule r \<noteq> None then False
      else if below_min r sale then False
      else if above_max r sale then False
      else (case scalar_text (md (rw_key r)) of None \<Rightarrow> False | Some t \<Rightarrow> t \<in> set (rw_equals r)))"

text \<open>By priority, ties by position: the sort is stable.\<close>

definition rule_order :: "reward_rule list \<Rightarrow> reward_rule list" where
  "rule_order rules = sort_key (\<lambda>r. coalesce (rw_priority r) 0) rules"

definition match_rule :: "reward_rule list \<Rightarrow> metadata \<Rightarrow> rat option \<Rightarrow> reward_rule option" where
  "match_rule rules md sale = find (rule_applies md sale) (rule_order rules)"

section \<open>The commission\<close>

definition reward_raw :: "rat \<Rightarrow> reward_type \<Rightarrow> rat \<Rightarrow> rat" where
  "reward_raw sale t amount = (case t of RewardPercent \<Rightarrow> of_int \<lfloor>sale * amount / MAX_PERCENT_BPS\<rfloor> | RewardFlat \<Rightarrow> amount)"

definition reward_cents :: "rat \<Rightarrow> reward_type \<Rightarrow> rat \<Rightarrow> rat option \<Rightarrow> rat" where
  "reward_cents sale t amount cap =
     (let raw = reward_raw sale t amount;
          capped = (case cap of Some c \<Rightarrow> if integer_of c \<noteq> None \<and> c \<ge> 0 then min raw c else raw | None \<Rightarrow> raw)
      in min capped (of_int \<lfloor>sale\<rfloor>))"

definition compute_reward ::
  "rat \<Rightarrow> metadata \<Rightarrow> reward_rule list \<Rightarrow> reward_default option \<Rightarrow> rat \<times> string option" where
  "compute_reward sale md rules fallback =
     (if sale \<le> 0 then (0, None)
      else (case match_rule rules md (Some sale) of
          Some r \<Rightarrow> (reward_cents sale (rw_type r) (rw_amount r) (rw_capCents r), Some (rw_id r))
        | None \<Rightarrow> (case fallback of
            Some d \<Rightarrow> (reward_cents sale (rd_type d) (rd_amount d) (rd_capCents d), None)
          | None \<Rightarrow> (0, None))))"

text \<open>A scope that sets no rules has the empty list.\<close>

record reward_scope =
  rs_rules :: "reward_rule list"
  rs_fallback :: "reward_default option"

record reward_result =
  rt_cents :: rat
  rt_ruleId :: "string option"
  rt_scopeIndex :: "nat option"

fun resolve_from :: "nat \<Rightarrow> rat \<Rightarrow> metadata \<Rightarrow> reward_scope list \<Rightarrow> reward_result" where
  "resolve_from i sale md [] = \<lparr>rt_cents = 0, rt_ruleId = None, rt_scopeIndex = None\<rparr>"
| "resolve_from i sale md (s # ss) =
     (if match_rule (rs_rules s) md (Some sale) = None \<and> rs_fallback s = None then resolve_from (Suc i) sale md ss
      else (case compute_reward sale md (rs_rules s) (rs_fallback s) of (cents, ruleId) \<Rightarrow>
        \<lparr>rt_cents = cents, rt_ruleId = ruleId, rt_scopeIndex = Some i\<rparr>))"

definition resolve_reward :: "rat \<Rightarrow> metadata \<Rightarrow> reward_scope list \<Rightarrow> reward_result" where
  "resolve_reward sale md scopes = resolve_from 0 sale md scopes"

definition simulate_rewards :: "(rat \<times> metadata) list \<Rightarrow> reward_scope list \<Rightarrow> reward_result list" where
  "simulate_rewards samples scopes = map (\<lambda>(sale, md). resolve_reward sale md scopes) samples"

section \<open>Parsing\<close>

definition MAX_RULES_PER_SCOPE :: nat where "MAX_RULES_PER_SCOPE = 25"

fun json_num :: "json \<Rightarrow> rat option" where
  "json_num (JInt i) = Some (of_int i)"
| "json_num (JFrac q) = Some q"
| "json_num _ = None"

definition parse_type :: "json option \<Rightarrow> reward_type option" where
  "parse_type v = (if v = Some (JStr ''percent'') then Some RewardPercent
     else if v = Some (JStr ''flat'') then Some RewardFlat else None)"

definition nonneg_integer :: "json \<Rightarrow> rat option" where
  "nonneg_integer j = (case json_num j of Some q \<Rightarrow> if integer_of q \<noteq> None \<and> q \<ge> 0 then Some q else None | None \<Rightarrow> None)"

definition parse_default :: "json option \<Rightarrow> reward_default option thrown" where
  "parse_default input =
     (if nullish input then Inr None
      else (case input of
          Some (JObj d) \<Rightarrow>
            (case parse_type (jget (JObj d) ''type'') of
               None \<Rightarrow> Inl ''default.type must be percent or flat''
             | Some t \<Rightarrow> (case Option.bind (jget (JObj d) ''amount'') nonneg_integer of
                 None \<Rightarrow> Inl ''default.amount must be a non-negative integer''
               | Some a \<Rightarrow>
                   if t = RewardPercent \<and> a > MAX_PERCENT_BPS then Inl ''default percent exceeds 10000 basis points''
                   else (case jget (JObj d) ''capCents'' of
                       None \<Rightarrow> Inr (Some \<lparr>rd_type = t, rd_amount = a, rd_capCents = None\<rparr>)
                     | Some c \<Rightarrow> (case nonneg_integer c of
                         None \<Rightarrow> Inl ''default.capCents must be a non-negative integer''
                       | Some q \<Rightarrow> Inr (Some \<lparr>rd_type = t, rd_amount = a, rd_capCents = Some q\<rparr>)))))
        | _ \<Rightarrow> Inl ''default must be an object or null''))"

definition rule_label :: "nat \<Rightarrow> string" where
  "rule_label i = ''rules['' @ nat_dec i @ '']''"

fun is_scalar :: "json \<Rightarrow> bool" where
  "is_scalar (JStr _) = True"
| "is_scalar (JInt _) = True"
| "is_scalar (JFrac _) = True"
| "is_scalar (JBool _) = True"
| "is_scalar _ = False"

text \<open>\<open>v !== undefined && !(typeof v === 'number' && Number.isSafeInteger(v) && v >= 0)\<close>\<close>

definition bad_cents :: "json option \<Rightarrow> bool" where
  "bad_cents v = (case v of None \<Rightarrow> False
     | Some j \<Rightarrow> (case json_num j of Some q \<Rightarrow> \<not> is_safe_integer q \<or> q < 0 | None \<Rightarrow> True))"

definition num_field :: "json \<Rightarrow> string \<Rightarrow> rat option" where
  "num_field r k = Option.bind (jget r k) json_num"

fun array_of :: "json option \<Rightarrow> json list option" where
  "array_of (Some (JArr xs)) = Some xs"
| "array_of _ = None"

text \<open>The first complaint about the element at index \<open>i\<close>, with the ids seen before it.\<close>

definition rule_error :: "nat \<Rightarrow> string list \<Rightarrow> json \<Rightarrow> string option" where
  "rule_error i seen r =
     (let key = jstr (jget r ''key''); id = jstr (jget r ''id''); eqs = array_of (jget r ''equals'')
      in if \<not> (case r of JObj _ \<Rightarrow> True | JArr _ \<Rightarrow> True | _ \<Rightarrow> False) then Some (rule_label i @ '' must be an object'')
      else if \<not> str_truthy id then Some (rule_label i @ ''.id is required'')
      else if length (the id) > 64 then Some (rule_label i @ ''.id must be at most 64 characters'')
      else if the id \<in> set seen then Some (rule_label i @ ''.id is duplicated'')
      else if key = None \<or> trim (the key) = [] then Some (rule_label i @ ''.key must be a non-empty string'')
      else if length (the key) > 64 then Some (rule_label i @ ''.key must be at most 64 characters'')
      else if eqs = None \<or> \<not> list_all is_scalar (the eqs) then Some (rule_label i @ ''.equals must be an array of scalars'')
      else if length (the eqs) > 50 then Some (rule_label i @ ''.equals allows at most 50 values'')
      else if list_ex (\<lambda>v. length (js_string v) > 256) (the eqs)
        then Some (rule_label i @ ''.equals values must be at most 256 characters'')
      else if parse_type (jget r ''type'') = None then Some (rule_label i @ ''.type must be percent or flat'')
      else if num_field r ''amount'' = None then Some (rule_label i @ ''.amount must be a number'')
      else if jget r ''priority'' \<noteq> None \<and> num_field r ''priority'' = None then Some (rule_label i @ ''.priority must be a number'')
      else if (case num_field r ''priority'' of Some p \<Rightarrow> \<bar>p\<bar> > 1000000 | None \<Rightarrow> False)
        then Some (rule_label i @ ''.priority must be within '' @ [char_of (177 :: nat)] @ ''1000000'')
      else if bad_cents (jget r ''capCents'') then Some (rule_label i @ ''.capCents must be a non-negative integer'')
      else if bad_cents (jget r ''minSaleCents'') then Some (rule_label i @ ''.minSaleCents must be a non-negative integer'')
      else if bad_cents (jget r ''maxSaleCents'') then Some (rule_label i @ ''.maxSaleCents must be a non-negative integer'')
      else if (case (num_field r ''minSaleCents'', num_field r ''maxSaleCents'') of (Some a, Some b) \<Rightarrow> a > b | _ \<Rightarrow> False)
        then Some (rule_label i @ ''.minSaleCents cannot exceed maxSaleCents'')
      else None)"

definition rule_of :: "json \<Rightarrow> reward_rule" where
  "rule_of r = \<lparr>rw_id = the (jstr (jget r ''id'')), rw_key = the (jstr (jget r ''key'')),
     rw_equals = uniq (map js_string (the (array_of (jget r ''equals'')))),
     rw_type = the (parse_type (jget r ''type'')), rw_amount = the (num_field r ''amount''),
     rw_priority = num_field r ''priority'', rw_capCents = num_field r ''capCents'',
     rw_minSaleCents = num_field r ''minSaleCents'', rw_maxSaleCents = num_field r ''maxSaleCents''\<rparr>"

definition parse_rule :: "nat \<Rightarrow> string list \<Rightarrow> json \<Rightarrow> reward_rule thrown" where
  "parse_rule i seen r = (case rule_error i seen r of
       Some e \<Rightarrow> Inl e
     | None \<Rightarrow> (case validate_rule (rule_of r) of
         Some err \<Rightarrow> Inl (rule_label i @ '': '' @ err)
       | None \<Rightarrow> Inr (rule_of r)))"

fun parse_rules_from :: "nat \<Rightarrow> string list \<Rightarrow> json list \<Rightarrow> reward_rule list thrown" where
  "parse_rules_from i seen [] = Inr []"
| "parse_rules_from i seen (r # rs) = (case parse_rule i seen r of
       Inl e \<Rightarrow> Inl e
     | Inr rule \<Rightarrow> (case parse_rules_from (Suc i) (rw_id rule # seen) rs of
         Inl e \<Rightarrow> Inl e
       | Inr rules \<Rightarrow> Inr (rule # rules)))"

definition parse_rules :: "json option \<Rightarrow> reward_rule list thrown" where
  "parse_rules input = (case array_of input of
       None \<Rightarrow> Inl ''rules must be an array''
     | Some xs \<Rightarrow> if length xs > MAX_RULES_PER_SCOPE then Inl (''at most '' @ nat_dec MAX_RULES_PER_SCOPE @ '' rules per scope'')
         else parse_rules_from 0 [] xs)"

section \<open>Reports on rule sets\<close>

definition max_covers :: "rat option \<Rightarrow> rat option \<Rightarrow> bool" where
  "max_covers e r = (case (e, r) of (None, _) \<Rightarrow> True | (Some b, None) \<Rightarrow> False | (Some b, Some c) \<Rightarrow> c \<le> b)"

definition rule_shadows :: "reward_rule \<Rightarrow> reward_rule \<Rightarrow> bool" where
  "rule_shadows e r =
     (rw_key e = rw_key r \<and> list_all (\<lambda>v. v \<in> set (rw_equals e)) (rw_equals r) \<and>
      coalesce (rw_minSaleCents e) 0 \<le> coalesce (rw_minSaleCents r) 0 \<and> max_covers (rw_maxSaleCents e) (rw_maxSaleCents r))"

fun shadow_pairs :: "reward_rule list \<Rightarrow> reward_rule list \<Rightarrow> (string \<times> string) list" where
  "shadow_pairs earlier [] = []"
| "shadow_pairs earlier (r # rs) =
     (case find (\<lambda>e. rule_shadows e r) earlier of Some e \<Rightarrow> [(rw_id r, rw_id e)] | None \<Rightarrow> []) @ shadow_pairs (earlier @ [r]) rs"

definition find_shadowed_rules :: "reward_rule list \<Rightarrow> (string \<times> string) list" where
  "find_shadowed_rules rules = shadow_pairs [] (rule_order (filter (\<lambda>r. validate_rule r = None) rules))"

text \<open>\<open>toFixed(2)\<close> and \<open>toString()\<close> of a number.\<close>

definition to_fixed2 :: "rat \<Rightarrow> string" where
  "to_fixed2 q = (let n = nat \<lfloor>\<bar>q\<bar> * 100 + 1 / 2\<rfloor>
     in (if q < 0 then ''-'' else []) @ nat_dec (n div 100) @ ''.'' @ nat_dec (n mod 100 div 10) @ nat_dec (n mod 10))"

definition number_text :: "rat \<Rightarrow> string" where
  "number_text q = js_string (json_number q)"

definition format_money :: "rat \<Rightarrow> string" where
  "format_money cents = ''$'' @ to_fixed2 (cents / 100)"

definition payout_text :: "reward_type \<Rightarrow> rat \<Rightarrow> string" where
  "payout_text t amount = (case t of RewardPercent \<Rightarrow> number_text (amount / 100) @ ''%'' | RewardFlat \<Rightarrow> format_money amount)"

text \<open>A value in quotes.\<close>

definition quoted :: "string \<Rightarrow> string" where
  "quoted s = [CHR 0x22] @ s @ [CHR 0x22]"

definition describe_rule :: "reward_rule \<Rightarrow> string" where
  "describe_rule r =
     (let head = payout_text (rw_type r) (rw_amount r) @ '' when '' @ rw_key r @ '' is '' @ join_with '' or '' (map quoted (rw_equals r));
          band = (case (rw_minSaleCents r, rw_maxSaleCents r) of
              (Some a, Some b) \<Rightarrow> [''for sales of '' @ format_money a @ '' to '' @ format_money b]
            | (Some a, None) \<Rightarrow> [''for sales of at least '' @ format_money a]
            | (None, Some b) \<Rightarrow> [''for sales of at most '' @ format_money b]
            | (None, None) \<Rightarrow> []);
          cap = (case rw_capCents r of Some c \<Rightarrow> [''capped at '' @ format_money c] | None \<Rightarrow> [])
      in join_with '', '' (head # band @ cap))"

definition describe_default :: "reward_default \<Rightarrow> string" where
  "describe_default d = payout_text (rd_type d) (rd_amount d) @ '' on every other sale'' @
     (case rd_capCents d of Some c \<Rightarrow> '', capped at '' @ format_money c | None \<Rightarrow> [])"

definition opt_number :: "rat option \<Rightarrow> json" where
  "opt_number v = (case v of Some q \<Rightarrow> json_number q | None \<Rightarrow> JNull)"

definition rule_norm :: "reward_rule \<Rightarrow> string" where
  "rule_norm r = json_text (JArr [JStr (rw_key r), JArr (map JStr (sort_strings (rw_equals r))),
     JStr (case rw_type r of RewardPercent \<Rightarrow> ''percent'' | RewardFlat \<Rightarrow> ''flat''), json_number (rw_amount r),
     opt_number (rw_priority r), opt_number (rw_capCents r),
     opt_number (rw_minSaleCents r), opt_number (rw_maxSaleCents r)])"

text \<open>A \<open>Map\<close> built from pairs: the last value of a key, the keys in order of first insertion.\<close>

definition norm_map :: "reward_rule list \<Rightarrow> string \<Rightarrow> string option" where
  "norm_map rules = map_of (rev (map (\<lambda>r. (rw_id r, rule_norm r)) rules))"

record rules_diff =
  df_added :: "string list"
  df_removed :: "string list"
  df_changed :: "string list"

definition diff_rules :: "reward_rule list \<Rightarrow> reward_rule list \<Rightarrow> rules_diff" where
  "diff_rules before after =
     (let b = norm_map before; a = norm_map after; ak = uniq (map rw_id after); bk = uniq (map rw_id before)
      in \<lparr>df_added = filter (\<lambda>i. b i = None) ak, df_removed = filter (\<lambda>i. a i = None) bk,
          df_changed = filter (\<lambda>i. b i \<noteq> None \<and> b i \<noteq> a i) ak\<rparr>)"

record match_report =
  mr_ruleId :: string
  mr_matched :: bool
  mr_reason :: string

definition explain_rule :: "metadata \<Rightarrow> rat option \<Rightarrow> reward_rule \<Rightarrow> match_report" where
  "explain_rule md sale r =
     (let fail = (\<lambda>why. \<lparr>mr_ruleId = rw_id r, mr_matched = False, mr_reason = why\<rparr>); key = rw_key r
      in (case validate_rule r of
           Some err \<Rightarrow> fail (''invalid rule: '' @ err)
         | None \<Rightarrow>
            if below_min r sale then fail (''sale below minimum of '' @ number_text (the (rw_minSaleCents r)) @ '' cents'')
            else if above_max r sale then fail (''sale above maximum of '' @ number_text (the (rw_maxSaleCents r)) @ '' cents'')
            else (case md key of
                None \<Rightarrow> fail (''metadata key '' @ quoted key @ '' is missing'')
              | Some JNull \<Rightarrow> fail (''metadata key '' @ quoted key @ '' is missing'')
              | Some v \<Rightarrow> (case scalar_text (Some v) of
                  None \<Rightarrow> fail (''metadata key '' @ quoted key @ '' is not a scalar'')
                | Some t \<Rightarrow>
                    if t \<notin> set (rw_equals r)
                    then fail (quoted key @ '' is '' @ quoted t @ '', not one of '' @ join_with '', '' (rw_equals r))
                    else \<lparr>mr_ruleId = rw_id r, mr_matched = True, mr_reason = quoted key @ '' equals '' @ quoted t\<rparr>))))"

definition explain_match :: "reward_rule list \<Rightarrow> metadata \<Rightarrow> rat option \<Rightarrow> match_report list" where
  "explain_match rules md sale = map (explain_rule md sale) (rule_order rules)"

section \<open>Lemmas on the choice\<close>

lemma find_filter: "(\<And>x. P x \<Longrightarrow> Q x) \<Longrightarrow> find P (filter Q xs) = find P xs"
  by (induction xs) auto

lemma rule_applies_valid: "rule_applies md sale r \<Longrightarrow> validate_rule r = None"
  by (simp add: rule_applies_def split: if_splits)

lemma match_rule_valid: "match_rule rules md sale = find (rule_applies md sale) (rule_order (filter (\<lambda>r. validate_rule r = None) rules))"
  using find_filter [of "rule_applies md sale" "\<lambda>r. validate_rule r = None" "rule_order rules"] rule_applies_valid
  by (simp add: match_rule_def rule_order_def filter_sort)

lemma set_rule_order [simp]: "set (rule_order rules) = set rules"
  by (simp add: rule_order_def)

lemma map_rule_order_distinct: "distinct (map f (rule_order rules)) = distinct (map f rules)"
proof -
  have "mset (map f (rule_order rules)) = mset (map f rules)" unfolding mset_map rule_order_def mset_sort ..
  then show ?thesis by (rule mset_eq_imp_distinct_iff)
qed

lemma match_rule_in: "match_rule rules md sale = Some r \<Longrightarrow> r \<in> set rules \<and> rule_applies md sale r"
  unfolding match_rule_def using find_Some_iff [of "rule_applies md sale" "rule_order rules" r] by (metis nth_mem set_rule_order)

text \<open>A shadowing rule applies wherever the shadowed one does.\<close>

lemma shadows_applies:
  assumes "rule_shadows e r" "rule_applies md sale r" "validate_rule e = None" "\<And>s. sale = Some s \<Longrightarrow> 0 \<le> s"
  shows "rule_applies md sale e"
proof -
  have ok: "\<not> below_min r sale" "\<not> above_max r sale" and val: "\<exists>t. scalar_text (md (rw_key r)) = Some t \<and> t \<in> set (rw_equals r)"
    using assms(2) by (auto simp: rule_applies_def split: if_splits option.splits)
  have "\<not> below_min e sale"
    using ok(1) assms(1,4) by (cases sale) (auto simp: below_min_def rule_shadows_def coalesce_def split: option.splits)
  moreover have "\<not> above_max e sale"
    using ok(2) assms(1) by (cases sale) (auto simp: above_max_def rule_shadows_def max_covers_def split: option.splits)
  ultimately show ?thesis using assms(1,3) val by (auto simp: rule_applies_def rule_shadows_def list_all_iff)
qed

lemma shadow_pairs_ids: "p \<in> set (shadow_pairs earlier rs) \<Longrightarrow> fst p \<in> rw_id ` set rs"
  by (induction rs arbitrary: earlier) (auto split: option.splits)

lemma shadow_pairs_first:
  assumes "find P (earlier @ rs) = Some r" "r \<in> set rs" "distinct (map rw_id rs)" "\<forall>e \<in> set earlier. \<not> P e"
    and "\<And>e q. e \<in> set (earlier @ rs) \<Longrightarrow> rule_shadows e q \<Longrightarrow> P q \<Longrightarrow> P e"
  shows "rw_id r \<notin> fst ` set (shadow_pairs earlier rs)"
  using assms
proof (induction rs arbitrary: earlier)
  case (Cons x rs)
  have P_r: "P r" using Cons.prems(1) by (metis find_Some_iff)
  show ?case
  proof (cases "x = r")
    case True
    then have "find (\<lambda>e. rule_shadows e x) earlier = None"
      using Cons.prems(4,5) P_r by (auto simp: find_None_iff)
    moreover have "rw_id r \<notin> rw_id ` set rs" using Cons.prems(3) True by simp
    ultimately show ?thesis using True shadow_pairs_ids by fastforce
  next
    case False
    then have r: "r \<in> set rs" using Cons.prems(2) by simp
    have "\<not> P x"
    proof
      assume "P x"
      then have "find P (earlier @ x # rs) = Some x" using Cons.prems(4) by (induction earlier) auto
      then show False using Cons.prems(1) False by simp
    qed
    then have "rw_id r \<notin> fst ` set (shadow_pairs (earlier @ [x]) rs)"
      using Cons.IH [of "earlier @ [x]"] Cons.prems r by auto
    moreover have "rw_id x \<noteq> rw_id r" using Cons.prems(3) r by auto
    ultimately show ?thesis by (auto split: option.split)
  qed
qed simp

text \<open>
  A rule reported as shadowed never decides a sale.  In a rule set with distinct ids, a rule
  that \<open>findShadowedRules\<close> lists is not chosen for any metadata and any non-negative sale.
\<close>

lemma shadowed_rules_never_match:
  assumes ids: "distinct (map rw_id rules)" and sale: "0 \<le> s" and chosen: "match_rule rules md (Some s) = Some r"
  shows "rw_id r \<notin> fst ` set (find_shadowed_rules rules)"
proof -
  let ?valid = "filter (\<lambda>r. validate_rule r = None) rules"
  have found: "find (rule_applies md (Some s)) (rule_order ?valid) = Some r" using chosen by (simp add: match_rule_valid)
  then have "r \<in> set (rule_order ?valid)" by (metis find_Some_iff nth_mem)
  moreover have "distinct (map rw_id (rule_order ?valid))" using ids by (simp add: map_rule_order_distinct distinct_map_filter)
  ultimately show ?thesis unfolding find_shadowed_rules_def
    using found sale by (intro shadow_pairs_first [where P = "rule_applies md (Some s)"]) (auto intro: shadows_applies)
qed

lemma explain_rule_matched: "mr_matched (explain_rule md sale r) = rule_applies md sale r" "mr_ruleId (explain_rule md sale r) = rw_id r"
  by (auto simp: explain_rule_def rule_applies_def scalar_text_def Let_def split: option.splits json.splits)

text \<open>
  The explanation of a sale agrees with what is paid.  \<open>explainMatch\<close> lists every rule, and
  its first matching entry is the rule that \<open>matchRule\<close> chooses.
\<close>

lemma explain_match_agrees:
  "map_option mr_ruleId (find mr_matched (explain_match rules md sale)) = map_option rw_id (match_rule rules md sale)
    \<and> length (explain_match rules md sale) = length rules"
proof -
  have "map_option mr_ruleId (find mr_matched (map (explain_rule md sale) xs)) = map_option rw_id (find (rule_applies md sale) xs)" for xs
    by (induction xs) (simp_all add: explain_rule_matched)
  then show ?thesis by (simp add: explain_match_def match_rule_def rule_order_def)
qed

section \<open>Parsed rules\<close>

definition rule_ok :: "reward_rule \<Rightarrow> bool" where
  "rule_ok r = (validate_rule r = None \<and> rw_id r \<noteq> [] \<and> length (rw_id r) \<le> 64 \<and> length (rw_key r) \<le> 64 \<and>
     distinct (rw_equals r) \<and> length (rw_equals r) \<le> 50 \<and> list_all (\<lambda>v. length v \<le> 256) (rw_equals r) \<and>
     (case rw_priority r of None \<Rightarrow> True | Some p \<Rightarrow> \<bar>p\<bar> \<le> 1000000) \<and>
     list_all (\<lambda>v. case v of None \<Rightarrow> True | Some q \<Rightarrow> is_safe_integer q \<and> 0 \<le> q) [rw_capCents r, rw_minSaleCents r, rw_maxSaleCents r])"

lemma bad_cents_ok: "\<not> bad_cents (jget r k) \<Longrightarrow> (case num_field r k of None \<Rightarrow> True | Some q \<Rightarrow> is_safe_integer q \<and> 0 \<le> q)"
  by (auto simp: bad_cents_def num_field_def split: option.splits)

lemma parse_rule_ok:
  assumes "parse_rule i seen r = Inr rule"
  shows "rule_ok rule \<and> rw_id rule \<notin> set seen"
proof -
  have e: "rule_error i seen r = None" and v: "validate_rule rule = None" and r: "rule = rule_of r"
    using assms by (auto simp: parse_rule_def split: option.splits)
  have eqs: "length (uniq (map js_string xs)) \<le> 50" if "length xs \<le> 50" for xs
    using length_uniq_le [of "map js_string xs"] that by simp
  show ?thesis
    using e v unfolding rule_ok_def r
    by (auto simp: rule_error_def rule_of_def Let_def str_truthy_iff list_all_iff list_ex_iff not_less eqs
        dest: bad_cents_ok split: if_splits option.splits)
qed

lemma parse_rules_from_ok:
  "parse_rules_from i seen xs = Inr rules \<Longrightarrow>
    list_all rule_ok rules \<and> distinct (map rw_id rules) \<and> rw_id ` set rules \<inter> set seen = {} \<and> length rules = length xs"
proof (induction i seen xs arbitrary: rules rule: parse_rules_from.induct)
  case (2 i seen r rs)
  obtain rule rest where p: "parse_rule i seen r = Inr rule" "parse_rules_from (Suc i) (rw_id rule # seen) rs = Inr rest" "rules = rule # rest"
    using 2(2) by (auto split: sum.splits)
  then show ?case using 2(1) [OF p(1) p(2)] parse_rule_ok [OF p(1)] by auto
qed simp

text \<open>The JSON form of a rule, as \<open>JSON.stringify\<close> stores it.\<close>

definition opt_field :: "string \<Rightarrow> rat option \<Rightarrow> (string \<times> json) list" where
  "opt_field k v = (case v of None \<Rightarrow> [] | Some q \<Rightarrow> [(k, json_number q)])"

definition rule_json :: "reward_rule \<Rightarrow> json" where
  "rule_json r = JObj ([(''id'', JStr (rw_id r)), (''key'', JStr (rw_key r)), (''equals'', JArr (map JStr (rw_equals r))),
     (''type'', JStr (case rw_type r of RewardPercent \<Rightarrow> ''percent'' | RewardFlat \<Rightarrow> ''flat'')), (''amount'', json_number (rw_amount r))] @
     opt_field ''priority'' (rw_priority r) @ opt_field ''capCents'' (rw_capCents r) @
     opt_field ''minSaleCents'' (rw_minSaleCents r) @ opt_field ''maxSaleCents'' (rw_maxSaleCents r))"

lemma json_num_number [simp]: "json_num (json_number q) = Some q"
  by (auto simp: json_number_def integer_of_def split: if_splits)

lemma map_of_opt_field [simp]: "map_of (opt_field k v) j = (if j = k then map_option json_number v else None)"
  by (simp add: opt_field_def split: option.split)

lemma rule_json_fields [simp]:
  "jget (rule_json r) ''id'' = Some (JStr (rw_id r))" "jget (rule_json r) ''key'' = Some (JStr (rw_key r))"
  "jget (rule_json r) ''equals'' = Some (JArr (map JStr (rw_equals r)))" "jget (rule_json r) ''amount'' = Some (json_number (rw_amount r))"
  "jget (rule_json r) ''type'' = Some (JStr (case rw_type r of RewardPercent \<Rightarrow> ''percent'' | RewardFlat \<Rightarrow> ''flat''))"
  "jget (rule_json r) ''priority'' = map_option json_number (rw_priority r)"
  "jget (rule_json r) ''capCents'' = map_option json_number (rw_capCents r)"
  "jget (rule_json r) ''minSaleCents'' = map_option json_number (rw_minSaleCents r)"
  "jget (rule_json r) ''maxSaleCents'' = map_option json_number (rw_maxSaleCents r)"
  by (simp_all add: rule_json_def map_add_def split: option.split)

lemma bind_number [simp]: "Option.bind (map_option json_number v) json_num = v"
  by (cases v) simp_all

lemma num_field_json [simp]:
  "num_field (rule_json r) ''amount'' = Some (rw_amount r)" "num_field (rule_json r) ''priority'' = rw_priority r"
  "num_field (rule_json r) ''capCents'' = rw_capCents r" "num_field (rule_json r) ''minSaleCents'' = rw_minSaleCents r"
  "num_field (rule_json r) ''maxSaleCents'' = rw_maxSaleCents r"
  by (simp_all add: num_field_def)

lemma parse_type_json [simp]:
  "parse_type (Some (JStr (case t of RewardPercent \<Rightarrow> ''percent'' | RewardFlat \<Rightarrow> ''flat''))) = Some t"
  by (cases t) (simp_all add: parse_type_def)

lemma map_js_string [simp]: "map (js_string \<circ> JStr) xs = xs"
  by (induction xs) simp_all

lemma rule_of_json: "distinct (rw_equals r) \<Longrightarrow> rule_of (rule_json r) = r"
  by (simp add: rule_of_def uniq_distinct)

lemma bad_cents_json: "bad_cents (map_option json_number v) = (case v of None \<Rightarrow> False | Some q \<Rightarrow> \<not> is_safe_integer q \<or> q < 0)"
  by (simp add: bad_cents_def split: option.split)

lemma validate_rule_fields:
  assumes "validate_rule r = None"
  shows "trim (rw_key r) \<noteq> []" "case (rw_minSaleCents r, rw_maxSaleCents r) of (Some a, Some b) \<Rightarrow> \<not> a > b | _ \<Rightarrow> True"
  using assms by (auto simp: validate_rule_def split: if_splits option.splits)

lemma rule_error_json:
  assumes "rule_ok r" "rw_id r \<notin> set seen"
  shows "rule_error i seen (rule_json r) = None"
proof -
  have obj: "case rule_json r of JObj _ \<Rightarrow> True | JArr _ \<Rightarrow> True | _ \<Rightarrow> False" by (simp add: rule_json_def)
  have "list_all is_scalar (map JStr xs)" for xs by (induction xs) simp_all
  then show ?thesis
    using assms obj validate_rule_fields [of r]
    by (auto simp: rule_error_def rule_ok_def bad_cents_json str_truthy_iff list_all_iff list_ex_iff not_less Let_def split: option.splits)
qed

lemma parse_rules_from_json:
  "list_all rule_ok rules \<Longrightarrow> distinct (map rw_id rules) \<Longrightarrow> rw_id ` set rules \<inter> set seen = {} \<Longrightarrow>
    parse_rules_from i seen (map rule_json rules) = Inr rules"
proof (induction rules arbitrary: i seen)
  case (Cons r rs)
  have "parse_rule i seen (rule_json r) = Inr r"
    using Cons.prems by (simp add: parse_rule_def rule_error_json rule_of_json rule_ok_def [of r, THEN iffD1])
  moreover have "parse_rules_from (Suc i) (rw_id r # seen) (map rule_json rs) = Inr rs"
    using Cons.prems by (intro Cons.IH) auto
  ultimately show ?case by simp
qed simp

text \<open>
  C39: What \<open>parseRules\<close> accepts is well-formed and survives storage.  Accepted rules number at
  most 25, have distinct ids and fields within their bounds, and the JSON they are stored as is
  accepted again as the same rules.
\<close>

theorem parse_rules_wellformed:
  assumes "parse_rules input = Inr rules"
  shows "length rules \<le> MAX_RULES_PER_SCOPE \<and> list_all rule_ok rules \<and> distinct (map rw_id rules)
    \<and> parse_rules (Some (JArr (map rule_json rules))) = Inr rules"
proof -
  obtain xs where "parse_rules_from 0 [] xs = Inr rules" "length xs \<le> MAX_RULES_PER_SCOPE"
    using assms by (auto simp: parse_rules_def split: option.splits if_splits)
  then have ok: "list_all rule_ok rules" "distinct (map rw_id rules)" "length rules \<le> MAX_RULES_PER_SCOPE"
    using parse_rules_from_ok by fastforce+
  then show ?thesis using parse_rules_from_json [of rules "[]" 0] by (simp add: parse_rules_def)
qed

section \<open>What a sale pays\<close>

definition amount_ok :: "reward_type \<Rightarrow> rat \<Rightarrow> bool" where
  "amount_ok t a = (integer_of a \<noteq> None \<and> 0 \<le> a \<and> (t = RewardPercent \<longrightarrow> a \<le> MAX_PERCENT_BPS))"

definition scope_ok :: "reward_scope \<Rightarrow> bool" where
  "scope_ok s = (case rs_fallback s of None \<Rightarrow> True | Some d \<Rightarrow> amount_ok (rd_type d) (rd_amount d))"

lemma parse_default_ok: "parse_default v = Inr (Some d) \<Longrightarrow> amount_ok (rd_type d) (rd_amount d)"
  by (auto simp: parse_default_def nonneg_integer_def amount_ok_def nullish_def Option.bind_eq_Some_conv
      split: if_splits option.splits json.splits)

lemma valid_rule_amount: "validate_rule r = None \<Longrightarrow> amount_ok (rw_type r) (rw_amount r)"
  by (auto simp: validate_rule_def amount_ok_def is_safe_integer_def split: if_splits)

lemma integer_of_iff: "integer_of q \<noteq> None \<longleftrightarrow> q \<in> \<int>"
  by (auto simp: integer_of_def elim!: Ints_cases)

lemma reward_raw_ints: "amount_ok t a \<Longrightarrow> 0 < sale \<Longrightarrow> reward_raw sale t a \<in> \<int> \<and> 0 \<le> reward_raw sale t a"
  using integer_of_iff [of a] by (cases t) (auto simp: reward_raw_def amount_ok_def MAX_PERCENT_BPS_def)

lemma reward_cents_bounds:
  assumes "amount_ok t a" "0 < sale"
  shows "of_int \<lfloor>reward_cents sale t a cap\<rfloor> = reward_cents sale t a cap" "0 \<le> reward_cents sale t a cap"
    "reward_cents sale t a cap \<le> sale"
proof -
  have raw: "reward_raw sale t a \<in> \<int>" "0 \<le> reward_raw sale t a" using reward_raw_ints [OF assms] by auto
  have cap: "c \<in> \<int>" if "integer_of c \<noteq> None" for c using that integer_of_iff by blast
  have "reward_cents sale t a cap \<in> \<int>"
    using raw cap by (auto simp: reward_cents_def Let_def min_def split: option.split)
  then show "of_int \<lfloor>reward_cents sale t a cap\<rfloor> = reward_cents sale t a cap" by (auto elim: Ints_cases)
  show "0 \<le> reward_cents sale t a cap" "reward_cents sale t a cap \<le> sale"
    using raw assms(2) of_int_floor_le [of sale]
    by (auto simp: reward_cents_def Let_def min_def simp del: of_int_floor_le split: option.split)
qed

text \<open>What a result must be: whole cents between nothing and the sale.\<close>

definition pays_within :: "rat \<Rightarrow> rat \<Rightarrow> bool" where
  "pays_within sale c = (of_int \<lfloor>c\<rfloor> = c \<and> 0 \<le> c \<and> c \<le> sale)"

lemma compute_reward_within:
  assumes "case d of None \<Rightarrow> True | Some d \<Rightarrow> amount_ok (rd_type d) (rd_amount d)" "0 < sale"
  shows "pays_within sale (fst (compute_reward sale md rules d))"
proof (cases "match_rule rules md (Some sale)")
  case None
  then show ?thesis using assms reward_cents_bounds by (cases d) (auto simp: compute_reward_def pays_within_def)
next
  case (Some r)
  then have "amount_ok (rw_type r) (rw_amount r)" using match_rule_in rule_applies_valid valid_rule_amount by blast
  then show ?thesis using assms(2) Some reward_cents_bounds by (auto simp: compute_reward_def pays_within_def)
qed

text \<open>The scope that decides: the first that matches a rule or has a fallback.\<close>

definition scope_decides :: "rat \<Rightarrow> metadata \<Rightarrow> reward_scope \<Rightarrow> bool" where
  "scope_decides sale md s = (match_rule (rs_rules s) md (Some sale) \<noteq> None \<or> rs_fallback s \<noteq> None)"

lemma resolve_from_first:
  "rt_scopeIndex (resolve_from i sale md scopes) = None \<longleftrightarrow> list_all (\<lambda>s. \<not> scope_decides sale md s) scopes"
  "rt_scopeIndex (resolve_from i sale md scopes) = Some j \<Longrightarrow> i \<le> j \<and> j - i < length scopes \<and>
    scope_decides sale md (scopes ! (j - i)) \<and> list_all (\<lambda>s. \<not> scope_decides sale md s) (take (j - i) scopes)"
proof (induction i sale md scopes rule: resolve_from.induct)
  case (2 i sale md s ss)
  { case 1
    show ?case using 2(1) by (auto simp: scope_decides_def split: prod.split)
  next
    case prem: 2
    show ?case
    proof (cases "scope_decides sale md s")
      case True
      then show ?thesis using prem by (auto simp: scope_decides_def split: prod.splits)
    next
      case False
      then have "i < j" "j - i = Suc (j - Suc i)" "rt_scopeIndex (resolve_from (Suc i) sale md ss) = Some j"
        using prem 2(2) by (fastforce simp: scope_decides_def)+
      then show ?thesis using 2(2) False by (auto simp: scope_decides_def)
    qed }
qed simp_all

lemma resolve_from_within:
  "list_all scope_ok scopes \<Longrightarrow> 0 < sale \<Longrightarrow> pays_within sale (rt_cents (resolve_from i sale md scopes))"
proof (induction i sale md scopes rule: resolve_from.induct)
  case (2 i sale md s ss)
  have "pays_within sale (fst (compute_reward sale md (rs_rules s) (rs_fallback s)))"
    using 2 by (intro compute_reward_within) (auto simp: scope_ok_def split: option.splits)
  then show ?case using 2 by (auto split: prod.split)
qed (simp add: pays_within_def)

lemma resolve_from_nothing: "\<not> 0 < sale \<Longrightarrow> rt_cents (resolve_from i sale md scopes) = 0"
  by (induction i sale md scopes rule: resolve_from.induct) (auto simp: compute_reward_def split: prod.split)

text \<open>
  A sale never pays more than itself, and the most specific scope decides.  With fallbacks
  that \<open>parseDefault\<close> accepts, the commission is a whole number of cents between nothing and the
  sale, nothing for a sale that is not positive; and the scope it names is the first that
  matches a rule or has a fallback.
\<close>

lemma resolve_reward_within:
  assumes "list_all scope_ok scopes"
  shows "pays_within (max 0 sale) (rt_cents (resolve_reward sale md scopes))
    \<and> (case rt_scopeIndex (resolve_reward sale md scopes) of
        None \<Rightarrow> list_all (\<lambda>s. \<not> scope_decides sale md s) scopes
      | Some j \<Rightarrow> j < length scopes \<and> scope_decides sale md (scopes ! j) \<and> list_all (\<lambda>s. \<not> scope_decides sale md s) (take j scopes))"
proof
  show "pays_within (max 0 sale) (rt_cents (resolve_reward sale md scopes))"
    using resolve_from_within [OF assms, of sale 0 md] resolve_from_nothing [of sale 0 md scopes]
    by (cases "0 < sale") (auto simp: resolve_reward_def pays_within_def max_def)
  show "case rt_scopeIndex (resolve_reward sale md scopes) of
        None \<Rightarrow> list_all (\<lambda>s. \<not> scope_decides sale md s) scopes
      | Some j \<Rightarrow> j < length scopes \<and> scope_decides sale md (scopes ! j) \<and> list_all (\<lambda>s. \<not> scope_decides sale md s) (take j scopes)"
    using resolve_from_first(1) [of 0 sale md scopes] resolve_from_first(2) [of 0 sale md scopes]
    by (auto simp: resolve_reward_def split: option.split)
qed

section \<open>Witnesses\<close>

definition sample_rule :: "string \<Rightarrow> rat \<Rightarrow> rat option \<Rightarrow> reward_rule" where
  "sample_rule i prio low = \<lparr>rw_id = i, rw_key = ''plan'', rw_equals = [''pro''], rw_type = RewardPercent, rw_amount = 1000,
     rw_priority = Some prio, rw_capCents = Some 500, rw_minSaleCents = low, rw_maxSaleCents = None\<rparr>"

definition sample_rules :: "reward_rule list" where
  "sample_rules = [sample_rule ''late'' 2 (Some 100), sample_rule ''early'' 1 None]"

definition sample_sale :: metadata where
  "sample_sale = [''plan'' \<mapsto> JStr ''pro'']"

lemma sample_match: "match_rule sample_rules sample_sale (Some 2000) = Some (sample_rule ''early'' 1 None)"
  by code_simp

lemma shadowed_rules_never_match_witness:
  "find_shadowed_rules sample_rules = [(''late'', ''early'')] \<and> ''early'' \<notin> fst ` set (find_shadowed_rules sample_rules)"
proof
  show "find_shadowed_rules sample_rules = [(''late'', ''early'')]" by code_simp
  show "''early'' \<notin> fst ` set (find_shadowed_rules sample_rules)"
    using shadowed_rules_never_match [OF _ _ sample_match] by (simp add: sample_rules_def sample_rule_def)
qed

lemma sample_parsed: "parse_rules (Some (JArr (map rule_json sample_rules))) = Inr sample_rules"
  by code_simp

theorem parse_rules_wellformed_witness: "list_all rule_ok sample_rules"
  using parse_rules_wellformed [OF sample_parsed] by blast

end
