(* ===== verification/Commissions.thy ===== *)
theory Commissions
  imports Rewards JsDate
begin

text \<open>
  Commissions (\<open>src/lib/commissions.ts\<close>): the reward scopes of a link, the commission of a
  conversion, refunds, the status life cycle, the CSV export and who may configure a link.
  A refund reads its commission and then updates it, so it is two steps.
\<close>

section \<open>Metadata and scopes\<close>

text \<open>\<open>scalarMetadata\<close>: the scalar entries, later sources over earlier ones.\<close>

definition scalar_entries :: "json \<Rightarrow> (string \<times> string) list" where
  "scalar_entries source = (case source of
       JObj fs \<Rightarrow> List.map_filter (\<lambda>(k, v). case v of
           JStr s \<Rightarrow> Some (k, s) | JInt i \<Rightarrow> Some (k, js_string v) | JFrac q \<Rightarrow> Some (k, js_string v)
         | JBool b \<Rightarrow> Some (k, js_string v) | _ \<Rightarrow> None) fs
     | _ \<Rightarrow> [])"

definition scalar_metadata :: "json list \<Rightarrow> string \<Rightarrow> string option" where
  "scalar_metadata sources = foldl (\<lambda>m source. foldl (\<lambda>m (k, v). m(k \<mapsto> v)) m (scalar_entries source)) Map.empty sources"

definition ACCOUNT_SCOPE :: string where "ACCOUNT_SCOPE = ''account''"

definition link_scope_key :: "string \<Rightarrow> string" where
  "link_scope_key urlId = ''link:'' @ urlId"

record reward_config =
  rc_userId :: string
  rc_scopeKey :: string
  rc_rules :: string
  rc_fallback :: "string option"

text \<open>A stored configuration, when both columns parse; an empty fallback column is null.\<close>

definition config_scope :: "reward_config \<Rightarrow> reward_scope option" where
  "config_scope row =
     (case (parse_json (rc_rules row), if str_truthy (rc_fallback row) then parse_json (the (rc_fallback row)) else Some JNull) of
        (Some rules, Some fallback) \<Rightarrow>
          (case (parse_rules (Some rules), parse_default (Some fallback)) of
             (Inr rs, Inr d) \<Rightarrow> Some \<lparr>rs_rules = rs, rs_fallback = d\<rparr>
           | _ \<Rightarrow> None)
      | _ \<Rightarrow> None)"

definition load_reward_scopes :: "reward_config list \<Rightarrow> string \<Rightarrow> string \<Rightarrow> (string \<times> reward_scope) list" where
  "load_reward_scopes rows userId urlId =
     List.map_filter (\<lambda>key. case find (\<lambda>r. rc_userId r = userId \<and> rc_scopeKey r = key) rows of
         Some row \<Rightarrow> map_option (\<lambda>s. (key, s)) (config_scope row)
       | None \<Rightarrow> None) [link_scope_key urlId, ACCOUNT_SCOPE]"

section \<open>Commissions\<close>

datatype commission_status = Pending | Approved | Paid | Reversed

record commission =
  cm_id :: string
  cm_userId :: string
  cm_urlId :: string
  cm_conversionId :: string
  cm_saleValueCents :: int
  cm_originalCents :: int
  cm_amountCents :: int
  cm_clawbackCents :: int
  cm_currency :: "string option"
  cm_status :: commission_status
  cm_ruleId :: "string option"
  cm_scopeKey :: "string option"
  cm_holdUntil :: "js_date option"
  cm_createdAt :: js_date
  cm_approvedAt :: "js_date option"
  cm_paidAt :: "js_date option"
  cm_payoutRef :: "string option"

type_synonym commission_table = "commission list"

definition COMMISSION_HOLD_DAYS :: int where "COMMISSION_HOLD_DAYS = 30"

record sale_input =
  si_userId :: string
  si_urlId :: string
  si_conversionId :: string
  si_saleValueCents :: int
  si_currency :: "string option"
  si_metadata :: "string \<Rightarrow> string option"
  si_now :: js_date

definition sale_commission :: "reward_config list \<Rightarrow> string \<Rightarrow> sale_input \<Rightarrow> commission option" where
  "sale_commission configs newId s =
     (if si_saleValueCents s \<le> 0 then None
      else (let scopes = load_reward_scopes configs (si_userId s) (si_urlId s);
                r = resolve_reward (of_int (si_saleValueCents s)) (\<lambda>k. map_option JStr (si_metadata s k)) (map snd scopes)
            in if scopes = [] then None
               else (case rt_scopeIndex r of
                   None \<Rightarrow> None
                 | Some i \<Rightarrow> if rt_cents r \<le> 0 then None
                     else Some \<lparr>cm_id = newId, cm_userId = si_userId s, cm_urlId = si_urlId s, cm_conversionId = si_conversionId s,
                       cm_saleValueCents = si_saleValueCents s, cm_originalCents = \<lfloor>rt_cents r\<rfloor>, cm_amountCents = \<lfloor>rt_cents r\<rfloor>,
                       cm_clawbackCents = 0, cm_currency = si_currency s, cm_status = Pending, cm_ruleId = rt_ruleId r,
                       cm_scopeKey = Some (fst (scopes ! i)), cm_holdUntil = Some (si_now s + COMMISSION_HOLD_DAYS * 86400000),
                       cm_createdAt = si_now s, cm_approvedAt = None, cm_paidAt = None, cm_payoutRef = None\<rparr>)))"

text \<open>The insert fails when the id or the conversion already has a row (both are unique).\<close>

definition record_commission :: "reward_config list \<Rightarrow> commission_table \<Rightarrow> string \<Rightarrow> sale_input \<Rightarrow> (commission_table \<times> commission option) thrown" where
  "record_commission configs t newId s = (case sale_commission configs newId s of
       None \<Rightarrow> Inr (t, None)
     | Some c \<Rightarrow> if list_ex (\<lambda>r. cm_conversionId r = si_conversionId s \<or> cm_id r = newId) t then Inl ''P2002''
         else Inr (t @ [c], Some c))"

section \<open>Refunds\<close>

definition commission_after_refund :: "int \<Rightarrow> int \<Rightarrow> int \<Rightarrow> int" where
  "commission_after_refund originalCents saleValueCents refundedCents =
     (if saleValueCents \<le> 0 then 0
      else (let kept = max 0 (saleValueCents - max 0 refundedCents)
            in min originalCents (originalCents * kept div saleValueCents)))"

text \<open>What the update writes for the row that was read: \<open>None\<close> leaves it alone.\<close>

definition refund_update :: "commission \<Rightarrow> int \<Rightarrow> (commission \<Rightarrow> commission) option" where
  "refund_update row refundedTotalCents =
     (let owed = commission_after_refund (cm_originalCents row) (cm_saleValueCents row) refundedTotalCents;
          reduction = cm_originalCents row - owed
      in if cm_status row = Paid
         then (if reduction = cm_clawbackCents row then None else Some (cm_clawbackCents_update (\<lambda>_. reduction)))
         else if cm_status row = Reversed then None
         else Some (\<lambda>r. r\<lparr>cm_amountCents := owed, cm_status := (if owed = 0 then Reversed else cm_status row)\<rparr>))"

definition update_row :: "commission_table \<Rightarrow> string \<Rightarrow> (commission \<Rightarrow> commission) \<Rightarrow> commission_table" where
  "update_row t i f = map (\<lambda>r. if cm_id r = i then f r else r) t"

definition find_by_conversion :: "commission_table \<Rightarrow> string \<Rightarrow> commission option" where
  "find_by_conversion t conversionId = find (\<lambda>r. cm_conversionId r = conversionId) t"

text \<open>The second step, on the row that the first one read.\<close>

definition refund_write :: "commission_table \<Rightarrow> commission \<Rightarrow> int \<Rightarrow> commission_table" where
  "refund_write t row refundedTotalCents = (case refund_update row refundedTotalCents of
       None \<Rightarrow> t | Some f \<Rightarrow> update_row t (cm_id row) f)"

text \<open>Both steps with nothing in between.\<close>

definition apply_refund_to_commission :: "commission_table \<Rightarrow> string \<Rightarrow> int \<Rightarrow> commission_table" where
  "apply_refund_to_commission t conversionId refundedTotalCents = (case find_by_conversion t conversionId of
       None \<Rightarrow> t | Some row \<Rightarrow> refund_write t row refundedTotalCents)"

section \<open>Life cycle\<close>

datatype commission_action = Approve | Pay | Reverse

fun transition_from :: "commission_action \<Rightarrow> commission_status list" where
  "transition_from Approve = [Pending]"
| "transition_from Pay = [Approved]"
| "transition_from Reverse = [Pending, Approved]"

fun transition_to :: "commission_action \<Rightarrow> commission_status" where
  "transition_to Approve = Approved"
| "transition_to Pay = Paid"
| "transition_to Reverse = Reversed"

definition transition_row :: "commission_action \<Rightarrow> string option \<Rightarrow> js_date \<Rightarrow> commission \<Rightarrow> commission" where
  "transition_row action payoutRef now r =
     (let moved = r\<lparr>cm_status := transition_to action\<rparr>
      in (case action of
           Approve \<Rightarrow> moved\<lparr>cm_approvedAt := Some now\<rparr>
         | Pay \<Rightarrow> moved\<lparr>cm_paidAt := Some now, cm_payoutRef := payoutRef\<rparr>
         | Reverse \<Rightarrow> moved))"

definition in_transition :: "string \<Rightarrow> commission_action \<Rightarrow> string list \<Rightarrow> commission \<Rightarrow> bool" where
  "in_transition userId action ids r = (cm_id r \<in> set ids \<and> cm_userId r = userId \<and> cm_status r \<in> set (transition_from action))"

definition transition_commissions ::
  "commission_table \<Rightarrow> string \<Rightarrow> commission_action \<Rightarrow> string list \<Rightarrow> string option \<Rightarrow> js_date \<Rightarrow> commission_table \<times> nat" where
  "transition_commissions t userId action ids payoutRef now =
     (if ids = [] then (t, 0)
      else (map (\<lambda>r. if in_transition userId action ids r then transition_row action payoutRef now r else r) t,
            length (filter (in_transition userId action ids) t)))"

section \<open>Export\<close>

definition csv_cell :: "string option \<Rightarrow> string" where
  "csv_cell value =
     (let raw = coalesce value [];
          safe = (case raw of c # _ \<Rightarrow> if c \<in> set [CHR ''='', CHR ''+'', CHR ''-'', CHR ''@'', CHR 0x09, CHR 0x0D] then CHR 0x27 # raw else raw | [] \<Rightarrow> raw)
      in if list_ex (\<lambda>c. c \<in> set [CHR 0x22, CHR '','', CHR 0x0D, CHR 0x0A]) safe
         then CHR 0x22 # concat (map (\<lambda>c. if c = CHR 0x22 then [c, c] else [c]) safe) @ [CHR 0x22] else safe)"

definition money :: "int \<Rightarrow> string" where
  "money cents = to_fixed2 (of_int cents / 100)"

definition CSV_FIELDS :: "string list" where
  "CSV_FIELDS = [''commission_id'', ''link'', ''conversion_id'', ''sale'', ''currency'', ''commission'', ''clawback'', ''net_payable'',
     ''status'', ''rule'', ''scope'', ''created_at'', ''approved_at'', ''paid_at'', ''payout_ref'']"

fun status_text :: "commission_status \<Rightarrow> string" where
  "status_text Pending = ''pending''"
| "status_text Approved = ''approved''"
| "status_text Paid = ''paid''"
| "status_text Reversed = ''reversed''"

definition net_payable :: "commission \<Rightarrow> int" where
  "net_payable r = max 0 (cm_amountCents r - cm_clawbackCents r)"

definition csv_line :: "string \<times> commission \<Rightarrow> string" where
  "csv_line row = (case row of (shortCode, r) \<Rightarrow> join_with '','' (map csv_cell
     [Some (cm_id r), Some shortCode, Some (cm_conversionId r), Some (money (cm_saleValueCents r)), cm_currency r,
      Some (money (cm_amountCents r)), Some (money (cm_clawbackCents r)), Some (money (net_payable r)), Some (status_text (cm_status r)),
      cm_ruleId r, cm_scopeKey r, Some (iso_text (cm_createdAt r)), map_option iso_text (cm_approvedAt r),
      map_option iso_text (cm_paidAt r), cm_payoutRef r]))"

definition commissions_to_csv :: "(string \<times> commission) list \<Rightarrow> string" where
  "commissions_to_csv rows = (let crlf = [CHR 0x0D, CHR 0x0A]
     in join_with crlf (join_with '','' CSV_FIELDS # map csv_line rows) @ crlf)"

section \<open>Permission\<close>

record owned_link =
  ol_id :: string
  ol_userId :: "string option"
  ol_workspaceId :: "string option"

text \<open>\<open>roles\<close> gives the role of a member of a workspace.\<close>

definition can_configure_link :: "owned_link list \<Rightarrow> (string \<Rightarrow> string \<Rightarrow> string option) \<Rightarrow> string \<Rightarrow> string \<Rightarrow> bool" where
  "can_configure_link links roles userId urlId = (case find (\<lambda>l. ol_id l = urlId) links of
       None \<Rightarrow> False
     | Some l \<Rightarrow>
        if ol_userId l = Some userId then True
        else if \<not> str_truthy (ol_workspaceId l) then False
        else (case roles (the (ol_workspaceId l)) userId of None \<Rightarrow> False | Some r \<Rightarrow> r \<in> set [''owner'', ''admin'', ''editor'']))"

section \<open>The ledger\<close>

datatype commission_op =
    RecordOp string sale_input
  | RefundOp string int
  | TransitionOp string commission_action "string list" "string option" js_date

definition apply_op :: "reward_config list \<Rightarrow> commission_table \<Rightarrow> commission_op \<Rightarrow> commission_table" where
  "apply_op configs t op = (case op of
       RecordOp newId s \<Rightarrow> (case record_commission configs t newId s of Inr (t', _) \<Rightarrow> t' | Inl _ \<Rightarrow> t)
     | RefundOp conversionId refundedTotal \<Rightarrow> apply_refund_to_commission t conversionId refundedTotal
     | TransitionOp userId action ids payoutRef now \<Rightarrow> fst (transition_commissions t userId action ids payoutRef now))"

definition apply_ops :: "reward_config list \<Rightarrow> commission_table \<Rightarrow> commission_op list \<Rightarrow> commission_table" where
  "apply_ops configs t ops = foldl (apply_op configs) t ops"

definition commission_ok :: "commission \<Rightarrow> bool" where
  "commission_ok r = (0 \<le> cm_amountCents r \<and> cm_amountCents r \<le> cm_originalCents r \<and> 0 < cm_originalCents r \<and>
     cm_originalCents r \<le> cm_saleValueCents r \<and> 0 \<le> cm_clawbackCents r \<and> cm_clawbackCents r \<le> cm_originalCents r \<and>
     (cm_status r \<noteq> Paid \<longrightarrow> cm_clawbackCents r = 0) \<and> (cm_paidAt r \<noteq> None) = (cm_status r = Paid))"

definition ledger_ok :: "commission_table \<Rightarrow> bool" where
  "ledger_ok t = (list_all commission_ok t \<and> distinct (map cm_id t) \<and> distinct (map cm_conversionId t))"

text \<open>What a row may become: its sale stays, a payment is final, a reversal is final.\<close>

definition same_payment :: "commission \<Rightarrow> commission \<Rightarrow> bool" where
  "same_payment r r' = (cm_status r' = cm_status r \<and> cm_amountCents r' = cm_amountCents r \<and> cm_paidAt r' = cm_paidAt r \<and>
     cm_payoutRef r' = cm_payoutRef r)"

definition evolves :: "commission \<Rightarrow> commission \<Rightarrow> bool" where
  "evolves r r' = (cm_id r' = cm_id r \<and> cm_conversionId r' = cm_conversionId r \<and> cm_originalCents r' = cm_originalCents r \<and>
     cm_saleValueCents r' = cm_saleValueCents r \<and> (cm_status r \<in> {Paid, Reversed} \<longrightarrow> same_payment r r'))"

lemma evolves_refl [simp]: "evolves r r"
  by (simp add: evolves_def same_payment_def)

lemma evolves_trans: "evolves a b \<Longrightarrow> evolves b c \<Longrightarrow> evolves a c"
  by (auto simp: evolves_def same_payment_def)

lemma after_refund_bounds:
  assumes "0 < sale" "0 \<le> original"
  shows "0 \<le> commission_after_refund original sale f" "commission_after_refund original sale f \<le> original"
  using assms by (simp_all add: commission_after_refund_def Let_def pos_imp_zdiv_nonneg_iff)

text \<open>The commission owed is the share of what was kept, rounded down; a full refund leaves nothing.\<close>

lemma after_refund_floor:
  assumes "0 < sale" "0 \<le> original" "0 \<le> f" "f \<le> sale"
  shows "commission_after_refund original sale f * sale \<le> original * (sale - f)"
    and "original * (sale - f) < (commission_after_refund original sale f + 1) * sale"
proof -
  define a where "a = original * (sale - f)"
  have le: "a div sale \<le> original"
    using zdiv_mono1 [of "original * (sale - f)" "original * sale" sale] assms by (simp add: mult_left_mono a_def)
  have eq: "commission_after_refund original sale f = a div sale"
    using assms le by (simp add: commission_after_refund_def Let_def max_def min_def a_def)
  have "a = a div sale * sale + a mod sale" by simp
  moreover have "0 \<le> a mod sale" "a mod sale < sale" using assms(1) by simp_all
  ultimately show "commission_after_refund original sale f * sale \<le> original * (sale - f)"
    "original * (sale - f) < (commission_after_refund original sale f + 1) * sale"
    unfolding eq a_def [symmetric] by (simp_all only: distrib_right mult_1)
qed

lemma refund_update_evolves:
  assumes "commission_ok r" "refund_update r f = Some g"
  shows "evolves r (g r)" "commission_ok (g r)"
  using assms after_refund_bounds [of "cm_saleValueCents r" "cm_originalCents r" f]
  by (auto simp: refund_update_def evolves_def same_payment_def commission_ok_def Let_def split: if_splits)

lemma transition_evolves:
  assumes "commission_ok r" "in_transition userId action ids r"
  shows "evolves r (transition_row action payoutRef now r)" "commission_ok (transition_row action payoutRef now r)"
    "cm_id (transition_row action payoutRef now r) = cm_id r" "cm_conversionId (transition_row action payoutRef now r) = cm_conversionId r"
  using assms by (cases action; auto simp: in_transition_def transition_row_def evolves_def same_payment_def commission_ok_def Let_def)+

definition rows_evolve :: "commission_table \<Rightarrow> commission_table \<Rightarrow> bool" where
  "rows_evolve t t' = (list_all2 evolves t (take (length t) t') \<and> length t \<le> length t')"

lemma rows_evolve_map: "(\<And>r. r \<in> set t \<Longrightarrow> evolves r (f r)) \<Longrightarrow> rows_evolve t (map f t)"
  by (simp add: rows_evolve_def list_all2_conv_all_nth)

lemma rows_evolve_trans: "rows_evolve a b \<Longrightarrow> rows_evolve b c \<Longrightarrow> rows_evolve a c"
  by (auto simp: rows_evolve_def list_all2_conv_all_nth intro: evolves_trans)

lemma ledger_map:
  assumes "ledger_ok t" "\<And>r. r \<in> set t \<Longrightarrow> evolves r (f r)" "\<And>r. r \<in> set t \<Longrightarrow> commission_ok (f r)"
  shows "ledger_ok (map f t)" "rows_evolve t (map f t)"
proof -
  have "map cm_id (map f t) = map cm_id t" "map cm_conversionId (map f t) = map cm_conversionId t"
    using assms(2) by (simp_all add: evolves_def)
  then show "ledger_ok (map f t)" using assms(1,3) unfolding ledger_ok_def by (simp only:) (simp add: list_all_iff)
qed (use assms(2) in \<open>rule rows_evolve_map\<close>)

lemma config_scope_ok: "config_scope row = Some s \<Longrightarrow> scope_ok s"
  by (auto simp: config_scope_def scope_ok_def dest!: parse_default_ok split: option.splits sum.splits if_splits)

lemma load_reward_scopes_ok: "list_all scope_ok (map snd (load_reward_scopes configs userId urlId))"
  by (auto simp: load_reward_scopes_def list_all_iff map_filter_def dest: config_scope_ok split: option.splits)

lemma load_reward_scopes_keys: "subseq (map fst (load_reward_scopes configs userId urlId)) [link_scope_key urlId, ACCOUNT_SCOPE]"
  by (auto simp: load_reward_scopes_def map_filter_simps split: option.split)


lemma sale_commission_ok:
  assumes "sale_commission configs newId s = Some c"
  shows "commission_ok c" "cm_conversionId c = si_conversionId s" "cm_id c = newId"
proof -
  let ?scopes = "map snd (load_reward_scopes configs (si_userId s) (si_urlId s))"
  let ?r = "resolve_reward (of_int (si_saleValueCents s)) (\<lambda>k. map_option JStr (si_metadata s k)) ?scopes"
  have sale: "0 < si_saleValueCents s" and pos: "0 < rt_cents ?r"
    and c: "cm_originalCents c = \<lfloor>rt_cents ?r\<rfloor>" "cm_amountCents c = \<lfloor>rt_cents ?r\<rfloor>" "cm_clawbackCents c = 0"
      "cm_saleValueCents c = si_saleValueCents s" "cm_status c = Pending" "cm_paidAt c = None"
    and ids: "cm_conversionId c = si_conversionId s" "cm_id c = newId"
    using assms by (auto simp: sale_commission_def Let_def not_le split: if_splits option.splits)
  have "pays_within (of_int (si_saleValueCents s)) (rt_cents ?r)"
    using resolve_from_within [of ?scopes "of_int (si_saleValueCents s)" 0 "\<lambda>k. map_option JStr (si_metadata s k)"] sale
      load_reward_scopes_ok
    by (simp add: resolve_reward_def)
  then have "\<lfloor>rt_cents ?r\<rfloor> \<le> si_saleValueCents s" "0 < \<lfloor>rt_cents ?r\<rfloor>"
    using pos by (metis pays_within_def of_int_le_iff, metis pays_within_def of_int_0_less_iff)
  then show "commission_ok c" using c by (simp add: commission_ok_def)
qed (use assms in \<open>auto simp: sale_commission_def Let_def split: if_splits option.splits\<close>)

lemma refund_write_ok:
  assumes "ledger_ok t" "row \<in> set t"
  shows "ledger_ok (refund_write t row f)" "rows_evolve t (refund_write t row f)"
proof -
  have same: "r = row" if "r \<in> set t" "cm_id r = cm_id row" for r
    using assms that by (auto simp: ledger_ok_def distinct_map dest: inj_onD)
  have ok: "commission_ok r" if "r \<in> set t" for r using assms(1) that by (simp add: ledger_ok_def list_all_iff)
  have "ledger_ok (refund_write t row f) \<and> rows_evolve t (refund_write t row f)"
  proof (cases "refund_update row f")
    case None
    then show ?thesis using assms(1) rows_evolve_map [of t "\<lambda>r. r"] by (simp add: refund_write_def)
  next
    case (Some g)
    have "evolves r (if cm_id r = cm_id row then g r else r)" "commission_ok (if cm_id r = cm_id row then g r else r)" if "r \<in> set t" for r
      using refund_update_evolves [OF ok Some] same [OF that] ok [OF that] assms(2) by auto
    then show ?thesis using ledger_map [OF assms(1)] Some by (simp add: refund_write_def update_row_def)
  qed
  then show "ledger_ok (refund_write t row f)" "rows_evolve t (refund_write t row f)" by auto
qed

lemma apply_op_ok:
  assumes "ledger_ok t"
  shows "ledger_ok (apply_op configs t op) \<and> rows_evolve t (apply_op configs t op)"
proof -
  have refl: "rows_evolve t t" using rows_evolve_map [of t "\<lambda>r. r"] by simp
  show ?thesis
  proof (cases op)
    case (RecordOp newId s)
    show ?thesis
    proof (cases "sale_commission configs newId s")
      case None
      then show ?thesis using assms refl RecordOp by (simp add: apply_op_def record_commission_def)
    next
      case (Some c)
      then show ?thesis using assms refl RecordOp sale_commission_ok [OF Some]
        by (auto simp: apply_op_def record_commission_def ledger_ok_def list_ex_iff rows_evolve_def)
    qed
  next
    case (RefundOp conv f)
    show ?thesis
    proof (cases "find_by_conversion t conv")
      case None
      then show ?thesis using assms refl RefundOp by (simp add: apply_op_def apply_refund_to_commission_def)
    next
      case (Some row)
      then have "row \<in> set t" by (metis find_by_conversion_def find_Some_iff nth_mem)
      then show ?thesis using refund_write_ok [OF assms] RefundOp Some by (simp add: apply_op_def apply_refund_to_commission_def)
    qed
  next
    case (TransitionOp userId action ids payoutRef now)
    have ok: "commission_ok r" if "r \<in> set t" for r using assms that by (simp add: ledger_ok_def list_all_iff)
    show ?thesis
      using ledger_map [OF assms, of "\<lambda>r. if in_transition userId action ids r then transition_row action payoutRef now r else r"]
        transition_evolves ok assms refl TransitionOp
      by (auto simp: apply_op_def transition_commissions_def)
  qed
qed

lemma apply_ops_ok: "ledger_ok t \<Longrightarrow> ledger_ok (apply_ops configs t ops) \<and> rows_evolve t (apply_ops configs t ops)"
proof (induction ops arbitrary: t)
  case Nil
  then show ?case using rows_evolve_map [of t "\<lambda>r. r"] by (simp add: apply_ops_def)
next
  case (Cons op ops)
  then show ?case using apply_op_ok [of t configs op] rows_evolve_trans by (fastforce simp: apply_ops_def)
qed

text \<open>
  C11: The commission ledger stays sound and a payment is final.  After any sequence of
  recordings, refunds and status changes from the empty table, every conversion has at most one
  commission, between nothing and its original, which is at most the sale, and a row has a
  payment date exactly when it is paid; and whatever happens next, a paid row changes in its
  clawback only and a reversed one not at all.
\<close>

theorem commission_ledger_sound:
  "ledger_ok (apply_ops configs [] ops) \<and>
    rows_evolve (apply_ops configs [] ops) (apply_ops configs (apply_ops configs [] ops) later)"
proof -
  have "ledger_ok (apply_ops configs [] ops)" using apply_ops_ok [of "[]" configs ops] by (simp add: ledger_ok_def)
  then show ?thesis using apply_ops_ok by blast
qed

section \<open>Stale refunds\<close>

text \<open>
  A refund reads a commission and writes it back by its id, so a pay-out action may fall in between.
  Whatever the row has become, the amounts stay in their bounds and the sale of a row stays.
\<close>

definition commission_bounds :: "commission \<Rightarrow> bool" where
  "commission_bounds r = (0 \<le> cm_amountCents r \<and> cm_amountCents r \<le> cm_originalCents r \<and> 0 < cm_originalCents r \<and>
     cm_originalCents r \<le> cm_saleValueCents r \<and> 0 \<le> cm_clawbackCents r \<and> cm_clawbackCents r \<le> cm_originalCents r)"

definition ledger_bounds :: "commission_table \<Rightarrow> bool" where
  "ledger_bounds t = (list_all commission_bounds t \<and> distinct (map cm_id t) \<and> distinct (map cm_conversionId t))"

definition same_sale :: "commission \<Rightarrow> commission \<Rightarrow> bool" where
  "same_sale r r' = (cm_id r' = cm_id r \<and> cm_conversionId r' = cm_conversionId r \<and> cm_originalCents r' = cm_originalCents r \<and>
     cm_saleValueCents r' = cm_saleValueCents r)"

definition rows_keep :: "commission_table \<Rightarrow> commission_table \<Rightarrow> bool" where
  "rows_keep t t' = (\<forall>r \<in> set t. \<exists>r' \<in> set t'. same_sale r r')"

lemma rows_keep_refl [simp]: "rows_keep t t"
  by (auto simp: rows_keep_def same_sale_def)

lemma rows_keep_trans: "rows_keep a b \<Longrightarrow> rows_keep b c \<Longrightarrow> rows_keep a c"
  unfolding rows_keep_def same_sale_def by metis

lemma bounds_map:
  assumes "ledger_bounds t" "\<And>r. r \<in> set t \<Longrightarrow> same_sale r (f r) \<and> commission_bounds (f r)"
  shows "ledger_bounds (map f t)" "rows_keep t (map f t)"
proof -
  have "map cm_id (map f t) = map cm_id t" "map cm_conversionId (map f t) = map cm_conversionId t"
    using assms(2) by (simp_all add: same_sale_def)
  then show "ledger_bounds (map f t)" using assms unfolding ledger_bounds_def by (simp only:) (simp add: list_all_iff)
  show "rows_keep t (map f t)" using assms(2) by (auto simp: rows_keep_def)
qed

lemma record_commission_bounds:
  assumes "record_commission configs t newId s = Inr (t', c)" "ledger_bounds t"
  shows "ledger_bounds t'" "rows_keep t t'"
proof -
  have "t' = t \<or> (\<exists>row. sale_commission configs newId s = Some row \<and> t' = t @ [row] \<and>
      \<not> list_ex (\<lambda>r. cm_conversionId r = si_conversionId s \<or> cm_id r = newId) t)"
    using assms(1) by (auto simp: record_commission_def split: option.splits if_splits)
  then have "ledger_bounds t' \<and> rows_keep t t'"
  proof (elim disjE exE conjE)
    fix row assume row: "sale_commission configs newId s = Some row" "t' = t @ [row]"
      and new: "\<not> list_ex (\<lambda>r. cm_conversionId r = si_conversionId s \<or> cm_id r = newId) t"
    have "commission_bounds row" using sale_commission_ok(1) [OF row(1)] by (simp add: commission_ok_def commission_bounds_def)
    moreover have "cm_id row \<notin> set (map cm_id t)" "cm_conversionId row \<notin> set (map cm_conversionId t)"
      using new sale_commission_ok(2,3) [OF row(1)] by (auto simp: list_ex_iff)
    ultimately show ?thesis using assms(2) by (auto simp: row(2) ledger_bounds_def rows_keep_def same_sale_def)
  qed (use assms(2) in simp)
  then show "ledger_bounds t'" "rows_keep t t'" by simp_all
qed

lemma transition_bounds:
  assumes "ledger_bounds t"
  shows "ledger_bounds (fst (transition_commissions t userId action ids payoutRef now))"
    "rows_keep t (fst (transition_commissions t userId action ids payoutRef now))"
proof -
  let ?f = "\<lambda>r. if in_transition userId action ids r then transition_row action payoutRef now r else r"
  have "same_sale r (?f r) \<and> commission_bounds (?f r)" if "r \<in> set t" for r
  proof -
    have "commission_bounds r" using assms that by (simp add: ledger_bounds_def list_all_iff)
    then show ?thesis by (cases action) (simp_all add: same_sale_def commission_bounds_def transition_row_def Let_def)
  qed
  from bounds_map [OF assms this] assms
  show "ledger_bounds (fst (transition_commissions t userId action ids payoutRef now))"
    "rows_keep t (fst (transition_commissions t userId action ids payoutRef now))"
    by (simp_all add: transition_commissions_def)
qed

text \<open>The row was read from a table the present one keeps.\<close>

lemma refund_write_bounds:
  assumes t: "ledger_bounds t" and row: "row \<in> set old" "rows_keep old t"
  shows "ledger_bounds (refund_write t row f)" "rows_keep t (refund_write t row f)"
proof -
  obtain cur where cur: "cur \<in> set t" "same_sale row cur" using row unfolding rows_keep_def by blast
  have same: "r = cur" if "r \<in> set t" "cm_id r = cm_id row" for r
  proof -
    have "inj_on cm_id (set t)" "cm_id cur = cm_id row" using t cur(2) by (simp_all add: ledger_bounds_def distinct_map same_sale_def)
    then show ?thesis using that cur(1) by (metis inj_onD)
  qed
  have ok: "commission_bounds r" if "r \<in> set t" for r using t that by (simp add: ledger_bounds_def list_all_iff)
  have "ledger_bounds (refund_write t row f) \<and> rows_keep t (refund_write t row f)"
  proof (cases "refund_update row f")
    case None
    then show ?thesis using t by (simp add: refund_write_def)
  next
    case (Some g)
    have g: "same_sale cur (g cur) \<and> commission_bounds (g cur)"
      using Some ok [OF cur(1)] cur(2) after_refund_bounds [of "cm_saleValueCents row" "cm_originalCents row" f]
      by (auto simp: refund_update_def same_sale_def commission_bounds_def Let_def split: if_splits)
    have "same_sale r (if cm_id r = cm_id row then g r else r) \<and> commission_bounds (if cm_id r = cm_id row then g r else r)"
      if "r \<in> set t" for r using g same [OF that] ok [OF that] by (auto simp: same_sale_def)
    from bounds_map [OF t this] show ?thesis using Some by (simp add: refund_write_def update_row_def)
  qed
  then show "ledger_bounds (refund_write t row f)" "rows_keep t (refund_write t row f)" by auto
qed

lemma ledger_ok_bounds: "ledger_ok t \<Longrightarrow> ledger_bounds t"
  by (auto simp: ledger_ok_def ledger_bounds_def list_all_iff commission_ok_def commission_bounds_def)

section \<open>Two defects\<close>

text \<open>
  A refund after the payment computes the clawback from the original commission, also when an
  earlier refund had already reduced what was paid: of a commission of 100 paid as 50 after half
  of the sale was refunded, three quarters refunded leave 25 owed, but the clawback is 75.
\<close>

definition demo_commission :: "commission_status \<Rightarrow> int \<Rightarrow> commission" where
  "demo_commission st amount = \<lparr>cm_id = ''c'', cm_userId = ''u'', cm_urlId = ''l'', cm_conversionId = ''v'', cm_saleValueCents = 1000,
     cm_originalCents = 100, cm_amountCents = amount, cm_clawbackCents = 0, cm_currency = None, cm_status = st, cm_ruleId = None,
     cm_scopeKey = None, cm_holdUntil = None, cm_createdAt = 0, cm_approvedAt = None,
     cm_paidAt = (if st = Paid then Some 5 else None), cm_payoutRef = None\<rparr>"

lemma clawback_counts_twice:
  "map net_payable (apply_refund_to_commission [demo_commission Paid 50] ''v'' 750) = [0]"
  "commission_after_refund 100 1000 750 = 25"
  by (simp_all add: apply_refund_to_commission_def find_by_conversion_def demo_commission_def refund_write_def refund_update_def
      update_row_def commission_after_refund_def net_payable_def)

text \<open>
  The update after the read names only the id and writes back the status it read, so a payment
  between the two is undone: the row is approved again, and can be paid a second time.
\<close>

lemma refund_undoes_payment:
  "map cm_status (refund_write (fst (transition_commissions [demo_commission Approved 100] ''u'' Pay [''c''] None 5))
     (demo_commission Approved 100) 100) = [Approved]"
  by (simp add: transition_commissions_def in_transition_def transition_row_def demo_commission_def refund_write_def refund_update_def
      update_row_def commission_after_refund_def)

end
