(* ===== verification/StripeEvents.thy ===== *)
theory StripeEvents
  imports Tokens Commissions
begin

text \<open>
  Stripe deliveries (\<open>src/lib/stripe-attribution.ts\<close>, first half): the signature header, the
  event envelope, and the sale that a checkout session or an invoice describes.  HMAC is a
  parameter.
\<close>

section \<open>Signatures\<close>

definition STRIPE_SIGNATURE_TOLERANCE_SECONDS :: int where "STRIPE_SIGNATURE_TOLERANCE_SECONDS = 300"
definition MAX_SALE_VALUE_CENTS :: int where "MAX_SALE_VALUE_CENTS = 100000000"
definition ATTRIBUTION_METADATA_KEYS :: "string list" where
  "ATTRIBUTION_METADATA_KEYS = [''ql_attribution'', ''quicklink_attribution'']"

datatype signature_failure = SigMissing | SigMalformed | SigExpired | SigMismatch

type_synonym signature_check = "signature_failure + int"

text \<open>The parts before and after the first equals sign, when something precedes it.\<close>

definition header_part :: "string \<Rightarrow> (string \<times> string) option" where
  "header_part part = (let key = takeWhile (\<lambda>c. c \<noteq> CHR ''='') part
     in if key = [] \<or> length key = length part then None else Some (trim key, trim (drop (length key + 1) part)))"

definition is_hex64 :: "string \<Rightarrow> bool" where
  "is_hex64 s = (length s = 64 \<and> list_all is_hex s)"

text \<open>The timestamp (\<open>None\<close> is \<open>NaN\<close>) and the \<open>v1\<close> signatures, in order.\<close>

fun signature_parts :: "rat option \<Rightarrow> string list \<Rightarrow> string list \<Rightarrow> rat option \<times> string list" where
  "signature_parts t sigs [] = (t, sigs)"
| "signature_parts t sigs (p # ps) = (case header_part p of
       None \<Rightarrow> signature_parts t sigs ps
     | Some (key, v) \<Rightarrow>
        if key = ''t'' then signature_parts (js_number v) sigs ps
        else if key = ''v1'' \<and> is_hex64 v then signature_parts t (sigs @ [to_lower v]) ps
        else signature_parts t sigs ps)"

definition stripe_mac :: "crypto \<Rightarrow> string \<Rightarrow> int \<Rightarrow> string \<Rightarrow> string" where
  "stripe_mac cr secret timestamp rawBody = hex_text (cr_hmac cr secret (int_dec timestamp @ ''.'' @ rawBody))"

definition verify_stripe_signature :: "crypto \<Rightarrow> string \<Rightarrow> string option \<Rightarrow> string \<Rightarrow> int \<Rightarrow> int \<Rightarrow> signature_check" where
  "verify_stripe_signature cr rawBody header secret tolerance nowSeconds =
     (if \<not> str_truthy header \<or> secret = [] then Inl SigMissing
      else (case signature_parts None [] (split_on CHR '','' (the header)) of (t, sigs) \<Rightarrow>
        (case t of
           None \<Rightarrow> Inl SigMalformed
         | Some q \<Rightarrow>
            if \<not> is_safe_integer q \<or> sigs = [] then Inl SigMalformed
            else if \<bar>nowSeconds - \<lfloor>q\<rfloor>\<bar> > tolerance then Inl SigExpired
            else if list_ex (\<lambda>s. utf8 s = utf8 (stripe_mac cr secret \<lfloor>q\<rfloor> rawBody)) sigs then Inr \<lfloor>q\<rfloor>
            else Inl SigMismatch)))"

definition sign_stripe_payload :: "crypto \<Rightarrow> string \<Rightarrow> string \<Rightarrow> int \<Rightarrow> string" where
  "sign_stripe_payload cr rawBody secret timestampSeconds =
     ''t='' @ int_dec timestampSeconds @ '',v1='' @ stripe_mac cr secret timestampSeconds rawBody"

definition is_valid_stripe_signing_secret :: "json \<Rightarrow> bool" where
  "is_valid_stripe_signing_secret v = (case v of
       JStr s \<Rightarrow> prefix ''whsec_'' s \<and> 16 \<le> length s - 6 \<and> length s - 6 \<le> 200 \<and>
         list_all (\<lambda>c. is_alnum c \<or> c \<in> set ''+/=_-'') (drop 6 s)
     | _ \<Rightarrow> False)"

section \<open>Events\<close>

record stripe_event =
  se_id :: string
  se_type :: string
  se_livemode :: "json option"
  se_object :: json

definition parse_stripe_event :: "string \<Rightarrow> stripe_event option" where
  "parse_stripe_event rawBody = (case parse_json rawBody of
       None \<Rightarrow> None
     | Some event \<Rightarrow>
        (case (jstr (jget event ''id''), jstr (jget event ''type''), jget event ''data'') of
           (Some i, Some ty, Some d) \<Rightarrow>
             if \<not> prefix ''evt_'' i \<or> length i > 255 then None
             else (case jget d ''object'' of
                 Some (JObj fs) \<Rightarrow> Some \<lparr>se_id = i, se_type = ty, se_livemode = jget event ''livemode'', se_object = JObj fs\<rparr>
               | Some (JArr xs) \<Rightarrow> Some \<lparr>se_id = i, se_type = ty, se_livemode = jget event ''livemode'', se_object = JArr xs\<rparr>
               | _ \<Rightarrow> None)
         | _ \<Rightarrow> None))"

fun as_record :: "json option \<Rightarrow> json option" where
  "as_record (Some (JObj fs)) = Some (JObj fs)"
| "as_record _ = None"

fun as_string :: "json option \<Rightarrow> string option" where
  "as_string (Some (JStr (c # cs))) = Some (c # cs)"
| "as_string _ = None"

text \<open>Optional chaining, \<open>record?.name\<close>.\<close>

definition prop_of :: "json option \<Rightarrow> string \<Rightarrow> json option" where
  "prop_of r k = Option.bind r (\<lambda>j. jget j k)"

definition id_of :: "json option \<Rightarrow> string option" where
  "id_of v = (case as_string v of Some s \<Rightarrow> Some s | None \<Rightarrow> as_string (prop_of (as_record v) ''id''))"

section \<open>Sales\<close>

fun first_some :: "'a option list \<Rightarrow> 'a option" where
  "first_some [] = None"
| "first_some (Some a # xs) = Some a"
| "first_some (None # xs) = first_some xs"

definition token_from_metadata :: "json option list \<Rightarrow> string option" where
  "token_from_metadata sources = map_option trim
     (first_some (concat (map (\<lambda>s. map (\<lambda>k. as_string (prop_of (as_record s) k)) ATTRIBUTION_METADATA_KEYS) sources)))"

definition sale_metadata :: "json option list \<Rightarrow> string \<Rightarrow> string option" where
  "sale_metadata sources = (\<lambda>k. if k \<in> set ATTRIBUTION_METADATA_KEYS then None
     else scalar_metadata (List.map_filter id sources) k)"

datatype sale_source = FromCheckout | FromInvoice

record sale_candidate =
  sc_saleKey :: string
  sc_token :: "string option"
  sc_customerId :: "string option"
  sc_amountCents :: "rat option"
  sc_currency :: "string option"
  sc_source :: sale_source
  sc_coversInvoiceId :: "string option"
  sc_paymentIntentId :: "string option"
  sc_metadata :: "string \<Rightarrow> string option"

text \<open>\<open>None\<close> is \<open>'unpaid'\<close>.\<close>

definition sale_from_checkout_session :: "json \<Rightarrow> sale_candidate option" where
  "sale_from_checkout_session s =
     (let status = as_string (jget s ''payment_status''); ref = as_string (jget s ''client_reference_id'');
          token = token_from_metadata [jget s ''metadata'']
      in if status \<noteq> Some ''paid'' \<and> status \<noteq> Some ''no_payment_required'' then None
         else Some \<lparr>sc_saleKey = ''checkout:'' @ coalesce (as_string (jget s ''id'')) ''unknown'',
           sc_token = (case token of Some t \<Rightarrow> Some t | None \<Rightarrow> (case ref of Some r \<Rightarrow> if prefix ''v1.'' r then Some r else None | None \<Rightarrow> None)),
           sc_customerId = id_of (jget s ''customer''), sc_amountCents = Option.bind (jget s ''amount_total'') json_num,
           sc_currency = as_string (jget s ''currency''), sc_source = FromCheckout, sc_coversInvoiceId = id_of (jget s ''invoice''),
           sc_paymentIntentId = id_of (jget s ''payment_intent''), sc_metadata = sale_metadata [jget s ''metadata'']\<rparr>)"

definition sale_from_invoice :: "json \<Rightarrow> sale_candidate" where
  "sale_from_invoice i =
     (let own = prop_of (as_record (jget i ''subscription_details'')) ''metadata'';
          parent = prop_of (as_record (prop_of (as_record (jget i ''parent'')) ''subscription_details'')) ''metadata''
      in \<lparr>sc_saleKey = ''invoice:'' @ coalesce (as_string (jget i ''id'')) ''unknown'',
          sc_token = token_from_metadata [jget i ''metadata'', own, parent],
          sc_customerId = id_of (jget i ''customer''), sc_amountCents = Option.bind (jget i ''amount_paid'') json_num,
          sc_currency = as_string (jget i ''currency''), sc_source = FromInvoice, sc_coversInvoiceId = None,
          sc_paymentIntentId = id_of (jget i ''payment_intent''), sc_metadata = sale_metadata [parent, own, jget i ''metadata'']\<rparr>)"

definition normalize_sale_value :: "rat option \<Rightarrow> string option \<Rightarrow> int option \<times> string option" where
  "normalize_sale_value amount currency =
     (let code = (case currency of Some c \<Rightarrow> if length c = 3 \<and> list_all is_alpha c then Some (to_upper c) else None | None \<Rightarrow> None)
      in (case amount of
           None \<Rightarrow> (None, code)
         | Some a \<Rightarrow> (case integer_of a of
             None \<Rightarrow> (None, code)
           | Some i \<Rightarrow> if i < 0 then (None, code) else (Some (min i MAX_SALE_VALUE_CENTS), code))))"

section \<open>Signatures are exact\<close>

definition plain_hex :: "char \<Rightarrow> bool" where
  "plain_hex c = (is_hex c \<and> \<not> is_upper c \<and> c \<noteq> CHR '','' \<and> \<not> is_ws c)"

lemma hex_digit_plain:
  assumes "n < 16"
  shows "plain_hex (hex_digit_char n)"
proof -
  have code: "(of_char (hex_digit_char n) :: nat) = (if n < 10 then n + 48 else n + 87)"
    using assms by (simp add: hex_digit_char_def)
  then have "hex_digit_char n \<noteq> CHR '',''" using assms by (cases "n < 10") (fastforce dest: arg_cong [of _ _ "of_char :: char \<Rightarrow> nat"])+
  then show ?thesis using assms by (auto simp: plain_hex_def is_hex_def is_upper_def is_ws_def code Let_def)
qed

lemma hex_text_char: "c \<in> set (hex_text bs) \<Longrightarrow> plain_hex c"
proof (induction bs)
  case (Cons b bs)
  have "unat b div 16 < 16" "unat b mod 16 < 16" using unat_byte_bound [of b] by (simp_all add: div_less_iff_less_mult)
  then have d: "plain_hex (hex_digit_char (unat b div 16))" "plain_hex (hex_digit_char (unat b mod 16))"
    by (blast intro: hex_digit_plain)+
  have "c = hex_digit_char (unat b div 16) \<or> c = hex_digit_char (unat b mod 16) \<or> c \<in> set (hex_text bs)"
    using Cons.prems by (simp add: hex_text_def)
  then show ?case using d Cons.IH by blast
qed (simp add: hex_text_def)

lemma hex_text_plain:
  "is_hex64 (hex_text bs) = (length bs = 32)" "to_lower (hex_text bs) = hex_text bs" "CHR '','' \<notin> set (hex_text bs)"
  "trim (hex_text bs) = hex_text bs"
proof -
  have c: "is_hex c" "\<not> is_upper c" "c \<noteq> CHR '',''" "\<not> is_ws c" if "c \<in> set (hex_text bs)" for c
    using hex_text_char [OF that] unfolding plain_hex_def by blast+
  have "list_all is_hex (hex_text bs)" unfolding list_all_iff using c(1) by blast
  then show "is_hex64 (hex_text bs) = (length bs = 32)" by (simp add: is_hex64_def length_hex_text)
  show "to_lower (hex_text bs) = hex_text bs" by (rule to_lower_id) (use c(2) in blast)
  show "trim (hex_text bs) = hex_text bs" by (rule trim_no_ws) (use c(4) in blast)
  show "CHR '','' \<notin> set (hex_text bs)" using c(3) by blast
qed

lemma js_number_nat: "js_number (nat_dec n) = Some (of_nat n)"
proof -
  have d: "is_digit c" if "c \<in> set (nat_dec n)" for c using nat_dec_digits that by blast
  have trim: "trim (nat_dec n) = nat_dec n" using d digit_not_ws by (auto intro: trim_no_ws)
  have no_radix: "\<not> prefix [CHR ''0'', x] (nat_dec n)" if "\<not> is_digit x" for x
    using d that by (auto simp: prefix_def)
  have all: "takeWhile is_digit (nat_dec n) = nat_dec n" "dropWhile is_digit (nat_dec n) = []"
    using d by (auto simp: takeWhile_eq_all_conv dropWhile_eq_Nil_conv)
  obtain x xs where x: "nat_dec n = x # xs" using nat_dec_not_Nil by (cases "nat_dec n") auto
  have "x \<noteq> CHR ''-''" "x \<noteq> CHR ''+''" using d [of x] by (auto simp: x is_digit_def)
  then have "split_sign (nat_dec n) = (False, nat_dec n)" by (simp add: split_sign_def x)
  then have "decimal_literal (nat_dec n) = Some (of_nat n)"
    by (simp add: decimal_literal_def all Let_def exponent_of_def pow10_def)
  then show ?thesis using no_radix by (simp add: js_number_def trim Let_def is_digit_def)
qed

lemma signature_parts_sound:
  "signature_parts t0 sigs0 ps = (t, sigs) \<Longrightarrow> s \<in> set sigs \<Longrightarrow>
    s \<in> set sigs0 \<or> (\<exists>p \<in> set ps. \<exists>v. header_part p = Some (''v1'', v) \<and> s = to_lower v)"
  by (induction t0 sigs0 ps rule: signature_parts.induct) (fastforce split: option.splits if_splits)+

text \<open>
  C40: A signed payload verifies, and nothing else does.  The header that \<open>signStripePayload\<close>
  makes verifies within the tolerance; and whatever header verifies carries a \<open>v1\<close> part equal
  to the MAC of its timestamp and the body, with a timestamp within the tolerance.
\<close>

theorem stripe_signature_exact:
  assumes mac: "\<And>k m. length (cr_hmac cr k m) = 32" and secret: "secret \<noteq> []"
    and t: "0 \<le> t" "t \<le> 9007199254740991" "\<bar>now - t\<bar> \<le> tolerance"
  shows "verify_stripe_signature cr body (Some (sign_stripe_payload cr body secret t)) secret tolerance now = Inr t
    \<and> (\<forall>header u. verify_stripe_signature cr body (Some header) secret tolerance now = Inr u \<longrightarrow>
        \<bar>now - u\<bar> \<le> tolerance \<and>
        (\<exists>p \<in> set (split_on CHR '','' header). \<exists>v. header_part p = Some (''v1'', v) \<and> to_lower v = stripe_mac cr secret u body))"
proof (intro conjI allI impI)
  let ?m = "stripe_mac cr secret t body"
  have dec: "int_dec t = nat_dec (nat t)" using t(1) by (simp add: int_dec_def)
  have dig: "is_digit c" if "c \<in> set (nat_dec (nat t))" for c using nat_dec_digits that by blast
  have "\<not> is_digit CHR '',''" by (simp add: is_digit_def)
  then have "CHR '','' \<notin> set (''t='' @ nat_dec (nat t))" using dig by fastforce
  then have "split_on CHR '','' (sign_stripe_payload cr body secret t) = [''t='' @ nat_dec (nat t), ''v1='' @ ?m]"
    using hex_text_plain(3) split_on_append [of "CHR '',''" "''t='' @ nat_dec (nat t)" "''v1='' @ ?m"]
      split_on_no_sep [of "CHR '',''" "''v1='' @ ?m"]
    by (simp add: sign_stripe_payload_def dec stripe_mac_def)
  moreover have "header_part (''t='' @ nat_dec (nat t)) = Some (''t'', nat_dec (nat t))"
    using dig digit_not_ws by (simp add: header_part_def Let_def trim_no_ws) (simp add: trim_def is_ws_def)
  moreover have "header_part (''v1='' @ ?m) = Some (''v1'', ?m)"
    by (simp add: header_part_def Let_def stripe_mac_def hex_text_plain) (simp add: trim_def is_ws_def)
  moreover have "is_hex64 ?m" "to_lower ?m = ?m" using mac by (simp_all add: stripe_mac_def hex_text_plain)
  ultimately have "signature_parts None [] (split_on CHR '','' (sign_stripe_payload cr body secret t)) = (Some (of_nat (nat t)), [?m])"
    by (simp add: js_number_nat)
  then show "verify_stripe_signature cr body (Some (sign_stripe_payload cr body secret t)) secret tolerance now = Inr t"
    using secret t by (simp add: verify_stripe_signature_def str_truthy_iff sign_stripe_payload_def is_safe_integer_def integer_of_def)
next
  fix header u
  assume v: "verify_stripe_signature cr body (Some header) secret tolerance now = Inr u"
  obtain q sigs where p: "signature_parts None [] (split_on CHR '','' header) = (q, sigs)" by force
  have ok: "\<bar>now - u\<bar> \<le> tolerance \<and> stripe_mac cr secret u body \<in> set sigs"
    using v p by (auto simp: verify_stripe_signature_def list_ex_iff split: if_splits option.splits)
  then show "\<bar>now - u\<bar> \<le> tolerance" by blast
  show "\<exists>p \<in> set (split_on CHR '','' header). \<exists>v. header_part p = Some (''v1'', v) \<and> to_lower v = stripe_mac cr secret u body"
    using signature_parts_sound [OF p, of "stripe_mac cr secret u body"] ok by fastforce
qed

definition sample_mac :: crypto where
  "sample_mac = \<lparr>cr_hmac = (\<lambda>k m. replicate 32 (of_nat (length m))), cr_scrypt = (\<lambda>_ _. [])\<rparr>"

theorem stripe_signature_exact_witness:
  "verify_stripe_signature sample_mac ''{}'' (Some (sign_stripe_payload sample_mac ''{}'' ''whsec_x'' 1000)) ''whsec_x'' 300 1200 = Inr 1000"
  using stripe_signature_exact [of sample_mac "''whsec_x''" 1000 1200 300 "''{}''"] by (simp add: sample_mac_def)

end
