(* ===== verification/StripeLedger.thy ===== *)
theory StripeLedger
  imports StripeEvents TenantUsage
begin

text \<open>
  What a Stripe event does to the books (\<open>src/lib/stripe-attribution.ts\<close>, second half): the handler up
  to its first write, the transaction of a sale, the transaction of a refund, and their
  composition.  The reads of the handler are arguments, so they may be as old as concurrent
  requests make them.
\<close>

section \<open>Tables\<close>

datatype stripe_outcome = Recorded | Duplicate | IgnoredEvent | Unpaid | ZeroAmount | NoAttribution | InvalidToken
  | ForeignLink | CoveredByCheckout | RecurringDisabled | QuotaExceeded | GoalDisabled | Refunded

record receipt =
  re_type :: string
  re_outcome :: stripe_outcome
  re_conversionId :: "string option"
  re_paymentIntentId :: "string option"
  re_refundedCents :: int

record conversion =
  cv_id :: string
  cv_urlId :: string
  cv_goalId :: string
  cv_clickEventId :: "string option"
  cv_ruleId :: "string option"
  cv_visitorIdHash :: "string option"
  cv_valueCents :: "int option"
  cv_currency :: "string option"
  cv_metadata :: string
  cv_createdAt :: js_date

record goal =
  go_id :: string
  go_enabled :: bool

record daily =
  dy_conversions :: int
  dy_valueCents :: int

record customer =
  cu_urlId :: string
  cu_clickEventId :: "string option"
  cu_visitorIdHash :: "string option"

text \<open>Receipts have the key of an integration and an event id or sale key; goals that of a link and an event key.\<close>

type_synonym receipt_key = "string \<times> string"

record stripe_db =
  sd_receipts :: "receipt_key \<Rightarrow> receipt option"
  sd_conversions :: "conversion list"
  sd_dailies :: "string \<times> string \<Rightarrow> daily option"
  sd_goals :: "string \<times> string \<Rightarrow> goal option"
  sd_customers :: "string \<times> string \<Rightarrow> customer option"
  sd_commissions :: commission_table
  sd_configs :: "reward_config list"
  sd_usage :: usage_db

record integration =
  in_id :: string
  in_userId :: string
  in_goalEventKey :: string
  in_trackRecurring :: bool

section \<open>The handler up to its first write\<close>

datatype attribution_via = ViaToken | ViaCustomer

fun via_text :: "attribution_via \<Rightarrow> string" where
  "via_text ViaToken = ''token''"
| "via_text ViaCustomer = ''customer''"

record attribution =
  at_urlId :: string
  at_clickEventId :: "string option"
  at_visitorIdHash :: "string option"
  at_via :: attribution_via

record privacy_policy =
  pp_aggregateOnly :: bool
  pp_hashVisitor :: bool

text \<open>What the handler reads, each at its own time: \<open>rd_click\<close> gives the click of a link with its rule.\<close>

record stripe_reads =
  rd_seen :: "receipt_key \<Rightarrow> receipt option"
  rd_covered :: "receipt_key \<Rightarrow> receipt option"
  rd_customer :: "string \<times> string \<Rightarrow> customer option"
  rd_link :: "string \<Rightarrow> owned_link option"
  rd_member :: "string \<Rightarrow> string \<Rightarrow> bool"
  rd_policy :: "string \<Rightarrow> privacy_policy"
  rd_click :: "string \<Rightarrow> string \<Rightarrow> string option option"
  rd_refundable :: "string \<Rightarrow> string \<Rightarrow> (receipt_key \<times> receipt) option"
  rd_now :: js_date

text \<open>What the sale transaction is called with.\<close>

record sale_write =
  sw_sale :: sale_candidate
  sw_value :: "int option"
  sw_currency :: "string option"
  sw_via :: attribution_via
  sw_link :: owned_link
  sw_clickEventId :: "string option"
  sw_ruleId :: "string option"
  sw_visitor :: "string option"
  sw_now :: js_date

record refund_request =
  rf_key :: receipt_key
  rf_row :: receipt
  rf_conversionId :: string
  rf_total :: int

datatype stripe_plan =
    Answer stripe_outcome "string option"
  | Note stripe_outcome "string option"
  | Sell sale_write
  | Reverse_sale refund_request

definition can_attribute_to_link :: "stripe_reads \<Rightarrow> string \<Rightarrow> owned_link \<Rightarrow> bool" where
  "can_attribute_to_link r userId link =
     (if ol_userId link = Some userId then True
      else if \<not> str_truthy (ol_workspaceId link) then False
      else rd_member r (the (ol_workspaceId link)) userId)"

definition hash_with_workspace :: "(string \<Rightarrow> string) \<Rightarrow> string \<Rightarrow> string \<Rightarrow> string" where
  "hash_with_workspace sha v workspaceId = sha (workspaceId @ CHR '':'' # v)"

text \<open>The payload of a verified token; it was made by \<open>create_attribution_token\<close>, so its fields are strings.\<close>

definition token_attribution :: "json \<Rightarrow> attribution thrown" where
  "token_attribution payload =
     (case (jstr (jget payload ''urlId''), jstr (jget payload ''clickEventId''), jstr (jget payload ''visitorIdHash'')) of
        (Some u, Some c, Some v) \<Rightarrow> Inr \<lparr>at_urlId = u, at_clickEventId = Some c, at_visitorIdHash = Some v, at_via = ViaToken\<rparr>
      | _ \<Rightarrow> Inl ''PrismaClientValidationError'')"

definition customer_attribution :: "customer \<Rightarrow> attribution" where
  "customer_attribution c = \<lparr>at_urlId = cu_urlId c, at_clickEventId = cu_clickEventId c, at_visitorIdHash = cu_visitorIdHash c, at_via = ViaCustomer\<rparr>"

text \<open>The click that earned the sale: an outcome when there is none.\<close>

definition resolve_attribution :: "crypto \<Rightarrow> string \<Rightarrow> integration \<Rightarrow> stripe_reads \<Rightarrow> sale_candidate \<Rightarrow> (stripe_outcome + attribution) thrown" where
  "resolve_attribution cr secret i r sale =
     (if str_truthy (sc_token sale)
      then (case verify_attribution_token cr secret (rd_now r) (the (sc_token sale)) of
          None \<Rightarrow> Inr (Inl InvalidToken)
        | Some payload \<Rightarrow> map_sum id Inr (token_attribution payload))
      else (case Option.bind (sc_customerId sale) (\<lambda>c. rd_customer r (in_id i, c)) of
          Some known \<Rightarrow> Inr (Inr (customer_attribution known))
        | None \<Rightarrow> Inr (Inl NoAttribution)))"

definition stored_visitor :: "(string \<Rightarrow> string) \<Rightarrow> stripe_reads \<Rightarrow> owned_link \<Rightarrow> attribution \<Rightarrow> string option" where
  "stored_visitor sha r link a =
     (if at_via a = ViaToken \<and> str_truthy (ol_workspaceId link) \<and> str_truthy (at_visitorIdHash a)
      then (let policy = rd_policy r (the (ol_workspaceId link))
            in if pp_aggregateOnly policy \<or> \<not> pp_hashVisitor policy then None
               else Some (hash_with_workspace sha (the (at_visitorIdHash a)) (the (ol_workspaceId link))))
      else at_visitorIdHash a)"

definition plan_sale :: "crypto \<Rightarrow> string \<Rightarrow> (string \<Rightarrow> string) \<Rightarrow> integration \<Rightarrow> stripe_reads \<Rightarrow> sale_candidate \<Rightarrow> stripe_plan thrown" where
  "plan_sale cr secret sha i r sale =
     (case rd_covered r (in_id i, sc_saleKey sale) of
        Some covered \<Rightarrow> Inr (Note (if sc_source sale = FromInvoice then CoveredByCheckout else Duplicate) (re_conversionId covered))
      | None \<Rightarrow>
         (case normalize_sale_value (sc_amountCents sale) (sc_currency sale) of (value, currency) \<Rightarrow>
            if value = Some 0 then Inr (Note ZeroAmount None)
            else (case resolve_attribution cr secret i r sale of
                Inl e \<Rightarrow> Inl e
              | Inr (Inl outcome) \<Rightarrow> Inr (Note outcome None)
              | Inr (Inr a) \<Rightarrow>
                 (case rd_link r (at_urlId a) of
                    None \<Rightarrow> Inr (Note ForeignLink None)
                  | Some link \<Rightarrow>
                     if \<not> can_attribute_to_link r (in_userId i) link then Inr (Note ForeignLink None)
                     else (let click = (if str_truthy (at_clickEventId a) then rd_click r (the (at_clickEventId a)) (ol_id link) else None)
                       in Inr (Sell \<lparr>sw_sale = sale, sw_value = value, sw_currency = currency, sw_via = at_via a, sw_link = link,
                            sw_clickEventId = (if click = None then None else at_clickEventId a), sw_ruleId = Option.bind click id,
                            sw_visitor = stored_visitor sha r link a, sw_now = rd_now r\<rparr>))))))"

definition plan_refund :: "integration \<Rightarrow> stripe_reads \<Rightarrow> json \<Rightarrow> stripe_plan" where
  "plan_refund i r charge =
     (let found = (case id_of (jget charge ''payment_intent'') of None \<Rightarrow> None | Some p \<Rightarrow> rd_refundable r (in_id i) p);
          total = Option.bind (Option.bind (jget charge ''amount_refunded'') json_num) integer_of
      in (case (found, total) of
            (Some (key, row), Some t) \<Rightarrow>
              (case re_conversionId row of
                 Some (c # cs) \<Rightarrow> Reverse_sale \<lparr>rf_key = key, rf_row = row, rf_conversionId = c # cs, rf_total = t\<rparr>
               | _ \<Rightarrow> Note NoAttribution None)
          | _ \<Rightarrow> Note NoAttribution None))"

definition plan_stripe_event :: "crypto \<Rightarrow> string \<Rightarrow> (string \<Rightarrow> string) \<Rightarrow> integration \<Rightarrow> stripe_reads \<Rightarrow> stripe_event \<Rightarrow> stripe_plan thrown" where
  "plan_stripe_event cr secret sha i r e =
     (case rd_seen r (in_id i, se_id e) of
        Some seen \<Rightarrow> Inr (Answer Duplicate (re_conversionId seen))
      | None \<Rightarrow>
         if se_type e = ''checkout.session.completed'' \<or> se_type e = ''checkout.session.async_payment_succeeded''
         then (case sale_from_checkout_session (se_object e) of
             None \<Rightarrow> Inr (Note Unpaid None)
           | Some sale \<Rightarrow> plan_sale cr secret sha i r sale)
         else if se_type e = ''invoice.paid''
         then (if \<not> in_trackRecurring i then Inr (Note RecurringDisabled None)
               else plan_sale cr secret sha i r (sale_from_invoice (se_object e)))
         else if se_type e = ''charge.refunded'' then Inr (plan_refund i r (se_object e))
         else Inr (Note IgnoredEvent None))"

section \<open>Transactions\<close>

text \<open>A transaction that fails leaves no trace; \<open>TxError\<close> stands for the errors that are thrown on.\<close>

datatype tx_failure = TxUnique | TxQuota | TxDisabled | TxApplied | TxError string

type_synonym 'a tx = "tx_failure + 'a"

definition tx_bind :: "'a tx \<Rightarrow> ('a \<Rightarrow> 'b tx) \<Rightarrow> 'b tx" where
  "tx_bind x f = (case x of Inl e \<Rightarrow> Inl e | Inr a \<Rightarrow> f a)"

definition of_thrown :: "'a thrown \<Rightarrow> 'a tx" where
  "of_thrown x = (case x of Inl e \<Rightarrow> if e = ''P2002'' then Inl TxUnique else Inl (TxError e) | Inr a \<Rightarrow> Inr a)"

definition fits_int4 :: "int \<Rightarrow> bool" where
  "fits_int4 n = (- (2 ^ 31) \<le> n \<and> n < 2 ^ 31)"

definition create_receipt :: "receipt_key \<Rightarrow> receipt \<Rightarrow> stripe_db \<Rightarrow> stripe_db tx" where
  "create_receipt k row db = (case sd_receipts db k of
       Some _ \<Rightarrow> Inl TxUnique
     | None \<Rightarrow> Inr (db\<lparr>sd_receipts := (sd_receipts db)(k \<mapsto> row)\<rparr>))"

definition event_receipt :: "stripe_event \<Rightarrow> stripe_outcome \<Rightarrow> string option \<Rightarrow> receipt" where
  "event_receipt e outcome conversionId = \<lparr>re_type = take 120 (se_type e), re_outcome = outcome, re_conversionId = conversionId,
     re_paymentIntentId = None, re_refundedCents = 0\<rparr>"

fun source_text :: "sale_source \<Rightarrow> string" where
  "source_text FromCheckout = ''checkout''"
| "source_text FromInvoice = ''invoice''"

definition sale_receipt :: "sale_candidate \<Rightarrow> receipt" where
  "sale_receipt sale = \<lparr>re_type = ''sale.'' @ source_text (sc_source sale), re_outcome = Recorded, re_conversionId = None,
     re_paymentIntentId = sc_paymentIntentId sale, re_refundedCents = 0\<rparr>"

definition covering_receipt :: receipt where
  "covering_receipt = \<lparr>re_type = ''sale.invoice'', re_outcome = CoveredByCheckout, re_conversionId = None,
     re_paymentIntentId = None, re_refundedCents = 0\<rparr>"

definition write_receipt :: "integration \<Rightarrow> stripe_event \<Rightarrow> stripe_outcome \<Rightarrow> stripe_db \<Rightarrow> stripe_db" where
  "write_receipt i e outcome db = (case create_receipt (in_id i, se_id e) (event_receipt e outcome None) db of
       Inl _ \<Rightarrow> db | Inr db' \<Rightarrow> db')"

text \<open>
  The ids the database generates, and its clock, in one transaction; and the commissions as a
  refund's transaction reads them, which a pay-out action may change before it writes.
\<close>

record tx_env =
  te_conversionId :: string
  te_goalId :: string
  te_commissionId :: string
  te_clock :: js_date
  te_commissions :: commission_table

definition cover_invoice :: "integration \<Rightarrow> sale_candidate \<Rightarrow> stripe_db \<Rightarrow> stripe_db tx" where
  "cover_invoice i sale db = (if str_truthy (sc_coversInvoiceId sale)
     then create_receipt (in_id i, ''invoice:'' @ the (sc_coversInvoiceId sale)) covering_receipt db else Inr db)"

definition reserve_conversion :: "owned_link \<Rightarrow> js_date \<Rightarrow> stripe_db \<Rightarrow> stripe_db tx" where
  "reserve_conversion link now db =
     (if str_truthy (ol_workspaceId link)
      then tx_bind (of_thrown (reserve_usage (sd_usage db) now (the (ol_workspaceId link)) Conversions 1))
        (\<lambda>(usage, res). if ures_allowed res then Inr (db\<lparr>sd_usage := usage\<rparr>) else Inl TxQuota)
      else Inr db)"

definition upsert_goal :: "string \<Rightarrow> string \<Rightarrow> string \<Rightarrow> stripe_db \<Rightarrow> (stripe_db \<times> goal) tx" where
  "upsert_goal newId urlId eventKey db = (case sd_goals db (urlId, eventKey) of
       Some g \<Rightarrow> if go_enabled g then Inr (db, g) else Inl TxDisabled
     | None \<Rightarrow> (let g = \<lparr>go_id = newId, go_enabled = True\<rparr>
         in Inr (db\<lparr>sd_goals := (sd_goals db)((urlId, eventKey) \<mapsto> g)\<rparr>, g)))"

definition create_conversion :: "conversion \<Rightarrow> stripe_db \<Rightarrow> stripe_db tx" where
  "create_conversion c db = (if cv_id c \<in> set (map cv_id (sd_conversions db)) then Inl TxUnique
     else Inr (db\<lparr>sd_conversions := sd_conversions db @ [c]\<rparr>))"

definition add_daily :: "string \<times> string \<Rightarrow> int \<Rightarrow> stripe_db \<Rightarrow> stripe_db tx" where
  "add_daily k cents db =
     (let row = (case sd_dailies db k of None \<Rightarrow> \<lparr>dy_conversions = 1, dy_valueCents = cents\<rparr>
        | Some d \<Rightarrow> \<lparr>dy_conversions = dy_conversions d + 1, dy_valueCents = dy_valueCents d + cents\<rparr>)
      in if fits_int4 (dy_conversions row) \<and> fits_int4 (dy_valueCents row)
         then Inr (db\<lparr>sd_dailies := (sd_dailies db)(k \<mapsto> row)\<rparr>) else Inl (TxError ''integer out of range''))"

definition set_receipt_conversion :: "receipt_key \<Rightarrow> string \<Rightarrow> stripe_db \<Rightarrow> stripe_db" where
  "set_receipt_conversion k c db =
     db\<lparr>sd_receipts := (sd_receipts db)(k := map_option (re_conversionId_update (\<lambda>_. Some c)) (sd_receipts db k))\<rparr>"

definition add_commission :: "integration \<Rightarrow> sale_write \<Rightarrow> tx_env \<Rightarrow> stripe_db \<Rightarrow> stripe_db tx" where
  "add_commission i w te db = (case sw_value w of
       None \<Rightarrow> Inr db
     | Some v \<Rightarrow> if v = 0 then Inr db
         else tx_bind (of_thrown (record_commission (sd_configs db) (sd_commissions db) (te_commissionId te)
             \<lparr>si_userId = in_userId i, si_urlId = ol_id (sw_link w), si_conversionId = te_conversionId te, si_saleValueCents = v,
              si_currency = sw_currency w, si_metadata = sc_metadata (sw_sale w), si_now = sw_now w\<rparr>))
           (\<lambda>(t, _). Inr (db\<lparr>sd_commissions := t\<rparr>)))"

definition first_touch :: "integration \<Rightarrow> sale_write \<Rightarrow> stripe_db \<Rightarrow> stripe_db" where
  "first_touch i w db =
     (if sw_via w = ViaToken \<and> str_truthy (sc_customerId (sw_sale w)) \<and> in_trackRecurring i
      then (let k = (in_id i, the (sc_customerId (sw_sale w)))
            in (case sd_customers db k of Some _ \<Rightarrow> db
                | None \<Rightarrow> db\<lparr>sd_customers := (sd_customers db)(k \<mapsto>
                    \<lparr>cu_urlId = ol_id (sw_link w), cu_clickEventId = sw_clickEventId w, cu_visitorIdHash = sw_visitor w\<rparr>)\<rparr>))
      else db)"

definition sale_conversion :: "stripe_event \<Rightarrow> sale_write \<Rightarrow> tx_env \<Rightarrow> goal \<Rightarrow> conversion" where
  "sale_conversion e w te g = \<lparr>cv_id = te_conversionId te, cv_urlId = ol_id (sw_link w), cv_goalId = go_id g,
     cv_clickEventId = sw_clickEventId w, cv_ruleId = sw_ruleId w, cv_visitorIdHash = sw_visitor w,
     cv_valueCents = sw_value w, cv_currency = sw_currency w,
     cv_metadata = json_text (JObj [(''source'', JStr ''stripe''), (''stripeEventId'', JStr (se_id e)),
       (''saleKey'', JStr (sc_saleKey (sw_sale w))), (''via'', JStr (via_text (sw_via w))), (''livemode'', coalesce (se_livemode e) JNull)]),
     cv_createdAt = te_clock te\<rparr>"

text \<open>The sale transaction: the new state and the conversion.\<close>

definition record_sale_tx :: "integration \<Rightarrow> stripe_event \<Rightarrow> sale_write \<Rightarrow> tx_env \<Rightarrow> stripe_db \<Rightarrow> (stripe_db \<times> string) tx" where
  "record_sale_tx i e w te db =
     (let sale = sw_sale w; saleKey = (in_id i, sc_saleKey sale); link = sw_link w in
      tx_bind (create_receipt saleKey (sale_receipt sale) db) (\<lambda>db.
      tx_bind (cover_invoice i sale db) (\<lambda>db.
      tx_bind (reserve_conversion link (te_clock te) db) (\<lambda>db.
      tx_bind (upsert_goal (te_goalId te) (ol_id link) (in_goalEventKey i) db) (\<lambda>(db, g).
      tx_bind (create_conversion (sale_conversion e w te g) db) (\<lambda>db.
      tx_bind (add_daily (go_id g, iso_day_key (sw_now w)) (coalesce (sw_value w) 0) db) (\<lambda>db.
      tx_bind (add_commission i w te (set_receipt_conversion saleKey (te_conversionId te) db)) (\<lambda>db.
      tx_bind (create_receipt (in_id i, se_id e) (event_receipt e Recorded (Some (te_conversionId te))) db) (\<lambda>db.
      Inr (first_touch i w db, te_conversionId te))))))))))"

section \<open>Refund transaction\<close>

record reversal =
  rv_urlId :: string
  rv_reversedCents :: int
  rv_netValueCents :: int
  rv_currency :: "string option"

definition find_conversion :: "stripe_db \<Rightarrow> string \<Rightarrow> conversion option" where
  "find_conversion db c = find (\<lambda>r. cv_id r = c) (sd_conversions db)"

definition claim_refund :: "refund_request \<Rightarrow> stripe_db \<Rightarrow> stripe_db tx" where
  "claim_refund q db = (case sd_receipts db (rf_key q) of
       Some row \<Rightarrow> if re_refundedCents row \<noteq> re_refundedCents (rf_row q) then Inl TxApplied
         else if \<not> fits_int4 (rf_total q) then Inl (TxError ''integer out of range'')
         else Inr (db\<lparr>sd_receipts := (sd_receipts db)(rf_key q \<mapsto> row\<lparr>re_refundedCents := rf_total q\<rparr>)\<rparr>)
     | None \<Rightarrow> Inl TxApplied)"

definition set_conversion_value :: "string \<Rightarrow> int \<Rightarrow> stripe_db \<Rightarrow> stripe_db" where
  "set_conversion_value c v db =
     db\<lparr>sd_conversions := map (\<lambda>r. if cv_id r = c then r\<lparr>cv_valueCents := Some v\<rparr> else r) (sd_conversions db)\<rparr>"

definition subtract_daily :: "string \<times> string \<Rightarrow> int \<Rightarrow> stripe_db \<Rightarrow> stripe_db" where
  "subtract_daily k cents db = db\<lparr>sd_dailies := (sd_dailies db)(k :=
     map_option (\<lambda>d. d\<lparr>dy_valueCents := dy_valueCents d - cents\<rparr>) (sd_dailies db k))\<rparr>"

definition reverse_value :: "conversion \<Rightarrow> int \<Rightarrow> stripe_db \<Rightarrow> stripe_db" where
  "reverse_value c reversedCents db =
     (if reversedCents > 0
      then subtract_daily (cv_goalId c, iso_day_key (cv_createdAt c)) reversedCents
        (set_conversion_value (cv_id c) (coalesce (cv_valueCents c) 0 - reversedCents) db)
      else db)"

definition apply_commission_refund :: "tx_env \<Rightarrow> string \<Rightarrow> int \<Rightarrow> stripe_db \<Rightarrow> stripe_db" where
  "apply_commission_refund te c refunded db = (case find_by_conversion (te_commissions te) c of
       None \<Rightarrow> db | Some row \<Rightarrow> db\<lparr>sd_commissions := refund_write (sd_commissions db) row refunded\<rparr>)"

definition refund_tx :: "integration \<Rightarrow> stripe_event \<Rightarrow> tx_env \<Rightarrow> refund_request \<Rightarrow> stripe_db \<Rightarrow> (stripe_db \<times> reversal option) tx" where
  "refund_tx i e te q db =
     (let delta = rf_total q - re_refundedCents (rf_row q)
      in if delta \<le> 0 then Inl TxApplied
         else tx_bind (claim_refund q db) (\<lambda>db.
              tx_bind (create_receipt (in_id i, se_id e) (event_receipt e Refunded (Some (rf_conversionId q))) db) (\<lambda>db.
              (case find_conversion db (rf_conversionId q) of
                 None \<Rightarrow> Inr (db, None)
               | Some c \<Rightarrow>
                   (let current = coalesce (cv_valueCents c) 0; reversedCents = min current delta
                    in Inr (apply_commission_refund te (rf_conversionId q) (rf_total q) (reverse_value c reversedCents db),
                         Some \<lparr>rv_urlId = cv_urlId c, rv_reversedCents = reversedCents, rv_netValueCents = current - reversedCents,
                           rv_currency = cv_currency c\<rparr>))))))"

section \<open>The whole handler\<close>

datatype stripe_notice =
    ConversionRecorded string string string "int option" "string option" js_date
  | ConversionRefunded string string int int "string option"

record stripe_result =
  sr_outcome :: stripe_outcome
  sr_conversionId :: "string option"
  sr_notice :: "stripe_notice option"

definition answer :: "stripe_outcome \<Rightarrow> string option \<Rightarrow> stripe_result" where
  "answer outcome conversionId = \<lparr>sr_outcome = outcome, sr_conversionId = conversionId, sr_notice = None\<rparr>"

definition finish_sale :: "integration \<Rightarrow> stripe_event \<Rightarrow> sale_write \<Rightarrow> tx_env \<Rightarrow> stripe_db \<Rightarrow> (stripe_db \<times> stripe_result) thrown" where
  "finish_sale i e w te db = (case record_sale_tx i e w te db of
       Inr (db', c) \<Rightarrow> Inr (db', \<lparr>sr_outcome = Recorded, sr_conversionId = Some c,
         sr_notice = Some (ConversionRecorded (ol_id (sw_link w)) c (in_goalEventKey i) (sw_value w) (sw_currency w) (sw_now w))\<rparr>)
     | Inl TxQuota \<Rightarrow> Inr (db, answer QuotaExceeded None)
     | Inl TxDisabled \<Rightarrow> Inr (write_receipt i e GoalDisabled db, answer GoalDisabled None)
     | Inl TxUnique \<Rightarrow> Inr (db, answer Duplicate None)
     | Inl TxApplied \<Rightarrow> Inl ''AlreadyApplied''
     | Inl (TxError m) \<Rightarrow> Inl m)"

definition finish_refund :: "integration \<Rightarrow> stripe_event \<Rightarrow> tx_env \<Rightarrow> refund_request \<Rightarrow> stripe_db \<Rightarrow> (stripe_db \<times> stripe_result) thrown" where
  "finish_refund i e te q db = (case refund_tx i e te q db of
       Inr (db', rv) \<Rightarrow> Inr (db', \<lparr>sr_outcome = Refunded, sr_conversionId = Some (rf_conversionId q),
         sr_notice = (case rv of None \<Rightarrow> None
           | Some r \<Rightarrow> if rv_reversedCents r > 0
               then Some (ConversionRefunded (rv_urlId r) (rf_conversionId q) (rv_reversedCents r) (rv_netValueCents r) (rv_currency r)) else None)\<rparr>)
     | Inl TxApplied \<Rightarrow> Inr (write_receipt i e Duplicate db, answer Duplicate (Some (rf_conversionId q)))
     | Inl TxUnique \<Rightarrow> Inr (write_receipt i e Duplicate db, answer Duplicate (Some (rf_conversionId q)))
     | Inl TxQuota \<Rightarrow> Inl ''QuotaExceeded''
     | Inl TxDisabled \<Rightarrow> Inl ''GoalDisabled''
     | Inl (TxError m) \<Rightarrow> Inl m)"

definition run_stripe_plan :: "integration \<Rightarrow> stripe_event \<Rightarrow> tx_env \<Rightarrow> stripe_db \<Rightarrow> stripe_plan \<Rightarrow> (stripe_db \<times> stripe_result) thrown" where
  "run_stripe_plan i e te db plan = (case plan of
       Answer outcome c \<Rightarrow> Inr (db, answer outcome c)
     | Note outcome c \<Rightarrow> Inr (write_receipt i e outcome db, answer outcome c)
     | Sell w \<Rightarrow> finish_sale i e w te db
     | Reverse_sale q \<Rightarrow> finish_refund i e te q db)"

definition process_stripe_event ::
  "crypto \<Rightarrow> string \<Rightarrow> (string \<Rightarrow> string) \<Rightarrow> integration \<Rightarrow> stripe_reads \<Rightarrow> tx_env \<Rightarrow> stripe_event \<Rightarrow> stripe_db \<Rightarrow> (stripe_db \<times> stripe_result) thrown" where
  "process_stripe_event cr secret sha i r te e db =
     (case plan_stripe_event cr secret sha i r e of Inl m \<Rightarrow> Inl m | Inr plan \<Rightarrow> run_stripe_plan i e te db plan)"

end
