(* ===== verification/StripeBooks.thy ===== *)
theory StripeBooks
  imports StripeLedger
begin

text \<open>
  Runs of the Stripe handler: what each transaction does to the tables, the runs of deliveries
  with stale reads, the invariant that the books balance, who is credited, a sample run, and two
  defects.
\<close>

section \<open>What a transaction does\<close>

lemma tx_bind_Inr: "tx_bind x f = Inr y \<longleftrightarrow> (\<exists>a. x = Inr a \<and> f a = Inr y)"
  by (simp add: tx_bind_def split: sum.split)

lemma of_thrown_Inr: "of_thrown x = Inr y \<longleftrightarrow> x = Inr y"
  by (simp add: of_thrown_def split: sum.split)

lemma create_receipt_Inr: "create_receipt k row db = Inr db' \<longleftrightarrow>
    sd_receipts db k = None \<and> db' = db\<lparr>sd_receipts := (sd_receipts db)(k \<mapsto> row)\<rparr>"
  by (auto simp: create_receipt_def split: option.split)

lemma create_conversion_Inr: "create_conversion c db = Inr db' \<longleftrightarrow>
    cv_id c \<notin> set (map cv_id (sd_conversions db)) \<and> db' = db\<lparr>sd_conversions := sd_conversions db @ [c]\<rparr>"
  by (auto simp: create_conversion_def)

text \<open>The tables an operation leaves alone.\<close>

definition same_books :: "stripe_db \<Rightarrow> stripe_db \<Rightarrow> bool" where
  "same_books db db' = (sd_conversions db' = sd_conversions db \<and> sd_dailies db' = sd_dailies db \<and> sd_commissions db' = sd_commissions db)"

lemma reserve_conversion_Inr: "reserve_conversion link now db = Inr db' \<Longrightarrow> same_books db db' \<and> sd_receipts db' = sd_receipts db \<and> sd_configs db' = sd_configs db"
  by (auto simp: reserve_conversion_def same_books_def tx_bind_Inr split: if_splits)

lemma upsert_goal_Inr: "upsert_goal n u k db = Inr (db', g) \<Longrightarrow> same_books db db' \<and> sd_receipts db' = sd_receipts db \<and> sd_configs db' = sd_configs db"
  by (auto simp: upsert_goal_def same_books_def Let_def split: option.splits if_splits)

lemma first_touch_books: "same_books db (first_touch i w db)" "sd_receipts (first_touch i w db) = sd_receipts db"
  by (auto simp: first_touch_def same_books_def Let_def split: option.splits)

lemma cover_invoice_Inr: "cover_invoice i sale db = Inr db' \<Longrightarrow> same_books db db' \<and> sd_configs db' = sd_configs db \<and>
    (db' = db \<or> (\<exists>k. sd_receipts db k = None \<and> sd_receipts db' = (sd_receipts db)(k \<mapsto> covering_receipt)))"
  by (auto simp: cover_invoice_def same_books_def create_receipt_Inr split: if_splits)

lemma add_daily_Inr: "add_daily k cents db = Inr db' \<Longrightarrow>
    sd_conversions db' = sd_conversions db \<and> sd_receipts db' = sd_receipts db \<and> sd_commissions db' = sd_commissions db \<and>
    sd_dailies db' = (sd_dailies db)(k \<mapsto> (case sd_dailies db k of None \<Rightarrow> \<lparr>dy_conversions = 1, dy_valueCents = cents\<rparr>
        | Some d \<Rightarrow> \<lparr>dy_conversions = dy_conversions d + 1, dy_valueCents = dy_valueCents d + cents\<rparr>))"
  by (auto simp: add_daily_def Let_def split: if_splits)

lemma record_commission_ok: "record_commission configs t n s = Inr (t', x) \<Longrightarrow> ledger_ok t \<Longrightarrow> ledger_ok t'"
  using apply_op_ok [of t configs "RecordOp n s"] by (simp add: apply_op_def)

text \<open>What a step keeps of the commissions: the bounds and the sales, and, unless it wrote over a change, all of it.\<close>

definition commissions_kept :: "stripe_db \<Rightarrow> stripe_db \<Rightarrow> bool" where
  "commissions_kept db db' = ((ledger_bounds (sd_commissions db) \<longrightarrow> ledger_bounds (sd_commissions db') \<and> rows_keep (sd_commissions db) (sd_commissions db'))
     \<and> (ledger_ok (sd_commissions db) \<longrightarrow> ledger_ok (sd_commissions db')))"

lemma commissions_same: "sd_commissions db' = sd_commissions db \<Longrightarrow> commissions_kept db db'"
  by (simp add: commissions_kept_def)

lemma commissions_between: "commissions_kept a b \<Longrightarrow> sd_commissions a' = sd_commissions a \<Longrightarrow> sd_commissions b' = sd_commissions b \<Longrightarrow> commissions_kept a' b'"
  by (simp add: commissions_kept_def)

lemma add_commission_Inr: "add_commission i w te db = Inr db' \<Longrightarrow>
    sd_conversions db' = sd_conversions db \<and> sd_receipts db' = sd_receipts db \<and> sd_dailies db' = sd_dailies db \<and>
    commissions_kept db db'"
  by (auto simp: add_commission_def commissions_kept_def tx_bind_Inr of_thrown_Inr record_commission_ok record_commission_bounds
      split: option.splits if_splits prod.splits)

text \<open>Everything a committed sale does to the books.\<close>

definition is_sale_key :: "receipt_key \<Rightarrow> bool" where
  "is_sale_key k = (\<not> prefix ''evt_'' (snd k))"

definition linked :: "stripe_db \<Rightarrow> receipt_key \<Rightarrow> string option" where
  "linked db k = Option.bind (sd_receipts db k) re_conversionId"

lemma record_sale_tx_Inr:
  assumes tx: "record_sale_tx i e w te db = Inr (db', c)" and evt: "prefix ''evt_'' (se_id e)" "is_sale_key (in_id i, sc_saleKey (sw_sale w))"
  shows "c = te_conversionId te" "c \<notin> set (map cv_id (sd_conversions db))"
    "\<exists>g. sd_conversions db' = sd_conversions db @ [sale_conversion e w te g] \<and>
       sd_dailies db' = (sd_dailies db)((go_id g, iso_day_key (sw_now w)) \<mapsto>
         (case sd_dailies db (go_id g, iso_day_key (sw_now w)) of None \<Rightarrow> \<lparr>dy_conversions = 1, dy_valueCents = coalesce (sw_value w) 0\<rparr>
          | Some d \<Rightarrow> \<lparr>dy_conversions = dy_conversions d + 1, dy_valueCents = dy_valueCents d + coalesce (sw_value w) 0\<rparr>))"
    "commissions_kept db db'"
    "sd_receipts db (in_id i, sc_saleKey (sw_sale w)) = None"
    "\<exists>row. sd_receipts db' (in_id i, sc_saleKey (sw_sale w)) = Some row \<and> re_conversionId row = Some c \<and> re_refundedCents row = 0"
    "\<And>k row. sd_receipts db k = Some row \<Longrightarrow> sd_receipts db' k = Some row"
    "\<And>k row. sd_receipts db' k = Some row \<Longrightarrow> sd_receipts db k = None \<Longrightarrow> k \<noteq> (in_id i, sc_saleKey (sw_sale w)) \<Longrightarrow>
       re_paymentIntentId row = None \<and> (is_sale_key k \<longrightarrow> re_conversionId row = None)"
proof -
  let ?s = "(in_id i, sc_saleKey (sw_sale w))"
  obtain d1 d2 d3 d4 d5 d6 d7 d8 g where
    d1: "create_receipt ?s (sale_receipt (sw_sale w)) db = Inr d1" and
    d2: "cover_invoice i (sw_sale w) d1 = Inr d2" and
    d3: "reserve_conversion (sw_link w) (te_clock te) d2 = Inr d3" and
    d4: "upsert_goal (te_goalId te) (ol_id (sw_link w)) (in_goalEventKey i) d3 = Inr (d4, g)" and
    d5: "create_conversion (sale_conversion e w te g) d4 = Inr d5" and
    d6: "add_daily (go_id g, iso_day_key (sw_now w)) (coalesce (sw_value w) 0) d5 = Inr d6" and
    d7: "add_commission i w te (set_receipt_conversion ?s (te_conversionId te) d6) = Inr d7" and
    d8: "create_receipt (in_id i, se_id e) (event_receipt e Recorded (Some (te_conversionId te))) d7 = Inr d8" and
    d9: "db' = first_touch i w d8" "c = te_conversionId te"
    using tx by (auto simp: record_sale_tx_def Let_def tx_bind_Inr)
  have cid: "cv_id (sale_conversion e w te g) = te_conversionId te" by (simp add: sale_conversion_def)
  have r6: "sd_receipts d6 = sd_receipts d2"
    using reserve_conversion_Inr [OF d3] upsert_goal_Inr [OF d4] d5 add_daily_Inr [OF d6] by (auto simp: create_conversion_Inr)
  have r7: "sd_receipts d7 = (sd_receipts d2)(?s := map_option (re_conversionId_update (\<lambda>_. Some (te_conversionId te))) (sd_receipts d2 ?s))"
    using add_commission_Inr [OF d7] r6 by (simp add: set_receipt_conversion_def)
  have s1: "sd_receipts db ?s = None" "sd_receipts d1 = (sd_receipts db)(?s \<mapsto> sale_receipt (sw_sale w))" "same_books db d1"
    using d1 by (auto simp: create_receipt_Inr same_books_def)
  have s2: "sd_receipts d2 ?s = Some (sale_receipt (sw_sale w))" "same_books d1 d2"
    using cover_invoice_Inr [OF d2] s1 by auto
  have r8: "sd_receipts d7 (in_id i, se_id e) = None" "sd_receipts db' = (sd_receipts d7)((in_id i, se_id e) \<mapsto> event_receipt e Recorded (Some c))"
    using d8 d9 by (auto simp: create_receipt_Inr first_touch_books)
  have b4: "same_books db d4" using s1(3) s2(2) reserve_conversion_Inr [OF d3] upsert_goal_Inr [OF d4] by (simp add: same_books_def)
  have b9: "same_books d7 db'" using d8 d9 by (auto simp: create_receipt_Inr first_touch_def same_books_def Let_def split: option.splits)
  show "c = te_conversionId te" "sd_receipts db ?s = None" using d9 s1 by auto
  show "c \<notin> set (map cv_id (sd_conversions db))" using d5 d9(2) b4 cid by (simp add: create_conversion_Inr same_books_def)
  have c7: "sd_conversions db' = sd_conversions d4 @ [sale_conversion e w te g]" "sd_dailies db' = sd_dailies d6"
    using b9 add_commission_Inr [OF d7] add_daily_Inr [OF d6] d5 by (auto simp: same_books_def set_receipt_conversion_def create_conversion_Inr)
  have d5_daily: "sd_dailies d5 = sd_dailies db" using d5 b4 by (auto simp: create_conversion_Inr same_books_def)
  show "\<exists>g. sd_conversions db' = sd_conversions db @ [sale_conversion e w te g] \<and>
       sd_dailies db' = (sd_dailies db)((go_id g, iso_day_key (sw_now w)) \<mapsto>
         (case sd_dailies db (go_id g, iso_day_key (sw_now w)) of None \<Rightarrow> \<lparr>dy_conversions = 1, dy_valueCents = coalesce (sw_value w) 0\<rparr>
          | Some d \<Rightarrow> \<lparr>dy_conversions = dy_conversions d + 1, dy_valueCents = dy_valueCents d + coalesce (sw_value w) 0\<rparr>))"
    using c7(1,2) add_daily_Inr [OF d6] d5_daily b4 by (intro exI [of _ g]) (simp add: same_books_def)
  have "commissions_kept (set_receipt_conversion ?s (te_conversionId te) d6) d7" using add_commission_Inr [OF d7] by simp
  then show "commissions_kept db db'"
    by (rule commissions_between)
      (use b4 b9 d5 add_daily_Inr [OF d6] in \<open>simp_all add: set_receipt_conversion_def create_conversion_Inr same_books_def\<close>)
  have ne: "(in_id i, se_id e) \<noteq> ?s" using evt by (auto simp: is_sale_key_def)
  show "\<exists>row. sd_receipts db' ?s = Some row \<and> re_conversionId row = Some c \<and> re_refundedCents row = 0"
    using r8(2) r7 s2(1) ne d9(2) by (simp add: sale_receipt_def)
  have old: "sd_receipts d7 k = Some row" "k \<noteq> ?s" if k: "sd_receipts db k = Some row" for k row
  proof -
    show ne_s: "k \<noteq> ?s" using s1(1) k by (cases "k = ?s") simp_all
    have "sd_receipts d1 k = Some row" using s1(2) k ne_s by (simp only: fun_upd_apply if_False)
    then have "sd_receipts d2 k = Some row" using cover_invoice_Inr [OF d2] by (metis fun_upd_other option.distinct(1))
    then show "sd_receipts d7 k = Some row" using r7 ne_s by (simp only: fun_upd_apply if_False)
  qed
  show "sd_receipts db' k = Some row" if "sd_receipts db k = Some row" for k row
    using old [OF that] r8 by auto
  show "re_paymentIntentId row = None \<and> (is_sale_key k \<longrightarrow> re_conversionId row = None)"
    if "sd_receipts db' k = Some row" "sd_receipts db k = None" "k \<noteq> ?s" for k row
    using that r8(2) r7 cover_invoice_Inr [OF d2] s1 evt(1)
    by (auto simp: event_receipt_def covering_receipt_def is_sale_key_def split: if_splits)
qed

definition net_value :: "conversion \<Rightarrow> int" where
  "net_value c = coalesce (cv_valueCents c) 0"

definition reverse_row :: "string \<Rightarrow> int \<Rightarrow> conversion \<Rightarrow> conversion" where
  "reverse_row cid delta c = (if cv_id c = cid \<and> 0 < min (net_value c) delta
     then c\<lparr>cv_valueCents := Some (net_value c - min (net_value c) delta)\<rparr> else c)"

lemma reverse_row_keeps [simp]: "cv_id (reverse_row cid delta c) = cv_id c" "cv_goalId (reverse_row cid delta c) = cv_goalId c"
  "cv_createdAt (reverse_row cid delta c) = cv_createdAt c"
  by (simp_all add: reverse_row_def)

lemma net_reverse_row: "0 \<le> net_value c \<Longrightarrow> 0 < delta \<Longrightarrow>
    net_value (reverse_row cid delta c) = (if cv_id c = cid then max 0 (net_value c - delta) else net_value c)"
  by (auto simp: reverse_row_def net_value_def coalesce_def)

lemma find_conversion_Some: "find_conversion db cid = Some c \<Longrightarrow> c \<in> set (sd_conversions db) \<and> cv_id c = cid"
  by (auto simp: find_conversion_def find_Some_iff)

lemma find_id_None: "find (\<lambda>r. cv_id r = cid) cs = None \<longleftrightarrow> cid \<notin> set (map cv_id cs)"
  by (induction cs) auto

lemma find_conversion_None: "find_conversion db cid = None \<longleftrightarrow> cid \<notin> set (map cv_id (sd_conversions db))"
  by (simp only: find_conversion_def find_id_None)

lemma find_snoc: "find P xs = None \<Longrightarrow> find P (xs @ [x]) = (if P x then Some x else None)"
  by (induction xs) (simp_all split: if_splits)

lemma distinct_same_id: "distinct (map cv_id cs) \<Longrightarrow> c \<in> set cs \<Longrightarrow> d \<in> set cs \<Longrightarrow> cv_id c = cv_id d \<Longrightarrow> c = d"
  by (metis distinct_map inj_onD)

lemma reverse_value_rows:
  assumes "distinct (map cv_id (sd_conversions db))" "c \<in> set (sd_conversions db)"
  shows "sd_conversions (reverse_value c (min (net_value c) delta) db) = map (reverse_row (cv_id c) delta) (sd_conversions db)"
    "sd_receipts (reverse_value c n db) = sd_receipts db" "sd_commissions (reverse_value c n db) = sd_commissions db"
    "sd_dailies (reverse_value c n db) = (if 0 < n then (sd_dailies db)((cv_goalId c, iso_day_key (cv_createdAt c)) :=
        map_option (\<lambda>d. d\<lparr>dy_valueCents := dy_valueCents d - n\<rparr>) (sd_dailies db (cv_goalId c, iso_day_key (cv_createdAt c)))) else sd_dailies db)"
proof -
  have same: "d = c" if "d \<in> set (sd_conversions db)" "cv_id d = cv_id c" for d
    using distinct_same_id [OF assms(1) that(1) assms(2)] that(2) by blast
  then have "(\<lambda>r. if cv_id r = cv_id c then r\<lparr>cv_valueCents := Some (net_value c - min (net_value c) delta)\<rparr> else r) d = reverse_row (cv_id c) delta d"
    if "d \<in> set (sd_conversions db)" "0 < min (net_value c) delta" for d
    using that by (auto simp: reverse_row_def)
  moreover have "reverse_row (cv_id c) delta d = d" if "d \<in> set (sd_conversions db)" "\<not> 0 < min (net_value c) delta" for d
    using that same by (auto simp: reverse_row_def)
  ultimately show "sd_conversions (reverse_value c (min (net_value c) delta) db) = map (reverse_row (cv_id c) delta) (sd_conversions db)"
    by (auto simp: reverse_value_def subtract_daily_def set_conversion_value_def net_value_def [symmetric] map_idI intro!: map_cong)
qed (simp_all add: reverse_value_def subtract_daily_def set_conversion_value_def)

lemma refund_tx_Inr:
  assumes tx: "refund_tx i e te q db = Inr (db', rv)" and distinct: "distinct (map cv_id (sd_conversions db))"
    and delta: "delta = rf_total q - re_refundedCents (rf_row q)"
  shows "0 < delta"
    "\<exists>row. sd_receipts db (rf_key q) = Some row \<and> re_refundedCents row = re_refundedCents (rf_row q) \<and>
       (in_id i, se_id e) \<noteq> rf_key q \<and> sd_receipts db (in_id i, se_id e) = None \<and>
       sd_receipts db' = (sd_receipts db)(rf_key q \<mapsto> row\<lparr>re_refundedCents := rf_total q\<rparr>,
         (in_id i, se_id e) \<mapsto> event_receipt e Refunded (Some (rf_conversionId q)))"
    "sd_conversions db' = map (reverse_row (rf_conversionId q) delta) (sd_conversions db)"
    "sd_dailies db' = (case find_conversion db (rf_conversionId q) of None \<Rightarrow> sd_dailies db
       | Some c \<Rightarrow> if 0 < min (net_value c) delta then (sd_dailies db)((cv_goalId c, iso_day_key (cv_createdAt c)) :=
           map_option (\<lambda>d. d\<lparr>dy_valueCents := dy_valueCents d - min (net_value c) delta\<rparr>)
             (sd_dailies db (cv_goalId c, iso_day_key (cv_createdAt c)))) else sd_dailies db)"
    "ledger_bounds (sd_commissions db) \<Longrightarrow> rows_keep (te_commissions te) (sd_commissions db) \<Longrightarrow>
       ledger_bounds (sd_commissions db') \<and> rows_keep (sd_commissions db) (sd_commissions db')"
    "ledger_ok (sd_commissions db) \<Longrightarrow> te_commissions te = sd_commissions db \<Longrightarrow> ledger_ok (sd_commissions db')"
proof -
  let ?e = "(in_id i, se_id e)" let ?c = "rf_conversionId q"
  have pos: "0 < delta" using tx by (auto simp: refund_tx_def Let_def delta split: if_splits)
  obtain d1 d2 where d1: "claim_refund q db = Inr d1" and d2: "create_receipt ?e (event_receipt e Refunded (Some ?c)) d1 = Inr d2"
    and rest: "(case find_conversion d2 ?c of None \<Rightarrow> Inr (d2, None)
               | Some c \<Rightarrow> Inr (apply_commission_refund te ?c (rf_total q) (reverse_value c (min (coalesce (cv_valueCents c) 0) delta) d2),
                   Some \<lparr>rv_urlId = cv_urlId c, rv_reversedCents = min (coalesce (cv_valueCents c) 0) delta,
                     rv_netValueCents = coalesce (cv_valueCents c) 0 - min (coalesce (cv_valueCents c) 0) delta,
                     rv_currency = cv_currency c\<rparr>)) = (Inr (db', rv) :: (stripe_db \<times> reversal option) tx)"
    using tx pos unfolding refund_tx_def Let_def delta [symmetric] by (simp add: tx_bind_Inr) blast
  obtain row where row: "sd_receipts db (rf_key q) = Some row" "re_refundedCents row = re_refundedCents (rf_row q)"
    "d1 = db\<lparr>sd_receipts := (sd_receipts db)(rf_key q \<mapsto> row\<lparr>re_refundedCents := rf_total q\<rparr>)\<rparr>"
    using d1 by (auto simp: claim_refund_def split: option.splits if_splits)
  have d2': "sd_receipts d1 ?e = None" "d2 = d1\<lparr>sd_receipts := (sd_receipts d1)(?e \<mapsto> event_receipt e Refunded (Some ?c))\<rparr>"
    using d2 by (simp_all add: create_receipt_Inr)
  have same: "same_books db d2" "find_conversion d2 ?c = find_conversion db ?c"
    using d2' row(3) by (simp_all add: same_books_def find_conversion_def)
  have cases: "find_conversion db ?c = None \<Longrightarrow> db' = d2"
    "\<And>c. find_conversion db ?c = Some c \<Longrightarrow> db' = apply_commission_refund te ?c (rf_total q) (reverse_value c (min (net_value c) delta) d2)"
    using rest same(2) by (simp_all add: Let_def net_value_def)
  have found: "c \<in> set (sd_conversions d2)" "cv_id c = ?c" "distinct (map cv_id (sd_conversions d2))" if "find_conversion db ?c = Some c" for c
    using find_conversion_Some [OF that] same distinct by (simp_all add: same_books_def)
  have r: "sd_receipts db' = sd_receipts d2"
    using cases found reverse_value_rows(2) by (cases "find_conversion db ?c") (simp_all add: apply_commission_refund_def split: option.split)
  show "0 < delta" by (fact pos)
  show "\<exists>row. sd_receipts db (rf_key q) = Some row \<and> re_refundedCents row = re_refundedCents (rf_row q) \<and>
       ?e \<noteq> rf_key q \<and> sd_receipts db ?e = None \<and>
       sd_receipts db' = (sd_receipts db)(rf_key q \<mapsto> row\<lparr>re_refundedCents := rf_total q\<rparr>,
         ?e \<mapsto> event_receipt e Refunded (Some ?c))"
  proof (intro exI [of _ row] conjI)
    show ne: "?e \<noteq> rf_key q" using d2'(1) row(3) by auto
    have "sd_receipts d1 = (sd_receipts db)(rf_key q \<mapsto> row\<lparr>re_refundedCents := rf_total q\<rparr>)" using row(3) by simp
    then show "sd_receipts db ?e = None" using d2'(1) ne by (simp only: fun_upd_apply if_False)
  qed (use row r d2' in simp_all)
  show "sd_conversions db' = map (reverse_row ?c delta) (sd_conversions db)"
  proof (cases "find_conversion db ?c")
    case None
    then have "reverse_row ?c delta d = d" if "d \<in> set (sd_conversions db)" for d
    proof -
      have "cv_id d \<noteq> ?c" using None that unfolding find_conversion_None set_map by (metis imageI)
      then show ?thesis by (simp add: reverse_row_def)
    qed
    then show ?thesis using cases(1) None same by (simp add: same_books_def map_idI)
  next
    case (Some c)
    then show ?thesis using cases(2) reverse_value_rows(1) [OF found(3,1)] found(2) same
      by (simp add: apply_commission_refund_def same_books_def split: option.split)
  qed
  show "sd_dailies db' = (case find_conversion db ?c of None \<Rightarrow> sd_dailies db
       | Some c \<Rightarrow> if 0 < min (net_value c) delta then (sd_dailies db)((cv_goalId c, iso_day_key (cv_createdAt c)) :=
           map_option (\<lambda>d. d\<lparr>dy_valueCents := dy_valueCents d - min (net_value c) delta\<rparr>)
             (sd_dailies db (cv_goalId c, iso_day_key (cv_createdAt c)))) else sd_dailies db)"
    using cases reverse_value_rows(4) [OF found(3,1)] same
    by (cases "find_conversion db ?c") (simp_all add: apply_commission_refund_def same_books_def split: option.split)
  have com: "sd_commissions db' = sd_commissions db \<or>
      (\<exists>row. find_by_conversion (te_commissions te) ?c = Some row \<and> sd_commissions db' = refund_write (sd_commissions db) row (rf_total q))"
    using cases reverse_value_rows(3) [OF found(3,1)] same
    by (cases "find_conversion db ?c"; cases "find_by_conversion (te_commissions te) ?c") (simp_all add: apply_commission_refund_def same_books_def)
  have member: "row \<in> set (te_commissions te)" if "find_by_conversion (te_commissions te) ?c = Some row" for row
    using that by (metis find_by_conversion_def find_Some_iff nth_mem)
  show "ledger_bounds (sd_commissions db') \<and> rows_keep (sd_commissions db) (sd_commissions db')"
    if "ledger_bounds (sd_commissions db)" "rows_keep (te_commissions te) (sd_commissions db)"
    using com refund_write_bounds [OF that(1) member that(2)] that(1) by auto
  show "ledger_ok (sd_commissions db')" if "ledger_ok (sd_commissions db)" "te_commissions te = sd_commissions db"
    using com refund_write_ok(1) [OF that(1)] member that by auto
qed

section \<open>Runs\<close>

text \<open>
  The states of a run, the newest first.  A delivery is handled with reads of any earlier
  states, and \<open>days\<close> remembers for each conversion the day on which the handler that recorded it read
  its clock, which need not be the day of the row.  When \<open>overtaken\<close> is true the commission a refund
  writes back may have been read before other changes of it.  A late receipt is the last write of a handler whose transaction failed before; the
  other steps are the pay-out actions and changes of goals, customers, quotas and reward
  configurations by the rest of the program.
\<close>

definition empty_books :: "stripe_db \<Rightarrow> bool" where
  "empty_books db = (sd_receipts db = Map.empty \<and> sd_conversions db = [] \<and> sd_dailies db = Map.empty \<and> sd_commissions db = [])"

definition reads_from :: "stripe_db list \<Rightarrow> stripe_reads \<Rightarrow> bool" where
  "reads_from hist r \<longleftrightarrow> (\<forall>a p k row. rd_refundable r a p = Some (k, row) \<longrightarrow>
     (\<exists>old \<in> set hist. sd_receipts old k = Some row) \<and> re_paymentIntentId row = Some p)"

definition new_days :: "stripe_reads \<Rightarrow> stripe_db \<Rightarrow> stripe_db \<Rightarrow> (string \<Rightarrow> string) \<Rightarrow> (string \<Rightarrow> string)" where
  "new_days r db db' days = (\<lambda>c. if c \<in> set (map cv_id (sd_conversions db')) \<and> c \<notin> set (map cv_id (sd_conversions db))
     then iso_day_key (rd_now r) else days c)"

definition commissions_from :: "bool \<Rightarrow> stripe_db \<Rightarrow> stripe_db list \<Rightarrow> commission_table \<Rightarrow> bool" where
  "commissions_from overtaken db past t \<longleftrightarrow> t = sd_commissions db \<or> (overtaken \<and> (\<exists>old \<in> set past. t = sd_commissions old))"

inductive stripe_run :: "crypto \<Rightarrow> string \<Rightarrow> (string \<Rightarrow> string) \<Rightarrow> bool \<Rightarrow> (string \<Rightarrow> string) \<Rightarrow> stripe_db list \<Rightarrow> bool" for cr secret sha overtaken where
  start: "empty_books db \<Longrightarrow> stripe_run cr secret sha overtaken days [db]"
| deliver: "stripe_run cr secret sha overtaken days (db # past) \<Longrightarrow> parse_stripe_event raw = Some e \<Longrightarrow> reads_from (db # past) r \<Longrightarrow>
    commissions_from overtaken db past (te_commissions te) \<Longrightarrow>
    process_stripe_event cr secret sha i r te e db = Inr (db', res) \<Longrightarrow>
    stripe_run cr secret sha overtaken (new_days r db db' days) (db' # db # past)"
| late_receipt: "stripe_run cr secret sha overtaken days (db # past) \<Longrightarrow> parse_stripe_event raw = Some e \<Longrightarrow>
    stripe_run cr secret sha overtaken days (write_receipt i e outcome db # db # past)"
| pay_out: "stripe_run cr secret sha overtaken days (db # past) \<Longrightarrow>
    stripe_run cr secret sha overtaken days (db\<lparr>sd_commissions := fst (transition_commissions (sd_commissions db) userId action ids payoutRef now)\<rparr> # db # past)"
| settings: "stripe_run cr secret sha overtaken days (db # past) \<Longrightarrow>
    stripe_run cr secret sha overtaken days (db\<lparr>sd_goals := g, sd_customers := c, sd_configs := f, sd_usage := u\<rparr> # db # past)"

fun original_value :: "stripe_db list \<Rightarrow> string \<Rightarrow> int" where
  "original_value [] c = 0"
| "original_value (db # past) c = (if list_ex (\<lambda>p. find_conversion p c \<noteq> None) past then original_value past c
     else (case find_conversion db c of None \<Rightarrow> 0 | Some r \<Rightarrow> net_value r))"

definition on_day :: "string \<times> string \<Rightarrow> conversion \<Rightarrow> bool" where
  "on_day k c = ((cv_goalId c, iso_day_key (cv_createdAt c)) = k)"

definition daily_of :: "stripe_db \<Rightarrow> string \<times> string \<Rightarrow> int \<times> int" where
  "daily_of db k = (case sd_dailies db k of None \<Rightarrow> (0, 0) | Some d \<Rightarrow> (dy_conversions d, dy_valueCents d))"

text \<open>
  A conversion is counted on the day of its handler and reversed on the day of its row.  The counters
  of a goal and day for which these are the same conversions are in order.
\<close>

definition counted_on :: "(string \<Rightarrow> string) \<Rightarrow> string \<times> string \<Rightarrow> conversion \<Rightarrow> bool" where
  "counted_on days k c = ((cv_goalId c, days (cv_id c)) = k)"

definition day_clear :: "(string \<Rightarrow> string) \<Rightarrow> stripe_db \<Rightarrow> string \<times> string \<Rightarrow> bool" where
  "day_clear days db k \<longleftrightarrow> list_all (\<lambda>c. counted_on days k c = on_day k c) (sd_conversions db)"

text \<open>Each conversion has one sale receipt, and each sale receipt names a conversion of the table.\<close>

definition counted_once :: "stripe_db \<Rightarrow> bool" where
  "counted_once db \<longleftrightarrow> distinct (map cv_id (sd_conversions db)) \<and>
     (\<forall>c \<in> set (sd_conversions db). \<exists>!k. is_sale_key k \<and> linked db k = Some (cv_id c)) \<and>
     (\<forall>k c. is_sale_key k \<and> linked db k = Some c \<longrightarrow> c \<in> set (map cv_id (sd_conversions db)))"

definition values_net :: "stripe_db list \<Rightarrow> stripe_db \<Rightarrow> bool" where
  "values_net hist db \<longleftrightarrow> (\<forall>c \<in> set (sd_conversions db). \<forall>k row. is_sale_key k \<and> sd_receipts db k = Some row \<and>
     re_conversionId row = Some (cv_id c) \<longrightarrow>
       0 \<le> net_value c \<and> net_value c = max 0 (original_value hist (cv_id c) - re_refundedCents row))"

definition intents_on_sales :: "stripe_db \<Rightarrow> bool" where
  "intents_on_sales db \<longleftrightarrow> (\<forall>k row. sd_receipts db k = Some row \<and> re_paymentIntentId row \<noteq> None \<longrightarrow> is_sale_key k)"

definition grows :: "stripe_db \<Rightarrow> stripe_db \<Rightarrow> bool" where
  "grows old db \<longleftrightarrow> (\<forall>k row. sd_receipts old k = Some row \<longrightarrow> (\<exists>row'. sd_receipts db k = Some row' \<and> re_conversionId row' = re_conversionId row)) \<and>
     set (map cv_id (sd_conversions old)) \<subseteq> set (map cv_id (sd_conversions db)) \<and> rows_keep (sd_commissions old) (sd_commissions db)"

definition days_balance :: "(string \<Rightarrow> string) \<Rightarrow> stripe_db \<Rightarrow> bool" where
  "days_balance days db \<longleftrightarrow> (\<forall>k. fst (daily_of db k) = int (length (filter (counted_on days k) (sd_conversions db))) \<and>
     (day_clear days db k \<longrightarrow> snd (daily_of db k) = sum_list (map net_value (filter (on_day k) (sd_conversions db)))))"

definition commissions_ok :: "bool \<Rightarrow> stripe_db \<Rightarrow> bool" where
  "commissions_ok overtaken db \<longleftrightarrow> ledger_bounds (sd_commissions db) \<and> (\<not> overtaken \<longrightarrow> ledger_ok (sd_commissions db))"

fun run_inv :: "bool \<Rightarrow> (string \<Rightarrow> string) \<Rightarrow> stripe_db list \<Rightarrow> bool" where
  "run_inv ov days [] = False"
| "run_inv ov days (db # past) \<longleftrightarrow> counted_once db \<and> values_net (db # past) db \<and> days_balance days db \<and>
     commissions_ok ov db \<and> (\<forall>old \<in> set (db # past). intents_on_sales old \<and> grows old db)"

lemma grows_refl: "grows db db" by (simp add: grows_def)

lemma grows_trans: "grows a b \<Longrightarrow> grows b c \<Longrightarrow> grows a c"
  unfolding grows_def by (elim conjE, intro conjI) (metis, blast, rule rows_keep_trans)

lemma days_unchanged:
  assumes "map (\<lambda>c. (cv_id c, cv_goalId c, cv_createdAt c)) (sd_conversions db') = map (\<lambda>c. (cv_id c, cv_goalId c, cv_createdAt c)) (sd_conversions db)"
  shows "new_days r db db' days = days" "day_clear days db' k = day_clear days db k"
    "length (filter (counted_on days k) (sd_conversions db')) = length (filter (counted_on days k) (sd_conversions db))"
proof -
  have ids: "map cv_id (sd_conversions db') = map cv_id (sd_conversions db)" using arg_cong [OF assms, of "map fst"] by (simp add: comp_def)
  show "new_days r db db' days = days" by (simp only: new_days_def ids) auto
  have c: "map (\<lambda>c. (counted_on days k c, on_day k c)) (sd_conversions db') = map (\<lambda>c. (counted_on days k c, on_day k c)) (sd_conversions db)"
    using arg_cong [OF assms, of "map (\<lambda>(i, g, t). ((g, days i) = k, (g, iso_day_key t) = k))"] by (simp add: counted_on_def on_day_def comp_def)
  have "list_all (\<lambda>(a, b). a = b) (map (\<lambda>c. (counted_on days k c, on_day k c)) cs) = list_all (\<lambda>c. counted_on days k c = on_day k c) cs" for cs
    by (induction cs) simp_all
  then show "day_clear days db' k = day_clear days db k" unfolding day_clear_def using c by metis
  have "length (filter fst (map (\<lambda>c. (counted_on days k c, on_day k c)) cs)) = length (filter (counted_on days k) cs)" for cs
    by (induction cs) simp_all
  then show "length (filter (counted_on days k) (sd_conversions db')) = length (filter (counted_on days k) (sd_conversions db))" using c by metis
qed

text \<open>The frame: a step that leaves the conversions and their receipts alone.\<close>

lemma original_value_same:
  assumes "sd_conversions db' = sd_conversions db" "\<forall>old \<in> set past. grows old db"
  shows "original_value (db' # db # past) c = original_value (db # past) c"
proof (cases "find_conversion db c")
  case None
  then have "\<not> list_ex (\<lambda>p. find_conversion p c \<noteq> None) past"
    using assms(2) unfolding list_ex_iff grows_def find_conversion_None by blast
  then show ?thesis using None assms(1) by (simp add: find_conversion_def)
next
  case (Some r)
  then show ?thesis by simp
qed

lemma run_inv_frame:
  assumes inv: "run_inv ov days (db # past)" and conv: "sd_conversions db' = sd_conversions db" "sd_dailies db' = sd_dailies db"
    and com: "commissions_kept db db'"
    and keep: "\<And>k row. sd_receipts db k = Some row \<Longrightarrow> sd_receipts db' k = Some row"
    and new: "\<And>k row. sd_receipts db' k = Some row \<Longrightarrow> sd_receipts db k = None \<Longrightarrow> \<not> is_sale_key k \<and> re_paymentIntentId row = None"
  shows "run_inv ov days (db' # db # past)"
proof -
  have sale: "sd_receipts db' k = sd_receipts db k" if "is_sale_key k" for k
  proof (cases "sd_receipts db k")
    case None then show ?thesis using new [of k] that by (cases "sd_receipts db' k") auto
  next
    case (Some row) then show ?thesis using keep [of k] by simp
  qed
  have link: "is_sale_key k \<and> linked db' k = x \<longleftrightarrow> is_sale_key k \<and> linked db k = x" for k x
    using sale [of k] by (auto simp: linked_def)
  have once: "counted_once db'" using inv conv(1) by (simp add: counted_once_def link)
  have same: "original_value (db' # db # past) c = original_value (db # past) c" for c
    using inv conv(1) by (intro original_value_same) auto
  have "values_net (db' # db # past) db'"
    using inv unfolding values_net_def same conv(1) run_inv.simps using sale by metis
  moreover have "days_balance days db'" using inv conv by (simp add: days_balance_def daily_of_def day_clear_def)
  moreover have c: "commissions_ok ov db'" "rows_keep (sd_commissions db) (sd_commissions db')"
    using inv com by (auto simp: commissions_ok_def commissions_kept_def)
  moreover have "intents_on_sales db'"
    unfolding intents_on_sales_def
  proof (intro allI impI)
    fix k row assume r: "sd_receipts db' k = Some row \<and> re_paymentIntentId row \<noteq> None"
    then have "sd_receipts db k = Some row" using new [of k row] keep [of k] by (cases "sd_receipts db k") auto
    then show "is_sale_key k" using inv r unfolding run_inv.simps intents_on_sales_def by (metis list.set_intros(1))
  qed
  moreover have g: "grows db db'" unfolding grows_def using keep conv(1) c(2) by auto
  moreover have "grows old db'" if "old \<in> set (db # past)" for old
    using inv that g grows_trans unfolding run_inv.simps by metis
  ultimately show ?thesis using once inv unfolding run_inv.simps by (simp add: grows_refl)
qed

lemma run_invD:
  assumes "run_inv ov days (db # past)"
  shows "counted_once db" "values_net (db # past) db" "days_balance days db" "commissions_ok ov db" "intents_on_sales db"
    "\<And>old. old \<in> set (db # past) \<Longrightarrow> grows old db" "\<And>old. old \<in> set (db # past) \<Longrightarrow> intents_on_sales old"
  using assms by auto

lemma counted_onceD:
  assumes "counted_once db"
  shows "distinct (map cv_id (sd_conversions db))"
    "\<And>c. c \<in> set (sd_conversions db) \<Longrightarrow> \<exists>!k. is_sale_key k \<and> linked db k = Some (cv_id c)"
    "\<And>k c. is_sale_key k \<Longrightarrow> linked db k = Some c \<Longrightarrow> c \<in> set (map cv_id (sd_conversions db))"
  using assms unfolding counted_once_def by blast+

lemma run_inv_extend:
  assumes inv: "run_inv ov days (db # past)" and "counted_once db'" "values_net (db' # db # past) db'" "days_balance days' db'"
    "commissions_ok ov db'" "intents_on_sales db'" and g: "grows db db'"
  shows "run_inv ov days' (db' # db # past)"
proof -
  have "grows old db'" if "old \<in> set (db # past)" for old using run_invD(6) [OF inv that] g by (rule grows_trans)
  then show ?thesis using assms run_invD(7) [OF inv] by (simp add: grows_refl)
qed

lemma original_value_old:
  assumes "find_conversion db c \<noteq> None"
  shows "original_value (db' # db # past) c = original_value (db # past) c"
  using assms by simp

lemma original_value_new:
  assumes "run_inv ov days (db # past)" "find_conversion db c = None" "find_conversion db' c = Some r"
  shows "original_value (db' # db # past) c = net_value r"
proof -
  have "find_conversion p c = None" if "p \<in> set (db # past)" for p
    using run_invD(6) [OF assms(1) that] assms(2) unfolding find_conversion_None grows_def by blast
  then have "\<not> list_ex (\<lambda>p. find_conversion p c \<noteq> None) (db # past)" unfolding list_ex_iff by metis
  then show ?thesis using assms(3) by simp
qed

lemma sale_step:
  assumes inv: "run_inv ov days (db # past)" and tx: "record_sale_tx i e w te db = Inr (db', c)" and evt: "prefix ''evt_'' (se_id e)"
    and key: "is_sale_key (in_id i, sc_saleKey (sw_sale w))" and v: "0 \<le> coalesce (sw_value w) 0"
    and now: "sw_now w = rd_now r"
  shows "run_inv ov (new_days r db db' days) (db' # db # past)"
proof -
  define S where "S = (in_id i, sc_saleKey (sw_sale w))"
  note eff = record_sale_tx_Inr [OF tx evt key, folded S_def]
  have S: "is_sale_key S" using key by (simp add: S_def)
  obtain g where conv: "sd_conversions db' = sd_conversions db @ [sale_conversion e w te g]" and
    dly: "sd_dailies db' = (sd_dailies db)((go_id g, iso_day_key (sw_now w)) \<mapsto>
         (case sd_dailies db (go_id g, iso_day_key (sw_now w)) of None \<Rightarrow> \<lparr>dy_conversions = 1, dy_valueCents = coalesce (sw_value w) 0\<rparr>
          | Some d \<Rightarrow> \<lparr>dy_conversions = dy_conversions d + 1, dy_valueCents = dy_valueCents d + coalesce (sw_value w) 0\<rparr>))"
    using eff(3) by blast
  define new where "new = sale_conversion e w te g"
  have new: "cv_id new = c" "net_value new = coalesce (sw_value w) 0" "cv_goalId new = go_id g"
    using eff(1) by (auto simp: new_def sale_conversion_def net_value_def)
  have conv: "sd_conversions db' = sd_conversions db @ [new]" using conv by (simp add: new_def)
  obtain srow where srow: "sd_receipts db' S = Some srow" "re_conversionId srow = Some c" "re_refundedCents srow = 0" using eff(6) by blast
  have other: "sd_receipts db k = Some row" if "sd_receipts db' k = Some row" "k \<noteq> S" "is_sale_key k" "re_conversionId row \<noteq> None" for k row
    using eff(7) [of k] eff(8) [of k row] that by (cases "sd_receipts db k") auto
  have link: "linked db' k = (if k = S then Some c else linked db k)" if "is_sale_key k" for k
  proof (cases "sd_receipts db k")
    case None
    then have "k \<noteq> S \<Longrightarrow> linked db' k = None" using eff(8) [of k] that by (cases "sd_receipts db' k") (auto simp: linked_def)
    then show ?thesis using None srow by (auto simp: linked_def)
  next
    case (Some row)
    then have "k \<noteq> S" using eff(5) by auto
    then show ?thesis using Some eff(7) [of k row] by (simp add: linked_def)
  qed
  note once = counted_onceD [OF run_invD(1) [OF inv]]
  have fresh: "linked db k \<noteq> Some c" if "is_sale_key k" for k using once(3) [OF that, of c] eff(2) by blast
  have unlinked: "linked db S = None" using eff(5) by (simp add: linked_def)
  have old_ne: "cv_id x \<noteq> c" if "x \<in> set (sd_conversions db)" for x using eff(2) that by auto
  have "counted_once db'" unfolding counted_once_def
  proof (intro conjI ballI allI impI)
    show "distinct (map cv_id (sd_conversions db'))" using once(1) eff(2) conv new(1) by simp
    fix x assume x: "x \<in> set (sd_conversions db')"
    show "\<exists>!k. is_sale_key k \<and> linked db' k = Some (cv_id x)"
    proof (cases "x = new")
      case True
      show ?thesis
      proof (rule ex1I [of _ S])
        show "is_sale_key S \<and> linked db' S = Some (cv_id x)" using S link [OF S] new(1) True by simp
        show "k = S" if "is_sale_key k \<and> linked db' k = Some (cv_id x)" for k
          using that link [of k] fresh [of k] new(1) True by (cases "k = S") simp_all
      qed
    next
      case False
      then have xo: "x \<in> set (sd_conversions db)" using x conv by simp
      obtain k where k: "is_sale_key k" "linked db k = Some (cv_id x)" "\<And>j. is_sale_key j \<Longrightarrow> linked db j = Some (cv_id x) \<Longrightarrow> j = k"
        using once(2) [OF xo] by blast
      show ?thesis
      proof (rule ex1I [of _ k])
        show "is_sale_key k \<and> linked db' k = Some (cv_id x)" using k(1,2) link [of k] unlinked by (cases "k = S") simp_all
        show "j = k" if "is_sale_key j \<and> linked db' j = Some (cv_id x)" for j
          using that link [of j] k(3) [of j] old_ne [OF xo] by (cases "j = S") simp_all
      qed
    qed
  next
    fix k x assume "is_sale_key k \<and> linked db' k = Some x"
    then show "x \<in> set (map cv_id (sd_conversions db'))"
      using link [of k] once(3) [of k x] conv new(1) by (cases "k = S") auto
  qed
  moreover have "values_net (db' # db # past) db'" unfolding values_net_def
  proof (intro ballI allI impI)
    fix x k row
    assume x: "x \<in> set (sd_conversions db')" and k: "is_sale_key k \<and> sd_receipts db' k = Some row \<and> re_conversionId row = Some (cv_id x)"
    show "0 \<le> net_value x \<and> net_value x = max 0 (original_value (db' # db # past) (cv_id x) - re_refundedCents row)"
    proof (cases "x = new")
      case True
      then have "k = S" using k link [of k] fresh [of k] new(1) by (cases "k = S") (simp_all add: linked_def)
      then have "re_refundedCents row = 0" using k srow by simp
      moreover have "original_value (db' # db # past) c = net_value new"
      proof (rule original_value_new [OF inv])
        show "find_conversion db c = None" using eff(2) by (simp add: find_conversion_None)
        then show "find_conversion db' c = Some new" using conv new(1) by (simp add: find_conversion_def find_snoc)
      qed
      ultimately show ?thesis using True new v by simp
    next
      case False
      then have xo: "x \<in> set (sd_conversions db)" using x conv by simp
      have "k \<noteq> S" using k srow old_ne [OF xo] by auto
      then have "sd_receipts db k = Some row" using other k by blast
      moreover have "find_conversion db (cv_id x) \<noteq> None" using xo by (auto simp: find_conversion_None)
      ultimately show ?thesis using run_invD(2) [OF inv] xo k original_value_old unfolding values_net_def by metis
    qed
  qed
  moreover have "days_balance (new_days r db db' days) db'" unfolding days_balance_def
  proof
    fix k
    let ?days = "new_days r db db' days"
    have was: "fst (daily_of db k) = int (length (filter (counted_on days k) (sd_conversions db)))"
      "day_clear days db k \<longrightarrow> snd (daily_of db k) = sum_list (map net_value (filter (on_day k) (sd_conversions db)))"
      using run_invD(3) [OF inv] unfolding days_balance_def by blast+
    have old: "counted_on ?days k x = counted_on days k x" if "x \<in> set (sd_conversions db)" for x
      using that by (simp add: counted_on_def new_days_def)
    have "counted_on ?days k new = (k = (go_id g, iso_day_key (sw_now w)))"
      using eff(2) by (auto simp: counted_on_def new_days_def new conv now)
    moreover have "filter (counted_on ?days k) (sd_conversions db) = filter (counted_on days k) (sd_conversions db)"
      using old by (rule filter_cong [OF refl])
    moreover have "day_clear ?days db' k = (day_clear days db k \<and> counted_on ?days k new = on_day k new)"
      using old by (auto simp: day_clear_def conv list_all_iff)
    ultimately show "fst (daily_of db' k) = int (length (filter (counted_on ?days k) (sd_conversions db'))) \<and>
        (day_clear ?days db' k \<longrightarrow> snd (daily_of db' k) = sum_list (map net_value (filter (on_day k) (sd_conversions db'))))"
      using was by (cases "k = (go_id g, iso_day_key (sw_now w))") (auto simp: daily_of_def dly conv new split: option.splits)
  qed
  moreover have "intents_on_sales db'" unfolding intents_on_sales_def
  proof (intro allI impI)
    fix k row assume r: "sd_receipts db' k = Some row \<and> re_paymentIntentId row \<noteq> None"
    show "is_sale_key k"
    proof (cases "sd_receipts db k")
      case None then show ?thesis using eff(8) [of k row] r S by blast
    next
      case (Some old) then show ?thesis using eff(7) [OF Some] run_invD(5) [OF inv] r unfolding intents_on_sales_def by (metis option.inject)
    qed
  qed
  moreover have com: "commissions_ok ov db'" "rows_keep (sd_commissions db) (sd_commissions db')"
    using eff(4) run_invD(4) [OF inv] by (auto simp: commissions_ok_def commissions_kept_def)
  moreover have "grows db db'" unfolding grows_def using eff(7) conv com(2) by auto
  ultimately show ?thesis using run_inv_extend [OF inv] by blast
qed

lemma day_books_reverse:
  assumes "distinct (map cv_id cs)" "\<forall>x \<in> set cs. 0 \<le> net_value x" "0 < delta"
  shows "sum_list (map net_value (filter (on_day k) (map (reverse_row cid delta) cs))) =
    sum_list (map net_value (filter (on_day k) cs)) -
      (case find (\<lambda>r. cv_id r = cid) cs of None \<Rightarrow> 0 | Some c \<Rightarrow> if on_day k c then min (net_value c) delta else 0)"
  using assms
proof (induction cs)
  case (Cons c cs)
  have day: "on_day k (reverse_row cid delta x) = on_day k x" for x by (simp add: on_day_def)
  have none: "find (\<lambda>r. cv_id r = cid) cs = None" if "cv_id c = cid" using Cons.prems(1) that by (simp add: find_id_None)
  have net: "net_value (reverse_row cid delta c) = (if cv_id c = cid then net_value c - min (net_value c) delta else net_value c)"
    using Cons.prems by (simp add: net_reverse_row max_def min_def)
  show ?case using Cons none by (cases "cv_id c = cid") (simp_all add: day net)
qed simp

lemma refund_step:
  assumes inv: "run_inv ov days (db # past)" and tx: "refund_tx i e te q db = Inr (db', rv)" and evt: "prefix ''evt_'' (se_id e)"
    and old: "old \<in> set (db # past)" "sd_receipts old (rf_key q) = Some (rf_row q)"
    and intent: "re_paymentIntentId (rf_row q) \<noteq> None" and conv: "re_conversionId (rf_row q) = Some (rf_conversionId q)"
    and read: "commissions_from ov db past (te_commissions te)"
  shows "run_inv ov (new_days r db db' days) (db' # db # past)"
proof -
  define K where "K = rf_key q" define E where "E = (in_id i, se_id e)" define cid where "cid = rf_conversionId q"
  define delta where "delta = rf_total q - re_refundedCents (rf_row q)"
  note once = counted_onceD [OF run_invD(1) [OF inv]]
  note eff = refund_tx_Inr [OF tx once(1) delta_def, folded K_def E_def cid_def]
  have K: "is_sale_key K" using run_invD(7) [OF inv old(1)] old(2) intent unfolding intents_on_sales_def K_def by blast
  have E: "\<not> is_sale_key E" using evt by (simp add: is_sale_key_def E_def)
  obtain row where row: "sd_receipts db K = Some row" "re_refundedCents row = re_refundedCents (rf_row q)" "E \<noteq> K" "sd_receipts db E = None"
    and rec: "sd_receipts db' = (sd_receipts db)(K \<mapsto> row\<lparr>re_refundedCents := rf_total q\<rparr>, E \<mapsto> event_receipt e Refunded (Some cid))"
    using eff(2) by blast
  have "\<exists>row'. sd_receipts db K = Some row' \<and> re_conversionId row' = re_conversionId (rf_row q)"
    using run_invD(6) [OF inv old(1)] old(2) unfolding grows_def K_def by blast
  then have rcid: "re_conversionId row = Some cid" using row(1) conv by (simp add: cid_def)
  have recK: "sd_receipts db' K = Some (row\<lparr>re_refundedCents := rf_total q\<rparr>)" using rec row(3) by simp
  have rec_other: "sd_receipts db' k = sd_receipts db k" if "k \<noteq> K" "is_sale_key k" for k
  proof -
    have "k \<noteq> E" using E that(2) by blast
    then show ?thesis using rec that(1) by (simp only: fun_upd_apply if_False)
  qed
  have link: "linked db' k = linked db k" if "is_sale_key k" for k
    using rec_other [OF _ that] recK row(1) by (cases "k = K") (simp_all add: linked_def)
  have ids: "map cv_id (sd_conversions db') = map cv_id (sd_conversions db)" using eff(3) by simp
  have kept_days: "map (\<lambda>c. (cv_id c, cv_goalId c, cv_createdAt c)) (sd_conversions db') = map (\<lambda>c. (cv_id c, cv_goalId c, cv_createdAt c)) (sd_conversions db)"
    using eff(3) by simp
  have "rows_keep (te_commissions te) (sd_commissions db)"
    using read run_invD(6) [OF inv] unfolding commissions_from_def grows_def by auto
  then have com: "commissions_ok ov db'" "rows_keep (sd_commissions db) (sd_commissions db')"
    using eff(5,6) run_invD(4) [OF inv] read by (auto simp: commissions_ok_def commissions_from_def)
  have neg: "0 \<le> net_value x" if x: "x \<in> set (sd_conversions db)" for x
  proof -
    obtain k where "is_sale_key k" "linked db k = Some (cv_id x)" using once(2) [OF x] by blast
    moreover from this obtain row where "sd_receipts db k = Some row" "re_conversionId row = Some (cv_id x)"
      by (auto simp: linked_def bind_eq_Some_conv)
    ultimately show ?thesis using run_invD(2) [OF inv] x unfolding values_net_def by blast
  qed
  have "counted_once db'" unfolding counted_once_def
  proof (intro conjI ballI allI impI)
    show "distinct (map cv_id (sd_conversions db'))" using ids once(1) by simp
    fix x assume "x \<in> set (sd_conversions db')"
    then obtain y where y: "y \<in> set (sd_conversions db)" "cv_id x = cv_id y" using eff(3) by auto
    obtain k where k: "is_sale_key k" "linked db k = Some (cv_id y)" "\<And>j. is_sale_key j \<Longrightarrow> linked db j = Some (cv_id y) \<Longrightarrow> j = k"
      using once(2) [OF y(1)] by blast
    show "\<exists>!k. is_sale_key k \<and> linked db' k = Some (cv_id x)"
    proof (rule ex1I [of _ k])
      show "is_sale_key k \<and> linked db' k = Some (cv_id x)" using k(1,2) y(2) link by simp
      show "j = k" if "is_sale_key j \<and> linked db' j = Some (cv_id x)" for j using that link [of j] k(3) [of j] y(2) by simp
    qed
  next
    fix k x assume "is_sale_key k \<and> linked db' k = Some x"
    then show "x \<in> set (map cv_id (sd_conversions db'))" using link [of k] once(3) [of k x] ids by simp
  qed
  moreover have "values_net (db' # db # past) db'" unfolding values_net_def
  proof (intro ballI allI impI)
    fix x k r
    assume x: "x \<in> set (sd_conversions db')" and k: "is_sale_key k \<and> sd_receipts db' k = Some r \<and> re_conversionId r = Some (cv_id x)"
    obtain y where y: "y \<in> set (sd_conversions db)" "x = reverse_row cid delta y" using x eff(3) by auto
    have net: "net_value x = (if cv_id y = cid then max 0 (net_value y - delta) else net_value y)" and same: "cv_id x = cv_id y"
      using y(2) net_reverse_row neg [OF y(1)] eff(1) by simp_all
    have "find_conversion db (cv_id y) \<noteq> None" using y(1) by (auto simp: find_conversion_None)
    then have o: "original_value (db' # db # past) (cv_id x) = original_value (db # past) (cv_id y)"
      using original_value_old same by metis
    have was: "net_value y = max 0 (original_value (db # past) (cv_id y) - re_refundedCents r')"
      if "sd_receipts db k = Some r'" "re_conversionId r' = Some (cv_id y)" for r'
      using run_invD(2) [OF inv] y(1) k that unfolding values_net_def by blast
    show "0 \<le> net_value x \<and> net_value x = max 0 (original_value (db' # db # past) (cv_id x) - re_refundedCents r)"
    proof (cases "k = K")
      case True
      then have r: "r = row\<lparr>re_refundedCents := rf_total q\<rparr>" using k recK by simp
      then have "cv_id y = cid" using k rcid same by simp
      then show ?thesis using net o was [of row] row(1,2) rcid True r eff(1) by (simp add: delta_def max_def)
    next
      case False
      then have r: "sd_receipts db k = Some r" using rec_other k by metis
      have "cv_id y \<noteq> cid"
      proof
        assume "cv_id y = cid"
        then have "linked db k = Some (cv_id y)" "linked db K = Some (cv_id y)" using r k same row(1) rcid by (simp_all add: linked_def)
        then show False using once(2) [OF y(1)] k K False by blast
      qed
      then show ?thesis using net o was [OF r] k same neg [OF y(1)] by simp
    qed
  qed
  moreover have "days_balance days db'" unfolding days_balance_def
  proof
    fix k
    have before: "fst (daily_of db k) = int (length (filter (counted_on days k) (sd_conversions db)))"
      "day_clear days db k \<Longrightarrow> snd (daily_of db k) = sum_list (map net_value (filter (on_day k) (sd_conversions db)))"
      using run_invD(3) [OF inv] unfolding days_balance_def by blast+
    have sum: "sum_list (map net_value (filter (on_day k) (sd_conversions db'))) = sum_list (map net_value (filter (on_day k) (sd_conversions db))) -
        (case find_conversion db cid of None \<Rightarrow> 0 | Some c \<Rightarrow> if on_day k c then min (net_value c) delta else 0)"
      using day_books_reverse [OF once(1) _ eff(1), of k cid] neg unfolding eff(3) find_conversion_def by simp
    have first: "fst (daily_of db' k) = fst (daily_of db k)"
      by (cases "find_conversion db cid") (auto simp: eff(4) daily_of_def split: option.split)
    have second: "snd (daily_of db' k) = sum_list (map net_value (filter (on_day k) (sd_conversions db')))" if clear: "day_clear days db k"
    proof (cases "find_conversion db cid")
      case None
      then show ?thesis using before(2) [OF clear] sum eff(4) by (simp add: daily_of_def)
    next
      case (Some c)
      have c: "c \<in> set (sd_conversions db)" using find_conversion_Some [OF Some] by blast
      show ?thesis
      proof (cases "on_day k c")
        case False
        then show ?thesis using before(2) [OF clear] sum eff(4) Some by (auto simp: daily_of_def on_day_def)
      next
        case True
        then have "counted_on days k c" using clear c by (simp add: day_clear_def list_all_iff)
        then have "0 < length (filter (counted_on days k) (sd_conversions db))" using c by (auto simp: filter_empty_conv)
        then obtain d where d: "sd_dailies db k = Some d" using before(1) by (cases "sd_dailies db k") (simp_all add: daily_of_def)
        show ?thesis using before(2) [OF clear] sum eff(1,4) Some True d neg [OF c]
          by (auto simp: daily_of_def on_day_def min_def)
      qed
    qed
    show "fst (daily_of db' k) = int (length (filter (counted_on days k) (sd_conversions db'))) \<and>
        (day_clear days db' k \<longrightarrow> snd (daily_of db' k) = sum_list (map net_value (filter (on_day k) (sd_conversions db'))))"
      using first before(1) second days_unchanged(2,3) [OF kept_days] by simp
  qed
  moreover have "intents_on_sales db'" unfolding intents_on_sales_def
  proof (intro allI impI)
    fix k r assume r: "sd_receipts db' k = Some r \<and> re_paymentIntentId r \<noteq> None"
    show "is_sale_key k"
    proof (cases "k = K \<or> k = E")
      case True then show ?thesis using K r rec row(3) by (auto simp: event_receipt_def)
    next
      case False
      then have "sd_receipts db k = Some r" using r rec by simp
      then show ?thesis using run_invD(5) [OF inv] r unfolding intents_on_sales_def by blast
    qed
  qed
  moreover have "grows db db'" unfolding grows_def
  proof (intro conjI allI impI)
    fix k r assume r: "sd_receipts db k = Some r"
    then have "k \<noteq> E" using row(4) by auto
    then show "\<exists>r'. sd_receipts db' k = Some r' \<and> re_conversionId r' = re_conversionId r"
      using rec r row(1) by (cases "k = K") simp_all
  qed (simp_all only: ids com)
  ultimately show ?thesis using run_inv_extend [OF inv] com(1) days_unchanged(1) [OF kept_days] by metis
qed

section \<open>What a handler may write\<close>

lemma normalize_sale_value_nonneg: "normalize_sale_value a c = (v, cur) \<Longrightarrow> 0 \<le> coalesce v 0"
  by (auto simp: normalize_sale_value_def Let_def coalesce_def MAX_SALE_VALUE_CENTS_def split: option.splits if_splits)

lemma sale_keys: "sale_from_checkout_session s = Some c \<Longrightarrow> is_sale_key (i, sc_saleKey c)" "is_sale_key (i, sc_saleKey (sale_from_invoice s))"
  by (auto simp: sale_from_checkout_session_def sale_from_invoice_def is_sale_key_def Let_def split: if_splits)

lemma plan_sale_Sell:
  assumes "plan_sale cr secret sha i r sale = Inr (Sell w)"
  shows "sw_sale w = sale" "0 \<le> coalesce (sw_value w) 0" "sw_now w = rd_now r"
    "\<exists>a. resolve_attribution cr secret i r sale = Inr (Inr a) \<and> rd_link r (at_urlId a) = Some (sw_link w) \<and>
       can_attribute_to_link r (in_userId i) (sw_link w)" "sw_value w \<noteq> Some 0"
  using assms normalize_sale_value_nonneg
  by (auto simp: plan_sale_def Let_def split: option.splits prod.splits if_splits sum.splits)

lemma plan_sale_not_reverse: "plan_sale cr secret sha i r sale \<noteq> Inr (Reverse_sale q)"
  by (auto simp: plan_sale_def Let_def split: option.splits prod.splits if_splits sum.splits)

lemma plan_Sell:
  assumes "plan_stripe_event cr secret sha i r e = Inr (Sell w)"
  shows "is_sale_key (in_id i, sc_saleKey (sw_sale w))" "plan_sale cr secret sha i r (sw_sale w) = Inr (Sell w)"
  using assms sale_keys plan_sale_Sell(1)
  by (auto simp: plan_stripe_event_def plan_refund_def Let_def split: option.splits if_splits list.splits)

lemma plan_Reverse:
  assumes "plan_stripe_event cr secret sha i r e = Inr (Reverse_sale q)"
  shows "\<exists>p. rd_refundable r (in_id i) p = Some (rf_key q, rf_row q) \<and> re_conversionId (rf_row q) = Some (rf_conversionId q)"
  using assms plan_sale_not_reverse
  by (auto simp: plan_stripe_event_def plan_refund_def Let_def split: option.splits if_splits list.splits) blast+

lemma parse_stripe_event_evt: "parse_stripe_event raw = Some e \<Longrightarrow> prefix ''evt_'' (se_id e)"
  by (auto simp: parse_stripe_event_def split: option.splits if_splits json.splits)

lemma write_receipt_step:
  assumes inv: "run_inv ov days (db # past)" and evt: "prefix ''evt_'' (se_id e)"
  shows "run_inv ov days (write_receipt i e outcome db # db # past)"
proof (rule run_inv_frame [OF inv])
  have sr: "sd_receipts (write_receipt i e outcome db) = (case sd_receipts db (in_id i, se_id e) of
      None \<Rightarrow> (sd_receipts db)((in_id i, se_id e) \<mapsto> event_receipt e outcome None) | Some _ \<Rightarrow> sd_receipts db)"
    by (simp add: write_receipt_def create_receipt_def split: option.split)
  show "sd_receipts (write_receipt i e outcome db) k = Some row" if "sd_receipts db k = Some row" for k row
    using that by (cases "k = (in_id i, se_id e)") (simp_all add: sr split: option.split)
  show "\<not> is_sale_key k \<and> re_paymentIntentId row = None" if "sd_receipts (write_receipt i e outcome db) k = Some row" "sd_receipts db k = None" for k row
    using that evt by (cases "k = (in_id i, se_id e)") (auto simp: sr is_sale_key_def event_receipt_def split: option.splits)
qed (simp_all add: write_receipt_def create_receipt_def commissions_same split: option.split)

lemma same_days: "sd_conversions db' = sd_conversions db \<Longrightarrow> new_days r db db' days = days"
  by (rule days_unchanged(1)) simp

lemma write_receipt_conversions: "sd_conversions (write_receipt i e outcome db) = sd_conversions db"
  by (simp add: write_receipt_def create_receipt_def split: option.split)

lemma stay_step: "run_inv ov days (db # past) \<Longrightarrow> run_inv ov days (db # db # past)"
  by (rule run_inv_frame) (auto simp: commissions_same)

lemma finish_sale_step:
  assumes inv: "run_inv ov days (db # past)" and evt: "prefix ''evt_'' (se_id e)" and plan: "plan_stripe_event cr secret sha i r e = Inr (Sell w)"
    and fin: "finish_sale i e w te db = Inr (db', res)"
  shows "run_inv ov (new_days r db db' days) (db' # db # past)"
proof (cases "record_sale_tx i e w te db")
  case (Inr a)
  obtain d c where a: "a = (d, c)" by force
  have "d = db'" using fin Inr a by (simp add: finish_sale_def)
  then show ?thesis
    using sale_step [OF inv _ evt plan_Sell(1) [OF plan]] plan_sale_Sell(2,3) [OF plan_Sell(2) [OF plan]] Inr a by simp
next
  case (Inl f)
  show ?thesis using fin Inl write_receipt_step [OF inv evt] stay_step [OF inv]
    by (cases f) (auto simp: finish_sale_def same_days write_receipt_conversions)
qed

lemma finish_refund_step:
  assumes inv: "run_inv ov days (db # past)" and evt: "prefix ''evt_'' (se_id e)" and plan: "plan_stripe_event cr secret sha i r e = Inr (Reverse_sale q)"
    and reads: "reads_from (db # past) r" "commissions_from ov db past (te_commissions te)" and fin: "finish_refund i e te q db = Inr (db', res)"
  shows "run_inv ov (new_days r db db' days) (db' # db # past)"
proof (cases "refund_tx i e te q db")
  case (Inr a)
  obtain d v where a: "a = (d, v)" by force
  have d: "d = db'" using fin Inr a by (simp add: finish_refund_def)
  obtain p where p: "rd_refundable r (in_id i) p = Some (rf_key q, rf_row q)" "re_conversionId (rf_row q) = Some (rf_conversionId q)"
    using plan_Reverse [OF plan] by blast
  obtain old where "old \<in> set (db # past)" "sd_receipts old (rf_key q) = Some (rf_row q)" "re_paymentIntentId (rf_row q) = Some p"
    using reads(1) p(1) unfolding reads_from_def by metis
  then show ?thesis using refund_step [OF inv _ evt] p(2) reads(2) Inr a d by auto
next
  case (Inl f)
  then show ?thesis using fin write_receipt_step [OF inv evt]
    by (cases f) (auto simp: finish_refund_def same_days write_receipt_conversions)
qed

lemma process_step:
  assumes inv: "run_inv ov days (db # past)" and evt: "prefix ''evt_'' (se_id e)" and reads: "reads_from (db # past) r"
    "commissions_from ov db past (te_commissions te)"
    and run: "process_stripe_event cr secret sha i r te e db = Inr (db', res)"
  shows "run_inv ov (new_days r db db' days) (db' # db # past)"
proof -
  obtain plan where plan: "plan_stripe_event cr secret sha i r e = Inr plan" "run_stripe_plan i e te db plan = Inr (db', res)"
    using run by (auto simp: process_stripe_event_def split: sum.splits)
  show ?thesis
  proof (cases plan)
    case (Answer outcome c)
    then show ?thesis using plan stay_step [OF inv] by (simp add: run_stripe_plan_def same_days)
  next
    case (Note outcome c)
    then show ?thesis using plan write_receipt_step [OF inv evt] by (auto simp: run_stripe_plan_def same_days write_receipt_conversions)
  next
    case (Sell w)
    then show ?thesis using plan finish_sale_step [OF inv evt] by (simp add: run_stripe_plan_def)
  next
    case (Reverse_sale q)
    then show ?thesis using plan finish_refund_step [OF inv evt _ reads] by (simp add: run_stripe_plan_def)
  qed
qed

lemma stripe_run_inv: "stripe_run cr secret sha ov days hist \<Longrightarrow> run_inv ov days hist"
proof (induction rule: stripe_run.induct)
  case (start db days)
  then show ?case
    by (auto simp: empty_books_def counted_once_def values_net_def days_balance_def daily_of_def commissions_ok_def ledger_ok_def
        ledger_bounds_def intents_on_sales_def grows_def linked_def)
next
  case (deliver days db past raw e r te i db' res)
  then show ?case using process_step parse_stripe_event_evt by blast
next
  case (late_receipt days db past raw e i outcome)
  then show ?case using write_receipt_step parse_stripe_event_evt by blast
next
  case (pay_out days db past userId action ids payoutRef now)
  have "commissions_kept db (db\<lparr>sd_commissions := fst (transition_commissions (sd_commissions db) userId action ids payoutRef now)\<rparr>)"
    using apply_op_ok [of "sd_commissions db" "[]" "TransitionOp userId action ids payoutRef now"] transition_bounds
    by (auto simp: commissions_kept_def apply_op_def)
  then show ?case using pay_out by (intro run_inv_frame) auto
next
  case (settings days db past g c f u)
  then show ?case by (intro run_inv_frame) (auto simp: commissions_same)
qed


section \<open>Who is credited\<close>

lemma write_receipt_only: "write_receipt i e outcome db = db\<lparr>sd_receipts := sd_receipts (write_receipt i e outcome db)\<rparr>"
  by (simp add: write_receipt_def create_receipt_def split: option.split)

lemma resolve_outcomes: "resolve_attribution cr secret i r sale = Inr (Inl x) \<Longrightarrow> x = InvalidToken \<or> x = NoAttribution"
proof -
  have "map_sum id Inr y \<noteq> Inr (Inl x)" for y :: "attribution thrown" by (cases y) simp_all
  then show "resolve_attribution cr secret i r sale = Inr (Inl x) \<Longrightarrow> x = InvalidToken \<or> x = NoAttribution"
    by (auto simp: resolve_attribution_def split: if_splits option.splits)
qed

lemma plan_sale_outcomes: "plan_sale cr secret sha i r sale = Inr (Note x c) \<Longrightarrow> x \<noteq> Recorded"
  "plan_sale cr secret sha i r sale \<noteq> Inr (Answer x c)"
  by (auto simp: plan_sale_def Let_def split: option.splits prod.splits if_splits sum.splits dest: resolve_outcomes)

lemma plan_outcomes: "plan_stripe_event cr secret sha i r e = Inr (Answer x c) \<Longrightarrow> x \<noteq> Recorded"
  "plan_stripe_event cr secret sha i r e = Inr (Note x c) \<Longrightarrow> x \<noteq> Recorded"
  using plan_sale_outcomes by (auto simp: plan_stripe_event_def plan_refund_def Let_def split: option.splits if_splits list.splits)

text \<open>
  C13: Only an attributed sale is recorded, and only for an account that may be credited.  When the
  handler answers "recorded", the sale names a click through a token that verifies or through a
  customer known from an earlier sale, the link of that click belongs to the owner of the
  integration or to a workspace the owner is a member of, and the value is not zero; and unless
  it answers "recorded" or "refunded", nothing but a receipt is written.
\<close>

theorem stripe_sale_attributed:
  assumes "process_stripe_event cr secret sha i r te e db = Inr (db', res)"
  shows "(sr_outcome res = Recorded \<longrightarrow> (\<exists>w a. resolve_attribution cr secret i r (sw_sale w) = Inr (Inr a)
      \<and> rd_link r (at_urlId a) = Some (sw_link w) \<and> can_attribute_to_link r (in_userId i) (sw_link w)
      \<and> record_sale_tx i e w te db = Inr (db', te_conversionId te) \<and> sw_value w \<noteq> Some 0))
    \<and> (sr_outcome res \<notin> {Recorded, Refunded} \<longrightarrow> db' = db\<lparr>sd_receipts := sd_receipts db'\<rparr>)"
proof -
  obtain plan where plan: "plan_stripe_event cr secret sha i r e = Inr plan" "run_stripe_plan i e te db plan = Inr (db', res)"
    using assms by (auto simp: process_stripe_event_def split: sum.splits)
  show ?thesis
  proof (cases plan)
    case (Answer x c)
    then show ?thesis using plan plan_outcomes(1) by (auto simp: run_stripe_plan_def answer_def)
  next
    case (Note x c)
    then show ?thesis using plan plan_outcomes(2) write_receipt_only by (auto simp: run_stripe_plan_def answer_def)
  next
    case (Reverse_sale q)
    then have "finish_refund i e te q db = Inr (db', res)" using plan by (simp add: run_stripe_plan_def)
    then show ?thesis using write_receipt_only [of i e]
      by (auto simp: finish_refund_def answer_def split: sum.splits tx_failure.splits prod.splits)
  next
    case (Sell w)
    then have fin: "finish_sale i e w te db = Inr (db', res)" and p: "plan_sale cr secret sha i r (sw_sale w) = Inr (Sell w)"
      using plan plan_Sell(2) by (simp_all add: run_stripe_plan_def)
    have nz: "sw_value w \<noteq> Some 0" using plan_sale_Sell(5) [OF p] .
    show ?thesis
    proof (cases "record_sale_tx i e w te db")
      case (Inr a)
      obtain d c where a: "a = (d, c)" by force
      have "c = te_conversionId te" using Inr a by (auto simp: record_sale_tx_def Let_def tx_bind_Inr)
      moreover have "d = db'" "sr_outcome res = Recorded" using fin Inr a by (auto simp: finish_sale_def)
      ultimately show ?thesis using plan_sale_Sell(4) [OF p] nz Inr a by auto
    next
      case (Inl f)
      then show ?thesis using fin write_receipt_only [of i e] by (cases f) (auto simp: finish_sale_def answer_def)
    qed
  qed
qed

section \<open>A sample run\<close>

definition demo_integration :: integration where
  "demo_integration = \<lparr>in_id = ''i'', in_userId = ''u'', in_goalEventKey = ''purchase'', in_trackRecurring = True\<rparr>"

definition demo_db :: stripe_db where
  "demo_db = \<lparr>sd_receipts = Map.empty, sd_conversions = [], sd_dailies = Map.empty, sd_goals = Map.empty,
     sd_customers = [(''i'', ''cus'') \<mapsto> \<lparr>cu_urlId = ''l'', cu_clickEventId = Some ''k'', cu_visitorIdHash = None\<rparr>],
     sd_commissions = [], sd_configs = [], sd_usage = \<lparr>quotas = Map.empty, buckets = Map.empty\<rparr>\<rparr>"

definition demo_reads :: "stripe_db \<Rightarrow> stripe_reads" where
  "demo_reads db = \<lparr>rd_seen = sd_receipts db, rd_covered = sd_receipts db, rd_customer = sd_customers db,
     rd_link = (\<lambda>l. if l = ''l'' then Some \<lparr>ol_id = ''l'', ol_userId = Some ''u'', ol_workspaceId = None\<rparr> else None),
     rd_member = (\<lambda>_ _. False), rd_policy = (\<lambda>_. \<lparr>pp_aggregateOnly = False, pp_hashVisitor = True\<rparr>),
     rd_click = (\<lambda>k l. if k = ''k'' then Some None else None),
     rd_refundable = (\<lambda>a p. case sd_receipts db (a, ''checkout:cs'') of
        Some row \<Rightarrow> if re_paymentIntentId row = Some p then Some ((a, ''checkout:cs''), row) else None | None \<Rightarrow> None),
     rd_now = 0\<rparr>"

definition demo_env :: tx_env where
  "demo_env = \<lparr>te_conversionId = ''c'', te_goalId = ''g'', te_commissionId = ''m'', te_clock = 5, te_commissions = []\<rparr>"

definition demo_sale_event :: stripe_event where
  "demo_sale_event = \<lparr>se_id = ''evt_1'', se_type = ''checkout.session.completed'', se_livemode = None,
     se_object = JObj [(''id'', JStr ''cs''), (''payment_status'', JStr ''paid''), (''amount_total'', JInt 5000),
       (''customer'', JStr ''cus''), (''payment_intent'', JStr ''pi'')]\<rparr>"

definition demo_refund_event :: stripe_event where
  "demo_refund_event = \<lparr>se_id = ''evt_2'', se_type = ''charge.refunded'', se_livemode = None,
     se_object = JObj [(''payment_intent'', JStr ''pi''), (''amount_refunded'', JInt 2000)]\<rparr>"

definition demo_handle :: "stripe_event \<Rightarrow> stripe_db \<Rightarrow> (stripe_db \<times> stripe_result) thrown" where
  "demo_handle e db = process_stripe_event sample_mac [] (\<lambda>s. s) demo_integration (demo_reads db) demo_env e db"

definition demo_sale_row :: "int \<Rightarrow> receipt" where
  "demo_sale_row refunded = \<lparr>re_type = ''sale.checkout'', re_outcome = Recorded, re_conversionId = Some ''c'',
     re_paymentIntentId = Some ''pi'', re_refundedCents = refunded\<rparr>"

definition demo_conversion :: "js_date \<Rightarrow> int \<Rightarrow> conversion" where
  "demo_conversion created v = \<lparr>cv_id = ''c'', cv_urlId = ''l'', cv_goalId = ''g'', cv_clickEventId = Some ''k'', cv_ruleId = None,
     cv_visitorIdHash = None, cv_valueCents = Some v, cv_currency = None,
     cv_metadata = json_text (JObj [(''source'', JStr ''stripe''), (''stripeEventId'', JStr ''evt_1''),
       (''saleKey'', JStr ''checkout:cs''), (''via'', JStr ''customer''), (''livemode'', JNull)]), cv_createdAt = created\<rparr>"

text \<open>The state after the sale, and after the refund.\<close>

definition demo_books :: "js_date \<Rightarrow> int \<Rightarrow> int \<Rightarrow> int \<Rightarrow> (string \<times> string) list \<Rightarrow> stripe_db" where
  "demo_books created v counted refunded events = demo_db\<lparr>
     sd_receipts := foldl (\<lambda>m (k, x). m((''i'', k) \<mapsto> x)) [(''i'', ''checkout:cs'') \<mapsto> demo_sale_row refunded]
       (map (\<lambda>(k, ty). (k, event_receipt (demo_sale_event\<lparr>se_type := ty\<rparr>) (if ty = ''charge.refunded'' then Refunded else Recorded) (Some ''c''))) events),
     sd_conversions := [demo_conversion created v],
     sd_dailies := [(''g'', ''1970-01-01'') \<mapsto> \<lparr>dy_conversions = 1, dy_valueCents = counted\<rparr>],
     sd_goals := [(''l'', ''purchase'') \<mapsto> \<lparr>go_id = ''g'', go_enabled = True\<rparr>]\<rparr>"

definition demo_sold :: stripe_db where
  "demo_sold = demo_books 5 5000 5000 0 [(''evt_1'', ''checkout.session.completed'')]"

definition demo_refunded :: stripe_db where
  "demo_refunded = demo_books 5 3000 3000 2000 [(''evt_1'', ''checkout.session.completed''), (''evt_2'', ''charge.refunded'')]"

lemmas demo_defs = demo_handle_def process_stripe_event_def plan_stripe_event_def run_stripe_plan_def demo_reads_def demo_env_def
  demo_integration_def demo_sale_event_def demo_refund_event_def demo_db_def demo_books_def demo_sale_row_def demo_conversion_def

lemmas sale_defs = plan_sale_def sale_from_checkout_session_def normalize_sale_value_def resolve_attribution_def
  can_attribute_to_link_def stored_visitor_def customer_attribution_def token_from_metadata_def ATTRIBUTION_METADATA_KEYS_def prop_of_def id_of_def
  finish_sale_def record_sale_tx_def tx_bind_def create_receipt_def cover_invoice_def reserve_conversion_def upsert_goal_def
  create_conversion_def add_daily_def fits_int4_def set_receipt_conversion_def add_commission_def of_thrown_def
  first_touch_def sale_conversion_def sale_receipt_def event_receipt_def record_commission_def sale_commission_def load_reward_scopes_def
  map_filter_def coalesce_def MAX_SALE_VALUE_CENTS_def integer_of_def

lemma demo_sale: "\<exists>res. demo_handle demo_sale_event demo_db = Inr (demo_sold, res) \<and> sr_outcome res = Recorded"
  by (simp add: demo_defs sale_defs demo_sold_def Let_def iso_day_key_examples)

lemmas refund_defs = plan_refund_def id_of_def finish_refund_def refund_tx_def tx_bind_def claim_refund_def create_receipt_def
  event_receipt_def integer_of_def fits_int4_def find_conversion_def apply_commission_refund_def apply_refund_to_commission_def
  find_by_conversion_def reverse_value_def subtract_daily_def set_conversion_value_def coalesce_def write_receipt_def answer_def

lemma demo_epoch_days: "iso_day_key 5 = ''1970-01-01''" "iso_day_key 86399999 = ''1970-01-01''" "iso_day_key 86400000 = ''1970-01-02''"
  by code_simp+

lemma demo_refund: "\<exists>res. demo_handle demo_refund_event demo_sold = Inr (demo_refunded, res) \<and> sr_outcome res = Refunded"
  by (simp add: demo_defs demo_sold_def demo_refunded_def Let_def iso_day_key_examples demo_epoch_days refund_defs) (simp add: fun_eq_iff)

definition event_text :: "stripe_event \<Rightarrow> string" where
  "event_text e = json_text (JObj [(''id'', JStr (se_id e)), (''type'', JStr (se_type e)), (''data'', JObj [(''object'', se_object e)])])"

lemma parse_event_text:
  assumes "json_plain (se_object e)" "se_object e = JObj fs" "prefix ''evt_'' (se_id e)" "length (se_id e) \<le> 255" "se_livemode e = None"
  shows "parse_stripe_event (event_text e) = Some e"
proof -
  let ?j = "JObj [(''id'', JStr (se_id e)), (''type'', JStr (se_type e)), (''data'', JObj [(''object'', se_object e)])]"
  have "parse_json (event_text e) = Some ?j" unfolding event_text_def using assms(1) by (intro parse_json_text) simp
  then show ?thesis using assms(2-5) by (simp add: parse_stripe_event_def)
qed

lemma demo_parses: "parse_stripe_event (event_text demo_sale_event) = Some demo_sale_event"
  "parse_stripe_event (event_text demo_refund_event) = Some demo_refund_event"
  by (rule parse_event_text; simp add: demo_sale_event_def demo_refund_event_def)+

lemma demo_reads_from: "db \<in> set hist \<Longrightarrow> reads_from hist (demo_reads db)"
  by (auto simp: reads_from_def demo_reads_def split: option.splits if_splits)

definition demo_days :: "string \<Rightarrow> string" where
  "demo_days = (\<lambda>_. [])(''c'' := ''1970-01-01'')"

lemma demo_new_days: "new_days (demo_reads demo_db) demo_db demo_sold (\<lambda>_. []) = demo_days"
  "new_days (demo_reads demo_sold) demo_sold demo_refunded demo_days = demo_days"
  by (auto simp: new_days_def demo_days_def demo_defs demo_sold_def demo_refunded_def iso_day_key_examples fun_eq_iff)

lemma demo_run: "stripe_run sample_mac [] (\<lambda>s. s) False demo_days [demo_refunded, demo_sold, demo_db]"
proof -
  obtain r1 r2 where "demo_handle demo_sale_event demo_db = Inr (demo_sold, r1)" "demo_handle demo_refund_event demo_sold = Inr (demo_refunded, r2)"
    using demo_sale demo_refund by blast
  note step = this [unfolded demo_handle_def]
  have com: "commissions_from False demo_db [] (te_commissions demo_env)" "commissions_from False demo_sold [demo_db] (te_commissions demo_env)"
    by (simp_all add: commissions_from_def demo_env_def demo_db_def demo_sold_def demo_books_def)
  have "stripe_run sample_mac [] (\<lambda>s. s) False (\<lambda>_. []) [demo_db]" by (rule stripe_run.start) (simp add: empty_books_def demo_db_def)
  from stripe_run.deliver [OF this demo_parses(1) demo_reads_from com(1) step(1)]
  have "stripe_run sample_mac [] (\<lambda>s. s) False demo_days [demo_sold, demo_db]" by (simp add: demo_new_days)
  from stripe_run.deliver [OF this demo_parses(2) demo_reads_from com(2) step(2)] show ?thesis by (simp add: demo_new_days)
qed


theorem stripe_sale_attributed_witness:
  "\<exists>(w :: sale_write) a. resolve_attribution sample_mac [] demo_integration (demo_reads demo_db) (sw_sale w) = Inr (Inr a) \<and>
     can_attribute_to_link (demo_reads demo_db) (in_userId demo_integration) (sw_link w)"
proof -
  obtain res where r: "demo_handle demo_sale_event demo_db = Inr (demo_sold, res)" "sr_outcome res = Recorded" using demo_sale by blast
  from conjunct1 [OF stripe_sale_attributed [OF r(1) [unfolded demo_handle_def]], THEN mp, OF r(2)] show ?thesis by blast
qed

section \<open>Two defects\<close>

text \<open>
  Two refund events of one charge that read the same receipt: the one with the higher total loses
  when it commits second, is recorded as a duplicate, and its difference is never applied, for
  its redelivery finds the receipt.
\<close>

definition demo_second_refund :: stripe_event where
  "demo_second_refund = demo_refund_event\<lparr>se_id := ''evt_3'', se_object := JObj [(''payment_intent'', JStr ''pi''), (''amount_refunded'', JInt 5000)]\<rparr>"

lemma concurrent_refund_lost:
  "process_stripe_event sample_mac [] (\<lambda>s. s) demo_integration (demo_reads demo_sold) demo_env demo_second_refund demo_refunded =
     Inr (write_receipt demo_integration demo_second_refund Duplicate demo_refunded, answer Duplicate (Some ''c''))"
  "demo_handle demo_second_refund (write_receipt demo_integration demo_second_refund Duplicate demo_refunded) =
     Inr (write_receipt demo_integration demo_second_refund Duplicate demo_refunded, answer Duplicate None)"
  by (simp_all add: demo_defs demo_sold_def demo_refunded_def demo_second_refund_def Let_def iso_day_key_examples demo_epoch_days refund_defs)

text \<open>
  The counter of a sale is that of the handler's clock, its reversal that of the row's creation
  time: when midnight lies between them, a refund does not reach the counter.
\<close>

lemma reversal_misses_day:
  "\<exists>res. demo_handle demo_refund_event (demo_books 86400000 5000 5000 0 [(''evt_1'', ''checkout.session.completed'')]) =
     Inr (demo_books 86400000 3000 5000 2000 [(''evt_1'', ''checkout.session.completed''), (''evt_2'', ''charge.refunded'')], res)"
  by (simp add: demo_defs Let_def iso_day_key_examples demo_epoch_days refund_defs) (simp add: fun_eq_iff)

end
