(* ===== verification/IpAllowlist.thy ===== *)
theory IpAllowlist
  imports VisitorBlock
begin

text \<open>
  Address allowlists (\<open>src/lib/ip-allowlist.ts\<close>) and the analytics exclusions built on them
  (\<open>src/lib/analytics-exclusions.ts\<close>): addresses as numbers, ranges, the validation of a stored
  list and the membership test.  \<open>isIP\<close> is that of Node, which allows a zone after a percent sign.
\<close>

section \<open>Addresses as numbers\<close>

definition MAX_ALLOWLIST_ENTRIES :: nat where "MAX_ALLOWLIST_ENTRIES = 20"

definition is_zone_char :: "char \<Rightarrow> bool" where
  "is_zone_char c = (is_alnum c \<or> c \<in> set ''-.:'')"

definition node_is_ip :: "string \<Rightarrow> ip_kind" where
  "node_is_ip v = (case is_ip (takeWhile (\<lambda>c. c \<noteq> CHR ''%'') v) of
       Ipv6 \<Rightarrow> (case dropWhile (\<lambda>c. c \<noteq> CHR ''%'') v of
           [] \<Rightarrow> Ipv6 | _ # zone \<Rightarrow> if zone \<noteq> [] \<and> list_all is_zone_char zone then Ipv6 else NotIp)
     | Ipv4 \<Rightarrow> if CHR ''%'' \<in> set v then NotIp else Ipv4
     | NotIp \<Rightarrow> NotIp)"

text \<open>One to three digits up to 255: leading zeros are accepted here.\<close>

definition ipv4_part :: "string \<Rightarrow> nat option" where
  "ipv4_part p = (if p \<noteq> [] \<and> length p \<le> 3 \<and> list_all is_digit p \<and> dec_val p \<le> 255 then Some (dec_val p) else None)"

fun fold_parts :: "nat \<Rightarrow> nat \<Rightarrow> nat option list \<Rightarrow> nat option" where
  "fold_parts base n [] = Some n"
| "fold_parts base n (None # ps) = None"
| "fold_parts base n (Some v # ps) = fold_parts base (n * base + v) ps"

definition ipv4_to_int :: "string \<Rightarrow> nat option" where
  "ipv4_to_int ip = (let p = split_on CHR ''.'' ip in if length p \<noteq> 4 then None else fold_parts 256 0 (map ipv4_part p))"

text \<open>The groups with a trailing dotted part replaced, as hexadecimal text.\<close>

definition hex_nat_digits :: "nat \<Rightarrow> string" where
  "hex_nat_digits n = (let ds = dropWhile (\<lambda>d. d = 0) [n div 4096 mod 16, n div 256 mod 16, n div 16 mod 16, n mod 16]
     in if ds = [] then ''0'' else map hex_digit_char ds)"

definition dotted_tail :: "string \<Rightarrow> (string \<times> string) option" where
  "dotted_tail addr = (case last_index_of addr CHR '':'' of None \<Rightarrow> None
     | Some i \<Rightarrow> (let rest = drop (Suc i) addr; ps = split_on CHR ''.'' rest
         in if length ps = 4 \<and> list_all (\<lambda>p. p \<noteq> [] \<and> list_all is_digit p) ps then Some (take (Suc i) addr, rest) else None))"

definition ipv6_group :: "string \<Rightarrow> nat option" where
  "ipv6_group g = (if is_ipv6_group g then Some (hex_val g) else None)"

definition groups_value :: "string \<Rightarrow> nat option" where
  "groups_value addr =
     (let halves = split_colons addr in
      if length halves > 2 then None else
      let head = ip_groups (halves ! 0);
          tail = (if length halves = 2 then ip_groups (halves ! 1) else []);
          used = length head + length tail
      in if (if length halves = 1 then length head \<noteq> 8 else used > 7) then None
         else fold_parts 65536 0 (map ipv6_group
           (if length halves = 1 then head else head @ replicate (8 - used) ''0'' @ tail)))"

definition ipv6_to_bigint :: "string \<Rightarrow> nat option" where
  "ipv6_to_bigint ip =
     (let addr = to_lower (takeWhile (\<lambda>c. c \<noteq> CHR ''%'') ip)
      in (case dotted_tail addr of
           None \<Rightarrow> groups_value addr
         | Some (front, v4text) \<Rightarrow> (case ipv4_to_int v4text of
             None \<Rightarrow> None
           | Some v4 \<Rightarrow> groups_value (front @ hex_nat_digits (v4 div 65536) @ '':'' @ hex_nat_digits (v4 mod 65536)))))"

section \<open>Ranges\<close>

record cidr_rule =
  cr_family :: ip_kind
  cr_base :: nat
  cr_bits :: nat

definition family_bits :: "ip_kind \<Rightarrow> nat" where
  "family_bits f = (if f = Ipv4 then 32 else 128)"

definition ip_value :: "ip_kind \<Rightarrow> string \<Rightarrow> nat option" where
  "ip_value f a = (if f = Ipv4 then ipv4_to_int a else ipv6_to_bigint a)"

definition clear_low :: "nat \<Rightarrow> nat \<Rightarrow> nat" where
  "clear_low shift v = push_bit shift (drop_bit shift v)"

definition prefix_length :: "nat \<Rightarrow> string option \<Rightarrow> nat option" where
  "prefix_length maxBits len = (case len of None \<Rightarrow> Some maxBits
     | Some t \<Rightarrow> if t \<noteq> [] \<and> length t \<le> 3 \<and> list_all is_digit t \<and> dec_val t \<le> maxBits then Some (dec_val t) else None)"

definition parse_range :: "string \<Rightarrow> cidr_rule option" where
  "parse_range input =
     (let ps = split_on CHR ''/'' (trim input); addr = hd ps; f = node_is_ip addr
      in if addr = [] \<or> length ps > 2 \<or> f = NotIp then None
         else (case prefix_length (family_bits f) (if length ps = 2 then Some (ps ! 1) else None) of
             None \<Rightarrow> None
           | Some bits \<Rightarrow> map_option (\<lambda>v. \<lparr>cr_family = f, cr_base = clear_low (family_bits f - bits) v, cr_bits = bits\<rparr>) (ip_value f addr)))"

section \<open>Lists\<close>

fun parse_entries :: "string list \<Rightarrow> json list \<Rightarrow> string list option" where
  "parse_entries out [] = Some out"
| "parse_entries out (JStr s # vs) = (if parse_range s = None then None
     else parse_entries (if to_lower (trim s) \<in> set out then out else out @ [to_lower (trim s)]) vs)"
| "parse_entries out (_ # vs) = None"

definition parse_allowlist :: "json option \<Rightarrow> string list option" where
  "parse_allowlist v = (if nullish v then Some []
     else (case v of Some (JArr xs) \<Rightarrow> if length xs > MAX_ALLOWLIST_ENTRIES then None else parse_entries [] xs | _ \<Rightarrow> None))"

definition is_dotted :: "string \<Rightarrow> bool" where
  "is_dotted v = (let ps = split_on CHR ''.'' v in length ps = 4 \<and> list_all (\<lambda>p. p \<noteq> [] \<and> list_all is_digit p) ps)"

text \<open>The address to test: an IPv4 address mapped into IPv6 counts as IPv4.\<close>

definition allow_candidate :: "string \<Rightarrow> string \<times> ip_kind" where
  "allow_candidate ip =
     (let c = trim ip
      in if prefix ''::ffff:'' (to_lower c) \<and> is_dotted (drop 7 c) then (drop 7 (to_lower c), Ipv4) else (c, node_is_ip c))"

definition in_range :: "nat \<Rightarrow> ip_kind \<Rightarrow> cidr_rule \<Rightarrow> bool" where
  "in_range v f rule = (cr_family rule = f \<and> clear_low (family_bits f - cr_bits rule) v = cr_base rule)"

text \<open>\<open>None\<close> is the \<open>TypeError\<close> of \<open>BigInt(null)\<close>, for a mapped address with a part above 255.\<close>

definition ip_allowed :: "string \<Rightarrow> string list \<Rightarrow> bool option" where
  "ip_allowed ip allowlist =
     (if allowlist = [] then Some True
      else (case allow_candidate ip of (candidate, f) \<Rightarrow>
        if f = NotIp then Some False
        else (case ip_value f candidate of
            None \<Rightarrow> if f = Ipv4 then None else Some False
          | Some v \<Rightarrow> Some (list_ex (\<lambda>e. case parse_range e of None \<Rightarrow> False | Some rule \<Rightarrow> in_range v f rule) allowlist))))"

definition parse_exclusions :: "json option \<Rightarrow> string list option" where
  "parse_exclusions v = parse_allowlist v"

definition is_excluded_from_analytics :: "string option \<Rightarrow> string list \<Rightarrow> bool option" where
  "is_excluded_from_analytics ip exclusions =
     (if \<not> str_truthy ip \<or> exclusions = [] then Some False
      else if the ip = ''unknown'' then Some False
      else ip_allowed (the ip) exclusions)"

section \<open>A range is a prefix\<close>

lemma clear_low_eq: "clear_low k v = clear_low k w \<longleftrightarrow> v div 2 ^ k = w div 2 ^ k"
  by (simp add: clear_low_def push_bit_eq_mult drop_bit_eq_div)

lemma clear_low_idem: "clear_low k (clear_low k v) = clear_low k v"
  by (simp add: clear_low_def push_bit_eq_mult drop_bit_eq_div)

text \<open>A parsed range contains exactly the addresses of its family that agree with its address on the prefix.\<close>

lemma in_range_prefix:
  assumes "parse_range e = Some rule" "ip_value (cr_family rule) (hd (split_on CHR ''/'' (trim e))) = Some a"
  shows "in_range v (cr_family rule) rule \<longleftrightarrow>
    v div 2 ^ (family_bits (cr_family rule) - cr_bits rule) = a div 2 ^ (family_bits (cr_family rule) - cr_bits rule)"
proof -
  have "cr_base rule = clear_low (family_bits (cr_family rule) - cr_bits rule) a"
    using assms by (auto simp: parse_range_def Let_def split: if_splits option.splits)
  then show ?thesis by (simp add: in_range_def clear_low_eq)
qed


end
