(* ===== verification/ClickIngestion.thy ===== *)
theory ClickIngestion
  imports IpAllowlist JsonText
begin

text \<open>
  Clicks before they are stored: the record and its JSON (\<open>src/lib/queue.ts\<close>), the privacy policy
  of a workspace (\<open>src/lib/privacy-ingestion.ts\<close>), the preparation and de-duplication of a batch
  (\<open>src/lib/click-ingestion.ts\<close>), the counts per link and day, and the dimension rows
  (\<open>src/lib/click-dimensions.ts\<close>).  SHA-256 is a parameter.
\<close>

section \<open>The record\<close>

text \<open>\<open>trafficConfidence\<close> is left out: nothing reads it.\<close>

record click =
  ck_id :: string
  ck_urlId :: string
  ck_dateKey :: string
  ck_shortCode :: string
  ck_ruleId :: "string option"
  ck_variantId :: "string option"
  ck_ip :: "string option"
  ck_userAgent :: "string option"
  ck_referer :: "string option"
  ck_referrerHost :: "string option"
  ck_country :: "string option"
  ck_deviceType :: "string option"
  ck_trafficType :: "string option"
  ck_aiAgent :: "string option"
  ck_os :: "string option"
  ck_browser :: "string option"
  ck_language :: "string option"
  ck_utm :: "string option list"
  ck_visitorIdHash :: "string option"
  ck_privacySignal :: bool
  ck_usageReserved :: bool
  ck_nonBillable :: bool

definition UTM_FIELDS :: "string list" where
  "UTM_FIELDS = [''utmSource'', ''utmMedium'', ''utmCampaign'', ''utmTerm'', ''utmContent'']"

definition json_option :: "string option \<Rightarrow> json" where
  "json_option v = (case v of None \<Rightarrow> JNull | Some s \<Rightarrow> JStr s)"

text \<open>\<open>JSON.stringify(data)\<close>; a field that is absent is written as null, which reads back alike.\<close>

definition click_json :: "click \<Rightarrow> json" where
  "click_json c = JObj ([(''clickEventId'', JStr (ck_id c)), (''urlId'', JStr (ck_urlId c)), (''ruleId'', json_option (ck_ruleId c)),
     (''campaignVariantId'', json_option (ck_variantId c)), (''ip'', json_option (ck_ip c)), (''userAgent'', json_option (ck_userAgent c)),
     (''referer'', json_option (ck_referer c)), (''referrerHost'', json_option (ck_referrerHost c)), (''country'', json_option (ck_country c)),
     (''deviceType'', json_option (ck_deviceType c)), (''trafficType'', json_option (ck_trafficType c)), (''aiAgent'', json_option (ck_aiAgent c)),
     (''os'', json_option (ck_os c)), (''browser'', json_option (ck_browser c)), (''language'', json_option (ck_language c))]
     @ zip UTM_FIELDS (map json_option (ck_utm c)) @
     [(''visitorIdHash'', json_option (ck_visitorIdHash c)), (''privacySignal'', JBool (ck_privacySignal c)), (''dateKey'', JStr (ck_dateKey c)),
      (''shortCode'', JStr (ck_shortCode c)), (''usageReserved'', JBool (ck_usageReserved c)), (''nonBillable'', JBool (ck_nonBillable c))])"

definition click_text :: "click \<Rightarrow> string" where
  "click_text c = json_text (click_json c)"

definition nonempty_field :: "json \<Rightarrow> string \<Rightarrow> bool" where
  "nonempty_field v k = (case jget v k of Some (JStr (_ # _)) \<Rightarrow> True | _ \<Rightarrow> False)"

definition is_click_data :: "json \<Rightarrow> bool" where
  "is_click_data v = (nonempty_field v ''clickEventId'' \<and> nonempty_field v ''urlId'' \<and> nonempty_field v ''dateKey'' \<and> nonempty_field v ''shortCode'')"

definition true_field :: "json \<Rightarrow> string \<Rightarrow> bool" where
  "true_field v k = (jget v k = Some (JBool True))"

text \<open>The fields of a parsed click; an optional field that is no string counts as absent.\<close>

definition click_of_json :: "json \<Rightarrow> click" where
  "click_of_json v = (let s = (\<lambda>k. jstr (jget v k)); t = (\<lambda>k. coalesce (jstr (jget v k)) []) in
     \<lparr>ck_id = t ''clickEventId'', ck_urlId = t ''urlId'', ck_dateKey = t ''dateKey'', ck_shortCode = t ''shortCode'', ck_ruleId = s ''ruleId'',
      ck_variantId = s ''campaignVariantId'', ck_ip = s ''ip'', ck_userAgent = s ''userAgent'', ck_referer = s ''referer'',
      ck_referrerHost = s ''referrerHost'', ck_country = s ''country'', ck_deviceType = s ''deviceType'', ck_trafficType = s ''trafficType'',
      ck_aiAgent = s ''aiAgent'', ck_os = s ''os'', ck_browser = s ''browser'', ck_language = s ''language'', ck_utm = map s UTM_FIELDS,
      ck_visitorIdHash = s ''visitorIdHash'', ck_privacySignal = true_field v ''privacySignal'', ck_usageReserved = true_field v ''usageReserved'',
      ck_nonBillable = true_field v ''nonBillable''\<rparr>)"

definition parse_click :: "string \<Rightarrow> click option" where
  "parse_click raw = (case parse_json raw of None \<Rightarrow> None | Some v \<Rightarrow> if is_click_data v then Some (click_of_json v) else None)"

section \<open>Privacy\<close>

record policy =
  po_hashIp :: bool
  po_hashVisitor :: bool
  po_storeUserAgent :: bool
  po_storeReferrer :: bool
  po_aggregateOnly :: bool
  po_exclusions :: "string list"
  po_honorSignals :: bool

definition DEFAULT_POLICY :: policy where
  "DEFAULT_POLICY = \<lparr>po_hashIp = True, po_hashVisitor = True, po_storeUserAgent = False, po_storeReferrer = True,
     po_aggregateOnly = False, po_exclusions = [], po_honorSignals = False\<rparr>"

text \<open>The cache of policies: a hit while it lasts, otherwise the stored row, kept for thirty seconds.\<close>

type_synonym policy_cache = "string \<Rightarrow> (js_date \<times> policy) option"

definition get_privacy_policy :: "(string \<Rightarrow> policy option) \<Rightarrow> policy_cache \<Rightarrow> js_date \<Rightarrow> string \<Rightarrow> policy_cache \<times> policy" where
  "get_privacy_policy rows cache now workspaceId =
     (case cache workspaceId of
        Some (expires, p) \<Rightarrow> if expires > now then (cache, p)
          else (cache(workspaceId \<mapsto> (now + 30000, coalesce (rows workspaceId) DEFAULT_POLICY)), coalesce (rows workspaceId) DEFAULT_POLICY)
      | None \<Rightarrow> (cache(workspaceId \<mapsto> (now + 30000, coalesce (rows workspaceId) DEFAULT_POLICY)), coalesce (rows workspaceId) DEFAULT_POLICY))"

definition clear_privacy_cache :: "policy_cache \<Rightarrow> string option \<Rightarrow> policy_cache" where
  "clear_privacy_cache cache workspaceId = (if str_truthy workspaceId then cache(the workspaceId := None) else Map.empty)"

definition hash_in_workspace :: "(string \<Rightarrow> string) \<Rightarrow> string \<Rightarrow> string \<Rightarrow> string" where
  "hash_in_workspace sha v workspaceId = sha (workspaceId @ CHR '':'' # v)"

definition normalize_ip :: "string option \<Rightarrow> string option" where
  "normalize_ip v = (let ip = trim (or_default v [])
     in if ip = [] \<or> length ip > 128 then None
        else if list_all (\<lambda>c. is_hex c \<or> c = CHR '':'' \<or> c = CHR ''.'') ip then Some ip else None)"

definition aggregate_only :: "click \<Rightarrow> click" where
  "aggregate_only c = c\<lparr>ck_privacySignal := False, ck_ip := None, ck_userAgent := None, ck_referer := None, ck_referrerHost := None,
     ck_country := None, ck_deviceType := None, ck_trafficType := Some ''human'', ck_aiAgent := None, ck_os := None, ck_browser := None,
     ck_language := None, ck_utm := replicate 5 None, ck_visitorIdHash := None\<rparr>"

text \<open>The outer \<open>None\<close> is an error, the inner one an excluded click.\<close>

definition sanitize_click :: "(string \<Rightarrow> string) \<Rightarrow> policy \<Rightarrow> string \<Rightarrow> click \<Rightarrow> click option option" where
  "sanitize_click sha p workspaceId c =
     (let ip = normalize_ip (ck_ip c)
      in (case is_excluded_from_analytics ip (po_exclusions p) of
           None \<Rightarrow> None
         | Some True \<Rightarrow> Some None
         | Some False \<Rightarrow>
            if po_aggregateOnly p \<or> (po_honorSignals p \<and> ck_privacySignal c) then Some (Some (aggregate_only c))
            else Some (Some (c\<lparr>
              ck_ip := (if po_hashIp p then map_option (\<lambda>i. hash_in_workspace sha i workspaceId) ip else None),
              ck_userAgent := (if po_storeUserAgent p then ck_userAgent c else None),
              ck_referer := (if po_storeReferrer p then ck_referer c else None),
              ck_referrerHost := (if po_storeReferrer p then ck_referrerHost c else None),
              ck_visitorIdHash := (if po_hashVisitor p \<and> str_truthy (ck_visitorIdHash c)
                then Some (hash_in_workspace sha (the (ck_visitorIdHash c)) workspaceId) else None)\<rparr>))))"

section \<open>Batches\<close>

text \<open>\<open>workspace_of\<close> is the query for the workspaces of the links: \<open>None\<close> also for a link without one.\<close>

fun prepare_clicks :: "(string \<Rightarrow> string) \<Rightarrow> (string \<Rightarrow> policy) \<Rightarrow> (string \<Rightarrow> string option) \<Rightarrow> click list \<Rightarrow> click list option" where
  "prepare_clicks sha pol workspace_of [] = Some []"
| "prepare_clicks sha pol workspace_of (c # cs) =
     (if \<not> str_truthy (workspace_of (ck_urlId c)) then prepare_clicks sha pol workspace_of cs
      else (let ws = the (workspace_of (ck_urlId c))
            in (case sanitize_click sha (pol ws) ws c of
                 None \<Rightarrow> None
               | Some None \<Rightarrow> prepare_clicks sha pol workspace_of cs
               | Some (Some safe) \<Rightarrow> map_option ((#) safe) (prepare_clicks sha pol workspace_of cs))))"

text \<open>\<open>Map.set\<close> on an association list: a key keeps its place and takes the new value.\<close>

fun map_set :: "'k \<Rightarrow> 'v \<Rightarrow> ('k \<times> 'v) list \<Rightarrow> ('k \<times> 'v) list" where
  "map_set k v [] = [(k, v)]"
| "map_set k v ((j, w) # es) = (if j = k then (j, v) # es else (j, w) # map_set k v es)"

definition dedupe_click_ids :: "click list \<Rightarrow> click list" where
  "dedupe_click_ids items = map snd (foldl (\<lambda>m i. map_set (ck_id i) i m) [] items)"

text \<open>Counting by a key, with what the first item of a key carries.\<close>

fun count_key :: "'k \<Rightarrow> 'a \<Rightarrow> ('k \<times> 'a \<times> nat) list \<Rightarrow> ('k \<times> 'a \<times> nat) list" where
  "count_key k a [] = [(k, a, 1)]"
| "count_key k a ((j, b, n) # es) = (if j = k then (j, b, n + 1) # es else (j, b, n) # count_key k a es)"

definition tally :: "('i \<Rightarrow> 'k) \<Rightarrow> ('i \<Rightarrow> 'a) \<Rightarrow> 'i list \<Rightarrow> ('k \<times> 'a \<times> nat) list" where
  "tally key carry items = foldl (\<lambda>m i. count_key (key i) (carry i) m) [] items"

definition day_key :: "click \<Rightarrow> string" where
  "day_key c = ck_urlId c @ CHR ''|'' # ck_dateKey c"

text \<open>Per link with its short code, and per link and day.\<close>

definition aggregate_clicks :: "click list \<Rightarrow> (string \<times> string \<times> nat) list \<times> (string \<times> (string \<times> string) \<times> nat) list" where
  "aggregate_clicks items = (tally ck_urlId ck_shortCode items, tally day_key (\<lambda>c. (ck_urlId c, ck_dateKey c)) items)"

section \<open>Dimensions\<close>

datatype click_dimension = Country | Device | Referrer

fun dimension_text :: "click_dimension \<Rightarrow> string" where
  "dimension_text Country = ''country''"
| "dimension_text Device = ''device''"
| "dimension_text Referrer = ''referrer''"

definition MAX_KEY_LENGTH :: nat where "MAX_KEY_LENGTH = 255"

definition clean_key :: "string option \<Rightarrow> string" where
  "clean_key v = (let t = trim (coalesce v []) in if t = [] then ''unknown'' else take MAX_KEY_LENGTH t)"

fun dimension_key :: "click \<Rightarrow> click_dimension \<Rightarrow> string" where
  "dimension_key c Country = clean_key (ck_country c)"
| "dimension_key c Device = clean_key (ck_deviceType c)"
| "dimension_key c Referrer = clean_key (ck_referrerHost c)"

definition is_human :: "click \<Rightarrow> bool" where
  "is_human c = (coalesce (ck_trafficType c) ''human'' = ''human'')"

text \<open>The cells a click counts in, and the text under which a batch collects one.\<close>

type_synonym cell = "string \<times> string \<times> click_dimension \<times> string"

definition click_cells :: "click \<Rightarrow> cell list" where
  "click_cells c = (if is_human c then map (\<lambda>d. (ck_urlId c, ck_dateKey c, d, dimension_key c d)) [Country, Device, Referrer] else [])"

definition cell_text :: "cell \<Rightarrow> string" where
  "cell_text x = (case x of (u, day, d, k) \<Rightarrow> u @ CHR 0x00 # day @ CHR 0x00 # dimension_text d @ CHR 0x00 # k)"

definition aggregate_dimensions :: "click list \<Rightarrow> (string \<times> cell \<times> nat) list" where
  "aggregate_dimensions items = tally cell_text id (concat (map click_cells items))"

end
