(* ===== verification/ClickQueue.thy ===== *)
theory ClickQueue
  imports ClickIngestion TenantUsage
begin

text \<open>
  The click queue (\<open>src/lib/queue.ts\<close>): the transaction that stores a batch and moves the
  counters, the direct queue, and the Redis queue with its processing list, acknowledgements
  and quarantine.  A Redis command is one step; the transaction is one step.
\<close>

section \<open>Tables\<close>

record link_row =
  lk_workspaceId :: "string option"
  lk_clicks :: int
  lk_maxClicks :: "int option"
  lk_isActive :: bool

record click_tables =
  ct_urls :: "string \<Rightarrow> link_row option"
  ct_rules :: "string list"
  ct_variants :: "string \<Rightarrow> int option"
  ct_events :: "click list"
  ct_daily :: "string \<times> string \<Rightarrow> int option"
  ct_cells :: "cell \<Rightarrow> int option"
  ct_usage :: usage_db

text \<open>What a committed batch reports: the links it deactivated, and what is published.\<close>

record batch_report =
  br_invalidated :: "(string \<times> string) list"
  br_count :: nat
  br_urlIds :: "string list"
  br_webhooks :: "click list"

section \<open>The transaction\<close>

definition upsert_count :: "('k \<Rightarrow> int option) \<Rightarrow> 'k \<Rightarrow> nat \<Rightarrow> ('k \<Rightarrow> int option)" where
  "upsert_count t k n = t(k \<mapsto> coalesce (t k) 0 + int n)"

text \<open>Insert with \<open>ON CONFLICT DO NOTHING\<close>: the rows that are new.  The links and rules must exist.\<close>

definition new_clicks :: "click_tables \<Rightarrow> click list \<Rightarrow> click list" where
  "new_clicks db items = filter (\<lambda>c. ck_id c \<notin> set (map ck_id (ct_events db))) items"

definition references_ok :: "click_tables \<Rightarrow> click \<Rightarrow> bool" where
  "references_ok db c = (ct_urls db (ck_urlId c) \<noteq> None \<and>
     (case ck_ruleId c of None \<Rightarrow> True | Some r \<Rightarrow> r \<in> set (ct_rules db)))"

definition variant_tally :: "click list \<Rightarrow> (string \<times> unit \<times> nat) list" where
  "variant_tally items = tally (\<lambda>v. v) (\<lambda>_. ()) (concat (map (\<lambda>c. if str_truthy (ck_variantId c) then [the (ck_variantId c)] else []) items))"

text \<open>The workspace of a link, in the transaction.\<close>

definition workspace_in :: "click_tables \<Rightarrow> string \<Rightarrow> string option" where
  "workspace_in db u = Option.bind (ct_urls db u) lk_workspaceId"

definition workspace_list :: "click_tables \<Rightarrow> click list \<Rightarrow> string list" where
  "workspace_list db items = concat (map (\<lambda>c. if str_truthy (workspace_in db (ck_urlId c)) then [the (workspace_in db (ck_urlId c))] else []) items)"

definition workspace_counts :: "click_tables \<Rightarrow> click list \<Rightarrow> (string \<times> unit \<times> nat) list" where
  "workspace_counts db items = tally (\<lambda>w. w) (\<lambda>_. ()) (workspace_list db (filter (\<lambda>c. \<not> ck_nonBillable c) items))"

definition reserved_count :: "click_tables \<Rightarrow> click list \<Rightarrow> string \<Rightarrow> nat" where
  "reserved_count db items w = count_list (workspace_list db (filter (\<lambda>c. \<not> ck_nonBillable c \<and> ck_usageReserved c) items)) w"

definition bump_link :: "click_tables \<Rightarrow> string \<times> string \<times> nat \<Rightarrow> click_tables" where
  "bump_link db e = (case e of (u, _, n) \<Rightarrow> (case ct_urls db u of
       None \<Rightarrow> db
     | Some row \<Rightarrow>
        (let row1 = row\<lparr>lk_clicks := lk_clicks row + int n\<rparr>;
             full = (case lk_maxClicks row of None \<Rightarrow> False | Some m \<Rightarrow> m \<noteq> 0 \<and> lk_clicks row1 \<ge> m)
         in db\<lparr>ct_urls := (ct_urls db)(u \<mapsto> (if full then row1\<lparr>lk_isActive := False\<rparr> else row1))\<rparr>)))"

definition reached_cap :: "click_tables \<Rightarrow> string \<times> string \<times> nat \<Rightarrow> bool" where
  "reached_cap db e = (case e of (u, _, n) \<Rightarrow> (case ct_urls db u of
       None \<Rightarrow> False
     | Some row \<Rightarrow> (case lk_maxClicks row of None \<Rightarrow> False | Some m \<Rightarrow> m \<noteq> 0 \<and> lk_clicks row + int n \<ge> m)))"

definition bump_variant :: "click_tables \<Rightarrow> string \<times> unit \<times> nat \<Rightarrow> click_tables" where
  "bump_variant db e = (case e of (v, _, n) \<Rightarrow> db\<lparr>ct_variants := (ct_variants db)(v := map_option (\<lambda>k. k + int n) (ct_variants db v))\<rparr>)"

definition bump_usage :: "js_date \<Rightarrow> (string \<Rightarrow> nat) \<Rightarrow> click_tables \<Rightarrow> string \<times> unit \<times> nat \<Rightarrow> click_tables" where
  "bump_usage now reserved db e = (case e of (w, _, n) \<Rightarrow>
     if n \<le> reserved w then db
     else (let k = (w, Clicks, usage_period_key now)
           in db\<lparr>ct_usage := set_bucket (ct_usage db) k (bucket_quantity (ct_usage db) k + int (n - reserved w))\<rparr>))"

definition bump_day :: "click_tables \<Rightarrow> string \<times> (string \<times> string) \<times> nat \<Rightarrow> click_tables" where
  "bump_day db e = (case e of (_, k, n) \<Rightarrow> db\<lparr>ct_daily := upsert_count (ct_daily db) k n\<rparr>)"

definition bump_cell :: "click_tables \<Rightarrow> string \<times> cell \<times> nat \<Rightarrow> click_tables" where
  "bump_cell db e = (case e of (_, k, n) \<Rightarrow> db\<lparr>ct_cells := upsert_count (ct_cells db) k n\<rparr>)"

definition apply_clicks :: "js_date \<Rightarrow> click_tables \<Rightarrow> click list \<Rightarrow> click_tables" where
  "apply_clicks now db items =
     (case aggregate_clicks items of (perUrl, perDay) \<Rightarrow>
       (let db1 = db\<lparr>ct_events := ct_events db @ items\<rparr>;
            db2 = foldl bump_variant db1 (variant_tally items);
            db3 = foldl bump_link db2 perUrl;
            db4 = foldl (bump_usage now (reserved_count db items)) db3 (workspace_counts db items);
            db5 = foldl bump_day db4 perDay
        in foldl bump_cell db5 (aggregate_dimensions items)))"

text \<open>The error, or the new tables and the report; the workspaces and policies were read before.\<close>

definition persist_batch ::
  "(string \<Rightarrow> string) \<Rightarrow> (string \<Rightarrow> policy) \<Rightarrow> (string \<Rightarrow> string option) \<Rightarrow> js_date \<Rightarrow> click_tables \<Rightarrow> click list \<Rightarrow> (click_tables \<times> batch_report) thrown" where
  "persist_batch sha pol workspace_of now db parsed =
     (case prepare_clicks sha pol workspace_of parsed of
        None \<Rightarrow> Inl ''TypeError''
      | Some prepared \<Rightarrow>
         (let unique = dedupe_click_ids prepared; items = new_clicks db unique
          in if items = [] then Inr (db, \<lparr>br_invalidated = [], br_count = length unique, br_urlIds = [], br_webhooks = unique\<rparr>)
             else if \<not> list_all (references_ok db) items then Inl ''P2003''
             else if \<not> list_all (\<lambda>e. ct_variants db (fst e) \<noteq> None) (variant_tally items) then Inl ''P2025''
             else Inr (apply_clicks now db items,
               \<lparr>br_invalidated = map (\<lambda>e. (fst (snd e), fst e)) (filter (\<lambda>e. reached_cap db e \<and> fst (snd e) \<noteq> []) (fst (aggregate_clicks items))),
                br_count = length unique, br_urlIds = map fst (fst (aggregate_clicks items)), br_webhooks = unique\<rparr>)))"

section \<open>Redis\<close>

text \<open>Lists with the head on the left.\<close>

record redis_lists =
  rq_queue :: "string list"
  rq_processing :: "string list"
  rq_dlq :: "string list"

definition BATCH_SIZE :: nat where "BATCH_SIZE = 1000"

definition push_click :: "redis_lists \<Rightarrow> string \<Rightarrow> redis_lists" where
  "push_click r raw = r\<lparr>rq_queue := raw # rq_queue r\<rparr>"

text \<open>\<open>rpoplpush\<close> from the processing list back to the queue, and from the queue to the processing list.\<close>

definition recover_one :: "redis_lists \<Rightarrow> redis_lists" where
  "recover_one r = (if rq_processing r = [] then r
     else r\<lparr>rq_processing := butlast (rq_processing r), rq_queue := last (rq_processing r) # rq_queue r\<rparr>)"

definition claim_one :: "redis_lists \<Rightarrow> redis_lists \<times> string option" where
  "claim_one r = (if rq_queue r = [] then (r, None)
     else (r\<lparr>rq_queue := butlast (rq_queue r), rq_processing := last (rq_queue r) # rq_processing r\<rparr>, Some (last (rq_queue r))))"

fun recover_up_to :: "nat \<Rightarrow> redis_lists \<Rightarrow> redis_lists" where
  "recover_up_to 0 r = r"
| "recover_up_to (Suc n) r = (if rq_processing r = [] then r else recover_up_to n (recover_one r))"

fun claim_up_to :: "nat \<Rightarrow> redis_lists \<Rightarrow> redis_lists \<times> string list" where
  "claim_up_to 0 r = (r, [])"
| "claim_up_to (Suc n) r = (case claim_one r of
     (r', None) \<Rightarrow> (r', []) | (r', Some x) \<Rightarrow> (case claim_up_to n r' of (s, xs) \<Rightarrow> (s, x # xs)))"

definition acknowledge :: "redis_lists \<Rightarrow> string list \<Rightarrow> redis_lists" where
  "acknowledge r raws = r\<lparr>rq_processing := foldl (\<lambda>p x. remove1 x p) (rq_processing r) raws\<rparr>"

definition quarantine_push :: "redis_lists \<Rightarrow> string list \<Rightarrow> redis_lists" where
  "quarantine_push r raws = r\<lparr>rq_dlq := rev raws @ rq_dlq r\<rparr>"

definition split_raws :: "string list \<Rightarrow> click list \<times> string list" where
  "split_raws raws = (List.map_filter parse_click raws, filter (\<lambda>x. parse_click x = None) raws)"

definition quarantine_malformed :: "redis_lists \<Rightarrow> string list \<Rightarrow> redis_lists" where
  "quarantine_malformed r raws = (if raws = [] then r else acknowledge (quarantine_push r raws) raws)"

text \<open>A whole run of \<open>processBatch\<close> with Redis healthy and nothing in between.\<close>

definition process_batch ::
  "(string \<Rightarrow> string) \<Rightarrow> (string \<Rightarrow> policy) \<Rightarrow> (string \<Rightarrow> string option) \<Rightarrow> js_date \<Rightarrow> click_tables \<Rightarrow> redis_lists \<Rightarrow> click_tables \<times> redis_lists" where
  "process_batch sha pol workspace_of now db r =
     (case claim_up_to BATCH_SIZE (recover_up_to BATCH_SIZE r) of (r1, raws) \<Rightarrow>
       (case split_raws raws of (parsed, malformed) \<Rightarrow>
          if parsed = [] then (db, quarantine_malformed r1 malformed)
          else (case persist_batch sha pol workspace_of now db parsed of
              Inl e \<Rightarrow> (db, r1)
            | Inr (db', _) \<Rightarrow> (db', quarantine_malformed (acknowledge r1 (filter (\<lambda>x. x \<notin> set malformed) raws)) malformed))))"

text \<open>The direct queue, which is also what a push falls back on.\<close>

definition push_direct ::
  "(string \<Rightarrow> string) \<Rightarrow> (string \<Rightarrow> policy) \<Rightarrow> (string \<Rightarrow> string option) \<Rightarrow> js_date \<Rightarrow> click_tables \<Rightarrow> click \<Rightarrow> (click_tables \<times> batch_report) thrown" where
  "push_direct sha pol workspace_of now db c = persist_batch sha pol workspace_of now db [c]"

definition push_redis ::
  "(string \<Rightarrow> string) \<Rightarrow> (string \<Rightarrow> policy) \<Rightarrow> (string \<Rightarrow> string option) \<Rightarrow> js_date \<Rightarrow> bool \<Rightarrow> click_tables \<times> redis_lists \<Rightarrow> click \<Rightarrow> (click_tables \<times> redis_lists) thrown" where
  "push_redis sha pol workspace_of now healthy w c =
     (if healthy then Inr (fst w, push_click (snd w) (click_text c))
      else map_sum id (\<lambda>x. (fst x, snd w)) (push_direct sha pol workspace_of now (fst w) c))"

end
