(* ===== verification/ClickCounts.thy ===== *)
theory ClickCounts
  imports ClickQueue
begin

text \<open>
  What a batch does to the counters of the click queue (\<open>src/lib/queue.ts\<close>,
  \<open>src/lib/click-ingestion.ts\<close>, \<open>src/lib/click-dimensions.ts\<close>): the counts of a tally add up to
  its items, keys do not collide, a queued click reads back, and a committed batch keeps every
  counter equal to the number of stored events.
\<close>

section \<open>Counting\<close>

definition weight :: "('k \<Rightarrow> 'a \<Rightarrow> bool) \<Rightarrow> ('k \<times> 'a \<times> nat) list \<Rightarrow> nat" where
  "weight Q es = sum_list (map (\<lambda>(k, a, n). if Q k a then n else 0) es)"

lemma weight_simps [simp]: "weight Q [] = 0" "weight Q ((k, a, n) # es) = (if Q k a then n else 0) + weight Q es"
  by (simp_all add: weight_def)

lemma count_key_entry: "(j, b, n) \<in> set (count_key k a es) \<Longrightarrow> (j = k \<and> b = a) \<or> (\<exists>m. (j, b, m) \<in> set es)"
  by (induction k a es rule: count_key.induct) (auto split: if_splits)

lemma weight_count_key:
  assumes "\<And>b n. (k, b, n) \<in> set es \<Longrightarrow> Q k b = Q k a"
  shows "weight Q (count_key k a es) = weight Q es + (if Q k a then 1 else 0)"
  using assms
proof (induction k a es rule: count_key.induct)
  case (2 k a j b n es)
  show ?case
  proof (cases "j = k")
    case True
    then show ?thesis using 2(2) [of b n] by simp
  next
    case False
    then show ?thesis using 2(1) [OF False] 2(2) by simp
  qed
qed simp

lemma tally_entry: "(j, b, n) \<in> set (tally key carry items) \<Longrightarrow> \<exists>i \<in> set items. key i = j \<and> carry i = b"
proof (induction items arbitrary: j b n rule: rev_induct)
  case (snoc i items)
  from count_key_entry [of j b n "key i" "carry i" "tally key carry items"] snoc.prems
  have "(j = key i \<and> b = carry i) \<or> (\<exists>m. (j, b, m) \<in> set (tally key carry items))" by (simp add: tally_def)
  then show ?case using snoc.IH by auto
qed (simp add: tally_def)

text \<open>The counts of a tally add up to the items, for a test on the key or on what it carries.\<close>

lemma weight_tally:
  assumes "\<And>x y. x \<in> set items \<Longrightarrow> y \<in> set items \<Longrightarrow> key x = key y \<Longrightarrow> Q (key x) (carry x) = Q (key y) (carry y)"
  shows "weight Q (tally key carry items) = length (filter (\<lambda>i. Q (key i) (carry i)) items)"
  using assms
proof (induction items rule: rev_induct)
  case (snoc i items)
  have "weight Q (count_key (key i) (carry i) (tally key carry items)) =
      weight Q (tally key carry items) + (if Q (key i) (carry i) then 1 else 0)"
  proof (rule weight_count_key)
    fix b n assume "(key i, b, n) \<in> set (tally key carry items)"
    from tally_entry [OF this] obtain x where "x \<in> set items" "key x = key i" "carry x = b" by blast
    then show "Q (key i) b = Q (key i) (carry i)" using snoc.prems [of x i] by simp
  qed
  moreover have "weight Q (tally key carry items) = length (filter (\<lambda>i. Q (key i) (carry i)) items)"
  proof (rule snoc.IH)
    fix x y assume "x \<in> set items" "y \<in> set items" "key x = key y"
    then show "Q (key x) (carry x) = Q (key y) (carry y)" by (intro snoc.prems) simp_all
  qed
  ultimately show ?case by (simp add: tally_def)
qed (simp add: tally_def)

section \<open>What a batch adds\<close>

lemma foldl_frame: "(\<And>d e. f (g d e) = f d) \<Longrightarrow> f (foldl g db es) = f db"
  by (induction es arbitrary: db) simp_all

lemma bump_frames:
  "ct_events (bump_variant db x) = ct_events db" "ct_urls (bump_variant db x) = ct_urls db" "ct_daily (bump_variant db x) = ct_daily db" "ct_cells (bump_variant db x) = ct_cells db"
  "ct_events (bump_link db y) = ct_events db" "ct_daily (bump_link db y) = ct_daily db" "ct_cells (bump_link db y) = ct_cells db"
  "ct_events (bump_usage now r db x) = ct_events db" "ct_urls (bump_usage now r db x) = ct_urls db" "ct_daily (bump_usage now r db x) = ct_daily db" "ct_cells (bump_usage now r db x) = ct_cells db"
  "ct_events (bump_day db z) = ct_events db" "ct_urls (bump_day db z) = ct_urls db" "ct_cells (bump_day db z) = ct_cells db"
  "ct_events (bump_cell db q) = ct_events db" "ct_urls (bump_cell db q) = ct_urls db" "ct_daily (bump_cell db q) = ct_daily db"
  by (simp_all add: bump_variant_def bump_link_def bump_usage_def bump_day_def bump_cell_def Let_def split: prod.split option.split)

lemmas batch_frames = bump_frames foldl_frame [where f = ct_events] foldl_frame [where f = ct_urls] foldl_frame [where f = ct_daily] foldl_frame [where f = ct_cells]

definition number :: "('k \<Rightarrow> int option) \<Rightarrow> 'k \<Rightarrow> int" where
  "number t k = coalesce (t k) 0"

lemma number_upsert [simp]: "number (upsert_count t k n) j = number t j + (if j = k then int n else 0)"
  by (simp add: number_def upsert_count_def coalesce_def)

lemma days_added: "number (ct_daily (foldl bump_day db es)) k = number (ct_daily db) k + int (weight (\<lambda>_ j. j = k) es)"
  by (induction es arbitrary: db) (simp_all add: bump_day_def split: prod.split)

lemma cells_added: "number (ct_cells (foldl bump_cell db es)) k = number (ct_cells db) k + int (weight (\<lambda>_ j. j = k) es)"
  by (induction es arbitrary: db) (simp_all add: bump_cell_def split: prod.split)

definition clicks_of :: "click_tables \<Rightarrow> string \<Rightarrow> int option" where
  "clicks_of db u = map_option lk_clicks (ct_urls db u)"

lemma bump_link_clicks: "clicks_of (bump_link db e) u = map_option (\<lambda>n. n + (if fst e = u then int (snd (snd e)) else 0)) (clicks_of db u)"
  by (cases e) (auto simp: bump_link_def clicks_of_def Let_def split: option.split)

lemma links_added: "clicks_of (foldl bump_link db es) u = map_option (\<lambda>n. n + int (weight (\<lambda>j _. j = u) es)) (clicks_of db u)"
proof (induction es arbitrary: db)
  case (Cons e es)
  obtain k a n where "e = (k, a, n)" by (cases e) auto
  then show ?case using Cons by (cases "clicks_of db u") (simp_all add: bump_link_clicks)
qed (simp add: option.map_ident)

section \<open>Keys\<close>

definition plain_id :: "string \<Rightarrow> bool" where
  "plain_id u = (CHR ''|'' \<notin> set u \<and> CHR 0x00 \<notin> set u)"

definition plain_click :: "click \<Rightarrow> bool" where
  "plain_click c = (plain_id (ck_urlId c) \<and> CHR 0x00 \<notin> set (ck_dateKey c))"

lemma sep_inj: "x \<notin> set a \<Longrightarrow> x \<notin> set b \<Longrightarrow> a @ x # s = b @ x # t \<longleftrightarrow> a = b \<and> s = t"
proof (induction a arbitrary: b)
  case Nil
  then show ?case by (cases b) auto
next
  case (Cons c a)
  then show ?case by (cases b) auto
qed

lemma day_key_inj: "plain_click c \<Longrightarrow> plain_click d \<Longrightarrow> day_key c = day_key d \<Longrightarrow> ck_urlId c = ck_urlId d \<and> ck_dateKey c = ck_dateKey d"
  by (simp add: day_key_def plain_click_def plain_id_def sep_inj)

lemma dimension_text_inj: "dimension_text d = dimension_text e \<Longrightarrow> d = e"
  by (cases d; cases e) simp_all

lemma dimension_text_plain: "CHR 0x00 \<notin> set (dimension_text d)"
  by (cases d) simp_all

lemma click_cells_set: "x \<in> set (click_cells c) \<Longrightarrow> fst x = ck_urlId c \<and> fst (snd x) = ck_dateKey c"
  by (auto simp: click_cells_def split: if_splits)

lemma cell_text_inj:
  assumes "CHR 0x00 \<notin> set (fst x)" "CHR 0x00 \<notin> set (fst (snd x))" "CHR 0x00 \<notin> set (fst y)" "CHR 0x00 \<notin> set (fst (snd y))" "cell_text x = cell_text y"
  shows "x = y"
proof -
  obtain u a d k where x: "x = (u, a, d, k)" by (cases x) auto
  obtain v b e l where y: "y = (v, b, e, l)" by (cases y) auto
  have "u = v \<and> a @ CHR 0x00 # dimension_text d @ CHR 0x00 # k = b @ CHR 0x00 # dimension_text e @ CHR 0x00 # l"
    using assms x y by (simp add: cell_text_def sep_inj)
  then have "a = b \<and> dimension_text d @ CHR 0x00 # k = dimension_text e @ CHR 0x00 # l" "u = v" using assms x y by (simp_all add: sep_inj)
  then show ?thesis using x y dimension_text_inj by (auto simp: sep_inj dimension_text_plain)
qed

section \<open>The counters after a batch\<close>

definition link_clicks :: "click list \<Rightarrow> string \<Rightarrow> int" where
  "link_clicks cs u = int (length (filter (\<lambda>c. ck_urlId c = u) cs))"

definition day_clicks :: "click list \<Rightarrow> string \<times> string \<Rightarrow> int" where
  "day_clicks cs k = int (length (filter (\<lambda>c. (ck_urlId c, ck_dateKey c) = k) cs))"

definition cell_clicks :: "click list \<Rightarrow> cell \<Rightarrow> int" where
  "cell_clicks cs x = int (count_list (concat (map click_cells cs)) x)"

lemma counts_append [simp]: "link_clicks (a @ b) u = link_clicks a u + link_clicks b u" "day_clicks (a @ b) k = day_clicks a k + day_clicks b k"
  "cell_clicks (a @ b) x = cell_clicks a x + cell_clicks b x"
  by (simp_all add: link_clicks_def day_clicks_def cell_clicks_def)

lemma count_list_filter: "count_list xs x = length (filter (\<lambda>y. y = x) xs)"
  by (induction xs) simp_all

lemma apply_clicks_events: "ct_events (apply_clicks now db items) = ct_events db @ items"
  by (simp add: apply_clicks_def aggregate_clicks_def batch_frames Let_def)

lemma apply_clicks_links: "clicks_of (apply_clicks now db items) u = map_option (\<lambda>n. n + link_clicks items u) (clicks_of db u)"
proof -
  have w: "weight (\<lambda>j _. j = u) (tally ck_urlId ck_shortCode items) = length (filter (\<lambda>c. ck_urlId c = u) items)"
    by (rule weight_tally) simp
  let ?es = "tally ck_urlId ck_shortCode items"
  let ?db = "foldl bump_variant (db\<lparr>ct_events := ct_events db @ items\<rparr>) (variant_tally items)"
  have "ct_urls (apply_clicks now db items) = ct_urls (foldl bump_link ?db ?es)"
    by (simp add: apply_clicks_def aggregate_clicks_def batch_frames Let_def)
  then have "clicks_of (apply_clicks now db items) u = clicks_of (foldl bump_link ?db ?es) u" by (simp add: clicks_of_def)
  moreover have "clicks_of ?db u = clicks_of db u" by (simp add: clicks_of_def batch_frames)
  ultimately show ?thesis using links_added [of ?db ?es u] w by (simp add: link_clicks_def)
qed

lemma apply_clicks_split:
  obtains db4 where "apply_clicks now db items = foldl bump_cell (foldl bump_day db4 (tally day_key (\<lambda>c. (ck_urlId c, ck_dateKey c)) items))
      (tally cell_text id (concat (map click_cells items)))" "ct_daily db4 = ct_daily db" "ct_cells db4 = ct_cells db"
proof
  let ?db4 = "foldl (bump_usage now (reserved_count db items)) (foldl bump_link (foldl bump_variant (db\<lparr>ct_events := ct_events db @ items\<rparr>)
      (variant_tally items)) (tally ck_urlId ck_shortCode items)) (workspace_counts db items)"
  show "apply_clicks now db items = foldl bump_cell (foldl bump_day ?db4 (tally day_key (\<lambda>c. (ck_urlId c, ck_dateKey c)) items))
      (tally cell_text id (concat (map click_cells items)))"
    by (simp add: apply_clicks_def aggregate_clicks_def aggregate_dimensions_def Let_def)
  show "ct_daily ?db4 = ct_daily db" "ct_cells ?db4 = ct_cells db" by (simp_all add: batch_frames)
qed

lemma apply_clicks_days:
  assumes "\<forall>c \<in> set items. plain_click c"
  shows "number (ct_daily (apply_clicks now db items)) k = number (ct_daily db) k + day_clicks items k"
proof -
  let ?es = "tally day_key (\<lambda>c. (ck_urlId c, ck_dateKey c)) items"
  have w: "weight (\<lambda>_ j. j = k) ?es = length (filter (\<lambda>c. (ck_urlId c, ck_dateKey c) = k) items)"
  proof (rule weight_tally)
    fix x y assume "x \<in> set items" "y \<in> set items" "day_key x = day_key y"
    then have "ck_urlId x = ck_urlId y \<and> ck_dateKey x = ck_dateKey y" using assms day_key_inj by blast
    then show "((ck_urlId x, ck_dateKey x) = k) = ((ck_urlId y, ck_dateKey y) = k)" by simp
  qed
  show ?thesis
  proof (rule apply_clicks_split [of now db items])
    fix db4 assume "apply_clicks now db items = foldl bump_cell (foldl bump_day db4 ?es) (tally cell_text id (concat (map click_cells items)))"
      "ct_daily db4 = ct_daily db"
    then show ?thesis using w days_added [of db4 ?es k] by (simp add: batch_frames day_clicks_def number_def)
  qed
qed

lemma apply_clicks_cells:
  assumes "\<forall>c \<in> set items. plain_click c"
  shows "number (ct_cells (apply_clicks now db items)) x = number (ct_cells db) x + cell_clicks items x"
proof -
  let ?cs = "concat (map click_cells items)"
  have plain: "CHR 0x00 \<notin> set (fst y)" "CHR 0x00 \<notin> set (fst (snd y))" if y: "y \<in> set ?cs" for y
  proof -
    obtain c where "c \<in> set items" "y \<in> set (click_cells c)" using y by auto
    then show "CHR 0x00 \<notin> set (fst y)" "CHR 0x00 \<notin> set (fst (snd y))"
      using assms click_cells_set [of y c] by (auto simp: plain_click_def plain_id_def)
  qed
  have w: "weight (\<lambda>_ j. j = x) (tally cell_text id ?cs) = length (filter (\<lambda>y. id y = x) ?cs)"
  proof (rule weight_tally)
    fix y z assume "y \<in> set ?cs" "z \<in> set ?cs" "cell_text y = cell_text z"
    then have "y = z" using plain cell_text_inj by blast
    then show "(id y = x) = (id z = x)" by simp
  qed
  show ?thesis
  proof (rule apply_clicks_split [of now db items])
    fix db4 assume a: "apply_clicks now db items = foldl bump_cell (foldl bump_day db4 (tally day_key (\<lambda>c. (ck_urlId c, ck_dateKey c)) items)) (tally cell_text id ?cs)"
      "ct_cells db4 = ct_cells db"
    have "number (ct_cells (foldl bump_day db4 es)) x = number (ct_cells db4) x" for es by (simp add: batch_frames number_def)
    then show ?thesis using w a cells_added [of "foldl bump_day db4 (tally day_key (\<lambda>c. (ck_urlId c, ck_dateKey c)) items)" "tally cell_text id ?cs" x]
      by (simp add: cell_clicks_def count_list_filter number_def)
  qed
qed

text \<open>The variants of campaigns.  An empty identifier counts as none.\<close>

definition variant_clicks :: "click list \<Rightarrow> string \<Rightarrow> int" where
  "variant_clicks cs v = int (length (filter (\<lambda>c. ck_variantId c = Some v) cs))"

lemma variant_clicks_append [simp]: "variant_clicks (a @ b) v = variant_clicks a v + variant_clicks b v"
  by (simp add: variant_clicks_def)

lemma variants_added: "ct_variants (foldl bump_variant db es) v = map_option (\<lambda>n. n + int (weight (\<lambda>j _. j = v) es)) (ct_variants db v)"
proof (induction es arbitrary: db)
  case (Cons e es)
  obtain k a n where "e = (k, a, n)" by (cases e) auto
  then show ?case using Cons by (cases "ct_variants db v") (auto simp: bump_variant_def)
qed (simp add: option.map_ident)

lemma variant_frames:
  "ct_variants (bump_link db x) = ct_variants db" "ct_variants (bump_usage now r db y) = ct_variants db"
  "ct_variants (bump_day db z) = ct_variants db" "ct_variants (bump_cell db q) = ct_variants db"
  by (simp_all add: bump_link_def bump_usage_def bump_day_def bump_cell_def Let_def split: prod.split option.split)

lemma apply_clicks_variants:
  assumes "v \<noteq> []"
  shows "ct_variants (apply_clicks now db items) v = map_option (\<lambda>n. n + variant_clicks items v) (ct_variants db v)"
proof -
  let ?ids = "\<lambda>cs. concat (map (\<lambda>c. if str_truthy (ck_variantId c) then [the (ck_variantId c)] else []) cs)"
  have "length (filter (\<lambda>i. i = v) (?ids items)) = length (filter (\<lambda>c. ck_variantId c = Some v) items)"
    using assms by (induction items) (auto simp: str_truthy_iff)
  moreover have "weight (\<lambda>j _. j = v) (variant_tally items) = length (filter (\<lambda>i. i = v) (?ids items))"
    unfolding variant_tally_def by (rule weight_tally) simp
  moreover have "ct_variants (apply_clicks now db items) = ct_variants (foldl bump_variant (db\<lparr>ct_events := ct_events db @ items\<rparr>) (variant_tally items))"
    by (simp add: apply_clicks_def aggregate_clicks_def Let_def variant_frames foldl_frame [where f = ct_variants])
  ultimately show ?thesis by (simp add: variants_added variant_clicks_def)
qed

section \<open>The usage a batch charges\<close>

text \<open>
  A stored billable click that no reserved unit covers is charged to the workspace of its link, in the
  month of storing; a link without a workspace is charged to nobody.
\<close>

definition metered_click :: "click \<Rightarrow> bool" where
  "metered_click c = (\<not> ck_nonBillable c \<and> \<not> ck_usageReserved c)"

definition charge_of :: "js_date \<Rightarrow> click_tables \<Rightarrow> click \<Rightarrow> bucket_key option" where
  "charge_of now db c = (if str_truthy (workspace_in db (ck_urlId c))
     then Some (the (workspace_in db (ck_urlId c)), Clicks, usage_period_key now) else None)"

lemma count_key_distinct: "distinct (map fst es) \<Longrightarrow> distinct (map fst (count_key k a es))"
proof (induction k a es rule: count_key.induct)
  case (2 k a j b n es)
  then show ?case using count_key_entry [of _ _ _ k a es] by (cases "j = k") force+
qed simp

lemma tally_distinct: "distinct (map fst (tally key carry items))"
  by (induction items rule: rev_induct) (simp_all add: tally_def count_key_distinct)

lemma weight_absent: "w \<notin> set (map fst es) \<Longrightarrow> weight (\<lambda>j _. j = w) es = 0"
  by (induction es) auto

lemma weight_less_reserved:
  assumes "distinct (map fst es)"
  shows "sum_list (map (\<lambda>(j, _, n). if j = w then n - r w else 0) es) = weight (\<lambda>j _. j = w) es - r w"
  using assms
proof (induction es)
  case (Cons e es)
  obtain j a n where e: "e = (j, a, n)" by (cases e) auto
  then show ?case using Cons weight_absent [of w es] by (cases "j = w") auto
qed simp

lemma usage_added:
  "bucket_quantity (ct_usage (foldl (bump_usage now r) db es)) (w, m, p) = bucket_quantity (ct_usage db) (w, m, p) +
     (if m = Clicks \<and> p = usage_period_key now then int (sum_list (map (\<lambda>(j, _, n). if j = w then n - r w else 0) es)) else 0)"
proof (induction es arbitrary: db)
  case (Cons e es)
  obtain j a n where e: "e = (j, a, n)" by (cases e) auto
  have "bucket_quantity (ct_usage (bump_usage now r db e)) (w, m, p) = bucket_quantity (ct_usage db) (w, m, p) +
      (if j = w \<and> m = Clicks \<and> p = usage_period_key now then int (n - r w) else 0)"
    by (auto simp: e bump_usage_def Let_def bucket_quantity_def set_bucket_def coalesce_def)
  then show ?case using Cons by (auto simp: e)
qed simp

lemma usage_frames:
  "ct_usage (bump_variant db v) = ct_usage db" "ct_usage (bump_link db x) = ct_usage db"
  "ct_usage (bump_day db z) = ct_usage db" "ct_usage (bump_cell db q) = ct_usage db"
  by (simp_all add: bump_variant_def bump_link_def bump_day_def bump_cell_def Let_def split: prod.split option.split)

lemma count_workspaces:
  "count_list (workspace_list db cs) w = length (filter (\<lambda>c. str_truthy (workspace_in db (ck_urlId c)) \<and> the (workspace_in db (ck_urlId c)) = w) cs)"
  by (induction cs) (simp_all add: workspace_list_def)

lemma count_charges:
  "count_list (map (charge_of now db) cs) (Some (w, m, p)) = (if m = Clicks \<and> p = usage_period_key now
     then length (filter (\<lambda>c. str_truthy (workspace_in db (ck_urlId c)) \<and> the (workspace_in db (ck_urlId c)) = w) cs) else 0)"
  by (induction cs) (auto simp: charge_of_def)

lemma filter_difference: "length (filter P (filter B xs)) - length (filter P (filter (\<lambda>c. B c \<and> R c) xs)) = length (filter P (filter (\<lambda>c. B c \<and> \<not> R c) xs))"
proof -
  have "length (filter P (filter B xs)) = length (filter P (filter (\<lambda>c. B c \<and> R c) xs)) + length (filter P (filter (\<lambda>c. B c \<and> \<not> R c) xs))"
    by (induction xs) auto
  then show ?thesis by simp
qed

lemma apply_clicks_usage:
  "bucket_quantity (ct_usage (apply_clicks now db items)) k =
     bucket_quantity (ct_usage db) k + int (count_list (map (charge_of now db) (filter metered_click items)) (Some k))"
proof -
  obtain w m p where k: "k = (w, m, p)" by (cases k) auto
  let ?db3 = "foldl bump_link (foldl bump_variant (db\<lparr>ct_events := ct_events db @ items\<rparr>) (variant_tally items)) (tally ck_urlId ck_shortCode items)"
  let ?r = "reserved_count db items" and ?es = "workspace_counts db items"
  let ?own = "\<lambda>c. str_truthy (workspace_in db (ck_urlId c)) \<and> the (workspace_in db (ck_urlId c)) = w"
  have u: "ct_usage (apply_clicks now db items) = ct_usage (foldl (bump_usage now ?r) ?db3 ?es)" "ct_usage ?db3 = ct_usage db"
    by (simp_all add: apply_clicks_def aggregate_clicks_def Let_def usage_frames foldl_frame [where f = ct_usage])
  have "weight (\<lambda>j _. j = w) ?es = count_list (workspace_list db (filter (\<lambda>c. \<not> ck_nonBillable c) items)) w"
    unfolding workspace_counts_def count_list_filter by (rule weight_tally) simp
  then have "weight (\<lambda>j _. j = w) ?es - ?r w = length (filter ?own (filter metered_click items))"
    using filter_difference [of ?own "\<lambda>c. \<not> ck_nonBillable c" items ck_usageReserved]
    by (simp only: reserved_count_def count_workspaces metered_click_def [abs_def])
  moreover have "distinct (map fst ?es)" by (simp add: workspace_counts_def tally_distinct)
  ultimately show ?thesis
    using usage_added [of now ?r ?db3 ?es w m p] weight_less_reserved [of ?es w ?r] by (simp add: k u count_charges)
qed

section \<open>Preparation and de-duplication\<close>

lemma sanitize_keeps: "sanitize_click sha p ws c = Some (Some d) \<Longrightarrow> ck_id d = ck_id c \<and> ck_urlId d = ck_urlId c \<and> ck_dateKey d = ck_dateKey c"
  by (auto simp: sanitize_click_def aggregate_only_def Let_def split: option.splits bool.splits if_splits)

lemma prepare_source:
  "prepare_clicks sha pol wso cs = Some ps \<Longrightarrow> d \<in> set ps \<Longrightarrow>
    \<exists>c \<in> set cs. ck_id d = ck_id c \<and> ck_urlId d = ck_urlId c \<and> ck_dateKey d = ck_dateKey c"
proof (induction cs arbitrary: ps)
  case (Cons c cs)
  then show ?case by (fastforce simp: Let_def dest: sanitize_keeps split: if_splits option.splits)
qed simp

lemma map_set_keys: "set (map fst (map_set k v m)) = insert k (set (map fst m))"
  by (induction k v m rule: map_set.induct) auto

lemma map_set_distinct: "distinct (map fst m) \<Longrightarrow> distinct (map fst (map_set k v m))"
proof (induction k v m rule: map_set.induct)
  case (2 k v j w es)
  then show ?case using map_set_keys [of k v es] by (cases "j = k") auto
qed simp

lemma map_set_values: "snd ` set (map_set k v m) \<subseteq> insert v (snd ` set m)"
  by (induction k v m rule: map_set.induct) auto

lemma map_set_entries: "e \<in> set (map_set k v m) \<Longrightarrow> e = (k, v) \<or> e \<in> set m"
  by (induction k v m rule: map_set.induct) (auto split: if_splits)

definition keyed_entry :: "string \<times> click \<Rightarrow> bool" where
  "keyed_entry e = (ck_id (snd e) = fst e)"

definition keyed :: "(string \<times> click) list \<Rightarrow> bool" where
  "keyed m = (distinct (map fst m) \<and> list_all keyed_entry m)"

lemma keyed_set: "keyed m \<Longrightarrow> keyed (map_set (ck_id i) i m)"
proof -
  have i: "keyed_entry (ck_id i, i)" by (simp add: keyed_entry_def)
  have "list_all keyed_entry (map_set (ck_id i) i m)" if "list_all keyed_entry m"
    unfolding list_all_iff
  proof
    fix e assume "e \<in> set (map_set (ck_id i) i m)"
    then have "e = (ck_id i, i) \<or> e \<in> set m" by (rule map_set_entries)
    then show "keyed_entry e" using i that unfolding list_all_iff by (elim disjE) (simp only:, rule bspec)
  qed
  then show "keyed m \<Longrightarrow> keyed (map_set (ck_id i) i m)" using map_set_distinct [of m "ck_id i" i] by (simp add: keyed_def)
qed

lemma keyed_ids: "list_all keyed_entry m \<Longrightarrow> map ck_id (map snd m) = map fst m"
  by (induction m) (simp_all add: keyed_entry_def)

lemma dedupe_fold:
  assumes "keyed m" and r: "r = foldl (\<lambda>m i. map_set (ck_id i) i m) m items"
  shows "keyed r" "set (map fst r) = set (map fst m) \<union> ck_id ` set items" "snd ` set r \<subseteq> snd ` set m \<union> set items"
proof -
  have "keyed r \<and> set (map fst r) = set (map fst m) \<union> ck_id ` set items \<and> snd ` set r \<subseteq> snd ` set m \<union> set items"
    using assms
  proof (induction items arbitrary: m)
    case (Cons i items)
    let ?m = "map_set (ck_id i) i m"
    have ih: "keyed r" "set (map fst r) = set (map fst ?m) \<union> ck_id ` set items" "snd ` set r \<subseteq> snd ` set ?m \<union> set items"
      using Cons.IH [of ?m] keyed_set [OF Cons.prems(1)] Cons.prems(2) by simp_all
    have "snd ` set r \<subseteq> insert i (snd ` set m) \<union> set items" using ih(3) map_set_values [of "ck_id i" i m] by (rule order_trans [OF _ Un_mono]) simp
    then show ?case using ih(1,2) unfolding map_set_keys by simp
  qed simp
  then show "keyed r" "set (map fst r) = set (map fst m) \<union> ck_id ` set items" "snd ` set r \<subseteq> snd ` set m \<union> set items" by blast+
qed

lemma dedupe_ids: "distinct (map ck_id (dedupe_click_ids items))" "set (map ck_id (dedupe_click_ids items)) = ck_id ` set items"
  "set (dedupe_click_ids items) \<subseteq> set items"
proof -
  define r where "r = foldl (\<lambda>m i. map_set (ck_id i) i m) [] items"
  have k: "keyed []" by (simp add: keyed_def)
  note f = dedupe_fold [OF k r_def]
  have d: "dedupe_click_ids items = map snd r" by (simp add: dedupe_click_ids_def r_def)
  have "map ck_id (dedupe_click_ids items) = map fst r" using f(1) unfolding d keyed_def by (blast intro: keyed_ids)
  then show "distinct (map ck_id (dedupe_click_ids items))" "set (map ck_id (dedupe_click_ids items)) = ck_id ` set items"
    using f(1,2) by (simp_all add: keyed_def)
  show "set (dedupe_click_ids items) \<subseteq> set items" using f(3) by (simp add: d)
qed

text \<open>What a committed batch did: it stored the new clicks of the prepared ones, once each.\<close>

lemma persist_batch_Inr:
  assumes "persist_batch sha pol wso now db parsed = Inr (db', rep)"
  obtains prepared items where "prepare_clicks sha pol wso parsed = Some prepared"
    "items = new_clicks db (dedupe_click_ids prepared)" "db' = apply_clicks now db items \<or> items = [] \<and> db' = db"
    "list_all (\<lambda>c. ct_urls db (ck_urlId c) \<noteq> None) items"
proof -
  obtain prepared where p: "prepare_clicks sha pol wso parsed = Some prepared" using assms by (auto simp: persist_batch_def split: option.splits)
  let ?items = "new_clicks db (dedupe_click_ids prepared)"
  have "db' = apply_clicks now db ?items \<or> ?items = [] \<and> db' = db" "list_all (\<lambda>c. ct_urls db (ck_urlId c) \<noteq> None) ?items"
    using assms p by (auto simp: persist_batch_def Let_def references_ok_def list_all_iff split: if_splits)
  then show thesis using that p by blast
qed

lemma apply_clicks_nil: "apply_clicks now db [] = db"
  by (simp add: apply_clicks_def aggregate_clicks_def aggregate_dimensions_def tally_def variant_tally_def workspace_counts_def workspace_list_def)

section \<open>Round trip of a queued click\<close>

definition click_ok :: "click \<Rightarrow> bool" where
  "click_ok c = (ck_id c \<noteq> [] \<and> ck_urlId c \<noteq> [] \<and> ck_dateKey c \<noteq> [] \<and> ck_shortCode c \<noteq> [] \<and> length (ck_utm c) = 5)"

lemma jstr_json_option [simp]: "jstr (Some (json_option v)) = v"
  by (cases v) (simp_all add: json_option_def)

lemma json_plain_option [simp]: "json_plain (json_option v)"
  by (cases v) (simp_all add: json_option_def)

lemma click_roundtrip:
  assumes "click_ok c"
  shows "parse_click (click_text c) = Some c"
proof -
  obtain a b d e f where utm: "ck_utm c = [a, b, d, e, f]" using assms by (auto simp: click_ok_def numeral_eq_Suc length_Suc_conv)
  note defs = click_json_def utm UTM_FIELDS_def
  have "json_plain (click_json c)" by (simp add: defs)
  then have "parse_json (click_text c) = Some (click_json c)" unfolding click_text_def by (rule parse_json_text)
  moreover have "is_click_data (click_json c)"
    using assms by (auto simp: is_click_data_def nonempty_field_def defs click_ok_def neq_Nil_conv)
  moreover have "click_of_json (click_json c) = c"
    by (simp add: click_of_json_def Let_def defs true_field_def coalesce_def)
  ultimately show ?thesis by (simp add: parse_click_def)
qed

section \<open>The counters agree with the events\<close>

definition tables_ok :: "click_tables \<Rightarrow> bool" where
  "tables_ok db \<longleftrightarrow> distinct (map ck_id (ct_events db)) \<and>
     (\<forall>c \<in> set (ct_events db). plain_click c \<and> clicks_of db (ck_urlId c) \<noteq> None) \<and>
     (\<forall>u n. clicks_of db u = Some n \<longrightarrow> n = link_clicks (ct_events db) u) \<and>
     (\<forall>k. number (ct_daily db) k = day_clicks (ct_events db) k) \<and>
     (\<forall>x. number (ct_cells db) x = cell_clicks (ct_events db) x) \<and>
     (\<forall>v n. v \<noteq> [] \<longrightarrow> ct_variants db v = Some n \<longrightarrow> n = variant_clicks (ct_events db) v)"

lemma tables_okD:
  assumes "tables_ok db"
  shows "distinct (map ck_id (ct_events db))" "\<And>c. c \<in> set (ct_events db) \<Longrightarrow> plain_click c"
    "\<And>c. c \<in> set (ct_events db) \<Longrightarrow> clicks_of db (ck_urlId c) \<noteq> None"
    "\<And>u n. clicks_of db u = Some n \<Longrightarrow> n = link_clicks (ct_events db) u"
    "\<And>k. number (ct_daily db) k = day_clicks (ct_events db) k" "\<And>x. number (ct_cells db) x = cell_clicks (ct_events db) x"
    "\<And>v n. v \<noteq> [] \<Longrightarrow> ct_variants db v = Some n \<Longrightarrow> n = variant_clicks (ct_events db) v"
  using assms unfolding tables_ok_def by blast+

lemma apply_clicks_ok:
  assumes ok: "tables_ok db" and items: "distinct (map ck_id items)" "set (map ck_id items) \<inter> set (map ck_id (ct_events db)) = {}"
    and plain: "\<forall>c \<in> set items. plain_click c" and links: "\<forall>c \<in> set items. clicks_of db (ck_urlId c) \<noteq> None"
  shows "tables_ok (apply_clicks now db items)"
  unfolding tables_ok_def apply_clicks_events
proof (intro conjI ballI allI impI)
  show "distinct (map ck_id (ct_events db @ items))" using tables_okD(1) [OF ok] items by auto
  fix c assume "c \<in> set (ct_events db @ items)"
  then have "plain_click c \<and> clicks_of db (ck_urlId c) \<noteq> None" using tables_okD(2,3) [OF ok] plain links by auto
  then show "plain_click c" "clicks_of (apply_clicks now db items) (ck_urlId c) \<noteq> None" by (simp_all add: apply_clicks_links)
next
  fix u n assume "clicks_of (apply_clicks now db items) u = Some n"
  then show "n = link_clicks (ct_events db @ items) u" using tables_okD(4) [OF ok, of u] by (auto simp: apply_clicks_links)
next
  fix k show "number (ct_daily (apply_clicks now db items)) k = day_clicks (ct_events db @ items) k"
    using tables_okD(5) [OF ok] apply_clicks_days [OF plain] by simp
next
  fix x show "number (ct_cells (apply_clicks now db items)) x = cell_clicks (ct_events db @ items) x"
    using tables_okD(6) [OF ok] apply_clicks_cells [OF plain] by simp
next
  fix v n assume "v \<noteq> []" "ct_variants (apply_clicks now db items) v = Some n"
  then show "n = variant_clicks (ct_events db @ items) v" using tables_okD(7) [OF ok, of v] by (auto simp: apply_clicks_variants)
qed

text \<open>The rows a transaction inserted, and what they charged.\<close>

definition batch_charges :: "js_date \<Rightarrow> click_tables \<Rightarrow> click_tables \<Rightarrow> (string \<times> bucket_key option) list" where
  "batch_charges now db db' = map (\<lambda>c. (ck_id c, charge_of now db c)) (filter metered_click (drop (length (ct_events db)) (ct_events db')))"

lemma persist_batch_charges:
  assumes "persist_batch sha pol wso now db parsed = Inr (db', rep)"
  shows "map ck_id (filter metered_click (ct_events db')) = map ck_id (filter metered_click (ct_events db)) @ map fst (batch_charges now db db')"
    "bucket_quantity (ct_usage db') k = bucket_quantity (ct_usage db) k + int (count_list (map snd (batch_charges now db db')) (Some k))"
proof -
  obtain items where "db' = apply_clicks now db items"
    using persist_batch_Inr [OF assms] apply_clicks_nil by metis
  then show "map ck_id (filter metered_click (ct_events db')) = map ck_id (filter metered_click (ct_events db)) @ map fst (batch_charges now db db')"
    "bucket_quantity (ct_usage db') k = bucket_quantity (ct_usage db) k + int (count_list (map snd (batch_charges now db db')) (Some k))"
    by (simp_all add: batch_charges_def apply_clicks_events apply_clicks_usage comp_def)
qed

text \<open>The clicks of a batch that its preparation leaves out.\<close>

definition dropped_ids :: "(string \<Rightarrow> string) \<Rightarrow> (string \<Rightarrow> policy) \<Rightarrow> (string \<Rightarrow> string option) \<Rightarrow> click list \<Rightarrow> string list" where
  "dropped_ids sha pol wso parsed = (case prepare_clicks sha pol wso parsed of None \<Rightarrow> []
     | Some ps \<Rightarrow> filter (\<lambda>i. i \<notin> set (map ck_id ps)) (map ck_id parsed))"

lemma persist_batch_effect:
  assumes run: "persist_batch sha pol wso now db parsed = Inr (db', rep)" and ok: "tables_ok db" and plain: "\<forall>c \<in> set parsed. plain_click c"
  shows "tables_ok db'" "set (map ck_id (ct_events db)) \<subseteq> set (map ck_id (ct_events db'))"
    "\<And>c. c \<in> set parsed \<Longrightarrow> ck_id c \<in> set (map ck_id (ct_events db')) \<or> ck_id c \<in> set (dropped_ids sha pol wso parsed)"
proof -
  obtain prepared items where p: "prepare_clicks sha pol wso parsed = Some prepared" and items: "items = new_clicks db (dedupe_click_ids prepared)"
    and "db' = apply_clicks now db items \<or> items = [] \<and> db' = db" and fk: "list_all (\<lambda>c. ct_urls db (ck_urlId c) \<noteq> None) items"
    using persist_batch_Inr [OF run] by metis
  then have db': "db' = apply_clicks now db items" using apply_clicks_nil by metis
  have sub: "set items \<subseteq> set prepared" using dedupe_ids(3) items by (auto simp: new_clicks_def)
  have pl: "\<forall>c \<in> set items. plain_click c"
  proof
    fix c assume "c \<in> set items"
    then obtain d where "d \<in> set parsed" "ck_urlId c = ck_urlId d" "ck_dateKey c = ck_dateKey d" using prepare_source [OF p] sub by blast
    then show "plain_click c" using plain by (simp add: plain_click_def)
  qed
  have ids: "distinct (map ck_id items)" "set (map ck_id items) \<inter> set (map ck_id (ct_events db)) = {}"
    using dedupe_ids(1) [of prepared] by (auto simp: items new_clicks_def intro: distinct_map_filter)
  have links: "\<forall>c \<in> set items. clicks_of db (ck_urlId c) \<noteq> None" using fk by (simp add: list_all_iff clicks_of_def)
  show "tables_ok db'" unfolding db' by (rule apply_clicks_ok [OF ok ids pl links])
  show "set (map ck_id (ct_events db)) \<subseteq> set (map ck_id (ct_events db'))" by (simp add: db' apply_clicks_events)
  fix c assume c: "c \<in> set parsed"
  show "ck_id c \<in> set (map ck_id (ct_events db')) \<or> ck_id c \<in> set (dropped_ids sha pol wso parsed)"
  proof (cases "ck_id c \<in> set (map ck_id prepared)")
    case True
    then have "ck_id c \<in> set (map ck_id (dedupe_click_ids prepared))" unfolding dedupe_ids(2) by simp
    then have "ck_id c \<in> set (map ck_id (ct_events db)) \<or> ck_id c \<in> set (map ck_id items)" by (auto simp: items new_clicks_def)
    then show ?thesis by (auto simp: db' apply_clicks_events)
  next
    case False
    then show ?thesis using c p by (simp add: dropped_ids_def)
  qed
qed

end
