(* ===== verification/ClickDelivery.thy ===== *)
theory ClickDelivery
  imports ClickCounts "HOL-Library.Multiset"
begin

text \<open>
  Delivery of clicks (\<open>src/lib/queue.ts\<close>): pushes, fallbacks, workers that claim, store and
  acknowledge batches and may stop at any point, as a step relation; every step keeps the counters
  equal to the stored events and keeps every accepted click; a whole run of the processor is made
  of such steps; and what a batch that cannot be stored leaves behind.
\<close>

section \<open>Workers\<close>

text \<open>
  Any number of workers take batches from the lists, and may stop at any point.  The ghost fields
  are the accepted clicks, the ids that preparations left out, the malformed entries pushed by
  others, what the stored clicks charged (a click and the bucket), and what everybody else put into
  a bucket.  Settings of links, rules and variants and the usage buckets change at any time; new
  links and variants start at zero, under identifiers no event has.  Nothing deletes events
  (retention and the erasure of a visitor do so, and leave the counters), and no click history is
  imported.
\<close>

datatype worker = Collecting "string list" | Committed "string list"

fun worker_items :: "worker \<Rightarrow> string list" where
  "worker_items (Collecting xs) = xs"
| "worker_items (Committed xs) = xs"

record queue_world =
  qw_db :: click_tables
  qw_redis :: redis_lists
  qw_workers :: "worker list"
  qw_accepted :: "click list"
  qw_dropped :: "string list"
  qw_poison :: "string list"
  qw_charges :: "(string \<times> bucket_key option) list"
  qw_other :: "bucket_key \<Rightarrow> int"

definition settings_change :: "click_tables \<Rightarrow> click_tables \<Rightarrow> bool" where
  "settings_change db db' \<longleftrightarrow> ct_events db' = ct_events db \<and> ct_daily db' = ct_daily db \<and> ct_cells db' = ct_cells db \<and>
     (\<forall>u. clicks_of db' u = clicks_of db u \<or> (clicks_of db u = None \<and> clicks_of db' u = Some 0)) \<and>
     (\<forall>v. ct_variants db' v = ct_variants db v \<or> ct_variants db' v = None \<or>
        (ct_variants db v = None \<and> ct_variants db' v = Some 0 \<and> variant_clicks (ct_events db) v = 0))"

definition bad_batch :: "worker \<Rightarrow> bool" where
  "bad_batch k = (case k of Collecting xs \<Rightarrow> fst (split_raws xs) = [] | Committed _ \<Rightarrow> True)"

inductive queue_step :: "(string \<Rightarrow> string) \<Rightarrow> queue_world \<Rightarrow> queue_world \<Rightarrow> bool" for sha where
  push: "click_ok c \<Longrightarrow> plain_click c \<Longrightarrow>
    queue_step sha w (w\<lparr>qw_redis := push_click (qw_redis w) (click_text c), qw_accepted := c # qw_accepted w\<rparr>)"
| push_fallback: "click_ok c \<Longrightarrow> plain_click c \<Longrightarrow> push_direct sha pol wso now (qw_db w) c = Inr (db', rep) \<Longrightarrow>
    queue_step sha w (w\<lparr>qw_db := db', qw_dropped := dropped_ids sha pol wso [c] @ qw_dropped w, qw_accepted := c # qw_accepted w,
      qw_charges := qw_charges w @ batch_charges now (qw_db w) db'\<rparr>)"
| poison: "parse_click raw = None \<Longrightarrow>
    queue_step sha w (w\<lparr>qw_redis := push_click (qw_redis w) raw, qw_poison := raw # qw_poison w\<rparr>)"
| recover: "queue_step sha w (w\<lparr>qw_redis := recover_one (qw_redis w)\<rparr>)"
| spawn: "queue_step sha w (w\<lparr>qw_workers := qw_workers w @ [Collecting []]\<rparr>)"
| claim: "i < length (qw_workers w) \<Longrightarrow> qw_workers w ! i = Collecting xs \<Longrightarrow> claim_one (qw_redis w) = (r', Some x) \<Longrightarrow>
    queue_step sha w (w\<lparr>qw_redis := r', qw_workers := (qw_workers w)[i := Collecting (xs @ [x])]\<rparr>)"
| commit: "i < length (qw_workers w) \<Longrightarrow> qw_workers w ! i = Collecting xs \<Longrightarrow>
    persist_batch sha pol wso now (qw_db w) (fst (split_raws xs)) = Inr (db', rep) \<Longrightarrow>
    queue_step sha w (w\<lparr>qw_db := db', qw_dropped := dropped_ids sha pol wso (fst (split_raws xs)) @ qw_dropped w,
      qw_workers := (qw_workers w)[i := Committed xs], qw_charges := qw_charges w @ batch_charges now (qw_db w) db'\<rparr>)"
| ack: "Committed xs \<in> set (qw_workers w) \<Longrightarrow> x \<in> set xs \<Longrightarrow> parse_click x \<noteq> None \<Longrightarrow>
    queue_step sha w (w\<lparr>qw_redis := acknowledge (qw_redis w) [x]\<rparr>)"
| quarantine: "k \<in> set (qw_workers w) \<Longrightarrow> bad_batch k \<Longrightarrow> x \<in> set (worker_items k) \<Longrightarrow> parse_click x = None \<Longrightarrow>
    queue_step sha w (w\<lparr>qw_redis := quarantine_push (qw_redis w) [x]\<rparr>)"
| quarantine_ack: "parse_click x = None \<Longrightarrow> x \<in> set (rq_dlq (qw_redis w)) \<Longrightarrow>
    queue_step sha w (w\<lparr>qw_redis := acknowledge (qw_redis w) [x]\<rparr>)"
| stop: "i < length (qw_workers w) \<Longrightarrow> queue_step sha w (w\<lparr>qw_workers := (qw_workers w)[i := Collecting []]\<rparr>)"
| settings: "settings_change (qw_db w) db' \<Longrightarrow> queue_step sha w (w\<lparr>qw_db := db',
    qw_other := (\<lambda>k. qw_other w k + (bucket_quantity (ct_usage db') k - bucket_quantity (ct_usage (qw_db w)) k))\<rparr>)"

definition empty_tables :: "click_tables \<Rightarrow> bool" where
  "empty_tables db \<longleftrightarrow> ct_events db = [] \<and> ct_daily db = Map.empty \<and> ct_cells db = Map.empty \<and> (\<forall>u n. clicks_of db u = Some n \<longrightarrow> n = 0)
     \<and> (\<forall>v n. ct_variants db v = Some n \<longrightarrow> n = 0)"

definition start_world :: "click_tables \<Rightarrow> queue_world" where
  "start_world db = \<lparr>qw_db = db, qw_redis = \<lparr>rq_queue = [], rq_processing = [], rq_dlq = []\<rparr>, qw_workers = [], qw_accepted = [],
     qw_dropped = [], qw_poison = [], qw_charges = [], qw_other = bucket_quantity (ct_usage db)\<rparr>"

inductive queue_reach :: "(string \<Rightarrow> string) \<Rightarrow> queue_world \<Rightarrow> bool" for sha where
  start: "empty_tables db \<Longrightarrow> queue_reach sha (start_world db)"
| step: "queue_reach sha w \<Longrightarrow> queue_step sha w w' \<Longrightarrow> queue_reach sha w'"

section \<open>Every step keeps every click\<close>

definition waiting :: "redis_lists \<Rightarrow> string set" where
  "waiting r = set (rq_queue r) \<union> set (rq_processing r)"

definition click_settled :: "click_tables \<Rightarrow> string list \<Rightarrow> string \<Rightarrow> bool" where
  "click_settled db dropped i = (i \<in> set (map ck_id (ct_events db)) \<or> i \<in> set dropped)"

definition raw_plain :: "string \<Rightarrow> bool" where
  "raw_plain x = (case parse_click x of None \<Rightarrow> True | Some c \<Rightarrow> plain_click c)"

definition raw_settled :: "click_tables \<Rightarrow> string list \<Rightarrow> string \<Rightarrow> bool" where
  "raw_settled db dropped x = (case parse_click x of None \<Rightarrow> True | Some c \<Rightarrow> click_settled db dropped (ck_id c))"

definition worker_ok :: "click_tables \<Rightarrow> string list \<Rightarrow> worker \<Rightarrow> bool" where
  "worker_ok db dropped k = (list_all raw_plain (worker_items k) \<and>
     (case k of Collecting _ \<Rightarrow> True | Committed xs \<Rightarrow> list_all (raw_settled db dropped) xs))"

definition queue_inv :: "queue_world \<Rightarrow> bool" where
  "queue_inv w \<longleftrightarrow> tables_ok (qw_db w) \<and> list_all (worker_ok (qw_db w) (qw_dropped w)) (qw_workers w) \<and>
     (\<forall>x \<in> waiting (qw_redis w). raw_plain x) \<and>
     (\<forall>c \<in> set (qw_accepted w). click_text c \<in> waiting (qw_redis w) \<or> click_settled (qw_db w) (qw_dropped w) (ck_id c)) \<and>
     (\<forall>c \<in> set (qw_accepted w). click_ok c) \<and> (\<forall>x \<in> set (qw_poison w). parse_click x = None) \<and>
     (\<forall>x \<in> set (qw_poison w). x \<in> waiting (qw_redis w) \<or> x \<in> set (rq_dlq (qw_redis w)))"

lemma waiting_push [simp]: "waiting (push_click r x) = insert x (waiting r)" "rq_dlq (push_click r x) = rq_dlq r"
  by (simp_all add: waiting_def push_click_def)

lemma set_last_butlast: "xs \<noteq> [] \<Longrightarrow> insert (last xs) (set (butlast xs)) = set xs" for xs :: "string list"
  by (cases xs rule: rev_cases) simp_all

lemma waiting_recover [simp]: "waiting (recover_one r) = waiting r" "rq_dlq (recover_one r) = rq_dlq r"
  using set_last_butlast [of "rq_processing r"] by (auto simp: waiting_def recover_one_def)

lemma waiting_claim:
  assumes "claim_one r = (r', Some x)"
  shows "waiting r' = waiting r" "x \<in> waiting r" "rq_dlq r' = rq_dlq r"
proof -
  have r: "rq_queue r \<noteq> []" "x = last (rq_queue r)" "r' = r\<lparr>rq_queue := butlast (rq_queue r), rq_processing := x # rq_processing r\<rparr>"
    using assms by (auto simp: claim_one_def split: if_splits)
  show "waiting r' = waiting r" using set_last_butlast [OF r(1)] by (simp add: waiting_def r(2,3)) blast
  show "x \<in> waiting r" "rq_dlq r' = rq_dlq r" using r by (simp_all add: waiting_def)
qed

lemma waiting_ack: "waiting (acknowledge r [x]) \<subseteq> waiting r" "waiting r \<subseteq> insert x (waiting (acknowledge r [x]))" "rq_dlq (acknowledge r [x]) = rq_dlq r"
  by (auto simp: waiting_def acknowledge_def dest: notin_set_remove1 set_remove1_subset [THEN subsetD])

lemma waiting_quarantine [simp]: "waiting (quarantine_push r xs) = waiting r" "set (rq_dlq (quarantine_push r xs)) = set xs \<union> set (rq_dlq r)"
  by (simp_all add: waiting_def quarantine_push_def)

lemma click_settled_mono: "click_settled db d i \<Longrightarrow> set (map ck_id (ct_events db)) \<subseteq> set (map ck_id (ct_events db')) \<Longrightarrow> set d \<subseteq> set d' \<Longrightarrow> click_settled db' d' i"
  unfolding click_settled_def by blast

lemma worker_ok_mono:
  assumes "worker_ok db d k" "set (map ck_id (ct_events db)) \<subseteq> set (map ck_id (ct_events db'))" "set d \<subseteq> set d'"
  shows "worker_ok db' d' k"
proof -
  have "raw_settled db d x \<Longrightarrow> raw_settled db' d' x" for x
    using click_settled_mono [OF _ assms(2,3)] by (simp add: raw_settled_def split: option.splits)
  then show ?thesis using assms(1) by (auto simp: worker_ok_def list_all_iff split: worker.splits)
qed

lemma list_all_put: "list_all P xs \<Longrightarrow> P y \<Longrightarrow> list_all P (xs[i := y])"
  unfolding list_all_iff using set_update_subset_insert [of xs i y] by blast

lemma split_plain: "list_all raw_plain xs \<Longrightarrow> \<forall>c \<in> set (fst (split_raws xs)). plain_click c"
proof
  fix c assume xs: "list_all raw_plain xs" and "c \<in> set (fst (split_raws xs))"
  then obtain x where "x \<in> set xs" "parse_click x = Some c" by (auto simp: split_raws_def List.map_filter_def)
  then show "plain_click c" using xs by (auto simp: list_all_iff raw_plain_def)
qed

lemma split_member: "x \<in> set xs \<Longrightarrow> parse_click x = Some c \<Longrightarrow> c \<in> set (fst (split_raws xs))"
  by (force simp: split_raws_def List.map_filter_def)

lemma queue_invD:
  assumes "queue_inv w"
  shows "tables_ok (qw_db w)" "list_all (worker_ok (qw_db w) (qw_dropped w)) (qw_workers w)" "\<And>x. x \<in> waiting (qw_redis w) \<Longrightarrow> raw_plain x"
    "\<And>c. c \<in> set (qw_accepted w) \<Longrightarrow> click_text c \<in> waiting (qw_redis w) \<or> click_settled (qw_db w) (qw_dropped w) (ck_id c)"
    "\<And>x. x \<in> set (qw_poison w) \<Longrightarrow> x \<in> waiting (qw_redis w) \<or> x \<in> set (rq_dlq (qw_redis w))"
    "\<And>c. c \<in> set (qw_accepted w) \<Longrightarrow> click_ok c" "\<And>x. x \<in> set (qw_poison w) \<Longrightarrow> parse_click x = None"
  using assms unfolding queue_inv_def by blast+

text \<open>Storing a batch keeps the invariant of everything but the store, and advances the store.\<close>

lemma store_inv:
  assumes inv: "queue_inv w" and sub: "set (map ck_id (ct_events (qw_db w))) \<subseteq> set (map ck_id (ct_events db'))" and ok: "tables_ok db'"
    and d: "set (qw_dropped w) \<subseteq> set d'"
  shows "queue_inv (w\<lparr>qw_db := db', qw_dropped := d'\<rparr>)"
proof -
  have "list_all (worker_ok db' d') (qw_workers w)"
    using queue_invD(2) [OF inv] worker_ok_mono [OF _ sub d] by (auto simp: list_all_iff)
  then show ?thesis using inv ok click_settled_mono [OF _ sub d] unfolding queue_inv_def by simp blast
qed

lemma workers_inv:
  assumes inv: "queue_inv w" and k: "worker_ok (qw_db w) (qw_dropped w) k"
  shows "queue_inv (w\<lparr>qw_workers := (qw_workers w)[i := k]\<rparr>)"
  using inv list_all_put [OF queue_invD(2) [OF inv] k] unfolding queue_inv_def by simp

lemma accept_inv:
  assumes inv: "queue_inv w" and "click_text c \<in> waiting (qw_redis w) \<or> click_settled (qw_db w) (qw_dropped w) (ck_id c)" "click_ok c"
  shows "queue_inv (w\<lparr>qw_accepted := c # qw_accepted w\<rparr>)"
  using assms unfolding queue_inv_def by simp

text \<open>A change of the lists that keeps what must be kept.\<close>

lemma redis_inv:
  assumes inv: "queue_inv w" and new: "\<And>x. x \<in> waiting r' \<Longrightarrow> x \<in> waiting (qw_redis w) \<or> raw_plain x"
    and dlq: "set (rq_dlq (qw_redis w)) \<subseteq> set (rq_dlq r')"
    and gone: "\<And>x. x \<in> waiting (qw_redis w) \<Longrightarrow> x \<notin> waiting r' \<Longrightarrow>
      (case parse_click x of None \<Rightarrow> x \<in> set (rq_dlq r') | Some c \<Rightarrow> click_settled (qw_db w) (qw_dropped w) (ck_id c))"
  shows "queue_inv (w\<lparr>qw_redis := r'\<rparr>)"
proof -
  have a: "click_text c \<in> waiting r' \<or> click_settled (qw_db w) (qw_dropped w) (ck_id c)" if "c \<in> set (qw_accepted w)" for c
    using queue_invD(4) [OF inv that] gone [of "click_text c"] click_roundtrip [OF queue_invD(6) [OF inv that]] by auto
  have p: "x \<in> waiting r' \<or> x \<in> set (rq_dlq r')" if "x \<in> set (qw_poison w)" for x
    using queue_invD(5) [OF inv that] gone [of x] queue_invD(7) [OF inv that] dlq by auto
  have n: "\<forall>x \<in> waiting r'. raw_plain x" using new queue_invD(3) [OF inv] by blast
  show ?thesis using inv a p n unfolding queue_inv_def by simp
qed

lemma settings_ok: "settings_change db db' \<Longrightarrow> tables_ok db \<Longrightarrow> tables_ok db'"
proof -
  assume ch: "settings_change db db'" and ok: "tables_ok db"
  have zero: "link_clicks (ct_events db) u = 0" if "clicks_of db u = None" for u
  proof -
    have "ck_urlId c \<noteq> u" if "c \<in> set (ct_events db)" for c
      using tables_okD(3) [OF ok that] \<open>clicks_of db u = None\<close> by auto
    then show ?thesis by (simp add: link_clicks_def filter_empty_conv)
  qed
  have "clicks_of db' u \<noteq> None" if "clicks_of db u \<noteq> None" for u
    using ch that unfolding settings_change_def by (metis)
  moreover have "n = link_clicks (ct_events db) u" if "clicks_of db' u = Some n" for u n
    using ch that tables_okD(4) [OF ok] zero unfolding settings_change_def by (metis option.inject)
  moreover have "n = variant_clicks (ct_events db) v" if "v \<noteq> []" "ct_variants db' v = Some n" for v n
    using ch that tables_okD(7) [OF ok that(1)] unfolding settings_change_def by (metis option.distinct(1) option.inject)
  ultimately show ?thesis using ch ok unfolding tables_ok_def settings_change_def by simp
qed

lemma charges_inv [simp]: "queue_inv (w\<lparr>qw_charges := xs\<rparr>) = queue_inv w" "queue_inv (w\<lparr>qw_other := f\<rparr>) = queue_inv w"
  by (simp_all add: queue_inv_def)

lemma queue_step_inv:
  assumes "queue_step sha w w'" "queue_inv w"
  shows "queue_inv w'"
  using assms
proof cases
  case (push c)
  have "queue_inv (w\<lparr>qw_redis := push_click (qw_redis w) (click_text c)\<rparr>)"
    by (rule redis_inv [OF assms(2)]) (use push click_roundtrip in \<open>auto simp: raw_plain_def\<close>)
  from accept_inv [OF this, of c] show ?thesis using push by simp
next
  case (push_fallback c pol wso now db' rep)
  have run: "persist_batch sha pol wso now (qw_db w) [c] = Inr (db', rep)" using push_fallback by (simp add: push_direct_def)
  note e = persist_batch_effect [OF run queue_invD(1) [OF assms(2)]]
  let ?d = "dropped_ids sha pol wso [c] @ qw_dropped w"
  have "queue_inv (w\<lparr>qw_db := db', qw_dropped := ?d\<rparr>)"
    by (rule store_inv [OF assms(2)]) (use e push_fallback in auto)
  from accept_inv [OF this, of c] have "queue_inv (w\<lparr>qw_db := db', qw_dropped := ?d, qw_accepted := c # qw_accepted w\<rparr>)"
    using push_fallback e(3) [of c] by (auto simp: click_settled_def)
  then show ?thesis unfolding push_fallback(1) by (simp only: charges_inv)
next
  case (poison raw)
  have "queue_inv (w\<lparr>qw_redis := push_click (qw_redis w) raw\<rparr>)"
    by (rule redis_inv [OF assms(2)]) (use poison in \<open>auto simp: raw_plain_def\<close>)
  then show ?thesis using poison unfolding queue_inv_def by simp
next
  case recover
  show ?thesis unfolding recover by (rule redis_inv [OF assms(2)]) auto
next
  case spawn
  then show ?thesis using assms(2) unfolding queue_inv_def by (simp add: worker_ok_def)
next
  case (claim i xs r' x)
  note r = waiting_claim [OF claim(4)]
  have "worker_ok (qw_db w) (qw_dropped w) (Collecting xs)" using list_all_at [OF queue_invD(2) [OF assms(2)] claim(2)] claim(3) by simp
  then have k: "worker_ok (qw_db w) (qw_dropped w) (Collecting (xs @ [x]))" using queue_invD(3) [OF assms(2) r(2)] by (simp add: worker_ok_def)
  have "queue_inv (w\<lparr>qw_redis := r'\<rparr>)" by (rule redis_inv [OF assms(2)]) (use r in auto)
  from workers_inv [OF this, of "Collecting (xs @ [x])" i] k show ?thesis unfolding claim(1) by simp
next
  case (commit i xs pol wso now db' rep)
  have xs: "list_all raw_plain xs" using list_all_at [OF queue_invD(2) [OF assms(2)] commit(2)] commit(3) by (simp add: worker_ok_def)
  note e = persist_batch_effect [OF commit(4) queue_invD(1) [OF assms(2)] split_plain [OF xs]]
  let ?d = "dropped_ids sha pol wso (fst (split_raws xs)) @ qw_dropped w"
  have inv: "queue_inv (w\<lparr>qw_db := db', qw_dropped := ?d\<rparr>)"
    by (rule store_inv [OF assms(2)]) (use e in auto)
  have "list_all (raw_settled db' ?d) xs"
    unfolding list_all_iff raw_settled_def click_settled_def using e(3) split_member by (fastforce split: option.split)
  then have "worker_ok db' ?d (Committed xs)" using xs by (simp add: worker_ok_def)
  with workers_inv [OF inv, of "Committed xs" i]
  have "queue_inv (w\<lparr>qw_db := db', qw_dropped := ?d, qw_workers := (qw_workers w)[i := Committed xs]\<rparr>)" by simp
  then show ?thesis unfolding commit(1) by (simp only: charges_inv)
next
  case (ack xs x)
  have "worker_ok (qw_db w) (qw_dropped w) (Committed xs)" using queue_invD(2) [OF assms(2)] ack(2) by (simp add: list_all_iff)
  then have "raw_settled (qw_db w) (qw_dropped w) x" using ack(3) by (simp add: worker_ok_def list_all_iff)
  then show ?thesis unfolding ack(1) using ack(4) waiting_ack [where r = "qw_redis w" and x = x]
    by (intro redis_inv [OF assms(2)]) (auto simp: raw_settled_def split: option.split)
next
  case (quarantine k x)
  show ?thesis unfolding quarantine(1) by (rule redis_inv [OF assms(2)]) auto
next
  case (quarantine_ack x)
  then show ?thesis unfolding quarantine_ack(1) using waiting_ack [where r = "qw_redis w" and x = x]
    by (intro redis_inv [OF assms(2)]) (auto split: option.split)
next
  case (stop i)
  show ?thesis unfolding stop(1) by (rule workers_inv [OF assms(2)]) (simp add: worker_ok_def)
next
  case (settings db')
  have "tables_ok db'" using queue_invD(1) [OF assms(2)] settings(2) settings_ok by blast
  from store_inv [OF assms(2) _ this, of "qw_dropped w"] settings(2) have "queue_inv (w\<lparr>qw_db := db'\<rparr>)" by (simp add: settings_change_def)
  then show ?thesis unfolding settings(1) by (simp only: charges_inv)
qed

lemma queue_reach_inv: "queue_reach sha w \<Longrightarrow> queue_inv w"
proof (induction rule: queue_reach.induct)
  case (start db)
  then show ?case
    by (auto simp: empty_tables_def queue_inv_def start_world_def waiting_def tables_ok_def number_def coalesce_def link_clicks_def day_clicks_def cell_clicks_def variant_clicks_def)
qed (rule queue_step_inv)

text \<open>The charges are those of the stored clicks, and a bucket holds its charges and what others put there.\<close>

definition charges_ok :: "queue_world \<Rightarrow> bool" where
  "charges_ok w \<longleftrightarrow> map fst (qw_charges w) = map ck_id (filter metered_click (ct_events (qw_db w))) \<and>
     (\<forall>k. bucket_quantity (ct_usage (qw_db w)) k = qw_other w k + int (count_list (map snd (qw_charges w)) (Some k)))"

lemma charges_store:
  assumes "charges_ok w" "persist_batch sha pol wso now (qw_db w) cs = Inr (db', rep)"
    "qw_db w' = db'" "qw_charges w' = qw_charges w @ batch_charges now (qw_db w) db'" "qw_other w' = qw_other w"
  shows "charges_ok w'"
  using assms(1) persist_batch_charges [OF assms(2)] by (simp add: charges_ok_def assms(3-5))

lemma queue_step_charges:
  assumes "queue_step sha w w'" "charges_ok w"
  shows "charges_ok w'"
  using assms
proof cases
  case (push_fallback c pol wso now db' rep)
  then have "persist_batch sha pol wso now (qw_db w) [c] = Inr (db', rep)" by (simp add: push_direct_def)
  from charges_store [OF assms(2) this] show ?thesis by (simp add: push_fallback(1))
next
  case (commit i xs pol wso now db' rep)
  from charges_store [OF assms(2) commit(4)] show ?thesis by (simp add: commit(1))
next
  case (settings db')
  then show ?thesis using assms(2) by (simp add: charges_ok_def settings_change_def)
qed (simp_all add: charges_ok_def)

lemma queue_reach_charges: "queue_reach sha w \<Longrightarrow> charges_ok w"
proof (induction rule: queue_reach.induct)
  case (start db)
  then show ?case by (simp add: empty_tables_def charges_ok_def start_world_def)
qed (rule queue_step_charges)

text \<open>A preparation leaves a click out when its link has no workspace or its address is excluded.\<close>

definition left_out :: "(string \<Rightarrow> policy) \<Rightarrow> (string \<Rightarrow> string option) \<Rightarrow> click \<Rightarrow> bool" where
  "left_out pol wso c = (\<not> str_truthy (wso (ck_urlId c)) \<or>
     is_excluded_from_analytics (normalize_ip (ck_ip c)) (po_exclusions (pol (the (wso (ck_urlId c))))) = Some True)"

lemma sanitize_none: "sanitize_click sha p ws c = Some None \<Longrightarrow> is_excluded_from_analytics (normalize_ip (ck_ip c)) (po_exclusions p) = Some True"
  by (auto simp: sanitize_click_def Let_def split: option.splits bool.splits if_splits)

lemma prepare_keeps: "prepare_clicks sha pol wso cs = Some ps \<Longrightarrow> c \<in> set cs \<Longrightarrow> ck_id c \<in> set (map ck_id ps) \<or> left_out pol wso c"
proof (induction cs arbitrary: ps)
  case (Cons d cs)
  show ?case
  proof (cases "str_truthy (wso (ck_urlId d))")
    case False
    then show ?thesis using Cons by (auto simp: left_out_def)
  next
    case True
    then obtain r where r: "sanitize_click sha (pol (the (wso (ck_urlId d)))) (the (wso (ck_urlId d))) d = Some r"
      using Cons.prems(1) by (auto simp: Let_def split: option.splits)
    show ?thesis
    proof (cases r)
      case None
      then have "left_out pol wso d" using sanitize_none [of sha "pol (the (wso (ck_urlId d)))"] r by (auto simp: left_out_def)
      moreover have "prepare_clicks sha pol wso cs = Some ps" using Cons.prems(1) True r None by (simp add: Let_def)
      ultimately show ?thesis using Cons.IH Cons.prems(2) by auto
    next
      case (Some safe)
      then obtain qs where qs: "prepare_clicks sha pol wso cs = Some qs" "ps = safe # qs" using Cons.prems(1) True r by (auto simp: Let_def)
      have "ck_id safe = ck_id d" using sanitize_keeps r Some by blast
      then show ?thesis using Cons.IH [OF qs(1)] Cons.prems(2) qs(2) by auto
    qed
  qed
qed simp

lemma dropped_reason: "i \<in> set (dropped_ids sha pol wso cs) \<Longrightarrow> \<exists>c \<in> set cs. ck_id c = i \<and> left_out pol wso c"
proof -
  assume i: "i \<in> set (dropped_ids sha pol wso cs)"
  then obtain ps where p: "prepare_clicks sha pol wso cs = Some ps" by (cases "prepare_clicks sha pol wso cs") (auto simp: dropped_ids_def)
  then obtain c where "c \<in> set cs" "ck_id c = i" "i \<notin> set (map ck_id ps)" using i by (auto simp: dropped_ids_def)
  then show ?thesis using prepare_keeps [OF p] by blast
qed

section \<open>A whole run of the processor\<close>

text \<open>\<open>process_batch\<close> is made of steps of the machine, so all that is shown of the machine holds after it.\<close>

lemma reach_recover: "queue_reach sha w \<Longrightarrow> queue_reach sha (w\<lparr>qw_redis := recover_up_to n (qw_redis w)\<rparr>)"
proof (induction n arbitrary: w)
  case (Suc n)
  have "queue_reach sha (w\<lparr>qw_redis := recover_one (qw_redis w)\<rparr>)" by (rule queue_reach.step [OF Suc.prems queue_step.recover])
  from Suc.IH [OF this] Suc.prems show ?case by simp
qed simp

lemma reach_claims:
  "queue_reach sha w \<Longrightarrow> i < length (qw_workers w) \<Longrightarrow> qw_workers w ! i = Collecting xs \<Longrightarrow> claim_up_to n (qw_redis w) = (r', ys) \<Longrightarrow>
    queue_reach sha (w\<lparr>qw_redis := r', qw_workers := (qw_workers w)[i := Collecting (xs @ ys)]\<rparr>)"
proof (induction n arbitrary: w xs ys)
  case 0
  have "(qw_workers w)[i := Collecting xs] = qw_workers w" using 0 by (metis list_update_id)
  moreover have "r' = qw_redis w" "ys = []" using 0 by simp_all
  ultimately show ?case using 0(1) by simp
next
  case (Suc n)
  show ?case
  proof (cases "claim_one (qw_redis w)")
    case (Pair s y)
    show ?thesis
    proof (cases y)
      case None
      have "(qw_workers w)[i := Collecting xs] = qw_workers w" using Suc by (metis list_update_id)
      moreover have "r' = qw_redis w" "ys = []" using Suc.prems(4) Pair None by (auto simp: claim_one_def split: if_splits)
      ultimately show ?thesis using Suc.prems(1) by simp
    next
      case (Some x)
      let ?w = "w\<lparr>qw_redis := s, qw_workers := (qw_workers w)[i := Collecting (xs @ [x])]\<rparr>"
      obtain zs where z: "claim_up_to n s = (r', zs)" "ys = x # zs" using Suc.prems(4) Pair Some by (auto split: prod.splits)
      have "queue_reach sha ?w"
        by (rule queue_reach.step [OF Suc.prems(1) queue_step.claim [OF Suc.prems(2,3)]]) (use Pair Some in simp)
      from Suc.IH [OF this, of "xs @ [x]" zs] Suc.prems(2) z show ?thesis by simp
    qed
  qed
qed

lemma reach_acks:
  "queue_reach sha w \<Longrightarrow> Committed xs \<in> set (qw_workers w) \<Longrightarrow> set ys \<subseteq> set xs \<Longrightarrow> \<forall>y \<in> set ys. parse_click y \<noteq> None \<Longrightarrow>
    queue_reach sha (w\<lparr>qw_redis := acknowledge (qw_redis w) ys\<rparr>)"
proof (induction ys arbitrary: w)
  case Nil
  then show ?case by (simp add: acknowledge_def)
next
  case (Cons y ys)
  have "queue_reach sha (w\<lparr>qw_redis := acknowledge (qw_redis w) [y]\<rparr>)"
    by (rule queue_reach.step [OF Cons.prems(1) queue_step.ack [OF Cons.prems(2)]]) (use Cons.prems in auto)
  from Cons.IH [OF this] Cons.prems show ?case by (simp add: acknowledge_def)
qed

lemma reach_quarantine:
  "queue_reach sha w \<Longrightarrow> k \<in> set (qw_workers w) \<Longrightarrow> bad_batch k \<Longrightarrow> set ys \<subseteq> set (worker_items k) \<Longrightarrow> \<forall>y \<in> set ys. parse_click y = None \<Longrightarrow>
    queue_reach sha (w\<lparr>qw_redis := quarantine_push (qw_redis w) ys\<rparr>)"
proof (induction ys arbitrary: w)
  case Nil
  then show ?case by (simp add: quarantine_push_def)
next
  case (Cons y ys)
  have "queue_reach sha (w\<lparr>qw_redis := quarantine_push (qw_redis w) [y]\<rparr>)"
    by (rule queue_reach.step [OF Cons.prems(1) queue_step.quarantine [OF Cons.prems(2,3)]]) (use Cons.prems in auto)
  from Cons.IH [OF this] Cons.prems show ?case by (simp add: quarantine_push_def)
qed

lemma reach_quarantine_acks:
  "queue_reach sha w \<Longrightarrow> set ys \<subseteq> set (rq_dlq (qw_redis w)) \<Longrightarrow> \<forall>y \<in> set ys. parse_click y = None \<Longrightarrow>
    queue_reach sha (w\<lparr>qw_redis := acknowledge (qw_redis w) ys\<rparr>)"
proof (induction ys arbitrary: w)
  case Nil
  then show ?case by (simp add: acknowledge_def)
next
  case (Cons y ys)
  have "queue_reach sha (w\<lparr>qw_redis := acknowledge (qw_redis w) [y]\<rparr>)"
    by (rule queue_reach.step [OF Cons.prems(1) queue_step.quarantine_ack]) (use Cons.prems in auto)
  from Cons.IH [OF this] Cons.prems show ?case by (simp add: acknowledge_def)
qed

lemma reach_quarantine_malformed:
  assumes "queue_reach sha w" "k \<in> set (qw_workers w)" "bad_batch k" "set ys \<subseteq> set (worker_items k)" "\<forall>y \<in> set ys. parse_click y = None"
  shows "queue_reach sha (w\<lparr>qw_redis := quarantine_malformed (qw_redis w) ys\<rparr>)"
proof (cases "ys = []")
  case True
  then show ?thesis using assms(1) by (simp add: quarantine_malformed_def)
next
  case False
  note q = reach_quarantine [OF assms]
  have "queue_reach sha (w\<lparr>qw_redis := acknowledge (quarantine_push (qw_redis w) ys) ys\<rparr>)"
    using reach_quarantine_acks [OF q, of ys] assms(5) by simp
  then show ?thesis using False by (simp add: quarantine_malformed_def)
qed

lemma process_batch_reach:
  assumes "queue_reach sha w" "process_batch sha pol wso now (qw_db w) (qw_redis w) = (db', r')"
  shows "\<exists>w'. queue_reach sha w' \<and> qw_db w' = db' \<and> qw_redis w' = r' \<and> qw_accepted w' = qw_accepted w \<and> qw_poison w' = qw_poison w \<and>
     set (qw_dropped w) \<subseteq> set (qw_dropped w')"
proof -
  let ?r0 = "recover_up_to BATCH_SIZE (qw_redis w)"
  let ?ks = "qw_workers w" let ?i = "length ?ks"
  obtain r1 raws where c: "claim_up_to BATCH_SIZE ?r0 = (r1, raws)" by fastforce
  have "queue_reach sha (w\<lparr>qw_redis := ?r0, qw_workers := ?ks @ [Collecting []]\<rparr>)"
    using queue_reach.step [OF reach_recover [OF assms(1)] queue_step.spawn] by simp
  from reach_claims [OF this, of ?i "[]" BATCH_SIZE r1 raws] c
  have w1: "queue_reach sha (w\<lparr>qw_redis := r1, qw_workers := ?ks @ [Collecting raws]\<rparr>)" (is "queue_reach sha ?w1") by simp
  obtain parsed malformed where sp: "split_raws raws = (parsed, malformed)" by fastforce
  have mal: "set malformed \<subseteq> set raws" "\<forall>y \<in> set malformed. parse_click y = None" using sp by (auto simp: split_raws_def)
  show ?thesis
  proof (cases "parsed = []")
    case True
    have "queue_reach sha (?w1\<lparr>qw_redis := quarantine_malformed (qw_redis ?w1) malformed\<rparr>)"
      by (rule reach_quarantine_malformed [OF w1, of "Collecting raws"]) (use sp True mal in \<open>auto simp: bad_batch_def\<close>)
    then show ?thesis using assms(2) c sp True by (intro exI conjI) (assumption, simp_all add: process_batch_def)
  next
    case False
    show ?thesis
    proof (cases "persist_batch sha pol wso now (qw_db w) parsed")
      case (Inl e)
      then show ?thesis using assms(2) c sp False w1 by (intro exI conjI) (rule w1, simp_all add: process_batch_def)
    next
      case (Inr res)
      obtain db1 rep where res: "res = (db1, rep)" by fastforce
      let ?d = "dropped_ids sha pol wso parsed"
      let ?ok = "filter (\<lambda>x. x \<notin> set malformed) raws"
      let ?w2 = "w\<lparr>qw_redis := r1, qw_db := db1, qw_dropped := ?d @ qw_dropped w, qw_workers := ?ks @ [Committed raws],
        qw_charges := qw_charges w @ batch_charges now (qw_db w) db1\<rparr>"
      have w2: "queue_reach sha ?w2"
        using queue_reach.step [OF w1 queue_step.commit [of ?i _ raws sha pol wso now db1 rep]] Inr res sp by simp
      have "queue_reach sha (?w2\<lparr>qw_redis := acknowledge (qw_redis ?w2) ?ok\<rparr>)"
        by (rule reach_acks [OF w2]) (use sp in \<open>auto simp: split_raws_def\<close>)
      from reach_quarantine_malformed [OF this, of "Committed raws" malformed] mal
      have "queue_reach sha (?w2\<lparr>qw_redis := quarantine_malformed (acknowledge r1 ?ok) malformed\<rparr>)" by (simp add: bad_batch_def)
      then show ?thesis using assms(2) c sp False Inr res by (intro exI conjI) (assumption, simp_all add: process_batch_def)
    qed
  qed
qed

section \<open>Clicks are counted once\<close>

text \<open>
  C3: However pushes, fallbacks, workers, crashes, retries and redeliveries interleave, the rows of
  a reachable state have distinct event ids, and the counter of every link, of every link and
  day, of every link, day and dimension value and of every campaign variant is exactly the number of
  stored events it is about.  The clicks charged to workspaces are exactly the stored billable ones
  that no reserved unit covers, each once, and a usage bucket holds one unit for each click charged
  to it besides what other writers put there.  Every accepted click is still waiting in Redis, or is
  stored, or was left out by the preparation of a batch; every malformed entry is still waiting or is
  in the quarantine list.
\<close>

theorem clicks_counted_once:
  assumes "queue_reach sha w"
  shows "distinct (map ck_id (ct_events (qw_db w))) \<and>
    (\<forall>u n. clicks_of (qw_db w) u = Some n \<longrightarrow> n = link_clicks (ct_events (qw_db w)) u) \<and>
    (\<forall>k. number (ct_daily (qw_db w)) k = day_clicks (ct_events (qw_db w)) k) \<and>
    (\<forall>x. number (ct_cells (qw_db w)) x = cell_clicks (ct_events (qw_db w)) x) \<and>
    (\<forall>v n. v \<noteq> [] \<longrightarrow> ct_variants (qw_db w) v = Some n \<longrightarrow> n = variant_clicks (ct_events (qw_db w)) v) \<and>
    map fst (qw_charges w) = map ck_id (filter metered_click (ct_events (qw_db w))) \<and>
    (\<forall>k. bucket_quantity (ct_usage (qw_db w)) k = qw_other w k + int (count_list (map snd (qw_charges w)) (Some k))) \<and>
    (\<forall>c \<in> set (qw_accepted w). click_text c \<in> waiting (qw_redis w) \<or> ck_id c \<in> set (map ck_id (ct_events (qw_db w))) \<or> ck_id c \<in> set (qw_dropped w)) \<and>
    (\<forall>x \<in> set (qw_poison w). x \<in> waiting (qw_redis w) \<or> x \<in> set (rq_dlq (qw_redis w)))"
proof -
  have q: "queue_inv w" using queue_reach_inv [OF assms] .
  note t = tables_okD [OF queue_invD(1) [OF q]]
  show ?thesis
    using t(1,4,5,6,7) queue_invD(4,5) [OF q] queue_reach_charges [OF assms] unfolding charges_ok_def click_settled_def by blast
qed

definition demo_click :: click where
  "demo_click = \<lparr>ck_id = ''e1'', ck_urlId = ''u1'', ck_dateKey = ''2024-05-01'', ck_shortCode = ''abc'', ck_ruleId = Some ''r1'', ck_variantId = None,
    ck_ip = Some ''10.0.0.1'', ck_userAgent = None, ck_referer = None, ck_referrerHost = None, ck_country = Some ''FR'', ck_deviceType = None,
    ck_trafficType = None, ck_aiAgent = None, ck_os = None, ck_browser = None, ck_language = None, ck_utm = [None, None, None, None, None],
    ck_visitorIdHash = None, ck_privacySignal = False, ck_usageReserved = False, ck_nonBillable = False\<rparr>"

definition demo_tables :: "string list \<Rightarrow> click_tables" where
  "demo_tables rules = \<lparr>ct_urls = [''u1'' \<mapsto> \<lparr>lk_workspaceId = Some ''w1'', lk_clicks = 0, lk_maxClicks = None, lk_isActive = True\<rparr>],
    ct_rules = rules, ct_variants = Map.empty, ct_events = [], ct_daily = Map.empty, ct_cells = Map.empty, ct_usage = \<lparr>quotas = (\<lambda>_. None), buckets = (\<lambda>_. None)\<rparr>\<rparr>"

definition demo_stored :: click where
  "demo_stored = demo_click\<lparr>ck_ip := Some ''w1:10.0.0.1''\<rparr>"

lemma demo_prepared: "prepare_clicks id (\<lambda>_. DEFAULT_POLICY) (\<lambda>_. Some ''w1'') [demo_click] = Some [demo_stored]"
proof -
  have "normalize_ip (Some ''10.0.0.1'') = Some ''10.0.0.1''" by code_simp
  then show ?thesis
    by (simp add: sanitize_click_def is_excluded_from_analytics_def DEFAULT_POLICY_def demo_click_def demo_stored_def hash_in_workspace_def)
qed

lemma demo_click_ok: "click_ok demo_click" "plain_click demo_click"
  by (simp_all add: click_ok_def plain_click_def plain_id_def demo_click_def)

lemma demo_start: "empty_tables (demo_tables rules)"
  by (simp add: empty_tables_def demo_tables_def clicks_of_def)

definition demo_raw :: string where "demo_raw = click_text demo_click"

lemma demo_raw_parses [simp]: "parse_click demo_raw = Some demo_click"
  unfolding demo_raw_def by (rule click_roundtrip [OF demo_click_ok(1)])

lemma demo_claims: "claim_up_to BATCH_SIZE (recover_up_to BATCH_SIZE \<lparr>rq_queue = [demo_raw], rq_processing = [], rq_dlq = []\<rparr>) =
    (\<lparr>rq_queue = [], rq_processing = [demo_raw], rq_dlq = []\<rparr>, [demo_raw])"
proof -
  have "claim_up_to (Suc (Suc n)) (recover_up_to (Suc m) \<lparr>rq_queue = [demo_raw], rq_processing = [], rq_dlq = []\<rparr>) =
    (\<lparr>rq_queue = [], rq_processing = [demo_raw], rq_dlq = []\<rparr>, [demo_raw])" for n m by (simp add: claim_one_def)
  from this [of 998 999] show ?thesis by (simp add: BATCH_SIZE_def)
qed

lemma demo_split: "split_raws [demo_raw] = ([demo_click], [])"
  by (simp add: split_raws_def List.map_filter_def)

lemma demo_stored_new: "new_clicks (demo_tables rules) (dedupe_click_ids [demo_stored]) = [demo_stored]"
  by (simp add: new_clicks_def dedupe_click_ids_def demo_tables_def)

lemma demo_persist: "persist_batch id (\<lambda>_. DEFAULT_POLICY) (\<lambda>_. Some ''w1'') now (demo_tables rules) [demo_click] =
    (if ''r1'' \<in> set rules then Inr (apply_clicks now (demo_tables rules) [demo_stored],
       \<lparr>br_invalidated = [], br_count = 1, br_urlIds = [''u1''], br_webhooks = [demo_stored]\<rparr>) else Inl ''P2003'')"
proof -
  have "dedupe_click_ids [demo_stored] = [demo_stored]" by (simp add: dedupe_click_ids_def)
  moreover have "references_ok (demo_tables rules) demo_stored = (''r1'' \<in> set rules)"
    by (simp add: references_ok_def demo_tables_def demo_stored_def demo_click_def)
  moreover have "variant_tally [demo_stored] = []" by (simp add: variant_tally_def tally_def demo_stored_def demo_click_def)
  moreover have "fst (aggregate_clicks [demo_stored]) = [(''u1'', ''abc'', 1)]"
    by (simp add: aggregate_clicks_def tally_def demo_stored_def demo_click_def)
  moreover have "\<not> reached_cap (demo_tables rules) (''u1'', ''abc'', 1)" by (simp add: reached_cap_def demo_tables_def)
  ultimately show ?thesis using demo_stored_new [of rules]
    unfolding persist_batch_def demo_prepared by (simp add: Let_def)
qed

theorem clicks_counted_once_witness:
  "\<exists>w. queue_reach id w \<and> qw_accepted w = [demo_click] \<and> map ck_id (ct_events (qw_db w)) = [''e1''] \<and> waiting (qw_redis w) = {} \<and>
     clicks_of (qw_db w) ''u1'' = Some 1"
proof -
  let ?w = "(start_world (demo_tables [''r1'']))\<lparr>qw_redis := \<lparr>rq_queue = [demo_raw], rq_processing = [], rq_dlq = []\<rparr>, qw_accepted := [demo_click]\<rparr>"
  let ?db = "apply_clicks 0 (demo_tables [''r1'']) [demo_stored]"
  let ?r = "\<lparr>rq_queue = [], rq_processing = [], rq_dlq = []\<rparr>"
  have "queue_reach id ?w"
    using queue_reach.step [OF queue_reach.start [OF demo_start [of "[''r1'']"]] queue_step.push [OF demo_click_ok]]
    by (simp add: start_world_def push_click_def demo_raw_def)
  moreover have "process_batch id (\<lambda>_. DEFAULT_POLICY) (\<lambda>_. Some ''w1'') 0 (qw_db ?w) (qw_redis ?w) = (?db, ?r)"
    by (simp add: process_batch_def demo_claims demo_split demo_persist start_world_def acknowledge_def quarantine_malformed_def)
  ultimately obtain w where w: "queue_reach id w" "qw_db w = ?db" "qw_redis w = ?r" "qw_accepted w = [demo_click]"
    using process_batch_reach [of id ?w] by (metis (no_types, lifting) queue_world.select_convs(4) queue_world.surjective queue_world.update_convs(4))
  have ev: "ct_events (qw_db w) = [demo_stored]" unfolding w(2) apply_clicks_events by (simp add: demo_tables_def)
  moreover obtain n where n: "clicks_of (qw_db w) ''u1'' = Some n" unfolding w(2) apply_clicks_links by (simp add: demo_tables_def clicks_of_def)
  moreover have "n = link_clicks (ct_events (qw_db w)) ''u1''" using clicks_counted_once [OF w(1)] n by blast
  ultimately show ?thesis using w by (intro exI [of _ w]) (simp add: link_clicks_def demo_stored_def demo_click_def waiting_def)
qed

section \<open>A batch that cannot be stored\<close>

lemma recover_up_to_all: "mset (rq_queue (recover_up_to n r) @ rq_processing (recover_up_to n r)) = mset (rq_queue r @ rq_processing r) \<and>
    rq_dlq (recover_up_to n r) = rq_dlq r"
proof (induction n r rule: recover_up_to.induct)
  case (2 n r)
  have "mset (last xs # ys @ butlast xs) = mset (ys @ xs)" if "xs \<noteq> []" for xs ys :: "string list"
    using that by (cases xs rule: rev_cases) simp_all
  then show ?case using 2 by (simp add: recover_one_def)
qed simp

lemma claim_up_to_all: "claim_up_to n r = (s, xs) \<Longrightarrow>
    mset (rq_queue s @ rq_processing s) = mset (rq_queue r @ rq_processing r) \<and> rq_dlq s = rq_dlq r \<and> set xs \<subseteq> set (rq_processing s) \<and>
    set (rq_processing r) \<subseteq> set (rq_processing s)"
proof (induction n arbitrary: r xs)
  case (Suc n)
  show ?case
  proof (cases "rq_queue r = []")
    case True
    then show ?thesis using Suc.prems by (simp add: claim_one_def)
  next
    case False
    let ?t = "r\<lparr>rq_queue := butlast (rq_queue r), rq_processing := last (rq_queue r) # rq_processing r\<rparr>"
    obtain ys where t: "claim_up_to n ?t = (s, ys)" "xs = last (rq_queue r) # ys"
      using Suc.prems False by (auto simp: claim_one_def split: prod.splits)
    have "mset (rq_queue ?t @ rq_processing ?t) = mset (rq_queue r @ rq_processing r)"
      using False by (cases "rq_queue r" rule: rev_cases) simp_all
    then show ?thesis using Suc.IH [OF t(1)] t(2) by simp
  qed
qed simp

text \<open>
  C23: When the transaction of a batch fails, the processor changes no table, quarantines nothing and
  loses nothing: the lists hold the entries they held, and all claimed entries, the malformed ones too,
  are in the processing list for the next worker.
\<close>

theorem failed_batch_keeps_entries:
  assumes "claim_up_to BATCH_SIZE (recover_up_to BATCH_SIZE r) = (r1, raws)" "fst (split_raws raws) \<noteq> []"
    "persist_batch sha pol wso now db (fst (split_raws raws)) = Inl e" "process_batch sha pol wso now db r = (db', r')"
  shows "db' = db \<and> mset (rq_queue r' @ rq_processing r') = mset (rq_queue r @ rq_processing r) \<and> rq_dlq r' = rq_dlq r \<and>
    set raws \<subseteq> set (rq_processing r')"
proof -
  have "db' = db" "r' = r1" using assms by (simp_all add: process_batch_def split: prod.splits)
  then show ?thesis using claim_up_to_all [OF assms(1)] recover_up_to_all [of "BATCH_SIZE" r] by simp
qed

theorem failed_batch_keeps_entries_witness:
  "process_batch id (\<lambda>_. DEFAULT_POLICY) (\<lambda>_. Some ''w1'') 0 (demo_tables []) \<lparr>rq_queue = [demo_raw], rq_processing = [], rq_dlq = []\<rparr> =
    (demo_tables [], \<lparr>rq_queue = [], rq_processing = [demo_raw], rq_dlq = []\<rparr>)"
proof -
  let ?r = "\<lparr>rq_queue = [demo_raw], rq_processing = [], rq_dlq = []\<rparr>"
  obtain db' r' where p: "process_batch id (\<lambda>_. DEFAULT_POLICY) (\<lambda>_. Some ''w1'') 0 (demo_tables []) ?r = (db', r')" by fastforce
  have "db' = demo_tables []" using failed_batch_keeps_entries [OF demo_claims _ _ p, of "''P2003''"] by (simp add: demo_split demo_persist)
  then show ?thesis using p by (simp add: process_batch_def demo_claims demo_split demo_persist)
qed

text \<open>One new click whose rule or variant is gone makes the whole batch fail, every time it is claimed.\<close>

lemma deleted_rule_blocks_batch:
  assumes "prepare_clicks sha pol wso parsed = Some prepared" "c \<in> set (dedupe_click_ids prepared)" "ck_id c \<notin> set (map ck_id (ct_events db))"
    "ck_ruleId c = Some rule" "rule \<notin> set (ct_rules db)"
  shows "persist_batch sha pol wso now db parsed = Inl ''P2003''"
proof -
  let ?items = "new_clicks db (dedupe_click_ids prepared)"
  have "c \<in> set ?items" "\<not> references_ok db c" using assms by (auto simp: new_clicks_def references_ok_def)
  then have "?items \<noteq> []" "\<not> list_all (references_ok db) ?items" by (auto simp: list_all_iff)
  then show ?thesis using assms(1) by (simp add: persist_batch_def Let_def)
qed

text \<open>An address that looks mapped but is not stops the batch of a workspace with exclusions.\<close>

lemma mapped_address_stops_batch: "ip_allowed ''::ffff:999.1.1.1'' [''10.0.0.0/8''] = None"
  by code_simp

end
