(* ===== verification/Totp.thy ===== *)
theory Totp
  imports Bytes JsDate
begin

unbundle bit_operations_syntax

text \<open>
  One-time passwords (\<open>src/lib/totp.ts\<close>): base32 with its 32-bit shift register, the codes of
  RFC 6238, their verification, the provisioning URI, secrets at rest and recovery codes.
  HMAC-SHA1, SHA-256 and AES-256-GCM are arbitrary functions, the random bytes are arguments.
  A thrown \<open>Error\<close> is its message.
\<close>

section \<open>Base32\<close>

type_synonym register = "32 word"

definition B32 :: string where "B32 = ''ABCDEFGHIJKLMNOPQRSTUVWXYZ234567''"

text \<open>The inner loop: the groups of five bits that are complete, and how many bits are left.\<close>

fun b32_emit :: "nat \<Rightarrow> register \<Rightarrow> string \<times> nat" where
  "b32_emit bits value =
     (if bits \<ge> 5
      then (case b32_emit (bits - 5) value of (out, rest) \<Rightarrow>
        (B32 ! unat (drop_bit (bits - 5) value AND 31) # out, rest))
      else ([], bits))"

declare b32_emit.simps [simp del]

fun b32_encode_from :: "nat \<Rightarrow> register \<Rightarrow> byte list \<Rightarrow> string" where
  "b32_encode_from bits value [] = (if bits > 0 then [B32 ! unat (push_bit (5 - bits) value AND 31)] else [])"
| "b32_encode_from bits value (b # bs) =
     (let value' = push_bit 8 value OR ucast b
      in (case b32_emit (bits + 8) value' of (out, bits') \<Rightarrow> out @ b32_encode_from bits' value' bs))"

definition base32_encode :: "byte list \<Rightarrow> string" where
  "base32_encode bs = b32_encode_from 0 0 bs"

fun b32_decode_from :: "nat \<Rightarrow> register \<Rightarrow> string \<Rightarrow> byte list thrown" where
  "b32_decode_from bits value [] = Inr []"
| "b32_decode_from bits value (c # cs) = (case index_of B32 c of
       None \<Rightarrow> Inl ''Invalid base32 secret''
     | Some i \<Rightarrow>
        (let value' = push_bit 5 value OR of_nat i; bits' = bits + 5
         in if bits' \<ge> 8
            then map_sum id ((#) (ucast (drop_bit (bits' - 8) value' AND 255))) (b32_decode_from (bits' - 8) value' cs)
            else b32_decode_from bits' value' cs))"

definition b32_skipped :: "char \<Rightarrow> bool" where
  "b32_skipped c = (is_ws c \<or> c = CHR ''='' \<or> c = CHR ''-'')"

definition base32_decode :: "string \<Rightarrow> byte list thrown" where
  "base32_decode input = b32_decode_from 0 0 (to_upper (filter (\<lambda>c. \<not> b32_skipped c) input))"

definition generate_totp_secret :: "byte list \<Rightarrow> string" where
  "generate_totp_secret random = base32_encode random"

section \<open>Codes\<close>

definition TOTP_STEP_SECONDS :: int where "TOTP_STEP_SECONDS = 30"
definition TOTP_DIGITS :: nat where "TOTP_DIGITS = 6"

type_synonym hmac_sha1 = "byte list \<Rightarrow> byte list \<Rightarrow> byte list"

text \<open>The counter as eight bytes, most significant first.\<close>

definition counter_bytes :: "int \<Rightarrow> byte list" where
  "counter_bytes c = map (\<lambda>i. of_int (c div 256 ^ (7 - i))) [0..<8]"

definition dynamic_truncation :: "byte list \<Rightarrow> register" where
  "dynamic_truncation h =
     (let off = unat ((h ! (length h - 1)) AND 15)
      in push_bit 24 (ucast ((h ! off) AND 127)) OR push_bit 16 (ucast (h ! (off + 1)))
         OR push_bit 8 (ucast (h ! (off + 2))) OR ucast (h ! (off + 3)))"

definition totp_code :: "hmac_sha1 \<Rightarrow> string \<Rightarrow> int \<Rightarrow> string thrown" where
  "totp_code hmac secretB32 counter =
     (if counter < 0 \<or> counter \<ge> 2 ^ 64 then Inl ''RangeError''
      else map_sum id (\<lambda>k. pad_zeros TOTP_DIGITS (unat (dynamic_truncation (hmac k (counter_bytes counter))) mod 10 ^ TOTP_DIGITS))
        (base32_decode secretB32))"

text \<open>Every counter of the window is tried; the first match counts.\<close>

fun scan_counters :: "hmac_sha1 \<Rightarrow> string \<Rightarrow> string \<Rightarrow> int option \<Rightarrow> int list \<Rightarrow> int option thrown" where
  "scan_counters hmac secret token matched [] = Inr matched"
| "scan_counters hmac secret token matched (c # cs) =
     (if c < 0 then scan_counters hmac secret token matched cs
      else (case totp_code hmac secret c of
          Inl e \<Rightarrow> Inl e
        | Inr expected \<Rightarrow> scan_counters hmac secret token (if expected = token \<and> matched = None then Some c else matched) cs))"

definition totp_token :: "string \<Rightarrow> string option" where
  "totp_token code = (let t = filter (\<lambda>c. \<not> is_ws c) code in if length t = 6 \<and> list_all is_digit t then Some t else None)"

definition totp_counter :: "js_date \<Rightarrow> int" where
  "totp_counter now = now div (1000 * TOTP_STEP_SECONDS)"

definition verify_totp :: "hmac_sha1 \<Rightarrow> string \<Rightarrow> string \<Rightarrow> js_date \<Rightarrow> int \<Rightarrow> int option \<Rightarrow> int option thrown" where
  "verify_totp hmac secret code now window lastUsed =
     (case totp_token code of
        None \<Rightarrow> Inr None
      | Some token \<Rightarrow>
         map_sum id (\<lambda>m. case m of
             None \<Rightarrow> None
           | Some c \<Rightarrow> (case lastUsed of Some l \<Rightarrow> if c \<le> l then None else Some c | None \<Rightarrow> Some c))
           (scan_counters hmac secret token None [totp_counter now - window .. totp_counter now + window]))"

section \<open>The provisioning URI\<close>

definition upper_hex :: "nat \<Rightarrow> char" where
  "upper_hex n = (if n < 10 then char_of (n + 48) else char_of (n + 55))"

definition percent_byte :: "byte \<Rightarrow> string" where
  "percent_byte b = [CHR ''%'', upper_hex (unat b div 16), upper_hex (unat b mod 16)]"

definition encode_uri_component :: "string \<Rightarrow> string" where
  "encode_uri_component s = concat (map (\<lambda>c. if is_alnum c \<or> c \<in> set ''-_.!~*()'' \<or> c = CHR 0x27 then [c]
     else concat (map percent_byte (utf8_char c))) s)"

definition form_encode :: "string \<Rightarrow> string" where
  "form_encode s = concat (map (\<lambda>c. if is_alnum c \<or> c \<in> set ''*-._'' then [c] else if c = CHR '' '' then ''+''
     else concat (map percent_byte (utf8_char c))) s)"

definition form_query :: "(string \<times> string) list \<Rightarrow> string" where
  "form_query ps = join_with ''&'' (map (\<lambda>(k, v). form_encode k @ ''='' @ form_encode v) ps)"

definition otpauth_uri :: "string \<Rightarrow> string \<Rightarrow> string \<Rightarrow> string" where
  "otpauth_uri secretB32 account issuer =
     ''otpauth://totp/'' @ encode_uri_component issuer @ '':'' @ encode_uri_component account @ ''?'' @
     form_query [(''secret'', secretB32), (''issuer'', issuer), (''algorithm'', ''SHA1''), (''digits'', nat_dec TOTP_DIGITS),
       (''period'', int_dec TOTP_STEP_SECONDS)]"

section \<open>Secrets at rest\<close>

text \<open>The cipher: ciphertext and tag of a key, an initial vector and a plaintext, and its opening.\<close>

record cipher =
  ci_sha256 :: "byte list \<Rightarrow> byte list"
  ci_seal :: "byte list \<Rightarrow> byte list \<Rightarrow> byte list \<Rightarrow> byte list \<times> byte list"
  ci_open :: "byte list \<Rightarrow> byte list \<Rightarrow> byte list \<Rightarrow> byte list \<Rightarrow> byte list option"

definition mfa_key :: "cipher \<Rightarrow> string option \<Rightarrow> byte list thrown" where
  "mfa_key ci raw = (case raw of
       Some s \<Rightarrow> if length s < 32 then Inl ''QL_MFA_KEY must be set (32+ chars) to use two-factor authentication'' else Inr (ci_sha256 ci (utf8 s))
     | None \<Rightarrow> Inl ''QL_MFA_KEY must be set (32+ chars) to use two-factor authentication'')"

definition encrypt_secret :: "cipher \<Rightarrow> string option \<Rightarrow> byte list \<Rightarrow> string \<Rightarrow> string thrown" where
  "encrypt_secret ci raw iv plain = map_sum id (\<lambda>k. case ci_seal ci k iv (utf8 plain) of (ct, tag) \<Rightarrow>
     join_with ''.'' [''v1'', base64url iv, base64url tag, base64url ct]) (mfa_key ci raw)"

definition decrypt_secret :: "cipher \<Rightarrow> string option \<Rightarrow> string \<Rightarrow> string thrown" where
  "decrypt_secret ci raw blob =
     (case split_on CHR ''.'' blob of
        v # iv # tag # ct # _ \<Rightarrow>
          (if v \<noteq> ''v1'' \<or> iv = [] \<or> tag = [] \<or> ct = [] then Inl ''Unsupported secret format''
           else (case mfa_key ci raw of
               Inl e \<Rightarrow> Inl e
             | Inr k \<Rightarrow> (case Option.bind (ci_open ci k (base64url_decode iv) (base64url_decode tag) (base64url_decode ct)) utf8_decode of
                 None \<Rightarrow> Inl ''Unsupported state or unable to authenticate data''
               | Some plain \<Rightarrow> Inr plain)))
      | _ \<Rightarrow> Inl ''Unsupported secret format'')"

section \<open>Recovery codes\<close>

definition RC_ALPHABET :: string where "RC_ALPHABET = ''ABCDEFGHJKLMNPQRSTUVWXYZ23456789''"

definition recovery_code :: "byte list \<Rightarrow> string" where
  "recovery_code random = (let s = map (\<lambda>b. RC_ALPHABET ! (unat b mod length RC_ALPHABET)) random in take 5 s @ ''-'' @ drop 5 s)"

definition generate_recovery_codes :: "byte list list \<Rightarrow> string list" where
  "generate_recovery_codes randoms = map recovery_code randoms"

definition normalize_recovery_code :: "string \<Rightarrow> string" where
  "normalize_recovery_code code = to_upper (filter (\<lambda>c. \<not> (is_ws c \<or> c = CHR ''-'')) code)"

definition hash_recovery_code :: "(byte list \<Rightarrow> byte list) \<Rightarrow> string \<Rightarrow> string" where
  "hash_recovery_code sha code = hex_text (sha (utf8 (normalize_recovery_code code)))"

section \<open>The register holds the pending bits\<close>

text \<open>The low bits of a word, most significant first, and the bytes and quintets of a bit list.\<close>

definition low_bits :: "nat \<Rightarrow> 'a::len word \<Rightarrow> bool list" where
  "low_bits n w = map (bit w) (rev [0..<n])"

lemma length_low_bits [simp]: "length (low_bits n w) = n"
  by (simp add: low_bits_def)

lemma low_bits_0 [simp]: "low_bits 0 w = []"
  by (simp add: low_bits_def)

lemma low_bits_nth: "i < n \<Longrightarrow> low_bits n w ! i = bit w (n - 1 - i)"
  by (simp add: low_bits_def rev_nth)

lemma low_bits_shift:
  fixes v u :: register
  assumes "n + k \<le> 32" "\<And>i. k \<le> i \<Longrightarrow> \<not> bit u i"
  shows "low_bits (n + k) (push_bit k v OR u) = low_bits n v @ low_bits k u"
proof (rule nth_equalityI)
  fix i assume i: "i < length (low_bits (n + k) (push_bit k v OR u))"
  show "low_bits (n + k) (push_bit k v OR u) ! i = (low_bits n v @ low_bits k u) ! i"
  proof (cases "i < n")
    case True
    have "k \<le> k + n - Suc i \<and> k + n - Suc i < 32 \<and> n + k - Suc i = k + (n - Suc i)" using True assms(1) by linarith
    then show ?thesis using True assms(2) by (simp add: low_bits_nth nth_append bit_simps)
  next
    case False
    then have "n + k - Suc i < k" "k - Suc (i - n) = n + k - Suc i" using i by auto
    then show ?thesis using False i by (simp add: low_bits_nth nth_append bit_simps)
  qed
qed simp

lemma low_bits_take: "k \<le> n \<Longrightarrow> take k (low_bits n v) = low_bits k (drop_bit (n - k) v)" for v :: register
  by (rule nth_equalityI) (simp_all add: low_bits_nth bit_simps algebra_simps)

lemma low_bits_drop: "k \<le> n \<Longrightarrow> drop k (low_bits n v) = low_bits (n - k) v"
  by (rule nth_equalityI) (simp_all add: low_bits_nth)

lemma low_bits_inj: "low_bits LENGTH('a) a = low_bits LENGTH('a) (b :: 'a::len word) \<Longrightarrow> a = b"
proof -
  assume eq: "low_bits LENGTH('a) a = low_bits LENGTH('a) b"
  have "bit a i = bit b i" if "i < LENGTH('a)" for i
  proof -
    have "low_bits LENGTH('a) a ! (LENGTH('a) - 1 - i) = low_bits LENGTH('a) b ! (LENGTH('a) - 1 - i)" using eq by simp
    then show ?thesis using that by (simp add: low_bits_nth)
  qed
  then show ?thesis by (rule bit_word_eqI)
qed

definition quintet :: "nat \<Rightarrow> bool list" where
  "quintet i = low_bits 5 (of_nat i :: register)"

definition octets :: "byte list \<Rightarrow> bool list" where
  "octets bs = concat (map (low_bits 8) bs)"

lemma length_quintet [simp]: "length (quintet i) = 5"
  by (simp add: quintet_def)

lemma octets_simps [simp]: "octets [] = []" "octets (b # bs) = low_bits 8 b @ octets bs"
  by (simp_all add: octets_def)

lemma length_octets: "length (octets bs) = 8 * length bs"
  by (induction bs) simp_all

lemma octets_inj: "length as = length bs \<Longrightarrow> octets as = octets bs \<Longrightarrow> as = bs"
proof (induction as bs rule: list_induct2)
  case (Cons a as b bs)
  then show ?case using low_bits_inj [of a b] by simp
qed simp

lemma low_bits_ucast: "low_bits 8 (ucast b :: register) = low_bits 8 (b :: byte)"
  by (rule nth_equalityI) (auto simp: low_bits_nth bit_simps)

lemma bit_31_int: "bit (31 :: int) i \<longleftrightarrow> i < 5"
proof -
  have m: "(31 :: int) = mask 5" by (simp add: mask_eq_exp_minus_1)
  show ?thesis unfolding m by (simp add: bit_simps)
qed

lemma bit_255_int: "bit (255 :: int) i \<longleftrightarrow> i < 8"
proof -
  have m: "(255 :: int) = mask 8" by (simp add: mask_eq_exp_minus_1)
  show ?thesis unfolding m by (simp add: bit_simps)
qed

lemma unat_group: "unat (w AND 31 :: register) < 32"
proof -
  have "w AND 31 \<le> (31 :: register)" by (rule word_and_le1)
  then have "unat (w AND 31) \<le> unat (31 :: register)" by (rule word_le_nat_alt [THEN iffD1])
  then show ?thesis by simp
qed

lemma quintet_group: "quintet (unat (w AND 31 :: register)) = low_bits 5 w"
proof -
  have "of_nat (unat (w AND 31)) = w AND 31" by simp
  then show ?thesis unfolding quintet_def by (simp only:) (rule nth_equalityI, auto simp: low_bits_nth bit_simps bit_31_int)
qed

lemma emit_spec: "n \<le> 32 \<Longrightarrow> \<exists>is. b32_emit n v = (map ((!) B32) is, n mod 5) \<and> (\<forall>i \<in> set is. i < 32) \<and>
    concat (map quintet is) = take (5 * (n div 5)) (low_bits n v)"
proof (induction n v rule: b32_emit.induct)
  case (1 n v)
  show ?case
  proof (cases "5 \<le> n")
    case False
    then show ?thesis by (subst b32_emit.simps) simp
  next
    case True
    then obtain ks where ks: "b32_emit (n - 5) v = (map ((!) B32) ks, (n - 5) mod 5)" "\<forall>i \<in> set ks. i < 32"
      "concat (map quintet ks) = take (5 * ((n - 5) div 5)) (low_bits (n - 5) v)"
      using 1(1) [OF True] 1(2) by (meson diff_le_self order_trans)
    let ?i = "unat (drop_bit (n - 5) v AND 31)"
    have d: "n div 5 = Suc ((n - 5) div 5)" "n mod 5 = (n - 5) mod 5" using True by (auto simp: le_div_geq le_mod_geq)
    have "concat (map quintet (?i # ks)) = take 5 (low_bits n v) @ take (5 * ((n - 5) div 5)) (drop 5 (low_bits n v))"
      using ks(3) True by (simp add: quintet_group low_bits_take low_bits_drop)
    also have "\<dots> = take (5 * (n div 5)) (low_bits n v)" unfolding d(1) by (simp add: take_add)
    finally have "concat (map quintet (?i # ks)) = take (5 * (n div 5)) (low_bits n v)" .
    moreover have "b32_emit n v = (map ((!) B32) (?i # ks), n mod 5)" using True ks(1) d(2) by (subst b32_emit.simps) simp
    ultimately show ?thesis using ks(2) unat_group by (intro exI [of _ "?i # ks"]) simp
  qed
qed

lemma not_bit_ucast: "8 \<le> i \<Longrightarrow> \<not> bit (ucast (b :: byte) :: register) i"
  by (auto simp: bit_simps dest: bit_imp_le_length)

lemma encode_spec: "n < 5 \<Longrightarrow> \<exists>is pad. b32_encode_from n v bs = map ((!) B32) is \<and> (\<forall>i \<in> set is. i < 32) \<and> length pad < 5 \<and>
    concat (map quintet is) = low_bits n v @ octets bs @ pad"
proof (induction bs arbitrary: n v)
  case Nil
  show ?case
  proof (cases "n = 0")
    case True
    then show ?thesis by (intro exI [of _ "[]"]) simp
  next
    case False
    let ?i = "unat (push_bit (5 - n) v AND 31)"
    have "quintet ?i = low_bits (n + (5 - n)) (push_bit (5 - n) v OR 0)" using Nil by (simp add: quintet_group)
    also have "\<dots> = low_bits n v @ low_bits (5 - n) (0 :: register)" using Nil by (intro low_bits_shift) auto
    finally show ?thesis using False unat_group
      by (intro exI [of _ "[?i]"] exI [of _ "low_bits (5 - n) (0 :: register)"]) simp
  qed
next
  case (Cons b bs)
  let ?v = "push_bit 8 v OR ucast b :: register" and ?n = "n + 8"
  obtain ks where ks: "b32_emit ?n ?v = (map ((!) B32) ks, ?n mod 5)" "\<forall>i \<in> set ks. i < 32"
    "concat (map quintet ks) = take (5 * (?n div 5)) (low_bits ?n ?v)" using emit_spec [of ?n ?v] Cons.prems by auto
  obtain js pad where js: "b32_encode_from (?n mod 5) ?v bs = map ((!) B32) js" "\<forall>i \<in> set js. i < 32" "length pad < 5"
    "concat (map quintet js) = low_bits (?n mod 5) ?v @ octets bs @ pad" using Cons.IH [of "?n mod 5" ?v] by auto
  have "?n - 5 * (?n div 5) = ?n mod 5" by (metis minus_mult_div_eq_mod)
  then have rest: "low_bits (?n mod 5) ?v = drop (5 * (?n div 5)) (low_bits ?n ?v)"
    using low_bits_drop [of "5 * (?n div 5)" ?n ?v] by simp
  have "low_bits ?n ?v = low_bits n v @ low_bits 8 b"
    using low_bits_shift [of n 8 "ucast b" v] Cons.prems not_bit_ucast by (simp add: low_bits_ucast)
  moreover have "concat (map quintet (ks @ js)) = low_bits ?n ?v @ octets bs @ pad"
    using ks(3) js(4) unfolding rest by simp
  ultimately show ?case using ks(1,2) js(1-3) by (intro exI [of _ "ks @ js"] exI [of _ pad]) (auto simp: Let_def)
qed

lemma B32_index: "i < 32 \<Longrightarrow> index_of B32 (B32 ! i) = Some i"
  by (rule index_of_nth) (code_simp, simp add: B32_def)

lemma low_bits_octet: "low_bits 8 (ucast (w AND 255 :: register) :: byte) = low_bits 8 w"
  by (rule nth_equalityI) (auto simp: low_bits_nth bit_simps bit_255_int)

lemma not_bit_of_nat: "i < 32 \<Longrightarrow> 5 \<le> k \<Longrightarrow> \<not> bit (of_nat i :: register) k"
proof -
  assume a: "i < 32" "5 \<le> k"
  have "(2::nat) ^ 5 \<le> 2 ^ k" using a(2) by (intro power_increasing) simp_all
  then have "i div 2 ^ k = 0" using a(1) by simp
  then have "\<not> bit i k" by (simp add: bit_iff_odd)
  then show ?thesis by (simp add: bit_simps)
qed

lemma decode_spec: "n < 8 \<Longrightarrow> \<forall>i \<in> set is. i < 32 \<Longrightarrow> \<exists>bs rest. b32_decode_from n v (map ((!) B32) is) = Inr bs \<and> length rest < 8 \<and>
    low_bits n v @ concat (map quintet is) = octets bs @ rest"
proof (induction "is" arbitrary: n v)
  case Nil
  then show ?case by (intro exI [of _ "[]"] exI [of _ "low_bits n v"]) simp
next
  case (Cons i ks)
  let ?v = "push_bit 5 v OR of_nat i :: register" and ?n = "n + 5"
  have i: "i < 32" using Cons.prems by simp
  have pend: "low_bits ?n ?v = low_bits n v @ quintet i"
    unfolding quintet_def using Cons.prems not_bit_of_nat [OF i] by (intro low_bits_shift) auto
  show ?case
  proof (cases "?n \<ge> 8")
    case False
    then obtain bs rest where "b32_decode_from ?n ?v (map ((!) B32) ks) = Inr bs" "length rest < 8"
      "low_bits ?n ?v @ concat (map quintet ks) = octets bs @ rest" using Cons.IH [of ?n ?v] Cons.prems(2) by (metis list.set_intros(2) not_le)
    then show ?thesis using False pend B32_index [OF i] by (intro exI [of _ bs] exI [of _ rest]) (simp add: Let_def)
  next
    case True
    let ?b = "ucast (drop_bit (?n - 8) ?v AND 255) :: byte"
    have small: "?n - 8 < 8" using Cons.prems(1) by simp
    obtain bs rest where r: "b32_decode_from (?n - 8) ?v (map ((!) B32) ks) = Inr bs" "length rest < 8"
      "low_bits (?n - 8) ?v @ concat (map quintet ks) = octets bs @ rest" using Cons.IH [OF small, of ?v] Cons.prems(2) by (metis list.set_intros(2))
    have split: "low_bits ?n ?v = low_bits 8 ?b @ low_bits (?n - 8) ?v"
      unfolding low_bits_octet low_bits_take [OF True, symmetric] low_bits_drop [OF True, symmetric] by (rule append_take_drop_id [symmetric])
    have "low_bits n v @ concat (map quintet (i # ks)) = low_bits ?n ?v @ concat (map quintet ks)" unfolding pend by simp
    also have "\<dots> = low_bits 8 ?b @ low_bits (?n - 8) ?v @ concat (map quintet ks)" unfolding split append_assoc ..
    finally have "low_bits n v @ concat (map quintet (i # ks)) = octets (?b # bs) @ rest" unfolding r(3) octets_simps append_assoc .
    moreover have "b32_decode_from n v (map ((!) B32) (i # ks)) = Inr (?b # bs)" using True r(1) B32_index [OF i] by (simp add: Let_def)
    ultimately show ?thesis using r(2) by blast
  qed
qed

lemma b32_plain: "i < 32 \<Longrightarrow> \<not> b32_skipped (B32 ! i) \<and> upper_char (B32 ! i) = B32 ! i"
proof -
  assume "i < 32"
  moreover have "list_all (\<lambda>c. \<not> b32_skipped c \<and> upper_char c = c) B32" by code_simp
  moreover have "length B32 = 32" by code_simp
  ultimately show ?thesis by (simp add: list_all_length)
qed

lemma base32_inverse: "base32_decode (base32_encode bs) = Inr bs"
proof -
  obtain ks pad where e: "base32_encode bs = map ((!) B32) ks" "\<forall>i \<in> set ks. i < 32" "length pad < 5"
    "concat (map quintet ks) = octets bs @ pad" using encode_spec [of 0 0 bs] by (auto simp: base32_encode_def)
  have "to_upper (filter (\<lambda>c. \<not> b32_skipped c) (map ((!) B32) ks)) = map ((!) B32) ks"
    using e(2) b32_plain by (induction ks) (simp_all add: to_upper_def)
  moreover obtain as rest where d: "b32_decode_from 0 0 (map ((!) B32) ks) = Inr as" "length rest < 8"
    "octets bs @ pad = octets as @ rest" using decode_spec [of 0 ks 0] e(2,4) by auto
  moreover have "length as = length bs"
  proof -
    have "8 * length bs + length pad = 8 * length as + length rest" using arg_cong [OF d(3), of length] by (simp add: length_octets)
    then show ?thesis using e(3) d(2) by linarith
  qed
  then have "as = bs" using d(3) octets_inj [of as bs] by (simp add: length_octets)
  ultimately show ?thesis by (simp add: base32_decode_def e(1))
qed

text \<open>
  C26: Base32 loses nothing.  Whatever the bytes, and although the 32-bit register drops the high
  bits of what was shifted through it, decoding the encoded secret gives the bytes back.
\<close>

theorem base32_roundtrip: "base32_decode (base32_encode bs) = Inr bs"
  by (rule base32_inverse)

section \<open>Every code has six digits\<close>

lemma length_nat_dec: "n < 10 ^ Suc k \<Longrightarrow> length (nat_dec n) \<le> Suc k"
proof (induction k arbitrary: n)
  case 0
  then show ?case by (simp add: nat_dec_1)
next
  case (Suc k)
  show ?case
  proof (cases "n < 10")
    case False
    have "n div 10 < 10 ^ Suc k" using Suc.prems by (simp add: less_mult_imp_div_less mult.commute)
    then have "length (nat_dec (n div 10)) \<le> Suc k" by (rule Suc.IH)
    then show ?thesis using False by (simp add: nat_dec_more)
  qed (simp add: nat_dec_1)
qed

text \<open>So the constant-time comparison, which throws on texts of different length, never does.\<close>

lemma totp_code_digits: "totp_code hmac secret c = Inr code \<Longrightarrow> length code = 6 \<and> list_all is_digit code"
proof -
  assume a: "totp_code hmac secret c = Inr code"
  then obtain k where "base32_decode secret = Inr k"
    by (cases "base32_decode secret") (simp_all add: totp_code_def split: if_splits)
  then have "code = pad_zeros 6 (unat (dynamic_truncation (hmac k (counter_bytes c))) mod 10 ^ 6)"
    using a by (simp add: totp_code_def TOTP_DIGITS_def split: if_splits)
  then obtain n where n: "code = pad_zeros 6 n" "n < 10 ^ 6" by (metis mod_less_divisor zero_less_numeral zero_less_power)
  have "length (nat_dec n) \<le> 6" using length_nat_dec [of n 5] n(2) by simp
  moreover have "list_all is_digit (nat_dec n)" using nat_dec_digits by (simp add: list_all_iff)
  moreover have "is_digit CHR ''0''" by code_simp
  ultimately show ?thesis by (auto simp: n(1) pad_zeros_def list_all_iff)
qed

text \<open>The truncated value has its sign bit clear, so \<open>%\<close> sees a number that is not negative.\<close>

lemma bit_127_int: "bit (127 :: int) i \<longleftrightarrow> i < 7"
proof -
  have m: "(127 :: int) = mask 7" by (simp add: mask_eq_exp_minus_1)
  show ?thesis unfolding m by (simp add: bit_simps)
qed

lemma truncation_not_negative: "\<not> bit (dynamic_truncation h) 31"
  by (auto simp: dynamic_truncation_def Let_def bit_simps bit_127_int dest: bit_imp_le_length)

section \<open>Secrets open again\<close>

lemma base64url_no_dot: "CHR ''.'' \<notin> set (base64url bs)"
proof -
  have "CHR ''.'' \<notin> set b64_alphabet" by code_simp
  then show ?thesis using base64url_chars [of bs] by blast
qed

lemma base64url_nonempty: "base64url bs = [] \<longleftrightarrow> bs = []"
  by (metis base64url_roundtrip base64url_def list.map_disc_iff sextets.simps(1))

lemma secret_opens:
  assumes key: "mfa_key ci raw = Inr k" and seal: "ci_seal ci k iv (utf8 plain) = (ct, tag)" and opens: "ci_open ci k iv tag ct = Some (utf8 plain)"
    and ne: "iv \<noteq> []" "tag \<noteq> []" "ct \<noteq> []"
  shows "\<exists>blob. encrypt_secret ci raw iv plain = Inr blob \<and> decrypt_secret ci raw blob = Inr plain"
proof -
  let ?ws = "[''v1'', base64url iv, base64url tag, base64url ct]"
  have "CHR ''.'' \<notin> set ''v1''" by simp
  then have "split_on CHR ''.'' (join_with ''.'' ?ws) = ?ws" using base64url_no_dot by (intro split_join) simp_all
  then have "decrypt_secret ci raw (join_with ''.'' ?ws) = Inr plain"
    using key opens ne by (simp add: decrypt_secret_def base64url_nonempty)
  then show ?thesis using key seal by (simp add: encrypt_secret_def)
qed

end
