(* ===== verification/Mfa.thy ===== *)
theory Mfa
  imports Totp
begin

text \<open>
  Two-factor sign-in (\<open>src/lib/mfa.ts\<close>): enrolment, confirmation, the check of a second factor and
  its two guarded updates, recovery codes.  A sign-in reads the user's row and writes later, so
  other sign-ins may come in between: a step relation over any number of them, with the theorem
  that no code is accepted twice.
\<close>

section \<open>Rows\<close>

record mfa_user =
  mu_secretEnc :: "string option"
  mu_enabledAt :: "js_date option"
  mu_lastCounter :: "int option"

record recovery_row =
  rr_codeHash :: string
  rr_usedAt :: "js_date option"

record mfa_db =
  md_user :: "mfa_user option"
  md_codes :: "recovery_row list"

text \<open>What the functions call: the MAC, the hash and the decryption of stored secrets.\<close>

record mfa_env =
  me_hmac :: hmac_sha1
  me_sha :: "byte list \<Rightarrow> byte list"
  me_encrypt :: "string \<Rightarrow> string thrown"
  me_decrypt :: "string \<Rightarrow> string thrown"

section \<open>Enrolment\<close>

definition begin_totp_setup :: "mfa_env \<Rightarrow> byte list \<Rightarrow> string \<Rightarrow> mfa_db \<Rightarrow> (mfa_db \<times> string \<times> string) thrown" where
  "begin_totp_setup env random email db =
     (let secret = generate_totp_secret random
      in (case me_encrypt env secret of
           Inl e \<Rightarrow> Inl e
         | Inr enc \<Rightarrow> (case md_user db of
             None \<Rightarrow> Inl ''P2025''
           | Some u \<Rightarrow> Inr (db\<lparr>md_user := Some (u\<lparr>mu_secretEnc := Some enc, mu_enabledAt := None, mu_lastCounter := None\<rparr>)\<rparr>,
               secret, otpauth_uri secret email ''QuickLink''))))"

definition replace_recovery_codes :: "mfa_env \<Rightarrow> byte list list \<Rightarrow> mfa_db \<Rightarrow> mfa_db \<times> string list" where
  "replace_recovery_codes env randoms db =
     (let codes = generate_recovery_codes randoms
      in (db\<lparr>md_codes := map (\<lambda>c. \<lparr>rr_codeHash = hash_recovery_code (me_sha env) c, rr_usedAt = None\<rparr>) codes\<rparr>, codes))"

definition enable_totp :: "mfa_env \<Rightarrow> byte list list \<Rightarrow> js_date \<Rightarrow> string \<Rightarrow> mfa_db \<Rightarrow> (mfa_db \<times> string list option) thrown" where
  "enable_totp env randoms now code db =
     (case md_user db of
        None \<Rightarrow> Inr (db, None)
      | Some u \<Rightarrow>
         (if \<not> str_truthy (mu_secretEnc u) \<or> mu_enabledAt u \<noteq> None then Inr (db, None)
          else (case me_decrypt env (the (mu_secretEnc u)) of
              Inl e \<Rightarrow> Inl e
            | Inr secret \<Rightarrow> (case verify_totp (me_hmac env) secret code now 1 None of
                Inl e \<Rightarrow> Inl e
              | Inr None \<Rightarrow> Inr (db, None)
              | Inr (Some counter) \<Rightarrow>
                  (case replace_recovery_codes env randoms (db\<lparr>md_user := Some (u\<lparr>mu_enabledAt := Some now, mu_lastCounter := Some counter\<rparr>)\<rparr>) of
                     (db', codes) \<Rightarrow> Inr (db', Some codes))))))"

definition disable_totp :: "mfa_db \<Rightarrow> mfa_db thrown" where
  "disable_totp db = (case md_user db of
       None \<Rightarrow> Inl ''P2025''
     | Some u \<Rightarrow> Inr (db\<lparr>md_codes := [], md_user := Some (u\<lparr>mu_secretEnc := None, mu_enabledAt := None, mu_lastCounter := None\<rparr>)\<rparr>))"

definition regenerate_recovery_codes :: "mfa_env \<Rightarrow> byte list list \<Rightarrow> mfa_db \<Rightarrow> mfa_db \<times> string list" where
  "regenerate_recovery_codes env randoms db = replace_recovery_codes env randoms db"

definition mfa_status :: "mfa_db \<Rightarrow> bool \<times> js_date option \<times> nat" where
  "mfa_status db = (let since = Option.bind (md_user db) mu_enabledAt
     in (since \<noteq> None, since, length (filter (\<lambda>r. rr_usedAt r = None) (md_codes db))))"

section \<open>The check of a second factor\<close>

datatype factor = ByTotp | ByRecovery

text \<open>What the check decides on the row it read: nothing, to advance the counter, or to use a code.\<close>

datatype factor_plan = Refused | Advance int | UseCode string

definition plan_factor :: "mfa_env \<Rightarrow> mfa_user option \<Rightarrow> string \<Rightarrow> js_date \<Rightarrow> factor_plan thrown" where
  "plan_factor env user input now =
     (case user of
        None \<Rightarrow> Inr Refused
      | Some u \<Rightarrow>
         (if \<not> str_truthy (mu_secretEnc u) \<or> mu_enabledAt u = None then Inr Refused
          else (case me_decrypt env (the (mu_secretEnc u)) of
              Inl e \<Rightarrow> Inl e
            | Inr secret \<Rightarrow> (case verify_totp (me_hmac env) secret input now 1 (mu_lastCounter u) of
                Inl e \<Rightarrow> Inl e
              | Inr (Some counter) \<Rightarrow> Inr (Advance counter)
              | Inr None \<Rightarrow> if totp_token input \<noteq> None then Inr Refused
                  else Inr (UseCode (hash_recovery_code (me_sha env) input))))))"

text \<open>The updates: each is one statement with its condition, and succeeds when it changed one row.\<close>

definition advance_counter :: "int \<Rightarrow> mfa_db \<Rightarrow> mfa_db \<times> factor option" where
  "advance_counter counter db = (case md_user db of
       None \<Rightarrow> (db, None)
     | Some u \<Rightarrow> if (case mu_lastCounter u of None \<Rightarrow> True | Some l \<Rightarrow> l < counter)
         then (db\<lparr>md_user := Some (u\<lparr>mu_lastCounter := Some counter\<rparr>)\<rparr>, Some ByTotp) else (db, None))"

definition is_unused :: "string \<Rightarrow> recovery_row \<Rightarrow> bool" where
  "is_unused h r = (rr_codeHash r = h \<and> rr_usedAt r = None)"

definition use_recovery_code :: "string \<Rightarrow> js_date \<Rightarrow> mfa_db \<Rightarrow> mfa_db \<times> factor option" where
  "use_recovery_code h now db =
     (db\<lparr>md_codes := map (\<lambda>r. if is_unused h r then r\<lparr>rr_usedAt := Some now\<rparr> else r) (md_codes db)\<rparr>,
      if length (filter (is_unused h) (md_codes db)) = 1 then Some ByRecovery else None)"

fun write_factor :: "factor_plan \<Rightarrow> js_date \<Rightarrow> mfa_db \<Rightarrow> mfa_db \<times> factor option" where
  "write_factor Refused now db = (db, None)"
| "write_factor (Advance counter) now db = advance_counter counter db"
| "write_factor (UseCode h) now db = use_recovery_code h now db"

definition verify_second_factor :: "mfa_env \<Rightarrow> string \<Rightarrow> js_date \<Rightarrow> mfa_db \<Rightarrow> (mfa_db \<times> factor option) thrown" where
  "verify_second_factor env input now db = map_sum id (\<lambda>p. write_factor p now db) (plan_factor env (md_user db) input now)"

section \<open>Interleaved sign-ins\<close>

text \<open>
  Sign-ins in flight with the input, the time and the plan made from the row they read.  The log
  holds what was accepted, newest first.  Between the enrolment of a secret and the next change of
  it only sign-ins touch the rows.
\<close>

record sign_in =
  si_input :: string
  si_now :: js_date
  si_plan :: factor_plan

record mfa_world =
  mw_db :: mfa_db
  mw_flight :: "sign_in list"
  mw_log :: "sign_in list"

definition remove_nth :: "nat \<Rightarrow> 'a list \<Rightarrow> 'a list" where
  "remove_nth i xs = take i xs @ drop (Suc i) xs"

inductive mfa_step :: "mfa_env \<Rightarrow> mfa_world \<Rightarrow> mfa_world \<Rightarrow> bool" for env where
  sign_in_read: "plan_factor env (md_user (mw_db w)) input now = Inr p \<Longrightarrow>
    mfa_step env w (w\<lparr>mw_flight := \<lparr>si_input = input, si_now = now, si_plan = p\<rparr> # mw_flight w\<rparr>)"
| sign_in_accepted: "i < length (mw_flight w) \<Longrightarrow> s = mw_flight w ! i \<Longrightarrow> write_factor (si_plan s) (si_now s) (mw_db w) = (db', Some f) \<Longrightarrow>
    mfa_step env w (w\<lparr>mw_db := db', mw_flight := remove_nth i (mw_flight w), mw_log := s # mw_log w\<rparr>)"
| sign_in_refused: "i < length (mw_flight w) \<Longrightarrow> s = mw_flight w ! i \<Longrightarrow> write_factor (si_plan s) (si_now s) (mw_db w) = (db', None) \<Longrightarrow>
    mfa_step env w (w\<lparr>mw_db := db', mw_flight := remove_nth i (mw_flight w)\<rparr>)"

inductive mfa_reach :: "mfa_env \<Rightarrow> mfa_user \<Rightarrow> mfa_world \<Rightarrow> bool" for env u where
  enrolled: "md_user db = Some u \<Longrightarrow> mfa_reach env u \<lparr>mw_db = db, mw_flight = [], mw_log = []\<rparr>"
| sign_in: "mfa_reach env u w \<Longrightarrow> mfa_step env w w' \<Longrightarrow> mfa_reach env u w'"

definition used_counters :: "sign_in list \<Rightarrow> int list" where
  "used_counters ss = List.map_filter (\<lambda>s. case si_plan s of Advance c \<Rightarrow> Some c | _ \<Rightarrow> None) ss"

definition used_codes :: "sign_in list \<Rightarrow> string list" where
  "used_codes ss = List.map_filter (\<lambda>s. case si_plan s of UseCode h \<Rightarrow> Some h | _ \<Rightarrow> None) ss"

text \<open>The input of a sign-in is the code of its counter, or the recovery code of its hash.\<close>

definition factor_valid :: "mfa_env \<Rightarrow> mfa_user \<Rightarrow> sign_in \<Rightarrow> bool" where
  "factor_valid env u s = (case si_plan s of
       Refused \<Rightarrow> True
     | Advance c \<Rightarrow> (\<exists>secret code. me_decrypt env (the (mu_secretEnc u)) = Inr secret \<and> totp_token (si_input s) = Some code \<and>
         totp_code (me_hmac env) secret c = Inr code \<and> \<bar>c - totp_counter (si_now s)\<bar> \<le> 1)
     | UseCode h \<Rightarrow> h = hash_recovery_code (me_sha env) (si_input s))"

section \<open>What verification accepts\<close>

lemma scan_counters_match:
  "scan_counters hmac secret token m cs = Inr (Some c) \<Longrightarrow> m = Some c \<or> (c \<in> set cs \<and> totp_code hmac secret c = Inr token)"
proof (induction hmac secret token m cs rule: scan_counters.induct)
  case (2 hmac secret token m d cs)
  show ?case
  proof (cases "d < 0")
    case False
    then obtain e where e: "totp_code hmac secret d = Inr e" using 2(3) by (cases "totp_code hmac secret d") simp_all
    then have "scan_counters hmac secret token (if e = token \<and> m = None then Some d else m) cs = Inr (Some c)" using 2(3) False by simp
    then have "(if e = token \<and> m = None then Some d else m) = Some c \<or> (c \<in> set cs \<and> totp_code hmac secret c = Inr token)"
      using 2(2) [OF False e] by blast
    then show ?thesis using e by (auto split: if_splits)
  qed (use 2 in auto)
qed simp

lemma verify_totp_accepts:
  assumes "verify_totp hmac secret code now 1 l = Inr (Some c)"
  shows "\<exists>t. totp_token code = Some t \<and> totp_code hmac secret c = Inr t \<and> \<bar>c - totp_counter now\<bar> \<le> 1 \<and> (\<forall>k. l = Some k \<longrightarrow> k < c)"
proof -
  obtain t where t: "totp_token code = Some t" using assms by (auto simp: verify_totp_def split: option.splits)
  let ?s = "scan_counters hmac secret t None [totp_counter now - 1 .. totp_counter now + 1]"
  obtain m where m: "?s = Inr m" using assms t by (cases ?s) (simp_all add: verify_totp_def)
  then have "m = Some c \<and> (\<forall>k. l = Some k \<longrightarrow> k < c)" using assms t by (auto simp: verify_totp_def split: option.splits if_splits)
  then show ?thesis using scan_counters_match [of hmac secret t None _ c] m t by fastforce
qed

lemma plan_factor_valid:
  "plan_factor env (Some v) input now = Inr p \<Longrightarrow> mu_secretEnc v = mu_secretEnc u \<Longrightarrow> factor_valid env u \<lparr>si_input = input, si_now = now, si_plan = p\<rparr>"
  by (auto simp: plan_factor_def factor_valid_def split: if_splits sum.splits option.splits dest!: verify_totp_accepts)

section \<open>The invariant\<close>

definition counters_spent :: "mfa_db \<Rightarrow> int list \<Rightarrow> bool" where
  "counters_spent db cs = (sorted_wrt (>) cs \<and> (\<forall>c \<in> set cs. \<exists>v l. md_user db = Some v \<and> mu_lastCounter v = Some l \<and> c \<le> l))"

definition codes_spent :: "mfa_db \<Rightarrow> string list \<Rightarrow> bool" where
  "codes_spent db hs = (distinct hs \<and> (\<forall>h \<in> set hs. filter (is_unused h) (md_codes db) = []))"

definition mfa_inv :: "mfa_env \<Rightarrow> mfa_user \<Rightarrow> mfa_world \<Rightarrow> bool" where
  "mfa_inv env u w \<longleftrightarrow> (\<exists>v. md_user (mw_db w) = Some v \<and> mu_secretEnc v = mu_secretEnc u) \<and>
     (\<forall>s \<in> set (mw_flight w) \<union> set (mw_log w). factor_valid env u s) \<and>
     counters_spent (mw_db w) (used_counters (mw_log w)) \<and> codes_spent (mw_db w) (used_codes (mw_log w))"

lemma advance_effect:
  assumes "advance_counter c db = (db', r)"
  shows "md_codes db' = md_codes db" "map_option mu_secretEnc (md_user db') = map_option mu_secretEnc (md_user db)"
    "counters_spent db cs \<Longrightarrow> counters_spent db' (if r = None then cs else c # cs)"
proof -
  show "md_codes db' = md_codes db" "map_option mu_secretEnc (md_user db') = map_option mu_secretEnc (md_user db)"
    using assms by (auto simp: advance_counter_def split: option.splits if_splits)
  show "counters_spent db cs \<Longrightarrow> counters_spent db' (if r = None then cs else c # cs)"
    using assms by (fastforce simp: advance_counter_def counters_spent_def split: option.splits if_splits)
qed

lemma use_code_effect:
  assumes "use_recovery_code h now db = (db', r)"
  shows "md_user db' = md_user db" "codes_spent db hs \<Longrightarrow> codes_spent db' (if r = None then hs else h # hs)"
proof -
  have db': "db' = db\<lparr>md_codes := map (\<lambda>r. if is_unused h r then r\<lparr>rr_usedAt := Some now\<rparr> else r) (md_codes db)\<rparr>"
    and r: "r \<noteq> None \<Longrightarrow> filter (is_unused h) (md_codes db) \<noteq> []" using assms by (auto simp: use_recovery_code_def split: if_splits)
  show "md_user db' = md_user db" by (simp add: db')
  have gone: "filter (is_unused k) (md_codes db') = []" if "k = h \<or> filter (is_unused k) (md_codes db) = []" for k
    using that by (auto simp: db' filter_empty_conv is_unused_def)
  show "codes_spent db' (if r = None then hs else h # hs)" if "codes_spent db hs"
    using that r gone by (auto simp: codes_spent_def)
qed

lemma used_simps:
  "used_counters [] = []" "used_codes [] = []"
  "used_counters (s # ss) = (case si_plan s of Advance c \<Rightarrow> [c] | _ \<Rightarrow> []) @ used_counters ss"
  "used_codes (s # ss) = (case si_plan s of UseCode h \<Rightarrow> [h] | _ \<Rightarrow> []) @ used_codes ss"
  by (auto simp: used_counters_def used_codes_def List.map_filter_def split: factor_plan.split)

lemma write_effect:
  assumes "write_factor (si_plan s) (si_now s) db = (db', r)" "counters_spent db (used_counters ss)" "codes_spent db (used_codes ss)"
  shows "counters_spent db' (used_counters (if r = None then ss else s # ss)) \<and> codes_spent db' (used_codes (if r = None then ss else s # ss)) \<and>
    map_option mu_secretEnc (md_user db') = map_option mu_secretEnc (md_user db)"
proof (cases "si_plan s")
  case Refused
  then show ?thesis using assms by auto
next
  case (Advance c)
  note e = advance_effect [of c db db' r]
  show ?thesis using assms e Advance by (auto simp: used_simps codes_spent_def)
next
  case (UseCode h)
  note e = use_code_effect [of h "si_now s" db db' r]
  show ?thesis using assms e UseCode by (auto simp: used_simps counters_spent_def)
qed

lemma mfa_step_inv: "mfa_step env w w' \<Longrightarrow> mfa_inv env u w \<Longrightarrow> mfa_inv env u w'"
proof (induction rule: mfa_step.induct)
  case (sign_in_read w input now p)
  then show ?case using plan_factor_valid unfolding mfa_inv_def by fastforce
next
  case (sign_in_accepted i w s db' f)
  have "set (remove_nth i (mw_flight w)) \<subseteq> set (mw_flight w)" by (auto simp: remove_nth_def dest: in_set_takeD in_set_dropD)
  moreover have "s \<in> set (mw_flight w)" using sign_in_accepted by simp
  ultimately show ?case using sign_in_accepted write_effect [OF sign_in_accepted(3), of "mw_log w"] unfolding mfa_inv_def by auto
next
  case (sign_in_refused i w s db')
  have "set (remove_nth i (mw_flight w)) \<subseteq> set (mw_flight w)" by (auto simp: remove_nth_def dest: in_set_takeD in_set_dropD)
  then show ?case using sign_in_refused write_effect [OF sign_in_refused(3), of "mw_log w"] unfolding mfa_inv_def by auto
qed

lemma mfa_reach_inv: "mfa_reach env u w \<Longrightarrow> mfa_inv env u w"
proof (induction rule: mfa_reach.induct)
  case (enrolled db)
  then show ?case by (simp add: mfa_inv_def counters_spent_def codes_spent_def used_simps)
qed (rule mfa_step_inv)

text \<open>
  C25: However sign-ins interleave, no second factor is accepted twice.  The counters of accepted
  one-time codes strictly increase, the accepted recovery codes are distinct, and whatever was
  accepted was the six-digit code of its counter, at most one step from the time of the
  sign-in, or a text with the hash of the recovery code.
\<close>

theorem second_factor_single_use:
  assumes "mfa_reach env u w"
  shows "sorted_wrt (>) (used_counters (mw_log w)) \<and> distinct (used_codes (mw_log w)) \<and> (\<forall>s \<in> set (mw_log w). factor_valid env u s)"
  using mfa_reach_inv [OF assms] by (simp add: mfa_inv_def counters_spent_def codes_spent_def)

definition totp_env :: mfa_env where
  "totp_env = \<lparr>me_hmac = (\<lambda>_ _. replicate 20 0), me_sha = id, me_encrypt = Inr, me_decrypt = (\<lambda>_. Inr (base32_encode [1, 2, 3]))\<rparr>"

definition totp_user :: mfa_user where
  "totp_user = \<lparr>mu_secretEnc = Some ''sealed'', mu_enabledAt = Some 0, mu_lastCounter = None\<rparr>"

lemma totp_env_code: "0 \<le> c \<Longrightarrow> c < 2 ^ 64 \<Longrightarrow> totp_code (me_hmac totp_env) (base32_encode bs) c = Inr ''000000''"
proof -
  have "dynamic_truncation (replicate 20 0) = 0" by (simp add: dynamic_truncation_def)
  moreover have "pad_zeros 6 0 = ''000000''" 
  proof -
    have "replicate 5 x = [x, x, x, x, x]" for x :: char by (simp add: numeral_eq_Suc)
    then show ?thesis by (simp add: pad_zeros_def nat_dec_1 digit_chars)
  qed
  ultimately show "0 \<le> c \<Longrightarrow> c < 2 ^ 64 \<Longrightarrow> ?thesis"
    by (simp add: totp_code_def totp_env_def base32_inverse TOTP_DIGITS_def)
qed

lemma totp_env_plan: "plan_factor totp_env (Some totp_user) ''000 000'' 60000 = Inr (Advance 1)"
proof -
  have "totp_token ''000 000'' = Some ''000000''" by code_simp
  moreover have "totp_counter 60000 = 2" by (simp add: totp_counter_def TOTP_STEP_SECONDS_def)
  moreover have "[1..3] = [1, 2, 3 :: int]" by (simp add: upto.simps)
  ultimately have "verify_totp (me_hmac totp_env) (base32_encode [1, 2, 3]) ''000 000'' 60000 1 None = Inr (Some 1)"
    by (simp add: verify_totp_def totp_env_code)
  then show ?thesis by (simp add: plan_factor_def totp_user_def) (simp add: totp_env_def)
qed

text \<open>Two sign-ins read the row before either writes; the one that writes second is refused.\<close>

theorem second_factor_single_use_witness:
  "\<exists>w. mfa_reach totp_env totp_user w \<and> mw_flight w = [] \<and> length (mw_log w) = 1 \<and> sorted_wrt (>) (used_counters (mw_log w)) \<and>
     totp_code (me_hmac totp_env) (base32_encode [1, 2, 3]) 1 = Inr ''000000''"
proof -
  let ?s = "\<lparr>si_input = ''000 000'', si_now = 60000, si_plan = Advance 1\<rparr>"
  let ?db = "\<lparr>md_user = Some totp_user, md_codes = []\<rparr>"
  let ?db' = "\<lparr>md_user = Some (totp_user\<lparr>mu_lastCounter := Some 1\<rparr>), md_codes = []\<rparr>"
  have "mfa_reach totp_env totp_user \<lparr>mw_db = ?db, mw_flight = [], mw_log = []\<rparr>" by (rule mfa_reach.enrolled) simp
  from mfa_reach.sign_in [OF this mfa_step.sign_in_read [of _ _ "''000 000''" 60000 "Advance 1"]]
  have "mfa_reach totp_env totp_user \<lparr>mw_db = ?db, mw_flight = [?s], mw_log = []\<rparr>" by (simp add: totp_env_plan)
  from mfa_reach.sign_in [OF this mfa_step.sign_in_read [of _ _ "''000 000''" 60000 "Advance 1"]]
  have "mfa_reach totp_env totp_user \<lparr>mw_db = ?db, mw_flight = [?s, ?s], mw_log = []\<rparr>" by (simp add: totp_env_plan)
  from mfa_reach.sign_in [OF this mfa_step.sign_in_accepted [of 0 _ ?s ?db' ByTotp]]
  have "mfa_reach totp_env totp_user \<lparr>mw_db = ?db', mw_flight = [?s], mw_log = [?s]\<rparr>"
    by (simp add: advance_counter_def totp_user_def remove_nth_def)
  from mfa_reach.sign_in [OF this mfa_step.sign_in_refused [of 0 _ ?s ?db']]
  have r: "mfa_reach totp_env totp_user \<lparr>mw_db = ?db', mw_flight = [], mw_log = [?s]\<rparr>"
    by (simp add: advance_counter_def totp_user_def remove_nth_def)
  have "sorted_wrt (>) (used_counters [?s]) \<and> factor_valid totp_env totp_user ?s" using second_factor_single_use [OF r] by simp
  then have "sorted_wrt (>) (used_counters [?s]) \<and> (\<exists>code. totp_token ''000 000'' = Some code \<and> totp_code (me_hmac totp_env) (base32_encode [1, 2, 3]) 1 = Inr code)"
    by (auto simp: factor_valid_def totp_env_def totp_user_def)
  moreover have "totp_token ''000 000'' = Some ''000000''" by code_simp
  ultimately show ?thesis using r by (intro exI [of _ "\<lparr>mw_db = ?db', mw_flight = [], mw_log = [?s]\<rparr>"]) simp
qed

end
