(* ===== verification/Webhooks.thy ===== *)
theory Webhooks
  imports StripeEvents TenantUsage JsonText
begin

text \<open>
  Webhooks: which links fire an endpoint and the parsing of such filters
  (\<open>src/lib/webhook-filters.ts\<close>), the fan-out of an event into delivery rows, scopes, backoff and
  signatures (\<open>src/lib/webhooks.ts\<close>), the rotation of signing secrets
  (\<open>src/lib/webhook-secret-rotation.ts\<close>) and the automatic disabling of failing endpoints
  (\<open>src/lib/webhook-health.ts\<close>).  A delivery is identified by its position in the table.
\<close>

section \<open>Endpoints and links\<close>

record webhook_endpoint =
  ep_id :: string
  ep_url :: string
  ep_workspaceId :: "string option"
  ep_userId :: "string option"
  ep_events :: "string list"
  ep_isActive :: bool
  ep_secret :: string
  ep_previousSecret :: "string option"
  ep_previousSecretExpiresAt :: "js_date option"
  ep_linkScope :: string
  ep_tagFilter :: "string list"
  ep_urlIdFilter :: "string list"
  ep_folderIdFilter :: "string list"

record hook_link =
  hl_id :: string
  hl_workspaceId :: "string option"
  hl_userId :: "string option"
  hl_tags :: "string list"
  hl_folderId :: "string option"

definition WEBHOOK_LINK_SCOPES :: "string list" where
  "WEBHOOK_LINK_SCOPES = [''all'', ''tags'', ''links'', ''folders'']"

definition normalize_tag :: "string \<Rightarrow> string" where
  "normalize_tag tag = to_lower (trim tag)"

definition endpoint_matches_link :: "webhook_endpoint \<Rightarrow> hook_link \<Rightarrow> bool" where
  "endpoint_matches_link e l =
     (if ep_linkScope e = ''all'' then True
      else if ep_linkScope e = ''tags'' then
        (if ep_tagFilter e = [] \<or> hl_tags l = [] then False
         else list_ex (\<lambda>t. normalize_tag t \<in> set (map normalize_tag (ep_tagFilter e))) (hl_tags l))
      else if ep_linkScope e = ''links'' then hl_id l \<in> set (ep_urlIdFilter e)
      else if ep_linkScope e = ''folders'' then str_truthy (hl_folderId l) \<and> the (hl_folderId l) \<in> set (ep_folderIdFilter e)
      else False)"

section \<open>Filter input\<close>

definition MAX_WEBHOOK_TAG_FILTERS :: nat where "MAX_WEBHOOK_TAG_FILTERS = 50"
definition MAX_WEBHOOK_LINK_FILTERS :: nat where "MAX_WEBHOOK_LINK_FILTERS = 500"
definition MAX_WEBHOOK_FOLDER_FILTERS :: nat where "MAX_WEBHOOK_FOLDER_FILTERS = 50"

record link_filter =
  lf_linkScope :: string
  lf_tagFilter :: "string list"
  lf_shortCodes :: "string list"
  lf_folderIds :: "string list"

fun filter_entries :: "string \<Rightarrow> nat \<Rightarrow> string list \<Rightarrow> json list \<Rightarrow> string list thrown" where
  "filter_entries f maxLen out [] = Inr out"
| "filter_entries f maxLen out (v # vs) = (case v of
       JStr s \<Rightarrow>
         (let t = trim s
          in if t = [] then filter_entries f maxLen out vs
             else if length t > maxLen then Inl (f @ '' entries must be at most '' @ nat_dec maxLen @ '' characters'')
             else filter_entries f maxLen (if t \<in> set out then out else out @ [t]) vs)
     | _ \<Rightarrow> Inl (f @ '' must be an array of strings''))"

definition filter_strings :: "json option \<Rightarrow> string \<Rightarrow> nat \<Rightarrow> nat \<Rightarrow> string list thrown" where
  "filter_strings v f maxCount maxLen =
     (if nullish v then Inr []
      else (case v of
          Some (JArr xs) \<Rightarrow> (case filter_entries f maxLen [] xs of
              Inl e \<Rightarrow> Inl e
            | Inr out \<Rightarrow> if length out > maxCount then Inl (f @ '' accepts at most '' @ nat_dec maxCount @ '' entries'') else Inr out)
        | _ \<Rightarrow> Inl (f @ '' must be an array of strings'')))"

definition parse_link_filter_input :: "json \<Rightarrow> link_filter thrown" where
  "parse_link_filter_input input =
     (case (if nullish (jget input ''linkScope'') then Some ''all'' else jstr (jget input ''linkScope'')) of
        None \<Rightarrow> Inl (''linkScope must be one of: '' @ join_with '', '' WEBHOOK_LINK_SCOPES)
      | Some scope \<Rightarrow>
         (if scope \<notin> set WEBHOOK_LINK_SCOPES then Inl (''linkScope must be one of: '' @ join_with '', '' WEBHOOK_LINK_SCOPES)
          else (case filter_strings (jget input ''tags'') ''tags'' MAX_WEBHOOK_TAG_FILTERS 64 of
              Inl e \<Rightarrow> Inl e
            | Inr tags \<Rightarrow> (case filter_strings (jget input ''shortCodes'') ''shortCodes'' MAX_WEBHOOK_LINK_FILTERS 128 of
                Inl e \<Rightarrow> Inl e
              | Inr shortCodes \<Rightarrow> (case filter_strings (jget input ''folderIds'') ''folderIds'' MAX_WEBHOOK_FOLDER_FILTERS 64 of
                  Inl e \<Rightarrow> Inl e
                | Inr folderIds \<Rightarrow>
                    if scope = ''tags'' \<and> tags = [] then Inl ''linkScope \"tags\" needs at least one tag''
                    else if scope = ''links'' \<and> shortCodes = [] then Inl ''linkScope \"links\" needs at least one short code''
                    else if scope = ''folders'' \<and> folderIds = [] then Inl ''linkScope \"folders\" needs at least one folder''
                    else Inr \<lparr>lf_linkScope = scope,
                      lf_tagFilter = (if scope = ''tags'' then uniq (map normalize_tag tags) else []),
                      lf_shortCodes = (if scope = ''links'' then shortCodes else []),
                      lf_folderIds = (if scope = ''folders'' then folderIds else [])\<rparr>)))))"

section \<open>Fan-out\<close>

datatype delivery_status = Pending | Success | Failed

record delivery =
  de_endpointId :: string
  de_event :: string
  de_payload :: string
  de_status :: delivery_status
  de_attempts :: nat
  de_createdAt :: js_date
  de_nextAttemptAt :: "js_date option"
  de_leaseToken :: "nat option"
  de_leaseUntil :: "js_date option"
  de_responseCode :: "nat option"
  de_responseBody :: "string option"
  de_lastAttemptAt :: "js_date option"
  de_replayOfId :: "nat option"

definition new_delivery :: "string \<Rightarrow> string \<Rightarrow> string \<Rightarrow> js_date \<Rightarrow> nat option \<Rightarrow> delivery" where
  "new_delivery endpointId event payload now replayOf =
     \<lparr>de_endpointId = endpointId, de_event = event, de_payload = payload, de_status = Pending, de_attempts = 0, de_createdAt = now,
      de_nextAttemptAt = Some now, de_leaseToken = None, de_leaseUntil = None, de_responseCode = None, de_responseBody = None,
      de_lastAttemptAt = None, de_replayOfId = replayOf\<rparr>"

record webhook_db =
  wb_links :: "hook_link list"
  wb_endpoints :: "webhook_endpoint list"
  wb_deliveries :: "delivery list"
  wb_usage :: usage_db

type_synonym planned = "string \<times> string option \<times> json"

text \<open>An endpoint of a workspace serves the links of that workspace; a personal one those of its user.\<close>

definition same_tenant :: "webhook_endpoint \<Rightarrow> hook_link \<Rightarrow> bool" where
  "same_tenant e l = (if ep_workspaceId e \<noteq> None then ep_workspaceId e = hl_workspaceId l
     else ep_userId e \<noteq> None \<and> ep_userId e = hl_userId l)"

definition find_link :: "hook_link list \<Rightarrow> string \<Rightarrow> hook_link option" where
  "find_link links u = find (\<lambda>l. hl_id l = u) (rev links)"

definition plan_webhook_fanout :: "(string \<times> json) list \<Rightarrow> hook_link list \<Rightarrow> webhook_endpoint list \<Rightarrow> planned list" where
  "plan_webhook_fanout items links endpoints =
     concat (map (\<lambda>(u, payload). case find_link links u of
         None \<Rightarrow> []
       | Some l \<Rightarrow> map (\<lambda>e. (ep_id e, ep_workspaceId e, payload)) (filter (\<lambda>e. same_tenant e l \<and> endpoint_matches_link e l) endpoints)) items)"

text \<open>The reads: the links of the event and the active endpoints of their owners.\<close>

definition fanout_links :: "webhook_db \<Rightarrow> (string \<times> json) list \<Rightarrow> hook_link list" where
  "fanout_links db items = filter (\<lambda>l. hl_id l \<in> set (map fst items)) (wb_links db)"

definition truthy_ids :: "string option list \<Rightarrow> string list" where
  "truthy_ids xs = uniq (concat (map (\<lambda>x. if str_truthy x then [the x] else []) xs))"

definition fanout_endpoints :: "webhook_db \<Rightarrow> string \<Rightarrow> hook_link list \<Rightarrow> webhook_endpoint list" where
  "fanout_endpoints db event links =
     (let workspaceIds = truthy_ids (map hl_workspaceId links); userIds = truthy_ids (map hl_userId links)
      in filter (\<lambda>e. ep_isActive e \<and> event \<in> set (ep_events e) \<and>
           ((\<exists>w \<in> set workspaceIds. ep_workspaceId e = Some w) \<or> (\<exists>u \<in> set userIds. ep_userId e = Some u))) (wb_endpoints db))"

definition planned_workspaces :: "planned list \<Rightarrow> string list" where
  "planned_workspaces planned = truthy_ids (map (fst \<circ> snd) planned)"

definition planned_for :: "string \<Rightarrow> planned list \<Rightarrow> nat" where
  "planned_for w planned = length (filter (\<lambda>p. fst (snd p) = Some w) planned)"

text \<open>One reservation per workspace, in sorted order; the workspaces it refuses.\<close>

fun reserve_fanout :: "usage_db \<Rightarrow> js_date \<Rightarrow> planned list \<Rightarrow> string list \<Rightarrow> (usage_db \<times> string list) thrown" where
  "reserve_fanout us now planned [] = Inr (us, [])"
| "reserve_fanout us now planned (w # ws) =
     (case reserve_usage us now w WebhookDeliveries (int (planned_for w planned)) of
        Inl e \<Rightarrow> Inl e
      | Inr (us1, r) \<Rightarrow> (case reserve_fanout us1 now planned ws of
          Inl e \<Rightarrow> Inl e
        | Inr (us2, blocked) \<Rightarrow> Inr (us2, if ures_allowed r then blocked else w # blocked)))"

definition admitted_plan :: "string list \<Rightarrow> planned list \<Rightarrow> planned list" where
  "admitted_plan blocked planned = filter (\<lambda>p. \<not> str_truthy (fst (snd p)) \<or> the (fst (snd p)) \<notin> set blocked) planned"

definition dispatch_webhooks_for_urls :: "webhook_db \<Rightarrow> js_date \<Rightarrow> string \<Rightarrow> (string \<times> json) list \<Rightarrow> (webhook_db \<times> nat \<times> nat) thrown" where
  "dispatch_webhooks_for_urls db now event items =
     (let links = fanout_links db items; planned = plan_webhook_fanout items links (fanout_endpoints db event links)
      in if planned = [] then Inr (db, 0, 0)
         else (case reserve_fanout (wb_usage db) now planned (sort_strings (planned_workspaces planned)) of
             Inl e \<Rightarrow> Inl e
           | Inr (us, blocked) \<Rightarrow>
              (let admitted = admitted_plan blocked planned
               in Inr (db\<lparr>wb_usage := us, wb_deliveries := wb_deliveries db @
                    map (\<lambda>(e, _, payload). new_delivery e event (json_text payload) now None) admitted\<rparr>,
                  length admitted, length planned - length admitted))))"

definition dispatch_webhooks_for_url :: "webhook_db \<Rightarrow> js_date \<Rightarrow> string \<Rightarrow> string \<Rightarrow> json \<Rightarrow> (webhook_db \<times> nat \<times> nat) thrown" where
  "dispatch_webhooks_for_url db now urlId event payload = dispatch_webhooks_for_urls db now event [(urlId, payload)]"

text \<open>A single delivery, as the test and replay routes enqueue it.\<close>

definition enqueue_webhook :: "webhook_db \<Rightarrow> js_date \<Rightarrow> string \<Rightarrow> string \<Rightarrow> string \<Rightarrow> nat option \<Rightarrow> webhook_db thrown" where
  "enqueue_webhook db now endpointId event payload replayOf =
     (case find (\<lambda>e. ep_id e = endpointId) (wb_endpoints db) of
        None \<Rightarrow> Inl ''Webhook endpoint not found''
      | Some e \<Rightarrow>
         (let row = new_delivery endpointId event payload now replayOf
          in if str_truthy (ep_workspaceId e)
             then (case reserve_usage (wb_usage db) now (the (ep_workspaceId e)) WebhookDeliveries 1 of
                 Inl er \<Rightarrow> Inl er
               | Inr (us, r) \<Rightarrow> if \<not> ures_allowed r then Inl ''Webhook delivery quota exceeded''
                   else Inr (db\<lparr>wb_usage := us, wb_deliveries := wb_deliveries db @ [row]\<rparr>))
             else Inr (db\<lparr>wb_deliveries := wb_deliveries db @ [row]\<rparr>)))"

section \<open>Scopes and backoff\<close>

datatype endpoint_scope = OfWorkspace string | OfUser string

definition webhook_endpoint_scope :: "string option \<Rightarrow> string option \<Rightarrow> endpoint_scope list option" where
  "webhook_endpoint_scope workspaceId userId =
     (if str_truthy workspaceId \<and> str_truthy userId then Some [OfWorkspace (the workspaceId), OfUser (the userId)]
      else if str_truthy workspaceId then Some [OfWorkspace (the workspaceId)]
      else if str_truthy userId then Some [OfUser (the userId)] else None)"

definition WEBHOOK_MAX_RETRIES :: nat where "WEBHOOK_MAX_RETRIES = 5"

definition webhook_backoff_ms :: "nat \<Rightarrow> int" where
  "webhook_backoff_ms attempt = 5 ^ (max 1 attempt) * 60000"

section \<open>Signatures\<close>

definition generate_webhook_signature :: "crypto \<Rightarrow> string \<Rightarrow> string \<Rightarrow> string" where
  "generate_webhook_signature cr payload secret = hex_text (cr_hmac cr secret payload)"

definition verify_webhook_signature :: "crypto \<Rightarrow> string \<Rightarrow> string \<Rightarrow> string \<Rightarrow> bool" where
  "verify_webhook_signature cr payload secret signature =
     (payload \<noteq> [] \<and> secret \<noteq> [] \<and> signature \<noteq> [] \<and> utf8 signature = utf8 (generate_webhook_signature cr payload secret))"

definition WEBHOOK_SIGNATURE_TOLERANCE_SECONDS :: int where "WEBHOOK_SIGNATURE_TOLERANCE_SECONDS = 300"

definition timestamped_mac :: "crypto \<Rightarrow> string \<Rightarrow> int \<Rightarrow> string \<Rightarrow> string" where
  "timestamped_mac cr secret t payload = hex_text (cr_hmac cr secret (int_dec t @ ''.'' @ payload))"

definition sign_webhook_payload :: "crypto \<Rightarrow> string \<Rightarrow> string \<Rightarrow> int \<Rightarrow> string" where
  "sign_webhook_payload cr payload secret t = ''t='' @ int_dec t @ '',v1='' @ timestamped_mac cr secret t payload"

definition sign_webhook_payload_multi :: "crypto \<Rightarrow> string \<Rightarrow> string list \<Rightarrow> int \<Rightarrow> string" where
  "sign_webhook_payload_multi cr payload secrets t =
     ''t='' @ int_dec t @ '','' @ join_with '','' (map (\<lambda>s. ''v1='' @ timestamped_mac cr s t payload) secrets)"

fun webhook_parts :: "nat option \<Rightarrow> string list \<Rightarrow> string list \<Rightarrow> nat option \<times> string list" where
  "webhook_parts t cs [] = (t, cs)"
| "webhook_parts t cs (p # ps) = (case header_part p of
       None \<Rightarrow> webhook_parts t cs ps
     | Some (key, v) \<Rightarrow>
        if key = ''t'' \<and> v \<noteq> [] \<and> length v \<le> 12 \<and> list_all is_digit v then webhook_parts (Some (dec_val v)) cs ps
        else if key = ''v1'' \<and> is_hex64 v \<and> list_all (\<lambda>c. \<not> is_upper c) v then webhook_parts t (cs @ [v]) ps
        else webhook_parts t cs ps)"

definition verify_timestamped_webhook_signature :: "crypto \<Rightarrow> string \<Rightarrow> string \<Rightarrow> string \<Rightarrow> int \<Rightarrow> int \<Rightarrow> bool" where
  "verify_timestamped_webhook_signature cr payload secret header nowSeconds tolerance =
     (payload \<noteq> [] \<and> secret \<noteq> [] \<and> header \<noteq> [] \<and>
      (case webhook_parts None [] (split_on CHR '','' header) of (t, cs) \<Rightarrow> (case t of
          None \<Rightarrow> False
        | Some n \<Rightarrow> cs \<noteq> [] \<and> \<bar>nowSeconds - int n\<bar> \<le> tolerance \<and>
            list_ex (\<lambda>c. utf8 c = utf8 (timestamped_mac cr secret (int n) payload)) cs)))"

section \<open>Secret rotation\<close>

definition MIN_GRACE_HOURS :: int where "MIN_GRACE_HOURS = 0"
definition MAX_GRACE_HOURS :: int where "MAX_GRACE_HOURS = 168"
definition DEFAULT_GRACE_HOURS :: int where "DEFAULT_GRACE_HOURS = 24"

definition generate_webhook_secret :: "byte list \<Rightarrow> string" where
  "generate_webhook_secret random = hex_text random"

definition active_webhook_secrets :: "webhook_endpoint \<Rightarrow> js_date \<Rightarrow> string list" where
  "active_webhook_secrets e now = ep_secret e #
     (if str_truthy (ep_previousSecret e) \<and> (case ep_previousSecretExpiresAt e of None \<Rightarrow> False | Some x \<Rightarrow> x > now)
      then [the (ep_previousSecret e)] else [])"

definition parse_grace_hours :: "json option \<Rightarrow> int thrown" where
  "parse_grace_hours input =
     (if nullish input then Inr DEFAULT_GRACE_HOURS
      else (case input of
          Some (JInt n) \<Rightarrow> if n < MIN_GRACE_HOURS \<or> n > MAX_GRACE_HOURS
            then Inl (''graceHours must be between '' @ int_dec MIN_GRACE_HOURS @ '' and '' @ int_dec MAX_GRACE_HOURS) else Inr n
        | _ \<Rightarrow> Inl ''graceHours must be an integer''))"

definition build_rotation :: "string \<Rightarrow> int \<Rightarrow> js_date \<Rightarrow> webhook_endpoint \<Rightarrow> webhook_endpoint" where
  "build_rotation newSecret graceHours now e =
     e\<lparr>ep_secret := newSecret, ep_previousSecret := (if graceHours > 0 then Some (ep_secret e) else None),
       ep_previousSecretExpiresAt := (if graceHours > 0 then Some (now + graceHours * 3600000) else None)\<rparr>"

section \<open>Endpoint health\<close>

definition WEBHOOK_DISABLE_MIN_FAILURES :: nat where "WEBHOOK_DISABLE_MIN_FAILURES = 10"
definition WEBHOOK_DISABLE_MIN_SPAN_MS :: int where "WEBHOOK_DISABLE_MIN_SPAN_MS = 24 * 60 * 60 * 1000"

definition failed_streak :: "(delivery_status \<times> js_date) list \<Rightarrow> (delivery_status \<times> js_date) list" where
  "failed_streak recent = takeWhile (\<lambda>d. fst d = Failed) recent"

definition should_disable_endpoint :: "(delivery_status \<times> js_date) list \<Rightarrow> js_date \<Rightarrow> bool" where
  "should_disable_endpoint recent now =
     (let s = failed_streak recent
      in if length s < WEBHOOK_DISABLE_MIN_FAILURES then False else now - snd (last s) \<ge> WEBHOOK_DISABLE_MIN_SPAN_MS)"

text \<open>The settled deliveries of an endpoint, newest first: creation time, then id.\<close>

fun insert_newest :: "nat \<times> delivery \<Rightarrow> (nat \<times> delivery) list \<Rightarrow> (nat \<times> delivery) list" where
  "insert_newest x [] = [x]"
| "insert_newest x (y # ys) =
     (if de_createdAt (snd x) > de_createdAt (snd y) \<or> (de_createdAt (snd x) = de_createdAt (snd y) \<and> fst x > fst y) then x # y # ys
      else y # insert_newest x ys)"

definition newest_first :: "(nat \<times> delivery) list \<Rightarrow> (nat \<times> delivery) list" where
  "newest_first xs = foldr insert_newest xs []"

definition recent_settled :: "webhook_db \<Rightarrow> string \<Rightarrow> (delivery_status \<times> js_date) list" where
  "recent_settled db endpointId =
     map (\<lambda>x. (de_status (snd x), de_createdAt (snd x)))
       (take (WEBHOOK_DISABLE_MIN_FAILURES + 5)
         (newest_first (filter (\<lambda>x. de_endpointId (snd x) = endpointId \<and> de_status (snd x) \<noteq> Pending) (enumerate 0 (wb_deliveries db)))))"

definition disable_endpoint :: "webhook_db \<Rightarrow> string \<Rightarrow> webhook_db \<times> bool" where
  "disable_endpoint db endpointId =
     (db\<lparr>wb_endpoints := map (\<lambda>e. if ep_id e = endpointId then e\<lparr>ep_isActive := False\<rparr> else e) (wb_endpoints db)\<rparr>,
      list_ex (\<lambda>e. ep_id e = endpointId \<and> ep_isActive e) (wb_endpoints db))"

definition evaluate_endpoint_health :: "webhook_db \<Rightarrow> string \<Rightarrow> js_date \<Rightarrow> webhook_db \<times> bool" where
  "evaluate_endpoint_health db endpointId now =
     (if should_disable_endpoint (recent_settled db endpointId) now then disable_endpoint db endpointId else (db, False))"

end
