(* ===== verification/WebhookFanout.thy ===== *)
theory WebhookFanout
  imports Webhooks Totp
begin

text \<open>
  What the fan-out of an event guarantees (\<open>src/lib/webhooks.ts\<close>): tenant isolation, the quota of
  each workspace and completeness; and that a signing secret can be rotated without a gap
  (\<open>src/lib/webhook-secret-rotation.ts\<close>).
\<close>

section \<open>Who gets an event\<close>

lemma find_link_Some: "find_link links u = Some l \<Longrightarrow> l \<in> set links \<and> hl_id l = u"
  by (auto simp: find_link_def find_Some_iff) (metis nth_mem set_rev length_rev)

lemma find_link_distinct: "distinct (map hl_id links) \<Longrightarrow> l \<in> set links \<Longrightarrow> find_link links (hl_id l) = Some l"
proof -
  assume d: "distinct (map hl_id links)" and l: "l \<in> set links"
  have "find_link links (hl_id l) \<noteq> None" using l by (auto simp: find_link_def find_None_iff)
  then obtain m where "find_link links (hl_id l) = Some m" by blast
  then show ?thesis using find_link_Some d l by (metis inj_on_contraD distinct_map)
qed

lemma plan_member: "(i, w, payload) \<in> set (plan_webhook_fanout items links endpoints) \<longleftrightarrow>
    (\<exists>u l e. (u, payload) \<in> set items \<and> find_link links u = Some l \<and> e \<in> set endpoints \<and> i = ep_id e \<and> w = ep_workspaceId e \<and>
      same_tenant e l \<and> endpoint_matches_link e l)"
  (is "?L = ?R")
proof
  assume ?L
  then obtain u p where up: "(u, p) \<in> set items" "(i, w, payload) \<in> set (case find_link links u of None \<Rightarrow> []
      | Some l \<Rightarrow> map (\<lambda>e. (ep_id e, ep_workspaceId e, p)) (filter (\<lambda>e. same_tenant e l \<and> endpoint_matches_link e l) endpoints))"
    by (auto simp: plan_webhook_fanout_def)
  then show ?R by (cases "find_link links u") auto
next
  assume ?R
  then obtain u l e where "(u, payload) \<in> set items" "find_link links u = Some l" "e \<in> set endpoints" "i = ep_id e" "w = ep_workspaceId e"
    "same_tenant e l" "endpoint_matches_link e l" by blast
  then show ?L by (auto simp: plan_webhook_fanout_def intro!: bexI [of _ "(u, payload)"])
qed

lemma set_truthy_ids: "x \<in> set (truthy_ids xs) \<longleftrightarrow> x \<noteq> [] \<and> Some x \<in> set xs"
proof
  assume "x \<in> set (truthy_ids xs)"
  then show "x \<noteq> [] \<and> Some x \<in> set xs" by (auto simp: truthy_ids_def str_truthy_iff split: if_splits)
next
  assume "x \<noteq> [] \<and> Some x \<in> set xs"
  then show "x \<in> set (truthy_ids xs)" by (auto simp: truthy_ids_def str_truthy_iff intro!: bexI [of _ "Some x"])
qed

section \<open>Reservations\<close>

definition delivery_bucket :: "js_date \<Rightarrow> string \<Rightarrow> bucket_key" where
  "delivery_bucket now w = (w, WebhookDeliveries, usage_period_key now)"

definition has_room :: "usage_db \<Rightarrow> js_date \<Rightarrow> string \<Rightarrow> nat \<Rightarrow> bool" where
  "has_room us now w n = (case quotas us w of None \<Rightarrow> True
     | Some q \<Rightarrow> bucket_quantity us (delivery_bucket now w) + int n \<le> webhookDeliveriesPerMonth q)"

lemma reserve_fanout_effect:
  assumes "reserve_fanout us now planned ws = Inr (us', blocked)" "distinct ws"
  shows "quotas us' = quotas us \<and> set blocked = {w \<in> set ws. \<not> has_room us now w (planned_for w planned)} \<and>
    (\<forall>w. bucket_quantity us' (delivery_bucket now w) = bucket_quantity us (delivery_bucket now w) +
       (if w \<in> set ws \<and> w \<notin> set blocked then int (planned_for w planned) else 0))"
  using assms
proof (induction ws arbitrary: us us' blocked)
  case (Cons w ws)
  obtain us1 r where r: "reserve_usage us now w WebhookDeliveries (int (planned_for w planned)) = Inr (us1, r)"
    using Cons.prems(1) by (auto split: sum.splits)
  obtain bs where bs: "reserve_fanout us1 now planned ws = Inr (us', bs)" "blocked = (if ures_allowed r then bs else w # bs)"
    using Cons.prems(1) r by (auto split: sum.splits)
  note e = reserve_usage_effect [OF r]
  have ih: "quotas us' = quotas us1 \<and> set bs = {w \<in> set ws. \<not> has_room us1 now w (planned_for w planned)} \<and>
    (\<forall>w. bucket_quantity us' (delivery_bucket now w) = bucket_quantity us1 (delivery_bucket now w) +
       (if w \<in> set ws \<and> w \<notin> set bs then int (planned_for w planned) else 0))" using Cons.IH [OF bs(1)] Cons.prems(2) by simp
  have al: "ures_allowed r \<longleftrightarrow> has_room us now w (planned_for w planned)" using e(3) by (simp add: has_room_def delivery_bucket_def split: option.splits)
  have b1: "bucket_quantity us1 (delivery_bucket now v) = bucket_quantity us (delivery_bucket now v) +
      (if v = w \<and> ures_allowed r then int (planned_for w planned) else 0)" for v
    using e(4) [of "delivery_bucket now v"] by (auto simp: delivery_bucket_def)
  have other: "has_room us1 now v n = has_room us now v n" if "v \<noteq> w" for v n using that b1 [of v] e(1) by (simp add: has_room_def split: option.split)
  have w: "w \<notin> set ws" using Cons.prems(2) by simp
  have "quotas us' = quotas us" using ih e(1) by simp
  moreover have "set blocked = {v \<in> set (w # ws). \<not> has_room us now v (planned_for v planned)}"
  proof -
    have "has_room us1 now v (planned_for v planned) = has_room us now v (planned_for v planned)" if "v \<in> set ws" for v
      using other [of v "planned_for v planned"] w that by blast
    then have "set bs = {v \<in> set ws. \<not> has_room us now v (planned_for v planned)}" using ih by blast
    then show ?thesis using al by (auto simp: bs(2))
  qed
  moreover have "bucket_quantity us' (delivery_bucket now v) = bucket_quantity us (delivery_bucket now v) +
       (if v \<in> set (w # ws) \<and> v \<notin> set blocked then int (planned_for v planned) else 0)" for v
  proof (cases "v = w")
    case True
    have "w \<notin> set bs" using ih w by blast
    then have "bucket_quantity us' (delivery_bucket now w) = bucket_quantity us1 (delivery_bucket now w)" using ih w by simp
    then show ?thesis using True b1 [of w] \<open>w \<notin> set bs\<close> by (simp add: bs(2))
  next
    case False
    then show ?thesis using ih b1 [of v] by (simp add: bs(2))
  qed
  ultimately show ?case by blast
qed simp

lemma reserve_fanout_total: "\<forall>w \<in> set ws. 0 < planned_for w planned \<Longrightarrow> \<exists>x. reserve_fanout us now planned ws = Inr x"
proof (induction ws arbitrary: us)
  case (Cons w ws)
  obtain x where "reserve_usage us now w WebhookDeliveries (int (planned_for w planned)) = Inr x"
    using Cons.prems by (simp add: reserve_usage_def Let_def) (metis (no_types, lifting))
  then obtain us1 r where r: "reserve_usage us now w WebhookDeliveries (int (planned_for w planned)) = Inr (us1, r)" by (cases x) simp
  then show ?case using Cons.IH [of us1] Cons.prems by fastforce
qed simp

section \<open>The property\<close>

definition fanout_plan :: "webhook_db \<Rightarrow> string \<Rightarrow> (string \<times> json) list \<Rightarrow> planned list" where
  "fanout_plan db event items = plan_webhook_fanout items (fanout_links db items) (fanout_endpoints db event (fanout_links db items))"

definition plain_ids :: "webhook_db \<Rightarrow> bool" where
  "plain_ids db \<longleftrightarrow> distinct (map hl_id (wb_links db)) \<and> distinct (map ep_id (wb_endpoints db)) \<and>
     (\<forall>l \<in> set (wb_links db). hl_workspaceId l \<noteq> Some [] \<and> hl_userId l \<noteq> Some [])"

text \<open>An endpoint that must hear of an event of a link.\<close>

definition subscribed :: "webhook_endpoint \<Rightarrow> string \<Rightarrow> hook_link \<Rightarrow> bool" where
  "subscribed e event l = (ep_isActive e \<and> event \<in> set (ep_events e) \<and> same_tenant e l \<and> endpoint_matches_link e l)"

lemma distinct_filter_map: "distinct (map f xs) \<Longrightarrow> distinct (map f (filter P xs))"
  by (induction xs) auto

lemma fanout_plan_member:
  assumes "plain_ids db"
  shows "(i, w, payload) \<in> set (fanout_plan db event items) \<longleftrightarrow>
    (\<exists>l \<in> set (wb_links db). \<exists>e \<in> set (wb_endpoints db). (hl_id l, payload) \<in> set items \<and> i = ep_id e \<and> w = ep_workspaceId e \<and> subscribed e event l)"
proof -
  let ?ls = "fanout_links db items"
  have dl: "distinct (map hl_id ?ls)" using assms by (simp add: plain_ids_def fanout_links_def distinct_filter_map)
  have fl: "find_link ?ls u = Some l \<longleftrightarrow> l \<in> set (wb_links db) \<and> hl_id l = u" if "(u, payload) \<in> set items" for u l
  proof -
    have "u \<in> set (map fst items)" using that by force
    then have "l \<in> set ?ls \<longleftrightarrow> l \<in> set (wb_links db)" if "hl_id l = u" using that by (simp add: fanout_links_def)
    then show ?thesis using find_link_Some [of ?ls u l] find_link_distinct [OF dl, of l] by blast
  qed
  have scope: "e \<in> set (fanout_endpoints db event ?ls) \<longleftrightarrow> e \<in> set (wb_endpoints db) \<and> ep_isActive e \<and> event \<in> set (ep_events e)"
    if t: "same_tenant e l" "l \<in> set ?ls" for e l
  proof -
    have l: "hl_workspaceId l \<noteq> Some [] \<and> hl_userId l \<noteq> Some []" using assms t(2) by (simp add: plain_ids_def fanout_links_def)
    have "(\<exists>w \<in> set (truthy_ids (map hl_workspaceId ?ls)). ep_workspaceId e = Some w) \<or> (\<exists>u \<in> set (truthy_ids (map hl_userId ?ls)). ep_userId e = Some u)"
    proof (cases "ep_workspaceId e")
      case None
      then obtain u where "ep_userId e = Some u" "hl_userId l = Some u" using t(1) by (cases "ep_userId e") (simp_all add: same_tenant_def)
      then show ?thesis using l t(2) by (auto simp: set_truthy_ids image_iff intro!: bexI [of _ l] bexI [of _ u])
    next
      case (Some w)
      then have "hl_workspaceId l = Some w" using t(1) by (simp add: same_tenant_def)
      then show ?thesis using l t(2) Some by (auto simp: set_truthy_ids image_iff intro!: bexI [of _ l] bexI [of _ w])
    qed
    then show ?thesis by (auto simp: fanout_endpoints_def Let_def)
  qed
  show ?thesis (is "?L = ?R")
  proof
    assume ?L
    then obtain u l e where m: "(u, payload) \<in> set items" "find_link ?ls u = Some l" "e \<in> set (fanout_endpoints db event ?ls)" "i = ep_id e"
      "w = ep_workspaceId e" "same_tenant e l" "endpoint_matches_link e l" unfolding fanout_plan_def plan_member by blast
    have lin: "l \<in> set ?ls" using find_link_Some [OF m(2)] by simp
    have "l \<in> set (wb_links db)" "hl_id l = u" using fl [OF m(1), of l] m(2) by blast+
    moreover have "e \<in> set (wb_endpoints db) \<and> subscribed e event l" using scope [OF m(6) lin] m(3,6,7) by (simp add: subscribed_def)
    ultimately show ?R using m(1,4,5) by (intro bexI [of _ l] bexI [of _ e]) simp_all
  next
    assume ?R
    then obtain l e where m: "l \<in> set (wb_links db)" "e \<in> set (wb_endpoints db)" "(hl_id l, payload) \<in> set items" "i = ep_id e"
      "w = ep_workspaceId e" "subscribed e event l" by blast
    have f: "find_link ?ls (hl_id l) = Some l" using fl [OF m(3)] m(1) by simp
    have "l \<in> set ?ls" using find_link_Some [OF f] by simp
    then have "e \<in> set (fanout_endpoints db event ?ls)" using scope [of e l] m(2,6) by (simp add: subscribed_def)
    then show ?L unfolding fanout_plan_def plan_member using m f by (auto simp: subscribed_def)
  qed
qed

text \<open>The deliveries of a plan, and those of a workspace.\<close>

definition planned_delivery :: "string \<Rightarrow> js_date \<Rightarrow> planned \<Rightarrow> delivery" where
  "planned_delivery event now p = new_delivery (fst p) event (json_text (snd (snd p))) now None"

definition of_workspace :: "webhook_db \<Rightarrow> string \<Rightarrow> delivery \<Rightarrow> bool" where
  "of_workspace db w d = (\<exists>e \<in> set (wb_endpoints db). ep_id e = de_endpointId d \<and> ep_workspaceId e = Some w)"

lemma planned_workspaces_set: "w \<in> set (planned_workspaces planned) \<longleftrightarrow> w \<noteq> [] \<and> 0 < planned_for w planned"
  proof -
  have "Some w \<in> set (map (fst \<circ> snd) planned) \<longleftrightarrow> (\<exists>p \<in> set planned. fst (snd p) = Some w)" by (auto simp: image_iff eq_commute)
  then show ?thesis unfolding planned_workspaces_def set_truthy_ids planned_for_def length_greater_0_conv filter_empty_conv by blast
qed

lemma planned_endpoint:
  assumes "plain_ids db" "p \<in> set (fanout_plan db event items)"
  shows "of_workspace db w (planned_delivery event now p) \<longleftrightarrow> fst (snd p) = Some w"
proof -
  obtain i v payload where p: "p = (i, v, payload)" by (cases p) auto
  obtain e where e: "e \<in> set (wb_endpoints db)" "i = ep_id e" "v = ep_workspaceId e" using assms fanout_plan_member [OF assms(1)] p by blast
  have "f = e" if "f \<in> set (wb_endpoints db)" "ep_id f = ep_id e" for f
    using that e(1) assms(1) by (auto simp: plain_ids_def distinct_map dest: inj_onD)
  then show ?thesis using e by (auto simp: of_workspace_def planned_delivery_def new_delivery_def p)
qed

lemma dispatch_shape:
  assumes "dispatch_webhooks_for_urls db now event items = Inr (db', enqueued, dropped)"
  defines "plan \<equiv> fanout_plan db event items"
  obtains blocked where "wb_deliveries db' = wb_deliveries db @ map (planned_delivery event now) (admitted_plan blocked plan)"
    "enqueued = length (admitted_plan blocked plan)" "enqueued + dropped = length plan"
    "set blocked = {w \<in> set (planned_workspaces plan). \<not> has_room (wb_usage db) now w (planned_for w plan)}"
    "\<And>w. bucket_quantity (wb_usage db') (delivery_bucket now w) = bucket_quantity (wb_usage db) (delivery_bucket now w) +
       (if w \<in> set (planned_workspaces plan) \<and> w \<notin> set blocked then int (planned_for w plan) else 0)"
proof (cases "plan = []")
  case True
  then have "db' = db" "enqueued = 0" "dropped = 0" using assms(1) by (simp_all add: dispatch_webhooks_for_urls_def Let_def fanout_plan_def plan_def)
  then show thesis using that [of "[]"] True by (simp add: admitted_plan_def planned_workspaces_def truthy_ids_def)
next
  case False
  have rows: "map (\<lambda>(e, _, payload). new_delivery e event (json_text payload) now None) ps = map (planned_delivery event now) ps" for ps :: "planned list"
    by (auto simp: planned_delivery_def)
  obtain us blocked where r: "reserve_fanout (wb_usage db) now plan (sort_strings (planned_workspaces plan)) = Inr (us, blocked)"
    and db': "db' = db\<lparr>wb_usage := us, wb_deliveries := wb_deliveries db @ map (planned_delivery event now) (admitted_plan blocked plan)\<rparr>"
    and n: "enqueued = length (admitted_plan blocked plan)" "dropped = length plan - length (admitted_plan blocked plan)"
    using assms(1) False by (auto simp: dispatch_webhooks_for_urls_def Let_def fanout_plan_def [symmetric] plan_def [symmetric] rows split: sum.splits prod.splits)
  have d: "distinct (sort_strings (planned_workspaces plan))" by (simp add: planned_workspaces_def truthy_ids_def)
  have "length (admitted_plan blocked plan) \<le> length plan" by (simp add: admitted_plan_def)
  then show thesis using reserve_fanout_effect [OF r d] n by (intro that [of blocked]) (simp_all add: db')
qed

lemma admitted_iff:
  assumes "set blocked = {w \<in> set (planned_workspaces plan). \<not> has_room us now w (planned_for w plan)}" "p \<in> set plan"
  shows "p \<in> set (admitted_plan blocked plan) \<longleftrightarrow> (\<forall>w. fst (snd p) = Some w \<and> w \<noteq> [] \<longrightarrow> has_room us now w (planned_for w plan))"
proof (cases "str_truthy (fst (snd p))")
  case True
  then obtain w where w: "fst (snd p) = Some w" "w \<noteq> []" by (auto simp: str_truthy_iff)
  then have "0 < planned_for w plan" using assms(2) by (auto simp: planned_for_def filter_empty_conv)
  then have "w \<in> set (planned_workspaces plan)" using w by (simp add: planned_workspaces_set)
  then show ?thesis using assms w True by (simp add: admitted_plan_def)
next
  case False
  then show ?thesis using assms(2) by (auto simp: admitted_plan_def str_truthy_iff)
qed

lemma workspace_count:
  assumes "plain_ids db" "w \<noteq> []" and b: "set blocked = {w \<in> set (planned_workspaces (fanout_plan db event items)). \<not> has_room us now w (planned_for w (fanout_plan db event items))}"
  shows "length (filter (of_workspace db w) (map (planned_delivery event now) (admitted_plan blocked (fanout_plan db event items)))) =
    (if w \<in> set (planned_workspaces (fanout_plan db event items)) \<and> w \<notin> set blocked then planned_for w (fanout_plan db event items) else 0)"
proof -
  let ?plan = "fanout_plan db event items"
  have sub: "set (admitted_plan blocked ?plan) \<subseteq> set ?plan" by (auto simp: admitted_plan_def)
  have "length (filter (of_workspace db w) (map (planned_delivery event now) (admitted_plan blocked ?plan))) =
      length (filter (\<lambda>p. of_workspace db w (planned_delivery event now p)) (admitted_plan blocked ?plan))" by (simp add: filter_map comp_def)
  also have "filter (\<lambda>p. of_workspace db w (planned_delivery event now p)) (admitted_plan blocked ?plan) =
      filter (\<lambda>p. fst (snd p) = Some w) (admitted_plan blocked ?plan)"
    using planned_endpoint [OF assms(1)] sub by (intro filter_cong) auto
  also have "filter (\<lambda>p. fst (snd p) = Some w) (admitted_plan blocked ?plan) =
      (if w \<in> set blocked then [] else filter (\<lambda>p. fst (snd p) = Some w) ?plan)"
    using assms(2) by (auto simp: admitted_plan_def filter_empty_conv str_truthy_iff intro!: filter_cong)
  finally show ?thesis using assms(2) by (auto simp: planned_workspaces_set planned_for_def)
qed

text \<open>
  C28: The fan-out of an event delivers to exactly the right endpoints.  A new delivery is made for
  every active endpoint that subscribes to the event, belongs to the workspace or user of the
  link and whose filter accepts the link, unless the workspace of the endpoint has no room for
  all of its deliveries; and for no other.  The usage of a workspace grows by its new deliveries.
\<close>

theorem webhook_fanout_isolated:
  assumes "plain_ids db" "dispatch_webhooks_for_urls db now event items = Inr (db', enqueued, dropped)"
  shows "\<exists>new. wb_deliveries db' = wb_deliveries db @ new \<and> length new = enqueued \<and> enqueued + dropped = length (fanout_plan db event items) \<and>
    (\<forall>d. d \<in> set new \<longleftrightarrow> (\<exists>l \<in> set (wb_links db). \<exists>e \<in> set (wb_endpoints db). \<exists>payload.
        (hl_id l, payload) \<in> set items \<and> subscribed e event l \<and> d = new_delivery (ep_id e) event (json_text payload) now None \<and>
        (\<forall>w. ep_workspaceId e = Some w \<and> w \<noteq> [] \<longrightarrow> has_room (wb_usage db) now w (planned_for w (fanout_plan db event items))))) \<and>
    (\<forall>w. w \<noteq> [] \<longrightarrow> bucket_quantity (wb_usage db') (delivery_bucket now w) =
        bucket_quantity (wb_usage db) (delivery_bucket now w) + int (length (filter (of_workspace db w) new)))"
proof -
  let ?plan = "fanout_plan db event items"
  obtain blocked where b: "wb_deliveries db' = wb_deliveries db @ map (planned_delivery event now) (admitted_plan blocked ?plan)"
    "enqueued = length (admitted_plan blocked ?plan)" "enqueued + dropped = length ?plan"
    "set blocked = {w \<in> set (planned_workspaces ?plan). \<not> has_room (wb_usage db) now w (planned_for w ?plan)}"
    "\<And>w. bucket_quantity (wb_usage db') (delivery_bucket now w) = bucket_quantity (wb_usage db) (delivery_bucket now w) +
       (if w \<in> set (planned_workspaces ?plan) \<and> w \<notin> set blocked then int (planned_for w ?plan) else 0)"
    using dispatch_shape [OF assms(2)] by blast
  let ?new = "map (planned_delivery event now) (admitted_plan blocked ?plan)"
  have sub: "set (admitted_plan blocked ?plan) \<subseteq> set ?plan" by (auto simp: admitted_plan_def)
  have who: "d \<in> set ?new \<longleftrightarrow> (\<exists>l \<in> set (wb_links db). \<exists>e \<in> set (wb_endpoints db). \<exists>payload.
        (hl_id l, payload) \<in> set items \<and> subscribed e event l \<and> d = new_delivery (ep_id e) event (json_text payload) now None \<and>
        (\<forall>w. ep_workspaceId e = Some w \<and> w \<noteq> [] \<longrightarrow> has_room (wb_usage db) now w (planned_for w ?plan)))" (is "?L = ?R") for d
  proof
    assume ?L
    then obtain i w payload where p: "(i, w, payload) \<in> set (admitted_plan blocked ?plan)" "d = new_delivery i event (json_text payload) now None"
      by (auto simp: planned_delivery_def)
    then have pl: "(i, w, payload) \<in> set ?plan" using sub by blast
    then obtain l e where le: "l \<in> set (wb_links db)" "e \<in> set (wb_endpoints db)" "(hl_id l, payload) \<in> set items" "i = ep_id e" "w = ep_workspaceId e"
      "subscribed e event l" using fanout_plan_member [OF assms(1)] by blast
    have "\<forall>v. w = Some v \<and> v \<noteq> [] \<longrightarrow> has_room (wb_usage db) now v (planned_for v ?plan)" using admitted_iff [OF b(4) pl] p(1) by simp
    then show ?R using p(2) le by (intro bexI [of _ l] bexI [of _ e] exI [of _ payload]) simp_all
  next
    assume ?R
    then obtain l e payload where le: "l \<in> set (wb_links db)" "e \<in> set (wb_endpoints db)" "(hl_id l, payload) \<in> set items" "subscribed e event l"
      "d = new_delivery (ep_id e) event (json_text payload) now None"
      "\<forall>w. ep_workspaceId e = Some w \<and> w \<noteq> [] \<longrightarrow> has_room (wb_usage db) now w (planned_for w ?plan)" by blast
    let ?p = "(ep_id e, ep_workspaceId e, payload)"
    have pl: "?p \<in> set ?plan" unfolding fanout_plan_member [OF assms(1)] using le by blast
    have "?p \<in> set (admitted_plan blocked ?plan)" using admitted_iff [OF b(4) pl] le(6) by simp
    moreover have "d = planned_delivery event now ?p" by (simp add: planned_delivery_def le(5))
    ultimately show ?L by (metis image_eqI set_map)
  qed
  have count: "length (filter (of_workspace db w) ?new) = (if w \<in> set (planned_workspaces ?plan) \<and> w \<notin> set blocked then planned_for w ?plan else 0)"
    if "w \<noteq> []" for w
    by (rule workspace_count [OF assms(1) that b(4)])
  show ?thesis by (intro exI [of _ ?new]) (use b who count in auto)
qed

definition demo_hooks :: webhook_db where
  "demo_hooks = \<lparr>wb_links = [\<lparr>hl_id = ''u1'', hl_workspaceId = Some ''w1'', hl_userId = Some ''alice'', hl_tags = [''Promo ''], hl_folderId = None\<rparr>],
     wb_endpoints = [\<lparr>ep_id = ''e1'', ep_url = ''https://a'', ep_workspaceId = Some ''w1'', ep_userId = None, ep_events = [''link.clicked''], ep_isActive = True,
         ep_secret = ''s'', ep_previousSecret = None, ep_previousSecretExpiresAt = None, ep_linkScope = ''tags'', ep_tagFilter = [''promo''],
         ep_urlIdFilter = [], ep_folderIdFilter = []\<rparr>,
       \<lparr>ep_id = ''e2'', ep_url = ''https://b'', ep_workspaceId = Some ''w2'', ep_userId = Some ''alice'', ep_events = [''link.clicked''], ep_isActive = True,
         ep_secret = ''s'', ep_previousSecret = None, ep_previousSecretExpiresAt = None, ep_linkScope = ''all'', ep_tagFilter = [],
         ep_urlIdFilter = [], ep_folderIdFilter = []\<rparr>],
     wb_deliveries = [], wb_usage = \<lparr>quotas = (\<lambda>_. None), buckets = (\<lambda>_. None)\<rparr>\<rparr>"

lemma demo_hooks_plain: "plain_ids demo_hooks"
  by (simp add: plain_ids_def demo_hooks_def)

lemma demo_tag: "normalize_tag ''Promo '' = normalize_tag ''promo''"
  by code_simp

text \<open>Both endpoints are reachable through the owners of the link, only one is of its tenant.\<close>

lemma demo_fanout_plan: "fanout_plan demo_hooks ''link.clicked'' [(''u1'', JNull)] = [(''e1'', Some ''w1'', JNull)]"
  by (simp add: fanout_plan_def plan_webhook_fanout_def fanout_links_def fanout_endpoints_def find_link_def truthy_ids_def uniq_def
      same_tenant_def endpoint_matches_link_def demo_hooks_def demo_tag)

lemma demo_dispatch: "\<exists>db'. dispatch_webhooks_for_urls demo_hooks 0 ''link.clicked'' [(''u1'', JNull)] = Inr (db', 1, 0)"
proof -
  let ?plan = "[(''e1'', Some ''w1'', JNull)] :: planned list"
  have w: "sort_strings (planned_workspaces ?plan) = [''w1'']" by (simp add: planned_workspaces_def truthy_ids_def uniq_def sort_strings_def)
  obtain us where "reserve_fanout (wb_usage demo_hooks) 0 ?plan [''w1''] = Inr (us, [])"
    by (auto simp: planned_for_def reserve_usage_def Let_def demo_hooks_def)
  then show ?thesis using demo_fanout_plan w by (simp add: dispatch_webhooks_for_urls_def Let_def fanout_plan_def admitted_plan_def)
qed

theorem webhook_fanout_isolated_witness:
  "\<exists>db'. dispatch_webhooks_for_urls demo_hooks 0 ''link.clicked'' [(''u1'', JNull)] = Inr (db', 1, 0) \<and>
     length (wb_deliveries db') = 1 \<and> (\<forall>d \<in> set (wb_deliveries db'). de_endpointId d = ''e1'')"
proof -
  obtain db' where db': "dispatch_webhooks_for_urls demo_hooks 0 ''link.clicked'' [(''u1'', JNull)] = Inr (db', 1, 0)" using demo_dispatch by blast
  obtain new where new: "wb_deliveries db' = wb_deliveries demo_hooks @ new" "length new = 1"
    "\<And>d. d \<in> set new \<Longrightarrow> \<exists>l \<in> set (wb_links demo_hooks). \<exists>e \<in> set (wb_endpoints demo_hooks). \<exists>payload.
        subscribed e ''link.clicked'' l \<and> d = new_delivery (ep_id e) ''link.clicked'' (json_text payload) 0 None"
    using webhook_fanout_isolated [OF demo_hooks_plain db'] by (elim exE conjE) (rule that, assumption+, blast)
  have "de_endpointId d = ''e1''" if "d \<in> set new" for d
    using new(3) [OF that] by (auto simp: demo_hooks_def subscribed_def same_tenant_def new_delivery_def)
  then show ?thesis using db' new by (intro exI [of _ db']) (simp add: demo_hooks_def)
qed

section \<open>Rotation without a gap\<close>

lemma webhook_parts_macs:
  assumes "\<And>k m. length (cr_hmac cr k m) = 32"
  shows "webhook_parts t cs (map (\<lambda>s. ''v1='' @ timestamped_mac cr s n payload) secrets) = (t, cs @ map (\<lambda>s. timestamped_mac cr s n payload) secrets)"
proof (induction secrets arbitrary: cs)
  case (Cons s secrets)
  let ?m = "timestamped_mac cr s n payload"
  have "is_hex64 ?m" "trim ?m = ?m" using assms by (simp_all add: timestamped_mac_def hex_text_plain)
  moreover have "list_all (\<lambda>c. \<not> is_upper c) ?m"
    unfolding list_all_iff timestamped_mac_def using hex_text_char unfolding plain_hex_def by blast
  moreover have "header_part (''v1='' @ ?m) = Some (''v1'', ?m)"
    using calculation(2) by (simp add: header_part_def Let_def) (simp add: trim_def is_ws_def)
  ultimately show ?case using Cons.IH [of "cs @ [?m]"] by simp
qed simp

lemma signature_verifies:
  assumes mac: "\<And>k m. length (cr_hmac cr k m) = 32" and s: "s \<in> set secrets" "s \<noteq> []" "payload \<noteq> []"
    and t: "0 \<le> t" "t < 10 ^ 12" "\<bar>now - t\<bar> \<le> tolerance"
  shows "verify_timestamped_webhook_signature cr payload s (sign_webhook_payload_multi cr payload secrets t) now tolerance"
proof -
  let ?vs = "map (\<lambda>s. ''v1='' @ timestamped_mac cr s t payload) secrets"
  have dec: "int_dec t = nat_dec (nat t)" using t(1) by (simp add: int_dec_def)
  have dig: "is_digit c" if "c \<in> set (nat_dec (nat t))" for c using nat_dec_digits that by blast
  have "\<not> is_digit CHR '',''" by (simp add: is_digit_def)
  then have "CHR '','' \<notin> set (''t='' @ nat_dec (nat t))" using dig by fastforce
  moreover have "split_on CHR '','' (join_with '','' ?vs) = ?vs"
    using s(1) hex_text_plain(3) by (intro split_join) (auto simp: timestamped_mac_def)
  ultimately have sp: "split_on CHR '','' (sign_webhook_payload_multi cr payload secrets t) = (''t='' @ nat_dec (nat t)) # ?vs"
    using split_on_append [of "CHR '',''" "''t='' @ nat_dec (nat t)" "join_with '','' ?vs"] by (simp add: sign_webhook_payload_multi_def dec)
  have "header_part (''t='' @ nat_dec (nat t)) = Some (''t'', nat_dec (nat t))"
    using dig digit_not_ws by (simp add: header_part_def Let_def trim_no_ws) (simp add: trim_def is_ws_def)
  moreover have "nat t < 10 ^ Suc 11" using t(1,2) by (simp add: nat_less_iff)
  then have "length (nat_dec (nat t)) \<le> 12" using length_nat_dec [of "nat t" 11] by simp
  moreover have "list_all is_digit (nat_dec (nat t))" using dig by (simp add: list_all_iff)
  ultimately have "webhook_parts None [] (split_on CHR '','' (sign_webhook_payload_multi cr payload secrets t)) =
      (Some (nat t), map (\<lambda>s. timestamped_mac cr s t payload) secrets)"
    using webhook_parts_macs [OF mac, of "Some (nat t)" "[]" t payload secrets] unfolding sp by simp
  moreover have "sign_webhook_payload_multi cr payload secrets t \<noteq> []" by (simp add: sign_webhook_payload_multi_def)
  ultimately show ?thesis using s t by (auto simp: verify_timestamped_webhook_signature_def list_ex_iff)
qed

text \<open>
  A signing secret can be rotated without a gap.  From the rotation to the end of the grace
  time a delivery verifies with the new and with the old secret; afterwards, or at once when the
  grace time is zero, only the new one signs.
\<close>

lemma rotation_keeps_receivers:
  assumes mac: "\<And>k m. length (cr_hmac cr k m) = 32" and ne: "ep_secret e \<noteq> []" "newSecret \<noteq> []" "payload \<noteq> []" and "0 \<le> graceHours"
    and t: "0 \<le> sent" "sent < 1000 * 10 ^ 12" "\<bar>received - sent div 1000\<bar> \<le> WEBHOOK_SIGNATURE_TOLERANCE_SECONDS" and later: "rotated \<le> sent"
  defines "after \<equiv> build_rotation newSecret graceHours rotated e"
  defines "header \<equiv> sign_webhook_payload_multi cr payload (active_webhook_secrets after sent) (sent div 1000)"
  shows "active_webhook_secrets after sent = newSecret # (if sent < rotated + graceHours * 3600000 then [ep_secret e] else []) \<and>
    verify_timestamped_webhook_signature cr payload newSecret header received WEBHOOK_SIGNATURE_TOLERANCE_SECONDS \<and>
    (sent < rotated + graceHours * 3600000 \<longrightarrow>
      verify_timestamped_webhook_signature cr payload (ep_secret e) header received WEBHOOK_SIGNATURE_TOLERANCE_SECONDS)"
proof -
  have a: "active_webhook_secrets after sent = newSecret # (if sent < rotated + graceHours * 3600000 then [ep_secret e] else [])"
    using ne(1) assms(5) later by (auto simp: active_webhook_secrets_def after_def build_rotation_def str_truthy_iff)
  have v: "verify_timestamped_webhook_signature cr payload s header received WEBHOOK_SIGNATURE_TOLERANCE_SECONDS"
    if "s \<in> set (active_webhook_secrets after sent)" "s \<noteq> []" for s
    unfolding header_def using t by (intro signature_verifies [OF mac that ne(3)]) simp_all
  show ?thesis using a v [of newSecret] v [of "ep_secret e"] ne by simp
qed

lemma rotation_keeps_receivers_witness:
  "verify_timestamped_webhook_signature sample_mac ''{}'' ''old''
     (sign_webhook_payload_multi sample_mac ''{}'' (active_webhook_secrets (build_rotation ''new'' 24 0 (hd (wb_endpoints demo_hooks)\<lparr>ep_secret := ''old''\<rparr>)) 60000) 60)
     61 WEBHOOK_SIGNATURE_TOLERANCE_SECONDS"
proof -
  let ?e = "hd (wb_endpoints demo_hooks)\<lparr>ep_secret := ''old''\<rparr>"
  have "length (cr_hmac sample_mac k m) = 32" for k m by (simp add: sample_mac_def)
  note r = rotation_keeps_receivers [OF this, of ?e "''new''" "''{}''" 24 60000 61 0]
  have sixty: "(60000 :: int) div 1000 = 60" by simp
  have old: "ep_secret ?e = ''old''" by simp
  show ?thesis by (rule r [unfolded sixty old, THEN conjunct2, THEN conjunct2, THEN mp]) (simp_all add: WEBHOOK_SIGNATURE_TOLERANCE_SECONDS_def)
qed

section \<open>Health\<close>

text \<open>
  The check reads at most fifteen settled deliveries.  When the newest fifteen are younger than
  the required span, an endpoint is never disabled, however long it has been failing.
\<close>

lemma busy_endpoint_stays_enabled:
  assumes "\<forall>d \<in> set (recent_settled db i). now - snd d < WEBHOOK_DISABLE_MIN_SPAN_MS"
  shows "evaluate_endpoint_health db i now = (db, False)"
proof -
  let ?s = "failed_streak (recent_settled db i)"
  have "last ?s \<in> set (recent_settled db i)" if "?s \<noteq> []"
    using last_in_set [OF that] unfolding failed_streak_def by (rule set_takeWhileD [THEN conjunct1])
  then have "\<not> should_disable_endpoint (recent_settled db i) now"
    using assms by (cases "?s = []") (auto simp: should_disable_endpoint_def Let_def WEBHOOK_DISABLE_MIN_FAILURES_def)
  then show ?thesis by (simp add: evaluate_endpoint_health_def)
qed

end
