(* ===== verification/WebhookDelivery.thy ===== *)
theory WebhookDelivery
  imports Webhooks
begin

text \<open>
  The delivery of webhooks (\<open>processWebhookDelivery\<close> and the retry worker in
  \<open>src/lib/webhooks.ts\<close>, the circuit breaker of \<open>src/lib/resilience.ts\<close>): the reads, the
  destination check, the guarded claim with its lease, the outcome of the POST and the guarded
  recording of it.  Workers interleave and may stop at any point; each database statement is a step.
\<close>

section \<open>The circuit breaker\<close>

record circuit_state =
  ci_failures :: nat
  ci_openedUntil :: js_date

definition new_circuit :: circuit_state where
  "new_circuit = \<lparr>ci_failures = 0, ci_openedUntil = 0\<rparr>"

definition can_request :: "circuit_state \<Rightarrow> js_date \<Rightarrow> bool" where
  "can_request c now = (ci_openedUntil c \<le> now)"

definition circuit_success :: "circuit_state \<Rightarrow> circuit_state" where
  "circuit_success c = new_circuit"

definition circuit_failure :: "nat \<Rightarrow> js_date \<Rightarrow> js_date \<Rightarrow> circuit_state \<Rightarrow> circuit_state" where
  "circuit_failure threshold cooldownMs now c =
     (let n = ci_failures c + 1 in \<lparr>ci_failures = n, ci_openedUntil = (if n \<ge> threshold then now + cooldownMs else ci_openedUntil c)\<rparr>)"

type_synonym circuits = "string \<Rightarrow> circuit_state option"

definition circuit_for :: "circuits \<Rightarrow> string \<Rightarrow> circuits \<times> circuit_state" where
  "circuit_for cs endpointId = (case cs endpointId of Some c \<Rightarrow> (cs, c) | None \<Rightarrow> (cs(endpointId \<mapsto> new_circuit), new_circuit))"

section \<open>Statements\<close>

definition LEASE_MS :: int where "LEASE_MS = 30000"
definition RESPONSE_BODY_LIMIT :: nat where "RESPONSE_BODY_LIMIT = 1000"

definition deliverable :: "webhook_db \<Rightarrow> nat \<Rightarrow> bool" where
  "deliverable db i = (i < length (wb_deliveries db) \<and> de_status (wb_deliveries db ! i) \<noteq> Success \<and>
     list_ex (\<lambda>e. ep_id e = de_endpointId (wb_deliveries db ! i) \<and> ep_isActive e) (wb_endpoints db))"

definition put_delivery :: "webhook_db \<Rightarrow> nat \<Rightarrow> delivery \<Rightarrow> webhook_db" where
  "put_delivery db i d = db\<lparr>wb_deliveries := (wb_deliveries db)[i := d]\<rparr>"

text \<open>The destination is no longer safe: an update by id, whatever happened since the read.\<close>

definition reject_delivery :: "webhook_db \<Rightarrow> nat \<Rightarrow> js_date \<Rightarrow> string \<Rightarrow> webhook_db" where
  "reject_delivery db i now message = put_delivery db i ((wb_deliveries db ! i)\<lparr>de_status := Failed,
     de_responseBody := Some (take 1000 message), de_lastAttemptAt := Some now, de_nextAttemptAt := None\<rparr>)"

text \<open>The claim: only from the number of attempts that was read, and when no lease runs.\<close>

definition claim_delivery :: "webhook_db \<Rightarrow> nat \<Rightarrow> nat \<Rightarrow> nat \<Rightarrow> js_date \<Rightarrow> webhook_db option" where
  "claim_delivery db i attemptsRead token now =
     (let d = wb_deliveries db ! i
      in if de_attempts d = attemptsRead \<and> (case de_leaseUntil d of None \<Rightarrow> True | Some u \<Rightarrow> u \<le> now)
         then Some (put_delivery db i (d\<lparr>de_attempts := attemptsRead + 1, de_leaseToken := Some token, de_leaseUntil := Some (now + LEASE_MS)\<rparr>))
         else None)"

datatype post_outcome = Answered nat "string option" | NoAnswer string

definition retry_status :: "nat \<Rightarrow> delivery_status" where
  "retry_status attempt = (if attempt \<ge> WEBHOOK_MAX_RETRIES then Failed else Pending)"

fun outcome_status :: "nat \<Rightarrow> post_outcome \<Rightarrow> delivery_status" where
  "outcome_status attempt (Answered code body) = (if 200 \<le> code \<and> code < 300 then Success else retry_status attempt)"
| "outcome_status attempt (NoAnswer e) = retry_status attempt"

fun outcome_code :: "post_outcome \<Rightarrow> nat option" where
  "outcome_code (Answered code body) = Some code"
| "outcome_code (NoAnswer e) = None"

fun outcome_body :: "post_outcome \<Rightarrow> string option" where
  "outcome_body (Answered code body) = (if 300 \<le> code \<and> code < 400
     then Some (''Redirect ('' @ nat_dec code @ '') not followed; point the webhook at the final URL'')
     else map_option (take RESPONSE_BODY_LIMIT) body)"
| "outcome_body (NoAnswer e) = Some e"

text \<open>The result is recorded only under the lease that was taken.\<close>

definition finalize_delivery :: "webhook_db \<Rightarrow> nat \<Rightarrow> nat \<Rightarrow> nat \<Rightarrow> js_date \<Rightarrow> post_outcome \<Rightarrow> webhook_db option" where
  "finalize_delivery db i token attempt now r =
     (let d = wb_deliveries db ! i; status = outcome_status attempt r
      in if de_leaseToken d = Some token
         then Some (put_delivery db i (d\<lparr>de_status := status, de_responseCode := outcome_code r,
           de_responseBody := (if str_truthy (outcome_body r) then map_option (take 1000) (outcome_body r) else None),
           de_lastAttemptAt := Some now, de_nextAttemptAt := (if status = Pending then Some (now + webhook_backoff_ms attempt) else None),
           de_leaseToken := None, de_leaseUntil := None\<rparr>))
         else None)"

text \<open>A whole delivery by one worker with nothing in between: the new tables and whether it was attempted.\<close>

definition process_webhook_delivery ::
  "webhook_db \<Rightarrow> circuits \<Rightarrow> nat \<Rightarrow> js_date \<Rightarrow> string option \<Rightarrow> nat \<Rightarrow> post_outcome \<Rightarrow> webhook_db \<times> delivery_status option" where
  "process_webhook_delivery db cs i now unsafe token r =
     (if \<not> deliverable db i then (db, None)
      else let d = wb_deliveries db ! i
       in if \<not> can_request (snd (circuit_for cs (de_endpointId d))) now then (db, Some Pending)
          else (case unsafe of
              Some message \<Rightarrow> (reject_delivery db i now message, Some Failed)
            | None \<Rightarrow> (case claim_delivery db i (de_attempts d) token now of
                None \<Rightarrow> (db, None)
              | Some db1 \<Rightarrow> (case finalize_delivery db1 i token (de_attempts d + 1) now r of
                  None \<Rightarrow> (db1, None)
                | Some db2 \<Rightarrow>
                   (let status = outcome_status (de_attempts d + 1) r
                    in (if status = Failed then fst (evaluate_endpoint_health db2 (de_endpointId d) now) else db2, Some status))))))"

text \<open>The retry worker: at most 100 pending deliveries that are due, or whose lease ran out.\<close>

definition is_due :: "js_date \<Rightarrow> delivery \<Rightarrow> bool" where
  "is_due now d = (de_status d = Pending \<and>
     ((case de_nextAttemptAt d of None \<Rightarrow> False | Some t \<Rightarrow> t \<le> now) \<or> (case de_leaseUntil d of None \<Rightarrow> False | Some u \<Rightarrow> u \<le> now)))"

definition dead_letter_batch :: "webhook_db \<Rightarrow> js_date \<Rightarrow> nat list" where
  "dead_letter_batch db now =
     (let due = filter (\<lambda>x. is_due now (snd x)) (enumerate 0 (wb_deliveries db))
      in take 100 (map fst (sort_key (\<lambda>x. the (de_nextAttemptAt (snd x))) (filter (\<lambda>x. de_nextAttemptAt (snd x) \<noteq> None) due) @
           filter (\<lambda>x. de_nextAttemptAt (snd x) = None) due)))"

section \<open>Interleaved workers\<close>

datatype hook_worker = Reading nat nat | Posting nat nat nat js_date

record hook_world =
  hw_db :: webhook_db
  hw_now :: js_date
  hw_workers :: "hook_worker list"
  hw_fresh :: nat
  hw_posts :: "(nat \<times> nat) list"

definition drop_worker :: "nat \<Rightarrow> hook_world \<Rightarrow> hook_worker list" where
  "drop_worker k w = take k (hw_workers w) @ drop (Suc k) (hw_workers w)"

text \<open>
  \<open>Reading i n\<close> read delivery i with n attempts; \<open>Posting i token n until\<close> holds a claim.  The
  posts are (delivery, attempt), newest first.  Each claim has a token of its own.
\<close>

inductive hook_step :: "hook_world \<Rightarrow> hook_world \<Rightarrow> bool" where
  hook_time: "t \<ge> hw_now w \<Longrightarrow> hook_step w (w\<lparr>hw_now := t\<rparr>)"
| hook_enqueue: "hook_step w (w\<lparr>hw_db := (hw_db w)\<lparr>wb_deliveries := wb_deliveries (hw_db w) @ [new_delivery e event payload (hw_now w) ro]\<rparr>\<rparr>)"
| hook_endpoints: "hook_step w (w\<lparr>hw_db := (hw_db w)\<lparr>wb_endpoints := es\<rparr>\<rparr>)"
| hook_read: "deliverable (hw_db w) i \<Longrightarrow>
    hook_step w (w\<lparr>hw_workers := Reading i (de_attempts (wb_deliveries (hw_db w) ! i)) # hw_workers w\<rparr>)"
| hook_reject: "k < length (hw_workers w) \<Longrightarrow> hw_workers w ! k = Reading i n \<Longrightarrow>
    hook_step w (w\<lparr>hw_db := reject_delivery (hw_db w) i (hw_now w) message, hw_workers := drop_worker k w\<rparr>)"
| hook_claim: "k < length (hw_workers w) \<Longrightarrow> hw_workers w ! k = Reading i n \<Longrightarrow>
    claim_delivery (hw_db w) i n (hw_fresh w) (hw_now w) = Some db' \<Longrightarrow>
    hook_step w (w\<lparr>hw_db := db', hw_workers := Posting i (hw_fresh w) (n + 1) (hw_now w + LEASE_MS) # drop_worker k w,
      hw_fresh := hw_fresh w + 1, hw_posts := (i, n + 1) # hw_posts w\<rparr>)"
| hook_record: "k < length (hw_workers w) \<Longrightarrow> hw_workers w ! k = Posting i token n until \<Longrightarrow>
    finalize_delivery (hw_db w) i token n (hw_now w) r = Some db' \<Longrightarrow>
    hook_step w (w\<lparr>hw_db := db', hw_workers := drop_worker k w\<rparr>)"
| hook_leave: "k < length (hw_workers w) \<Longrightarrow> hook_step w (w\<lparr>hw_workers := drop_worker k w\<rparr>)"

definition unclaimed :: "delivery \<Rightarrow> bool" where
  "unclaimed d = (de_attempts d = 0 \<and> de_leaseToken d = None \<and> de_leaseUntil d = None)"

definition start_hooks :: "webhook_db \<Rightarrow> js_date \<Rightarrow> hook_world" where
  "start_hooks db now = \<lparr>hw_db = db, hw_now = now, hw_workers = [], hw_fresh = 0, hw_posts = []\<rparr>"

inductive hook_reach :: "hook_world \<Rightarrow> bool" where
  hooks_start: "list_all unclaimed (wb_deliveries db) \<Longrightarrow> hook_reach (start_hooks db now)"
| hooks_step: "hook_reach w \<Longrightarrow> hook_step w w' \<Longrightarrow> hook_reach w'"

section \<open>The invariant\<close>

fun worker_delivery :: "hook_worker \<Rightarrow> nat" where
  "worker_delivery (Reading i n) = i"
| "worker_delivery (Posting i token n until) = i"

text \<open>A claim holds the lease of the row, or its time has run out.\<close>

definition claim_current :: "delivery list \<Rightarrow> js_date \<Rightarrow> hook_worker \<Rightarrow> bool" where
  "claim_current ds now k = (case k of Reading i n \<Rightarrow> i < length ds
     | Posting i token n until \<Rightarrow> i < length ds \<and>
         ((de_leaseToken (ds ! i) = Some token \<and> de_leaseUntil (ds ! i) = Some until) \<or> until \<le> now))"

definition tokens :: "hook_worker list \<Rightarrow> nat list" where
  "tokens ks = List.map_filter (\<lambda>k. case k of Reading _ _ \<Rightarrow> None | Posting _ token _ _ \<Rightarrow> Some token) ks"

definition posts_of :: "(nat \<times> nat) list \<Rightarrow> nat \<Rightarrow> nat list" where
  "posts_of ps i = map snd (filter (\<lambda>p. fst p = i) ps)"

definition hook_inv :: "hook_world \<Rightarrow> bool" where
  "hook_inv w \<longleftrightarrow> list_all (claim_current (wb_deliveries (hw_db w)) (hw_now w)) (hw_workers w) \<and>
     distinct (tokens (hw_workers w)) \<and> (\<forall>t \<in> set (tokens (hw_workers w)). t < hw_fresh w) \<and>
     (\<forall>p \<in> set (hw_posts w). fst p < length (wb_deliveries (hw_db w))) \<and>
     (\<forall>i < length (wb_deliveries (hw_db w)). posts_of (hw_posts w) i = rev [1..<Suc (de_attempts (wb_deliveries (hw_db w) ! i))])"

lemma hook_invI:
  "list_all (claim_current (wb_deliveries (hw_db w)) (hw_now w)) (hw_workers w) \<Longrightarrow> distinct (tokens (hw_workers w)) \<Longrightarrow>
   \<forall>t \<in> set (tokens (hw_workers w)). t < hw_fresh w \<Longrightarrow> \<forall>p \<in> set (hw_posts w). fst p < length (wb_deliveries (hw_db w)) \<Longrightarrow>
   \<forall>i < length (wb_deliveries (hw_db w)). posts_of (hw_posts w) i = rev [1..<Suc (de_attempts (wb_deliveries (hw_db w) ! i))] \<Longrightarrow> hook_inv w"
  unfolding hook_inv_def by (intro conjI)

lemma tokens_simps [simp]: "tokens [] = []" "tokens (Reading i n # ks) = tokens ks" "tokens (Posting i t n u # ks) = t # tokens ks"
  "tokens (as @ bs) = tokens as @ tokens bs"
  by (simp_all add: tokens_def List.map_filter_def)

lemma drop_worker_tokens: "distinct (tokens (hw_workers w)) \<Longrightarrow> distinct (tokens (drop_worker k w)) \<and> set (tokens (drop_worker k w)) \<subseteq> set (tokens (hw_workers w))"
proof -
  assume d: "distinct (tokens (hw_workers w))"
  have s: "tokens (take k (hw_workers w)) @ tokens (drop k (hw_workers w)) = tokens (hw_workers w)" by (metis append_take_drop_id tokens_simps(4))
  have "\<exists>ts. tokens (drop k (hw_workers w)) = ts @ tokens (drop (Suc k) (hw_workers w))"
  proof (cases "drop k (hw_workers w)")
    case (Cons x xs)
    then have "drop (Suc k) (hw_workers w) = xs" by (metis drop_Suc list.sel(3) tl_drop)
    then show ?thesis using Cons by (cases x) simp_all
  qed (metis append_Nil drop_eq_Nil le_SucI)
  then obtain ts where "tokens (hw_workers w) = tokens (take k (hw_workers w)) @ ts @ tokens (drop (Suc k) (hw_workers w))" using s by metis
  then show ?thesis using d by (auto simp: drop_worker_def)
qed

lemma drop_worker_set: "set (drop_worker k w) \<subseteq> set (hw_workers w)"
  by (auto simp: drop_worker_def dest: in_set_takeD in_set_dropD)

text \<open>A worker that holds a claim has a token that no other worker has.\<close>

lemma dropped_token_gone:
  assumes "distinct (tokens (hw_workers w))" "k < length (hw_workers w)" "hw_workers w ! k = Posting i t n u"
  shows "t \<notin> set (tokens (drop_worker k w))"
proof -
  have "hw_workers w = take k (hw_workers w) @ Posting i t n u # drop (Suc k) (hw_workers w)" using assms(2,3) by (metis id_take_nth_drop)
  then have "tokens (hw_workers w) = tokens (take k (hw_workers w)) @ t # tokens (drop (Suc k) (hw_workers w))" by (metis tokens_simps(3,4))
  then show ?thesis using assms(1) by (simp add: drop_worker_def)
qed

lemma posting_token: "Posting i t n u \<in> set ks \<Longrightarrow> t \<in> set (tokens ks)"
proof (induction ks)
  case (Cons k ks)
  then show ?case by (cases k) auto
qed simp

lemma tokens_differ:
  assumes "distinct (tokens ks)" "j < length ks" "k < length ks" "j \<noteq> k" "ks ! j = Posting i t n u" "ks ! k = Posting i' s m v"
  shows "t \<noteq> s"
  using assms
proof (induction ks arbitrary: j k)
  case (Cons x ks)
  have mem: "r \<in> set (tokens ks)" if "y < length ks" "ks ! y = Posting h r l o'" for y h r l o'
    using posting_token [of h r l o' ks] that nth_mem [of y ks] by simp
  show ?case
  proof (cases j)
    case 0
    then obtain k' where "k = Suc k'" using Cons.prems(4) by (cases k) auto
    then show ?thesis using 0 Cons.prems mem [of k' i' s m v] by auto
  next
    case (Suc j')
    show ?thesis
    proof (cases k)
      case 0
      then show ?thesis using Suc Cons.prems mem [of j' i t n u] by auto
    next
      case (Suc k')
      have "distinct (tokens ks)" using Cons.prems(1) by (cases x) simp_all
      then show ?thesis using Cons.IH [of j' k'] Cons.prems \<open>j = Suc j'\<close> Suc by simp
    qed
  qed
qed simp

text \<open>An update of row i that keeps its lease, or that clears or replaces one whose holder is gone or late.\<close>

lemma claims_after_update:
  assumes cur: "list_all (claim_current ds now) ks" and i: "i < length ds"
    and keep: "\<And>t n u. Posting i t n u \<in> set ks \<Longrightarrow> de_leaseToken (ds ! i) = Some t \<Longrightarrow> de_leaseUntil (ds ! i) = Some u \<Longrightarrow>
      (de_leaseToken d = Some t \<and> de_leaseUntil d = Some u) \<or> u \<le> now"
  shows "list_all (claim_current (ds[i := d]) now) ks"
  unfolding list_all_iff
proof
  fix k assume k: "k \<in> set ks"
  then have c: "claim_current ds now k" using cur by (simp add: list_all_iff)
  show "claim_current (ds[i := d]) now k"
  proof (cases k)
    case (Posting j t n u)
    then show ?thesis using c keep [of t n u] k i by (cases "j = i") (auto simp: claim_current_def)
  qed (use c in \<open>simp add: claim_current_def\<close>)
qed

lemma attempts_after_update:
  assumes "\<forall>j < length ds. posts_of ps j = rev [1..<Suc (de_attempts (ds ! j))]" "i < length ds" "de_attempts d = de_attempts (ds ! i)"
  shows "\<forall>j < length ds. posts_of ps j = rev [1..<Suc (de_attempts (ds[i := d] ! j))]"
  using assms by (auto simp: nth_list_update)

lemma put_delivery_rows [simp]: "wb_deliveries (put_delivery db i d) = (wb_deliveries db)[i := d]"
  by (simp add: put_delivery_def)

lemma hook_inv_drop: "hook_inv w \<Longrightarrow> list_all (claim_current (wb_deliveries (hw_db w)) (hw_now w)) (drop_worker k w) \<and>
    distinct (tokens (drop_worker k w)) \<and> (\<forall>t \<in> set (tokens (drop_worker k w)). t < hw_fresh w)"
  using drop_worker_tokens [of w k] drop_worker_set [of k w] unfolding hook_inv_def list_all_iff by blast

lemma hook_step_inv: "hook_step w w' \<Longrightarrow> hook_inv w \<Longrightarrow> hook_inv w'"
proof (induction rule: hook_step.induct)
  case (hook_time t w)
  have "claim_current ds (hw_now w) k \<Longrightarrow> claim_current ds t k" for ds k using hook_time(1) by (auto simp: claim_current_def split: hook_worker.splits)
  then show ?case using hook_time(2) by (auto simp: hook_inv_def list_all_iff)
next
  case (hook_enqueue w e event payload ro)
  let ?ds = "wb_deliveries (hw_db w)" and ?d = "new_delivery e event payload (hw_now w) ro"
  have "claim_current ?ds (hw_now w) k \<Longrightarrow> claim_current (?ds @ [?d]) (hw_now w) k" for k
    by (auto simp: claim_current_def nth_append split: hook_worker.splits)
  moreover have "posts_of (hw_posts w) (length ?ds) = []" using hook_enqueue by (auto simp: hook_inv_def posts_of_def filter_empty_conv)
  ultimately show ?case using hook_enqueue by (auto simp: hook_inv_def list_all_iff nth_append new_delivery_def less_Suc_eq)
next
  case (hook_endpoints w es)
  then show ?case by (simp add: hook_inv_def)
next
  case (hook_read w i)
  then show ?case by (simp add: hook_inv_def claim_current_def deliverable_def)
next
  case (hook_reject k w i n message)
  have i: "i < length (wb_deliveries (hw_db w))"
    using list_all_at [of "claim_current (wb_deliveries (hw_db w)) (hw_now w)" "hw_workers w" k] hook_reject by (simp add: hook_inv_def claim_current_def)
  show ?case using hook_inv_drop [OF hook_reject(3), of k] hook_reject(3) i
    unfolding hook_inv_def reject_delivery_def
    by (auto intro!: claims_after_update simp: nth_list_update)
next
  case (hook_claim k w i n db')
  let ?ds = "wb_deliveries (hw_db w)"
  have i: "i < length ?ds"
    using list_all_at [of "claim_current ?ds (hw_now w)" "hw_workers w" k] hook_claim by (simp add: hook_inv_def claim_current_def)
  have c: "de_attempts (?ds ! i) = n" "\<And>u. de_leaseUntil (?ds ! i) = Some u \<Longrightarrow> u \<le> hw_now w"
    and db': "wb_deliveries db' = ?ds[i := (?ds ! i)\<lparr>de_attempts := n + 1, de_leaseToken := Some (hw_fresh w), de_leaseUntil := Some (hw_now w + LEASE_MS)\<rparr>]"
    using hook_claim(3) by (auto simp: claim_delivery_def Let_def split: if_splits option.splits)
  have "list_all (claim_current (wb_deliveries db') (hw_now w)) (drop_worker k w)"
    unfolding db' using hook_inv_drop [OF hook_claim(4), of k] i c(2) by (intro claims_after_update) auto
  moreover have "posts_of ((i, n + 1) # hw_posts w) j = rev [1..<Suc (de_attempts (wb_deliveries db' ! j))]" if "j < length ?ds" for j
    using hook_claim(4) that c(1) i by (auto simp: hook_inv_def db' posts_of_def nth_list_update)
  ultimately show ?case using hook_inv_drop [OF hook_claim(4), of k] hook_claim(4) i
    unfolding hook_inv_def by (auto simp: db' claim_current_def)
next
  case (hook_record k w i token n until r db')
  let ?ds = "wb_deliveries (hw_db w)"
  have i: "i < length ?ds"
    using list_all_at [of "claim_current ?ds (hw_now w)" "hw_workers w" k] hook_record by (simp add: hook_inv_def claim_current_def)
  obtain d where d: "de_leaseToken (?ds ! i) = Some token" "wb_deliveries db' = ?ds[i := d]" "de_attempts d = de_attempts (?ds ! i)"
    using hook_record(3) by (auto simp: finalize_delivery_def Let_def split: if_splits)
  have gone: "token \<notin> set (tokens (drop_worker k w))"
    using dropped_token_gone [OF _ hook_record(1,2)] hook_record(4) by (simp add: hook_inv_def)
  have cur: "list_all (claim_current (?ds[i := d]) (hw_now w)) (drop_worker k w)"
  proof (rule claims_after_update)
    show "list_all (claim_current ?ds (hw_now w)) (drop_worker k w)" using hook_inv_drop [OF hook_record(4), of k] by blast
    fix t m u assume "Posting i t m u \<in> set (drop_worker k w)" "de_leaseToken (?ds ! i) = Some t"
    then have False using gone posting_token [of i t m u] d(1) by simp
    then show "(de_leaseToken d = Some t \<and> de_leaseUntil d = Some u) \<or> u \<le> hw_now w" ..
  qed (rule i)
  have num: "\<forall>j < length ?ds. posts_of (hw_posts w) j = rev [1..<Suc (de_attempts (?ds[i := d] ! j))]"
    by (rule attempts_after_update [OF _ i d(3)]) (use hook_record(4) in \<open>unfold hook_inv_def, blast\<close>)
  have idx: "\<forall>p \<in> set (hw_posts w). fst p < length ?ds" using hook_record(4) unfolding hook_inv_def by blast
  note dr = hook_inv_drop [OF hook_record(4), of k]
  show ?case
  proof (rule hook_invI)
    show "list_all (claim_current (wb_deliveries (hw_db (w\<lparr>hw_db := db', hw_workers := drop_worker k w\<rparr>)))
        (hw_now (w\<lparr>hw_db := db', hw_workers := drop_worker k w\<rparr>))) (hw_workers (w\<lparr>hw_db := db', hw_workers := drop_worker k w\<rparr>))"
      using cur d(2) by simp
  qed (use dr num idx d(2) in auto)
next
  case (hook_leave k w)
  then show ?case using hook_inv_drop [OF hook_leave(2), of k] by (simp add: hook_inv_def)
qed

lemma hook_reach_inv: "hook_reach w \<Longrightarrow> hook_inv w"
proof (induction rule: hook_reach.induct)
  case (hooks_start db now)
  then show ?case by (simp add: hook_inv_def start_hooks_def list_all_length unclaimed_def posts_of_def)
qed (rule hook_step_inv)

text \<open>
  C27: Whatever workers, retries and crashes interleave, the attempts of a delivery are claimed one at a
  time.  Its posts have the numbers 1, 2, 3 and so on up to its attempts, each once, and of two
  workers that hold a claim of the same delivery at most one has a lease that still runs.
\<close>

theorem webhook_attempts_exclusive:
  assumes "hook_reach w"
  shows "(\<forall>i < length (wb_deliveries (hw_db w)). posts_of (hw_posts w) i = rev [1..<Suc (de_attempts (wb_deliveries (hw_db w) ! i))]) \<and>
    (\<forall>j k i t n u s m v. j < length (hw_workers w) \<and> k < length (hw_workers w) \<and> j \<noteq> k \<and>
       hw_workers w ! j = Posting i t n u \<and> hw_workers w ! k = Posting i s m v \<longrightarrow> u \<le> hw_now w \<or> v \<le> hw_now w)"
proof (intro conjI allI impI)
  note inv = hook_reach_inv [OF assms]
  fix i assume "i < length (wb_deliveries (hw_db w))"
  then show "posts_of (hw_posts w) i = rev [1..<Suc (de_attempts (wb_deliveries (hw_db w) ! i))]" using inv by (simp add: hook_inv_def)
next
  note inv = hook_reach_inv [OF assms]
  fix j k i t n u s m v
  assume a: "j < length (hw_workers w) \<and> k < length (hw_workers w) \<and> j \<noteq> k \<and> hw_workers w ! j = Posting i t n u \<and> hw_workers w ! k = Posting i s m v"
  have cur: "claim_current (wb_deliveries (hw_db w)) (hw_now w) (hw_workers w ! x)" if "x < length (hw_workers w)" for x
    using inv that by (simp add: hook_inv_def list_all_length)
  have "t \<noteq> s" by (rule tokens_differ [of "hw_workers w" j k]) (use inv a in \<open>auto simp: hook_inv_def\<close>)
  then show "u \<le> hw_now w \<or> v \<le> hw_now w" using cur [of j] cur [of k] a by (auto simp: claim_current_def)
qed

section \<open>A delivery that was made can be made again\<close>

definition twice_db :: "delivery \<Rightarrow> webhook_db" where
  "twice_db d = \<lparr>wb_links = [], wb_endpoints = [\<lparr>ep_id = ''e1'', ep_url = ''https://a'', ep_workspaceId = None, ep_userId = Some ''u'',
      ep_events = [], ep_isActive = True, ep_secret = ''s'', ep_previousSecret = None, ep_previousSecretExpiresAt = None, ep_linkScope = ''all'',
      ep_tagFilter = [], ep_urlIdFilter = [], ep_folderIdFilter = []\<rparr>], wb_deliveries = [d], wb_usage = \<lparr>quotas = (\<lambda>_. None), buckets = (\<lambda>_. None)\<rparr>\<rparr>"

definition twice_row :: "delivery_status \<Rightarrow> nat \<Rightarrow> (nat \<times> js_date) option \<Rightarrow> nat option \<Rightarrow> string option \<Rightarrow> js_date option \<Rightarrow> js_date option \<Rightarrow> delivery" where
  "twice_row st n lease code body lastAt nextAt = \<lparr>de_endpointId = ''e1'', de_event = ''diagnostic.test'', de_payload = ''{}'', de_status = st, de_attempts = n,
     de_createdAt = 0, de_nextAttemptAt = nextAt, de_leaseToken = map_option fst lease, de_leaseUntil = map_option snd lease,
     de_responseCode = code, de_responseBody = body, de_lastAttemptAt = lastAt, de_replayOfId = None\<rparr>"

definition twice_world :: "delivery \<Rightarrow> hook_worker list \<Rightarrow> nat \<Rightarrow> (nat \<times> nat) list \<Rightarrow> hook_world" where
  "twice_world d ks n ps = \<lparr>hw_db = twice_db d, hw_now = 0, hw_workers = ks, hw_fresh = n, hw_posts = ps\<rparr>"

lemmas twice_defs = twice_world_def twice_db_def twice_row_def

definition row0 :: delivery where "row0 = twice_row Pending 0 None None None None (Some 0)"
definition row1 :: delivery where "row1 = twice_row Pending 1 (Some (0, 30000)) None None None (Some 0)"
definition row2 :: delivery where "row2 = twice_row Success 1 None (Some 200) None (Some 0) None"
definition row3 :: delivery where "row3 = twice_row Success 2 (Some (1, 30000)) (Some 200) None (Some 0) None"
definition row4 :: delivery where "row4 = twice_row Pending 2 None None (Some ''timeout'') (Some 0) (Some 1500000)"

lemma twice_claims: "claim_delivery (twice_db row0) 0 0 0 0 = Some (twice_db row1)" "claim_delivery (twice_db row2) 0 1 (Suc 0) 0 = Some (twice_db row3)"
  by (simp_all add: claim_delivery_def put_delivery_def LEASE_MS_def row0_def row1_def row2_def row3_def twice_defs)

lemma twice_records:
  "finalize_delivery (twice_db row1) 0 0 1 0 (Answered 200 None) = Some (twice_db row2)"
  "finalize_delivery (twice_db row3) 0 (Suc 0) 2 0 (NoAnswer ''timeout'') = Some (twice_db row4)"
  by (simp_all add: finalize_delivery_def put_delivery_def Let_def retry_status_def WEBHOOK_MAX_RETRIES_def webhook_backoff_ms_def
      row1_def row2_def row3_def row4_def twice_defs)

lemma twice_step_claim1: "hook_step (twice_world row0 [Reading 0 0] 0 []) (twice_world row1 [Posting 0 0 1 30000] 1 [(0, 1)])"
  using hook_step.hook_claim [of 0 "twice_world row0 [Reading 0 0] 0 []" 0 0 "twice_db row1"] twice_claims(1)
  by (simp add: twice_world_def drop_worker_def LEASE_MS_def)

lemma twice_step_record1:
  "hook_step (twice_world row1 [Reading 0 1, Posting 0 0 1 30000] 1 [(0, 1)]) (twice_world row2 [Reading 0 1] 1 [(0, 1)])"
  using hook_step.hook_record [of 1 "twice_world row1 [Reading 0 1, Posting 0 0 1 30000] 1 [(0, 1)]" 0 0 1 30000 "Answered 200 None" "twice_db row2"] twice_records(1)
  by (simp add: twice_world_def drop_worker_def)

lemma twice_step_claim2: "hook_step (twice_world row2 [Reading 0 1] 1 [(0, 1)]) (twice_world row3 [Posting 0 1 2 30000] 2 [(0, 2), (0, 1)])"
  using hook_step.hook_claim [of 0 "twice_world row2 [Reading 0 1] 1 [(0, 1)]" 0 1 "twice_db row3"] twice_claims(2)
  by (simp add: twice_world_def drop_worker_def LEASE_MS_def numeral_2_eq_2)

lemma twice_step_record2: "hook_step (twice_world row3 [Posting 0 1 2 30000] 2 [(0, 2), (0, 1)]) (twice_world row4 [] 2 [(0, 2), (0, 1)])"
  using hook_step.hook_record [of 0 "twice_world row3 [Posting 0 1 2 30000] 2 [(0, 2), (0, 1)]" 0 1 2 30000 "NoAnswer ''timeout''" "twice_db row4"] twice_records(2)
  by (simp add: twice_world_def drop_worker_def)

lemma twice_step_read: "hook_step (twice_world row0 [] 0 []) (twice_world row0 [Reading 0 0] 0 [])"
  "hook_step (twice_world row1 [Posting 0 0 1 30000] 1 [(0, 1)]) (twice_world row1 [Reading 0 1, Posting 0 0 1 30000] 1 [(0, 1)])"
  using hook_step.hook_read [of "twice_world row0 [] 0 []" 0] hook_step.hook_read [of "twice_world row1 [Posting 0 0 1 30000] 1 [(0, 1)]" 0]
  by (simp_all add: deliverable_def row0_def row1_def twice_defs)

lemma twice_reach: "hook_reach (twice_world row1 [Reading 0 1, Posting 0 0 1 30000] 1 [(0, 1)])"
proof -
  have "hook_reach (start_hooks (twice_db row0) 0)" by (rule hooks_start) (simp add: unclaimed_def row0_def twice_defs)
  then have "hook_reach (twice_world row0 [] 0 [])" by (simp add: start_hooks_def twice_world_def)
  from hooks_step [OF hooks_step [OF hooks_step [OF this twice_step_read(1)] twice_step_claim1] twice_step_read(2)] show ?thesis .
qed

theorem webhook_attempts_exclusive_witness:
  "posts_of [(0, 1)] 0 = rev [1..<Suc (de_attempts row1)]"
proof -
  let ?w = "twice_world row1 [Reading 0 1, Posting 0 0 1 30000] 1 [(0, 1)]"
  have "0 < length (wb_deliveries (hw_db ?w))" "wb_deliveries (hw_db ?w) ! 0 = row1" "hw_posts ?w = [(0, 1)]" by (simp_all add: twice_world_def twice_db_def)
  then show ?thesis using webhook_attempts_exclusive [OF twice_reach, THEN conjunct1] by metis
qed

text \<open>
  The claim does not ask for the status.  A worker that read the row while another was posting can
  claim it after that post succeeded: the event is posted a second time, and when that post fails
  the recorded success is replaced and the event will be posted again.
\<close>

lemma delivered_twice:
  "\<exists>w w'. hook_reach w \<and> de_status (wb_deliveries (hw_db w) ! 0) = Success \<and> hw_posts w = [(0, 1)] \<and> hook_step\<^sup>*\<^sup>* w w' \<and>
     hw_posts w' = [(0, 2), (0, 1)] \<and> de_status (wb_deliveries (hw_db w') ! 0) = Pending"
proof -
  let ?w = "twice_world row2 [Reading 0 1] 1 [(0, 1)]" and ?w' = "twice_world row4 [] 2 [(0, 2), (0, 1)]"
  have "hook_reach ?w" by (rule hooks_step [OF twice_reach twice_step_record1])
  moreover have "hook_step\<^sup>*\<^sup>* ?w ?w'" 
    using converse_rtranclp_into_rtranclp [of hook_step, OF twice_step_claim2] r_into_rtranclp [of hook_step, OF twice_step_record2] by blast
  ultimately show ?thesis by (intro exI [of _ ?w] exI [of _ ?w']) (simp add: row2_def row4_def twice_defs)
qed

text \<open>The breaker of an endpoint is asked, but never told of an outcome: it lets every request through.\<close>

lemma circuit_never_opens: "now \<ge> 0 \<Longrightarrow> can_request (snd (circuit_for Map.empty endpointId)) now"
  by (simp add: circuit_for_def can_request_def new_circuit_def)

end
