(* ===== verification/Sessions.thy ===== *)
theory Sessions
  imports Http JsValue Mfa Tokens
begin

text \<open>
  Accounts and sessions (\<open>src/lib/auth.ts\<close>, the single sign-on of \<open>src/lib/saml.ts\<close>, and the handlers
  under \<open>src/app/api/auth\<close> and \<open>src/app/api/account/password\<close>): addresses and passwords, the three ways
  to a session (sign-in, single sign-on, registration), the session cookie, the revocation of
  sessions, password changes and resets.  The handlers await between their
  statements, so sign-ins, changes and resets in flight interleave: a step relation over any
  number of them.
\<close>

section \<open>Addresses and passwords\<close>

definition mail_char :: "char \<Rightarrow> bool" where
  "mail_char c = (\<not> is_ws c \<and> c \<noteq> CHR ''@'')"

text \<open>The pattern \<open>^[^\s@]+@[^\s@]+\.[^\s@]+$\<close>: one at sign, and a dot inside what follows it.\<close>

definition is_email :: "string \<Rightarrow> bool" where
  "is_email e = (case split_on CHR ''@'' e of
       [local_part, domain] \<Rightarrow> local_part \<noteq> [] \<and> list_all mail_char local_part \<and> list_all mail_char domain
         \<and> CHR ''.'' \<in> set (butlast (tl domain))
     | _ \<Rightarrow> False)"

definition normalize_email :: "string \<Rightarrow> string thrown" where
  "normalize_email value = (let email = to_lower (trim value)
     in if \<not> is_email email \<or> length email > 254 then Inl ''Enter a valid email address'' else Inr email)"

definition validate_password :: "string \<Rightarrow> string thrown" where
  "validate_password value = (if length value < 12 \<or> length value > 128 then Inl ''Password must be 12-128 characters'' else Inr value)"

section \<open>Rows\<close>

record user_row =
  us_id :: string
  us_email :: string
  us_password :: string
  us_totpEnabledAt :: "js_date option"

record session_row =
  se_id :: string
  se_tokenHash :: string
  se_userId :: string
  se_expiresAt :: js_date
  se_revokedAt :: "js_date option"
  se_lastSeenAt :: js_date

record reset_row =
  rs_id :: string
  rs_tokenHash :: string
  rs_userId :: string
  rs_usedAt :: "js_date option"
  rs_expiresAt :: js_date

record auth_db =
  ad_users :: "user_row list"
  ad_sessions :: "session_row list"
  ad_resets :: "reset_row list"

text \<open>SHA-256 in hexadecimal, and bcrypt with its salt as an argument.\<close>

record auth_env =
  ae_sha :: "string \<Rightarrow> string"
  ae_hash :: "string \<Rightarrow> string \<Rightarrow> string"
  ae_compare :: "string \<Rightarrow> string \<Rightarrow> bool"

definition SESSION_MS :: int where "SESSION_MS = 30 * 24 * 60 * 60 * 1000"
definition RESET_TTL_MS :: int where "RESET_TTL_MS = 60 * 60000"

text \<open>\<open>updateMany\<close>: the rows a condition selects are changed, in one statement.\<close>

definition update_rows :: "('a \<Rightarrow> bool) \<Rightarrow> ('a \<Rightarrow> 'a) \<Rightarrow> 'a list \<Rightarrow> 'a list" where
  "update_rows P f xs = map (\<lambda>x. if P x then f x else x) xs"

definition user_by_id :: "auth_db \<Rightarrow> string \<Rightarrow> user_row option" where
  "user_by_id db i = find (\<lambda>u. us_id u = i) (ad_users db)"

definition user_by_email :: "auth_db \<Rightarrow> string \<Rightarrow> user_row option" where
  "user_by_email db e = find (\<lambda>u. us_email u = e) (ad_users db)"

section \<open>Sessions\<close>

definition create_session :: "auth_env \<Rightarrow> js_date \<Rightarrow> string \<Rightarrow> string \<Rightarrow> string \<Rightarrow> auth_db \<Rightarrow> auth_db" where
  "create_session env now sid token userId db =
     db\<lparr>ad_sessions := \<lparr>se_id = sid, se_tokenHash = ae_sha env token, se_userId = userId,
          se_expiresAt = now + SESSION_MS, se_revokedAt = None, se_lastSeenAt = now\<rparr> # ad_sessions db\<rparr>"

definition session_live :: "js_date \<Rightarrow> session_row \<Rightarrow> bool" where
  "session_live now s = (se_revokedAt s = None \<and> \<not> se_expiresAt s \<le> now)"

definition session_cookie :: "request \<Rightarrow> string option" where
  "session_cookie rq = rq_cookie rq ''ql_session''"

definition session_by_token :: "auth_env \<Rightarrow> auth_db \<Rightarrow> string \<Rightarrow> session_row option" where
  "session_by_token env db token = find (\<lambda>s. se_tokenHash s = ae_sha env token) (ad_sessions db)"

text \<open>The row is returned as it was read; the time it was last seen is written at most every five minutes.\<close>

definition get_current_session :: "auth_env \<Rightarrow> js_date \<Rightarrow> request \<Rightarrow> auth_db \<Rightarrow> auth_db \<times> session_row option" where
  "get_current_session env now rq db =
     (if \<not> str_truthy (session_cookie rq) then (db, None)
      else (case session_by_token env db (the (session_cookie rq)) of
          None \<Rightarrow> (db, None)
        | Some s \<Rightarrow>
           (if \<not> session_live now s then (db, None)
            else if now - se_lastSeenAt s > 5 * 60000
            then (db\<lparr>ad_sessions := update_rows (\<lambda>r. se_id r = se_id s) (\<lambda>r. r\<lparr>se_lastSeenAt := now\<rparr>) (ad_sessions db)\<rparr>, Some s)
            else (db, Some s))))"

definition get_current_user :: "auth_env \<Rightarrow> js_date \<Rightarrow> request \<Rightarrow> auth_db \<Rightarrow> auth_db \<times> user_row option" where
  "get_current_user env now rq db = (case get_current_session env now rq db of
       (db', s) \<Rightarrow> (db', Option.bind s (\<lambda>r. user_by_id db (se_userId r))))"

text \<open>The revocations: each is one statement over the rows that are not revoked yet.\<close>

definition revoke_where :: "js_date \<Rightarrow> (session_row \<Rightarrow> bool) \<Rightarrow> auth_db \<Rightarrow> auth_db" where
  "revoke_where now P db =
     db\<lparr>ad_sessions := update_rows (\<lambda>s. P s \<and> se_revokedAt s = None) (\<lambda>s. s\<lparr>se_revokedAt := Some now\<rparr>) (ad_sessions db)\<rparr>"

definition revoke_current_session :: "auth_env \<Rightarrow> js_date \<Rightarrow> request \<Rightarrow> auth_db \<Rightarrow> auth_db" where
  "revoke_current_session env now rq db =
     (if \<not> str_truthy (session_cookie rq) then db
      else revoke_where now (\<lambda>s. se_tokenHash s = ae_sha env (the (session_cookie rq))) db)"

text \<open>\<open>DELETE /api/auth/sessions\<close> for the session \<open>current\<close>: the answer is a status and the database after it.\<close>

definition delete_sessions :: "js_date \<Rightarrow> session_row \<Rightarrow> string option \<Rightarrow> auth_db \<Rightarrow> nat \<times> auth_db" where
  "delete_sessions now current target db =
     (if str_truthy target
      then (if the target = se_id current then (400, db)
            else if \<exists>s \<in> set (ad_sessions db). se_id s = the target \<and> se_userId s = se_userId current \<and> se_revokedAt s = None
            then (200, revoke_where now (\<lambda>s. se_id s = the target \<and> se_userId s = se_userId current) db)
            else (404, db))
      else (200, revoke_where now (\<lambda>s. se_userId s = se_userId current \<and> se_id s \<noteq> se_id current) db))"

section \<open>Sign-in\<close>

text \<open>
  \<open>POST /api/auth/login\<close> up to the session: the address, the account, the password, and the second factor
  of an account that has one.  The session is created after further awaits.
\<close>

definition login_check :: "auth_env \<Rightarrow> string \<Rightarrow> string \<Rightarrow> string \<Rightarrow> (string \<Rightarrow> factor option) \<Rightarrow> auth_db \<Rightarrow> (nat \<times> string) + user_row" where
  "login_check env rawEmail password code second db =
     (case normalize_email rawEmail of
        Inl e \<Rightarrow> Inl (400, e)
      | Inr email \<Rightarrow> (case user_by_email db email of
          None \<Rightarrow> Inl (401, ''Invalid email or password'')
        | Some u \<Rightarrow>
           (if \<not> ae_compare env password (us_password u) then Inl (401, ''Invalid email or password'')
            else if us_totpEnabledAt u \<noteq> None
            then (if trim code = [] then Inl (401, ''Authentication code required'')
                  else if second (trim code) = None then Inl (401, ''Invalid authentication code'')
                  else Inr u)
            else Inr u)))"

section \<open>Single sign-on and registration\<close>

text \<open>
  \<open>createSsoSession\<close>: the address an identity provider asserted (the profile is what the SAML library
  accepted), the connection of the workspace with the domains it allows, and the account, which is
  created when the address has none.  The profile's fields are JSON values; \<open>a||b||''\<close> takes the first
  truthy one.
\<close>

record sso_connection =
  sc_id :: string
  sc_workspaceId :: string
  sc_enabled :: bool
  sc_allowedDomains :: "string option"

definition sso_email :: "(string \<Rightarrow> json option) \<Rightarrow> string" where
  "sso_email profile = to_lower (trim (js_string
     (if json_truthy (profile ''email'') then the (profile ''email'')
      else if json_truthy (profile ''nameID'') then the (profile ''nameID'') else JStr [])))"

definition sso_connection_for :: "sso_connection list \<Rightarrow> string \<Rightarrow> string option \<Rightarrow> sso_connection option" where
  "sso_connection_for conns ws connectionId =
     find (\<lambda>c. sc_workspaceId c = ws \<and> sc_enabled c \<and> (str_truthy connectionId \<longrightarrow> sc_id c = the connectionId)) conns"

definition domain_allowed :: "sso_connection \<Rightarrow> string \<Rightarrow> bool" where
  "domain_allowed c email =
     (str_truthy (sc_allowedDomains c) \<longrightarrow>
       (let domains = filter nonempty (map (to_lower \<circ> trim) (split_on CHR '','' (the (sc_allowedDomains c))))
        in domains = [] \<or> list_ex (\<lambda>d. suffix (CHR ''@'' # d) email) domains))"

definition sso_check :: "sso_connection list \<Rightarrow> string \<Rightarrow> string option \<Rightarrow> (string \<Rightarrow> json option) \<Rightarrow> string thrown" where
  "sso_check conns ws connectionId profile =
     (let email = sso_email profile
      in if \<not> is_email email then Inl ''SAML response did not contain a valid email''
         else (case sso_connection_for conns ws connectionId of
             None \<Rightarrow> Inr email
           | Some c \<Rightarrow> if domain_allowed c email then Inr email else Inl ''Email domain is not allowed''))"

definition add_account :: "user_row \<Rightarrow> auth_db \<Rightarrow> auth_db" where
  "add_account u db = db\<lparr>ad_users := u # ad_users db\<rparr>"

definition sso_account :: "auth_env \<Rightarrow> string \<Rightarrow> string \<Rightarrow> string \<Rightarrow> string \<Rightarrow> auth_db \<Rightarrow> auth_db \<times> user_row" where
  "sso_account env uid salt secret email db = (case user_by_email db email of
       Some u \<Rightarrow> (db, u)
     | None \<Rightarrow> (let u = \<lparr>us_id = uid, us_email = email, us_password = ae_hash env salt secret, us_totpEnabledAt = None\<rparr>
         in (add_account u db, u)))"

text \<open>
  \<open>POST /api/auth/register\<close> up to the session.  The hash is awaited between the look-up of the address
  and the insert; the index on addresses makes the insert look again.
\<close>

definition register_account ::
  "auth_env \<Rightarrow> string \<Rightarrow> string \<Rightarrow> string \<Rightarrow> string \<Rightarrow> auth_db \<Rightarrow> (nat \<times> string) + auth_db \<times> user_row" where
  "register_account env uid salt rawEmail password db =
     (case normalize_email rawEmail of
        Inl e \<Rightarrow> Inl (400, e)
      | Inr email \<Rightarrow> (case validate_password password of
          Inl e \<Rightarrow> Inl (400, e)
        | Inr p \<Rightarrow>
           (if user_by_email db email \<noteq> None then Inl (409, ''An account already exists for this email'')
            else (let u = \<lparr>us_id = uid, us_email = email, us_password = ae_hash env salt p, us_totpEnabledAt = None\<rparr>
                  in Inr (add_account u db, u)))))"

section \<open>Passwords\<close>

text \<open>\<open>POST /api/account/password\<close>: the checks, the write of the new hash, and the revocation of the other sessions.\<close>

definition change_check :: "auth_env \<Rightarrow> string \<Rightarrow> string \<Rightarrow> user_row \<Rightarrow> (nat \<times> string) + string" where
  "change_check env current new u =
     (case validate_password new of
        Inl e \<Rightarrow> Inl (400, e)
      | Inr p \<Rightarrow>
         (if \<not> ae_compare env current (us_password u) then Inl (403, ''Current password is incorrect'')
          else if ae_compare env p (us_password u) then Inl (400, ''New password must be different from the current password'')
          else Inr p))"

definition set_password :: "string \<Rightarrow> string \<Rightarrow> auth_db \<Rightarrow> auth_db" where
  "set_password userId h db = db\<lparr>ad_users := update_rows (\<lambda>u. us_id u = userId) (\<lambda>u. u\<lparr>us_password := h\<rparr>) (ad_users db)\<rparr>"

definition revoke_other_sessions :: "auth_env \<Rightarrow> js_date \<Rightarrow> request \<Rightarrow> string \<Rightarrow> auth_db \<Rightarrow> auth_db" where
  "revoke_other_sessions env now rq userId db =
     revoke_where now (\<lambda>s. se_userId s = userId \<and> se_expiresAt s > now
       \<and> (str_truthy (session_cookie rq) \<longrightarrow> se_tokenHash s \<noteq> ae_sha env (the (session_cookie rq)))) db"

text \<open>\<open>POST /api/auth/reset\<close>: outstanding tokens are closed, then a fresh one is stored.\<close>

definition close_resets :: "js_date \<Rightarrow> string \<Rightarrow> auth_db \<Rightarrow> auth_db" where
  "close_resets now userId db =
     db\<lparr>ad_resets := update_rows (\<lambda>r. rs_userId r = userId \<and> rs_usedAt r = None) (\<lambda>r. r\<lparr>rs_usedAt := Some now\<rparr>) (ad_resets db)\<rparr>"

definition issue_reset :: "auth_env \<Rightarrow> js_date \<Rightarrow> string \<Rightarrow> string \<Rightarrow> string \<Rightarrow> auth_db \<Rightarrow> auth_db" where
  "issue_reset env now rid token userId db =
     db\<lparr>ad_resets := \<lparr>rs_id = rid, rs_tokenHash = ae_sha env token, rs_userId = userId, rs_usedAt = None,
          rs_expiresAt = now + RESET_TTL_MS\<rparr> # ad_resets db\<rparr>"

text \<open>\<open>POST /api/auth/reset/confirm\<close>: the token is read; the hash is awaited; one transaction writes all three tables.\<close>

definition reset_read :: "auth_env \<Rightarrow> js_date \<Rightarrow> string \<Rightarrow> string \<Rightarrow> auth_db \<Rightarrow> (nat \<times> string) + reset_row" where
  "reset_read env now token password db =
     (if token = [] then Inl (400, ''Reset token is required'')
      else (case validate_password password of
          Inl e \<Rightarrow> Inl (400, e)
        | Inr p \<Rightarrow> (case find (\<lambda>r. rs_tokenHash r = ae_sha env token) (ad_resets db) of
            None \<Rightarrow> Inl (410, ''This reset link is invalid or has expired'')
          | Some r \<Rightarrow> if rs_usedAt r \<noteq> None \<or> rs_expiresAt r \<le> now then Inl (410, ''This reset link is invalid or has expired'')
              else Inr r)))"

definition reset_write :: "js_date \<Rightarrow> reset_row \<Rightarrow> string \<Rightarrow> auth_db \<Rightarrow> auth_db" where
  "reset_write now r h db =
     revoke_where now (\<lambda>s. se_userId s = rs_userId r)
       ((set_password (rs_userId r) h db)\<lparr>ad_resets := update_rows (\<lambda>x. rs_id x = rs_id r) (\<lambda>x. x\<lparr>rs_usedAt := Some now\<rparr>) (ad_resets db)\<rparr>)"

section \<open>Requests in flight\<close>

text \<open>
  Sign-ins of the three kinds that still have to open their session, password changes before and after
  the write of the new hash, and resets that have read their token.  The log holds the sign-ins,
  newest first: the account and what it was admitted by.
\<close>

datatype session_entry = ByPassword user_row string | BySso user_row "sso_connection option" | is_registration: ByRegistration user_row

fun signed_in :: "session_entry \<Rightarrow> user_row" where
  "signed_in (ByPassword u _) = u"
| "signed_in (BySso u _) = u"
| "signed_in (ByRegistration u) = u"

record auth_world =
  aw_now :: js_date
  aw_db :: auth_db
  aw_logins :: "user_row list"
  aw_changing :: "(string \<times> string) list"
  aw_changed :: "(string \<times> request) list"
  aw_resets :: "(reset_row \<times> string) list"
  aw_log :: "session_entry list"

definition fresh_session :: "auth_env \<Rightarrow> auth_db \<Rightarrow> string \<Rightarrow> string \<Rightarrow> bool" where
  "fresh_session env db sid token =
     (\<forall>s \<in> set (ad_sessions db). se_id s \<noteq> sid \<and> se_tokenHash s \<noteq> ae_sha env token)"

definition fresh_account :: "auth_db \<Rightarrow> string \<Rightarrow> bool" where
  "fresh_account db uid = (uid \<notin> us_id ` set (ad_users db))"

text \<open>
  The steps.  \<open>accounts_written\<close> and \<open>account_added\<close> stand for the handlers that write other columns of
  accounts or provision accounts (the second factor, e-mail verification, SCIM); they keep the ids.
  Rows are not deleted: the erasure of an account is left out.
\<close>

inductive auth_step :: "auth_env \<Rightarrow> auth_world \<Rightarrow> auth_world \<Rightarrow> bool" for env where
  time_passes: "aw_now w \<le> t \<Longrightarrow> auth_step env w (w\<lparr>aw_now := t\<rparr>)"
| login_verified: "login_check env email password code second (aw_db w) = Inr u \<Longrightarrow>
    auth_step env w (w\<lparr>aw_logins := u # aw_logins w, aw_log := ByPassword u password # aw_log w\<rparr>)"
| sso_verified: "sso_check conns ws connectionId profile = Inr email \<Longrightarrow> fresh_account (aw_db w) uid \<Longrightarrow>
    sso_account env uid salt secret email (aw_db w) = (db', u) \<Longrightarrow>
    auth_step env w (w\<lparr>aw_db := db', aw_logins := u # aw_logins w, aw_log := BySso u (sso_connection_for conns ws connectionId) # aw_log w\<rparr>)"
| registered: "register_account env uid salt email password (aw_db w) = Inr (db', u) \<Longrightarrow> fresh_account (aw_db w) uid \<Longrightarrow>
    auth_step env w (w\<lparr>aw_db := db', aw_logins := u # aw_logins w, aw_log := ByRegistration u # aw_log w\<rparr>)"
| accounts_written: "map us_id us = map us_id (ad_users (aw_db w)) \<Longrightarrow>
    auth_step env w (w\<lparr>aw_db := (aw_db w)\<lparr>ad_users := us\<rparr>\<rparr>)"
| account_added: "fresh_account (aw_db w) (us_id u) \<Longrightarrow> auth_step env w (w\<lparr>aw_db := add_account u (aw_db w)\<rparr>)"
| login_opened: "u \<in> set (aw_logins w) \<Longrightarrow> fresh_session env (aw_db w) sid token \<Longrightarrow>
    auth_step env w (w\<lparr>aw_db := create_session env (aw_now w) sid token (us_id u) (aw_db w), aw_logins := remove1 u (aw_logins w)\<rparr>)"
| session_used: "auth_step env w (w\<lparr>aw_db := fst (get_current_session env (aw_now w) rq (aw_db w))\<rparr>)"
| signed_out: "auth_step env w (w\<lparr>aw_db := revoke_current_session env (aw_now w) rq (aw_db w)\<rparr>)"
| sessions_deleted: "auth_step env w (w\<lparr>aw_db := snd (delete_sessions (aw_now w) current target (aw_db w))\<rparr>)"
| change_checked: "u \<in> set (ad_users (aw_db w)) \<Longrightarrow> change_check env old new u = Inr p \<Longrightarrow>
    auth_step env w (w\<lparr>aw_changing := (us_id u, p) # aw_changing w\<rparr>)"
| change_written: "(i, p) \<in> set (aw_changing w) \<Longrightarrow>
    auth_step env w (w\<lparr>aw_db := set_password i (ae_hash env salt p) (aw_db w), aw_changed := (i, rq) # aw_changed w\<rparr>)"
| change_revoked: "(i, rq) \<in> set (aw_changed w) \<Longrightarrow>
    auth_step env w (w\<lparr>aw_db := revoke_other_sessions env (aw_now w) rq i (aw_db w)\<rparr>)"
| resets_closed: "auth_step env w (w\<lparr>aw_db := close_resets (aw_now w) i (aw_db w)\<rparr>)"
| reset_issued: "auth_step env w (w\<lparr>aw_db := issue_reset env (aw_now w) rid token i (aw_db w)\<rparr>)"
| reset_checked: "reset_read env (aw_now w) token p (aw_db w) = Inr r \<Longrightarrow>
    auth_step env w (w\<lparr>aw_resets := (r, p) # aw_resets w\<rparr>)"
| reset_written: "(r, p) \<in> set (aw_resets w) \<Longrightarrow>
    auth_step env w (w\<lparr>aw_db := reset_write (aw_now w) r (ae_hash env salt p) (aw_db w)\<rparr>)"

inductive auth_run :: "auth_env \<Rightarrow> auth_world \<Rightarrow> auth_world \<Rightarrow> bool" for env w where
  auth_here: "auth_run env w w"
| auth_on: "auth_run env w v \<Longrightarrow> auth_step env v v' \<Longrightarrow> auth_run env w v'"

section \<open>What the statements do to a session\<close>

text \<open>A statement other than the creation of a session keeps its rows apart from revoking or touching them.\<close>

definition session_later :: "session_row \<Rightarrow> session_row \<Rightarrow> bool" where
  "session_later s s' = (se_id s' = se_id s \<and> se_tokenHash s' = se_tokenHash s \<and> se_userId s' = se_userId s
     \<and> se_expiresAt s' = se_expiresAt s \<and> (se_revokedAt s \<noteq> None \<longrightarrow> se_revokedAt s' \<noteq> None))"

lemma session_later_refl [simp]: "session_later s s"
  by (simp add: session_later_def)

lemma update_rows_later:
  assumes "\<And>x. session_later x (f x)"
  shows "list_all2 session_later xs (update_rows P f xs)"
  unfolding update_rows_def using assms by (induction xs) auto

lemma sessions_same: "list_all2 session_later xs xs"
  by (induction xs) auto

lemma revoke_where_later: "list_all2 session_later (ad_sessions db) (ad_sessions (revoke_where now P db))"
  unfolding revoke_where_def by (simp add: update_rows_later session_later_def)

lemma reset_write_later: "list_all2 session_later (ad_sessions db) (ad_sessions (reset_write now r h db))"
proof -
  have "ad_sessions ((set_password (rs_userId r) h db)\<lparr>ad_resets := x\<rparr>) = ad_sessions db" for x
    by (simp add: set_password_def)
  then show ?thesis unfolding reset_write_def by (metis revoke_where_later)
qed

text \<open>What a sign-in was admitted by.\<close>

fun sign_in_ok :: "auth_env \<Rightarrow> session_entry \<Rightarrow> bool" where
  "sign_in_ok env (ByPassword u p) = ae_compare env p (us_password u)"
| "sign_in_ok env (BySso u c) = (is_email (us_email u) \<and> (case c of None \<Rightarrow> True | Some k \<Rightarrow> sc_enabled k \<and> domain_allowed k (us_email u)))"
| "sign_in_ok env (ByRegistration u) = True"

lemma sso_admits:
  assumes "sso_check conns ws cid profile = Inr email" "sso_account env uid salt secret email db = (db', u)"
  shows "sign_in_ok env (BySso u (sso_connection_for conns ws cid))" "ad_sessions db' = ad_sessions db"
    "us_id ` set (ad_users db) \<subseteq> us_id ` set (ad_users db')"
proof -
  have email: "is_email email" "case sso_connection_for conns ws cid of None \<Rightarrow> True | Some k \<Rightarrow> domain_allowed k email"
    using assms(1) by (auto simp: sso_check_def Let_def split: if_splits option.splits)
  have "us_email u = email" using assms(2)
    by (auto simp: sso_account_def user_by_email_def find_Some_iff Let_def split: option.splits)
  moreover have "sc_enabled k" if "sso_connection_for conns ws cid = Some k" for k
    using that by (auto simp: sso_connection_for_def find_Some_iff)
  ultimately show "sign_in_ok env (BySso u (sso_connection_for conns ws cid))" using email by (auto split: option.splits)
  show "ad_sessions db' = ad_sessions db" "us_id ` set (ad_users db) \<subseteq> us_id ` set (ad_users db')"
    using assms(2) by (auto simp: sso_account_def add_account_def Let_def split: option.splits)
qed

lemma registration_admits:
  assumes "register_account env uid salt email password db = Inr (db', u)"
  shows "us_id u = uid" "ad_sessions db' = ad_sessions db" "us_id ` set (ad_users db) \<subseteq> us_id ` set (ad_users db')"
  using assms by (auto simp: register_account_def add_account_def Let_def split: sum.splits if_splits)

text \<open>Every step is one of three kinds: it changes the rows of sessions at most in place, it admits a sign-in, or it opens a session.\<close>

lemma step_kinds:
  assumes "auth_step env w w'"
  shows "(list_all2 session_later (ad_sessions (aw_db w)) (ad_sessions (aw_db w')) \<and> aw_logins w' = aw_logins w \<and> aw_log w' = aw_log w)
    \<or> (\<exists>e db'. sign_in_ok env e \<and> (is_registration e \<longrightarrow> fresh_account (aw_db w) (us_id (signed_in e))) \<and> ad_sessions db' = ad_sessions (aw_db w)
        \<and> w' = w\<lparr>aw_db := db', aw_logins := signed_in e # aw_logins w, aw_log := e # aw_log w\<rparr>)
    \<or> (\<exists>u sid token. u \<in> set (aw_logins w) \<and> fresh_session env (aw_db w) sid token
        \<and> w' = w\<lparr>aw_db := create_session env (aw_now w) sid token (us_id u) (aw_db w), aw_logins := remove1 u (aw_logins w)\<rparr>)"
    (is "?kept \<or> ?admitted \<or> ?opened")
  using assms
proof cases
  case (login_verified email password code second u)
  have "ae_compare env password (us_password u)"
    using login_verified(2) by (auto simp: login_check_def Let_def split: sum.splits option.splits if_splits)
  then have ?admitted using login_verified(1)
    by (intro exI [of _ "ByPassword u password"] exI [of _ "aw_db w"]) simp
  then show ?thesis by blast
next
  case (sso_verified conns ws cid profile email uid salt secret db' u)
  then have ?admitted using sso_admits [OF sso_verified(2,4)]
    by (intro exI [of _ "BySso u (sso_connection_for conns ws cid)"] exI [of _ db']) simp
  then show ?thesis by blast
next
  case (registered uid salt email password db' u)
  then have ?admitted using registration_admits [OF registered(2)]
    by (intro exI [of _ "ByRegistration u"] exI [of _ db']) simp
  then show ?thesis by blast
next
  case (login_opened u sid token)
  then have ?opened by blast
  then show ?thesis by blast
qed (auto simp: sessions_same revoke_where_later reset_write_later set_password_def close_resets_def issue_reset_def
    get_current_session_def revoke_current_session_def delete_sessions_def revoke_other_sessions_def add_account_def
    update_rows_later session_later_def split: option.splits)

text \<open>No step takes an account away.\<close>

lemma update_rows_ids: "(\<And>x. us_id (f x) = us_id x) \<Longrightarrow> us_id ` set (update_rows P f us) = us_id ` set us"
  unfolding update_rows_def set_map image_image by (rule image_cong) auto

lemma set_password_ids [simp]: "us_id ` set (ad_users (set_password i h db)) = us_id ` set (ad_users db)"
  by (simp add: set_password_def update_rows_ids)

lemma step_accounts:
  assumes "auth_step env w w'"
  shows "us_id ` set (ad_users (aw_db w)) \<subseteq> us_id ` set (ad_users (aw_db w'))"
  using assms
proof cases
  case (sso_verified conns ws cid profile email uid salt secret db' u)
  then show ?thesis using sso_admits(3) [OF sso_verified(2,4)] by simp
next
  case (registered uid salt email password db' u)
  then show ?thesis using registration_admits(3) [OF registered(2)] by simp
next
  case (accounts_written us)
  then show ?thesis by (metis auth_db.select_convs(1) auth_db.surjective auth_db.update_convs(1) auth_world.select_convs(2)
      auth_world.surjective auth_world.update_convs(2) order_refl set_map)
next
  case (reset_written r p salt)
  have "us_id ` set (ad_users (reset_write now r h db)) = us_id ` set (ad_users db)" for now h db
    using set_password_ids [of "rs_userId r" h db] by (simp add: reset_write_def revoke_where_def)
  then show ?thesis using reset_written by simp
qed (auto simp: create_session_def get_current_session_def revoke_current_session_def delete_sessions_def revoke_other_sessions_def
    revoke_where_def close_resets_def issue_reset_def add_account_def split: option.splits)

lemma step_now: "auth_step env w w' \<Longrightarrow> aw_now w \<le> aw_now w'"
  by (cases rule: auth_step.cases) auto

section \<open>Dead sessions\<close>

definition token_dead :: "auth_env \<Rightarrow> auth_world \<Rightarrow> string \<Rightarrow> bool" where
  "token_dead env w token =
     ((\<exists>s \<in> set (ad_sessions (aw_db w)). se_tokenHash s = ae_sha env token)
      \<and> (\<forall>s \<in> set (ad_sessions (aw_db w)). se_tokenHash s = ae_sha env token \<longrightarrow> \<not> session_live (aw_now w) s))"

lemma later_dead: "session_later s s' \<Longrightarrow> t \<le> t' \<Longrightarrow> \<not> session_live t s \<Longrightarrow> \<not> session_live t' s'"
  by (auto simp: session_later_def session_live_def)

lemma later_back: "list_all2 session_later xs ys \<Longrightarrow> y \<in> set ys \<Longrightarrow> \<exists>x \<in> set xs. session_later x y"
  by (induction rule: list_all2_induct) auto

lemma later_forth: "list_all2 session_later xs ys \<Longrightarrow> x \<in> set xs \<Longrightarrow> \<exists>y \<in> set ys. session_later x y"
  by (induction rule: list_all2_induct) auto

lemma later_hash: "session_later s s' \<Longrightarrow> se_tokenHash s' = se_tokenHash s"
  by (simp add: session_later_def)

lemma token_dead_step:
  assumes "auth_step env w w'" "token_dead env w token"
  shows "token_dead env w' token"
proof -
  have t: "aw_now w \<le> aw_now w'" using assms(1) by (rule step_now)
  obtain s where s: "s \<in> set (ad_sessions (aw_db w))" "se_tokenHash s = ae_sha env token"
    using assms(2) by (auto simp: token_dead_def)
  have old: "\<not> session_live (aw_now w) r" if "r \<in> set (ad_sessions (aw_db w))" "se_tokenHash r = ae_sha env token" for r
    using assms(2) that by (auto simp: token_dead_def)
  from step_kinds [OF assms(1)] show ?thesis
  proof (elim disjE conjE exE)
    assume later: "list_all2 session_later (ad_sessions (aw_db w)) (ad_sessions (aw_db w'))"
    obtain y where y: "y \<in> set (ad_sessions (aw_db w'))" "session_later s y" using later_forth [OF later s(1)] by blast
    have "\<not> session_live (aw_now w') z" if z: "z \<in> set (ad_sessions (aw_db w'))" "se_tokenHash z = ae_sha env token" for z
    proof -
      obtain x where x: "x \<in> set (ad_sessions (aw_db w))" "session_later x z" using later_back [OF later z(1)] by blast
      show ?thesis using later_dead [OF x(2) t] old x z(2) later_hash [OF x(2)] by auto
    qed
    then show ?thesis using y s(2) later_hash [OF y(2)] by (auto simp: token_dead_def)
  next
    fix e db'
    assume "ad_sessions db' = ad_sessions (aw_db w)"
      "w' = w\<lparr>aw_db := db', aw_logins := signed_in e # aw_logins w, aw_log := e # aw_log w\<rparr>"
    then show ?thesis using s old by (auto simp: token_dead_def)
  next
    fix u sid t'
    assume n: "fresh_session env (aw_db w) sid t'"
      "w' = w\<lparr>aw_db := create_session env (aw_now w) sid t' (us_id u) (aw_db w), aw_logins := remove1 u (aw_logins w)\<rparr>"
    have "ae_sha env t' \<noteq> ae_sha env token" using n(1) s by (auto simp: fresh_session_def)
    then show ?thesis using n(2) s old by (auto simp: token_dead_def create_session_def)
  qed
qed

lemma token_dead_run: "auth_run env w w' \<Longrightarrow> token_dead env w token \<Longrightarrow> token_dead env w' token"
  by (induction rule: auth_run.induct) (auto intro: token_dead_step)

lemma find_SomeD: "find P xs = Some x \<Longrightarrow> x \<in> set xs \<and> P x"
  by (auto simp: find_Some_iff)

lemma token_dead_refused:
  assumes "token_dead env w token" "session_cookie rq = Some token"
  shows "snd (get_current_session env (aw_now w) rq (aw_db w)) = None"
proof -
  have "\<not> session_live (aw_now w) s" if "session_by_token env (aw_db w) token = Some s" for s
    using that assms(1) by (auto simp: session_by_token_def token_dead_def dest: find_SomeD)
  then show ?thesis using assms(2) by (auto simp: get_current_session_def split: option.splits)
qed

section \<open>After a reset\<close>

definition live_of :: "js_date \<Rightarrow> string \<Rightarrow> auth_db \<Rightarrow> nat" where
  "live_of now i db = length (filter (\<lambda>s. se_userId s = i \<and> session_live now s) (ad_sessions db))"

definition logins_of :: "string \<Rightarrow> auth_world \<Rightarrow> nat" where
  "logins_of i w = length (filter (\<lambda>u. us_id u = i) (aw_logins w))"

lemma live_later:
  assumes "list_all2 session_later xs ys" "t \<le> t'"
  shows "length (filter (\<lambda>s. se_userId s = i \<and> session_live t' s) ys) \<le> length (filter (\<lambda>s. se_userId s = i \<and> session_live t s) xs)"
  using assms(1)
proof (induction rule: list_all2_induct)
  case (Cons x xs y ys)
  have "se_userId y = se_userId x" "session_live t' y \<Longrightarrow> session_live t x"
    using Cons.hyps(1) later_dead [OF Cons.hyps(1) assms(2)] by (auto simp: session_later_def)
  then show ?case using Cons.IH by auto
qed simp

lemma filter_remove1_count:
  "x \<in> set xs \<Longrightarrow> P x \<Longrightarrow> Suc (length (filter P (remove1 x xs))) = length (filter P xs)"
  by (induction xs) auto

lemma filter_remove1_other: "\<not> P x \<Longrightarrow> length (filter P (remove1 x xs)) = length (filter P xs)"
  by (induction xs) auto

lemma filter_remove1_le: "length (filter P (remove1 x xs)) \<le> length (filter P xs)"
  by (induction xs) auto

text \<open>The sign-ins of an account that exists: by its password or by single sign-on.\<close>

definition sign_ins_of :: "string \<Rightarrow> session_entry list \<Rightarrow> nat" where
  "sign_ins_of i es = length (filter (\<lambda>e. us_id (signed_in e) = i \<and> \<not> is_registration e) es)"

text \<open>The invariant of a run: sessions and sign-ins in flight of an account are paid for by sign-ins.\<close>

definition paid_by :: "auth_env \<Rightarrow> string \<Rightarrow> session_entry list \<Rightarrow> auth_world \<Rightarrow> bool" where
  "paid_by env i base w = (i \<in> us_id ` set (ad_users (aw_db w)) \<and> (\<exists>new. aw_log w = new @ base \<and> list_all (sign_in_ok env) new
     \<and> live_of (aw_now w) i (aw_db w) + logins_of i w \<le> sign_ins_of i new))"

lemma paid_by_mono:
  assumes "paid_by env i base w" "aw_log w' = aw_log w" "us_id ` set (ad_users (aw_db w)) \<subseteq> us_id ` set (ad_users (aw_db w'))"
    "live_of (aw_now w') i (aw_db w') + logins_of i w' \<le> live_of (aw_now w) i (aw_db w) + logins_of i w"
  shows "paid_by env i base w'"
  using assms(1,3) order_trans [OF assms(4)] unfolding paid_by_def assms(2) by blast

lemma live_create:
  "live_of (aw_now w) i (create_session env (aw_now w) sid t j db) \<le> (if j = i then 1 else 0) + live_of (aw_now w) i db"
  by (auto simp: live_of_def create_session_def)

lemma logins_same: "aw_logins w' = aw_logins w \<Longrightarrow> logins_of i w' = logins_of i w"
  by (simp add: logins_of_def)

lemma paid_by_step:
  assumes "auth_step env w w'" "paid_by env i base w"
  shows "paid_by env i base w'"
proof -
  note ids = step_accounts [OF assms(1)]
  from step_kinds [OF assms(1)] show ?thesis
  proof (elim disjE conjE exE)
    assume "list_all2 session_later (ad_sessions (aw_db w)) (ad_sessions (aw_db w'))" "aw_logins w' = aw_logins w" "aw_log w' = aw_log w"
    then show ?thesis
      using paid_by_mono [OF assms(2) _ ids] live_later step_now [OF assms(1)] by (simp add: live_of_def logins_of_def)
  next
    fix e db'
    assume e: "sign_in_ok env e" "is_registration e \<longrightarrow> fresh_account (aw_db w) (us_id (signed_in e))"
      "ad_sessions db' = ad_sessions (aw_db w)"
      "w' = w\<lparr>aw_db := db', aw_logins := signed_in e # aw_logins w, aw_log := e # aw_log w\<rparr>"
    obtain new where n: "i \<in> us_id ` set (ad_users (aw_db w))" "aw_log w = new @ base" "list_all (sign_in_ok env) new"
      "live_of (aw_now w) i (aw_db w) + logins_of i w \<le> sign_ins_of i new"
      using assms(2) by (auto simp: paid_by_def)
    have "us_id (signed_in e) \<noteq> i" if "is_registration e" using e(2) n(1) that by (auto simp: fresh_account_def)
    then have "live_of (aw_now w') i (aw_db w') + logins_of i w' \<le> sign_ins_of i (e # new)"
      using n(4) e(3,4) by (auto simp: live_of_def logins_of_def sign_ins_of_def)
    then show ?thesis unfolding paid_by_def
      using n ids e(1,4) by (intro conjI exI [of _ "e # new"]) auto
  next
    fix u sid token
    assume o: "u \<in> set (aw_logins w)"
      "w' = w\<lparr>aw_db := create_session env (aw_now w) sid token (us_id u) (aw_db w), aw_logins := remove1 u (aw_logins w)\<rparr>"
    have "live_of (aw_now w') i (aw_db w') \<le> (if us_id u = i then 1 else 0) + live_of (aw_now w) i (aw_db w)"
      using live_create [of w i env sid token "us_id u" "aw_db w"] o(2) by simp
    moreover have "logins_of i w = (if us_id u = i then 1 else 0) + logins_of i w'"
      using o filter_remove1_count [of u "aw_logins w" "\<lambda>u. us_id u = i"] filter_remove1_other [of "\<lambda>u. us_id u = i" u]
      by (auto simp: logins_of_def)
    ultimately show ?thesis using paid_by_mono [OF assms(2) _ ids] o(2) by simp
  qed
qed

lemma paid_by_run: "auth_run env w w' \<Longrightarrow> paid_by env i base w \<Longrightarrow> paid_by env i base w'"
  by (induction rule: auth_run.induct) (auto intro: paid_by_step)

lemma reset_write_kills: "live_of now (rs_userId r) (reset_write now r h db) = 0"
  by (auto simp: live_of_def reset_write_def revoke_where_def set_password_def update_rows_def session_live_def filter_empty_conv)

section \<open>Theorems\<close>

text \<open>
  C29: A session token whose session has ended, by sign-out, revocation, a password change, a reset or
  the passing of time, never authenticates a request again, whatever sign-ins, changes, resets and
  revocations follow it in whatever order.
\<close>

theorem ended_sessions_stay_ended:
  assumes "auth_run env w w'" "s \<in> set (ad_sessions (aw_db w))" "se_tokenHash s = ae_sha env token"
    "distinct (map se_tokenHash (ad_sessions (aw_db w)))" "\<not> session_live (aw_now w) s" "session_cookie rq = Some token"
  shows "snd (get_current_session env (aw_now w') rq (aw_db w')) = None"
proof -
  have inj: "inj_on se_tokenHash (set (ad_sessions (aw_db w)))" using assms(4) by (simp add: distinct_map)
  have "r = s" if "r \<in> set (ad_sessions (aw_db w))" "se_tokenHash r = ae_sha env token" for r
    by (rule inj_onD [OF inj _ that(1) assms(2)]) (simp only: that(2) assms(3))
  then have "\<not> session_live (aw_now w) r" if "r \<in> set (ad_sessions (aw_db w))" "se_tokenHash r = ae_sha env token" for r
    using assms(5) that by blast
  then have "token_dead env w token" unfolding token_dead_def using assms(2,3) by blast
  then show ?thesis by (rule token_dead_refused [OF token_dead_run [OF assms(1)] assms(6)])
qed

lemma reset_write_keeps_ids: "us_id ` set (ad_users (reset_write now r h db)) = us_id ` set (ad_users db)"
  using set_password_ids [of "rs_userId r" h db] by (simp add: reset_write_def revoke_where_def)


section \<open>Sample runs\<close>

definition demo_auth :: auth_env where
  "demo_auth = \<lparr>ae_sha = (\<lambda>t. CHR ''#'' # t), ae_hash = (\<lambda>salt p. salt @ p), ae_compare = (\<lambda>p h. drop 1 h = p)\<rparr>"

definition ann :: user_row where
  "ann = \<lparr>us_id = ''u1'', us_email = ''ann@example.org'', us_password = ''$old password 1'', us_totpEnabledAt = None\<rparr>"

definition ann_session :: session_row where
  "ann_session = \<lparr>se_id = ''s1'', se_tokenHash = ''#t1'', se_userId = ''u1'', se_expiresAt = 5000, se_revokedAt = None, se_lastSeenAt = 900\<rparr>"

definition ann_reset :: reset_row where
  "ann_reset = \<lparr>rs_id = ''r1'', rs_tokenHash = ''#k1'', rs_userId = ''u1'', rs_usedAt = None, rs_expiresAt = 4000\<rparr>"

definition demo_auth_db :: auth_db where
  "demo_auth_db = \<lparr>ad_users = [ann], ad_sessions = [ann_session], ad_resets = [ann_reset]\<rparr>"

definition demo_auth_world :: auth_world where
  "demo_auth_world = \<lparr>aw_now = 1000, aw_db = demo_auth_db, aw_logins = [], aw_changing = [], aw_changed = [],
     aw_resets = [(ann_reset, ''new password 2'')], aw_log = []\<rparr>"

definition cookie_request :: "string \<Rightarrow> request" where
  "cookie_request t = \<lparr>rq_header = (\<lambda>_. None), rq_cookie = (\<lambda>n. if n = ''ql_session'' then Some t else None), rq_params = [], rq_hostname = []\<rparr>"

definition ann_again :: user_row where
  "ann_again = ann\<lparr>us_password := ''$new password 2''\<rparr>"

lemmas demo_auth_defs = demo_auth_world_def demo_auth_db_def ann_def ann_session_def ann_reset_def demo_auth_def

lemma ann_email: "normalize_email ''ann@example.org'' = Inr ''ann@example.org''"
  by (simp add: normalize_email_def is_email_def mail_char_def is_ws_def to_lower_def lower_char_def trim_def is_upper_def Let_def)

lemma login_after_reset:
  "login_check demo_auth ''ann@example.org'' ''new password 2'' [] (\<lambda>_. None)
     (reset_write 1000 ann_reset (ae_hash demo_auth ''$'' ''new password 2'') demo_auth_db) = Inr ann_again"
  by (simp add: login_check_def ann_email user_by_email_def reset_write_def revoke_where_def set_password_def update_rows_def
      demo_auth_defs ann_again_def)

lemma ended_sessions_stay_ended_witness:
  "snd (get_current_session demo_auth 6000 (cookie_request ''t1'') demo_auth_db) = None"
proof -
  have "auth_run demo_auth (demo_auth_world\<lparr>aw_now := 5500\<rparr>) (demo_auth_world\<lparr>aw_now := 5500\<rparr>\<lparr>aw_now := 6000\<rparr>)"
    by (rule auth_on [OF auth_here time_passes]) (simp add: demo_auth_world_def)
  from ended_sessions_stay_ended [OF this, of ann_session "''t1''" "cookie_request ''t1''"] show ?thesis
    by (simp add: demo_auth_defs session_live_def session_cookie_def cookie_request_def)
qed


section \<open>What the awaits leave open\<close>

text \<open>A sign-in that verified the old password before a reset opens its session after it: the reset does not end it.\<close>

lemma login_survives_reset:
  "\<exists>w. auth_run demo_auth demo_auth_world w \<and> live_of (aw_now w) ''u1'' (aw_db w) = 1
     \<and> us_password (hd (ad_users (aw_db w))) = ''$new password 2'' \<and> aw_log w = [ByPassword ann ''old password 1'']"
proof -
  let ?h = "ae_hash demo_auth ''$'' ''new password 2''"
  let ?w1 = "demo_auth_world\<lparr>aw_logins := [ann], aw_log := [ByPassword ann ''old password 1'']\<rparr>"
  let ?db = "reset_write 1000 ann_reset ?h demo_auth_db"
  let ?w2 = "?w1\<lparr>aw_db := ?db\<rparr>"
  let ?w3 = "?w2\<lparr>aw_db := create_session demo_auth 1000 ''s2'' ''t2'' ''u1'' ?db, aw_logins := []\<rparr>"
  have "login_check demo_auth ''ann@example.org'' ''old password 1'' [] (\<lambda>_. None) demo_auth_db = Inr ann"
    by (simp add: login_check_def ann_email user_by_email_def demo_auth_defs)
  then have "auth_step demo_auth demo_auth_world ?w1"
    using login_verified [of demo_auth "''ann@example.org''" "''old password 1''" "[]" "\<lambda>_. None" demo_auth_world ann]
    by (simp add: demo_auth_world_def)
  moreover have "auth_step demo_auth ?w1 ?w2"
    using reset_written [of ann_reset "''new password 2''" ?w1 demo_auth "''$''"] by (simp add: demo_auth_world_def)
  moreover have "auth_step demo_auth ?w2 ?w3"
    using login_opened [of ann ?w2 demo_auth "''s2''" "''t2''"]
    by (simp add: demo_auth_defs fresh_session_def reset_write_def revoke_where_def set_password_def update_rows_def)
  ultimately have run: "auth_run demo_auth demo_auth_world ?w3" by (rule auth_on [OF auth_on [OF auth_on [OF auth_here]]])
  have "live_of 1000 ''u1'' (create_session demo_auth 1000 ''s2'' ''t2'' ''u1'' ?db) = 1"
    using reset_write_kills [of 1000 ann_reset]
    by (simp add: live_of_def create_session_def session_live_def SESSION_MS_def ann_reset_def)
  moreover have "us_password (hd (ad_users (aw_db ?w3))) = ''$new password 2''"
    by (simp add: demo_auth_defs reset_write_def revoke_where_def set_password_def update_rows_def create_session_def)
  ultimately show ?thesis using run by (intro exI [of _ ?w3]) (simp add: demo_auth_world_def)
qed

text \<open>Two confirmations that read a reset token before either has written both set the password.\<close>

lemma reset_token_used_twice:
  assumes "reset_read env now token p db = Inr r" "reset_read env now token q db = Inr r'"
    "us_id u = rs_userId r" "ad_users db = [u]"
  shows "r' = r \<and> map us_password (ad_users (reset_write now r' (ae_hash env s q) (reset_write now r (ae_hash env s p) db))) = [ae_hash env s q]"
  using assms
  by (auto simp: reset_read_def reset_write_def revoke_where_def set_password_def update_rows_def validate_password_def
      split: if_splits option.splits sum.splits)

text \<open>One after the other, the second confirmation is refused.\<close>

lemma reset_token_single_use:
  assumes "reset_read env now token p db = Inr r"
  shows "reset_read env later token q (reset_write now r h db) = Inl (410, ''This reset link is invalid or has expired'')
    \<or> (\<exists>e. reset_read env later token q (reset_write now r h db) = Inl (400, e))"
proof -
  have r: "find (\<lambda>r. rs_tokenHash r = ae_sha env token) (ad_resets db) = Some r"
    using assms by (auto simp: reset_read_def split: if_splits option.splits sum.splits)
  have "find (\<lambda>r. rs_tokenHash r = ae_sha env token) (update_rows (\<lambda>x. rs_id x = rs_id r) (\<lambda>x. x\<lparr>rs_usedAt := Some now\<rparr>) rs) = Some (r\<lparr>rs_usedAt := Some now\<rparr>)"
    if "find (\<lambda>r. rs_tokenHash r = ae_sha env token) rs = Some r" for rs
    using that by (induction rs) (auto simp: update_rows_def split: if_splits)
  then show ?thesis using r
    by (auto simp: reset_read_def reset_write_def revoke_where_def set_password_def split: sum.splits)
qed

text \<open>
  A workspace's identity provider signs in as any account of the site: the account is found by its address
  alone, whatever workspace it belongs to and whatever second factor it has, and no handler sets the
  allowed domains.
\<close>

lemma sso_signs_in_as_anyone:
  assumes "user_by_email db e = Some u" "is_email e" "to_lower (trim e) = e"
    "sso_connection_for conns ws cid = Some c" "sc_allowedDomains c = None"
  shows "sso_check conns ws cid [''email'' \<mapsto> JStr e] = Inr e \<and> sso_account env uid salt secret e db = (db, u)"
proof -
  have "e \<noteq> []" using assms(2) by (auto simp: is_email_def)
  then show ?thesis using assms
    by (simp add: sso_check_def sso_email_def sso_account_def domain_allowed_def)
qed

end
