(* ===== verification/Access.thy ===== *)
theory Access
  imports Sessions IpAllowlist RateLimit
begin

text \<open>
  Who may do what (\<open>src/lib/folders.ts\<close>, \<open>workspaces.ts\<close>, \<open>api-keys.ts\<close>, \<open>request-actor.ts\<close>, \<open>management.ts\<close>
  and \<open>authorization.ts\<close>): roles in workspaces and folders, API keys with their scopes, expiry,
  allowlists and rotation, management tokens, and the check before a link is changed.  The filter
  of the link lists is proved equivalent to the role function, and the life of keys is a step
  relation in which rotations work with rows read earlier.
\<close>

section \<open>Roles\<close>

datatype role = Viewer | Analyst | Editor | Admin | Owner

fun role_rank :: "role \<Rightarrow> nat" where
  "role_rank Viewer = 0"
| "role_rank Analyst = 1"
| "role_rank Editor = 2"
| "role_rank Admin = 3"
| "role_rank Owner = 4"

lemma role_rank_inj: "role_rank a = role_rank b \<Longrightarrow> a = b"
  by (cases a; cases b) auto

instantiation role :: linorder
begin

definition less_eq_role :: "role \<Rightarrow> role \<Rightarrow> bool" where
  "less_eq_role a b = (role_rank a \<le> role_rank b)"

definition less_role :: "role \<Rightarrow> role \<Rightarrow> bool" where
  "less_role a b = (role_rank a < role_rank b)"

instance
  by standard (auto simp: less_eq_role_def less_role_def intro: role_rank_inj)

end

definition FOLDER_ADMINS :: "role list" where "FOLDER_ADMINS = [Owner, Admin]"
definition EDIT_ROLES :: "role list" where "EDIT_ROLES = [Owner, Admin, Editor]"
definition ANALYTICS_ROLES :: "role list" where "ANALYTICS_ROLES = [Owner, Admin, Editor, Analyst]"
definition READ_ROLES :: "role list" where "READ_ROLES = [Owner, Admin, Editor, Analyst, Viewer]"

definition lower_role :: "role \<Rightarrow> role \<Rightarrow> role" where
  "lower_role a b = (if role_rank a \<le> role_rank b then a else b)"

section \<open>Memberships and folders\<close>

record membership =
  mb_workspaceId :: string
  mb_userId :: string
  mb_role :: role

text \<open>A folder with the grants on it, by user.\<close>

record folder_row =
  fo_id :: string
  fo_workspaceId :: string
  fo_name :: string
  fo_restricted :: bool
  fo_access :: "(string \<times> role) list"
  fo_defaultTags :: "string list"
  fo_defaultUtmTemplateId :: "string option"

record team_db =
  tm_members :: "membership list"
  tm_folders :: "folder_row list"

definition membership_of :: "team_db \<Rightarrow> string \<Rightarrow> string \<Rightarrow> membership option" where
  "membership_of db ws user = find (\<lambda>m. mb_workspaceId m = ws \<and> mb_userId m = user) (tm_members db)"

definition folder_by_id :: "team_db \<Rightarrow> string \<Rightarrow> folder_row option" where
  "folder_by_id db i = find (\<lambda>f. fo_id f = i) (tm_folders db)"

definition grant_of :: "folder_row \<Rightarrow> string \<Rightarrow> role option" where
  "grant_of f user = map_of (fo_access f) user"

definition effective_folder_role :: "role option \<Rightarrow> bool option \<Rightarrow> role option \<Rightarrow> role option" where
  "effective_folder_role wr restricted grant =
     (case wr of
        None \<Rightarrow> None
      | Some r \<Rightarrow> if restricted \<noteq> Some True then Some r
          else if r \<in> set FOLDER_ADMINS then Some r
          else map_option (lower_role r) grant)"

definition role_within_folder :: "team_db \<Rightarrow> string \<Rightarrow> role option \<Rightarrow> string option \<Rightarrow> role option" where
  "role_within_folder db user wr folderId =
     (case wr of
        None \<Rightarrow> None
      | Some r \<Rightarrow>
         (if \<not> str_truthy folderId then Some r
          else if r \<in> set FOLDER_ADMINS then Some r
          else (let f = folder_by_id db (the folderId)
                in effective_folder_role wr (map_option fo_restricted f) (Option.bind f (\<lambda>f. grant_of f user)))))"

definition can_administer_folders :: "role option \<Rightarrow> bool" where
  "can_administer_folders r = (case r of None \<Rightarrow> False | Some x \<Rightarrow> x \<in> set FOLDER_ADMINS)"

definition folder_write_error :: "team_db \<Rightarrow> string \<Rightarrow> string \<Rightarrow> role \<Rightarrow> string \<Rightarrow> string option" where
  "folder_write_error db user ws wr folderId =
     (let folder = find (\<lambda>f. fo_id f = folderId \<and> fo_workspaceId f = ws) (tm_folders db);
          r = Option.bind folder (\<lambda>f. effective_folder_role (Some wr) (Some (fo_restricted f)) (grant_of f user))
      in (case r of
            None \<Rightarrow> Some ''Folder not found''
          | Some x \<Rightarrow> if x \<notin> set EDIT_ROLES then Some ''Editor permission on this folder is required'' else None))"

record folder_view =
  fv_id :: string
  fv_name :: string
  fv_restricted :: bool
  fv_linkCount :: nat
  fv_role :: "role option"
  fv_access :: "(string \<times> role) list option"

text \<open>The folders of a workspace in the order of the query; \<open>count\<close> gives the links outside the trash.\<close>

definition list_visible_folders :: "team_db \<Rightarrow> (string \<Rightarrow> nat) \<Rightarrow> string \<Rightarrow> string \<Rightarrow> role \<Rightarrow> folder_view list" where
  "list_visible_folders db count ws user wr =
     map (\<lambda>f. \<lparr>fv_id = fo_id f, fv_name = fo_name f, fv_restricted = fo_restricted f, fv_linkCount = count (fo_id f),
            fv_role = effective_folder_role (Some wr) (Some (fo_restricted f)) (grant_of f user),
            fv_access = (if wr \<in> set FOLDER_ADMINS then Some (fo_access f) else None)\<rparr>)
       (filter (\<lambda>f. fo_workspaceId f = ws \<and> (wr \<in> set FOLDER_ADMINS \<or> \<not> fo_restricted f \<or> grant_of f user \<noteq> None)) (tm_folders db))"

text \<open>\<open>s.trim().replace(/\s+/g, r)\<close>\<close>

definition collapse_ws :: "string \<Rightarrow> string \<Rightarrow> string" where
  "collapse_ws r s = join_with r (split_runs is_ws (trim s))"

definition normalize_folder_name :: "string \<Rightarrow> string thrown" where
  "normalize_folder_name input = (let name = collapse_ws '' '' input
     in if name = [] \<or> length name > 60 then Inl ''Folder name must be 1-60 characters'' else Inr name)"

definition require_workspace_role :: "team_db \<Rightarrow> string option \<Rightarrow> string \<Rightarrow> role list \<Rightarrow> (nat \<times> string) + membership" where
  "require_workspace_role db user ws allowed =
     (case Option.bind user (membership_of db ws) of
        None \<Rightarrow> Inl (401, ''Workspace access required'')
      | Some m \<Rightarrow> if mb_role m \<notin> set allowed then Inl (403, ''Insufficient workspace permissions'') else Inr m)"

section \<open>Roles on links\<close>

record link_access =
  la_userId :: "string option"
  la_workspaceId :: "string option"
  la_folderId :: "string option"

definition role_for_user :: "team_db \<Rightarrow> string \<Rightarrow> link_access \<Rightarrow> role option" where
  "role_for_user db user l =
     (if la_userId l = Some user then Some Owner
      else if \<not> str_truthy (la_workspaceId l) then None
      else role_within_folder db user (map_option mb_role (membership_of db (the (la_workspaceId l)) user)) (la_folderId l))"

text \<open>The filter of \<open>visibleUrlWhere\<close> on one link, relation by relation.\<close>

definition visible_url_where :: "team_db \<Rightarrow> string \<Rightarrow> link_access \<Rightarrow> bool" where
  "visible_url_where db user l =
     (la_userId l = Some user
      \<or> (case la_workspaceId l of None \<Rightarrow> False
         | Some ws \<Rightarrow> list_ex (\<lambda>m. mb_workspaceId m = ws \<and> mb_userId m = user \<and> mb_role m \<in> set FOLDER_ADMINS) (tm_members db))
      \<or> (case la_workspaceId l of None \<Rightarrow> False
         | Some ws \<Rightarrow> list_ex (\<lambda>m. mb_workspaceId m = ws \<and> mb_userId m = user) (tm_members db)
             \<and> (case la_folderId l of None \<Rightarrow> True
                | Some i \<Rightarrow> (case folder_by_id db i of None \<Rightarrow> False
                    | Some f \<Rightarrow> \<not> fo_restricted f \<or> list_ex (\<lambda>g. fst g = user) (fo_access f)))))"

text \<open>
  What the schema guarantees: one membership per workspace and user, the folder of a link exists, and
  ids are not empty.
\<close>

definition team_ok :: "team_db \<Rightarrow> bool" where
  "team_ok db = distinct (map (\<lambda>m. (mb_workspaceId m, mb_userId m)) (tm_members db))"

definition link_refs_ok :: "team_db \<Rightarrow> link_access \<Rightarrow> bool" where
  "link_refs_ok db l = (la_workspaceId l \<noteq> Some [] \<and> la_folderId l \<noteq> Some []
     \<and> (case la_folderId l of None \<Rightarrow> True | Some i \<Rightarrow> folder_by_id db i \<noteq> None))"

lemma list_ex_unique:
  assumes "distinct (map key xs)"
  shows "list_ex (\<lambda>m. key m = k \<and> P m) xs = (case find (\<lambda>m. key m = k) xs of None \<Rightarrow> False | Some m \<Rightarrow> P m)"
  using assms
proof (induction xs)
  case (Cons x xs)
  have "key m \<noteq> key x" if "m \<in> set xs" for m using Cons.prems that by (auto simp: image_iff)
  then have "\<not> list_ex (\<lambda>m. key m = key x \<and> P m) xs" by (auto simp: list_ex_iff)
  then show ?case using Cons by auto
qed simp

lemma list_ex_member:
  assumes "team_ok db"
  shows "list_ex (\<lambda>m. mb_workspaceId m = ws \<and> mb_userId m = user \<and> P m) (tm_members db)
    = (case membership_of db ws user of None \<Rightarrow> False | Some m \<Rightarrow> P m)"
  using list_ex_unique [of "\<lambda>m. (mb_workspaceId m, mb_userId m)" "tm_members db" "(ws, user)" P] assms
  by (simp add: team_ok_def membership_of_def conj_assoc)

lemma list_ex_grant: "list_ex (\<lambda>g. fst g = user) (fo_access f) = (grant_of f user \<noteq> None)"
  by (auto simp: grant_of_def map_of_eq_None_iff list_ex_iff)

text \<open>A role in a folder is never above the role in the workspace.\<close>

lemma effective_role_le: "effective_folder_role (Some wr) restricted grant = Some r \<Longrightarrow> r \<le> wr"
  by (auto simp: effective_folder_role_def lower_role_def less_eq_role_def split: if_splits)

lemma within_folder_le: "role_within_folder db user (Some wr) folderId = Some r \<Longrightarrow> r \<le> wr"
  by (auto simp: role_within_folder_def Let_def intro: effective_role_le split: if_splits)

lemma visible_iff_role_lemma:
  assumes "team_ok db" "link_refs_ok db l"
  shows "visible_url_where db user l \<longleftrightarrow> role_for_user db user l \<noteq> None"
proof (cases "la_workspaceId l")
  case None
  then show ?thesis by (simp add: visible_url_where_def role_for_user_def)
next
  case (Some ws)
  have ws: "str_truthy (Some ws)" using assms(2) Some by (auto simp: link_refs_ok_def str_truthy_iff)
  have m: "list_ex (\<lambda>m. mb_workspaceId m = ws \<and> mb_userId m = user \<and> mb_role m \<in> set FOLDER_ADMINS) (tm_members db)
      = (case membership_of db ws user of None \<Rightarrow> False | Some m \<Rightarrow> mb_role m \<in> set FOLDER_ADMINS)"
    "list_ex (\<lambda>m. mb_workspaceId m = ws \<and> mb_userId m = user) (tm_members db) = (membership_of db ws user \<noteq> None)"
    using list_ex_member [OF assms(1), of ws user "\<lambda>m. mb_role m \<in> set FOLDER_ADMINS"]
      list_ex_member [OF assms(1), of ws user "\<lambda>_. True"] by (simp_all split: option.splits)
  show ?thesis
  proof (cases "la_folderId l")
    case None
    then show ?thesis using Some ws m
      by (auto simp: visible_url_where_def role_for_user_def role_within_folder_def split: option.splits)
  next
    case (Some i)
    then obtain f where f: "folder_by_id db i = Some f" "str_truthy (Some i)"
      using assms(2) by (auto simp: link_refs_ok_def str_truthy_iff)
    show ?thesis using \<open>la_workspaceId l = Some ws\<close> Some ws m f
      by (auto simp: visible_url_where_def role_for_user_def role_within_folder_def effective_folder_role_def list_ex_grant
          split: option.splits)
  qed
qed

section \<open>API keys\<close>

definition MAX_API_KEY_TTL_DAYS :: int where "MAX_API_KEY_TTL_DAYS = 730"
definition LAST_USED_THROTTLE_MS :: int where "LAST_USED_THROTTLE_MS = 5 * 60000"
definition DAY_MS :: int where "DAY_MS = 86400000"

datatype 'a parsed = Absent | Invalid | Parsed 'a

text \<open>A JSON number that is an integer in a range.\<close>

definition int_between :: "int \<Rightarrow> int \<Rightarrow> json \<Rightarrow> int option" where
  "int_between lo hi v = (case v of JInt n \<Rightarrow> if n < lo \<or> n > hi then None else Some n | _ \<Rightarrow> None)"

definition parse_api_key_expiry :: "js_date \<Rightarrow> json option \<Rightarrow> js_date parsed" where
  "parse_api_key_expiry now value =
     (if nullish value then Absent
      else (case int_between 1 MAX_API_KEY_TTL_DAYS (the value) of None \<Rightarrow> Invalid | Some n \<Rightarrow> Parsed (now + n * DAY_MS)))"

definition DEFAULT_ROTATION_GRACE_HOURS :: int where "DEFAULT_ROTATION_GRACE_HOURS = 24"
definition MAX_ROTATION_GRACE_HOURS :: int where "MAX_ROTATION_GRACE_HOURS = 168"

definition parse_rotation_grace :: "json option \<Rightarrow> int option" where
  "parse_rotation_grace value =
     (if nullish value then Some DEFAULT_ROTATION_GRACE_HOURS else int_between 0 MAX_ROTATION_GRACE_HOURS (the value))"

definition rotated_key_expiry :: "js_date option \<Rightarrow> int \<Rightarrow> js_date \<Rightarrow> js_date" where
  "rotated_key_expiry existing graceHours now =
     (let graceEnd = now + graceHours * 3600000
      in (case existing of None \<Rightarrow> graceEnd | Some e \<Rightarrow> if e < graceEnd then e else graceEnd))"

record api_key_row =
  ak_id :: string
  ak_userId :: string
  ak_keyHash :: string
  ak_scopes :: string
  ak_allowedIps :: "string list"
  ak_expiresAt :: "js_date option"
  ak_revokedAt :: "js_date option"
  ak_lastUsedAt :: "js_date option"

text \<open>\<open>replace(/^Bearer\s+/i, '')\<close>\<close>

definition strip_bearer :: "string \<Rightarrow> string" where
  "strip_bearer s = (if to_lower (take 6 s) = ''bearer'' \<and> drop 6 s \<noteq> [] \<and> is_ws (hd (drop 6 s)) then dropWhile is_ws (drop 6 s) else s)"

definition bearer_or :: "request \<Rightarrow> string \<Rightarrow> string option" where
  "bearer_or rq header = or_str (rq_header rq header) (map_option strip_bearer (rq_header rq ''authorization''))"

definition extract_api_key :: "request \<Rightarrow> string option" where
  "extract_api_key rq = (case bearer_or rq ''x-api-key'' of
       Some h \<Rightarrow> if prefix ''qlk_'' h then Some h else None | None \<Rightarrow> None)"

record api_key_auth =
  aa_userId :: string
  aa_apiKeyId :: string
  aa_scopes :: "string list"

definition scopes_of :: "string \<Rightarrow> string list" where
  "scopes_of s = filter nonempty (split_runs ws_or_comma s)"

definition key_live :: "js_date \<Rightarrow> api_key_row \<Rightarrow> bool" where
  "key_live now k = (ak_revokedAt k = None \<and> (case ak_expiresAt k of None \<Rightarrow> True | Some e \<Rightarrow> \<not> e \<le> now))"

text \<open>
  The key is looked up by its hash; a dead key and an address outside its list are refused, and the use is
  written at most every five minutes.  The address test throws for some mapped addresses.
\<close>

definition authenticate_api_key :: "(string \<Rightarrow> string) \<Rightarrow> string option \<Rightarrow> js_date \<Rightarrow> request \<Rightarrow> api_key_row list \<Rightarrow> (api_key_row list \<times> api_key_auth option) thrown" where
  "authenticate_api_key sha hops now rq keys =
     (case extract_api_key rq of
        None \<Rightarrow> Inr (keys, None)
      | Some key \<Rightarrow> (case find (\<lambda>k. ak_keyHash k = sha key) keys of
          None \<Rightarrow> Inr (keys, None)
        | Some k \<Rightarrow>
           (if \<not> key_live now k then Inr (keys, None)
            else (case ip_allowed (get_client_ip hops rq) (ak_allowedIps k) of
                None \<Rightarrow> Inl ''Cannot convert null to a BigInt''
              | Some False \<Rightarrow> Inr (keys, None)
              | Some True \<Rightarrow>
                 Inr (if (case ak_lastUsedAt k of None \<Rightarrow> True | Some t \<Rightarrow> now - t \<ge> LAST_USED_THROTTLE_MS)
                      then update_rows (\<lambda>r. ak_id r = ak_id k) (\<lambda>r. r\<lparr>ak_lastUsedAt := Some now\<rparr>) keys else keys,
                      Some \<lparr>aa_userId = ak_userId k, aa_apiKeyId = ak_id k, aa_scopes = scopes_of (ak_scopes k)\<rparr>)))))"

definition api_key_matches :: "(string \<Rightarrow> string) \<Rightarrow> string \<Rightarrow> string \<Rightarrow> bool" where
  "api_key_matches sha supplied stored =
     (length (utf8 (sha supplied)) = length (utf8 stored) \<and> utf8 (sha supplied) = utf8 stored)"

definition has_api_scope :: "api_key_auth \<Rightarrow> string \<Rightarrow> bool" where
  "has_api_scope auth scope = (''*'' \<in> set (aa_scopes auth) \<or> scope \<in> set (aa_scopes auth))"

definition has_any_api_scope :: "api_key_auth \<Rightarrow> string list \<Rightarrow> bool" where
  "has_any_api_scope auth scopes = list_ex (has_api_scope auth) scopes"

section \<open>Actors\<close>

definition LINK_READ_SCOPES :: "string list" where "LINK_READ_SCOPES = [''links:read'', ''links:write'']"
definition LINK_WRITE_SCOPES :: "string list" where "LINK_WRITE_SCOPES = [''links:write'']"
definition ANALYTICS_READ_SCOPES :: "string list" where
  "ANALYTICS_READ_SCOPES = [''analytics:read'', ''links:read'', ''links:write'']"

record access_db =
  xa_auth :: auth_db
  xa_keys :: "api_key_row list"
  xa_team :: team_db

text \<open>What a request is checked against: the hashes, the number of trusted proxies, the clock.\<close>

record access_env =
  xe_auth :: auth_env
  xe_hops :: "string option"
  xe_now :: js_date

datatype actor = SessionActor string | KeyActor string api_key_auth

fun actor_user :: "actor \<Rightarrow> string" where
  "actor_user (SessionActor u) = u"
| "actor_user (KeyActor u a) = u"

definition current_user_id :: "access_env \<Rightarrow> request \<Rightarrow> access_db \<Rightarrow> access_db \<times> string option" where
  "current_user_id env rq db = (case get_current_user (xe_auth env) (xe_now env) rq (xa_auth db) of
       (a, u) \<Rightarrow> (db\<lparr>xa_auth := a\<rparr>, map_option us_id u))"

definition key_of_request :: "access_env \<Rightarrow> request \<Rightarrow> access_db \<Rightarrow> (access_db \<times> api_key_auth option) thrown" where
  "key_of_request env rq db =
     map_sum id (\<lambda>(ks, a). (db\<lparr>xa_keys := ks\<rparr>, a)) (authenticate_api_key (ae_sha (xe_auth env)) (xe_hops env) (xe_now env) rq (xa_keys db))"

definition resolve_actor :: "access_env \<Rightarrow> request \<Rightarrow> string list \<Rightarrow> access_db \<Rightarrow> (access_db \<times> ((nat \<times> string) + actor)) thrown" where
  "resolve_actor env rq scopes db =
     (if str_truthy (extract_api_key rq)
      then (case key_of_request env rq db of
          Inl e \<Rightarrow> Inl e
        | Inr (db', None) \<Rightarrow> Inr (db', Inl (401, ''Invalid or revoked API key''))
        | Inr (db', Some a) \<Rightarrow>
           (if \<not> has_any_api_scope a scopes then Inr (db', Inl (403, ''API key needs one of these scopes: '' @ join_with '', '' scopes))
            else Inr (db', Inr (KeyActor (aa_userId a) a))))
      else (case current_user_id env rq db of
          (db', None) \<Rightarrow> Inr (db', Inl (401, ''Authentication required''))
        | (db', Some u) \<Rightarrow> Inr (db', Inr (SessionActor u))))"

section \<open>Who may change a link\<close>

definition has_valid_management_token :: "(string \<Rightarrow> string) \<Rightarrow> request \<Rightarrow> string option \<Rightarrow> bool" where
  "has_valid_management_token sha rq stored =
     (str_truthy stored \<and> str_truthy (bearer_or rq ''x-management-token'')
      \<and> utf8 (sha (the (bearer_or rq ''x-management-token''))) = utf8 (the stored))"

text \<open>The management token, then the session, then the API key, each with the database it leaves.\<close>

definition can_manage_url :: "access_env \<Rightarrow> request \<Rightarrow> string option \<Rightarrow> link_access \<Rightarrow> role list \<Rightarrow> access_db \<Rightarrow> (access_db \<times> bool) thrown" where
  "can_manage_url env rq tokenHash l allowed db =
     (if has_valid_management_token (ae_sha (xe_auth env)) rq tokenHash then Inr (db, True)
      else (case current_user_id env rq db of (db1, u) \<Rightarrow>
        (if (case Option.bind u (\<lambda>i. role_for_user (xa_team db) i l) of None \<Rightarrow> False | Some r \<Rightarrow> r \<in> set allowed)
         then Inr (db1, True)
         else (case key_of_request env rq db1 of
             Inl e \<Rightarrow> Inl e
           | Inr (db2, None) \<Rightarrow> Inr (db2, False)
           | Inr (db2, Some a) \<Rightarrow>
              (if \<not> has_any_api_scope a (if Viewer \<in> set allowed \<or> Analyst \<in> set allowed then ANALYTICS_READ_SCOPES else LINK_WRITE_SCOPES)
               then Inr (db2, False)
               else Inr (db2, case role_for_user (xa_team db) (aa_userId a) l of None \<Rightarrow> False | Some r \<Rightarrow> r \<in> set allowed))))))"

section \<open>What an answer needs\<close>

definition session_speaks_for :: "access_env \<Rightarrow> request \<Rightarrow> access_db \<Rightarrow> string \<Rightarrow> bool" where
  "session_speaks_for env rq db user =
     (case session_cookie rq of None \<Rightarrow> False
      | Some t \<Rightarrow> (case session_by_token (xe_auth env) (xa_auth db) t of None \<Rightarrow> False
        | Some s \<Rightarrow> session_live (xe_now env) s \<and> se_userId s = user))"

definition key_speaks_for :: "access_env \<Rightarrow> request \<Rightarrow> access_db \<Rightarrow> string list \<Rightarrow> string \<Rightarrow> bool" where
  "key_speaks_for env rq db scopes user =
     (case extract_api_key rq of None \<Rightarrow> False
      | Some key \<Rightarrow> list_ex (\<lambda>k. ak_keyHash k = ae_sha (xe_auth env) key \<and> key_live (xe_now env) k \<and> ak_userId k = user
          \<and> ip_allowed (get_client_ip (xe_hops env) rq) (ak_allowedIps k) = Some True
          \<and> list_ex (\<lambda>s. s = ''*'' \<or> s \<in> set scopes) (scopes_of (ak_scopes k))) (xa_keys db))"

lemma current_user_frame:
  "current_user_id env rq db = (db', u) \<Longrightarrow> xa_keys db' = xa_keys db \<and> xa_team db' = xa_team db"
  by (auto simp: current_user_id_def split: prod.splits)

lemma current_user_speaks:
  assumes "current_user_id env rq db = (db', Some u)"
  shows "session_speaks_for env rq db u"
proof -
  obtain s v where "get_current_session (xe_auth env) (xe_now env) rq (xa_auth db) = (xa_auth db', Some s)"
    "user_by_id (xa_auth db) (se_userId s) = Some v" "us_id v = u" "db' = db\<lparr>xa_auth := xa_auth db'\<rparr>"
    using assms by (auto simp: current_user_id_def get_current_user_def split: prod.splits bind_splits)
  moreover from this(2) have "us_id v = se_userId s" by (auto simp: user_by_id_def dest: find_SomeD)
  ultimately show ?thesis
    by (auto simp: session_speaks_for_def get_current_session_def str_truthy_iff split: option.splits if_splits)
qed

lemma key_speaks:
  assumes "key_of_request env rq db = Inr (db', Some a)" "has_any_api_scope a scopes"
  shows "key_speaks_for env rq db scopes (aa_userId a)"
proof -
  obtain key k where k: "extract_api_key rq = Some key" "find (\<lambda>k. ak_keyHash k = ae_sha (xe_auth env) key) (xa_keys db) = Some k"
    "key_live (xe_now env) k" "ip_allowed (get_client_ip (xe_hops env) rq) (ak_allowedIps k) = Some True"
    "aa_userId a = ak_userId k" "aa_scopes a = scopes_of (ak_scopes k)"
    using assms(1) by (auto simp: key_of_request_def authenticate_api_key_def map_sum_def split: sum.splits option.splits if_splits bool.splits)
  have "list_ex (\<lambda>s. s = ''*'' \<or> s \<in> set scopes) (scopes_of (ak_scopes k))"
    using assms(2) k(6) by (auto simp: has_any_api_scope_def has_api_scope_def list_ex_iff)
  then show ?thesis using k find_SomeD [OF k(2)] unfolding key_speaks_for_def list_ex_iff [of _ "xa_keys db"] by auto
qed

lemma key_frame: "key_of_request env rq db = Inr (db', a) \<Longrightarrow> xa_team db' = xa_team db"
  by (auto simp: key_of_request_def map_sum_def split: sum.splits)

definition needed_scopes :: "role list \<Rightarrow> string list" where
  "needed_scopes allowed = (if Viewer \<in> set allowed \<or> Analyst \<in> set allowed then ANALYTICS_READ_SCOPES else LINK_WRITE_SCOPES)"

lemma manage_cases:
  assumes "can_manage_url env rq tok l allowed db = Inr (db', True)"
  shows "has_valid_management_token (ae_sha (xe_auth env)) rq tok
    \<or> (\<exists>u r. role_for_user (xa_team db) u l = Some r \<and> r \<in> set allowed
         \<and> (session_speaks_for env rq db u \<or> key_speaks_for env rq db (needed_scopes allowed) u))"
proof (cases "has_valid_management_token (ae_sha (xe_auth env)) rq tok")
  case False
  obtain db1 u where c: "current_user_id env rq db = (db1, u)" by (metis surj_pair)
  note frame = current_user_frame [OF c]
  show ?thesis
  proof (cases "case Option.bind u (\<lambda>i. role_for_user (xa_team db) i l) of None \<Rightarrow> False | Some r \<Rightarrow> r \<in> set allowed")
    case True
    then show ?thesis using c current_user_speaks by (cases u) (fastforce split: option.splits)+
  next
    case no: False
    obtain db2 a where k: "key_of_request env rq db1 = Inr (db2, Some a)"
      "has_any_api_scope a (needed_scopes allowed)"
      "case role_for_user (xa_team db) (aa_userId a) l of None \<Rightarrow> False | Some r \<Rightarrow> r \<in> set allowed"
      using assms False no c by (auto simp: can_manage_url_def needed_scopes_def split: sum.splits option.splits if_splits)
    have "key_speaks_for env rq db1 (needed_scopes allowed) (aa_userId a)" using key_speaks k by blast
    then have "key_speaks_for env rq db (needed_scopes allowed) (aa_userId a)"
      unfolding key_speaks_for_def by (simp only: frame)
    then show ?thesis using k(3) by (auto split: option.splits)
  qed
qed simp

section \<open>The life of keys\<close>

text \<open>Rotations in flight hold the row they read, the grace hours and the time.\<close>

record key_world =
  kw_now :: js_date
  kw_keys :: "api_key_row list"
  kw_rotating :: "(api_key_row \<times> int \<times> js_date) list"

definition fresh_key :: "string \<Rightarrow> string \<Rightarrow> api_key_row list \<Rightarrow> bool" where
  "fresh_key i h keys = (\<forall>k \<in> set keys. ak_id k \<noteq> i \<and> ak_keyHash k \<noteq> h)"

definition new_key :: "string \<Rightarrow> string \<Rightarrow> string \<Rightarrow> string \<Rightarrow> string list \<Rightarrow> js_date option \<Rightarrow> api_key_row" where
  "new_key i h user scopes ips expires = \<lparr>ak_id = i, ak_userId = user, ak_keyHash = h, ak_scopes = scopes, ak_allowedIps = ips,
     ak_expiresAt = expires, ak_revokedAt = None, ak_lastUsedAt = None\<rparr>"

definition MAX_ACTIVE_KEYS :: nat where "MAX_ACTIVE_KEYS = 20"

text \<open>The handlers: creation below the limit, revocation, the allowlist, and the two halves of a rotation.\<close>

definition active_keys :: "string \<Rightarrow> api_key_row list \<Rightarrow> nat" where
  "active_keys user keys = length (filter (\<lambda>k. ak_userId k = user \<and> ak_revokedAt k = None) keys)"

definition create_key :: "string \<Rightarrow> string \<Rightarrow> string \<Rightarrow> string \<Rightarrow> string list \<Rightarrow> js_date option \<Rightarrow> api_key_row list \<Rightarrow> (nat \<times> string) + api_key_row list" where
  "create_key i h user scopes ips expires keys =
     (if active_keys user keys \<ge> MAX_ACTIVE_KEYS then Inl (409, ''Maximum of 20 active API keys reached'')
      else Inr (keys @ [new_key i h user scopes ips expires]))"

definition owned_active :: "string \<Rightarrow> string \<Rightarrow> api_key_row \<Rightarrow> bool" where
  "owned_active i user k = (ak_id k = i \<and> ak_userId k = user \<and> ak_revokedAt k = None)"

definition revoke_key :: "js_date \<Rightarrow> string \<Rightarrow> string \<Rightarrow> api_key_row list \<Rightarrow> api_key_row list" where
  "revoke_key now i user keys = update_rows (owned_active i user) (\<lambda>k. k\<lparr>ak_revokedAt := Some now\<rparr>) keys"

definition patch_key :: "string list \<Rightarrow> string \<Rightarrow> string \<Rightarrow> api_key_row list \<Rightarrow> api_key_row list" where
  "patch_key ips i user keys = update_rows (owned_active i user) (\<lambda>k. k\<lparr>ak_allowedIps := ips\<rparr>) keys"

definition rotate_read :: "js_date \<Rightarrow> string \<Rightarrow> string \<Rightarrow> api_key_row list \<Rightarrow> api_key_row option" where
  "rotate_read now i user keys = (case find (owned_active i user) keys of
       None \<Rightarrow> None | Some k \<Rightarrow> if (case ak_expiresAt k of None \<Rightarrow> False | Some e \<Rightarrow> e \<le> now) then None else Some k)"

definition rotate_write :: "string \<Rightarrow> string \<Rightarrow> api_key_row \<Rightarrow> int \<Rightarrow> js_date \<Rightarrow> api_key_row list \<Rightarrow> api_key_row list" where
  "rotate_write i h old grace now keys =
     update_rows (\<lambda>k. ak_id k = ak_id old)
       (\<lambda>k. if grace = 0 then k\<lparr>ak_revokedAt := Some now\<rparr> else k\<lparr>ak_expiresAt := Some (rotated_key_expiry (ak_expiresAt old) grace now)\<rparr>)
       (keys @ [new_key i h (ak_userId old) (ak_scopes old) (ak_allowedIps old) None])"

inductive key_step :: "(string \<Rightarrow> string) \<Rightarrow> string option \<Rightarrow> key_world \<Rightarrow> key_world \<Rightarrow> bool" for sha hops where
  key_time: "kw_now w \<le> t \<Longrightarrow> key_step sha hops w (w\<lparr>kw_now := t\<rparr>)"
| key_created: "fresh_key i h (kw_keys w) \<Longrightarrow> create_key i h user scopes ips expires (kw_keys w) = Inr ks \<Longrightarrow>
    key_step sha hops w (w\<lparr>kw_keys := ks\<rparr>)"
| key_used: "authenticate_api_key sha hops (kw_now w) rq (kw_keys w) = Inr (ks, a) \<Longrightarrow> key_step sha hops w (w\<lparr>kw_keys := ks\<rparr>)"
| key_revoked: "key_step sha hops w (w\<lparr>kw_keys := revoke_key (kw_now w) i user (kw_keys w)\<rparr>)"
| key_patched: "key_step sha hops w (w\<lparr>kw_keys := patch_key ips i user (kw_keys w)\<rparr>)"
| key_rotating: "rotate_read (kw_now w) i user (kw_keys w) = Some k \<Longrightarrow>
    key_step sha hops w (w\<lparr>kw_rotating := (k, grace, kw_now w) # kw_rotating w\<rparr>)"
| key_rotated: "(k, grace, now) \<in> set (kw_rotating w) \<Longrightarrow> fresh_key i h (kw_keys w) \<Longrightarrow>
    key_step sha hops w (w\<lparr>kw_keys := rotate_write i h k grace now (kw_keys w), kw_rotating := remove1 (k, grace, now) (kw_rotating w)\<rparr>)"

inductive key_run :: "(string \<Rightarrow> string) \<Rightarrow> string option \<Rightarrow> key_world \<Rightarrow> key_world \<Rightarrow> bool" for sha hops w where
  key_here: "key_run sha hops w w"
| key_on: "key_run sha hops w v \<Longrightarrow> key_step sha hops v v' \<Longrightarrow> key_run sha hops w v'"

text \<open>What happens to the rows of one hash: they stay, keep their owner and scopes, and once revoked stay revoked.\<close>

definition key_later :: "api_key_row \<Rightarrow> api_key_row \<Rightarrow> bool" where
  "key_later k k' = (ak_keyHash k' = ak_keyHash k \<and> ak_userId k' = ak_userId k \<and> ak_scopes k' = ak_scopes k
     \<and> (ak_revokedAt k \<noteq> None \<longrightarrow> ak_revokedAt k' \<noteq> None))"

definition keys_of_hash :: "string \<Rightarrow> api_key_row list \<Rightarrow> api_key_row list" where
  "keys_of_hash h keys = filter (\<lambda>k. ak_keyHash k = h) keys"

lemma key_later_refl [simp]: "key_later k k"
  by (simp add: key_later_def)

lemma keys_of_hash_update:
  assumes "\<And>k. key_later k (f k)"
  shows "list_all2 key_later (keys_of_hash h keys) (keys_of_hash h (update_rows P f keys))"
proof (induction keys)
  case (Cons k keys)
  have "ak_keyHash (f k) = ak_keyHash k" using assms by (simp add: key_later_def)
  then show ?case using Cons assms by (auto simp: keys_of_hash_def update_rows_def)
qed (simp add: keys_of_hash_def update_rows_def)

lemma key_later_list_refl [simp]: "list_all2 key_later xs xs"
  by (induction xs) auto

lemma keys_of_hash_fresh: "fresh_key i h keys \<Longrightarrow> k \<in> set (keys_of_hash g keys) \<Longrightarrow>
    keys_of_hash g (keys @ [new_key i h u s ips e]) = keys_of_hash g keys"
  by (auto simp: keys_of_hash_def fresh_key_def new_key_def)

lemma key_step_later:
  assumes "key_step sha hops w w'" "keys_of_hash h (kw_keys w) \<noteq> []"
  shows "list_all2 key_later (keys_of_hash h (kw_keys w)) (keys_of_hash h (kw_keys w'))"
proof -
  obtain k0 where k0: "k0 \<in> set (keys_of_hash h (kw_keys w))" using assms(2) by (meson hd_in_set)
  show ?thesis using assms(1)
  proof cases
    case (key_created i g user scopes ips expires ks)
    then show ?thesis using keys_of_hash_fresh [OF key_created(2) k0] by (auto simp: create_key_def split: if_splits)
  next
    case (key_used rq ks a)
    then show ?thesis
      by (auto simp: authenticate_api_key_def keys_of_hash_update key_later_def split: option.splits if_splits bool.splits)
  next
    case (key_rotated k grace now i g)
    have "list_all2 key_later (keys_of_hash h (kw_keys w @ [new_key i g (ak_userId k) (ak_scopes k) (ak_allowedIps k) None]))
        (keys_of_hash h (rotate_write i g k grace now (kw_keys w)))"
      unfolding rotate_write_def by (rule keys_of_hash_update) (simp add: key_later_def)
    then show ?thesis using key_rotated(1) keys_of_hash_fresh [OF key_rotated(3) k0] by simp
  qed (auto simp: revoke_key_def patch_key_def key_later_def intro: keys_of_hash_update)
qed

lemma later_list_trans:
  "list_all2 key_later xs ys \<Longrightarrow> list_all2 key_later ys zs \<Longrightarrow> list_all2 key_later xs zs"
  by (rule list_all2_trans [of key_later key_later key_later]) (auto simp: key_later_def)

lemma key_run_later:
  assumes "key_run sha hops w w'" "keys_of_hash h (kw_keys w) \<noteq> []"
  shows "list_all2 key_later (keys_of_hash h (kw_keys w)) (keys_of_hash h (kw_keys w'))"
  using assms(1)
proof induction
  case (key_on v v')
  then have "keys_of_hash h (kw_keys v) \<noteq> []" using assms(2) by (auto dest: list_all2_lengthD)
  then show ?case using key_on key_step_later later_list_trans by blast
qed simp

lemma find_of_hash: "find (\<lambda>k. ak_keyHash k = h) keys = (case keys_of_hash h keys of [] \<Rightarrow> None | k # _ \<Rightarrow> Some k)"
  by (induction keys) (auto simp: keys_of_hash_def)

lemma manage_authority:
  assumes "team_ok (xa_team db)" "link_refs_ok (xa_team db) l" "can_manage_url env rq tok l allowed db = Inr (db', True)"
  shows "has_valid_management_token (ae_sha (xe_auth env)) rq tok
      \<or> (\<exists>u r. role_for_user (xa_team db) u l = Some r \<and> r \<in> set allowed
         \<and> (session_speaks_for env rq db u \<or> key_speaks_for env rq db (needed_scopes allowed) u)
         \<and> visible_url_where (xa_team db) u l
         \<and> (la_userId l = Some u \<or> (\<exists>ws m. la_workspaceId l = Some ws \<and> membership_of (xa_team db) ws u = Some m \<and> r \<le> mb_role m)))"
proof -
  have cap: "la_userId l = Some u \<or> (\<exists>ws m. la_workspaceId l = Some ws \<and> membership_of (xa_team db) ws u = Some m \<and> r \<le> mb_role m)"
    if r: "role_for_user (xa_team db) u l = Some r" for u r
  proof (cases "la_userId l = Some u")
    case False
    then obtain ws where ws: "la_workspaceId l = Some ws" "str_truthy (Some ws)"
      using r by (auto simp: role_for_user_def str_truthy_iff split: if_splits)
    then obtain m where "membership_of (xa_team db) ws u = Some m"
      using r False by (cases "membership_of (xa_team db) ws u") (auto simp: role_for_user_def role_within_folder_def)
    then show ?thesis using r ws False within_folder_le by (auto simp: role_for_user_def)
  qed simp
  have vis: "visible_url_where (xa_team db) u l" if "role_for_user (xa_team db) u l = Some r" for u r
    using visible_iff_role_lemma [OF assms(1,2)] that by simp
  from manage_cases [OF assms(3)] show ?thesis
  proof (elim disjE exE conjE)
    fix u r assume "role_for_user (xa_team db) u l = Some r" "r \<in> set allowed"
      "session_speaks_for env rq db u"
    then show ?thesis using cap vis by blast
  next
    fix u r assume "role_for_user (xa_team db) u l = Some r" "r \<in> set allowed"
      "key_speaks_for env rq db (needed_scopes allowed) u"
    then show ?thesis using cap vis by blast
  qed blast
qed

section \<open>Theorems\<close>

text \<open>
  C31: The filter behind every list of links and the role function behind every change agree: a link is
  listed for a user exactly when the user has a role on it.
\<close>

theorem visible_iff_role:
  assumes "team_ok db" "link_refs_ok db l"
  shows "visible_url_where db user l \<longleftrightarrow> role_for_user db user l \<noteq> None"
  by (rule visible_iff_role_lemma [OF assms])

text \<open>
  C32: \<open>canManageUrl\<close>, the check in front of the routes of a single link, is exact on authority.  It
  answers yes only to a request that presents the link's management token, or speaks through a live
  session or a live API key (within its scopes and addresses) for a user whose role on the link is
  among those allowed; that user finds the link in their lists, and unless they created it the role
  is at most the one they have in the workspace.  It does answer yes to the management token and to
  every signed-in user with an allowed role.
\<close>

theorem manage_needs_authority:
  assumes "team_ok (xa_team db)" "link_refs_ok (xa_team db) l"
  shows "((\<exists>db'. can_manage_url env rq tok l allowed db = Inr (db', True)) \<longrightarrow>
      has_valid_management_token (ae_sha (xe_auth env)) rq tok
      \<or> (\<exists>u r. role_for_user (xa_team db) u l = Some r \<and> r \<in> set allowed
         \<and> (session_speaks_for env rq db u \<or> key_speaks_for env rq db (needed_scopes allowed) u)
         \<and> visible_url_where (xa_team db) u l
         \<and> (la_userId l = Some u \<or> (\<exists>ws m. la_workspaceId l = Some ws \<and> membership_of (xa_team db) ws u = Some m \<and> r \<le> mb_role m))))
    \<and> (has_valid_management_token (ae_sha (xe_auth env)) rq tok
        \<or> (\<exists>u r. snd (current_user_id env rq db) = Some u \<and> role_for_user (xa_team db) u l = Some r \<and> r \<in> set allowed) \<longrightarrow>
      (\<exists>db'. can_manage_url env rq tok l allowed db = Inr (db', True)))"
proof (intro conjI impI)
  assume "\<exists>db'. can_manage_url env rq tok l allowed db = Inr (db', True)"
  then obtain db' where "can_manage_url env rq tok l allowed db = Inr (db', True)" by blast
  then show "has_valid_management_token (ae_sha (xe_auth env)) rq tok
      \<or> (\<exists>u r. role_for_user (xa_team db) u l = Some r \<and> r \<in> set allowed
         \<and> (session_speaks_for env rq db u \<or> key_speaks_for env rq db (needed_scopes allowed) u)
         \<and> visible_url_where (xa_team db) u l
         \<and> (la_userId l = Some u \<or> (\<exists>ws m. la_workspaceId l = Some ws \<and> membership_of (xa_team db) ws u = Some m \<and> r \<le> mb_role m)))"
    by (rule manage_authority [OF assms])
next
  assume "has_valid_management_token (ae_sha (xe_auth env)) rq tok
        \<or> (\<exists>u r. snd (current_user_id env rq db) = Some u \<and> role_for_user (xa_team db) u l = Some r \<and> r \<in> set allowed)"
  then show "\<exists>db'. can_manage_url env rq tok l allowed db = Inr (db', True)"
    by (cases "current_user_id env rq db") (auto simp: can_manage_url_def)
qed

text \<open>
  C33: An API key that has been revoked never authenticates a request again, and a key never changes its
  owner or its scopes, whatever creations, uses, revocations, changes of the allowlist and rotations,
  some of them working with rows read earlier, come after.
\<close>

theorem revoked_keys_stay_revoked:
  assumes "key_run sha hops w w'" "keys_of_hash (sha key) (kw_keys w) = [k]" "extract_api_key rq = Some key"
  shows "(\<exists>k'. keys_of_hash (sha key) (kw_keys w') = [k'] \<and> ak_userId k' = ak_userId k \<and> ak_scopes k' = ak_scopes k)
    \<and> (ak_revokedAt k \<noteq> None \<longrightarrow> authenticate_api_key sha hops (kw_now w') rq (kw_keys w') = Inr (kw_keys w', None))"
proof -
  have "keys_of_hash (sha key) (kw_keys w) \<noteq> []" using assms(2) by simp
  from key_run_later [OF assms(1) this] obtain k' where k': "keys_of_hash (sha key) (kw_keys w') = [k']" "key_later k k'"
    using assms(2) by (auto simp: list_all2_Cons1)
  have "authenticate_api_key sha hops (kw_now w') rq (kw_keys w') = Inr (kw_keys w', None)" if "ak_revokedAt k \<noteq> None"
    using that k' assms(3) by (auto simp: authenticate_api_key_def find_of_hash key_live_def key_later_def)
  then show ?thesis using k' by (auto simp: key_later_def)
qed

section \<open>Sample data\<close>

definition demo_team :: team_db where
  "demo_team = \<lparr>tm_members = [\<lparr>mb_workspaceId = ''w1'', mb_userId = ''u1'', mb_role = Editor\<rparr>, \<lparr>mb_workspaceId = ''w1'', mb_userId = ''u2'', mb_role = Owner\<rparr>],
     tm_folders = [\<lparr>fo_id = ''f1'', fo_workspaceId = ''w1'', fo_name = ''Launch'', fo_restricted = True, fo_access = [(''u1'', Editor)],
       fo_defaultTags = [], fo_defaultUtmTemplateId = None\<rparr>]\<rparr>"

definition shared_link :: link_access where
  "shared_link = \<lparr>la_userId = Some ''u2'', la_workspaceId = Some ''w1'', la_folderId = Some ''f1''\<rparr>"

definition demo_key :: api_key_row where
  "demo_key = \<lparr>ak_id = ''k1'', ak_userId = ''u1'', ak_keyHash = ''#qlk_a_b'', ak_scopes = ''links:write'', ak_allowedIps = [],
     ak_expiresAt = None, ak_revokedAt = None, ak_lastUsedAt = Some 0\<rparr>"

definition key_request :: "string \<Rightarrow> request" where
  "key_request k = \<lparr>rq_header = (\<lambda>n. if n = ''x-api-key'' then Some k else None), rq_cookie = (\<lambda>_. None), rq_params = [], rq_hostname = []\<rparr>"

definition demo_access :: access_db where
  "demo_access = \<lparr>xa_auth = demo_auth_db, xa_keys = [demo_key], xa_team = demo_team\<rparr>"

definition demo_access_env :: access_env where
  "demo_access_env = \<lparr>xe_auth = demo_auth, xe_hops = None, xe_now = 1000\<rparr>"

lemmas demo_team_defs = demo_team_def shared_link_def membership_of_def folder_by_id_def

lemma demo_team_ok: "team_ok demo_team" "link_refs_ok demo_team shared_link"
  by (simp_all add: team_ok_def link_refs_ok_def demo_team_defs)

lemma demo_team_role: "role_for_user demo_team ''u1'' shared_link = Some Editor"
  by (simp add: role_for_user_def role_within_folder_def effective_folder_role_def grant_of_def FOLDER_ADMINS_def lower_role_def demo_team_defs)

lemma visible_iff_role_witness: "visible_url_where demo_team ''u1'' shared_link"
  using visible_iff_role [OF demo_team_ok, of "''u1''"] demo_team_role by simp

lemma demo_key_found: "extract_api_key (key_request ''qlk_a_b'') = Some ''qlk_a_b''"
  by (simp add: extract_api_key_def bearer_or_def key_request_def or_str_def)

lemma demo_key_scopes: "scopes_of ''links:write'' = [''links:write'']"
  by (simp add: scopes_of_def split_runs.simps ws_or_comma_def is_ws_def nonempty_def)

lemma demo_key_ok:
  "key_of_request demo_access_env (key_request ''qlk_a_b'') demo_access =
     Inr (demo_access, Some \<lparr>aa_userId = ''u1'', aa_apiKeyId = ''k1'', aa_scopes = [''links:write'']\<rparr>)"
  by (simp add: key_of_request_def authenticate_api_key_def demo_key_found demo_access_def demo_access_env_def demo_key_def demo_auth_def
      key_live_def ip_allowed_def LAST_USED_THROTTLE_MS_def demo_key_scopes)

lemma demo_no_session: "current_user_id demo_access_env (key_request ''qlk_a_b'') demo_access = (demo_access, None)"
  by (simp add: current_user_id_def get_current_user_def get_current_session_def session_cookie_def key_request_def)

lemma demo_access_team: "xa_team demo_access = demo_team"
  by (simp add: demo_access_def)

lemma demo_manage:
  "can_manage_url demo_access_env (key_request ''qlk_a_b'') None shared_link EDIT_ROLES demo_access = Inr (demo_access, True)"
  by (simp add: can_manage_url_def has_valid_management_token_def demo_no_session demo_key_ok EDIT_ROLES_def has_any_api_scope_def
      has_api_scope_def LINK_WRITE_SCOPES_def demo_team_role demo_access_team)

lemma manage_needs_authority_witness:
  "\<exists>u r. role_for_user demo_team u shared_link = Some r \<and> r \<in> set EDIT_ROLES
     \<and> (session_speaks_for demo_access_env (key_request ''qlk_a_b'') demo_access u
        \<or> key_speaks_for demo_access_env (key_request ''qlk_a_b'') demo_access (needed_scopes EDIT_ROLES) u)
     \<and> visible_url_where demo_team u shared_link"
proof -
  have "\<not> has_valid_management_token (ae_sha (xe_auth demo_access_env)) (key_request ''qlk_a_b'') None"
    by (simp add: has_valid_management_token_def)
  moreover have "\<exists>db'. can_manage_url demo_access_env (key_request ''qlk_a_b'') None shared_link EDIT_ROLES demo_access = Inr (db', True)"
    using demo_manage by blast
  ultimately show ?thesis
    using manage_needs_authority [of demo_access shared_link demo_access_env "key_request ''qlk_a_b''" None EDIT_ROLES] demo_team_ok
    unfolding demo_access_team by blast
qed

definition demo_key_world :: key_world where
  "demo_key_world = \<lparr>kw_now = 1000, kw_keys = [demo_key\<lparr>ak_revokedAt := Some 900\<rparr>], kw_rotating = []\<rparr>"

lemma revoked_keys_stay_revoked_witness:
  "authenticate_api_key (ae_sha demo_auth) None 2000 (key_request ''qlk_a_b'') [demo_key\<lparr>ak_revokedAt := Some 900\<rparr>]
     = Inr ([demo_key\<lparr>ak_revokedAt := Some 900\<rparr>], None)"
proof -
  have run: "key_run (ae_sha demo_auth) None demo_key_world (demo_key_world\<lparr>kw_now := 2000\<rparr>)"
    by (rule key_on [OF key_here key_time]) (simp add: demo_key_world_def)
  have "keys_of_hash (ae_sha demo_auth ''qlk_a_b'') (kw_keys demo_key_world) = [demo_key\<lparr>ak_revokedAt := Some 900\<rparr>]"
    by (simp add: keys_of_hash_def demo_key_world_def demo_key_def demo_auth_def)
  from revoked_keys_stay_revoked [OF run this demo_key_found] show ?thesis
    by (simp add: demo_key_world_def)
qed

section \<open>What the handlers leave open\<close>

text \<open>
  A rotation that read its key before a revocation writes its replacement after it: the replacement is
  live, with the owner and the scopes of the revoked key.
\<close>

lemma rotation_outlives_revocation:
  assumes "rotate_read now i user keys = Some k" "fresh_key j h keys"
  shows "\<exists>k' \<in> set (rotate_write j h k grace now (revoke_key now i user keys)).
    ak_keyHash k' = h \<and> key_live now k' \<and> ak_userId k' = user \<and> ak_scopes k' = ak_scopes k"
proof -
  have k: "k \<in> set keys" "owned_active i user k"
    using assms(1) by (auto simp: rotate_read_def split: option.splits if_splits dest: find_SomeD)
  then have "ak_id k \<noteq> j" using assms(2) by (auto simp: fresh_key_def)
  then show ?thesis using k(2)
    by (auto simp: rotate_write_def update_rows_def new_key_def key_live_def owned_active_def)
qed

text \<open>Rotating keeps the old key active during its grace: the limit on active keys does not bound rotations.\<close>

lemma count_update_rows:
  "(\<And>x. P (f x) = P x) \<Longrightarrow> length (filter P (update_rows Q f xs)) = length (filter P xs)"
  by (induction xs) (auto simp: update_rows_def)

lemma rotation_ignores_limit:
  assumes "rotate_read now i user keys = Some k" "fresh_key j h keys" "grace > 0"
  shows "active_keys user (rotate_write j h k grace now keys) = Suc (active_keys user keys)"
proof -
  have "ak_userId k = user"
    using assms(1) by (auto simp: rotate_read_def owned_active_def split: option.splits if_splits dest: find_SomeD)
  then show ?thesis using assms(3) unfolding active_keys_def rotate_write_def
    by (subst count_update_rows) (simp_all add: new_key_def)
qed

text \<open>A request with a read-only key and a session cookie changes links with the rights of the session.\<close>

lemma session_wins_over_key:
  assumes "current_user_id env rq db = (db1, Some u)" "role_for_user (xa_team db) u l = Some r" "r \<in> set allowed"
  shows "can_manage_url env rq tok l allowed db \<in> {Inr (db, True), Inr (db1, True)}"
  using assms by (simp add: can_manage_url_def)

section \<open>The bulk editor\<close>

text \<open>
  \<open>applyBulkEdit\<close> finds links by the filter of the lists and then asks for the role in the workspace;
  \<open>undoBulkEdit\<close> writes to every visible link of the batch.
\<close>

definition bulk_may_edit :: "team_db \<Rightarrow> string \<Rightarrow> link_access \<Rightarrow> bool" where
  "bulk_may_edit db user l =
     (visible_url_where db user l \<and>
      (if str_truthy (la_workspaceId l)
       then (case membership_of db (the (la_workspaceId l)) user of None \<Rightarrow> False | Some m \<Rightarrow> mb_role m \<in> set EDIT_ROLES)
       else la_userId l = Some user))"

definition undo_may_write :: "team_db \<Rightarrow> string \<Rightarrow> link_access \<Rightarrow> bool" where
  "undo_may_write db user l = visible_url_where db user l"

text \<open>Outside restricted folders the bulk editor lets an editor of the workspace through exactly like the role function.\<close>

lemma bulk_agrees_outside_folders:
  assumes "team_ok db" "link_refs_ok db l" "la_folderId l = None" "la_userId l \<noteq> Some user"
  shows "bulk_may_edit db user l \<longleftrightarrow> (\<exists>r \<in> set EDIT_ROLES. role_for_user db user l = Some r)"
  using visible_iff_role_lemma [OF assms(1,2), of user] assms(3,4)
  by (auto simp: bulk_may_edit_def role_for_user_def role_within_folder_def split: option.splits)

text \<open>
  In a restricted folder it does not: an editor of the workspace with a viewer's grant on the folder may
  bulk-edit its links, which \<open>canManageUrl\<close> refuses; and a viewer may undo a batch they once wrote.
\<close>

definition viewer_grant_team :: team_db where
  "viewer_grant_team = demo_team\<lparr>tm_folders := map (\<lambda>f. f\<lparr>fo_access := [(''u1'', Viewer)]\<rparr>) (tm_folders demo_team)\<rparr>"

lemma bulk_edit_ignores_folder_grant:
  "role_for_user viewer_grant_team ''u1'' shared_link = Some Viewer \<and> Viewer \<notin> set EDIT_ROLES
   \<and> bulk_may_edit viewer_grant_team ''u1'' shared_link \<and> undo_may_write viewer_grant_team ''u1'' shared_link"
  by (simp add: viewer_grant_team_def role_for_user_def role_within_folder_def effective_folder_role_def grant_of_def FOLDER_ADMINS_def
      lower_role_def EDIT_ROLES_def bulk_may_edit_def undo_may_write_def visible_url_where_def demo_team_defs)

end
