(* ===== verification/Spec2Isabelle.thy ===== *)
theory Spec2Isabelle
  imports RedirectSafety LinkCacheWorld Idempotency StripeBooks ClickDelivery Mfa WebhookFanout WebhookDelivery Access
begin

text \<open>
  A model of QuickLink, a link shortener with workspaces: visitors follow short links, owners
  create and manage them, and the platform counts clicks, attributes sales, pays commissions
  and notifies other systems.  The program is TypeScript on Next.js; what is modelled lies under
  \<open>src/lib\<close> and \<open>src/app\<close>.  Paths below leave out the leading \<open>src/\<close> of the repository.

  \<^bold>\<open>How the parts work together.\<close>  A visit of a short link reaches the redirect handler.  It looks the
  link up through the read cache (which listens to an invalidation bus), asks the gates of the
  link (trash, activity, launch window, expiry, active hours, fence, block list, password), takes
  a unit of every cap (clicks in all, clicks of the day, quota of the workspace), chooses a
  destination (campaign, smart rule, timed swap) and answers with a redirect or a page.  It pushes
  a click on a queue; workers store the clicks, move the counters and send webhooks.  A click token
  travels with the visitor; a sale reported by Stripe is credited to the click, becomes revenue of
  the link and a commission of its owner, and a refund takes both back.

  \<^bold>\<open>Conventions.\<close>  A string is a list of characters below 256; a date is the integer of its
  milliseconds, and the clock is an argument wherever the code reads it.  A row of the database
  is a record with the columns the code reads, a table a finite list or a map from keys.  An
  exception is a left value of a sum, an absent value is \<open>None\<close>.  Cryptography, the URL parser, the
  resolver, the platform's number formatting and other code outside the repository are arguments.
  A function that awaits is split there: every stretch between two awaits is one step, a statement
  of SQL is atomic, and concurrent runs are step relations over worlds that hold the
  database and every call in flight.

  \<^bold>\<open>Foundations.\<close>
  \<^item> \<open>Prelude\<close>: JavaScript's string operations, comparisons and stable sorting; \<open>JsValue\<close>: decoded JSON
    values, \<open>String(v)\<close> and \<open>Number(v)\<close>; \<open>JsonText\<close>: \<open>JSON.stringify\<close> and \<open>JSON.parse\<close> with the proof that
    parsing returns what was written (the parser's fuel is the length of the text and one more,
    shown enough there); \<open>JsDate\<close>: the UTC calendar; \<open>Bytes\<close>: UTF-8, hexadecimal and base64url
    with their round trips; \<open>Http\<close>: requests, URLs and responses.

  \<^bold>\<open>The redirect path.\<close>
  \<^item> \<open>LinkGates\<close> (\<open>lib/geo-fence.ts\<close>, \<open>link-schedule.ts\<close>, \<open>link-lifetime.ts\<close>, \<open>daily-click-cap.ts\<close>,
    \<open>redirect-status.ts\<close>), \<open>ActiveHours\<close> (\<open>active-hours.ts\<close>), \<open>VisitorBlock\<close> (\<open>visitor-block.ts\<close>): validation of each
    setting and the test of a visit; the block list is proved exact on address bits, the next
    opening time is proved to be the first, also across one change of the clock by less than a window.
  \<^item> \<open>RuleSchedule\<close> (\<open>rule-schedule.ts\<close>) and \<open>SmartRouting\<close> (\<open>smart-routing.ts\<close>): the weekly windows agree with a
    reference over the minutes of the week; the rule chosen has the best rank among those that match,
    and a weighted split gives every destination its share of any run of hash values and of all 32-bit ones.
  \<^item> \<open>DestinationPolicy\<close> (\<open>destination-schedule.ts\<close>, \<open>query-forwarding.ts\<close>, \<open>click-id-param.ts\<close>, \<open>redirect.ts\<close>):
    the timed swap in force and what query forwarding may change.
  \<^item> \<open>Campaigns\<close> (\<open>campaigns.ts\<close>): releases that start and end, and the exact outcome of a run over the due
    ones, which takes the first hundred and is not disturbed by another writer inside one transaction.
  \<^item> \<open>Tokens\<close> (\<open>attribution.ts\<close>, \<open>password-gate.ts\<close>): signed click tokens and unlock cookies, round trips included.
  \<^item> \<open>Pixels\<close> and \<open>PreviewPages\<close> (\<open>retargeting-pixels.ts\<close>, \<open>og-preview.ts\<close>): the pages served in between, and that
    no text of a user leaves its place in them: a scanner of tags (text, tags with quoted attributes,
    scripts up to their end tag) finds the tags of the template only.
  \<^item> \<open>LinkCacheBus\<close>, \<open>LinkCache\<close>, \<open>LinkCacheWorld\<close>, \<open>LinkData\<close> (\<open>link-cache-bus.ts\<close>, \<open>link-cache.ts\<close>): messages, entries
    with their bounds and deadlines, the loaders over the tables of links, domain paths and revisions,
    and the world in which time, loads, mutations and invalidations interleave.  A key is dirty from a
    write that changed what its loader returns, now or later, to the next invalidation that reaches
    it; a key that is not dirty is served as its loader would answer.  The locale \<open>evicting_store\<close> states
    what a bounded store promises; it is interpreted on the cache.
  \<^item> \<open>RateLimit\<close> (\<open>rate-limit.ts\<close>): the in-memory and the Redis limiter, both instances of the locale
    \<open>rate_backend\<close>; \<open>two_backends\<close> derives from the laws that they give the same answers.
  \<^item> \<open>TenantUsage\<close>, \<open>ClickAdmission\<close> (\<open>tenant-usage.ts\<close>, \<open>click-admission.ts\<close>): quota rows, leases
    of units, refills and refunds as a step relation over the instances of a cluster, with the
    invariants that units admitted and held never exceed what the bucket has reserved, and that a
    workspace with a quota has no unlimited window.
  \<^item> \<open>RedirectHandler\<close>, \<open>ClickCaps\<close>, \<open>RedirectSafety\<close> (\<open>app/[shortCode]/route.ts\<close>): the handler and what it
    guarantees: the answer to every visit, caps that hold under any interleaving, refused visits that give
    back what they took.

  \<^bold>\<open>Clicks.\<close>
  \<^item> \<open>IpAllowlist\<close>, \<open>ClickIngestion\<close> (\<open>ip-allowlist.ts\<close>, \<open>analytics-exclusions.ts\<close>, \<open>click-ingestion.ts\<close>,
    \<open>privacy-ingestion.ts\<close>, \<open>click-dimensions.ts\<close>): which clicks are left out and what is kept of the others.
  \<^item> \<open>ClickQueue\<close>, \<open>ClickCounts\<close>, \<open>ClickDelivery\<close> (\<open>queue.ts\<close>): batches, the counters they move, and the worlds in
    which workers claim, store, acknowledge, crash and reclaim: every click is counted once, for its link,
    day, dimensions, campaign variant and workspace, although it may be delivered again.

  \<^bold>\<open>Money.\<close>
  \<^item> \<open>Rewards\<close>, \<open>Commissions\<close> (\<open>reward-rules.ts\<close>, \<open>commissions.ts\<close>): rules, the commission of a sale, approval,
    payment, refunds and clawbacks.
  \<^item> \<open>StripeEvents\<close>, \<open>StripeLedger\<close>, \<open>StripeBooks\<close> (\<open>stripe-attribution.ts\<close>): signatures and events, the
    transactions, and runs in which deliveries work with rows read earlier; revenue, conversions and
    commissions agree in every reachable state, daily values on the days where the clocks of handler and
    row agree, and the status of commissions when no pay-out falls into a refund.
  \<^item> \<open>Idempotency\<close> (\<open>idempotency.ts\<close>): claims of a key, replays and takeovers as a step relation.

  \<^bold>\<open>Accounts and notifications.\<close>
  \<^item> \<open>Totp\<close>, \<open>Mfa\<close> (\<open>totp.ts\<close>, \<open>mfa.ts\<close>): base32 with its shift register, one-time codes, enrolment, recovery
    codes; a code or recovery code signs in once.
  \<^item> \<open>Sessions\<close> (\<open>auth.ts\<close>, the handlers under \<open>app/api/auth\<close> and \<open>app/api/account/password\<close>, and of \<open>saml.ts\<close> the
    account a profile signs in): sessions, sign-ins by password, single sign-on and registration,
    changes and resets of passwords as a step relation; what ends a session and what a reset ends.
  \<^item> \<open>Access\<close> (\<open>folders.ts\<close>, \<open>workspaces.ts\<close>, \<open>api-keys.ts\<close>, \<open>request-actor.ts\<close>, \<open>management.ts\<close>, \<open>authorization.ts\<close>):
    roles and folders, the filter of the lists against the role function, the check before a link is
    changed, the life of API keys; and which links bulk edits (\<open>bulk-edit.ts\<close>) let through.
  \<^item> \<open>Webhooks\<close>, \<open>WebhookFanout\<close>, \<open>WebhookDelivery\<close> (\<open>webhooks.ts\<close>, \<open>webhook-filters.ts\<close>, \<open>webhook-health.ts\<close>,
    \<open>webhook-secret-rotation.ts\<close>, \<open>resilience.ts\<close>): filters, tenant isolation of the fan-out, secrets in
    rotation, and workers that claim, post, retry and recover.

  \<^bold>\<open>Bounds and fuel.\<close>  Loops over lists are structural.  \<open>JSON.parse\<close> takes fuel, enough by
  \<open>JsonText\<close>; batches and pages keep the sizes of the code (a batch of the click queue, the entries of the
  cache, the steps of a search for the next opening), written as named constants.  Counters are
  integers and never reach the limits of doubles in the code; where the code works on 32-bit words
  (base32, checksums, hashes) the model does so too.

  \<^bold>\<open>Not modelled.\<close>  Pages and components of the user interface and the API documentation;
  handlers under \<open>app/api\<close> that only validate a body and call a function of \<open>lib\<close>;
  statistics in floating point (experiments, forecasts, anomaly scores, dashboards) and SQL reports; the SAML library and SCIM
  provisioning; DNS, domains, certificates, mail and page fetching; QR rendering; clients under
  \<open>sdk\<close>, \<open>mobile\<close> and \<open>loadtest\<close>.  They are either glue, or arithmetic on doubles whose meaning HOL's real numbers would
  misstate, or calls of services.  Strings with characters from 256 on, and byte order marks, are outside the
  model of strings, and letters change case as in ASCII.  Rows of events, accounts and quotas are
  not deleted in the step relations: retention, erasure and the administration of quotas are left out.
\<close>

end
